(* ===== verification/Npex_Prelude.thy ===== *)
theory Npex_Prelude
  imports Main "HOL-Library.Word" "HOL-Library.Multiset"
begin

text \<open>
  Shared foundations of the development: the machine types the C++ sources use, the failures a
  run of the program can end in, a result type with its sequencing operator, checked indexing of
  \<^verbatim>\<open>std::vector\<close>, the loops over a vector, and the \<^verbatim>\<open>reserve\<close>/\<^verbatim>\<open>push_back\<close> discipline of the
  bounded queues.  The generic lemmas are collected in the named theorems \<open>res_simps\<close> and
  \<open>res_elims\<close>, which the component theories hand to the simplifier and the classical reasoner.
\<close>

unbundle bit_operations_syntax

named_theorems res_simps
named_theorems res_elims

section \<open>Machine integers\<close>

text \<open>
  \<^verbatim>\<open>uint64_t\<close> and \<^verbatim>\<open>uint32_t\<close> are words, so additions wrap as in the program.  \<^verbatim>\<open>int\<close> values that
  come from the configuration or count queue entries are mathematical integers (signed overflow
  has no defined result in C++); the implicit conversions of a \<^verbatim>\<open>uint64_t\<close> to \<^verbatim>\<open>int\<close> are written
  out as \<open>to_int32\<close>.
\<close>

type_synonym u64 = "64 word"
type_synonym u32 = "32 word"

definition to_int32 :: "u64 \<Rightarrow> int" where
  "to_int32 w = sint (ucast w :: 32 word)"

lemma to_int32_small:
  assumes "uint w < 2 ^ 31"
  shows "to_int32 w = uint w"
proof -
  have "signed_take_bit 31 (uint w) = uint w"
    by (rule signed_take_bit_int_eq_self) (use assms in \<open>auto intro: order_trans [OF _ uint_ge_0]\<close>)
  then show ?thesis
    by (simp add: to_int32_def sint_uint unsigned_ucast_eq signed_take_bit_take_bit)
qed

lemma uint_add_of_int:
  assumes "0 \<le> d" "uint (t::u64) + d < 2 ^ 64"
  shows "uint (t + of_int d) = uint t + d"
proof -
  have "uint t + d = take_bit 64 (uint t + d)"
    using assms by (simp add: take_bit_int_eq_self)
  then show ?thesis
    by (simp add: uint_word_ariths(1) uint_word_of_int take_bit_eq_mod mod_add_right_eq)
qed

section \<open>Failures and results\<close>

text \<open>
  \<open>AbruptExit f l\<close> is a call of the function of the same name in file \<open>f\<close>, line \<open>l\<close> (the process
  exits with \<^verbatim>\<open>-1\<close>); \<open>ExitCall n\<close> is \<^verbatim>\<open>exit(n)\<close>; \<open>OutOfRange\<close> is an index outside a
  \<^verbatim>\<open>std::vector\<close> (undefined behaviour) or a failed \<^verbatim>\<open>.at()\<close>; \<open>DivByZero\<close> is an integer division
  by zero; \<open>BadShift\<close> a shift by an amount outside the width; \<open>AssertFailed\<close> a failed \<^verbatim>\<open>assert\<close>; \<open>Thrown\<close> a \<^verbatim>\<open>std::runtime_error\<close>;
  \<open>BadConversion\<close> is a floating-point value outside the range of the integer type it is converted to; \<open>NullPointer\<close> is a use of a null pointer; \<open>Diverges\<close> is a
  loop that is still running after the number of iterations its definition allows.
\<close>

datatype failure =
    AbruptExit string nat
  | ExitCall int
  | OutOfRange
  | DivByZero
  | BadShift
  | AssertFailed
  | Thrown string
  | BadConversion
  | NullPointer
  | Diverges

type_synonym 'a res = "failure + 'a"

definition bindE :: "'a res \<Rightarrow> ('a \<Rightarrow> 'b res) \<Rightarrow> 'b res" where
  "bindE m f = (case m of Inl e \<Rightarrow> Inl e | Inr x \<Rightarrow> f x)"

lemma bindE_Inl [simp]: "bindE (Inl e) f = Inl e"
  by (simp add: bindE_def)

lemma bindE_Inr [simp]: "bindE (Inr x) f = f x"
  by (simp add: bindE_def)

lemma bindE_eq_Inr [res_simps]: "bindE m f = Inr y \<longleftrightarrow> (\<exists>x. m = Inr x \<and> f x = Inr y)"
  by (cases m) auto

lemma bindE_InrE [res_elims]:
  assumes "bindE m f = Inr y"
  obtains x where "m = Inr x" "f x = Inr y"
  using assms by (cases m) auto

lemma bindE_cong [fundef_cong]:
  "m = m' \<Longrightarrow> (\<And>x. m' = Inr x \<Longrightarrow> f x = f' x) \<Longrightarrow> bindE m f = bindE m' f'"
  by (cases m') auto

lemma bindE_assoc: "bindE (bindE m f) g = bindE m (\<lambda>x. bindE (f x) g)"
  by (cases m) auto

text \<open>\<open>succeeds\<close> says that a computation returns normally with a result satisfying a predicate.\<close>

definition succeeds :: "'a res \<Rightarrow> ('a \<Rightarrow> bool) \<Rightarrow> bool" where
  "succeeds m P = (case m of Inl e \<Rightarrow> False | Inr x \<Rightarrow> P x)"

lemma succeeds_Inr [simp]: "succeeds (Inr x) P = P x"
  by (simp add: succeeds_def)

lemma succeeds_Inl [simp]: "\<not> succeeds (Inl e) P"
  by (simp add: succeeds_def)

lemma succeeds_iff: "succeeds m P \<longleftrightarrow> (\<exists>x. m = Inr x \<and> P x)"
  by (cases m) auto

lemma succeedsE [elim?]:
  assumes "succeeds m P"
  obtains x where "m = Inr x" "P x"
  using assms by (auto simp: succeeds_iff)

lemma succeeds_bind:
  assumes "succeeds m Q" "\<And>x. Q x \<Longrightarrow> succeeds (f x) P"
  shows "succeeds (bindE m f) P"
  using assms by (auto simp: succeeds_iff)

lemma succeeds_mono: "succeeds m P \<Longrightarrow> (\<And>x. P x \<Longrightarrow> Q x) \<Longrightarrow> succeeds m Q"
  by (auto simp: succeeds_iff)

section \<open>Vectors\<close>

definition nth_res :: "'a list \<Rightarrow> int \<Rightarrow> 'a res" where
  "nth_res xs i = (if 0 \<le> i \<and> i < int (length xs) then Inr (xs ! nat i) else Inl OutOfRange)"

definition upd_res :: "'a list \<Rightarrow> int \<Rightarrow> 'a \<Rightarrow> 'a list res" where
  "upd_res xs i x =
     (if 0 \<le> i \<and> i < int (length xs) then Inr (xs[nat i := x]) else Inl OutOfRange)"

lemma nth_res_Inr [res_simps]:
  "nth_res xs i = Inr x \<longleftrightarrow> 0 \<le> i \<and> i < int (length xs) \<and> x = xs ! nat i"
  by (auto simp: nth_res_def)

lemma upd_res_Inr [res_simps]:
  "upd_res xs i x = Inr ys \<longleftrightarrow> 0 \<le> i \<and> i < int (length xs) \<and> ys = xs[nat i := x]"
  by (auto simp: upd_res_def)

lemma nth_res_in: "0 \<le> i \<Longrightarrow> i < int (length xs) \<Longrightarrow> nth_res xs i = Inr (xs ! nat i)"
  by (simp add: nth_res_def)

lemma upd_res_in: "0 \<le> i \<Longrightarrow> i < int (length xs) \<Longrightarrow> upd_res xs i x = Inr (xs[nat i := x])"
  by (simp add: upd_res_def)

text \<open>The indices \<^verbatim>\<open>0 .. n - 1\<close> of a counting loop over an \<^verbatim>\<open>int\<close>.\<close>

definition int_range :: "int \<Rightarrow> int list" where
  "int_range n = map int [0..<nat n]"

lemma set_int_range [simp]: "set (int_range n) = {i. 0 \<le> i \<and> i < n}"
proof -
  have "int ` {0..<nat n} = {i. 0 \<le> i \<and> i < n}"
    by (auto simp: image_iff intro!: bexI [where x = "nat _"])
  then show ?thesis by (simp add: int_range_def)
qed

lemma distinct_int_range [simp]: "distinct (int_range n)"
  by (simp add: int_range_def distinct_map inj_on_def)

lemma length_int_range [simp]: "length (int_range n) = nat n"
  by (simp add: int_range_def)

text \<open>A loop whose body may fail: the first failure ends the loop.\<close>

fun fold_res :: "('a \<Rightarrow> 's \<Rightarrow> 's res) \<Rightarrow> 'a list \<Rightarrow> 's \<Rightarrow> 's res" where
  "fold_res f [] s = Inr s"
| "fold_res f (x # xs) s = bindE (f x s) (fold_res f xs)"

lemma fold_res_append:
  "fold_res f (xs @ ys) s = bindE (fold_res f xs s) (fold_res f ys)"
proof (induction xs arbitrary: s)
  case (Cons x xs)
  then have "fold_res f (xs @ ys) = (\<lambda>s. bindE (fold_res f xs s) (fold_res f ys))" by blast
  then show ?case by (simp add: bindE_assoc)
qed simp

lemma fold_res_invariant:
  assumes "I s" "\<And>x s. x \<in> set xs \<Longrightarrow> I s \<Longrightarrow> succeeds (f x s) I"
  shows "succeeds (fold_res f xs s) I"
  using assms
proof (induction xs arbitrary: s)
  case (Cons x xs)
  show ?case
    unfolding fold_res.simps
    by (rule succeeds_bind [where Q = I]) (use Cons in auto)
qed simp

lemma fold_res_invariant_Inr:
  assumes "fold_res f xs s = Inr s'" "I s"
    and "\<And>x s s'. x \<in> set xs \<Longrightarrow> I s \<Longrightarrow> f x s = Inr s' \<Longrightarrow> I s'"
  shows "I s'"
  using assms
proof (induction xs arbitrary: s)
  case (Cons x xs)
  from Cons.prems(1) obtain t where t: "f x s = Inr t" "fold_res f xs t = Inr s'"
    by (auto simp: res_simps)
  have "I t" using Cons.prems t(1) by auto
  with Cons.IH [OF t(2)] Cons.prems(3) show ?case by auto
qed simp

section \<open>Bounded queues\<close>

text \<open>
  The transaction queues are vectors on which \<^verbatim>\<open>reserve(n)\<close> is called once, while empty, and whose
  \<^verbatim>\<open>capacity()\<close> is then used as the queue's bound.  \<open>vec_cap\<close> is that capacity: \<^verbatim>\<open>reserve\<close> on an
  empty vector allocates exactly what is asked for, and \<^verbatim>\<open>push_back\<close> on a full vector doubles it,
  as the implementations of the standard library do.
\<close>

record 'a vec =
  vec_items :: "'a list"
  vec_cap :: nat

definition vec_reserve :: "int \<Rightarrow> 'a vec" where
  "vec_reserve n = \<lparr>vec_items = [], vec_cap = nat n\<rparr>"

definition vec_push_back :: "'a vec \<Rightarrow> 'a \<Rightarrow> 'a vec" where
  "vec_push_back v x =
     v\<lparr>vec_items := vec_items v @ [x],
       vec_cap := (if length (vec_items v) < vec_cap v then vec_cap v
                   else max 1 (2 * vec_cap v))\<rparr>"

lemma vec_push_back_items [simp]: "vec_items (vec_push_back v x) = vec_items v @ [x]"
  by (simp add: vec_push_back_def)

lemma vec_push_back_cap:
  "length (vec_items v) < vec_cap v \<Longrightarrow> vec_cap (vec_push_back v x) = vec_cap v"
  by (simp add: vec_push_back_def)

text \<open>\<^verbatim>\<open>v.erase(v.begin() + n)\<close>.\<close>

definition erase_at :: "nat \<Rightarrow> 'a list \<Rightarrow> 'a list" where
  "erase_at n xs = take n xs @ drop (Suc n) xs"

lemma mset_erase_at:
  "n < length xs \<Longrightarrow> add_mset (xs ! n) (mset (erase_at n xs)) = mset xs"
proof -
  assume n: "n < length xs"
  have "mset xs = mset (take n xs @ xs ! n # drop (Suc n) xs)"
    by (simp only: id_take_nth_drop [OF n, symmetric])
  then show ?thesis by (simp add: erase_at_def)
qed

lemma length_erase_at: "n < length xs \<Longrightarrow> length (erase_at n xs) = length xs - 1"
  by (auto simp: erase_at_def)

lemma set_erase_at: "set (erase_at n xs) \<subseteq> set xs"
  by (auto simp: erase_at_def dest: in_set_takeD in_set_dropD)

text \<open>Erasing the first element that satisfies a predicate, if there is one.\<close>

fun erase_first :: "('a \<Rightarrow> bool) \<Rightarrow> 'a list \<Rightarrow> 'a list" where
  "erase_first P [] = []"
| "erase_first P (x # xs) = (if P x then xs else x # erase_first P xs)"

lemma erase_first_none: "\<not> (\<exists>x \<in> set xs. P x) \<Longrightarrow> erase_first P xs = xs"
  by (induction xs) auto

lemma set_erase_first: "set (erase_first P xs) \<subseteq> set xs"
  by (induction xs) auto

lemma length_erase_first: "length (erase_first P xs) \<le> length xs"
  by (induction xs) auto

lemma erase_first_find:
  "(\<exists>x \<in> set xs. P x) \<Longrightarrow>
     \<exists>y. find P xs = Some y \<and> P y \<and> y \<in> set xs \<and> mset xs = add_mset y (mset (erase_first P xs))"
  by (induction xs) auto

end
