(* ===== verification/Dram_Common.thy ===== *)
theory Dram_Common
  imports Npex_Prelude
begin

text \<open>
  The data types and helpers of \<^verbatim>\<open>DRAMsim3/src/common.h\<close> and \<^verbatim>\<open>common.cc\<close>: decoded addresses,
  commands, transactions, bit selection, the integer logarithm and the string splitter.
\<close>

section \<open>Addresses, commands, transactions\<close>

record Address =
  ad_channel :: int
  ad_rank :: int
  ad_bankgroup :: int
  ad_bank :: int
  ad_row :: int
  ad_column :: int

definition mk_Address :: "int \<Rightarrow> int \<Rightarrow> int \<Rightarrow> int \<Rightarrow> int \<Rightarrow> int \<Rightarrow> Address" where
  "mk_Address ch ra bg ba ro co =
     \<lparr>ad_channel = ch, ad_rank = ra, ad_bankgroup = bg, ad_bank = ba, ad_row = ro, ad_column = co\<rparr>"

definition Address_default :: Address where
  "Address_default = mk_Address (-1) (-1) (-1) (-1) (-1) (-1)"

datatype CommandType =
    READ
  | READ_PRECHARGE
  | WRITE
  | WRITE_PRECHARGE
  | ACTIVATE
  | PRECHARGE
  | REFRESH_BANK
  | REFRESH
  | SREF_ENTER
  | SREF_EXIT
  | CMD_SIZE

record Command =
  cmd_type :: CommandType
  addr :: Address
  hex_addr :: u64

definition mk_Command :: "CommandType \<Rightarrow> Address \<Rightarrow> u64 \<Rightarrow> Command" where
  "mk_Command ct a h = \<lparr>cmd_type = ct, addr = a, hex_addr = h\<rparr>"

definition Command_default :: Command where
  "Command_default = mk_Command CMD_SIZE Address_default 0"

lemma mk_Command_simps [simp]:
  "cmd_type (mk_Command ct a h) = ct"
  "addr (mk_Command ct a h) = a"
  "hex_addr (mk_Command ct a h) = h"
  by (simp_all add: mk_Command_def)

lemma mk_Address_simps [simp]:
  "ad_channel (mk_Address ch ra bg ba ro co) = ch"
  "ad_rank (mk_Address ch ra bg ba ro co) = ra"
  "ad_bankgroup (mk_Address ch ra bg ba ro co) = bg"
  "ad_bank (mk_Address ch ra bg ba ro co) = ba"
  "ad_row (mk_Address ch ra bg ba ro co) = ro"
  "ad_column (mk_Address ch ra bg ba ro co) = co"
  by (simp_all add: mk_Address_def)

definition IsValid :: "Command \<Rightarrow> bool" where
  "IsValid c = (cmd_type c \<noteq> CMD_SIZE)"

definition IsRefresh :: "Command \<Rightarrow> bool" where
  "IsRefresh c = (cmd_type c = REFRESH \<or> cmd_type c = REFRESH_BANK)"

definition IsRead :: "Command \<Rightarrow> bool" where
  "IsRead c = (cmd_type c = READ \<or> cmd_type c = READ_PRECHARGE)"

definition IsWrite :: "Command \<Rightarrow> bool" where
  "IsWrite c = (cmd_type c = WRITE \<or> cmd_type c = WRITE_PRECHARGE)"

definition IsReadWrite :: "Command \<Rightarrow> bool" where
  "IsReadWrite c = (IsRead c \<or> IsWrite c)"

definition IsRankCMD :: "Command \<Rightarrow> bool" where
  "IsRankCMD c = (cmd_type c = REFRESH \<or> cmd_type c = SREF_ENTER \<or> cmd_type c = SREF_EXIT)"

lemma not_IsValid_default [simp]: "\<not> IsValid Command_default"
  by (simp add: IsValid_def Command_default_def)

lemmas command_kind_defs =
  IsValid_def IsRefresh_def IsRead_def IsWrite_def IsReadWrite_def IsRankCMD_def

abbreviation Channel :: "Command \<Rightarrow> int" where "Channel c \<equiv> ad_channel (addr c)"
abbreviation Rank :: "Command \<Rightarrow> int" where "Rank c \<equiv> ad_rank (addr c)"
abbreviation Bankgroup :: "Command \<Rightarrow> int" where "Bankgroup c \<equiv> ad_bankgroup (addr c)"
abbreviation Bank :: "Command \<Rightarrow> int" where "Bank c \<equiv> ad_bank (addr c)"
abbreviation Row :: "Command \<Rightarrow> int" where "Row c \<equiv> ad_row (addr c)"
abbreviation Column :: "Command \<Rightarrow> int" where "Column c \<equiv> ad_column (addr c)"

record Transaction =
  tr_addr :: u64
  added_cycle :: u64
  complete_cycle :: u64
  is_write :: bool

definition mk_Transaction :: "u64 \<Rightarrow> bool \<Rightarrow> Transaction" where
  "mk_Transaction a w = \<lparr>tr_addr = a, added_cycle = 0, complete_cycle = 0, is_write = w\<rparr>"

lemma mk_Transaction_simps [simp]:
  "tr_addr (mk_Transaction a w) = a"
  "is_write (mk_Transaction a w) = w"
  by (simp_all add: mk_Transaction_def)

section \<open>Bit selection\<close>

definition ModuloWidth :: "u64 \<Rightarrow> nat \<Rightarrow> nat \<Rightarrow> u32" where
  "ModuloWidth a bit_width pos =
     (let a1 = drop_bit pos a;
          store = a1;
          a2 = drop_bit bit_width a1;
          a3 = push_bit bit_width a2
      in ucast (store XOR a3))"

definition GetBitInPos :: "u64 \<Rightarrow> nat \<Rightarrow> int" where
  "GetBitInPos bits pos = to_int32 (drop_bit pos bits AND 1)"

lemma ModuloWidth_eq_field:
  "ModuloWidth a w p = ucast (take_bit w (drop_bit p a))"
proof -
  let ?x = "drop_bit p a"
  have "?x XOR push_bit w (drop_bit w ?x) = take_bit w ?x"
    by (rule bit_eqI) (auto simp: bit_simps)
  then show ?thesis
    by (simp add: ModuloWidth_def Let_def)
qed

lemma GetBitInPos_eq: "GetBitInPos bits pos = (if bit bits pos then 1 else 0)"
proof -
  have eq: "drop_bit pos bits AND 1 = of_bool (bit bits pos)"
    by (simp add: and_one_eq bit_iff_odd_drop_bit mod_2_eq_odd)
  show ?thesis
    unfolding GetBitInPos_def eq by (simp add: to_int32_small)
qed

section \<open>The integer logarithm\<close>

text \<open>The \<^verbatim>\<open>while (power_of_two > 1)\<close> loop; for arguments above one the division is exact to floor.\<close>

function LogBase2_loop :: "int \<Rightarrow> int \<Rightarrow> int" where
  "LogBase2_loop n i = (if n > 1 then LogBase2_loop (n div 2) (i + 1) else i)"
  by pat_completeness auto
termination
  by (relation "measure (\<lambda>(n, i). nat n)") auto

declare LogBase2_loop.simps [simp del]

definition LogBase2 :: "int \<Rightarrow> int" where
  "LogBase2 power_of_two = LogBase2_loop power_of_two 0"

lemma LogBase2_loop_spec:
  assumes "n \<ge> 1"
  shows "i \<le> LogBase2_loop n i \<and> 2 ^ nat (LogBase2_loop n i - i) \<le> n
    \<and> n < 2 * 2 ^ nat (LogBase2_loop n i - i)"
  using assms
proof (induction n i rule: LogBase2_loop.induct)
  case (1 n i)
  show ?case
  proof (cases "n > 1")
    case True
    let ?k = "LogBase2_loop (n div 2) (i + 1)"
    have IH: "i + 1 \<le> ?k" "2 ^ nat (?k - (i + 1)) \<le> n div 2" "n div 2 < 2 * 2 ^ nat (?k - (i + 1))"
      using "1.IH" [OF True] True by auto
    have "nat (?k - i) = Suc (nat (?k - (i + 1)))"
      using IH(1) by (simp add: nat_diff_distrib Suc_nat_eq_nat_zadd1)
    then have "(2::int) ^ nat (?k - i) = 2 * 2 ^ nat (?k - (i + 1))" by simp
    moreover have "LogBase2_loop n i = ?k"
      using True by (simp add: LogBase2_loop.simps [of n i])
    moreover have "2 * (n div 2) \<le> n" "n < 2 * (n div 2) + 2" by linarith+
    ultimately show ?thesis using IH by (auto simp del: Suc_nat_eq_nat_zadd1)
  next
    case False
    with "1.prems" have "n = 1" by simp
    then show ?thesis by (simp add: LogBase2_loop.simps [of 1 i])
  qed
qed

lemma LogBase2_nonneg: "0 \<le> LogBase2 n"
proof (cases "n \<ge> 1")
  case True
  then show ?thesis using LogBase2_loop_spec [of n 0] by (simp add: LogBase2_def)
next
  case False
  then show ?thesis by (simp add: LogBase2_def LogBase2_loop.simps [of n 0])
qed

lemma LogBase2_le:
  "n \<ge> 1 \<Longrightarrow> 2 ^ nat (LogBase2 n) \<le> n"
  using LogBase2_loop_spec [of n 0] by (simp add: LogBase2_def)

lemma LogBase2_power: "LogBase2 (2 ^ k) = int k"
proof -
  have "2 ^ nat (LogBase2 (2 ^ k)) \<le> (2::int) ^ k" "(2::int) ^ k < 2 ^ Suc (nat (LogBase2 (2 ^ k)))"
    using LogBase2_loop_spec [of "2 ^ k" 0] by (simp_all add: LogBase2_def)
  then have "nat (LogBase2 (2 ^ k)) \<le> k" "k < Suc (nat (LogBase2 (2 ^ k)))"
    by (simp, meson power_strict_increasing_iff one_less_numeral_iff semiring_norm(76))
  then show ?thesis using LogBase2_nonneg [of "2 ^ k"] by linarith
qed

section \<open>Splitting strings\<close>

text \<open>
  \<^verbatim>\<open>std::getline\<close> on a string stream yields the maximal runs between delimiters; empty items are
  dropped.
\<close>

fun StringSplit_loop :: "char \<Rightarrow> string \<Rightarrow> string \<Rightarrow> string list" where
  "StringSplit_loop delim item [] = (if item = [] then [] else [item])"
| "StringSplit_loop delim item (c # cs) =
     (if c = delim
      then (if item = [] then StringSplit_loop delim [] cs else item # StringSplit_loop delim [] cs)
      else StringSplit_loop delim (item @ [c]) cs)"

definition StringSplit :: "string \<Rightarrow> char \<Rightarrow> string list" where
  "StringSplit s delim = StringSplit_loop delim [] s"

lemma StringSplit_loop_items:
  "delim \<notin> set item \<Longrightarrow> x \<in> set (StringSplit_loop delim item s) \<Longrightarrow> x \<noteq> [] \<and> delim \<notin> set x"
  by (induction delim item s rule: StringSplit_loop.induct) (auto split: if_splits)

lemma StringSplit_loop_concat:
  "delim \<notin> set item \<Longrightarrow>
     concat (StringSplit_loop delim item s) = item @ filter (\<lambda>c. c \<noteq> delim) s"
  by (induction delim item s rule: StringSplit_loop.induct) (auto split: if_splits)

end
