(* ===== verification/Dram_Config.thy ===== *)
theory Dram_Config
  imports Dram_Common "HOL-Library.Signed_Division"
begin

text \<open>
  \<^verbatim>\<open>DRAMsim3/src/configuration.h\<close> and \<^verbatim>\<open>configuration.cc\<close>: the configuration object, its
  initialisation from an INI file, the derivation of the number of ranks, and the mapping of a
  physical address to its channel, rank, bank group, bank, row and column.  The fields of the
  class are grouped as the header groups them: physical structure (\<open>dram\<close>), address mapping
  numbers (\<open>amap\<close>), timing parameters (\<open>tim\<close>) and system parameters (\<open>sys\<close>).  The INI reader is
  third-party code and a parameter; power, thermal and file-name parameters are not modelled.
\<close>

section \<open>The configuration record\<close>

datatype DRAMProtocol =
    DDR3 | DDR4 | GDDR5 | GDDR5X | GDDR6 | LPDDR | LPDDR3 | LPDDR4 | LPDDR5 | HBM | HBM2 | HMC
  | PROTO_SIZE

datatype RefreshPolicy =
    RANK_LEVEL_SIMULTANEOUS | RANK_LEVEL_STAGGERED | BANK_LEVEL_STAGGERED | REF_SIZE

datatype RowBufPolicy = OPEN_PAGE | CLOSE_PAGE | ROWBUF_SIZE

record dram_params =
  protocol :: DRAMProtocol
  channel_size :: int
  channels :: int
  ranks :: int
  banks :: int
  bankgroups :: int
  banks_per_group :: int
  rows :: int
  columns :: int
  device_width :: int
  bus_width :: int
  devices_per_rank :: int
  BL :: int
  num_dies :: int
  enable_hbm_dual_cmd :: bool
  num_links :: int
  link_width :: int
  link_speed :: int
  block_size :: int
  xbar_queue_depth :: int

record addr_params =
  request_size_bytes :: int
  shift_bits :: int
  ch_pos :: int
  ra_pos :: int
  bg_pos :: int
  ba_pos :: int
  ro_pos :: int
  co_pos :: int
  ch_mask :: u64
  ra_mask :: u64
  bg_mask :: u64
  ba_mask :: u64
  ro_mask :: u64
  co_mask :: u64

record timing_params =
  burst_cycle :: int
  AL :: int
  CL :: int
  CWL :: int
  RL :: int
  WL :: int
  tCCD_L :: int
  tCCD_S :: int
  tRTRS :: int
  tRTP :: int
  tWTR_L :: int
  tWTR_S :: int
  tWR :: int
  tRP :: int
  tRRD_L :: int
  tRRD_S :: int
  tRAS :: int
  tRCD :: int
  tRFC :: int
  tRC :: int
  tCKE :: int
  tCKESR :: int
  tXS :: int
  tXP :: int
  tRFCb :: int
  tREFI :: int
  tREFIb :: int
  tFAW :: int
  tRPRE :: int
  tWPRE :: int
  read_delay :: int
  write_delay :: int
  tPPD :: int
  t32AW :: int
  tRCDRD :: int
  tRCDWR :: int
  ideal_memory_latency :: int

record system_params =
  address_mapping :: string
  queue_structure :: string
  row_buf_policy :: string
  refresh_policy :: RefreshPolicy
  cmd_queue_size :: int
  unified_queue :: bool
  trans_queue_size :: int
  write_buf_size :: int
  enable_self_refresh :: bool
  sref_threshold :: int
  aggressive_precharging_enabled :: bool
  epoch_period :: int
  output_level :: int

record Config =
  dram :: dram_params
  amap :: addr_params
  tim :: timing_params
  sys :: system_params

definition IsGDDR :: "Config \<Rightarrow> bool" where
  "IsGDDR c = (protocol (dram c) = GDDR5 \<or> protocol (dram c) = GDDR5X \<or> protocol (dram c) = GDDR6)"

definition IsHBM :: "Config \<Rightarrow> bool" where
  "IsHBM c = (protocol (dram c) = HBM \<or> protocol (dram c) = HBM2)"

definition IsHMC :: "Config \<Rightarrow> bool" where
  "IsHMC c = (protocol (dram c) = HMC)"

definition IsDDR4 :: "Config \<Rightarrow> bool" where
  "IsDDR4 c = (protocol (dram c) = DDR4)"

section \<open>Reading the parameters\<close>

text \<open>
  \<open>ini\<close> stands for the third-party \<^verbatim>\<open>INIReader\<close>: its three getters take section, option and the
  default to return when the option is absent, and \<open>ini_ParseError\<close> is the outcome of the parse.
\<close>

record ini =
  ini_ParseError :: int
  ini_Get :: "string \<Rightarrow> string \<Rightarrow> string \<Rightarrow> string"
  ini_GetInteger :: "string \<Rightarrow> string \<Rightarrow> int \<Rightarrow> int"
  ini_GetBoolean :: "string \<Rightarrow> string \<Rightarrow> bool \<Rightarrow> bool"

definition Config_GetInteger :: "ini \<Rightarrow> string \<Rightarrow> string \<Rightarrow> int \<Rightarrow> int" where
  "Config_GetInteger r sec opt default_val =
     sint (word_of_int (ini_GetInteger r sec opt default_val) :: 32 word)"

definition protocol_pairs :: "(string \<times> DRAMProtocol) list" where
  "protocol_pairs =
     [(''DDR3'', DDR3), (''DDR4'', DDR4), (''GDDR5'', GDDR5), (''GDDR5X'', GDDR5X),
      (''GDDR6'', GDDR6), (''LPDDR'', LPDDR), (''LPDDR3'', LPDDR3), (''LPDDR4'', LPDDR4),
      (''LPDDR5'', LPDDR5), (''HBM'', HBM), (''HBM2'', HBM2), (''HMC'', HMC)]"

definition GetDRAMProtocol :: "string \<Rightarrow> DRAMProtocol res" where
  "GetDRAMProtocol protocol_str =
     (case map_of protocol_pairs protocol_str of
        None \<Rightarrow> Inl (AbruptExit ''configuration.cc'' 76)
      | Some p \<Rightarrow> Inr p)"

definition InitSystemParams :: "ini \<Rightarrow> Config \<Rightarrow> Config res" where
  "InitSystemParams r c =
     (let ref_policy = ini_Get r ''system'' ''refresh_policy'' ''RANK_LEVEL_STAGGERED'';
          d = (dram c)\<lparr>
            channel_size := Config_GetInteger r ''system'' ''channel_size'' 1024,
            channels := Config_GetInteger r ''system'' ''channels'' 1,
            bus_width := Config_GetInteger r ''system'' ''bus_width'' 64\<rparr>;
          s = (sys c)\<lparr>
            address_mapping := ini_Get r ''system'' ''address_mapping'' ''chrobabgraco'',
            queue_structure := ini_Get r ''system'' ''queue_structure'' ''PER_BANK'',
            row_buf_policy := ini_Get r ''system'' ''row_buf_policy'' ''OPEN_PAGE'',
            cmd_queue_size := Config_GetInteger r ''system'' ''cmd_queue_size'' 16,
            trans_queue_size := Config_GetInteger r ''system'' ''trans_queue_size'' 32,
            unified_queue := ini_GetBoolean r ''system'' ''unified_queue'' False,
            write_buf_size := Config_GetInteger r ''system'' ''write_buf_size'' 16\<rparr>
      in bindE
           (if ref_policy = ''RANK_LEVEL_SIMULTANEOUS'' then Inr RANK_LEVEL_SIMULTANEOUS
            else if ref_policy = ''RANK_LEVEL_STAGGERED'' then Inr RANK_LEVEL_STAGGERED
            else if ref_policy = ''BANK_LEVEL_STAGGERED'' then Inr BANK_LEVEL_STAGGERED
            else Inl (AbruptExit ''configuration.cc'' 245))
           (\<lambda>p. Inr (c\<lparr>dram := d, sys := s\<lparr>
              refresh_policy := p,
              enable_self_refresh := ini_GetBoolean r ''system'' ''enable_self_refresh'' False,
              sref_threshold := Config_GetInteger r ''system'' ''sref_threshold'' 1000,
              aggressive_precharging_enabled :=
                ini_GetBoolean r ''system'' ''aggressive_precharging_enabled'' False\<rparr>\<rparr>)))"

text \<open>C++ integer division truncates towards zero; a zero divisor traps.\<close>

definition idiv :: "int \<Rightarrow> int \<Rightarrow> int res" where
  "idiv a b = (if b = 0 then Inl DivByZero else Inr (a sdiv b))"

definition burst_cycle_of :: "DRAMProtocol \<Rightarrow> int \<Rightarrow> int" where
  "burst_cycle_of p bl =
     (if bl = 0 then 0
      else if p = GDDR5 then bl sdiv 4
      else if p = GDDR5X then bl sdiv 8
      else if p = GDDR6 then bl sdiv 16
      else bl sdiv 2)"

definition BL_of :: "DRAMProtocol \<Rightarrow> int \<Rightarrow> int" where
  "BL_of p bl =
     (if bl = 0 then (if p = HBM \<or> p = HBM2 then 4 else 8) else bl)"

definition InitDRAMParams :: "ini \<Rightarrow> Config \<Rightarrow> Config res" where
  "InitDRAMParams r c =
     bindE (GetDRAMProtocol (ini_Get r ''dram_structure'' ''protocol'' ''DDR3'')) (\<lambda>p.
     (let bgs0 = Config_GetInteger r ''dram_structure'' ''bankgroups'' 2;
          bpg0 = Config_GetInteger r ''dram_structure'' ''banks_per_group'' 2;
          enable = ini_GetBoolean r ''dram_structure'' ''bankgroup_enable'' True;
          bpg = (if enable then bpg0 else bpg0 * bgs0);
          bgs = (if enable then bgs0 else 1);
          cols = Config_GetInteger r ''dram_structure'' ''columns'' 1024;
          dw = Config_GetInteger r ''dram_structure'' ''device_width'' 8;
          bl0 = Config_GetInteger r ''dram_structure'' ''BL'' 8;
          blk = Config_GetInteger r ''hmc'' ''block_size'' 64;
          is_hbm = (p = HBM \<or> p = HBM2);
          is_gddr = (p = GDDR5 \<or> p = GDDR5X \<or> p = GDDR6)
      in bindE (if p = HMC then idiv (blk * 8) dw else Inr bl0) (\<lambda>bl1.
         Inr (c\<lparr>
           dram := (dram c)\<lparr>
             protocol := p,
             bankgroups := bgs,
             banks_per_group := bpg,
             banks := bgs * bpg,
             rows := Config_GetInteger r ''dram_structure'' ''rows'' 65536,
             device_width := dw,
             num_dies := Config_GetInteger r ''dram_structure'' ''num_dies'' 1,
             enable_hbm_dual_cmd :=
               (ini_GetBoolean r ''dram_structure'' ''hbm_dual_cmd'' True \<and> is_hbm),
             num_links := Config_GetInteger r ''hmc'' ''num_links'' 4,
             link_width := Config_GetInteger r ''hmc'' ''link_width'' 16,
             link_speed := Config_GetInteger r ''hmc'' ''link_speed'' 15000,
             block_size := blk,
             xbar_queue_depth := Config_GetInteger r ''hmc'' ''xbar_queue_depth'' 16,
             BL := BL_of p bl1,
             columns := (if is_gddr then cols * BL_of p bl1 else if is_hbm then cols * 2 else cols)\<rparr>,
           tim := (tim c)\<lparr>burst_cycle := burst_cycle_of p bl1\<rparr>\<rparr>))))"

definition CalculateSize :: "Config \<Rightarrow> Config res" where
  "CalculateSize c =
     bindE (idiv (bus_width (dram c)) (device_width (dram c))) (\<lambda>dpr.
     (let page_size = (columns (dram c) * device_width (dram c)) sdiv 8;
          megs_per_bank = (page_size * (rows (dram c) sdiv 1024)) sdiv 1024;
          megs_per_rank = megs_per_bank * banks (dram c) * dpr
      in if megs_per_rank > channel_size (dram c)
         then Inr (c\<lparr>dram := (dram c)\<lparr>devices_per_rank := dpr, ranks := 1,
                                       channel_size := megs_per_rank\<rparr>\<rparr>)
         else bindE (idiv (channel_size (dram c)) megs_per_rank) (\<lambda>n.
              Inr (c\<lparr>dram := (dram c)\<lparr>devices_per_rank := dpr, ranks := n,
                                       channel_size := n * megs_per_rank\<rparr>\<rparr>))))"

definition InitTimingParams :: "ini \<Rightarrow> Config \<Rightarrow> Config" where
  "InitTimingParams r c =
     (let g = Config_GetInteger r ''timing'';
          al = g ''AL'' 0; cl = g ''CL'' 12; cwl = g ''CWL'' 12;
          rp = g ''tRP'' 10; ras = g ''tRAS'' 24;
          bc = burst_cycle (tim c)
      in c\<lparr>tim := \<lparr>
        burst_cycle = bc, AL = al, CL = cl, CWL = cwl, RL = al + cl, WL = al + cwl,
        tCCD_L = g ''tCCD_L'' 6, tCCD_S = g ''tCCD_S'' 4, tRTRS = g ''tRTRS'' 2,
        tRTP = g ''tRTP'' 5, tWTR_L = g ''tWTR_L'' 5, tWTR_S = g ''tWTR_S'' 5,
        tWR = g ''tWR'' 10, tRP = rp, tRRD_L = g ''tRRD_L'' 4, tRRD_S = g ''tRRD_S'' 4,
        tRAS = ras, tRCD = g ''tRCD'' 10, tRFC = g ''tRFC'' 74, tRC = ras + rp,
        tCKE = g ''tCKE'' 6, tCKESR = g ''tCKESR'' 12, tXS = g ''tXS'' 432, tXP = g ''tXP'' 8,
        tRFCb = g ''tRFCb'' 20, tREFI = g ''tREFI'' 7800, tREFIb = g ''tREFIb'' 1950,
        tFAW = g ''tFAW'' 50, tRPRE = g ''tRPRE'' 1, tWPRE = g ''tWPRE'' 1,
        read_delay = al + cl + bc, write_delay = al + cwl + bc, tPPD = g ''tPPD'' 0,
        t32AW = g ''t32AW'' 330, tRCDRD = g ''tRCDRD'' 24, tRCDWR = g ''tRCDWR'' 20,
        ideal_memory_latency = g ''ideal_memory_latency'' 10\<rparr>\<rparr>)"

definition InitOtherParams :: "ini \<Rightarrow> Config \<Rightarrow> Config" where
  "InitOtherParams r c =
     c\<lparr>sys := (sys c)\<lparr>
        epoch_period := Config_GetInteger r ''other'' ''epoch_period'' 100000,
        output_level := sint (word_of_int (ini_GetInteger r ''other'' ''output_level'' 1) :: 32 word)\<rparr>\<rparr>"

section \<open>Address mapping\<close>

text \<open>\<^verbatim>\<open>(1 << w) - 1\<close> on \<^verbatim>\<open>int\<close>, stored in a \<^verbatim>\<open>uint64_t\<close>.\<close>

definition field_mask :: "int \<Rightarrow> u64 res" where
  "field_mask w = (if 0 \<le> w \<and> w < 31 then Inr (word_of_int (2 ^ nat w - 1)) else Inl BadShift)"

definition field_widths :: "Config \<Rightarrow> string \<Rightarrow> int option" where
  "field_widths c =
     [''ch'' \<mapsto> LogBase2 (channels (dram c)),
      ''ra'' \<mapsto> LogBase2 (ranks (dram c)),
      ''bg'' \<mapsto> LogBase2 (bankgroups (dram c)),
      ''ba'' \<mapsto> LogBase2 (banks_per_group (dram c)),
      ''ro'' \<mapsto> LogBase2 (rows (dram c)),
      ''co'' \<mapsto> LogBase2 (columns (dram c)) - LogBase2 (BL (dram c))]"

text \<open>The mapping string cut into its two-character tokens.\<close>

fun mapping_tokens :: "string \<Rightarrow> string list" where
  "mapping_tokens (a # b # cs) = [a, b] # mapping_tokens cs"
| "mapping_tokens [a] = [[a]]"
| "mapping_tokens [] = []"

text \<open>
  The \<^verbatim>\<open>while (!fields.empty())\<close> loop takes tokens from the back; the list argument is the vector
  already reversed.
\<close>

fun assign_positions ::
    "(string \<Rightarrow> int option) \<Rightarrow> string list \<Rightarrow> int \<Rightarrow> (string \<Rightarrow> int option) \<Rightarrow> (string \<Rightarrow> int option) res"
where
  "assign_positions ws [] pos field_pos = Inr field_pos"
| "assign_positions ws (token # toks) pos field_pos =
     (case ws token of
        None \<Rightarrow> Inl (AbruptExit ''configuration.cc'' 392)
      | Some w \<Rightarrow> assign_positions ws toks (pos + w) (field_pos(token \<mapsto> pos)))"

definition map_at :: "(string \<Rightarrow> int option) \<Rightarrow> string \<Rightarrow> int res" where
  "map_at m k = (case m k of None \<Rightarrow> Inl OutOfRange | Some v \<Rightarrow> Inr v)"

definition SetAddressMapping :: "Config \<Rightarrow> Config res" where
  "SetAddressMapping c =
     (let rsb = (bus_width (dram c) sdiv 8) * BL (dram c);
          ws = field_widths c
      in if length (address_mapping (sys c)) \<noteq> 12 then Inl (AbruptExit ''configuration.cc'' 374)
         else
           bindE (assign_positions ws (rev (mapping_tokens (address_mapping (sys c)))) 0 Map.empty) (\<lambda>fp.
           bindE (map_at fp ''ch'') (\<lambda>chp.
           bindE (map_at fp ''ra'') (\<lambda>rap.
           bindE (map_at fp ''bg'') (\<lambda>bgp.
           bindE (map_at fp ''ba'') (\<lambda>bap.
           bindE (map_at fp ''ro'') (\<lambda>rop.
           bindE (map_at fp ''co'') (\<lambda>cop.
           bindE (bindE (map_at ws ''ch'') field_mask) (\<lambda>chm.
           bindE (bindE (map_at ws ''ra'') field_mask) (\<lambda>ram.
           bindE (bindE (map_at ws ''bg'') field_mask) (\<lambda>bgm.
           bindE (bindE (map_at ws ''ba'') field_mask) (\<lambda>bam.
           bindE (bindE (map_at ws ''ro'') field_mask) (\<lambda>rom.
           bindE (bindE (map_at ws ''co'') field_mask) (\<lambda>com.
           Inr (c\<lparr>amap := \<lparr>
             request_size_bytes = rsb, shift_bits = LogBase2 rsb,
             ch_pos = chp, ra_pos = rap, bg_pos = bgp, ba_pos = bap, ro_pos = rop, co_pos = cop,
             ch_mask = chm, ra_mask = ram, bg_mask = bgm, ba_mask = bam, ro_mask = rom,
             co_mask = com\<rparr>\<rparr>)))))))))))))))"

text \<open>The selection of one field: \<^verbatim>\<open>(hex_addr >> pos) & mask\<close>, converted to \<^verbatim>\<open>int\<close>.  A shift by 64 or
  more, which C++ leaves undefined, gives zero here; it needs a layout of more than 64 bits.\<close>

definition select_field :: "u64 \<Rightarrow> int \<Rightarrow> u64 \<Rightarrow> int" where
  "select_field h pos msk = to_int32 (drop_bit (nat pos) h AND msk)"

definition AddressMapping :: "Config \<Rightarrow> u64 \<Rightarrow> Address" where
  "AddressMapping c hex =
     (let h = drop_bit (nat (shift_bits (amap c))) hex
      in mk_Address
           (select_field h (ch_pos (amap c)) (ch_mask (amap c)))
           (select_field h (ra_pos (amap c)) (ra_mask (amap c)))
           (select_field h (bg_pos (amap c)) (bg_mask (amap c)))
           (select_field h (ba_pos (amap c)) (ba_mask (amap c)))
           (select_field h (ro_pos (amap c)) (ro_mask (amap c)))
           (select_field h (co_pos (amap c)) (co_mask (amap c))))"

text \<open>The constructor, in the order its comment requires.\<close>

definition Config_new :: "ini \<Rightarrow> Config \<Rightarrow> Config res" where
  "Config_new r c0 =
     (if ini_ParseError r < 0 then Inl (AbruptExit ''configuration.cc'' 15) else
     bindE (InitSystemParams r c0) (\<lambda>c1.
     bindE (InitDRAMParams r c1) (\<lambda>c2.
     bindE (CalculateSize c2) (\<lambda>c3.
     bindE (SetAddressMapping c3) (\<lambda>c4.
     Inr (InitOtherParams r (InitTimingParams r c4)))))))"

section \<open>The shipped LPDDR5 configuration\<close>

text \<open>
  The sections of \<^verbatim>\<open>DRAMsim3/configs/LPDDR5/8Gb_x16_6400_ch3.ini\<close> that the modelled parameters read,
  with the number of channels as an argument; the four shipped files differ in that number only.
  Options that are absent yield the default.
\<close>

definition lpddr5_ints :: "int \<Rightarrow> ((string \<times> string) \<times> int) list" where
  "lpddr5_ints n =
     [((''dram_structure'', ''bankgroups''), 4), ((''dram_structure'', ''banks_per_group''), 4),
      ((''dram_structure'', ''rows''), 65536), ((''dram_structure'', ''columns''), 1024),
      ((''dram_structure'', ''device_width''), 16), ((''dram_structure'', ''BL''), 16),
      ((''timing'', ''AL''), 0), ((''timing'', ''CL''), 20), ((''timing'', ''CWL''), 11),
      ((''timing'', ''tRCD''), 15), ((''timing'', ''tRP''), 17), ((''timing'', ''tRAS''), 34),
      ((''timing'', ''tRC''), 30), ((''timing'', ''tWR''), 28), ((''timing'', ''tRTP''), 4),
      ((''timing'', ''tRRD_S''), 4), ((''timing'', ''tRRD_L''), 4), ((''timing'', ''tCCD_S''), 4),
      ((''timing'', ''tCCD_L''), 4), ((''timing'', ''tWTR_S''), 5), ((''timing'', ''tWTR_L''), 10),
      ((''timing'', ''tFAW''), 16), ((''timing'', ''tRFC''), 800), ((''timing'', ''tREFI''), 3900),
      ((''timing'', ''tXP''), 6), ((''timing'', ''tCKE''), 6), ((''timing'', ''tCKESR''), 7),
      ((''timing'', ''tRTRS''), 1), ((''timing'', ''tXS''), 800), ((''timing'', ''tRPRE''), 1),
      ((''timing'', ''tWPRE''), 1),
      ((''system'', ''channel_size''), 8192), ((''system'', ''channels''), n),
      ((''system'', ''bus_width''), 64), ((''system'', ''cmd_queue_size''), 8),
      ((''system'', ''trans_queue_size''), 32),
      ((''other'', ''epoch_period''), 1587301), ((''other'', ''output_level''), 1)]"

definition lpddr5_strings :: "((string \<times> string) \<times> string) list" where
  "lpddr5_strings =
     [((''dram_structure'', ''protocol''), ''LPDDR5''),
      ((''system'', ''address_mapping''), ''robarabgcoch''),
      ((''system'', ''queue_structure''), ''PER_BANK''),
      ((''system'', ''refresh_policy''), ''RANK_LEVEL_STAGGERED''),
      ((''system'', ''row_buf_policy''), ''OPEN_PAGE'')]"

definition lpddr5_ini :: "int \<Rightarrow> ini" where
  "lpddr5_ini n =
     \<lparr>ini_ParseError = 0,
      ini_Get = (\<lambda>sec opt d. case map_of lpddr5_strings (sec, opt) of None \<Rightarrow> d | Some v \<Rightarrow> v),
      ini_GetInteger = (\<lambda>sec opt d. case map_of (lpddr5_ints n) (sec, opt) of None \<Rightarrow> d | Some v \<Rightarrow> v),
      ini_GetBoolean = (\<lambda>sec opt d. d)\<rparr>"

text \<open>The object before its constructor has run.\<close>

definition Config_zero :: Config where
  "Config_zero =
     \<lparr>dram = \<lparr>protocol = PROTO_SIZE, channel_size = 0, channels = 0, ranks = 0, banks = 0,
        bankgroups = 0, banks_per_group = 0, rows = 0, columns = 0, device_width = 0, bus_width = 0,
        devices_per_rank = 0, BL = 0, num_dies = 0, enable_hbm_dual_cmd = False, num_links = 0,
        link_width = 0, link_speed = 0, block_size = 0, xbar_queue_depth = 0\<rparr>,
      amap = \<lparr>request_size_bytes = 0, shift_bits = 0, ch_pos = 0, ra_pos = 0, bg_pos = 0, ba_pos = 0,
        ro_pos = 0, co_pos = 0, ch_mask = 0, ra_mask = 0, bg_mask = 0, ba_mask = 0, ro_mask = 0,
        co_mask = 0\<rparr>,
      tim = \<lparr>burst_cycle = 0, AL = 0, CL = 0, CWL = 0, RL = 0, WL = 0, tCCD_L = 0, tCCD_S = 0,
        tRTRS = 0, tRTP = 0, tWTR_L = 0, tWTR_S = 0, tWR = 0, tRP = 0, tRRD_L = 0, tRRD_S = 0,
        tRAS = 0, tRCD = 0, tRFC = 0, tRC = 0, tCKE = 0, tCKESR = 0, tXS = 0, tXP = 0, tRFCb = 0,
        tREFI = 0, tREFIb = 0, tFAW = 0, tRPRE = 0, tWPRE = 0, read_delay = 0, write_delay = 0,
        tPPD = 0, t32AW = 0, tRCDRD = 0, tRCDWR = 0, ideal_memory_latency = 0\<rparr>,
      sys = \<lparr>address_mapping = [], queue_structure = [], row_buf_policy = [],
        refresh_policy = REF_SIZE, cmd_queue_size = 0, unified_queue = False, trans_queue_size = 0,
        write_buf_size = 0, enable_self_refresh = False, sref_threshold = 0,
        aggressive_precharging_enabled = False, epoch_period = 0, output_level = 0\<rparr>\<rparr>"

text \<open>The configuration the simulator runs with by default, as the constructor computes it.\<close>

definition lpddr5_config :: Config where
  "lpddr5_config =
     \<lparr>dram = \<lparr>protocol = LPDDR5, channel_size = 8192, channels = 3, ranks = 1, banks = 16,
        bankgroups = 4, banks_per_group = 4, rows = 65536, columns = 1024, device_width = 16,
        bus_width = 64, devices_per_rank = 4, BL = 16, num_dies = 1, enable_hbm_dual_cmd = False,
        num_links = 4, link_width = 16, link_speed = 15000, block_size = 64, xbar_queue_depth = 16\<rparr>,
      amap = \<lparr>request_size_bytes = 128, shift_bits = 7, ch_pos = 0, ra_pos = 9, bg_pos = 7,
        ba_pos = 9, ro_pos = 11, co_pos = 1, ch_mask = 1, ra_mask = 0, bg_mask = 3, ba_mask = 3,
        ro_mask = 65535, co_mask = 63\<rparr>,
      tim = \<lparr>burst_cycle = 8, AL = 0, CL = 20, CWL = 11, RL = 20, WL = 11, tCCD_L = 4, tCCD_S = 4,
        tRTRS = 1, tRTP = 4, tWTR_L = 10, tWTR_S = 5, tWR = 28, tRP = 17, tRRD_L = 4, tRRD_S = 4,
        tRAS = 34, tRCD = 15, tRFC = 800, tRC = 51, tCKE = 6, tCKESR = 7, tXS = 800, tXP = 6,
        tRFCb = 20, tREFI = 3900, tREFIb = 1950, tFAW = 16, tRPRE = 1, tWPRE = 1, read_delay = 28,
        write_delay = 19, tPPD = 0, t32AW = 330, tRCDRD = 24, tRCDWR = 20,
        ideal_memory_latency = 10\<rparr>,
      sys = \<lparr>address_mapping = ''robarabgcoch'', queue_structure = ''PER_BANK'',
        row_buf_policy = ''OPEN_PAGE'', refresh_policy = RANK_LEVEL_STAGGERED, cmd_queue_size = 8,
        unified_queue = False, trans_queue_size = 32, write_buf_size = 16,
        enable_self_refresh = False, sref_threshold = 1000,
        aggressive_precharging_enabled = False, epoch_period = 1587301, output_level = 1\<rparr>\<rparr>"

lemma lpddr5_config_new: "Config_new (lpddr5_ini 3) Config_zero = Inr lpddr5_config"
  by code_simp

end
