(* ===== verification/Dram_Timing.thy ===== *)
theory Dram_Timing
  imports Dram_Config
begin

text \<open>
  \<^verbatim>\<open>DRAMsim3/src/timing.h\<close> and \<^verbatim>\<open>timing.cc\<close>: the tables of minimum distances between two commands,
  computed by the constructor of \<^verbatim>\<open>Timing\<close> from the configuration.  The local variables of the
  constructor are definitions over the configuration; the rows the constructor stores for one
  command type in its five vectors are one record.
\<close>

section \<open>The distances\<close>

definition read_to_read_l :: "Config \<Rightarrow> int" where
  "read_to_read_l c =
     (if bankgroups (dram c) = 1 then max (burst_cycle (tim c)) (tCCD_S (tim c))
      else max (burst_cycle (tim c)) (tCCD_L (tim c)))"

definition read_to_read_s :: "Config \<Rightarrow> int" where
  "read_to_read_s c = max (burst_cycle (tim c)) (tCCD_S (tim c))"

definition read_to_read_o :: "Config \<Rightarrow> int" where
  "read_to_read_o c = burst_cycle (tim c) + tRTRS (tim c)"

definition read_to_write :: "Config \<Rightarrow> int" where
  "read_to_write c = RL (tim c) + burst_cycle (tim c) - WL (tim c) + tRTRS (tim c)"

definition read_to_write_o :: "Config \<Rightarrow> int" where
  "read_to_write_o c =
     read_delay (tim c) + burst_cycle (tim c) + tRTRS (tim c) - write_delay (tim c)"

definition read_to_precharge :: "Config \<Rightarrow> int" where
  "read_to_precharge c = AL (tim c) + tRTP (tim c)"

definition readp_to_act :: "Config \<Rightarrow> int" where
  "readp_to_act c = AL (tim c) + burst_cycle (tim c) + tRTP (tim c) + tRP (tim c)"

definition write_to_read_l :: "Config \<Rightarrow> int" where
  "write_to_read_l c =
     (if bankgroups (dram c) = 1 then write_delay (tim c) + tWTR_S (tim c)
      else write_delay (tim c) + tWTR_L (tim c))"

definition write_to_read_s :: "Config \<Rightarrow> int" where
  "write_to_read_s c = write_delay (tim c) + tWTR_S (tim c)"

definition write_to_read_o :: "Config \<Rightarrow> int" where
  "write_to_read_o c =
     write_delay (tim c) + burst_cycle (tim c) + tRTRS (tim c) - read_delay (tim c)"

definition write_to_write_l :: "Config \<Rightarrow> int" where
  "write_to_write_l c =
     (if bankgroups (dram c) = 1 then max (burst_cycle (tim c)) (tCCD_S (tim c))
      else max (burst_cycle (tim c)) (tCCD_L (tim c)))"

definition write_to_write_s :: "Config \<Rightarrow> int" where
  "write_to_write_s c = max (burst_cycle (tim c)) (tCCD_S (tim c))"

definition write_to_write_o :: "Config \<Rightarrow> int" where
  "write_to_write_o c = burst_cycle (tim c)"

definition write_to_precharge :: "Config \<Rightarrow> int" where
  "write_to_precharge c = WL (tim c) + burst_cycle (tim c) + tWR (tim c)"

definition precharge_to_activate :: "Config \<Rightarrow> int" where
  "precharge_to_activate c = tRP (tim c)"

definition precharge_to_precharge :: "Config \<Rightarrow> int" where
  "precharge_to_precharge c = tPPD (tim c)"

definition read_to_activate :: "Config \<Rightarrow> int" where
  "read_to_activate c = read_to_precharge c + precharge_to_activate c"

definition write_to_activate :: "Config \<Rightarrow> int" where
  "write_to_activate c = write_to_precharge c + precharge_to_activate c"

definition activate_to_activate :: "Config \<Rightarrow> int" where
  "activate_to_activate c = tRC (tim c)"

definition activate_to_activate_l :: "Config \<Rightarrow> int" where
  "activate_to_activate_l c =
     (if bankgroups (dram c) = 1 then tRRD_S (tim c) else tRRD_L (tim c))"

definition activate_to_activate_s :: "Config \<Rightarrow> int" where
  "activate_to_activate_s c = tRRD_S (tim c)"

definition activate_to_precharge :: "Config \<Rightarrow> int" where
  "activate_to_precharge c = tRAS (tim c)"

definition activate_to_read :: "Config \<Rightarrow> int" where
  "activate_to_read c =
     (if IsGDDR c \<or> IsHBM c then tRCDRD (tim c) else tRCD (tim c) - AL (tim c))"

definition activate_to_write :: "Config \<Rightarrow> int" where
  "activate_to_write c =
     (if IsGDDR c \<or> IsHBM c then tRCDWR (tim c) else tRCD (tim c) - AL (tim c))"

definition activate_to_refresh :: "Config \<Rightarrow> int" where
  "activate_to_refresh c = tRC (tim c)"

definition refresh_to_refresh :: "Config \<Rightarrow> int" where
  "refresh_to_refresh c = tREFI (tim c)"

definition refresh_to_activate :: "Config \<Rightarrow> int" where
  "refresh_to_activate c = tRFC (tim c)"

definition refresh_to_activate_bank :: "Config \<Rightarrow> int" where
  "refresh_to_activate_bank c = tRFCb (tim c)"

definition self_refresh_entry_to_exit :: "Config \<Rightarrow> int" where
  "self_refresh_entry_to_exit c = tCKESR (tim c)"

definition self_refresh_exit :: "Config \<Rightarrow> int" where
  "self_refresh_exit c = tXS (tim c)"

lemmas timing_distance_defs =
  read_to_read_l_def read_to_read_s_def read_to_read_o_def read_to_write_def read_to_write_o_def
  read_to_precharge_def readp_to_act_def write_to_read_l_def write_to_read_s_def
  write_to_read_o_def write_to_write_l_def write_to_write_s_def write_to_write_o_def
  write_to_precharge_def precharge_to_activate_def precharge_to_precharge_def read_to_activate_def
  write_to_activate_def activate_to_activate_def activate_to_activate_l_def
  activate_to_activate_s_def activate_to_precharge_def activate_to_read_def activate_to_write_def
  activate_to_refresh_def refresh_to_refresh_def refresh_to_activate_def
  refresh_to_activate_bank_def self_refresh_entry_to_exit_def self_refresh_exit_def

section \<open>The tables\<close>

type_synonym timing_list = "(CommandType \<times> int) list"

text \<open>What the five vectors hold at the index of one command type.\<close>

record timing_row =
  row_same_bank :: timing_list
  row_other_banks_same_bankgroup :: timing_list
  row_other_bankgroups_same_rank :: timing_list
  row_other_ranks :: timing_list
  row_same_rank :: timing_list

definition empty_row :: timing_row where
  "empty_row = \<lparr>row_same_bank = [], row_other_banks_same_bankgroup = [],
     row_other_bankgroups_same_rank = [], row_other_ranks = [], row_same_rank = []\<rparr>"

definition rw_list :: "int \<Rightarrow> int \<Rightarrow> timing_list" where
  "rw_list r w = [(READ, r), (WRITE, w), (READ_PRECHARGE, r), (WRITE_PRECHARGE, w)]"

definition timing_READ :: "Config \<Rightarrow> timing_row" where
  "timing_READ c = empty_row\<lparr>
     row_same_bank := rw_list (read_to_read_l c) (read_to_write c) @ [(PRECHARGE, read_to_precharge c)],
     row_other_banks_same_bankgroup := rw_list (read_to_read_l c) (read_to_write c),
     row_other_bankgroups_same_rank := rw_list (read_to_read_s c) (read_to_write c),
     row_other_ranks := rw_list (read_to_read_o c) (read_to_write_o c)\<rparr>"

definition timing_WRITE :: "Config \<Rightarrow> timing_row" where
  "timing_WRITE c = empty_row\<lparr>
     row_same_bank := rw_list (write_to_read_l c) (write_to_write_l c) @ [(PRECHARGE, write_to_precharge c)],
     row_other_banks_same_bankgroup := rw_list (write_to_read_l c) (write_to_write_l c),
     row_other_bankgroups_same_rank := rw_list (write_to_read_s c) (write_to_write_s c),
     row_other_ranks := rw_list (write_to_read_o c) (write_to_write_o c)\<rparr>"

definition timing_READ_PRECHARGE :: "Config \<Rightarrow> timing_row" where
  "timing_READ_PRECHARGE c = empty_row\<lparr>
     row_same_bank := [(ACTIVATE, readp_to_act c), (REFRESH, read_to_activate c),
       (REFRESH_BANK, read_to_activate c), (SREF_ENTER, read_to_activate c)],
     row_other_banks_same_bankgroup := rw_list (read_to_read_l c) (read_to_write c),
     row_other_bankgroups_same_rank := rw_list (read_to_read_s c) (read_to_write c),
     row_other_ranks := rw_list (read_to_read_o c) (read_to_write_o c)\<rparr>"

definition timing_WRITE_PRECHARGE :: "Config \<Rightarrow> timing_row" where
  "timing_WRITE_PRECHARGE c = empty_row\<lparr>
     row_same_bank := [(ACTIVATE, write_to_activate c), (REFRESH, write_to_activate c),
       (REFRESH_BANK, write_to_activate c), (SREF_ENTER, write_to_activate c)],
     row_other_banks_same_bankgroup := rw_list (write_to_read_l c) (write_to_write_l c),
     row_other_bankgroups_same_rank := rw_list (write_to_read_s c) (write_to_write_s c),
     row_other_ranks := rw_list (write_to_read_o c) (write_to_write_o c)\<rparr>"

definition timing_ACTIVATE :: "Config \<Rightarrow> timing_row" where
  "timing_ACTIVATE c = empty_row\<lparr>
     row_same_bank := [(ACTIVATE, activate_to_activate c), (READ, activate_to_read c),
       (WRITE, activate_to_write c), (READ_PRECHARGE, activate_to_read c),
       (WRITE_PRECHARGE, activate_to_write c), (PRECHARGE, activate_to_precharge c)],
     row_other_banks_same_bankgroup :=
       [(ACTIVATE, activate_to_activate_l c), (REFRESH_BANK, activate_to_refresh c)],
     row_other_bankgroups_same_rank :=
       [(ACTIVATE, activate_to_activate_s c), (REFRESH_BANK, activate_to_refresh c)]\<rparr>"

definition timing_PRECHARGE :: "Config \<Rightarrow> timing_row" where
  "timing_PRECHARGE c =
     (let ppd = (if IsGDDR c \<or> protocol (dram c) = LPDDR4
                 then [(PRECHARGE, precharge_to_precharge c)] else [])
      in empty_row\<lparr>
        row_same_bank := [(ACTIVATE, precharge_to_activate c), (REFRESH, precharge_to_activate c),
          (REFRESH_BANK, precharge_to_activate c), (SREF_ENTER, precharge_to_activate c)],
        row_other_banks_same_bankgroup := ppd,
        row_other_bankgroups_same_rank := ppd\<rparr>)"

definition timing_REFRESH_BANK :: "Config \<Rightarrow> timing_row" where
  "timing_REFRESH_BANK c = empty_row\<lparr>
     row_same_rank := [(ACTIVATE, refresh_to_activate_bank c), (REFRESH, refresh_to_activate_bank c),
       (REFRESH_BANK, refresh_to_activate_bank c), (SREF_ENTER, refresh_to_activate_bank c)],
     row_other_banks_same_bankgroup :=
       [(ACTIVATE, refresh_to_activate c), (REFRESH_BANK, refresh_to_refresh c)],
     row_other_bankgroups_same_rank :=
       [(ACTIVATE, refresh_to_activate c), (REFRESH_BANK, refresh_to_refresh c)]\<rparr>"

definition timing_REFRESH :: "Config \<Rightarrow> timing_row" where
  "timing_REFRESH c = empty_row\<lparr>
     row_same_rank := [(ACTIVATE, refresh_to_activate c), (REFRESH, refresh_to_activate c),
       (SREF_ENTER, refresh_to_activate c)]\<rparr>"

definition timing_SREF_ENTER :: "Config \<Rightarrow> timing_row" where
  "timing_SREF_ENTER c = empty_row\<lparr>row_same_rank := [(SREF_EXIT, self_refresh_entry_to_exit c)]\<rparr>"

definition timing_SREF_EXIT :: "Config \<Rightarrow> timing_row" where
  "timing_SREF_EXIT c = empty_row\<lparr>
     row_same_rank := [(ACTIVATE, self_refresh_exit c), (REFRESH, self_refresh_exit c),
       (REFRESH_BANK, self_refresh_exit c), (SREF_ENTER, self_refresh_exit c)]\<rparr>"

fun timing_rows :: "Config \<Rightarrow> CommandType \<Rightarrow> timing_row" where
  "timing_rows c READ = timing_READ c"
| "timing_rows c WRITE = timing_WRITE c"
| "timing_rows c READ_PRECHARGE = timing_READ_PRECHARGE c"
| "timing_rows c WRITE_PRECHARGE = timing_WRITE_PRECHARGE c"
| "timing_rows c ACTIVATE = timing_ACTIVATE c"
| "timing_rows c PRECHARGE = timing_PRECHARGE c"
| "timing_rows c REFRESH_BANK = timing_REFRESH_BANK c"
| "timing_rows c REFRESH = timing_REFRESH c"
| "timing_rows c SREF_ENTER = timing_SREF_ENTER c"
| "timing_rows c SREF_EXIT = timing_SREF_EXIT c"
| "timing_rows c CMD_SIZE = empty_row"

record Timing =
  same_bank :: "CommandType \<Rightarrow> timing_list"
  other_banks_same_bankgroup :: "CommandType \<Rightarrow> timing_list"
  other_bankgroups_same_rank :: "CommandType \<Rightarrow> timing_list"
  other_ranks :: "CommandType \<Rightarrow> timing_list"
  same_rank :: "CommandType \<Rightarrow> timing_list"

definition Timing_new :: "Config \<Rightarrow> Timing" where
  "Timing_new c =
     \<lparr>same_bank = (\<lambda>ct. row_same_bank (timing_rows c ct)),
      other_banks_same_bankgroup = (\<lambda>ct. row_other_banks_same_bankgroup (timing_rows c ct)),
      other_bankgroups_same_rank = (\<lambda>ct. row_other_bankgroups_same_rank (timing_rows c ct)),
      other_ranks = (\<lambda>ct. row_other_ranks (timing_rows c ct)),
      same_rank = (\<lambda>ct. row_same_rank (timing_rows c ct))\<rparr>"

lemmas timing_row_defs =
  empty_row_def rw_list_def timing_READ_def timing_WRITE_def timing_READ_PRECHARGE_def
  timing_WRITE_PRECHARGE_def timing_ACTIVATE_def timing_PRECHARGE_def timing_REFRESH_BANK_def
  timing_REFRESH_def timing_SREF_ENTER_def timing_SREF_EXIT_def

section \<open>All distances of the tables\<close>

definition command_types :: "CommandType list" where
  "command_types = [READ, READ_PRECHARGE, WRITE, WRITE_PRECHARGE, ACTIVATE, PRECHARGE, REFRESH_BANK,
     REFRESH, SREF_ENTER, SREF_EXIT, CMD_SIZE]"

lemma command_types_all: "ct \<in> set command_types"
  by (cases ct) (simp_all add: command_types_def)

definition timing_entries :: "Timing \<Rightarrow> timing_list" where
  "timing_entries tm = concat (map (\<lambda>ct.
     same_bank tm ct @ other_banks_same_bankgroup tm ct @ other_bankgroups_same_rank tm ct
     @ other_ranks tm ct @ same_rank tm ct) command_types)"

lemma timing_entries_mem:
  "set (same_bank tm ct) \<subseteq> set (timing_entries tm)"
  "set (other_banks_same_bankgroup tm ct) \<subseteq> set (timing_entries tm)"
  "set (other_bankgroups_same_rank tm ct) \<subseteq> set (timing_entries tm)"
  "set (other_ranks tm ct) \<subseteq> set (timing_entries tm)"
  "set (same_rank tm ct) \<subseteq> set (timing_entries tm)"
  using command_types_all [of ct] by (auto simp: timing_entries_def)

text \<open>No distance moves the clock value \<open>t\<close> outside the range of \<^verbatim>\<open>uint64_t\<close>.\<close>

definition no_wrap :: "Timing \<Rightarrow> u64 \<Rightarrow> bool" where
  "no_wrap tm t = list_all (\<lambda>(ct, d). 0 \<le> uint t + d \<and> uint t + d < 2 ^ 64) (timing_entries tm)"

lemma no_wrapD:
  assumes "no_wrap tm t" "(ct, d) \<in> set (timing_entries tm)"
  shows "uint (t + of_int d) = uint t + d"
proof -
  have "0 \<le> uint t + d" "uint t + d < 2 ^ 64"
    using assms by (auto simp: no_wrap_def list_all_iff)
  then have "uint t + d = take_bit 64 (uint t + d)" by (simp add: take_bit_int_eq_self)
  then show ?thesis
    by (simp add: uint_word_ariths(1) uint_word_of_int take_bit_eq_mod mod_add_right_eq)
qed

lemma tables_no_size: "(CMD_SIZE, d) \<notin> set (timing_entries (Timing_new c))"
  by (simp add: timing_entries_def command_types_def Timing_new_def timing_row_defs Let_def)

end
