(* ===== verification/Bank_State.thy ===== *)
theory Bank_State
  imports Dram_Timing
begin

text \<open>
  \<^verbatim>\<open>DRAMsim3/src/bankstate.h\<close> and \<^verbatim>\<open>bankstate.cc\<close>: one DRAM bank, with its row-buffer state and
  the earliest time of each command type.  \<^verbatim>\<open>cmd_timing_\<close> has one entry per command type and is a
  function here; the entry of \<open>CMD_SIZE\<close> is never consulted.
\<close>

section \<open>The bank\<close>

datatype State = OPEN | CLOSED | SREF | PD | STATE_SIZE

record BankState =
  bk_state :: State
  cmd_timing :: "CommandType \<Rightarrow> u64"
  open_row :: int
  row_hit_count :: int

definition BankState_new :: BankState where
  "BankState_new = \<lparr>bk_state = CLOSED, cmd_timing = (\<lambda>ct. 0), open_row = -1, row_hit_count = 0\<rparr>"

definition BankState_IsRowOpen :: "BankState \<Rightarrow> bool" where
  "BankState_IsRowOpen b = (bk_state b = OPEN)"

text \<open>The \<^verbatim>\<open>required_type\<close> of the nested switch.\<close>

definition required_type :: "BankState \<Rightarrow> Command \<Rightarrow> CommandType res" where
  "required_type b cmd =
     (case bk_state b of
        CLOSED \<Rightarrow>
          (case cmd_type cmd of
             READ \<Rightarrow> Inr ACTIVATE
           | READ_PRECHARGE \<Rightarrow> Inr ACTIVATE
           | WRITE \<Rightarrow> Inr ACTIVATE
           | WRITE_PRECHARGE \<Rightarrow> Inr ACTIVATE
           | REFRESH \<Rightarrow> Inr (cmd_type cmd)
           | REFRESH_BANK \<Rightarrow> Inr (cmd_type cmd)
           | SREF_ENTER \<Rightarrow> Inr (cmd_type cmd)
           | _ \<Rightarrow> Inl (AbruptExit ''bankstate.cc'' 40))
      | OPEN \<Rightarrow>
          (case cmd_type cmd of
             READ \<Rightarrow> Inr (if Row cmd = open_row b then cmd_type cmd else PRECHARGE)
           | READ_PRECHARGE \<Rightarrow> Inr (if Row cmd = open_row b then cmd_type cmd else PRECHARGE)
           | WRITE \<Rightarrow> Inr (if Row cmd = open_row b then cmd_type cmd else PRECHARGE)
           | WRITE_PRECHARGE \<Rightarrow> Inr (if Row cmd = open_row b then cmd_type cmd else PRECHARGE)
           | REFRESH \<Rightarrow> Inr PRECHARGE
           | REFRESH_BANK \<Rightarrow> Inr PRECHARGE
           | SREF_ENTER \<Rightarrow> Inr PRECHARGE
           | _ \<Rightarrow> Inl (AbruptExit ''bankstate.cc'' 63))
      | SREF \<Rightarrow>
          (case cmd_type cmd of
             READ \<Rightarrow> Inr SREF_EXIT
           | READ_PRECHARGE \<Rightarrow> Inr SREF_EXIT
           | WRITE \<Rightarrow> Inr SREF_EXIT
           | WRITE_PRECHARGE \<Rightarrow> Inr SREF_EXIT
           | _ \<Rightarrow> Inl (AbruptExit ''bankstate.cc'' 77))
      | PD \<Rightarrow> Inl (AbruptExit ''bankstate.cc'' 84)
      | STATE_SIZE \<Rightarrow> Inl (AbruptExit ''bankstate.cc'' 84))"

definition BankState_GetReadyCommand :: "BankState \<Rightarrow> Command \<Rightarrow> u64 \<Rightarrow> Command res" where
  "BankState_GetReadyCommand b cmd clk =
     bindE (required_type b cmd) (\<lambda>rt.
       Inr (if rt \<noteq> CMD_SIZE \<and> clk \<ge> cmd_timing b rt
            then mk_Command rt (addr cmd) (hex_addr cmd)
            else Command_default))"

definition BankState_close :: "BankState \<Rightarrow> BankState" where
  "BankState_close b = b\<lparr>bk_state := CLOSED, open_row := -1, row_hit_count := 0\<rparr>"

definition BankState_UpdateState :: "BankState \<Rightarrow> Command \<Rightarrow> BankState res" where
  "BankState_UpdateState b cmd =
     (case bk_state b of
        OPEN \<Rightarrow>
          (case cmd_type cmd of
             READ \<Rightarrow> Inr (b\<lparr>row_hit_count := row_hit_count b + 1\<rparr>)
           | WRITE \<Rightarrow> Inr (b\<lparr>row_hit_count := row_hit_count b + 1\<rparr>)
           | READ_PRECHARGE \<Rightarrow> Inr (BankState_close b)
           | WRITE_PRECHARGE \<Rightarrow> Inr (BankState_close b)
           | PRECHARGE \<Rightarrow> Inr (BankState_close b)
           | _ \<Rightarrow> Inl (AbruptExit ''bankstate.cc'' 117))
      | CLOSED \<Rightarrow>
          (case cmd_type cmd of
             REFRESH \<Rightarrow> Inr b
           | REFRESH_BANK \<Rightarrow> Inr b
           | ACTIVATE \<Rightarrow> Inr (b\<lparr>bk_state := OPEN, open_row := Row cmd\<rparr>)
           | SREF_ENTER \<Rightarrow> Inr (b\<lparr>bk_state := SREF\<rparr>)
           | _ \<Rightarrow> Inl (AbruptExit ''bankstate.cc'' 140))
      | SREF \<Rightarrow>
          (case cmd_type cmd of
             SREF_EXIT \<Rightarrow> Inr (b\<lparr>bk_state := CLOSED\<rparr>)
           | _ \<Rightarrow> Inl (AbruptExit ''bankstate.cc'' 158))
      | _ \<Rightarrow> Inl (AbruptExit ''bankstate.cc'' 162))"

definition BankState_UpdateTiming :: "BankState \<Rightarrow> CommandType \<Rightarrow> u64 \<Rightarrow> BankState" where
  "BankState_UpdateTiming b ct time =
     b\<lparr>cmd_timing := (cmd_timing b)(ct := max (cmd_timing b ct) time)\<rparr>"

section \<open>Invariant\<close>

text \<open>A bank is open, closed or in self refresh; unless it is open, no row and no hits are recorded.\<close>

definition bank_wf :: "BankState \<Rightarrow> bool" where
  "bank_wf b =
     (bk_state b \<in> {OPEN, CLOSED, SREF} \<and> 0 \<le> row_hit_count b
      \<and> (bk_state b \<noteq> OPEN \<longrightarrow> open_row b = -1 \<and> row_hit_count b = 0))"

lemma bank_wf_new: "bank_wf BankState_new"
  by (simp add: bank_wf_def BankState_new_def)

lemma bank_wf_UpdateTiming [simp]: "bank_wf (BankState_UpdateTiming b ct t) = bank_wf b"
  by (simp add: bank_wf_def BankState_UpdateTiming_def)

lemma bank_wf_UpdateState:
  "bank_wf b \<Longrightarrow> BankState_UpdateState b cmd = Inr b' \<Longrightarrow> bank_wf b'"
  by (auto simp: bank_wf_def BankState_UpdateState_def BankState_close_def
      split: State.splits CommandType.splits)

lemma UpdateState_cmd_timing [simp]:
  "BankState_UpdateState b cmd = Inr b' \<Longrightarrow> cmd_timing b' = cmd_timing b"
  by (auto simp: BankState_UpdateState_def BankState_close_def
      split: State.splits CommandType.splits)

lemma UpdateTiming_simps [simp]:
  "bk_state (BankState_UpdateTiming b ct t) = bk_state b"
  "open_row (BankState_UpdateTiming b ct t) = open_row b"
  "row_hit_count (BankState_UpdateTiming b ct t) = row_hit_count b"
  by (simp_all add: BankState_UpdateTiming_def)

section \<open>Ready commands\<close>

lemma required_type_not_size: "required_type b cmd = Inr rt \<Longrightarrow> rt \<noteq> CMD_SIZE"
  by (auto simp: required_type_def split: State.splits CommandType.splits if_splits)

text \<open>What a ready command is: the next step towards the requested one, at or after its deadline.\<close>

lemma GetReadyCommand_valid:
  assumes "BankState_GetReadyCommand b cmd clk = Inr rc" "IsValid rc"
  obtains rt where "required_type b cmd = Inr rt" "rc = mk_Command rt (addr cmd) (hex_addr cmd)"
    "cmd_timing b rt \<le> clk"
  using assms by (auto simp: BankState_GetReadyCommand_def res_simps split: if_splits)

text \<open>The state switch of \<open>UpdateState\<close> accepts exactly what \<open>required_type\<close> asks for.\<close>

lemma required_type_accepted:
  assumes "required_type b cmd = Inr rt"
  shows "\<exists>b'. BankState_UpdateState b (mk_Command rt a h) = Inr b'"
  using assms
  by (auto simp: required_type_def BankState_UpdateState_def
      split: State.splits CommandType.splits if_splits)

lemma GetReadyCommand_accepted:
  assumes "BankState_GetReadyCommand b cmd clk = Inr rc" "IsValid rc"
  shows "\<exists>b'. BankState_UpdateState b rc = Inr b'"
  using assms by (auto elim: GetReadyCommand_valid intro: required_type_accepted)

lemma GetReadyCommand_rw_total:
  assumes "bank_wf b" "IsReadWrite cmd"
  shows "\<exists>rc. BankState_GetReadyCommand b cmd clk = Inr rc"
  using assms
  by (auto simp: bank_wf_def BankState_GetReadyCommand_def required_type_def command_kind_defs
      split: State.splits CommandType.splits)

lemma GetReadyCommand_refresh_total:
  assumes "bank_wf b" "bk_state b \<noteq> SREF" "IsRefresh cmd"
  shows "\<exists>rc. BankState_GetReadyCommand b cmd clk = Inr rc"
  using assms
  by (auto simp: bank_wf_def BankState_GetReadyCommand_def required_type_def command_kind_defs
      split: State.splits CommandType.splits)

lemma required_type_rw_cases:
  assumes "required_type b cmd = Inr rt" "IsReadWrite cmd"
  shows "rt = cmd_type cmd \<and> bk_state b = OPEN \<and> open_row b = Row cmd
    \<or> rt = PRECHARGE \<and> bk_state b = OPEN \<or> rt = ACTIVATE \<and> bk_state b = CLOSED
    \<or> rt = SREF_EXIT \<and> bk_state b = SREF"
  using assms
  by (auto simp: required_type_def command_kind_defs
      split: State.splits CommandType.splits if_splits)

text \<open>
  How far a bank is from serving an access: the number of further commands needed before the
  access itself can be issued.
\<close>

definition bank_distance :: "BankState \<Rightarrow> Command \<Rightarrow> nat" where
  "bank_distance b cmd =
     (case bk_state b of
        OPEN \<Rightarrow> (if open_row b = Row cmd then 0 else 2)
      | CLOSED \<Rightarrow> 1
      | _ \<Rightarrow> 2)"

lemma bank_distance_decreases:
  assumes "required_type b cmd = Inr rt" "IsReadWrite cmd" "rt \<noteq> cmd_type cmd"
    and "BankState_UpdateState b (mk_Command rt (addr cmd) h) = Inr b'"
  shows "bank_distance b' cmd < bank_distance b cmd"
  using assms
  by (auto simp: required_type_def command_kind_defs bank_distance_def BankState_UpdateState_def
      BankState_close_def split: State.splits CommandType.splits if_splits)

lemma bank_distance_zero:
  "bank_wf b \<Longrightarrow> IsReadWrite cmd \<Longrightarrow>
     bank_distance b cmd = 0 \<longleftrightarrow> required_type b cmd = Inr (cmd_type cmd)"
  by (auto simp: bank_wf_def bank_distance_def required_type_def command_kind_defs
      split: State.splits CommandType.splits if_splits)

section \<open>Properties\<close>

text \<open>
  A command that a well-formed bank reports as ready is legal: applying it to the bank does not
  abort, and the bank stays well formed.
\<close>

theorem bank_ready_is_legal:
  assumes "bank_wf b" "BankState_GetReadyCommand b cmd clk = Inr rc" "IsValid rc"
  shows "succeeds (BankState_UpdateState b rc) bank_wf"
  using GetReadyCommand_accepted [OF assms(2,3)] bank_wf_UpdateState [OF assms(1)]
  by (auto simp: succeeds_iff)

theorem bank_ready_is_legal_witness:
  "succeeds (BankState_UpdateState BankState_new (mk_Command ACTIVATE (mk_Address 0 0 0 0 7 3) 0)) bank_wf"
  by (rule bank_ready_is_legal [OF bank_wf_new,
        of "mk_Command READ (mk_Address 0 0 0 0 7 3) 0" 5]; code_simp)

text \<open>
  The commands a bank issues for an access when each is issued at a given time: one entry of the
  list per command issued, until the access itself is.
\<close>

fun bank_serve :: "BankState \<Rightarrow> Command \<Rightarrow> u64 list \<Rightarrow> CommandType list res" where
  "bank_serve b cmd [] = Inr []"
| "bank_serve b cmd (clk # clks) =
     bindE (BankState_GetReadyCommand b cmd clk) (\<lambda>rc.
     if \<not> IsValid rc then bank_serve b cmd clks
     else bindE (BankState_UpdateState b rc) (\<lambda>b'.
       if cmd_type rc = cmd_type cmd then Inr [cmd_type rc]
       else bindE (bank_serve b' cmd clks) (\<lambda>cs. Inr (cmd_type rc # cs))))"

lemma bank_serve_step:
  assumes "bank_wf b" "IsReadWrite cmd" "\<forall>ct. cmd_timing b ct \<le> clk"
  obtains rt b' where "required_type b cmd = Inr rt" "bank_wf b'" "cmd_timing b' = cmd_timing b"
    "BankState_UpdateState b (mk_Command rt (addr cmd) (hex_addr cmd)) = Inr b'"
    "BankState_GetReadyCommand b cmd clk = Inr (mk_Command rt (addr cmd) (hex_addr cmd))"
proof -
  obtain rc where rc: "BankState_GetReadyCommand b cmd clk = Inr rc"
    using GetReadyCommand_rw_total [OF assms(1,2)] by blast
  then obtain rt where rt: "required_type b cmd = Inr rt"
    by (auto simp: BankState_GetReadyCommand_def res_simps)
  obtain b' where b': "BankState_UpdateState b (mk_Command rt (addr cmd) (hex_addr cmd)) = Inr b'"
    using required_type_accepted [OF rt] by blast
  show thesis
    by (rule that [OF rt bank_wf_UpdateState [OF assms(1) b'] UpdateState_cmd_timing [OF b'] b'])
      (use rt assms(3) required_type_not_size [OF rt] in \<open>simp add: BankState_GetReadyCommand_def\<close>)
qed

lemma bank_serve_bound:
  assumes "bank_wf b" "IsReadWrite cmd" "\<forall>clk \<in> set clks. \<forall>ct. cmd_timing b ct \<le> clk"
    and "bank_distance b cmd < length clks"
  shows "\<exists>cs. bank_serve b cmd clks = Inr (cs @ [cmd_type cmd]) \<and> length cs \<le> bank_distance b cmd"
  using assms
proof (induction clks arbitrary: b)
  case (Cons clk clks)
  have "\<forall>ct. cmd_timing b ct \<le> clk" using Cons.prems(3) by simp
  from bank_serve_step [OF Cons.prems(1,2) this] obtain rt b' where
    rt: "required_type b cmd = Inr rt" and b': "bank_wf b'" "cmd_timing b' = cmd_timing b"
      "BankState_UpdateState b (mk_Command rt (addr cmd) (hex_addr cmd)) = Inr b'"
      "BankState_GetReadyCommand b cmd clk = Inr (mk_Command rt (addr cmd) (hex_addr cmd))" .
  have v: "IsValid (mk_Command rt (addr cmd) (hex_addr cmd))"
    using required_type_not_size [OF rt] by (simp add: IsValid_def)
  show ?case
  proof (cases "rt = cmd_type cmd")
    case True
    with b'(3,4) v show ?thesis by (intro exI [of _ "[]"]) simp
  next
    case False
    note dec = bank_distance_decreases [OF rt Cons.prems(2) False b'(3)]
    have "\<exists>cs. bank_serve b' cmd clks = Inr (cs @ [cmd_type cmd]) \<and> length cs \<le> bank_distance b' cmd"
      by (rule Cons.IH) (use Cons.prems b'(1,2) dec in auto)
    then obtain cs where "bank_serve b' cmd clks = Inr (cs @ [cmd_type cmd])"
      "length cs \<le> bank_distance b' cmd" by blast
    then show ?thesis
      using b'(3,4) v False dec by (intro exI [of _ "rt # cs"]) simp
  qed
qed simp

text \<open>
  Claim C17. Every read or write is served: from any well-formed bank, if the bank is asked at three times
  that are past its deadlines, it issues at most two other commands and then the access itself.
\<close>

theorem bank_serves_access:
  assumes "bank_wf b" "IsReadWrite cmd" "\<forall>clk \<in> {t1, t2, t3}. \<forall>ct. cmd_timing b ct \<le> clk"
  shows "\<exists>cs. bank_serve b cmd [t1, t2, t3] = Inr (cs @ [cmd_type cmd]) \<and> length cs \<le> 2"
proof -
  have "bank_distance b cmd \<le> 2"
    by (simp add: bank_distance_def split: State.split)
  then show ?thesis
    using bank_serve_bound [OF assms(1,2), of "[t1, t2, t3]"] assms(3) by fastforce
qed

definition bank_open_5 :: BankState where
  "bank_open_5 = BankState_new\<lparr>bk_state := OPEN, open_row := 5\<rparr>"

theorem bank_serves_access_witness:
  "\<exists>cs. bank_serve bank_open_5 (mk_Command READ (mk_Address 0 0 0 0 7 3) 0) [10, 20, 30] = Inr (cs @ [READ])
     \<and> length cs \<le> 2"
  using bank_serves_access [of bank_open_5 "mk_Command READ (mk_Address 0 0 0 0 7 3) 0" 10 20 30]
  by (simp add: bank_open_5_def BankState_new_def bank_wf_def command_kind_defs)

end
