(* ===== verification/Address_Mapping.thy ===== *)
theory Address_Mapping
  imports Dram_Config
begin

text \<open>
  The correctness of the address mapping of \<^verbatim>\<open>Config::SetAddressMapping\<close> and
  \<^verbatim>\<open>Config::AddressMapping\<close>: the fields a mapping string lays out are side by side, every field of
  a mapped address is inside the configured geometry, and the mapping has an inverse on the
  addresses it can produce.
\<close>

section \<open>Reference layout\<close>

text \<open>
  The reference the mapping is compared with: the physical address whose fields are those of a
  decoded address, each shifted to its position.
\<close>

definition EncodeAddress :: "Config \<Rightarrow> Address \<Rightarrow> u64" where
  "EncodeAddress c a = word_of_int
     (2 ^ nat (shift_bits (amap c)) *
      (ad_channel a * 2 ^ nat (ch_pos (amap c)) + ad_rank a * 2 ^ nat (ra_pos (amap c))
       + ad_bankgroup a * 2 ^ nat (bg_pos (amap c)) + ad_bank a * 2 ^ nat (ba_pos (amap c))
       + ad_row a * 2 ^ nat (ro_pos (amap c)) + ad_column a * 2 ^ nat (co_pos (amap c))))"

text \<open>The bits of a physical address above the request offset.\<close>

definition address_bits :: "Config \<Rightarrow> int" where
  "address_bits c =
     LogBase2 (channels (dram c)) + LogBase2 (ranks (dram c)) + LogBase2 (bankgroups (dram c))
     + LogBase2 (banks_per_group (dram c)) + LogBase2 (rows (dram c))
     + (LogBase2 (columns (dram c)) - LogBase2 (BL (dram c)))"

text \<open>Each field fits the width its token has.\<close>

definition mapped_address :: "Config \<Rightarrow> Address \<Rightarrow> bool" where
  "mapped_address c a =
     (0 \<le> ad_channel a \<and> ad_channel a < 2 ^ nat (LogBase2 (channels (dram c)))
      \<and> 0 \<le> ad_rank a \<and> ad_rank a < 2 ^ nat (LogBase2 (ranks (dram c)))
      \<and> 0 \<le> ad_bankgroup a \<and> ad_bankgroup a < 2 ^ nat (LogBase2 (bankgroups (dram c)))
      \<and> 0 \<le> ad_bank a \<and> ad_bank a < 2 ^ nat (LogBase2 (banks_per_group (dram c)))
      \<and> 0 \<le> ad_row a \<and> ad_row a < 2 ^ nat (LogBase2 (rows (dram c)))
      \<and> 0 \<le> ad_column a
      \<and> ad_column a < 2 ^ nat (LogBase2 (columns (dram c)) - LogBase2 (BL (dram c))))"

definition field_value :: "Address \<Rightarrow> string \<Rightarrow> int" where
  "field_value a t =
     (if t = ''ch'' then ad_channel a else if t = ''ra'' then ad_rank a
      else if t = ''bg'' then ad_bankgroup a else if t = ''ba'' then ad_bank a
      else if t = ''ro'' then ad_row a else ad_column a)"

section \<open>The fields of a mapped address\<close>

lemma field_mask_Inr:
  assumes "field_mask w = Inr m"
  shows "0 \<le> w" "w < 31" "m = mask (nat w)"
  using assms by (auto simp: field_mask_def mask_eq_exp_minus_1 split: if_splits)

lemma select_field_mask:
  assumes "field_mask w = Inr m"
  shows "select_field h pos m = uint h div 2 ^ nat pos mod 2 ^ nat w"
proof -
  note w = field_mask_Inr [OF assms]
  let ?x = "drop_bit (nat pos) h AND m"
  have x: "uint ?x = uint h div 2 ^ nat pos mod 2 ^ nat w"
  proof -
    have "?x = take_bit (nat w) (drop_bit (nat pos) h)"
      by (simp add: w(3) take_bit_eq_mask)
    also have "uint \<dots> = take_bit (nat w) (drop_bit (nat pos) (uint h))"
      by (simp add: unsigned_take_bit_eq unsigned_drop_bit_eq bintr_uint)
    finally show ?thesis
      by (simp add: drop_bit_eq_div take_bit_eq_mod)
  qed
  have "(2::int) ^ nat w \<le> 2 ^ 31"
    using w by (intro power_increasing) auto
  then have "uint ?x < 2 ^ 31"
    unfolding x
    by (rule order_less_le_trans [rotated]) (rule pos_mod_bound, simp)
  then show ?thesis
    unfolding select_field_def by (simp only: to_int32_small x)
qed

lemma select_field_bounds:
  assumes "field_mask w = Inr m"
  shows "0 \<le> select_field h pos m" "select_field h pos m < 2 ^ nat w"
  by (simp_all add: select_field_mask [OF assms])

lemma field_widths_simps [simp]:
  "field_widths c ''ch'' = Some (LogBase2 (channels (dram c)))"
  "field_widths c ''ra'' = Some (LogBase2 (ranks (dram c)))"
  "field_widths c ''bg'' = Some (LogBase2 (bankgroups (dram c)))"
  "field_widths c ''ba'' = Some (LogBase2 (banks_per_group (dram c)))"
  "field_widths c ''ro'' = Some (LogBase2 (rows (dram c)))"
  "field_widths c ''co'' = Some (LogBase2 (columns (dram c)) - LogBase2 (BL (dram c)))"
  by (simp_all add: field_widths_def)

text \<open>What a successful \<open>SetAddressMapping\<close> leaves in the configuration.\<close>

lemma SetAddressMapping_Inr:
  assumes "SetAddressMapping c = Inr c'"
  obtains fp where
    "length (address_mapping (sys c)) = 12"
    "assign_positions (field_widths c) (rev (mapping_tokens (address_mapping (sys c)))) 0 Map.empty = Inr fp"
    "fp ''ch'' = Some (ch_pos (amap c'))" "fp ''ra'' = Some (ra_pos (amap c'))"
    "fp ''bg'' = Some (bg_pos (amap c'))" "fp ''ba'' = Some (ba_pos (amap c'))"
    "fp ''ro'' = Some (ro_pos (amap c'))" "fp ''co'' = Some (co_pos (amap c'))"
    "field_mask (LogBase2 (channels (dram c))) = Inr (ch_mask (amap c'))"
    "field_mask (LogBase2 (ranks (dram c))) = Inr (ra_mask (amap c'))"
    "field_mask (LogBase2 (bankgroups (dram c))) = Inr (bg_mask (amap c'))"
    "field_mask (LogBase2 (banks_per_group (dram c))) = Inr (ba_mask (amap c'))"
    "field_mask (LogBase2 (rows (dram c))) = Inr (ro_mask (amap c'))"
    "field_mask (LogBase2 (columns (dram c)) - LogBase2 (BL (dram c))) = Inr (co_mask (amap c'))"
    "dram c' = dram c" "tim c' = tim c" "sys c' = sys c"
    "shift_bits (amap c') = LogBase2 ((bus_width (dram c) sdiv 8) * BL (dram c))"
  using assms
  by (auto simp: SetAddressMapping_def Let_def map_at_def res_simps
      split: if_splits option.splits)

section \<open>Fields laid out side by side\<close>

text \<open>
  An address seen as a mixed-radix number: the tokens, least significant first, each with a width
  and a value.  \<open>token_pos\<close> is the sum of the widths below a token.
\<close>

fun token_pos :: "('t \<Rightarrow> nat) \<Rightarrow> 't list \<Rightarrow> 't \<Rightarrow> nat" where
  "token_pos w [] t = 0"
| "token_pos w (x # xs) t = (if x = t then 0 else w x + token_pos w xs t)"

fun pack :: "('t \<Rightarrow> nat) \<Rightarrow> ('t \<Rightarrow> int) \<Rightarrow> 't list \<Rightarrow> int" where
  "pack w v [] = 0"
| "pack w v (x # xs) = v x + 2 ^ w x * pack w v xs"

lemma pack_bounds:
  "(\<And>t. t \<in> set ts \<Longrightarrow> 0 \<le> v t \<and> v t < 2 ^ w t) \<Longrightarrow>
     0 \<le> pack w v ts \<and> pack w v ts < 2 ^ sum_list (map w ts)"
proof (induction ts)
  case (Cons x xs)
  then have IH: "0 \<le> pack w v xs" "pack w v xs + 1 \<le> 2 ^ sum_list (map w xs)"
    and x: "0 \<le> v x" "v x < 2 ^ w x" by auto
  have "2 ^ w x * (pack w v xs + 1) \<le> 2 ^ w x * (2::int) ^ sum_list (map w xs)"
    using IH(2) by (intro mult_left_mono) auto
  with IH x show ?case by (simp add: power_add algebra_simps)
qed simp

lemma pack_select:
  assumes "distinct ts" "t \<in> set ts" "\<And>t. t \<in> set ts \<Longrightarrow> 0 \<le> v t \<and> v t < 2 ^ w t"
  shows "pack w v ts div 2 ^ token_pos w ts t mod 2 ^ w t = v t"
  using assms
proof (induction ts)
  case (Cons x xs)
  show ?case
  proof (cases "x = t")
    case True
    with Cons.prems show ?thesis by simp
  next
    case False
    have x: "0 \<le> v x" "v x < 2 ^ w x" using Cons.prems(3) [of x] by auto
    have "pack w v (x # xs) div 2 ^ w x = pack w v xs"
      using x by (simp add: div_pos_pos_trivial)
    then have "pack w v (x # xs) div 2 ^ token_pos w (x # xs) t = pack w v xs div 2 ^ token_pos w xs t"
      using False by (simp add: power_add zdiv_zmult2_eq)
    with False Cons show ?thesis by auto
  qed
qed simp

lemma pack_as_sum:
  "distinct ts \<Longrightarrow> pack w v ts = (\<Sum>t \<in> set ts. v t * 2 ^ token_pos w ts t)"
proof (induction ts)
  case (Cons x xs)
  have "(\<Sum>t \<in> set xs. v t * 2 ^ token_pos w (x # xs) t)
      = (\<Sum>t \<in> set xs. 2 ^ w x * (v t * 2 ^ token_pos w xs t))"
    using Cons.prems by (intro sum.cong) (auto simp: power_add)
  then show ?case using Cons by (simp add: sum_distrib_left)
qed simp

lemma assign_positions_pos:
  assumes "assign_positions ws ts p fp = Inr fp'" "distinct ts"
    and "\<And>t. t \<in> set ts \<Longrightarrow> ws t = Some (int (w t))"
  shows "fp' t = (if t \<in> set ts then Some (p + int (token_pos w ts t)) else fp t)"
  using assms
proof (induction ws ts p fp rule: assign_positions.induct)
  case (2 ws x xs p fp)
  then have wx: "ws x = Some (int (w x))" by simp
  have "assign_positions ws xs (p + int (w x)) (fp(x \<mapsto> p)) = Inr fp'"
    using "2.prems"(1) wx by simp
  from "2.IH" [OF wx this] "2.prems" show ?case by auto
qed auto

lemma assign_positions_dom:
  "assign_positions ws ts p fp = Inr fp' \<Longrightarrow> dom fp' = dom fp \<union> set ts \<and> set ts \<subseteq> dom ws"
  by (induction ws ts p fp rule: assign_positions.induct) (auto split: option.splits)

lemma length_mapping_tokens: "even (length s) \<Longrightarrow> length (mapping_tokens s) = length s div 2"
  by (induction s rule: mapping_tokens.induct) auto

definition field_names :: "string list" where
  "field_names = [''ch'', ''ra'', ''bg'', ''ba'', ''ro'', ''co'']"

lemma field_widths_dom: "dom (field_widths c) = set field_names"
  by (auto simp: field_widths_def field_names_def split: if_splits)

lemma tokens_are_fields:
  assumes "length s = 12" "assign_positions (field_widths c) (rev (mapping_tokens s)) 0 Map.empty = Inr fp"
    and "\<And>f. f \<in> set field_names \<Longrightarrow> fp f \<noteq> None"
  shows "distinct (rev (mapping_tokens s))" "set (rev (mapping_tokens s)) = set field_names"
proof -
  let ?ts = "rev (mapping_tokens s)"
  have len: "length ?ts = 6" using assms(1) by (simp add: length_mapping_tokens)
  have card6: "card (set field_names) = 6" by (simp add: field_names_def)
  have "set field_names \<subseteq> dom fp" using assms(3) by auto
  then show eq: "set ?ts = set field_names"
    using assign_positions_dom [OF assms(2)] field_widths_dom [of c] by auto
  show "distinct ?ts"
    by (rule card_distinct) (simp only: eq len card6)
qed

lemma select_field_uint:
  assumes "field_mask w = Inr m" "uint h = n"
  shows "select_field h pos m = n div 2 ^ nat pos mod 2 ^ nat w"
  using select_field_mask [OF assms(1)] assms(2) by simp

lemma field_value_simps [simp]:
  "field_value a ''ch'' = ad_channel a" "field_value a ''ra'' = ad_rank a"
  "field_value a ''bg'' = ad_bankgroup a" "field_value a ''ba'' = ad_bank a"
  "field_value a ''ro'' = ad_row a" "field_value a ''co'' = ad_column a"
  by (simp_all add: field_value_def)

lemma field_value_bounds:
  assumes "mapped_address c a" "t \<in> set field_names"
  shows "0 \<le> field_value a t \<and> field_value a t < 2 ^ nat (the (field_widths c t))"
proof -
  from assms(2) consider "t = ''ch''" | "t = ''ra''" | "t = ''bg''" | "t = ''ba''" | "t = ''ro''"
    | "t = ''co''" by (auto simp: field_names_def)
  then show ?thesis using assms(1) unfolding mapped_address_def by cases simp_all
qed

lemma AddressMapping_mapped:
  assumes "SetAddressMapping c = Inr c'"
  shows "mapped_address c (AddressMapping c' hex)"
  using assms
  by (auto elim!: SetAddressMapping_Inr
      simp: mapped_address_def AddressMapping_def Let_def select_field_bounds)

abbreviation field_width :: "Config \<Rightarrow> string \<Rightarrow> nat" where
  "field_width c t \<equiv> nat (the (field_widths c t))"

lemma uint_word_of_int_small: "0 \<le> n \<Longrightarrow> n < 2 ^ 64 \<Longrightarrow> uint (word_of_int n :: u64) = n"
  by (simp add: uint_word_of_int take_bit_int_eq_self)

lemma uint_drop_bit_div: "uint (drop_bit n (h::u64)) = uint h div 2 ^ n"
  unfolding unsigned_drop_bit_eq bintr_uint [OF order_refl] by (rule drop_bit_eq_div)

text \<open>The positions a successful \<open>SetAddressMapping\<close> computes are those of fields side by side.\<close>

lemma SetAddressMapping_layout:
  assumes "SetAddressMapping c = Inr c'"
  obtains ts where
    "distinct ts" "set ts = set field_names"
    "ch_pos (amap c') = int (token_pos (field_width c) ts ''ch'')"
    "ra_pos (amap c') = int (token_pos (field_width c) ts ''ra'')"
    "bg_pos (amap c') = int (token_pos (field_width c) ts ''bg'')"
    "ba_pos (amap c') = int (token_pos (field_width c) ts ''ba'')"
    "ro_pos (amap c') = int (token_pos (field_width c) ts ''ro'')"
    "co_pos (amap c') = int (token_pos (field_width c) ts ''co'')"
  using assms
proof (rule SetAddressMapping_Inr)
  fix fp
  let ?ts = "rev (mapping_tokens (address_mapping (sys c)))"
  assume fp: "length (address_mapping (sys c)) = 12"
    "assign_positions (field_widths c) ?ts 0 Map.empty = Inr fp"
    "fp ''ch'' = Some (ch_pos (amap c'))" "fp ''ra'' = Some (ra_pos (amap c'))"
    "fp ''bg'' = Some (bg_pos (amap c'))" "fp ''ba'' = Some (ba_pos (amap c'))"
    "fp ''ro'' = Some (ro_pos (amap c'))" "fp ''co'' = Some (co_pos (amap c'))"
  assume m: "field_mask (LogBase2 (columns (dram c)) - LogBase2 (BL (dram c))) = Inr (co_mask (amap c'))"
  have fnd: "fp f \<noteq> None" if "f \<in> set field_names" for f
    using that fp by (auto simp: field_names_def)
  have ts: "distinct ?ts" "set ?ts = set field_names"
    using tokens_are_fields [OF fp(1,2) fnd] by blast+
  have wid: "field_widths c t = Some (int (field_width c t))" if "t \<in> set ?ts" for t
    using that field_mask_Inr(1) [OF m] unfolding ts(2)
    by (auto simp: field_names_def LogBase2_nonneg)
  have pos: "fp t = Some q \<Longrightarrow> q = int (token_pos (field_width c) ?ts t)"
    if "t \<in> set field_names" for t q
    using assign_positions_pos [where w = "field_width c" and t = t, OF fp(2) ts(1) wid] that ts(2)
    by (metis add_0 option.inject)
  show thesis
    by (rule that [OF ts]) (rule pos, simp add: field_names_def, simp add: fp)+
qed

lemma SetAddressMapping_masks:
  assumes "SetAddressMapping c = Inr c'"
  shows "field_mask (LogBase2 (channels (dram c))) = Inr (ch_mask (amap c'))"
    "field_mask (LogBase2 (ranks (dram c))) = Inr (ra_mask (amap c'))"
    "field_mask (LogBase2 (bankgroups (dram c))) = Inr (bg_mask (amap c'))"
    "field_mask (LogBase2 (banks_per_group (dram c))) = Inr (ba_mask (amap c'))"
    "field_mask (LogBase2 (rows (dram c))) = Inr (ro_mask (amap c'))"
    "field_mask (LogBase2 (columns (dram c)) - LogBase2 (BL (dram c))) = Inr (co_mask (amap c'))"
  using assms by (auto elim: SetAddressMapping_Inr)

lemma sum_field_widths:
  assumes "SetAddressMapping c = Inr c'" "distinct ts" "set ts = set field_names"
  shows "int (sum_list (map (field_width c) ts)) = address_bits c"
proof -
  have co: "0 \<le> LogBase2 (columns (dram c)) - LogBase2 (BL (dram c))"
    by (rule field_mask_Inr(1) [OF SetAddressMapping_masks(6) [OF assms(1)]])
  have "sum_list (map (field_width c) ts) = (\<Sum>t \<in> set field_names. field_width c t)"
    using sum_list_distinct_conv_sum_set [OF assms(2)] assms(3) by simp
  then show ?thesis
    using co by (simp add: field_names_def address_bits_def LogBase2_nonneg)
qed

lemma uint_EncodeAddress:
  assumes S: "SetAddressMapping c = Inr c'" and a: "mapped_address c a"
    and bits: "shift_bits (amap c') + address_bits c \<le> 64" "0 \<le> shift_bits (amap c')"
    and ts: "distinct ts" "set ts = set field_names"
    and enc: "EncodeAddress c' a =
      word_of_int (2 ^ nat (shift_bits (amap c')) * pack (field_width c) (field_value a) ts)"
  shows "uint (drop_bit (nat (shift_bits (amap c'))) (EncodeAddress c' a))
    = pack (field_width c) (field_value a) ts"
proof -
  let ?s = "nat (shift_bits (amap c'))" and ?p = "pack (field_width c) (field_value a) ts"
  have b: "0 \<le> ?p" "?p < 2 ^ sum_list (map (field_width c) ts)"
    using pack_bounds [of ts "field_value a" "field_width c"] field_value_bounds [OF a] ts by auto
  have tot: "?s + sum_list (map (field_width c) ts) \<le> 64"
    using sum_field_widths [OF S ts] bits by linarith
  have "2 ^ ?s * ?p < 2 ^ ?s * 2 ^ sum_list (map (field_width c) ts)" using b by simp
  also have "\<dots> = 2 ^ (?s + sum_list (map (field_width c) ts))" by (simp add: power_add)
  also have "\<dots> \<le> (2::int) ^ 64" using tot by (intro power_increasing) auto
  finally have "uint (EncodeAddress c' a) = 2 ^ ?s * ?p"
    unfolding enc using b by (intro uint_word_of_int_small) auto
  then show ?thesis by (simp add: uint_drop_bit_div)
qed

lemma AddressMapping_EncodeAddress:
  assumes S: "SetAddressMapping c = Inr c'" and a: "mapped_address c a"
    and bits: "shift_bits (amap c') + address_bits c \<le> 64" "0 \<le> shift_bits (amap c')"
  shows "AddressMapping c' (EncodeAddress c' a) = a"
proof -
  from S obtain ts where ts: "distinct ts" "set ts = set field_names"
    and p: "ch_pos (amap c') = int (token_pos (field_width c) ts ''ch'')"
      "ra_pos (amap c') = int (token_pos (field_width c) ts ''ra'')"
      "bg_pos (amap c') = int (token_pos (field_width c) ts ''bg'')"
      "ba_pos (amap c') = int (token_pos (field_width c) ts ''ba'')"
      "ro_pos (amap c') = int (token_pos (field_width c) ts ''ro'')"
      "co_pos (amap c') = int (token_pos (field_width c) ts ''co'')"
    by (rule SetAddressMapping_layout)
  let ?p = "pack (field_width c) (field_value a) ts" and ?s = "nat (shift_bits (amap c'))"
  have enc: "EncodeAddress c' a = word_of_int (2 ^ ?s * ?p)"
    unfolding pack_as_sum [OF ts(1)] ts(2)
    by (simp add: EncodeAddress_def p field_names_def add.assoc)
  note h = uint_EncodeAddress [OF S a bits ts enc]
  have sel: "?p div 2 ^ token_pos (field_width c) ts t mod 2 ^ field_width c t = field_value a t"
    if "t \<in> set field_names" for t
    by (rule pack_select) (use ts that field_value_bounds [OF a] in auto)
  have mem: "''ch'' \<in> set field_names" "''ra'' \<in> set field_names" "''bg'' \<in> set field_names"
    "''ba'' \<in> set field_names" "''ro'' \<in> set field_names" "''co'' \<in> set field_names"
    by (simp_all add: field_names_def)
  show ?thesis
    by (simp add: AddressMapping_def Let_def p mk_Address_def mem [THEN sel, simplified]
        SetAddressMapping_masks [OF S, THEN select_field_uint, OF h])
qed


section \<open>Properties\<close>

text \<open>The geometry has at least one of everything.\<close>

definition geometry_ok :: "Config \<Rightarrow> bool" where
  "geometry_ok c =
     (1 \<le> channels (dram c) \<and> 1 \<le> ranks (dram c) \<and> 1 \<le> bankgroups (dram c)
      \<and> 1 \<le> banks_per_group (dram c) \<and> 1 \<le> rows (dram c) \<and> 1 \<le> columns (dram c))"

definition address_in_geometry :: "Config \<Rightarrow> Address \<Rightarrow> bool" where
  "address_in_geometry c a =
     (0 \<le> ad_channel a \<and> ad_channel a < channels (dram c)
      \<and> 0 \<le> ad_rank a \<and> ad_rank a < ranks (dram c)
      \<and> 0 \<le> ad_bankgroup a \<and> ad_bankgroup a < bankgroups (dram c)
      \<and> 0 \<le> ad_bank a \<and> ad_bank a < banks_per_group (dram c)
      \<and> 0 \<le> ad_row a \<and> ad_row a < rows (dram c)
      \<and> 0 \<le> ad_column a \<and> ad_column a < columns (dram c))"

lemma mapped_in_geometry:
  assumes "geometry_ok c" "mapped_address c a"
  shows "address_in_geometry c a"
proof -
  have "(2::int) ^ nat (LogBase2 (columns (dram c)) - LogBase2 (BL (dram c)))
      \<le> 2 ^ nat (LogBase2 (columns (dram c)))"
    using LogBase2_nonneg [of "BL (dram c)"] by (intro power_increasing nat_mono) auto
  moreover note assms(1) [unfolded geometry_ok_def]
  ultimately show ?thesis
    using assms(2) LogBase2_le [of "channels (dram c)"] LogBase2_le [of "ranks (dram c)"]
      LogBase2_le [of "bankgroups (dram c)"] LogBase2_le [of "banks_per_group (dram c)"]
      LogBase2_le [of "rows (dram c)"] LogBase2_le [of "columns (dram c)"]
    unfolding mapped_address_def address_in_geometry_def by linarith
qed

lemma AddressMapping_valid:
  assumes "SetAddressMapping c = Inr c'" "geometry_ok c"
  shows "address_in_geometry c' (AddressMapping c' hex)"
  using mapped_in_geometry [OF assms(2) AddressMapping_mapped [OF assms(1)]] assms(1)
  by (auto elim!: SetAddressMapping_Inr simp: address_in_geometry_def)

lemma lpddr5_SetAddressMapping: "SetAddressMapping lpddr5_config = Inr lpddr5_config"
  by code_simp

lemma lpddr5_geometry: "geometry_ok lpddr5_config"
  by code_simp

text \<open>
  Claim C18. Whenever the address mapping could be set up, decoding any 64-bit address gives a
  channel, rank, bank group, bank, row and column inside the configured geometry, so that every
  later use of them as a vector index is in range.
\<close>

theorem AddressMapping_in_range:
  assumes "SetAddressMapping c = Inr c'" "geometry_ok c"
  shows "address_in_geometry c' (AddressMapping c' hex)"
  by (rule AddressMapping_valid [OF assms])

theorem AddressMapping_in_range_witness:
  "address_in_geometry lpddr5_config (AddressMapping lpddr5_config 0xDEADBEEF)"
  by (rule AddressMapping_in_range [OF lpddr5_SetAddressMapping lpddr5_geometry])

text \<open>
  Claim C19. Decoding is a left inverse of the layout \<open>EncodeAddress\<close>: every decoded address whose
  fields fit their widths is the image of a physical address, for every order of the six tokens in
  the mapping string, provided the fields and the request offset fit in 64 bits.
\<close>

theorem AddressMapping_roundtrip:
  assumes "SetAddressMapping c = Inr c'" "mapped_address c a"
    and "shift_bits (amap c') + address_bits c \<le> 64"
  shows "AddressMapping c' (EncodeAddress c' a) = a"
proof -
  have "0 \<le> shift_bits (amap c')"
    using assms(1) by (auto elim!: SetAddressMapping_Inr simp: LogBase2_nonneg)
  then show ?thesis by (rule AddressMapping_EncodeAddress [OF assms])
qed

theorem AddressMapping_roundtrip_witness:
  "AddressMapping lpddr5_config (EncodeAddress lpddr5_config (mk_Address 1 0 2 3 4097 17))
     = mk_Address 1 0 2 3 4097 17"
  by (rule AddressMapping_roundtrip [OF lpddr5_SetAddressMapping]; code_simp)

text \<open>
  With the shipped three-channel configuration the mapping never selects channel 2: the
  width of the channel field is the logarithm rounded down, so a third of the channels stays unused.
\<close>

theorem third_channel_unused:
  "succeeds (Config_new (lpddr5_ini 3) Config_zero)
     (\<lambda>c. channels (dram c) = 3 \<and> (\<forall>hex. ad_channel (AddressMapping c hex) < 2))"
proof -
  have "field_mask 1 = Inr (ch_mask (amap lpddr5_config))"
    by (simp add: field_mask_def lpddr5_config_def)
  from select_field_bounds(2) [OF this] show ?thesis
    by (simp add: lpddr5_config_new AddressMapping_def Let_def) (simp add: lpddr5_config_def)
qed

end
