(* ===== verification/Channel_State.thy ===== *)
theory Channel_State
  imports Bank_State Address_Mapping
begin

text \<open>
  \<^verbatim>\<open>DRAMsim3/src/channel_state.h\<close> and \<^verbatim>\<open>channel_state.cc\<close>: the banks of a channel, the queue of
  pending refreshes, the self-refresh flags and the activation windows.  The references to the
  configuration and to the timing tables that the object holds are arguments.
\<close>

section \<open>State\<close>

record ChannelState =
  rank_idle_cycles :: "int list"
  rank_is_sref :: "bool list"
  bank_states :: "BankState list list list"
  refresh_q :: "Command list"
  four_aw :: "u64 list list"
  thirty_two_aw :: "u64 list list"

definition ChannelState_new :: "Config \<Rightarrow> ChannelState" where
  "ChannelState_new cfg =
     (let n = nat (ranks (dram cfg)) in
      \<lparr>rank_idle_cycles = replicate n 0,
       rank_is_sref = replicate n False,
       bank_states = map (\<lambda>i. map (\<lambda>j. replicate (nat (banks_per_group (dram cfg))) BankState_new)
                        (int_range (bankgroups (dram cfg)))) (int_range (ranks (dram cfg))),
       refresh_q = [],
       four_aw = replicate n [],
       thirty_two_aw = replicate n []\<rparr>)"

text \<open>\<^verbatim>\<open>bank_states_[r][j][k]\<close>, read and assigned.\<close>

definition bank_at :: "ChannelState \<Rightarrow> int \<Rightarrow> int \<Rightarrow> int \<Rightarrow> BankState res" where
  "bank_at cs r j k =
     bindE (nth_res (bank_states cs) r) (\<lambda>rk. bindE (nth_res rk j) (\<lambda>bg. nth_res bg k))"

definition set_bank :: "ChannelState \<Rightarrow> int \<Rightarrow> int \<Rightarrow> int \<Rightarrow> BankState \<Rightarrow> ChannelState res" where
  "set_bank cs r j k b =
     bindE (nth_res (bank_states cs) r) (\<lambda>rk.
     bindE (nth_res rk j) (\<lambda>bg.
     bindE (upd_res bg k b) (\<lambda>bg'.
     bindE (upd_res rk j bg') (\<lambda>rk'.
     bindE (upd_res (bank_states cs) r rk') (\<lambda>bs'.
     Inr (cs\<lparr>bank_states := bs'\<rparr>))))))"

definition modify_bank ::
    "(BankState \<Rightarrow> BankState res) \<Rightarrow> int \<Rightarrow> int \<Rightarrow> int \<Rightarrow> ChannelState \<Rightarrow> ChannelState res" where
  "modify_bank f r j k cs =
     bindE (bank_at cs r j k) (\<lambda>b. bindE (f b) (\<lambda>b'. set_bank cs r j k b'))"

section \<open>Queries\<close>

definition ChannelState_IsRowOpen :: "ChannelState \<Rightarrow> int \<Rightarrow> int \<Rightarrow> int \<Rightarrow> bool res" where
  "ChannelState_IsRowOpen cs rank bankgroup bank =
     bindE (bank_at cs rank bankgroup bank) (\<lambda>b. Inr (BankState_IsRowOpen b))"

definition ChannelState_OpenRow :: "ChannelState \<Rightarrow> int \<Rightarrow> int \<Rightarrow> int \<Rightarrow> int res" where
  "ChannelState_OpenRow cs rank bankgroup bank =
     bindE (bank_at cs rank bankgroup bank) (\<lambda>b. Inr (open_row b))"

definition ChannelState_RowHitCount :: "ChannelState \<Rightarrow> int \<Rightarrow> int \<Rightarrow> int \<Rightarrow> int res" where
  "ChannelState_RowHitCount cs rank bankgroup bank =
     bindE (bank_at cs rank bankgroup bank) (\<lambda>b. Inr (row_hit_count b))"

definition IsRankSelfRefreshing :: "ChannelState \<Rightarrow> int \<Rightarrow> bool res" where
  "IsRankSelfRefreshing cs rank = nth_res (rank_is_sref cs) rank"

definition IsRefreshWaiting :: "ChannelState \<Rightarrow> bool" where
  "IsRefreshWaiting cs = (refresh_q cs \<noteq> [])"

definition PendingRefCommand :: "ChannelState \<Rightarrow> Command res" where
  "PendingRefCommand cs = nth_res (refresh_q cs) 0"

text \<open>The pairs \<^verbatim>\<open>(j, k)\<close> of the two nested loops over the banks of a rank, in loop order.\<close>

definition rank_banks :: "Config \<Rightarrow> (int \<times> int) list" where
  "rank_banks cfg =
     List.product (int_range (bankgroups (dram cfg))) (int_range (banks_per_group (dram cfg)))"

fun all_idle_loop :: "ChannelState \<Rightarrow> int \<Rightarrow> (int \<times> int) list \<Rightarrow> bool res" where
  "all_idle_loop cs rank [] = Inr True"
| "all_idle_loop cs rank ((j, k) # ps) =
     bindE (bank_at cs rank j k) (\<lambda>b.
       if BankState_IsRowOpen b then Inr False else all_idle_loop cs rank ps)"

definition IsAllBankIdleInRank :: "Config \<Rightarrow> ChannelState \<Rightarrow> int \<Rightarrow> bool res" where
  "IsAllBankIdleInRank cfg cs rank = all_idle_loop cs rank (rank_banks cfg)"

definition IsRWPendingOnRef :: "ChannelState \<Rightarrow> Command \<Rightarrow> bool res" where
  "IsRWPendingOnRef cs cmd =
     bindE (ChannelState_IsRowOpen cs (Rank cmd) (Bankgroup cmd) (Bank cmd)) (\<lambda>is_open.
     if \<not> is_open then Inr False else
     bindE (ChannelState_RowHitCount cs (Rank cmd) (Bankgroup cmd) (Bank cmd)) (\<lambda>hits.
     if hits \<noteq> 0 then Inr False else
     bindE (ChannelState_OpenRow cs (Rank cmd) (Bankgroup cmd) (Bank cmd)) (\<lambda>ro.
     Inr (ro = Row cmd))))"

section \<open>Refresh requests\<close>

definition BankNeedRefresh :: "ChannelState \<Rightarrow> int \<Rightarrow> int \<Rightarrow> int \<Rightarrow> bool \<Rightarrow> ChannelState" where
  "BankNeedRefresh cs rank bankgroup bank need =
     (if need
      then cs\<lparr>refresh_q := refresh_q cs @
             [mk_Command REFRESH_BANK (mk_Address (-1) rank bankgroup bank (-1) (-1)) (-1)]\<rparr>
      else cs\<lparr>refresh_q := erase_first (\<lambda>it. Rank it = rank \<and> Bankgroup it = bankgroup
                                            \<and> Bank it = bank) (refresh_q cs)\<rparr>)"

definition RankNeedRefresh :: "ChannelState \<Rightarrow> int \<Rightarrow> bool \<Rightarrow> ChannelState" where
  "RankNeedRefresh cs rank need =
     (if need
      then cs\<lparr>refresh_q := refresh_q cs @
             [mk_Command REFRESH (mk_Address (-1) rank (-1) (-1) (-1) (-1)) (-1)]\<rparr>
      else cs\<lparr>refresh_q := erase_first (\<lambda>it. Rank it = rank) (refresh_q cs)\<rparr>)"

section \<open>Activation windows\<close>

definition aw_ready :: "nat \<Rightarrow> u64 list \<Rightarrow> u64 \<Rightarrow> bool" where
  "aw_ready n aw curr_time =
     (case aw of [] \<Rightarrow> True | t # _ \<Rightarrow> \<not> (curr_time < t \<and> length aw \<ge> n))"

definition IsFAWReady :: "ChannelState \<Rightarrow> int \<Rightarrow> u64 \<Rightarrow> bool res" where
  "IsFAWReady cs rank curr_time =
     bindE (nth_res (four_aw cs) rank) (\<lambda>aw. Inr (aw_ready 4 aw curr_time))"

definition Is32AWReady :: "ChannelState \<Rightarrow> int \<Rightarrow> u64 \<Rightarrow> bool res" where
  "Is32AWReady cs rank curr_time =
     bindE (nth_res (thirty_two_aw cs) rank) (\<lambda>aw. Inr (aw_ready 32 aw curr_time))"

definition ActivationWindowOk :: "Config \<Rightarrow> ChannelState \<Rightarrow> int \<Rightarrow> u64 \<Rightarrow> bool res" where
  "ActivationWindowOk cfg cs rank curr_time =
     bindE (IsFAWReady cs rank curr_time) (\<lambda>tfaw_ok.
     if IsGDDR cfg then (if \<not> tfaw_ok then Inr False else Is32AWReady cs rank curr_time)
     else Inr tfaw_ok)"

definition aw_push :: "int \<Rightarrow> u64 list \<Rightarrow> u64 \<Rightarrow> u64 list" where
  "aw_push w aw curr_time =
     (case aw of
        [] \<Rightarrow> []
      | t # ts \<Rightarrow> if curr_time \<ge> t then ts else t # ts) @ [curr_time + of_int w]"

definition UpdateActivationTimes :: "Config \<Rightarrow> ChannelState \<Rightarrow> int \<Rightarrow> u64 \<Rightarrow> ChannelState res" where
  "UpdateActivationTimes cfg cs rank curr_time =
     bindE (nth_res (four_aw cs) rank) (\<lambda>aw.
     bindE (upd_res (four_aw cs) rank (aw_push (tFAW (tim cfg)) aw curr_time)) (\<lambda>faw'.
     let cs1 = cs\<lparr>four_aw := faw'\<rparr> in
     if IsGDDR cfg then
       bindE (nth_res (thirty_two_aw cs1) rank) (\<lambda>aw32.
       bindE (upd_res (thirty_two_aw cs1) rank (aw_push (t32AW (tim cfg)) aw32 curr_time)) (\<lambda>taw'.
       Inr (cs1\<lparr>thirty_two_aw := taw'\<rparr>)))
     else Inr cs1))"

section \<open>The next command\<close>

fun rank_ready_loop ::
    "Config \<Rightarrow> ChannelState \<Rightarrow> Command \<Rightarrow> u64 \<Rightarrow> (int \<times> int) list \<Rightarrow> int \<Rightarrow> Command \<Rightarrow> Command res" where
  "rank_ready_loop cfg cs cmd clk [] num_ready ready_cmd =
     Inr (if num_ready = banks (dram cfg) then ready_cmd else Command_default)"
| "rank_ready_loop cfg cs cmd clk ((j, k) # ps) num_ready ready_cmd =
     bindE (bank_at cs (Rank cmd) j k) (\<lambda>b.
     bindE (BankState_GetReadyCommand b cmd clk) (\<lambda>rc.
       if \<not> IsValid rc then rank_ready_loop cfg cs cmd clk ps num_ready rc
       else if cmd_type rc \<noteq> cmd_type cmd
       then Inr (rc\<lparr>addr := mk_Address (-1) (Rank cmd) j k (-1) (-1)\<rparr>)
       else rank_ready_loop cfg cs cmd clk ps (num_ready + 1) rc))"

definition ChannelState_GetReadyCommand ::
    "Config \<Rightarrow> ChannelState \<Rightarrow> Command \<Rightarrow> u64 \<Rightarrow> Command res" where
  "ChannelState_GetReadyCommand cfg cs cmd clk =
     (if IsRankCMD cmd then rank_ready_loop cfg cs cmd clk (rank_banks cfg) 0 Command_default
      else
        bindE (bank_at cs (Rank cmd) (Bankgroup cmd) (Bank cmd)) (\<lambda>b.
        bindE (BankState_GetReadyCommand b cmd clk) (\<lambda>ready_cmd.
        if \<not> IsValid ready_cmd then Inr Command_default
        else if cmd_type ready_cmd = ACTIVATE
        then bindE (ActivationWindowOk cfg cs (Rank ready_cmd) clk) (\<lambda>ok.
               Inr (if ok then ready_cmd else Command_default))
        else Inr ready_cmd)))"

section \<open>Issuing a command\<close>

definition ChannelState_UpdateState :: "Config \<Rightarrow> ChannelState \<Rightarrow> Command \<Rightarrow> ChannelState res" where
  "ChannelState_UpdateState cfg cs cmd =
     (if IsRankCMD cmd then
        bindE (fold_res (\<lambda>j. fold_res (\<lambda>k. modify_bank (\<lambda>b. BankState_UpdateState b cmd) (Rank cmd) j k)
                 (int_range (banks_per_group (dram cfg)))) (int_range (bankgroups (dram cfg))) cs) (\<lambda>cs1.
        if IsRefresh cmd then Inr (RankNeedRefresh cs1 (Rank cmd) False)
        else if cmd_type cmd = SREF_ENTER
        then bindE (upd_res (rank_is_sref cs1) (Rank cmd) True) (\<lambda>s. Inr (cs1\<lparr>rank_is_sref := s\<rparr>))
        else if cmd_type cmd = SREF_EXIT
        then bindE (upd_res (rank_is_sref cs1) (Rank cmd) False) (\<lambda>s. Inr (cs1\<lparr>rank_is_sref := s\<rparr>))
        else Inr cs1)
      else
        bindE (modify_bank (\<lambda>b. BankState_UpdateState b cmd) (Rank cmd) (Bankgroup cmd) (Bank cmd) cs) (\<lambda>cs1.
        Inr (if IsRefresh cmd
             then BankNeedRefresh cs1 (Rank cmd) (Bankgroup cmd) (Bank cmd) False else cs1)))"

text \<open>The innermost loop of the five timing updates: the entries of one list, applied to one bank.\<close>

definition update_bank_timing ::
    "timing_list \<Rightarrow> u64 \<Rightarrow> int \<Rightarrow> int \<Rightarrow> int \<Rightarrow> ChannelState \<Rightarrow> ChannelState res" where
  "update_bank_timing cmd_timing_list clk r j k =
     fold_res (\<lambda>(ct, d). modify_bank (\<lambda>b. Inr (BankState_UpdateTiming b ct (clk + of_int d))) r j k)
       cmd_timing_list"

definition UpdateSameBankTiming ::
    "Config \<Rightarrow> Address \<Rightarrow> timing_list \<Rightarrow> u64 \<Rightarrow> ChannelState \<Rightarrow> ChannelState res" where
  "UpdateSameBankTiming cfg a cmd_timing_list clk =
     update_bank_timing cmd_timing_list clk (ad_rank a) (ad_bankgroup a) (ad_bank a)"

definition UpdateOtherBanksSameBankgroupTiming ::
    "Config \<Rightarrow> Address \<Rightarrow> timing_list \<Rightarrow> u64 \<Rightarrow> ChannelState \<Rightarrow> ChannelState res" where
  "UpdateOtherBanksSameBankgroupTiming cfg a cmd_timing_list clk =
     fold_res (\<lambda>k. if k \<noteq> ad_bank a
                    then update_bank_timing cmd_timing_list clk (ad_rank a) (ad_bankgroup a) k
                    else Inr)
       (int_range (banks_per_group (dram cfg)))"

definition UpdateOtherBankgroupsSameRankTiming ::
    "Config \<Rightarrow> Address \<Rightarrow> timing_list \<Rightarrow> u64 \<Rightarrow> ChannelState \<Rightarrow> ChannelState res" where
  "UpdateOtherBankgroupsSameRankTiming cfg a cmd_timing_list clk =
     fold_res (\<lambda>j. if j \<noteq> ad_bankgroup a
                    then fold_res (\<lambda>k. update_bank_timing cmd_timing_list clk (ad_rank a) j k)
                           (int_range (banks_per_group (dram cfg)))
                    else Inr)
       (int_range (bankgroups (dram cfg)))"

definition UpdateOtherRanksTiming ::
    "Config \<Rightarrow> Address \<Rightarrow> timing_list \<Rightarrow> u64 \<Rightarrow> ChannelState \<Rightarrow> ChannelState res" where
  "UpdateOtherRanksTiming cfg a cmd_timing_list clk =
     fold_res (\<lambda>i. if i \<noteq> ad_rank a
                    then fold_res (\<lambda>j. fold_res (\<lambda>k. update_bank_timing cmd_timing_list clk i j k)
                           (int_range (banks_per_group (dram cfg))))
                           (int_range (bankgroups (dram cfg)))
                    else Inr)
       (int_range (ranks (dram cfg)))"

definition UpdateSameRankTiming ::
    "Config \<Rightarrow> Address \<Rightarrow> timing_list \<Rightarrow> u64 \<Rightarrow> ChannelState \<Rightarrow> ChannelState res" where
  "UpdateSameRankTiming cfg a cmd_timing_list clk =
     fold_res (\<lambda>j. fold_res (\<lambda>k. update_bank_timing cmd_timing_list clk (ad_rank a) j k)
       (int_range (banks_per_group (dram cfg)))) (int_range (bankgroups (dram cfg)))"

definition UpdateBankCommandTiming ::
    "Config \<Rightarrow> Timing \<Rightarrow> Command \<Rightarrow> u64 \<Rightarrow> ChannelState \<Rightarrow> ChannelState res" where
  "UpdateBankCommandTiming cfg tm cmd clk cs =
     bindE (UpdateSameBankTiming cfg (addr cmd) (same_bank tm (cmd_type cmd)) clk cs) (\<lambda>cs1.
     bindE (UpdateOtherBanksSameBankgroupTiming cfg (addr cmd)
              (other_banks_same_bankgroup tm (cmd_type cmd)) clk cs1) (\<lambda>cs2.
     bindE (UpdateOtherBankgroupsSameRankTiming cfg (addr cmd)
              (other_bankgroups_same_rank tm (cmd_type cmd)) clk cs2) (\<lambda>cs3.
     UpdateOtherRanksTiming cfg (addr cmd) (other_ranks tm (cmd_type cmd)) clk cs3)))"

definition ChannelState_UpdateTiming ::
    "Config \<Rightarrow> Timing \<Rightarrow> ChannelState \<Rightarrow> Command \<Rightarrow> u64 \<Rightarrow> ChannelState res" where
  "ChannelState_UpdateTiming cfg tm cs cmd clk =
     (case cmd_type cmd of
        ACTIVATE \<Rightarrow> bindE (UpdateActivationTimes cfg cs (Rank cmd) clk)
                     (UpdateBankCommandTiming cfg tm cmd clk)
      | READ \<Rightarrow> UpdateBankCommandTiming cfg tm cmd clk cs
      | READ_PRECHARGE \<Rightarrow> UpdateBankCommandTiming cfg tm cmd clk cs
      | WRITE \<Rightarrow> UpdateBankCommandTiming cfg tm cmd clk cs
      | WRITE_PRECHARGE \<Rightarrow> UpdateBankCommandTiming cfg tm cmd clk cs
      | PRECHARGE \<Rightarrow> UpdateBankCommandTiming cfg tm cmd clk cs
      | REFRESH_BANK \<Rightarrow> UpdateBankCommandTiming cfg tm cmd clk cs
      | REFRESH \<Rightarrow> UpdateSameRankTiming cfg (addr cmd) (same_rank tm (cmd_type cmd)) clk cs
      | SREF_ENTER \<Rightarrow> UpdateSameRankTiming cfg (addr cmd) (same_rank tm (cmd_type cmd)) clk cs
      | SREF_EXIT \<Rightarrow> UpdateSameRankTiming cfg (addr cmd) (same_rank tm (cmd_type cmd)) clk cs
      | CMD_SIZE \<Rightarrow> Inl (AbruptExit ''channel_state.cc'' 183))"

definition UpdateTimingAndStates ::
    "Config \<Rightarrow> Timing \<Rightarrow> ChannelState \<Rightarrow> Command \<Rightarrow> u64 \<Rightarrow> ChannelState res" where
  "UpdateTimingAndStates cfg tm cs cmd clk =
     bindE (ChannelState_UpdateState cfg cs cmd) (\<lambda>cs1. ChannelState_UpdateTiming cfg tm cs1 cmd clk)"

section \<open>Dimensions and pointwise effects\<close>

type_synonym coord = "int \<times> int \<times> int"

definition in_dims :: "Config \<Rightarrow> coord \<Rightarrow> bool" where
  "in_dims cfg p = (case p of (r, j, k) \<Rightarrow>
     0 \<le> r \<and> r < ranks (dram cfg) \<and> 0 \<le> j \<and> j < bankgroups (dram cfg)
     \<and> 0 \<le> k \<and> k < banks_per_group (dram cfg))"

definition bank_of :: "ChannelState \<Rightarrow> coord \<Rightarrow> BankState" where
  "bank_of cs p = (case p of (r, j, k) \<Rightarrow> bank_states cs ! nat r ! nat j ! nat k)"

definition bank_dims :: "Config \<Rightarrow> BankState list list list \<Rightarrow> bool" where
  "bank_dims cfg bs =
     (int (length bs) = ranks (dram cfg)
      \<and> (\<forall>rk \<in> set bs. int (length rk) = bankgroups (dram cfg)
           \<and> (\<forall>bg \<in> set rk. int (length bg) = banks_per_group (dram cfg))))"

lemma bank_at_in:
  assumes "bank_dims cfg (bank_states cs)" "in_dims cfg (r, j, k)"
  shows "bank_at cs r j k = Inr (bank_of cs (r, j, k))"
proof -
  have r: "nat r < length (bank_states cs)" using assms by (auto simp: bank_dims_def in_dims_def)
  then have "bank_states cs ! nat r \<in> set (bank_states cs)" by simp
  then have len: "int (length (bank_states cs ! nat r)) = bankgroups (dram cfg)"
    and bg: "\<forall>bg \<in> set (bank_states cs ! nat r). int (length bg) = banks_per_group (dram cfg)"
    using assms(1) by (auto simp: bank_dims_def)
  have j: "nat j < length (bank_states cs ! nat r)" using len assms(2) by (auto simp: in_dims_def)
  then have "int (length (bank_states cs ! nat r ! nat j)) = banks_per_group (dram cfg)"
    using bg by simp
  then show ?thesis
    using assms len r j by (simp add: bank_at_def bank_of_def in_dims_def nth_res_def bank_dims_def)
qed

lemma set_bank_in:
  assumes "bank_dims cfg (bank_states cs)" "in_dims cfg (r, j, k)"
  shows "succeeds (set_bank cs r j k b) (\<lambda>cs'. bank_dims cfg (bank_states cs')
    \<and> cs' = cs\<lparr>bank_states := bank_states cs'\<rparr>
    \<and> (\<forall>p. in_dims cfg p \<longrightarrow> bank_of cs' p = (if p = (r, j, k) then b else bank_of cs p)))"
proof -
  let ?rk = "bank_states cs ! nat r" and ?bg = "bank_states cs ! nat r ! nat j"
  have r: "nat r < length (bank_states cs)" using assms by (auto simp: bank_dims_def in_dims_def)
  then have "?rk \<in> set (bank_states cs)" by simp
  then have len: "int (length ?rk) = bankgroups (dram cfg)"
    and bg: "\<forall>bg \<in> set ?rk. int (length bg) = banks_per_group (dram cfg)"
    using assms(1) by (auto simp: bank_dims_def)
  have j: "nat j < length ?rk" using len assms(2) by (auto simp: in_dims_def)
  then have lk: "int (length ?bg) = banks_per_group (dram cfg)" using bg by simp
  let ?bs = "(bank_states cs)[nat r := ?rk[nat j := ?bg[nat k := b]]]"
  have eq: "set_bank cs r j k b = Inr (cs\<lparr>bank_states := ?bs\<rparr>)"
    using assms len lk
    by (simp add: set_bank_def in_dims_def nth_res_def upd_res_def bank_dims_def)
  have dims: "bank_dims cfg ?bs"
    using assms(1) len bg lk
    by (auto simp: bank_dims_def dest!: subsetD [OF set_update_subset_insert])
  have pt: "bank_of (cs\<lparr>bank_states := ?bs\<rparr>) p = (if p = (r, j, k) then b else bank_of cs p)"
    if "in_dims cfg p" for p
    using that assms(2) r j lk
    by (cases p) (auto simp: bank_of_def in_dims_def nth_list_update nat_eq_iff2)
  show ?thesis
    unfolding eq using dims pt by simp
qed

text \<open>
  \<open>bank_effect cfg F S f\<close>: the channel operation \<open>f\<close> applies \<open>F\<close> to exactly the banks in \<open>S\<close>, and
  changes nothing else, whenever \<open>F\<close> returns normally on those banks.
\<close>

definition effect_on ::
    "Config \<Rightarrow> (coord \<Rightarrow> BankState \<Rightarrow> BankState res) \<Rightarrow> coord set \<Rightarrow> ChannelState \<Rightarrow> ChannelState \<Rightarrow> bool" where
  "effect_on cfg F S cs cs' =
     (bank_dims cfg (bank_states cs') \<and> cs' = cs\<lparr>bank_states := bank_states cs'\<rparr>
      \<and> (\<forall>p. in_dims cfg p \<longrightarrow>
           (if p \<in> S then F p (bank_of cs p) = Inr (bank_of cs' p) else bank_of cs' p = bank_of cs p)))"

definition bank_effect ::
    "Config \<Rightarrow> (coord \<Rightarrow> BankState \<Rightarrow> BankState res) \<Rightarrow> coord set \<Rightarrow> (ChannelState \<Rightarrow> ChannelState res) \<Rightarrow> bool"
where
  "bank_effect cfg F S f =
     (\<forall>cs. bank_dims cfg (bank_states cs) \<and> (\<forall>p \<in> S. \<exists>b. F p (bank_of cs p) = Inr b) \<longrightarrow>
        succeeds (f cs) (effect_on cfg F S cs))"

lemma bank_effectI:
  assumes "\<And>cs. bank_dims cfg (bank_states cs) \<Longrightarrow> \<forall>p \<in> S. \<exists>b. F p (bank_of cs p) = Inr b \<Longrightarrow>
    succeeds (f cs) (effect_on cfg F S cs)"
  shows "bank_effect cfg F S f"
  using assms by (simp add: bank_effect_def)

lemma bank_effectE:
  assumes "bank_effect cfg F S f" "bank_dims cfg (bank_states cs)"
    "\<forall>p \<in> S. \<exists>b. F p (bank_of cs p) = Inr b"
  obtains cs' where "f cs = Inr cs'" "effect_on cfg F S cs cs'"
  using assms unfolding bank_effect_def succeeds_iff by blast

lemma effect_onD:
  assumes "effect_on cfg F S cs cs'"
  shows "bank_dims cfg (bank_states cs')" "cs' = cs\<lparr>bank_states := bank_states cs'\<rparr>"
    "in_dims cfg p \<Longrightarrow> p \<in> S \<Longrightarrow> F p (bank_of cs p) = Inr (bank_of cs' p)"
    "in_dims cfg p \<Longrightarrow> p \<notin> S \<Longrightarrow> bank_of cs' p = bank_of cs p"
  using assms unfolding effect_on_def by meson+

lemma bank_states_update_trans:
  assumes "cs1 = cs\<lparr>bank_states := bank_states cs1\<rparr>" "cs2 = cs1\<lparr>bank_states := bank_states cs2\<rparr>"
  shows "cs2 = cs\<lparr>bank_states := bank_states cs2\<rparr>"
  using assms by (metis ChannelState.surjective ChannelState.update_convs(3))

lemma bank_effect_none: "bank_effect cfg F {} Inr"
  by (simp add: bank_effect_def effect_on_def)

lemma bank_effect_modify:
  assumes "in_dims cfg (r, j, k)"
  shows "bank_effect cfg F {(r, j, k)} (modify_bank (F (r, j, k)) r j k)"
proof (rule bank_effectI)
  fix cs assume dims: "bank_dims cfg (bank_states cs)"
    and F: "\<forall>p \<in> {(r, j, k)}. \<exists>b. F p (bank_of cs p) = Inr b"
  from F obtain b where b: "F (r, j, k) (bank_of cs (r, j, k)) = Inr b" by auto
  show "succeeds (modify_bank (F (r, j, k)) r j k cs) (effect_on cfg F {(r, j, k)} cs)"
    using set_bank_in [OF dims assms, of b] b
    by (auto simp: modify_bank_def effect_on_def bank_at_in [OF dims assms] elim!: succeeds_mono)
qed

lemma bank_effect_seq:
  assumes "bank_effect cfg F S f" "bank_effect cfg F T g" "S \<inter> T = {}"
    "\<And>p. p \<in> S \<union> T \<Longrightarrow> in_dims cfg p"
  shows "bank_effect cfg F (S \<union> T) (\<lambda>cs. bindE (f cs) g)"
proof (rule bank_effectI)
  fix cs assume dims: "bank_dims cfg (bank_states cs)"
    and F: "\<forall>p \<in> S \<union> T. \<exists>b. F p (bank_of cs p) = Inr b"
  obtain cs1 where 1: "f cs = Inr cs1" "effect_on cfg F S cs cs1"
    using bank_effectE [OF assms(1) dims] F by blast
  note e1 = effect_onD [OF 1(2)]
  have T: "p \<in> T \<Longrightarrow> bank_of cs1 p = bank_of cs p" for p
    using e1(4) assms(3,4) by blast
  have "\<forall>p \<in> T. \<exists>b. F p (bank_of cs1 p) = Inr b" using F T by simp
  then obtain cs2 where 2: "g cs1 = Inr cs2" "effect_on cfg F T cs1 cs2"
    using bank_effectE [OF assms(2) e1(1)] by blast
  note e2 = effect_onD [OF 2(2)]
  have "if p \<in> S \<union> T then F p (bank_of cs p) = Inr (bank_of cs2 p) else bank_of cs2 p = bank_of cs p"
    if "in_dims cfg p" for p
  proof (cases "p \<in> S")
    case True
    then have "p \<notin> T" using assms(3) by auto
    with True e1(3) [OF that True] e2(4) [OF that] show ?thesis by simp
  next
    case False
    with e1(4) [OF that False] e2(3,4) [OF that] show ?thesis by (cases "p \<in> T") simp_all
  qed
  then have "effect_on cfg F (S \<union> T) cs cs2"
    using e2(1) bank_states_update_trans [OF e1(2) e2(2)] by (simp add: effect_on_def)
  then show "succeeds (bindE (f cs) g) (effect_on cfg F (S \<union> T) cs)"
    using 1(1) 2(1) by simp
qed

text \<open>A loop over distinct indices whose bodies act on disjoint sets of banks.\<close>

lemma bank_effect_loop:
  assumes "\<And>x. x \<in> set xs \<Longrightarrow> bank_effect cfg F (S x) (f x)" "distinct xs"
    "\<And>x y. x \<in> set xs \<Longrightarrow> y \<in> set xs \<Longrightarrow> x \<noteq> y \<Longrightarrow> S x \<inter> S y = {}"
    "\<And>x p. x \<in> set xs \<Longrightarrow> p \<in> S x \<Longrightarrow> in_dims cfg p"
  shows "bank_effect cfg F (\<Union>x \<in> set xs. S x) (fold_res f xs)"
  using assms
proof (induction xs)
  case Nil
  have "fold_res f [] = Inr" by (rule ext) simp
  then show ?case by (simp add: bank_effect_none)
next
  case (Cons x xs)
  have tl: "bank_effect cfg F (\<Union>x \<in> set xs. S x) (fold_res f xs)"
    by (rule Cons.IH) (use Cons.prems in force)+
  have "S x \<inter> (\<Union>x \<in> set xs. S x) = {}" using Cons.prems(2,3) by fastforce
  with tl Cons.prems(1) [of x] Cons.prems(4)
  have "bank_effect cfg F (S x \<union> (\<Union>x \<in> set xs. S x)) (\<lambda>cs. bindE (f x cs) (fold_res f xs))"
    by (intro bank_effect_seq) force+
  then show ?case by simp
qed

lemma bank_effect_cong:
  assumes "bank_effect cfg F S f" "\<And>p. p \<in> S \<Longrightarrow> F p = G p"
  shows "bank_effect cfg G S f"
proof (rule bank_effectI)
  fix cs assume dims: "bank_dims cfg (bank_states cs)"
    and G: "\<forall>p \<in> S. \<exists>b. G p (bank_of cs p) = Inr b"
  have "\<forall>p \<in> S. \<exists>b. F p (bank_of cs p) = Inr b" using G assms(2) by simp
  from bank_effectE [OF assms(1) dims this] obtain cs' where
    1: "f cs = Inr cs'" "effect_on cfg F S cs cs'" .
  have "effect_on cfg G S cs cs'"
    using 1(2) assms(2) unfolding effect_on_def by metis
  with 1(1) show "succeeds (f cs) (effect_on cfg G S cs)" by simp
qed

text \<open>Several updates of the same bank compose.\<close>

lemma bank_effect_compose:
  assumes "bank_effect cfg (\<lambda>p b. Inr (F p b)) S f" "bank_effect cfg (\<lambda>p b. Inr (G p b)) S g"
  shows "bank_effect cfg (\<lambda>p b. Inr (G p (F p b))) S (\<lambda>cs. bindE (f cs) g)"
proof (rule bank_effectI)
  fix cs :: ChannelState assume dims: "bank_dims cfg (bank_states cs)"
  obtain cs1 where 1: "f cs = Inr cs1" "effect_on cfg (\<lambda>p b. Inr (F p b)) S cs cs1"
    using bank_effectE [OF assms(1) dims] by blast
  note e1 = effect_onD [OF 1(2)]
  obtain cs2 where 2: "g cs1 = Inr cs2" "effect_on cfg (\<lambda>p b. Inr (G p b)) S cs1 cs2"
    using bank_effectE [OF assms(2) e1(1)] by blast
  note e2 = effect_onD [OF 2(2)]
  have "effect_on cfg (\<lambda>p b. Inr (G p (F p b))) S cs cs2"
    unfolding effect_on_def
    using e2(1) bank_states_update_trans [OF e1(2) e2(2)] e1(3,4) e2(3,4)
    by (simp split del: if_split) (metis Inr_inject)
  then show "succeeds (bindE (f cs) g) (effect_on cfg (\<lambda>p b. Inr (G p (F p b))) S cs)"
    using 1(1) 2(1) by simp
qed

lemma bank_effect_same_list:
  assumes "in_dims cfg p" "\<And>x. x \<in> set xs \<Longrightarrow> bank_effect cfg (\<lambda>p b. Inr (F x p b)) {p} (f x)"
  shows "bank_effect cfg (\<lambda>p b. Inr (fold (\<lambda>x. F x p) xs b)) {p} (fold_res f xs)"
  using assms(2)
proof (induction xs)
  case Nil
  then show ?case by (auto simp: bank_effect_def effect_on_def)
next
  case (Cons x xs)
  then have "bank_effect cfg (\<lambda>p b. Inr (fold (\<lambda>x. F x p) xs (F x p b))) {p} (\<lambda>cs. bindE (f x cs) (fold_res f xs))"
    by (intro bank_effect_compose) auto
  then show ?case by simp
qed

section \<open>What the loops do\<close>

definition apply_timing :: "timing_list \<Rightarrow> u64 \<Rightarrow> BankState \<Rightarrow> BankState" where
  "apply_timing l clk = fold (\<lambda>(ct, d) b. BankState_UpdateTiming b ct (clk + of_int d)) l"

text \<open>The table that constrains the bank at \<open>p\<close> after \<open>cmd\<close>, by their relative position.\<close>

definition constraint_list :: "Timing \<Rightarrow> Command \<Rightarrow> coord \<Rightarrow> timing_list" where
  "constraint_list tm cmd p = (case p of (r, j, k) \<Rightarrow>
     if IsRankCMD cmd then (if r = Rank cmd then same_rank tm (cmd_type cmd) else [])
     else if r \<noteq> Rank cmd then other_ranks tm (cmd_type cmd)
     else if j \<noteq> Bankgroup cmd then other_bankgroups_same_rank tm (cmd_type cmd)
     else if k \<noteq> Bank cmd then other_banks_same_bankgroup tm (cmd_type cmd)
     else same_bank tm (cmd_type cmd))"

definition timing_effect :: "Timing \<Rightarrow> Command \<Rightarrow> u64 \<Rightarrow> coord \<Rightarrow> BankState \<Rightarrow> BankState res" where
  "timing_effect tm cmd clk p b = Inr (apply_timing (constraint_list tm cmd p) clk b)"

lemma update_bank_timing_effect:
  assumes "in_dims cfg (r, j, k)"
  shows "bank_effect cfg (\<lambda>p b. Inr (apply_timing l clk b)) {(r, j, k)} (update_bank_timing l clk r j k)"
proof -
  let ?u = "\<lambda>x b. BankState_UpdateTiming b (fst x) (clk + of_int (snd x))"
  have "bank_effect cfg (\<lambda>p b. Inr (fold (\<lambda>x. ?u x) l b)) {(r, j, k)}
      (fold_res (\<lambda>x. modify_bank (\<lambda>b. Inr (?u x b)) r j k) l)"
    by (rule bank_effect_same_list [where F = "\<lambda>x p. ?u x", OF assms])
      (rule bank_effect_modify [where F = "\<lambda>p b. Inr (?u _ b)", OF assms])
  then show ?thesis
    by (simp add: update_bank_timing_def apply_timing_def case_prod_beta')
qed

lemma update_bank_timing_constraint:
  assumes "in_dims cfg (r, j, k)" "l = constraint_list tm cmd (r, j, k)"
  shows "bank_effect cfg (timing_effect tm cmd clk) {(r, j, k)} (update_bank_timing l clk r j k)"
  by (rule bank_effect_cong [OF update_bank_timing_effect [OF assms(1)]])
    (simp add: timing_effect_def [abs_def] assms(2))

definition rank_coords :: "Config \<Rightarrow> int \<Rightarrow> coord set" where
  "rank_coords cfg r = {p. in_dims cfg p \<and> fst p = r}"

lemma rank_loop_effect:
  assumes "\<And>j k. in_dims cfg (r, j, k) \<Longrightarrow> bank_effect cfg F {(r, j, k)} (f j k)"
    and "0 \<le> r" "r < ranks (dram cfg)"
  shows "bank_effect cfg F (rank_coords cfg r)
    (fold_res (\<lambda>j. fold_res (\<lambda>k. f j k) (int_range (banks_per_group (dram cfg))))
       (int_range (bankgroups (dram cfg))))"
proof -
  have inner: "bank_effect cfg F (\<Union>k \<in> set (int_range (banks_per_group (dram cfg))). {(r, j, k)})
      (fold_res (\<lambda>k. f j k) (int_range (banks_per_group (dram cfg))))"
    if "j \<in> set (int_range (bankgroups (dram cfg)))" for j
    by (rule bank_effect_loop) (use that assms in \<open>auto simp: in_dims_def\<close>)
  have "bank_effect cfg F (\<Union>j \<in> set (int_range (bankgroups (dram cfg))).
      \<Union>k \<in> set (int_range (banks_per_group (dram cfg))). {(r, j, k)})
    (fold_res (\<lambda>j. fold_res (\<lambda>k. f j k) (int_range (banks_per_group (dram cfg))))
       (int_range (bankgroups (dram cfg))))"
    by (rule bank_effect_loop [OF inner]) (use assms in \<open>auto simp: in_dims_def\<close>)
  moreover have "(\<Union>j \<in> set (int_range (bankgroups (dram cfg))).
      \<Union>k \<in> set (int_range (banks_per_group (dram cfg))). {(r, j, k)}) = rank_coords cfg r"
    using assms(2,3) by (auto simp: rank_coords_def in_dims_def)
  ultimately show ?thesis by simp
qed

definition all_coords :: "Config \<Rightarrow> coord set" where
  "all_coords cfg = {p. in_dims cfg p}"

lemma UpdateSameRankTiming_effect:
  assumes "IsRankCMD cmd" "0 \<le> Rank cmd" "Rank cmd < ranks (dram cfg)"
  shows "bank_effect cfg (timing_effect tm cmd clk) (rank_coords cfg (Rank cmd))
    (UpdateSameRankTiming cfg (addr cmd) (same_rank tm (cmd_type cmd)) clk)"
  unfolding UpdateSameRankTiming_def
  by (rule rank_loop_effect [OF update_bank_timing_constraint])
    (use assms in \<open>auto simp: constraint_list_def\<close>)

lemma UpdateSameBankTiming_effect:
  assumes "\<not> IsRankCMD cmd" "in_dims cfg (Rank cmd, Bankgroup cmd, Bank cmd)"
  shows "bank_effect cfg (timing_effect tm cmd clk) {(Rank cmd, Bankgroup cmd, Bank cmd)}
    (UpdateSameBankTiming cfg (addr cmd) (same_bank tm (cmd_type cmd)) clk)"
  unfolding UpdateSameBankTiming_def
  by (rule update_bank_timing_constraint) (use assms in \<open>auto simp: constraint_list_def\<close>)

lemma bank_effect_if:
  "bank_effect cfg F (if P then S else {}) (if P then f else Inr) \<longleftrightarrow> (P \<longrightarrow> bank_effect cfg F S f)"
  by (simp add: bank_effect_none)

lemma UpdateOtherBanksSameBankgroupTiming_effect:
  assumes "\<not> IsRankCMD cmd" "in_dims cfg (Rank cmd, Bankgroup cmd, Bank cmd)"
  shows "bank_effect cfg (timing_effect tm cmd clk)
    {p. in_dims cfg p \<and> (\<exists>k. p = (Rank cmd, Bankgroup cmd, k) \<and> k \<noteq> Bank cmd)}
    (UpdateOtherBanksSameBankgroupTiming cfg (addr cmd) (other_banks_same_bankgroup tm (cmd_type cmd)) clk)"
proof -
  let ?S = "\<lambda>k. if k \<noteq> Bank cmd then {(Rank cmd, Bankgroup cmd, k)} else {}"
  have "bank_effect cfg (timing_effect tm cmd clk)
      (\<Union>k \<in> set (int_range (banks_per_group (dram cfg))). ?S k)
      (UpdateOtherBanksSameBankgroupTiming cfg (addr cmd) (other_banks_same_bankgroup tm (cmd_type cmd)) clk)"
    unfolding UpdateOtherBanksSameBankgroupTiming_def
    by (rule bank_effect_loop, unfold bank_effect_if)
      (use assms in \<open>auto simp: in_dims_def constraint_list_def intro!: update_bank_timing_constraint split: if_splits\<close>)
  moreover have "(\<Union>k \<in> set (int_range (banks_per_group (dram cfg))). ?S k)
      = {p. in_dims cfg p \<and> (\<exists>k. p = (Rank cmd, Bankgroup cmd, k) \<and> k \<noteq> Bank cmd)}"
    using assms(2) by (auto simp: in_dims_def split: if_splits)
  ultimately show ?thesis by simp
qed

lemma UpdateOtherBankgroupsSameRankTiming_effect:
  assumes "\<not> IsRankCMD cmd" "in_dims cfg (Rank cmd, Bankgroup cmd, Bank cmd)"
  shows "bank_effect cfg (timing_effect tm cmd clk)
    {p. in_dims cfg p \<and> fst p = Rank cmd \<and> fst (snd p) \<noteq> Bankgroup cmd}
    (UpdateOtherBankgroupsSameRankTiming cfg (addr cmd) (other_bankgroups_same_rank tm (cmd_type cmd)) clk)"
proof -
  let ?l = "other_bankgroups_same_rank tm (cmd_type cmd)"
  let ?T = "\<lambda>j. \<Union>k \<in> set (int_range (banks_per_group (dram cfg))). {(Rank cmd, j, k)}"
  let ?S = "\<lambda>j. if j \<noteq> Bankgroup cmd then ?T j else {}"
  have inner: "bank_effect cfg (timing_effect tm cmd clk) (?T j)
      (fold_res (\<lambda>k. update_bank_timing ?l clk (Rank cmd) j k) (int_range (banks_per_group (dram cfg))))"
    if "j \<in> set (int_range (bankgroups (dram cfg)))" "j \<noteq> Bankgroup cmd" for j
    by (rule bank_effect_loop)
      (use assms that in \<open>auto simp: in_dims_def constraint_list_def intro!: update_bank_timing_constraint\<close>)
  have "bank_effect cfg (timing_effect tm cmd clk) (\<Union>j \<in> set (int_range (bankgroups (dram cfg))). ?S j)
      (UpdateOtherBankgroupsSameRankTiming cfg (addr cmd) ?l clk)"
    unfolding UpdateOtherBankgroupsSameRankTiming_def
  proof (rule bank_effect_loop, unfold bank_effect_if)
    show "j \<noteq> Bankgroup cmd \<longrightarrow> bank_effect cfg (timing_effect tm cmd clk) (?T j)
      (fold_res (\<lambda>k. update_bank_timing ?l clk (Rank cmd) j k) (int_range (banks_per_group (dram cfg))))"
      if "j \<in> set (int_range (bankgroups (dram cfg)))" for j
      using inner [OF that] by blast
  qed (use assms in \<open>auto simp: in_dims_def split: if_splits\<close>)
  moreover have "(\<Union>j \<in> set (int_range (bankgroups (dram cfg))). ?S j)
      = {p. in_dims cfg p \<and> fst p = Rank cmd \<and> fst (snd p) \<noteq> Bankgroup cmd}"
    using assms(2) by (auto simp: in_dims_def split: if_splits)
  ultimately show ?thesis by simp
qed

lemma UpdateOtherRanksTiming_effect:
  assumes "\<not> IsRankCMD cmd" "in_dims cfg (Rank cmd, Bankgroup cmd, Bank cmd)"
  shows "bank_effect cfg (timing_effect tm cmd clk) {p. in_dims cfg p \<and> fst p \<noteq> Rank cmd}
    (UpdateOtherRanksTiming cfg (addr cmd) (other_ranks tm (cmd_type cmd)) clk)"
proof -
  let ?l = "other_ranks tm (cmd_type cmd)"
  let ?S = "\<lambda>i. if i \<noteq> Rank cmd then rank_coords cfg i else {}"
  let ?f = "\<lambda>i. fold_res (\<lambda>j. fold_res (\<lambda>k. update_bank_timing ?l clk i j k)
    (int_range (banks_per_group (dram cfg)))) (int_range (bankgroups (dram cfg)))"
  have inner: "bank_effect cfg (timing_effect tm cmd clk) (rank_coords cfg i) (?f i)"
    if "i \<in> set (int_range (ranks (dram cfg)))" "i \<noteq> Rank cmd" for i
    by (rule rank_loop_effect [OF update_bank_timing_constraint])
      (use assms that in \<open>auto simp: constraint_list_def\<close>)
  have "bank_effect cfg (timing_effect tm cmd clk) (\<Union>i \<in> set (int_range (ranks (dram cfg))). ?S i)
      (UpdateOtherRanksTiming cfg (addr cmd) ?l clk)"
    unfolding UpdateOtherRanksTiming_def
  proof (rule bank_effect_loop, unfold bank_effect_if)
    show "i \<noteq> Rank cmd \<longrightarrow> bank_effect cfg (timing_effect tm cmd clk) (rank_coords cfg i) (?f i)"
      if "i \<in> set (int_range (ranks (dram cfg)))" for i
      using inner [OF that] by blast
  qed (auto simp: rank_coords_def split: if_splits)
  moreover have "(\<Union>i \<in> set (int_range (ranks (dram cfg))). ?S i) = {p. in_dims cfg p \<and> fst p \<noteq> Rank cmd}"
    by (auto simp: in_dims_def rank_coords_def split: if_splits)
  ultimately show ?thesis by simp
qed

lemma UpdateBankCommandTiming_effect:
  assumes "\<not> IsRankCMD cmd" "in_dims cfg (Rank cmd, Bankgroup cmd, Bank cmd)"
  shows "bank_effect cfg (timing_effect tm cmd clk) (all_coords cfg) (UpdateBankCommandTiming cfg tm cmd clk)"
proof -
  let ?p = "(Rank cmd, Bankgroup cmd, Bank cmd)"
  let ?A = "{p. in_dims cfg p \<and> (\<exists>k. p = (Rank cmd, Bankgroup cmd, k) \<and> k \<noteq> Bank cmd)}"
  let ?B = "{p. in_dims cfg p \<and> fst p = Rank cmd \<and> fst (snd p) \<noteq> Bankgroup cmd}"
  let ?C = "{p. in_dims cfg p \<and> fst p \<noteq> Rank cmd}"
  have "bank_effect cfg (timing_effect tm cmd clk) ({?p} \<union> (?A \<union> (?B \<union> ?C)))
    (UpdateBankCommandTiming cfg tm cmd clk)"
    unfolding UpdateBankCommandTiming_def [abs_def]
    by (intro bank_effect_seq UpdateSameBankTiming_effect UpdateOtherBanksSameBankgroupTiming_effect
        UpdateOtherBankgroupsSameRankTiming_effect UpdateOtherRanksTiming_effect)
      (use assms in auto)
  moreover have "{?p} \<union> (?A \<union> (?B \<union> ?C)) = all_coords cfg"
    using assms(2) by (auto simp: all_coords_def)
  ultimately show ?thesis by simp
qed

end
