(* ===== verification/Channel_Issue.thy ===== *)
theory Channel_Issue
  imports Channel_State
begin

text \<open>
  Issuing commands on a channel: what \<^verbatim>\<open>UpdateState\<close> and \<^verbatim>\<open>UpdateTiming\<close> do to each bank, the
  invariant of a channel, and that a command \<^verbatim>\<open>GetReadyCommand\<close> returns can always be issued.
\<close>

section \<open>Issuing a command, bank by bank\<close>

definition chan_dims :: "Config \<Rightarrow> ChannelState \<Rightarrow> bool" where
  "chan_dims cfg cs =
     (bank_dims cfg (bank_states cs)
      \<and> int (length (rank_idle_cycles cs)) = ranks (dram cfg)
      \<and> int (length (rank_is_sref cs)) = ranks (dram cfg)
      \<and> int (length (four_aw cs)) = ranks (dram cfg)
      \<and> int (length (thirty_two_aw cs)) = ranks (dram cfg))"

definition cmd_in_dims :: "Config \<Rightarrow> Command \<Rightarrow> bool" where
  "cmd_in_dims cfg cmd =
     (if IsRankCMD cmd then 0 \<le> Rank cmd \<and> Rank cmd < ranks (dram cfg)
      else in_dims cfg (Rank cmd, Bankgroup cmd, Bank cmd))"

text \<open>The banks a command is issued to.\<close>

definition targets :: "Config \<Rightarrow> Command \<Rightarrow> coord set" where
  "targets cfg cmd =
     (if IsRankCMD cmd then rank_coords cfg (Rank cmd) else {(Rank cmd, Bankgroup cmd, Bank cmd)})"

lemma targets_in_dims: "cmd_in_dims cfg cmd \<Longrightarrow> p \<in> targets cfg cmd \<Longrightarrow> in_dims cfg p"
  by (auto simp: cmd_in_dims_def targets_def rank_coords_def split: if_splits)

lemma targets_rank: "p \<in> targets cfg cmd \<Longrightarrow> fst p = Rank cmd"
  by (auto simp: targets_def rank_coords_def split: if_splits)

lemma cmd_rank_in_dims: "cmd_in_dims cfg cmd \<Longrightarrow> 0 \<le> Rank cmd \<and> Rank cmd < ranks (dram cfg)"
  by (auto simp: cmd_in_dims_def in_dims_def split: if_splits)

lemma UpdateState_banks_effect:
  assumes "cmd_in_dims cfg cmd"
  shows "bank_effect cfg (\<lambda>p b. BankState_UpdateState b cmd) (targets cfg cmd)
    (if IsRankCMD cmd
     then fold_res (\<lambda>j. fold_res (\<lambda>k. modify_bank (\<lambda>b. BankState_UpdateState b cmd) (Rank cmd) j k)
            (int_range (banks_per_group (dram cfg)))) (int_range (bankgroups (dram cfg)))
     else modify_bank (\<lambda>b. BankState_UpdateState b cmd) (Rank cmd) (Bankgroup cmd) (Bank cmd))"
  using assms
  by (auto simp: targets_def cmd_in_dims_def
      intro!: rank_loop_effect bank_effect_modify [where F = "\<lambda>p b. BankState_UpdateState b cmd"])

definition flags_after :: "Command \<Rightarrow> bool list \<Rightarrow> bool list" where
  "flags_after cmd fl =
     (if cmd_type cmd = SREF_ENTER then fl[nat (Rank cmd) := True]
      else if cmd_type cmd = SREF_EXIT then fl[nat (Rank cmd) := False] else fl)"

definition refresh_q_after :: "Command \<Rightarrow> Command list \<Rightarrow> Command list" where
  "refresh_q_after cmd q =
     (if cmd_type cmd = REFRESH then erase_first (\<lambda>it. Rank it = Rank cmd) q
      else if cmd_type cmd = REFRESH_BANK
      then erase_first (\<lambda>it. Rank it = Rank cmd \<and> Bankgroup it = Bankgroup cmd \<and> Bank it = Bank cmd) q
      else q)"

lemma UpdateState_pointwise:
  assumes "chan_dims cfg cs" "cmd_in_dims cfg cmd"
    and ok: "\<forall>p \<in> targets cfg cmd. \<exists>b. BankState_UpdateState (bank_of cs p) cmd = Inr b"
  obtains cs' where "ChannelState_UpdateState cfg cs cmd = Inr cs'"
    "bank_dims cfg (bank_states cs')"
    "cs' = cs\<lparr>bank_states := bank_states cs', rank_is_sref := flags_after cmd (rank_is_sref cs),
              refresh_q := refresh_q_after cmd (refresh_q cs)\<rparr>"
    "\<And>p. p \<in> targets cfg cmd \<Longrightarrow> BankState_UpdateState (bank_of cs p) cmd = Inr (bank_of cs' p)"
    "\<And>p. in_dims cfg p \<Longrightarrow> p \<notin> targets cfg cmd \<Longrightarrow> bank_of cs' p = bank_of cs p"
proof -
  have dims: "bank_dims cfg (bank_states cs)" using assms(1) by (simp add: chan_dims_def)
  let ?f = "if IsRankCMD cmd
     then fold_res (\<lambda>j. fold_res (\<lambda>k. modify_bank (\<lambda>b. BankState_UpdateState b cmd) (Rank cmd) j k)
            (int_range (banks_per_group (dram cfg)))) (int_range (bankgroups (dram cfg)))
     else modify_bank (\<lambda>b. BankState_UpdateState b cmd) (Rank cmd) (Bankgroup cmd) (Bank cmd)"
  from bank_effectE [OF UpdateState_banks_effect [OF assms(2)] dims ok] obtain cs1
    where f: "?f cs = Inr cs1" and e: "effect_on cfg (\<lambda>p b. BankState_UpdateState b cmd) (targets cfg cmd) cs cs1" .
  note e1 = effect_onD [OF e]
  define cs' where "cs' = cs1\<lparr>rank_is_sref := flags_after cmd (rank_is_sref cs1),
    refresh_q := refresh_q_after cmd (refresh_q cs1)\<rparr>"
  have sref: "rank_is_sref cs1 = rank_is_sref cs" and rq: "refresh_q cs1 = refresh_q cs"
    using arg_cong [OF e1(2), of rank_is_sref] arg_cong [OF e1(2), of refresh_q] by simp_all
  have len: "0 \<le> Rank cmd \<and> Rank cmd < int (length (rank_is_sref cs1))"
    using cmd_rank_in_dims [OF assms(2)] assms(1) by (simp add: chan_dims_def sref)
  have "ChannelState_UpdateState cfg cs cmd = Inr cs'"
    using f len
    by (auto simp: ChannelState_UpdateState_def cs'_def flags_after_def refresh_q_after_def
        RankNeedRefresh_def BankNeedRefresh_def upd_res_def command_kind_defs split: if_splits)
  moreover have "cs' = cs\<lparr>bank_states := bank_states cs', rank_is_sref := flags_after cmd (rank_is_sref cs),
              refresh_q := refresh_q_after cmd (refresh_q cs)\<rparr>"
    unfolding cs'_def sref rq by (subst e1(2)) simp
  moreover have "bank_of cs' p = bank_of cs1 p" for p
    by (simp add: cs'_def bank_of_def split: prod.split)
  ultimately show thesis
    using e1(1,3,4) targets_in_dims [OF assms(2)] by (intro that [of cs']) (auto simp: cs'_def)
qed

lemma UpdateTiming_rank:
  "IsRankCMD cmd \<Longrightarrow> ChannelState_UpdateTiming cfg tm cs cmd clk =
     UpdateSameRankTiming cfg (addr cmd) (same_rank tm (cmd_type cmd)) clk cs"
  by (cases "cmd_type cmd") (auto simp: ChannelState_UpdateTiming_def command_kind_defs)

lemma UpdateTiming_bank:
  "\<not> IsRankCMD cmd \<Longrightarrow> IsValid cmd \<Longrightarrow> ChannelState_UpdateTiming cfg tm cs cmd clk =
     bindE (if cmd_type cmd = ACTIVATE then UpdateActivationTimes cfg cs (Rank cmd) clk else Inr cs)
       (UpdateBankCommandTiming cfg tm cmd clk)"
  by (cases "cmd_type cmd") (auto simp: ChannelState_UpdateTiming_def command_kind_defs)

text \<open>The windows after a command.\<close>

definition windows_after :: "Config \<Rightarrow> Command \<Rightarrow> u64 \<Rightarrow> ChannelState \<Rightarrow> ChannelState" where
  "windows_after cfg cmd clk cs =
     (if cmd_type cmd = ACTIVATE then
        cs\<lparr>four_aw := (four_aw cs)[nat (Rank cmd) :=
              aw_push (tFAW (tim cfg)) (four_aw cs ! nat (Rank cmd)) clk],
           thirty_two_aw := (if IsGDDR cfg then (thirty_two_aw cs)[nat (Rank cmd) :=
              aw_push (t32AW (tim cfg)) (thirty_two_aw cs ! nat (Rank cmd)) clk] else thirty_two_aw cs)\<rparr>
      else cs)"

lemma windows_after_simps [simp]:
  "bank_states (windows_after cfg cmd clk cs) = bank_states cs"
  "bank_of (windows_after cfg cmd clk cs) = bank_of cs"
  "rank_is_sref (windows_after cfg cmd clk cs) = rank_is_sref cs"
  "refresh_q (windows_after cfg cmd clk cs) = refresh_q cs"
  "rank_idle_cycles (windows_after cfg cmd clk cs) = rank_idle_cycles cs"
  by (auto simp: windows_after_def bank_of_def fun_eq_iff)

lemma UpdateActivationTimes_windows:
  assumes "chan_dims cfg cs" "0 \<le> Rank cmd" "Rank cmd < ranks (dram cfg)" "cmd_type cmd = ACTIVATE"
  shows "UpdateActivationTimes cfg cs (Rank cmd) clk = Inr (windows_after cfg cmd clk cs)"
  using assms
  by (simp add: UpdateActivationTimes_def chan_dims_def nth_res_def upd_res_def windows_after_def Let_def)

lemma UpdateTiming_pointwise:
  assumes "chan_dims cfg cs" "cmd_in_dims cfg cmd" "IsValid cmd"
  obtains cs' where "ChannelState_UpdateTiming cfg tm cs cmd clk = Inr cs'"
    "bank_dims cfg (bank_states cs')"
    "cs' = (windows_after cfg cmd clk cs)\<lparr>bank_states := bank_states cs'\<rparr>"
    "\<And>p. in_dims cfg p \<Longrightarrow> bank_of cs' p = apply_timing (constraint_list tm cmd p) clk (bank_of cs p)"
proof (cases "IsRankCMD cmd")
  case True
  have dims: "bank_dims cfg (bank_states cs)" using assms(1) by (simp add: chan_dims_def)
  have r: "0 \<le> Rank cmd" "Rank cmd < ranks (dram cfg)" using cmd_rank_in_dims [OF assms(2)] by auto
  obtain cs' where f: "UpdateSameRankTiming cfg (addr cmd) (same_rank tm (cmd_type cmd)) clk cs = Inr cs'"
    and e: "effect_on cfg (timing_effect tm cmd clk) (rank_coords cfg (Rank cmd)) cs cs'"
    using bank_effectE [OF UpdateSameRankTiming_effect [OF True r] dims] by (auto simp: timing_effect_def)
  note e1 = effect_onD [OF e]
  have "windows_after cfg cmd clk cs = cs"
    using True by (auto simp: windows_after_def command_kind_defs)
  moreover have "bank_of cs' p = apply_timing (constraint_list tm cmd p) clk (bank_of cs p)"
    if "in_dims cfg p" for p
  proof (cases "p \<in> rank_coords cfg (Rank cmd)")
    case True
    then show ?thesis using e1(3) [OF that] by (simp add: timing_effect_def)
  next
    case False
    then have "constraint_list tm cmd p = []"
      using that \<open>IsRankCMD cmd\<close> by (cases p) (auto simp: rank_coords_def constraint_list_def)
    then show ?thesis using e1(4) [OF that False] by (simp add: apply_timing_def)
  qed
  ultimately show thesis
    using f e1(1,2) by (intro that [of cs']) (simp_all add: UpdateTiming_rank [OF True])
next
  case False
  let ?cs = "windows_after cfg cmd clk cs"
  have dims: "bank_dims cfg (bank_states ?cs)" using assms(1) by (simp add: chan_dims_def)
  have p: "in_dims cfg (Rank cmd, Bankgroup cmd, Bank cmd)"
    using False assms(2) by (simp add: cmd_in_dims_def)
  obtain cs' where f: "UpdateBankCommandTiming cfg tm cmd clk ?cs = Inr cs'"
    and e: "effect_on cfg (timing_effect tm cmd clk) (all_coords cfg) ?cs cs'"
    using bank_effectE [OF UpdateBankCommandTiming_effect [OF False p] dims] by (auto simp: timing_effect_def)
  note e1 = effect_onD [OF e]
  have "(if cmd_type cmd = ACTIVATE then UpdateActivationTimes cfg cs (Rank cmd) clk else Inr cs) = Inr ?cs"
    using UpdateActivationTimes_windows [OF assms(1), of cmd] cmd_rank_in_dims [OF assms(2)]
    by (simp add: windows_after_def)
  then have "ChannelState_UpdateTiming cfg tm cs cmd clk = Inr cs'"
    by (simp only: UpdateTiming_bank [OF False assms(3)] bindE_Inr f)
  moreover have "bank_of cs' p = apply_timing (constraint_list tm cmd p) clk (bank_of cs p)"
    if "in_dims cfg p" for p
    using e1(3) [OF that] that by (simp add: timing_effect_def all_coords_def)
  ultimately show thesis
    using e1(1,2) by (intro that [of cs'])
qed

lemma apply_timing_simps [simp]:
  "bk_state (apply_timing l clk b) = bk_state b"
  "open_row (apply_timing l clk b) = open_row b"
  "row_hit_count (apply_timing l clk b) = row_hit_count b"
  by (induction l arbitrary: b) (auto simp: apply_timing_def split: prod.splits)

lemma bank_wf_apply_timing [simp]: "bank_wf (apply_timing l clk b) = bank_wf b"
  by (simp add: bank_wf_def)

lemma apply_timing_Nil [simp]: "apply_timing [] clk b = b"
  by (simp add: apply_timing_def)

lemma apply_timing_Cons [simp]:
  "apply_timing ((ct, d) # l) clk b = apply_timing l clk (BankState_UpdateTiming b ct (clk + of_int d))"
  by (simp add: apply_timing_def)

lemma apply_timing_mono: "cmd_timing b ct \<le> cmd_timing (apply_timing l clk b) ct"
proof (induction l arbitrary: b)
  case (Cons x l)
  obtain ct' d where x: "x = (ct', d)" by (cases x)
  have "cmd_timing b ct \<le> cmd_timing (BankState_UpdateTiming b ct' (clk + of_int d)) ct"
    by (simp add: BankState_UpdateTiming_def)
  also note Cons.IH
  finally show ?case by (simp add: x)
qed simp

lemma apply_timing_ge:
  "(ct, d) \<in> set l \<Longrightarrow> clk + of_int d \<le> cmd_timing (apply_timing l clk b) ct"
proof (induction l arbitrary: b)
  case (Cons x l)
  obtain ct' d' where x: "x = (ct', d')" by (cases x)
  show ?case
  proof (cases "(ct, d) = x")
    case True
    have "clk + of_int d \<le> cmd_timing (BankState_UpdateTiming b ct (clk + of_int d)) ct"
      by (simp add: BankState_UpdateTiming_def)
    also note apply_timing_mono [of _ ct l clk]
    finally show ?thesis using True by auto
  next
    case False
    with Cons show ?thesis by (auto simp: x)
  qed
qed simp

lemma apply_timing_other:
  "\<forall>d. (ct, d) \<notin> set l \<Longrightarrow> cmd_timing (apply_timing l clk b) ct = cmd_timing b ct"
  by (induction l arbitrary: b) (auto simp: BankState_UpdateTiming_def)

lemma apply_timing_cong:
  "cmd_timing b ct = cmd_timing b' ct \<Longrightarrow>
     cmd_timing (apply_timing l clk b) ct = cmd_timing (apply_timing l clk b') ct"
proof (induction l arbitrary: b b')
  case (Cons x l)
  obtain ct' d where x: "x = (ct', d)" by (cases x)
  show ?case
    unfolding x apply_timing_Cons
    by (rule Cons.IH) (use Cons.prems in \<open>auto simp: BankState_UpdateTiming_def\<close>)
qed simp

section \<open>Invariant of a channel\<close>

definition config_ok :: "Config \<Rightarrow> bool" where
  "config_ok cfg = (geometry_ok cfg
     \<and> banks (dram cfg) = bankgroups (dram cfg) * banks_per_group (dram cfg))"

definition refresh_cmd_ok :: "Config \<Rightarrow> Command \<Rightarrow> bool" where
  "refresh_cmd_ok cfg c = (IsRefresh c \<and> cmd_in_dims cfg c)"

text \<open>
  A rank is in self refresh as a whole, and the flag of the rank says so; the earliest exit from
  self refresh is the same for all banks of a rank.
\<close>

definition chan_wf :: "Config \<Rightarrow> ChannelState \<Rightarrow> bool" where
  "chan_wf cfg cs =
     (chan_dims cfg cs
      \<and> (\<forall>p. in_dims cfg p \<longrightarrow> bank_wf (bank_of cs p)
           \<and> (bk_state (bank_of cs p) = SREF \<longleftrightarrow> rank_is_sref cs ! nat (fst p)))
      \<and> (\<forall>p q. in_dims cfg p \<longrightarrow> in_dims cfg q \<longrightarrow> fst p = fst q \<longrightarrow>
           cmd_timing (bank_of cs p) SREF_EXIT = cmd_timing (bank_of cs q) SREF_EXIT)
      \<and> list_all (refresh_cmd_ok cfg) (refresh_q cs))"

lemma chan_wfD:
  assumes "chan_wf cfg cs"
  shows "chan_dims cfg cs" "list_all (refresh_cmd_ok cfg) (refresh_q cs)"
    "in_dims cfg p \<Longrightarrow> bank_wf (bank_of cs p)"
    "in_dims cfg p \<Longrightarrow> bk_state (bank_of cs p) = SREF \<longleftrightarrow> rank_is_sref cs ! nat (fst p)"
    "in_dims cfg p \<Longrightarrow> in_dims cfg q \<Longrightarrow> fst p = fst q \<Longrightarrow>
       cmd_timing (bank_of cs p) SREF_EXIT = cmd_timing (bank_of cs q) SREF_EXIT"
  using assms unfolding chan_wf_def by blast+

lemma bank_of_new:
  assumes "in_dims cfg p"
  shows "bank_of (ChannelState_new cfg) p = BankState_new"
  using assms
  by (cases p) (auto simp: bank_of_def ChannelState_new_def Let_def in_dims_def int_range_def)

lemma chan_dims_new: "geometry_ok cfg \<Longrightarrow> chan_dims cfg (ChannelState_new cfg)"
  by (auto simp: chan_dims_def bank_dims_def ChannelState_new_def Let_def geometry_ok_def)

lemma chan_wf_new:
  assumes "geometry_ok cfg"
  shows "chan_wf cfg (ChannelState_new cfg)"
  unfolding chan_wf_def
proof (intro conjI allI impI)
  show "chan_dims cfg (ChannelState_new cfg)" by (rule chan_dims_new [OF assms])
  show "list_all (refresh_cmd_ok cfg) (refresh_q (ChannelState_new cfg))"
    by (simp add: ChannelState_new_def Let_def)
next
  fix p assume p: "in_dims cfg p"
  then have "\<not> rank_is_sref (ChannelState_new cfg) ! nat (fst p)"
    by (cases p) (auto simp: ChannelState_new_def Let_def in_dims_def)
  then show "bk_state (bank_of (ChannelState_new cfg) p) = SREF
      \<longleftrightarrow> rank_is_sref (ChannelState_new cfg) ! nat (fst p)"
    using p by (simp add: bank_of_new) (simp add: BankState_new_def)
qed (simp_all add: bank_of_new bank_wf_new)

text \<open>What makes a command issuable in a state at a time.\<close>

definition issuable :: "Config \<Rightarrow> ChannelState \<Rightarrow> Command \<Rightarrow> u64 \<Rightarrow> bool" where
  "issuable cfg cs cmd clk =
     (IsValid cmd \<and> cmd_in_dims cfg cmd
      \<and> (\<forall>p \<in> targets cfg cmd. cmd_timing (bank_of cs p) (cmd_type cmd) \<le> clk
           \<and> (\<exists>b. BankState_UpdateState (bank_of cs p) cmd = Inr b))
      \<and> (cmd_type cmd = ACTIVATE \<longrightarrow>
           aw_ready 4 (four_aw cs ! nat (Rank cmd)) clk
           \<and> (IsGDDR cfg \<longrightarrow> aw_ready 32 (thirty_two_aw cs ! nat (Rank cmd)) clk)))"

definition rank_diverted :: "ChannelState \<Rightarrow> Command \<Rightarrow> u64 \<Rightarrow> (int \<times> int) set \<Rightarrow> Command \<Rightarrow> bool" where
  "rank_diverted cs cmd clk P rc =
     (\<exists>j k b r. (j, k) \<in> P \<and> bank_at cs (Rank cmd) j k = Inr b
        \<and> BankState_GetReadyCommand b cmd clk = Inr r \<and> IsValid r \<and> cmd_type r \<noteq> cmd_type cmd
        \<and> rc = r\<lparr>addr := mk_Address (-1) (Rank cmd) j k (-1) (-1)\<rparr>)"

definition rank_all_ready :: "ChannelState \<Rightarrow> Command \<Rightarrow> u64 \<Rightarrow> (int \<times> int) set \<Rightarrow> bool" where
  "rank_all_ready cs cmd clk P =
     (\<forall>j k. (j, k) \<in> P \<longrightarrow> (\<exists>b r. bank_at cs (Rank cmd) j k = Inr b
        \<and> BankState_GetReadyCommand b cmd clk = Inr r \<and> IsValid r \<and> cmd_type r = cmd_type cmd))"

lemma rank_diverted_mono: "rank_diverted cs cmd clk P rc \<Longrightarrow> P \<subseteq> Q \<Longrightarrow> rank_diverted cs cmd clk Q rc"
  unfolding rank_diverted_def by blast

lemma rank_all_ready_insert:
  "rank_all_ready cs cmd clk P \<Longrightarrow> bank_at cs (Rank cmd) j k = Inr b \<Longrightarrow>
     BankState_GetReadyCommand b cmd clk = Inr r \<Longrightarrow> IsValid r \<Longrightarrow> cmd_type r = cmd_type cmd \<Longrightarrow>
     rank_all_ready cs cmd clk (insert (j, k) P)"
  unfolding rank_all_ready_def by blast

text \<open>
  The loop over the banks of a rank either stops at a bank that needs another command first, or
  has found every bank ready for the command itself.
\<close>

lemma rank_ready_loop_cases:
  assumes "rank_ready_loop cfg cs cmd clk ps n ready = Inr rc" "IsValid rc"
    "n + int (length ps) \<le> banks (dram cfg)"
  shows "rank_diverted cs cmd clk (set ps) rc
    \<or> rank_all_ready cs cmd clk (set ps) \<and> n + int (length ps) = banks (dram cfg)
      \<and> rc = (if ps = [] then ready else mk_Command (cmd_type cmd) (addr cmd) (hex_addr cmd))"
  using assms
proof (induction ps arbitrary: n ready)
  case Nil
  then show ?case by (auto simp: rank_all_ready_def split: if_splits)
next
  case (Cons q ps)
  obtain j k where q: "q = (j, k)" by (cases q)
  from Cons.prems(1) obtain b r where b: "bank_at cs (Rank cmd) j k = Inr b"
    and r: "BankState_GetReadyCommand b cmd clk = Inr r"
    and rest: "(if \<not> IsValid r then rank_ready_loop cfg cs cmd clk ps n r
       else if cmd_type r \<noteq> cmd_type cmd then Inr (r\<lparr>addr := mk_Address (-1) (Rank cmd) j k (-1) (-1)\<rparr>)
       else rank_ready_loop cfg cs cmd clk ps (n + 1) r) = Inr rc"
    by (auto simp: res_simps q)
  have mono: "rank_diverted cs cmd clk (set ps) rc \<Longrightarrow> rank_diverted cs cmd clk (set (q # ps)) rc"
    by (erule rank_diverted_mono) auto
  consider (inv) "\<not> IsValid r" | (pre) "IsValid r" "cmd_type r \<noteq> cmd_type cmd"
    | (own) "IsValid r" "cmd_type r = cmd_type cmd" by blast
  then show ?case
  proof cases
    case inv
    then have "rank_ready_loop cfg cs cmd clk ps n r = Inr rc" using rest by simp
    from Cons.IH [OF this Cons.prems(2)] Cons.prems(3) mono show ?thesis by auto
  next
    case pre
    with rest b r q have "rank_diverted cs cmd clk (set (q # ps)) rc"
      unfolding rank_diverted_def by auto
    then show ?thesis ..
  next
    case own
    have req: "r = mk_Command (cmd_type cmd) (addr cmd) (hex_addr cmd)"
    proof -
      obtain rt where "r = mk_Command rt (addr cmd) (hex_addr cmd)"
        using GetReadyCommand_valid [OF r own(1)] by blast
      with own(2) show ?thesis by simp
    qed
    have "rank_ready_loop cfg cs cmd clk ps (n + 1) r = Inr rc" using own rest by simp
    from Cons.IH [OF this Cons.prems(2)] Cons.prems(3) mono req
      rank_all_ready_insert [OF _ b r own, of "set ps"] q show ?thesis
      by (auto split: if_splits)
  qed
qed

lemma set_rank_banks: "(j, k) \<in> set (rank_banks cfg) \<longleftrightarrow>
    0 \<le> j \<and> j < bankgroups (dram cfg) \<and> 0 \<le> k \<and> k < banks_per_group (dram cfg)"
  by (auto simp: rank_banks_def)

lemma length_rank_banks: "config_ok cfg \<Longrightarrow> int (length (rank_banks cfg)) = banks (dram cfg)"
  by (simp add: rank_banks_def config_ok_def geometry_ok_def)

lemma UpdateState_addr_irrelevant:
  "cmd_type rc \<noteq> ACTIVATE \<Longrightarrow> cmd_type rc = cmd_type rc' \<Longrightarrow>
     BankState_UpdateState b rc = BankState_UpdateState b rc'"
  by (auto simp: BankState_UpdateState_def split: State.splits CommandType.splits)

lemma required_type_rank:
  assumes "required_type b cmd = Inr rt" "IsRankCMD cmd" "rt \<noteq> cmd_type cmd"
  shows "rt = PRECHARGE"
  using assms by (auto simp: required_type_def command_kind_defs
      split: State.splits CommandType.splits if_splits)

lemma required_type_exit:
  assumes "required_type b cmd = Inr rt" "\<not> IsRankCMD cmd"
  shows "rt = SREF_EXIT \<and> bk_state b = SREF
    \<or> (rt \<in> {READ, READ_PRECHARGE, WRITE, WRITE_PRECHARGE, ACTIVATE, PRECHARGE, REFRESH_BANK})"
  using assms by (auto simp: required_type_def command_kind_defs
      split: State.splits CommandType.splits if_splits)

lemma issuable_rank_ready:
  assumes "chan_wf cfg cs" "config_ok cfg" "cmd_in_dims cfg cmd" "IsRankCMD cmd"
    "ChannelState_GetReadyCommand cfg cs cmd clk = Inr rc" "IsValid rc"
  shows "issuable cfg cs rc clk"
proof -
  have dims: "bank_dims cfg (bank_states cs)" using assms(1) by (simp add: chan_wf_def chan_dims_def)
  note rk = cmd_rank_in_dims [OF assms(3)]
  have loop: "rank_ready_loop cfg cs cmd clk (rank_banks cfg) 0 Command_default = Inr rc"
    using assms(4,5) by (simp add: ChannelState_GetReadyCommand_def)
  have ne: "rank_banks cfg \<noteq> []"
    using assms(2) length_rank_banks [OF assms(2)] by (auto simp: config_ok_def geometry_ok_def)
  have at: "bank_at cs (Rank cmd) j k = Inr (bank_of cs (Rank cmd, j, k)) \<and> in_dims cfg (Rank cmd, j, k)"
    if "(j, k) \<in> set (rank_banks cfg)" for j k
    using that rk bank_at_in [OF dims] by (simp add: set_rank_banks in_dims_def)
  from rank_ready_loop_cases [OF loop assms(6)] length_rank_banks [OF assms(2)]
  have "rank_diverted cs cmd clk (set (rank_banks cfg)) rc
    \<or> rank_all_ready cs cmd clk (set (rank_banks cfg))
      \<and> rc = mk_Command (cmd_type cmd) (addr cmd) (hex_addr cmd)" using ne by auto
  then show ?thesis
  proof (elim disjE conjE)
    assume "rank_diverted cs cmd clk (set (rank_banks cfg)) rc"
    then obtain j k r where jk: "(j, k) \<in> set (rank_banks cfg)"
      and r: "BankState_GetReadyCommand (bank_of cs (Rank cmd, j, k)) cmd clk = Inr r" "IsValid r"
        "cmd_type r \<noteq> cmd_type cmd" and rc: "rc = r\<lparr>addr := mk_Address (-1) (Rank cmd) j k (-1) (-1)\<rparr>"
      using at unfolding rank_diverted_def by fastforce
    from GetReadyCommand_valid [OF r(1,2)] obtain rt where
      rt: "required_type (bank_of cs (Rank cmd, j, k)) cmd = Inr rt"
        "r = mk_Command rt (addr cmd) (hex_addr cmd)" "cmd_timing (bank_of cs (Rank cmd, j, k)) rt \<le> clk" .
    have pre: "rt = PRECHARGE" using required_type_rank [OF rt(1) assms(4)] r(3) rt(2) by simp
    have rc': "rc = mk_Command PRECHARGE (mk_Address (-1) (Rank cmd) j k (-1) (-1)) (hex_addr cmd)"
      unfolding rc rt(2) pre by (simp add: mk_Command_def)
    show ?thesis
      using required_type_accepted [OF rt(1)] rt(3) at [OF jk] pre
      by (auto simp: issuable_def rc' cmd_in_dims_def targets_def command_kind_defs)
  next
    assume all: "rank_all_ready cs cmd clk (set (rank_banks cfg))"
      and rc: "rc = mk_Command (cmd_type cmd) (addr cmd) (hex_addr cmd)"
    have "cmd_timing (bank_of cs p) (cmd_type cmd) \<le> clk
        \<and> (\<exists>b. BankState_UpdateState (bank_of cs p) rc = Inr b)" if p: "p \<in> targets cfg rc" for p
    proof -
      obtain j k where jk: "p = (Rank cmd, j, k)" "(j, k) \<in> set (rank_banks cfg)"
        using p assms(4) by (cases p)
          (auto simp: targets_def rank_coords_def rc in_dims_def set_rank_banks command_kind_defs)
      obtain r where r: "BankState_GetReadyCommand (bank_of cs p) cmd clk = Inr r" "IsValid r"
        "cmd_type r = cmd_type cmd"
        using all at [OF jk(2)] jk unfolding rank_all_ready_def by fastforce
      from GetReadyCommand_valid [OF r(1,2)] obtain rt where
        rt: "required_type (bank_of cs p) cmd = Inr rt"
          "r = mk_Command rt (addr cmd) (hex_addr cmd)" "cmd_timing (bank_of cs p) rt \<le> clk" .
      have "rt = cmd_type cmd" using r(3) rt(2) by simp
      with rt(3) required_type_accepted [OF rt(1)] show ?thesis by (simp add: rc)
    qed
    then show ?thesis
      using assms(3,4,6) by (auto simp: issuable_def rc cmd_in_dims_def command_kind_defs)
  qed
qed

lemma issuable_bank_ready:
  assumes "chan_wf cfg cs" "cmd_in_dims cfg cmd" "\<not> IsRankCMD cmd"
    "ChannelState_GetReadyCommand cfg cs cmd clk = Inr rc" "IsValid rc"
  shows "issuable cfg cs rc clk"
proof -
  let ?p = "(Rank cmd, Bankgroup cmd, Bank cmd)"
  have dims: "bank_dims cfg (bank_states cs)" "chan_dims cfg cs"
    using assms(1) by (simp_all add: chan_wf_def chan_dims_def)
  have p: "in_dims cfg ?p" using assms(2,3) by (simp add: cmd_in_dims_def)
  from assms(3-5) bank_at_in [OF dims(1) p]
  have r: "BankState_GetReadyCommand (bank_of cs ?p) cmd clk = Inr rc"
    and act: "cmd_type rc = ACTIVATE \<Longrightarrow> ActivationWindowOk cfg cs (Rank rc) clk = Inr True"
    by (auto simp: ChannelState_GetReadyCommand_def res_simps split: if_splits)
  from GetReadyCommand_valid [OF r assms(5)] obtain rt where
    rt: "required_type (bank_of cs ?p) cmd = Inr rt"
      "rc = mk_Command rt (addr cmd) (hex_addr cmd)" "cmd_timing (bank_of cs ?p) rt \<le> clk" .
  note acc = required_type_accepted [OF rt(1)]
  have win: "rt = ACTIVATE \<Longrightarrow> aw_ready 4 (four_aw cs ! nat (Rank rc)) clk
      \<and> (IsGDDR cfg \<longrightarrow> aw_ready 32 (thirty_two_aw cs ! nat (Rank rc)) clk)"
    using act p dims(2) rt(2)
    by (auto simp: ActivationWindowOk_def IsFAWReady_def Is32AWReady_def res_simps split: if_splits)
  show ?thesis
  proof (cases "rt = SREF_EXIT")
    case True
    have st: "bk_state (bank_of cs ?p) = SREF"
      using required_type_exit [OF rt(1) assms(3)] True by auto
    have all: "bk_state (bank_of cs q) = SREF \<and> cmd_timing (bank_of cs q) SREF_EXIT \<le> clk"
      if "q \<in> targets cfg rc" for q
    proof -
      have q: "in_dims cfg q" "fst q = fst ?p"
        using that True by (auto simp: targets_def rt(2) rank_coords_def command_kind_defs)
      then show ?thesis using assms(1) p st rt(3) True unfolding chan_wf_def by metis
    qed
    show ?thesis
      using all p assms(5) True
      by (auto simp: issuable_def rt(2) cmd_in_dims_def in_dims_def BankState_UpdateState_def
          command_kind_defs)
  next
    case False
    then have "\<not> IsRankCMD rc"
      using required_type_exit [OF rt(1) assms(3)] by (auto simp: rt(2) command_kind_defs)
    then show ?thesis
      using win acc rt(3) p assms(5) by (auto simp: issuable_def cmd_in_dims_def targets_def rt(2))
  qed
qed

lemma GetReadyCommand_issuable:
  assumes "chan_wf cfg cs" "config_ok cfg" "cmd_in_dims cfg cmd"
    "ChannelState_GetReadyCommand cfg cs cmd clk = Inr rc" "IsValid rc"
  shows "issuable cfg cs rc clk"
  using issuable_rank_ready [OF assms(1-3) _ assms(4,5)] issuable_bank_ready [OF assms(1,3) _ assms(4,5)]
  by blast

section \<open>Issuing a ready command\<close>

text \<open>The bank at \<open>p\<close> after \<open>cmd\<close> has been issued at \<open>clk\<close>.\<close>

definition issued_bank :: "Config \<Rightarrow> Timing \<Rightarrow> Command \<Rightarrow> u64 \<Rightarrow> coord \<Rightarrow> BankState \<Rightarrow> BankState res" where
  "issued_bank cfg tm cmd clk p b =
     bindE (if p \<in> targets cfg cmd then BankState_UpdateState b cmd else Inr b) (\<lambda>b'.
       Inr (apply_timing (constraint_list tm cmd p) clk b'))"

lemma issue_pointwise:
  assumes "chan_dims cfg cs" "issuable cfg cs cmd clk"
  obtains cs' where "UpdateTimingAndStates cfg tm cs cmd clk = Inr cs'" "chan_dims cfg cs'"
    "rank_is_sref cs' = flags_after cmd (rank_is_sref cs)"
    "refresh_q cs' = refresh_q_after cmd (refresh_q cs)"
    "rank_idle_cycles cs' = rank_idle_cycles cs"
    "four_aw cs' = four_aw (windows_after cfg cmd clk cs)"
    "thirty_two_aw cs' = thirty_two_aw (windows_after cfg cmd clk cs)"
    "\<And>p. in_dims cfg p \<Longrightarrow> issued_bank cfg tm cmd clk p (bank_of cs p) = Inr (bank_of cs' p)"
proof -
  have cmd: "cmd_in_dims cfg cmd" "IsValid cmd"
    and ok: "\<forall>p \<in> targets cfg cmd. \<exists>b. BankState_UpdateState (bank_of cs p) cmd = Inr b"
    using assms(2) by (auto simp: issuable_def)
  obtain cs1 where 1: "ChannelState_UpdateState cfg cs cmd = Inr cs1" "bank_dims cfg (bank_states cs1)"
    "cs1 = cs\<lparr>bank_states := bank_states cs1, rank_is_sref := flags_after cmd (rank_is_sref cs),
              refresh_q := refresh_q_after cmd (refresh_q cs)\<rparr>"
    "\<And>p. p \<in> targets cfg cmd \<Longrightarrow> BankState_UpdateState (bank_of cs p) cmd = Inr (bank_of cs1 p)"
    "\<And>p. in_dims cfg p \<Longrightarrow> p \<notin> targets cfg cmd \<Longrightarrow> bank_of cs1 p = bank_of cs p"
    using UpdateState_pointwise [OF assms(1) cmd(1) ok] by blast
  have sel: "rank_is_sref cs1 = flags_after cmd (rank_is_sref cs)"
    "refresh_q cs1 = refresh_q_after cmd (refresh_q cs)" "rank_idle_cycles cs1 = rank_idle_cycles cs"
    "four_aw cs1 = four_aw cs" "thirty_two_aw cs1 = thirty_two_aw cs"
    by (subst 1(3), simp)+
  have d1: "chan_dims cfg cs1"
    using assms(1) 1(2) by (simp add: chan_dims_def sel flags_after_def)
  obtain cs2 where 2: "ChannelState_UpdateTiming cfg tm cs1 cmd clk = Inr cs2"
    "bank_dims cfg (bank_states cs2)" "cs2 = (windows_after cfg cmd clk cs1)\<lparr>bank_states := bank_states cs2\<rparr>"
    "\<And>p. in_dims cfg p \<Longrightarrow> bank_of cs2 p = apply_timing (constraint_list tm cmd p) clk (bank_of cs1 p)"
    using UpdateTiming_pointwise [OF d1 cmd] by blast
  have sel2: "rank_is_sref cs2 = rank_is_sref cs1" "refresh_q cs2 = refresh_q cs1"
    "rank_idle_cycles cs2 = rank_idle_cycles cs1"
    "four_aw cs2 = four_aw (windows_after cfg cmd clk cs)"
    "thirty_two_aw cs2 = thirty_two_aw (windows_after cfg cmd clk cs)"
    by (subst 2(3), simp add: windows_after_def sel)+
  have d2: "chan_dims cfg cs2"
    using d1 2(2) by (auto simp: chan_dims_def sel sel2 windows_after_def)
  show thesis
    using 1(1,4,5) 2(1,4) sel sel2 d2
    by (intro that [of cs2]) (auto simp: UpdateTimingAndStates_def issued_bank_def)
qed

lemma issued_bank_Inr:
  assumes "issued_bank cfg tm cmd clk p b = Inr b'"
  obtains b1 where "b' = apply_timing (constraint_list tm cmd p) clk b1" "cmd_timing b1 = cmd_timing b"
    "p \<notin> targets cfg cmd \<Longrightarrow> b1 = b" "p \<in> targets cfg cmd \<Longrightarrow> BankState_UpdateState b cmd = Inr b1"
  using assms by (auto simp: issued_bank_def res_simps split: if_splits)

lemma UpdateState_SREF:
  "BankState_UpdateState b cmd = Inr b' \<Longrightarrow>
     bk_state b' = SREF \<longleftrightarrow> cmd_type cmd = SREF_ENTER \<or> bk_state b = SREF \<and> cmd_type cmd \<noteq> SREF_EXIT"
  by (auto simp: BankState_UpdateState_def BankState_close_def split: State.splits CommandType.splits)

text \<open>Only self-refresh entry, which addresses a whole rank, delays self-refresh exit.\<close>

definition sref_exit_rankwide :: "Timing \<Rightarrow> bool" where
  "sref_exit_rankwide tm = (\<forall>ct d. (SREF_EXIT, d) \<notin> set (same_bank tm ct)
     \<and> (SREF_EXIT, d) \<notin> set (other_banks_same_bankgroup tm ct)
     \<and> (SREF_EXIT, d) \<notin> set (other_bankgroups_same_rank tm ct)
     \<and> (SREF_EXIT, d) \<notin> set (other_ranks tm ct))"

lemma sref_exit_rankwide_new: "sref_exit_rankwide (Timing_new c)"
  unfolding sref_exit_rankwide_def
proof (intro allI)
  fix ct d
  show "(SREF_EXIT, d) \<notin> set (same_bank (Timing_new c) ct)
     \<and> (SREF_EXIT, d) \<notin> set (other_banks_same_bankgroup (Timing_new c) ct)
     \<and> (SREF_EXIT, d) \<notin> set (other_bankgroups_same_rank (Timing_new c) ct)
     \<and> (SREF_EXIT, d) \<notin> set (other_ranks (Timing_new c) ct)"
    by (cases ct) (simp_all add: Timing_new_def timing_row_defs Let_def)
qed

lemma issued_sref_timing:
  assumes "sref_exit_rankwide tm" "in_dims cfg p" "in_dims cfg q" "fst p = fst q"
    "cmd_timing (bank_of cs p) SREF_EXIT = cmd_timing (bank_of cs q) SREF_EXIT"
    "issued_bank cfg tm cmd clk p (bank_of cs p) = Inr bp"
    "issued_bank cfg tm cmd clk q (bank_of cs q) = Inr bq"
  shows "cmd_timing bp SREF_EXIT = cmd_timing bq SREF_EXIT"
proof -
  obtain b1 b2 where b1: "bp = apply_timing (constraint_list tm cmd p) clk b1"
    "cmd_timing b1 = cmd_timing (bank_of cs p)"
    and b2: "bq = apply_timing (constraint_list tm cmd q) clk b2"
    "cmd_timing b2 = cmd_timing (bank_of cs q)"
    using issued_bank_Inr [OF assms(6)] issued_bank_Inr [OF assms(7)] by metis
  show ?thesis
  proof (cases "IsRankCMD cmd")
    case True
    then have "constraint_list tm cmd p = constraint_list tm cmd q"
      using assms(4) by (cases p; cases q) (simp add: constraint_list_def)
    then show ?thesis using b1 b2 assms(5) by (auto intro: apply_timing_cong)
  next
    case False
    then have "(SREF_EXIT, d) \<notin> set (constraint_list tm cmd r)" for r d
      using assms(1) by (cases r) (auto simp: constraint_list_def sref_exit_rankwide_def)
    then show ?thesis using b1 b2 assms(5) by (simp add: apply_timing_other)
  qed
qed

lemma issue_preserves_wf:
  assumes "chan_wf cfg cs" "issuable cfg cs cmd clk" "sref_exit_rankwide tm"
  shows "succeeds (UpdateTimingAndStates cfg tm cs cmd clk) (chan_wf cfg)"
proof -
  have dims: "chan_dims cfg cs" using assms(1) by (simp add: chan_wf_def)
  obtain cs' where cs': "UpdateTimingAndStates cfg tm cs cmd clk = Inr cs'" "chan_dims cfg cs'"
    "rank_is_sref cs' = flags_after cmd (rank_is_sref cs)"
    "refresh_q cs' = refresh_q_after cmd (refresh_q cs)"
    and pt: "\<And>p. in_dims cfg p \<Longrightarrow> issued_bank cfg tm cmd clk p (bank_of cs p) = Inr (bank_of cs' p)"
    using issue_pointwise [OF dims assms(2)] by blast
  have "chan_wf cfg cs'"
    unfolding chan_wf_def
  proof (intro conjI allI impI)
    fix p assume p: "in_dims cfg p"
    obtain b1 where b1: "bank_of cs' p = apply_timing (constraint_list tm cmd p) clk b1"
      "p \<notin> targets cfg cmd \<Longrightarrow> b1 = bank_of cs p"
      "p \<in> targets cfg cmd \<Longrightarrow> BankState_UpdateState (bank_of cs p) cmd = Inr b1"
      using issued_bank_Inr [OF pt [OF p]] by blast
    have wf: "bank_wf (bank_of cs p)"
      and sr: "bk_state (bank_of cs p) = SREF \<longleftrightarrow> rank_is_sref cs ! nat (fst p)"
      by (rule chan_wfD(3,4) [OF assms(1) p])+
    show "bank_wf (bank_of cs' p)"
      using b1 wf bank_wf_UpdateState by (cases "p \<in> targets cfg cmd") auto
    have r: "0 \<le> fst p" "nat (fst p) < length (rank_is_sref cs)"
      using p dims by (auto simp: chan_dims_def in_dims_def split: prod.splits)
    have rc: "0 \<le> Rank cmd" using assms(2) cmd_rank_in_dims by (auto simp: issuable_def)
    show "bk_state (bank_of cs' p) = SREF \<longleftrightarrow> rank_is_sref cs' ! nat (fst p)"
    proof (cases "p \<in> targets cfg cmd")
      case True
      then show ?thesis
        using UpdateState_SREF [OF b1(3) [OF True]] targets_rank [OF True] sr r
        by (auto simp: cs'(3) b1(1) flags_after_def)
    next
      case False
      have "IsRankCMD cmd \<Longrightarrow> fst p \<noteq> Rank cmd"
        using False p by (auto simp: targets_def rank_coords_def)
      then show ?thesis
        using b1(2) [OF False] sr r rc
        by (auto simp: cs'(3) b1(1) flags_after_def nth_list_update command_kind_defs nat_eq_iff2)
    qed
  next
    fix p q assume "in_dims cfg p" "in_dims cfg q" "fst p = fst q"
    then show "cmd_timing (bank_of cs' p) SREF_EXIT = cmd_timing (bank_of cs' q) SREF_EXIT"
      using chan_wfD(5) [OF assms(1)] issued_sref_timing [OF assms(3) _ _ _ _ pt pt, of p q] by blast
  next
    show "list_all (refresh_cmd_ok cfg) (refresh_q cs')"
      using chan_wfD(2) [OF assms(1)] set_erase_first
      by (fastforce simp: cs'(4) refresh_q_after_def list_all_iff)
  qed (rule cs'(2))
  then show ?thesis using cs'(1) by simp
qed

section \<open>The next command always exists\<close>

lemma rank_ready_loop_total:
  assumes "bank_dims cfg (bank_states cs)" "0 \<le> Rank cmd" "Rank cmd < ranks (dram cfg)"
    and "\<And>j k. (j, k) \<in> set ps \<Longrightarrow> in_dims cfg (Rank cmd, j, k)
      \<and> (\<exists>r. BankState_GetReadyCommand (bank_of cs (Rank cmd, j, k)) cmd clk = Inr r)"
  shows "\<exists>rc. rank_ready_loop cfg cs cmd clk ps n ready = Inr rc"
  using assms(4)
proof (induction ps arbitrary: n ready)
  case (Cons q ps)
  obtain j k where q: "q = (j, k)" by (cases q)
  have dim: "in_dims cfg (Rank cmd, j, k)" using Cons.prems q by simp
  obtain r where r: "BankState_GetReadyCommand (bank_of cs (Rank cmd, j, k)) cmd clk = Inr r"
    using Cons.prems q by fastforce
  have "\<exists>rc. rank_ready_loop cfg cs cmd clk ps n' r' = Inr rc" for n' r'
    using Cons.IH Cons.prems by simp
  then show ?case by (simp add: q bank_at_in [OF assms(1) dim] r)
qed simp

lemma required_type_refresh:
  "required_type b cmd = Inr rt \<Longrightarrow> IsRefresh cmd \<Longrightarrow> rt \<noteq> ACTIVATE"
  by (auto simp: required_type_def command_kind_defs split: State.splits CommandType.splits)

lemma GetReadyCommand_refresh:
  assumes "chan_wf cfg cs" "refresh_cmd_ok cfg cmd" "\<not> rank_is_sref cs ! nat (Rank cmd)"
  shows "\<exists>rc. ChannelState_GetReadyCommand cfg cs cmd clk = Inr rc"
proof -
  have dims: "bank_dims cfg (bank_states cs)" "chan_dims cfg cs"
    using chan_wfD(1) [OF assms(1)] by (simp_all add: chan_dims_def)
  have cmd: "IsRefresh cmd" "cmd_in_dims cfg cmd" using assms(2) by (simp_all add: refresh_cmd_ok_def)
  have bank: "\<exists>r. BankState_GetReadyCommand (bank_of cs (Rank cmd, j, k)) cmd clk = Inr r"
    if "in_dims cfg (Rank cmd, j, k)" for j k
    using GetReadyCommand_refresh_total [OF chan_wfD(3) [OF assms(1) that] _ cmd(1)]
      chan_wfD(4) [OF assms(1) that] assms(3) by simp
  show ?thesis
  proof (cases "IsRankCMD cmd")
    case True
    then have rk: "0 \<le> Rank cmd" "Rank cmd < ranks (dram cfg)" using cmd(2) by (simp_all add: cmd_in_dims_def)
    show ?thesis
      unfolding ChannelState_GetReadyCommand_def if_P [OF True]
      by (rule rank_ready_loop_total [OF dims(1) rk])
        (use bank rk in \<open>auto simp: set_rank_banks in_dims_def\<close>)
  next
    case False
    then have p: "in_dims cfg (Rank cmd, Bankgroup cmd, Bank cmd)" using cmd(2) by (simp add: cmd_in_dims_def)
    obtain r where r: "BankState_GetReadyCommand (bank_of cs (Rank cmd, Bankgroup cmd, Bank cmd)) cmd clk = Inr r"
      using bank [OF p] by blast
    have "cmd_type r \<noteq> ACTIVATE" if "IsValid r"
      using r that cmd(1) by (auto elim!: GetReadyCommand_valid dest: required_type_refresh)
    with r show ?thesis
      by (auto simp: ChannelState_GetReadyCommand_def False bank_at_in [OF dims(1) p])
  qed
qed

lemma GetReadyCommand_rw:
  assumes "chan_wf cfg cs" "IsReadWrite cmd" "in_dims cfg (Rank cmd, Bankgroup cmd, Bank cmd)"
  shows "\<exists>rc. ChannelState_GetReadyCommand cfg cs cmd clk = Inr rc"
proof -
  have dims: "bank_dims cfg (bank_states cs)" "chan_dims cfg cs"
    using chan_wfD(1) [OF assms(1)] by (simp_all add: chan_dims_def)
  obtain r where r: "BankState_GetReadyCommand (bank_of cs (Rank cmd, Bankgroup cmd, Bank cmd)) cmd clk = Inr r"
    using GetReadyCommand_rw_total [OF chan_wfD(3) [OF assms(1,3)] assms(2)] by blast
  have rk: "IsValid r \<Longrightarrow> Rank r = Rank cmd" using r by (auto elim!: GetReadyCommand_valid)
  have "\<not> IsRankCMD cmd" using assms(2) by (auto simp: command_kind_defs)
  then show ?thesis
    using r rk dims(2) assms(3)
    by (auto simp: ChannelState_GetReadyCommand_def bank_at_in [OF dims(1) assms(3)] ActivationWindowOk_def
        IsFAWReady_def Is32AWReady_def nth_res_def chan_dims_def in_dims_def)
qed

section \<open>Properties\<close>

text \<open>
  A command that a channel reports as ready is legal: from any channel that satisfies
  its invariant, issuing it updates states and timing without an abort and without an index out of
  range, and re-establishes the invariant.  This covers rank-level commands, the precharges they
  are preceded by, and the exit from self refresh.
\<close>

theorem channel_ready_is_legal:
  assumes "chan_wf cfg cs" "config_ok cfg" "cmd_in_dims cfg cmd"
    and "ChannelState_GetReadyCommand cfg cs cmd clk = Inr rc" "IsValid rc"
  shows "succeeds (UpdateTimingAndStates cfg (Timing_new cfg) cs rc clk) (chan_wf cfg)"
  by (rule issue_preserves_wf [OF assms(1) GetReadyCommand_issuable [OF assms] sref_exit_rankwide_new])

text \<open>
  A small configuration for evaluation: two ranks of two bank groups of two banks, with the
  timing parameters of the shipped file.
\<close>

definition small_config :: Config where
  "small_config = lpddr5_config\<lparr>dram := (dram lpddr5_config)\<lparr>channels := 1, ranks := 2, banks := 4,
     bankgroups := 2, banks_per_group := 2, rows := 64, columns := 64\<rparr>,
     amap := \<lparr>request_size_bytes = 128, shift_bits = 7, ch_pos = 0, ra_pos = 3, bg_pos = 2, ba_pos = 4,
       ro_pos = 5, co_pos = 0, ch_mask = 0, ra_mask = 1, bg_mask = 1, ba_mask = 1, ro_mask = 63,
       co_mask = 3\<rparr>\<rparr>"

lemma small_SetAddressMapping: "SetAddressMapping small_config = Inr small_config"
  by code_simp

lemma small_config_ok: "config_ok small_config"
  by (simp add: config_ok_def geometry_ok_def small_config_def lpddr5_config_def)

theorem channel_ready_is_legal_witness:
  "succeeds (UpdateTimingAndStates small_config (Timing_new small_config) (ChannelState_new small_config)
     (mk_Command ACTIVATE (mk_Address 0 1 0 1 7 3) 0) 9) (chan_wf small_config)"
proof (rule channel_ready_is_legal)
  show "chan_wf small_config (ChannelState_new small_config)"
    using small_config_ok by (simp add: config_ok_def chan_wf_new)
  show "ChannelState_GetReadyCommand small_config (ChannelState_new small_config)
      (mk_Command READ (mk_Address 0 1 0 1 7 3) 0) 9 = Inr (mk_Command ACTIVATE (mk_Address 0 1 0 1 7 3) 0)"
    by code_simp
qed (rule small_config_ok; code_simp | code_simp)+

text \<open>
  Claim C16. The five loops of \<^verbatim>\<open>UpdateTiming\<close> compute a pointwise specification: each bank of the
  channel receives exactly the entries of the one table that its position relative to the command
  selects, and no bank receives any other.
\<close>

theorem UpdateTiming_by_table:
  assumes "chan_dims cfg cs" "cmd_in_dims cfg cmd" "IsValid cmd"
  shows "succeeds (ChannelState_UpdateTiming cfg tm cs cmd clk) (\<lambda>cs'. chan_dims cfg cs' \<and>
    (\<forall>p. in_dims cfg p \<longrightarrow> bank_of cs' p = apply_timing (constraint_list tm cmd p) clk (bank_of cs p)))"
proof -
  obtain cs' where cs': "ChannelState_UpdateTiming cfg tm cs cmd clk = Inr cs'"
    "bank_dims cfg (bank_states cs')" "cs' = (windows_after cfg cmd clk cs)\<lparr>bank_states := bank_states cs'\<rparr>"
    "\<And>p. in_dims cfg p \<Longrightarrow> bank_of cs' p = apply_timing (constraint_list tm cmd p) clk (bank_of cs p)"
    using UpdateTiming_pointwise [OF assms] by blast
  have "chan_dims cfg cs'"
    using cs'(2) assms(1) by (subst cs'(3)) (auto simp: chan_dims_def windows_after_def)
  with cs'(1,4) show ?thesis by simp
qed

theorem UpdateTiming_by_table_witness:
  "succeeds (ChannelState_UpdateTiming small_config (Timing_new small_config) (ChannelState_new small_config)
     (mk_Command WRITE (mk_Address 0 1 0 1 7 3) 0) 100) (\<lambda>cs'. chan_dims small_config cs' \<and>
    (\<forall>p. in_dims small_config p \<longrightarrow> bank_of cs' p =
       apply_timing (constraint_list (Timing_new small_config) (mk_Command WRITE (mk_Address 0 1 0 1 7 3) 0) p) 100
         (bank_of (ChannelState_new small_config) p)))"
  by (rule UpdateTiming_by_table [OF chan_dims_new])
    (use small_config_ok in \<open>auto simp: config_ok_def small_config_def lpddr5_config_def cmd_in_dims_def
       in_dims_def command_kind_defs\<close>)

text \<open>
  Asking a channel for the next command never aborts: for a read or write addressed
  inside the geometry it always returns, and so does a refresh request for a rank that is not in
  self refresh.
\<close>

theorem GetReadyCommand_returns:
  assumes "chan_wf cfg cs"
    and "IsReadWrite cmd \<and> in_dims cfg (Rank cmd, Bankgroup cmd, Bank cmd)
      \<or> refresh_cmd_ok cfg cmd \<and> \<not> rank_is_sref cs ! nat (Rank cmd)"
  shows "\<exists>rc. ChannelState_GetReadyCommand cfg cs cmd clk = Inr rc"
  using assms(2) GetReadyCommand_rw [OF assms(1)] GetReadyCommand_refresh [OF assms(1)] by blast

theorem GetReadyCommand_returns_witness:
  "\<exists>rc. ChannelState_GetReadyCommand small_config (ChannelState_new small_config)
     (mk_Command REFRESH (mk_Address (-1) 1 (-1) (-1) (-1) (-1)) (-1)) 4 = Inr rc"
  by (rule GetReadyCommand_returns [OF chan_wf_new])
    (use small_config_ok in \<open>auto simp: config_ok_def small_config_def lpddr5_config_def cmd_in_dims_def
       refresh_cmd_ok_def command_kind_defs ChannelState_new_def Let_def\<close>)

text \<open>
  A per-bank refresh leaves every deadline of the refreshed bank as it was: the distances
  after \<^verbatim>\<open>REFRESH_BANK\<close> are stored in the table for whole-rank commands, which \<^verbatim>\<open>UpdateTiming\<close> does
  not consult for it, so \<^verbatim>\<open>tRFCb\<close> never delays an activation of the bank being refreshed.
\<close>

theorem refresh_bank_without_tRFCb:
  assumes "chan_dims cfg cs" "in_dims cfg (Rank cmd, Bankgroup cmd, Bank cmd)"
    and "cmd_type cmd = REFRESH_BANK"
  shows "succeeds (ChannelState_UpdateTiming cfg (Timing_new cfg) cs cmd clk) (\<lambda>cs'.
    bank_of cs' (Rank cmd, Bankgroup cmd, Bank cmd) = bank_of cs (Rank cmd, Bankgroup cmd, Bank cmd))"
proof -
  have cmd: "cmd_in_dims cfg cmd" "IsValid cmd" "\<not> IsRankCMD cmd"
    using assms(2,3) by (simp_all add: cmd_in_dims_def command_kind_defs)
  obtain cs' where "ChannelState_UpdateTiming cfg (Timing_new cfg) cs cmd clk = Inr cs'"
    "\<And>p. in_dims cfg p \<Longrightarrow> bank_of cs' p = apply_timing (constraint_list (Timing_new cfg) cmd p) clk (bank_of cs p)"
    using UpdateTiming_pointwise [OF assms(1) cmd(1,2)] by blast
  moreover have "constraint_list (Timing_new cfg) cmd (Rank cmd, Bankgroup cmd, Bank cmd) = []"
    using cmd(3) assms(3) by (simp add: constraint_list_def Timing_new_def timing_REFRESH_BANK_def empty_row_def)
  ultimately show ?thesis using assms(2) by simp
qed

theorem refresh_bank_without_tRFCb_witness:
  "succeeds (ChannelState_UpdateTiming small_config (Timing_new small_config) (ChannelState_new small_config)
     (mk_Command REFRESH_BANK (mk_Address (-1) 1 0 1 (-1) (-1)) (-1)) 100) (\<lambda>cs'.
       bank_of cs' (1, 0, 1) = bank_of (ChannelState_new small_config) (1, 0, 1))"
  using refresh_bank_without_tRFCb [OF chan_dims_new,
      of small_config "mk_Command REFRESH_BANK (mk_Address (-1) 1 0 1 (-1) (-1)) (-1)" 100] small_config_ok
  by (simp add: config_ok_def small_config_def lpddr5_config_def in_dims_def)

end
