(* ===== verification/Timing_Safety.thy ===== *)
theory Timing_Safety
  imports Channel_Issue "HOL-Library.Sublist"
begin

text \<open>
  Timing safety of a channel over whole runs.  An interface \<open>timing_monitor\<close> states what a
  component that keeps one deadline per resource and command kind promises; its consequence, that any two issued
  commands keep their distance, is proved once and used for \<^verbatim>\<open>ChannelState\<close>.  The activation
  windows (\<^verbatim>\<open>tFAW\<close>, \<^verbatim>\<open>t32AW\<close>) bound the rate of activations of a rank over a run.
\<close>

section \<open>Traces of issued commands\<close>

lemma subseq_subset: "subseq xs ys \<Longrightarrow> set xs \<subseteq> set ys"
  by (induction rule: list_emb.induct) auto

lemma subseq_keeps_sorted: "subseq xs ys \<Longrightarrow> sorted ys \<Longrightarrow> sorted xs"
  by (induction rule: list_emb.induct) (auto dest: subseq_subset)

fun legal_trace ::
    "('s \<Rightarrow> 'c \<Rightarrow> u64 \<Rightarrow> bool) \<Rightarrow> ('s \<Rightarrow> 'c \<Rightarrow> u64 \<Rightarrow> 's res) \<Rightarrow> 's \<Rightarrow> (u64 \<times> 'c) list \<Rightarrow> 's \<Rightarrow> bool" where
  "legal_trace rdy iss s [] s' = (s' = s)"
| "legal_trace rdy iss s ((t, c) # tr) s' =
     (rdy s c t \<and> (case iss s c t of Inl e \<Rightarrow> False | Inr s1 \<Rightarrow> legal_trace rdy iss s1 tr s'))"

lemma legal_trace_append:
  "legal_trace rdy iss s (tr @ tr') s' \<longleftrightarrow>
     (\<exists>s1. legal_trace rdy iss s tr s1 \<and> legal_trace rdy iss s1 tr' s')"
  by (induction tr arbitrary: s) (auto split: sum.splits)

lemma legal_trace_Cons_iff:
  "legal_trace rdy iss s ((t, c) # tr) s' \<longleftrightarrow>
     (\<exists>s1. rdy s c t \<and> iss s c t = Inr s1 \<and> legal_trace rdy iss s1 tr s')"
  by (auto split: sum.splits)

declare legal_trace.simps(2) [simp del]

section \<open>The interface of a timing monitor\<close>

locale timing_monitor =
  fixes valid :: "'s \<Rightarrow> bool"
    and rdy :: "'s \<Rightarrow> 'c \<Rightarrow> u64 \<Rightarrow> bool"
    and iss :: "'s \<Rightarrow> 'c \<Rightarrow> u64 \<Rightarrow> 's res"
    and resource :: "'b \<Rightarrow> bool"
    and deadline :: "'s \<Rightarrow> 'b \<Rightarrow> 'k \<Rightarrow> int"
    and covers :: "'c \<Rightarrow> 'b \<Rightarrow> bool"
    and kind :: "'c \<Rightarrow> 'k"
    and distance :: "'c \<Rightarrow> 'b \<Rightarrow> 'k \<Rightarrow> int \<Rightarrow> bool"
    and time_ok :: "u64 \<Rightarrow> bool"
  assumes covers_resource: "\<lbrakk>valid s; rdy s c t; covers c b\<rbrakk> \<Longrightarrow> resource b"
    and ready_deadline: "\<lbrakk>valid s; rdy s c t; covers c b\<rbrakk> \<Longrightarrow> deadline s b (kind c) \<le> uint t"
    and issue_valid: "\<lbrakk>valid s; rdy s c t; iss s c t = Inr s'\<rbrakk> \<Longrightarrow> valid s'"
    and issue_keeps:
      "\<lbrakk>valid s; rdy s c t; iss s c t = Inr s'; resource b\<rbrakk> \<Longrightarrow> deadline s b k \<le> deadline s' b k"
    and issue_sets:
      "\<lbrakk>valid s; rdy s c t; iss s c t = Inr s'; resource b; time_ok t; distance c b k d\<rbrakk>
         \<Longrightarrow> uint t + d \<le> deadline s' b k"
begin

lemma trace_valid: "valid s \<Longrightarrow> legal_trace rdy iss s tr s' \<Longrightarrow> valid s'"
proof (induction tr arbitrary: s)
  case (Cons x tr)
  then show ?case by (cases x) (auto simp: legal_trace_Cons_iff dest: issue_valid)
qed simp

lemma trace_keeps:
  "valid s \<Longrightarrow> legal_trace rdy iss s tr s' \<Longrightarrow> resource b \<Longrightarrow> deadline s b k \<le> deadline s' b k"
proof (induction tr arbitrary: s)
  case (Cons x tr)
  obtain t c where x: "x = (t, c)" by (cases x)
  from Cons.prems(2) obtain s1 where s1: "rdy s c t" "iss s c t = Inr s1" "legal_trace rdy iss s1 tr s'"
    by (auto simp: x legal_trace_Cons_iff)
  have "deadline s b k \<le> deadline s1 b k"
    using issue_keeps [OF Cons.prems(1) s1(1,2) Cons.prems(3)] .
  also have "\<dots> \<le> deadline s' b k"
    using Cons.IH [OF issue_valid [OF Cons.prems(1) s1(1,2)] s1(3) Cons.prems(3)] .
  finally show ?case .
qed simp

lemma pair_distance:
  assumes "valid s" "legal_trace rdy iss s (tr1 @ (t, c) # tr2 @ (t', c') # tr3) s'"
    and "time_ok t" "covers c' b" "distance c b (kind c') d"
  shows "uint t + d \<le> uint t'"
proof -
  obtain s1 s2 s3 where s: "legal_trace rdy iss s tr1 s1" "rdy s1 c t" "iss s1 c t = Inr s2"
    "legal_trace rdy iss s2 tr2 s3" "rdy s3 c' t'"
    using assms(2) by (auto simp: legal_trace_append legal_trace_Cons_iff)
  have v1: "valid s1" using trace_valid [OF assms(1) s(1)] .
  have v2: "valid s2" using issue_valid [OF v1 s(2,3)] .
  have v3: "valid s3" using trace_valid [OF v2 s(4)] .
  have b: "resource b" using covers_resource [OF v3 s(5) assms(4)] .
  have "uint t + d \<le> deadline s2 b (kind c')"
    using issue_sets [OF v1 s(2,3) b assms(3,5)] .
  also have "\<dots> \<le> deadline s3 b (kind c')" using trace_keeps [OF v2 s(4) b] .
  also have "\<dots> \<le> uint t'" using ready_deadline [OF v3 s(5) assms(4)] .
  finally show ?thesis .
qed

lemma trace_distance:
  assumes "valid s" "legal_trace rdy iss s tr s'" "i < j" "j < length tr"
    and "time_ok (fst (tr ! i))" "covers (snd (tr ! j)) b" "distance (snd (tr ! i)) b (kind (snd (tr ! j))) d"
  shows "uint (fst (tr ! i)) + d \<le> uint (fst (tr ! j))"
proof -
  let ?mid = "drop (Suc i) (take j tr)"
  have "take j tr = take i tr @ tr ! i # ?mid"
    using assms(3,4) id_take_nth_drop [of i "take j tr"] by simp
  then have "tr = take i tr @ (fst (tr ! i), snd (tr ! i)) # ?mid @ (fst (tr ! j), snd (tr ! j)) # drop (Suc j) tr"
    using id_take_nth_drop [OF assms(4)] by (metis append.assoc append_Cons prod.collapse)
  with assms(2) have "legal_trace rdy iss s
      (take i tr @ (fst (tr ! i), snd (tr ! i)) # ?mid @ (fst (tr ! j), snd (tr ! j)) # drop (Suc j) tr) s'"
    by simp
  from pair_distance [OF assms(1) this assms(5-7)] show ?thesis .
qed

end

section \<open>A channel is a timing monitor\<close>

lemma constraint_list_entries: "set (constraint_list tm cmd p) \<subseteq> set (timing_entries tm)"
  using timing_entries_mem [of tm "cmd_type cmd"]
  by (auto simp: constraint_list_def split: prod.splits if_splits)

lemma issued_deadlines:
  assumes "chan_wf cfg cs" "issuable cfg cs cmd clk" "UpdateTimingAndStates cfg tm cs cmd clk = Inr cs'"
    "in_dims cfg p"
  obtains b where "cmd_timing b = cmd_timing (bank_of cs p)"
    "bank_of cs' p = apply_timing (constraint_list tm cmd p) clk b"
proof -
  have "issued_bank cfg tm cmd clk p (bank_of cs p) = Inr (bank_of cs' p)"
    using issue_pointwise [OF chan_wfD(1) [OF assms(1)] assms(2), of tm] assms(3,4) by (metis Inr_inject)
  from issued_bank_Inr [OF this] show thesis using that by blast
qed

interpretation cm: timing_monitor "chan_wf cfg" "issuable cfg" "UpdateTimingAndStates cfg (Timing_new cfg)"
  "in_dims cfg" "\<lambda>cs p ct. uint (cmd_timing (bank_of cs p) ct)" "\<lambda>cmd p. p \<in> targets cfg cmd" cmd_type
  "\<lambda>cmd p ct d. (ct, d) \<in> set (constraint_list (Timing_new cfg) cmd p)" "no_wrap (Timing_new cfg)"
  for cfg
proof (unfold_locales, goal_cases)
  case (1 cs cmd t p)
  then show ?case by (auto simp: issuable_def intro: targets_in_dims)
next
  case (2 cs cmd t p)
  then show ?case by (auto simp: issuable_def word_le_def)
next
  case (3 cs cmd t cs')
  then show ?case using issue_preserves_wf [OF 3(1,2) sref_exit_rankwide_new, of cfg] by simp
next
  case (4 cs cmd t cs' p ct)
  from issued_deadlines [OF this] obtain b where
    "cmd_timing b = cmd_timing (bank_of cs p)"
    "bank_of cs' p = apply_timing (constraint_list (Timing_new cfg) cmd p) t b" .
  then show ?case using apply_timing_mono [of b ct] by (simp add: word_le_def)
next
  case (5 cs cmd t cs' p ct d)
  from issued_deadlines [OF this(1-4)] obtain b where
    "bank_of cs' p = apply_timing (constraint_list (Timing_new cfg) cmd p) t b" by blast
  with apply_timing_ge [OF 5(6), of t b] have "t + of_int d \<le> cmd_timing (bank_of cs' p) ct" by simp
  moreover have "uint (t + of_int d) = uint t + d"
    using no_wrapD [OF 5(5)] 5(6) constraint_list_entries by blast
  ultimately show ?case by (simp add: word_le_def)
qed

section \<open>Serving a sequence of requests\<close>

text \<open>
  The way the channel is used: at each time a command is asked for, the channel is asked for the
  next command towards it, which is issued when there is one.  The result is the trace of issued
  commands and the final state.
\<close>

fun serve_requests ::
    "Config \<Rightarrow> Timing \<Rightarrow> ChannelState \<Rightarrow> (u64 \<times> Command) list \<Rightarrow> ((u64 \<times> Command) list \<times> ChannelState) res" where
  "serve_requests cfg tm cs [] = Inr ([], cs)"
| "serve_requests cfg tm cs ((clk, cmd) # rs) =
     bindE (ChannelState_GetReadyCommand cfg cs cmd clk) (\<lambda>rc.
     if \<not> IsValid rc then serve_requests cfg tm cs rs
     else bindE (UpdateTimingAndStates cfg tm cs rc clk) (\<lambda>cs1.
          bindE (serve_requests cfg tm cs1 rs) (\<lambda>(tr, cs2). Inr ((clk, rc) # tr, cs2))))"

definition request_ok :: "Config \<Rightarrow> Command \<Rightarrow> bool" where
  "request_ok cfg cmd =
     (IsReadWrite cmd \<and> in_dims cfg (Rank cmd, Bankgroup cmd, Bank cmd) \<or> refresh_cmd_ok cfg cmd)"

lemma request_ok_dims: "request_ok cfg cmd \<Longrightarrow> cmd_in_dims cfg cmd"
  by (auto simp: request_ok_def refresh_cmd_ok_def cmd_in_dims_def command_kind_defs)

text \<open>Without a request to enter self refresh no rank ever enters it.\<close>

definition awake :: "ChannelState \<Rightarrow> bool" where
  "awake cs = (\<forall>s \<in> set (rank_is_sref cs). \<not> s)"

lemma awake_new: "awake (ChannelState_new cfg)"
  by (simp add: awake_def ChannelState_new_def Let_def)

lemma ready_not_sref_enter:
  assumes "request_ok cfg cmd" "ChannelState_GetReadyCommand cfg cs cmd clk = Inr rc" "chan_wf cfg cs"
    "config_ok cfg"
  shows "cmd_type rc \<noteq> SREF_ENTER"
proof
  assume *: "cmd_type rc = SREF_ENTER"
  then have v: "IsValid rc" by (simp add: IsValid_def)
  have nr: "cmd_type cmd \<noteq> SREF_ENTER"
    using assms(1) by (auto simp: request_ok_def refresh_cmd_ok_def command_kind_defs)
  have bank: "cmd_type r \<noteq> SREF_ENTER" if "BankState_GetReadyCommand b cmd clk = Inr r" for b r
    using that nr by (auto simp: BankState_GetReadyCommand_def res_simps required_type_def Command_default_def
        split: if_splits State.splits CommandType.splits)
  show False
  proof (cases "IsRankCMD cmd")
    case True
    then have "rank_ready_loop cfg cs cmd clk (rank_banks cfg) 0 Command_default = Inr rc"
      using assms(2) by (simp add: ChannelState_GetReadyCommand_def)
    from rank_ready_loop_cases [OF this v] length_rank_banks [OF assms(4)] bank nr *
    show False by (auto simp: rank_diverted_def Command_default_def split: if_splits)
  next
    case False
    then show False
      using assms(2) bank * by (auto simp: ChannelState_GetReadyCommand_def res_simps Command_default_def
          split: if_splits)
  qed
qed

lemma awake_issue:
  assumes "awake cs" "chan_wf cfg cs" "issuable cfg cs rc clk" "cmd_type rc \<noteq> SREF_ENTER"
    "UpdateTimingAndStates cfg tm cs rc clk = Inr cs'"
  shows "awake cs'"
proof -
  have "rank_is_sref cs' = flags_after rc (rank_is_sref cs)"
  proof (rule issue_pointwise [OF chan_wfD(1) [OF assms(2)] assms(3), of tm])
  qed (use assms(5) in auto)
  with assms(1,4) show ?thesis
    by (auto simp: awake_def flags_after_def dest!: subsetD [OF set_update_subset_insert])
qed

lemma awake_nth:
  assumes "awake cs" "chan_dims cfg cs" "0 \<le> r" "r < ranks (dram cfg)"
  shows "\<not> rank_is_sref cs ! nat r"
proof -
  have "nat r < length (rank_is_sref cs)" using assms(2-4) unfolding chan_dims_def by linarith
  from nth_mem [OF this] show ?thesis using assms(1) unfolding awake_def by (rule bspec [rotated])
qed

lemma request_ready:
  assumes "chan_wf cfg cs" "awake cs" "request_ok cfg cmd"
  shows "\<exists>rc. ChannelState_GetReadyCommand cfg cs cmd clk = Inr rc"
proof -
  have "\<not> rank_is_sref cs ! nat (Rank cmd)"
    using awake_nth [OF assms(2) chan_wfD(1) [OF assms(1)]] cmd_rank_in_dims [OF request_ok_dims [OF assms(3)]]
    by blast
  then show ?thesis
    using assms(3) GetReadyCommand_rw [OF assms(1)] GetReadyCommand_refresh [OF assms(1)]
    unfolding request_ok_def by blast
qed

lemma serve_requests_legal:
  assumes "config_ok cfg" "chan_wf cfg cs" "awake cs" "\<forall>(t, cmd) \<in> set rs. request_ok cfg cmd"
  shows "\<exists>tr cs'. serve_requests cfg (Timing_new cfg) cs rs = Inr (tr, cs')
    \<and> legal_trace (issuable cfg) (UpdateTimingAndStates cfg (Timing_new cfg)) cs tr cs'
    \<and> subseq (map fst tr) (map fst rs)"
  using assms(2-4)
proof (induction rs arbitrary: cs)
  case (Cons r rs)
  obtain clk cmd where r: "r = (clk, cmd)" by (cases r)
  have req: "request_ok cfg cmd" using Cons.prems(3) by (simp add: r)
  have rest: "\<forall>(t, cmd) \<in> set rs. request_ok cfg cmd" using Cons.prems(3) by simp
  obtain rc where rc: "ChannelState_GetReadyCommand cfg cs cmd clk = Inr rc"
    using request_ready [OF Cons.prems(1,2) req] by blast
  show ?case
  proof (cases "IsValid rc")
    case False
    with Cons.IH [OF Cons.prems(1,2) rest] rc show ?thesis by (auto simp: r)
  next
    case True
    have iss: "issuable cfg cs rc clk"
      by (rule GetReadyCommand_issuable [OF Cons.prems(1) assms(1) request_ok_dims [OF req] rc True])
    obtain cs1 where cs1: "UpdateTimingAndStates cfg (Timing_new cfg) cs rc clk = Inr cs1" "chan_wf cfg cs1"
      using issue_preserves_wf [OF Cons.prems(1) iss sref_exit_rankwide_new] by (auto simp: succeeds_iff)
    have "awake cs1"
      by (rule awake_issue [OF Cons.prems(2,1) iss ready_not_sref_enter [OF req rc Cons.prems(1) assms(1)] cs1(1)])
    from Cons.IH [OF cs1(2) this rest] rc True iss cs1(1) show ?thesis
      by (auto simp: r legal_trace_Cons_iff)
  qed
qed simp

section \<open>Activation windows\<close>

fun window_run :: "nat \<Rightarrow> int \<Rightarrow> u64 list \<Rightarrow> u64 list \<Rightarrow> bool" where
  "window_run n w aw [] = True"
| "window_run n w aw (t # ts) = (aw_ready n aw t \<and> window_run n w (aw_push w aw t) ts)"

text \<open>
  The window after the activations \<open>pre\<close>: it holds the most recent ones, at most \<open>n\<close>, and an
  activation that has left it is at least \<open>w\<close> older than the last one.
\<close>

definition window_inv :: "nat \<Rightarrow> int \<Rightarrow> u64 list \<Rightarrow> u64 list \<Rightarrow> bool" where
  "window_inv n w pre aw =
     (\<exists>k \<le> length pre. aw = map (\<lambda>t. t + of_int w) (drop k pre) \<and> length pre - k \<le> n
        \<and> (\<forall>i < k. uint (pre ! i) + w \<le> uint (last pre)))"

lemma window_step:
  assumes "window_inv n w pre aw" "aw_ready n aw t" "0 < n" "0 \<le> w"
    and "\<forall>x \<in> set pre. x \<le> t \<and> uint x + w < 2 ^ 64"
  shows "window_inv n w (pre @ [t]) (aw_push w aw t)"
    "n \<le> length pre \<Longrightarrow> uint (pre ! (length pre - n)) + w \<le> uint t"
proof -
  obtain k where k: "k \<le> length pre" "aw = map (\<lambda>t. t + of_int w) (drop k pre)" "length pre - k \<le> n"
    "\<forall>i < k. uint (pre ! i) + w \<le> uint (last pre)"
    using assms(1) by (auto simp: window_inv_def)
  have old: "uint (pre ! i) + w \<le> uint t" if "i < k" for i
  proof -
    have "last pre \<in> set pre" using that k(1) by (auto intro: last_in_set)
    then have "uint (last pre) \<le> uint t" using assms(5) by (simp add: word_le_def)
    with k(4) that show ?thesis by force
  qed
  have front: "uint (pre ! k + of_int w) = uint (pre ! k) + w" if "k < length pre"
    using that assms(4,5) by (intro uint_add_of_int) auto
  show "window_inv n w (pre @ [t]) (aw_push w aw t)"
  proof (cases "k < length pre \<and> t \<ge> pre ! k + of_int w")
    case True
    then have "aw_push w aw t = map (\<lambda>t. t + of_int w) (drop (Suc k) (pre @ [t]))"
      using k(2) by (auto simp: aw_push_def Cons_nth_drop_Suc [symmetric])
    moreover have "uint ((pre @ [t]) ! i) + w \<le> uint t" if "i < Suc k" for i
    proof (cases "i = k")
      case True
      then show ?thesis using \<open>k < length pre \<and> _\<close> front by (simp add: nth_append word_le_def)
    next
      case False
      then show ?thesis using that old k(1) by (auto simp: nth_append)
    qed
    ultimately show ?thesis
      unfolding window_inv_def using k(1,3) True assms(3)
      by (intro exI [of _ "Suc k"]) auto
  next
    case False
    have "length pre - k < n"
    proof (rule ccontr)
      assume "\<not> length pre - k < n"
      then have "length aw = n" "k < length pre" using k(2,3) assms(3) by auto
      then show False
        using False assms(2) k(2) by (auto simp: aw_ready_def Cons_nth_drop_Suc [symmetric])
    qed
    moreover have "aw_push w aw t = map (\<lambda>t. t + of_int w) (drop k (pre @ [t]))"
      using k(1,2) False
      by (cases "k < length pre") (auto simp: aw_push_def Cons_nth_drop_Suc [symmetric])
    ultimately show ?thesis
      unfolding window_inv_def using k(1) old
      by (intro exI [of _ k]) (auto simp: nth_append)
  qed
  show "uint (pre ! (length pre - n)) + w \<le> uint t" if n: "n \<le> length pre"
  proof (cases "length pre - n < k")
    case True
    then show ?thesis using old by blast
  next
    case False
    then have "length pre - n = k" "k < length pre" "length aw = n" using k n assms(3) by auto
    then show ?thesis
      using assms(2) k(2) front
      by (auto simp: aw_ready_def word_le_def not_less Cons_nth_drop_Suc [symmetric])
  qed
qed

lemma window_run_spacing:
  assumes "window_run n w aw ts" "window_inv n w pre aw" "0 < n" "0 \<le> w"
    and "sorted (pre @ ts)" "\<forall>x \<in> set (pre @ ts). uint x + w < 2 ^ 64"
    and "length pre \<le> i + n" "i + n < length (pre @ ts)"
  shows "uint ((pre @ ts) ! i) + w \<le> uint ((pre @ ts) ! (i + n))"
  using assms
proof (induction ts arbitrary: pre aw)
  case (Cons t ts)
  have le: "\<forall>x \<in> set pre. x \<le> t \<and> uint x + w < 2 ^ 64"
    using Cons.prems(5,6) by (auto simp: sorted_append)
  have rdy: "aw_ready n aw t" using Cons.prems(1) by simp
  note step = window_step [OF Cons.prems(2) rdy Cons.prems(3,4) le]
  show ?case
  proof (cases "i + n = length pre")
    case True
    then have "i = length pre - n" "n \<le> length pre" by auto
    then show ?thesis using step(2) True Cons.prems(3) by (simp add: nth_append)
  next
    case False
    have "uint (((pre @ [t]) @ ts) ! i) + w \<le> uint (((pre @ [t]) @ ts) ! (i + n))"
      by (rule Cons.IH [OF _ step(1)]) (use Cons.prems False in auto)
    then show ?thesis by simp
  qed
qed simp

text \<open>The times of the activations of a rank in a trace.\<close>

definition activations :: "int \<Rightarrow> (u64 \<times> Command) list \<Rightarrow> u64 list" where
  "activations r tr = map fst (filter (\<lambda>(t, c). cmd_type c = ACTIVATE \<and> Rank c = r) tr)"

lemma issued_windows:
  assumes "chan_wf cfg cs" "issuable cfg cs cmd clk" "UpdateTimingAndStates cfg tm cs cmd clk = Inr cs'"
    "0 \<le> r" "r < ranks (dram cfg)"
  shows "four_aw cs' ! nat r = (if cmd_type cmd = ACTIVATE \<and> Rank cmd = r
      then aw_push (tFAW (tim cfg)) (four_aw cs ! nat r) clk else four_aw cs ! nat r)"
    "thirty_two_aw cs' ! nat r = (if cmd_type cmd = ACTIVATE \<and> Rank cmd = r \<and> IsGDDR cfg
      then aw_push (t32AW (tim cfg)) (thirty_two_aw cs ! nat r) clk else thirty_two_aw cs ! nat r)"
proof -
  have d: "chan_dims cfg cs" by (rule chan_wfD(1) [OF assms(1)])
  have rk: "0 \<le> Rank cmd" using assms(2) cmd_rank_in_dims by (auto simp: issuable_def)
  have w: "four_aw cs' = four_aw (windows_after cfg cmd clk cs)"
    "thirty_two_aw cs' = thirty_two_aw (windows_after cfg cmd clk cs)"
    using assms(3) by (rule_tac [!] issue_pointwise [OF d assms(2), of tm]) auto
  have len: "nat r < length (four_aw cs)" "nat r < length (thirty_two_aw cs)"
    using d assms(4,5) unfolding chan_dims_def by linarith+
  show "four_aw cs' ! nat r = (if cmd_type cmd = ACTIVATE \<and> Rank cmd = r
      then aw_push (tFAW (tim cfg)) (four_aw cs ! nat r) clk else four_aw cs ! nat r)"
    using len rk assms(4) by (auto simp: w windows_after_def nth_list_update eq_nat_nat_iff)
  show "thirty_two_aw cs' ! nat r = (if cmd_type cmd = ACTIVATE \<and> Rank cmd = r \<and> IsGDDR cfg
      then aw_push (t32AW (tim cfg)) (thirty_two_aw cs ! nat r) clk else thirty_two_aw cs ! nat r)"
    using len rk assms(4) by (auto simp: w windows_after_def nth_list_update eq_nat_nat_iff)
qed

lemma trace_windows:
  assumes "chan_wf cfg cs" "legal_trace (issuable cfg) (UpdateTimingAndStates cfg (Timing_new cfg)) cs tr cs'"
    "0 \<le> r" "r < ranks (dram cfg)"
  shows "window_run 4 (tFAW (tim cfg)) (four_aw cs ! nat r) (activations r tr)
    \<and> (IsGDDR cfg \<longrightarrow> window_run 32 (t32AW (tim cfg)) (thirty_two_aw cs ! nat r) (activations r tr))"
  using assms(1,2)
proof (induction tr arbitrary: cs)
  case (Cons x tr)
  obtain t c where x: "x = (t, c)" by (cases x)
  obtain cs1 where cs1: "issuable cfg cs c t" "UpdateTimingAndStates cfg (Timing_new cfg) cs c t = Inr cs1"
    "legal_trace (issuable cfg) (UpdateTimingAndStates cfg (Timing_new cfg)) cs1 tr cs'"
    using Cons.prems(2) by (auto simp: x legal_trace_Cons_iff)
  have wf: "chan_wf cfg cs1" by (rule cm.issue_valid [OF Cons.prems(1) cs1(1,2)])
  note win = issued_windows [OF Cons.prems(1) cs1(1,2) assms(3,4)]
  show ?case
    using Cons.IH [OF wf cs1(3)] cs1(1) unfolding win
    by (auto simp: activations_def x issuable_def split: if_splits)
qed (simp add: activations_def)

section \<open>Properties\<close>

text \<open>All pairs of a trace respect the tables of the constructor of \<^verbatim>\<open>Timing\<close>.\<close>

definition trace_respects_timing :: "Config \<Rightarrow> (u64 \<times> Command) list \<Rightarrow> bool" where
  "trace_respects_timing cfg tr =
     (\<forall>i j p d. i < j \<and> j < length tr \<and> p \<in> targets cfg (snd (tr ! j))
        \<and> (cmd_type (snd (tr ! j)), d) \<in> set (constraint_list (Timing_new cfg) (snd (tr ! i)) p)
        \<longrightarrow> uint (fst (tr ! i)) + d \<le> uint (fst (tr ! j)))"

lemma legal_trace_respects_timing:
  assumes "chan_wf cfg cs" "legal_trace (issuable cfg) (UpdateTimingAndStates cfg (Timing_new cfg)) cs tr cs'"
    and "\<forall>t \<in> set (map fst tr). no_wrap (Timing_new cfg) t"
  shows "trace_respects_timing cfg tr"
  unfolding trace_respects_timing_def
proof (intro allI impI, elim conjE)
  fix i j p d assume ij: "i < j" "j < length tr" "p \<in> targets cfg (snd (tr ! j))"
    "(cmd_type (snd (tr ! j)), d) \<in> set (constraint_list (Timing_new cfg) (snd (tr ! i)) p)"
  have "no_wrap (Timing_new cfg) (fst (tr ! i))" using assms(3) ij(1,2) by simp
  from cm.trace_distance [OF assms(1,2) ij(1,2) this ij(3,4)]
  show "uint (fst (tr ! i)) + d \<le> uint (fst (tr ! j))" .
qed

text \<open>
  Timing safety of a run.  Starting from a new channel, serve any sequence of reads,
  writes and refreshes addressed inside the geometry, at any times: the run never aborts, and any
  two commands it issues, however many others lie between them, are at least as far apart as the
  table for their types and relative position demands (same bank, same bank group, same rank,
  other rank, whole rank), as long as no deadline exceeds 64 bits.
\<close>

theorem run_respects_timing:
  assumes "config_ok cfg" "\<forall>(t, cmd) \<in> set rs. request_ok cfg cmd \<and> no_wrap (Timing_new cfg) t"
  shows "succeeds (serve_requests cfg (Timing_new cfg) (ChannelState_new cfg) rs)
    (\<lambda>(tr, cs'). trace_respects_timing cfg tr \<and> chan_wf cfg cs')"
proof -
  have wf: "chan_wf cfg (ChannelState_new cfg)"
    using assms(1) by (auto simp: config_ok_def intro: chan_wf_new)
  have req: "\<forall>(t, cmd) \<in> set rs. request_ok cfg cmd" using assms(2) by auto
  obtain tr cs' where tr: "serve_requests cfg (Timing_new cfg) (ChannelState_new cfg) rs = Inr (tr, cs')"
    "legal_trace (issuable cfg) (UpdateTimingAndStates cfg (Timing_new cfg)) (ChannelState_new cfg) tr cs'"
    "subseq (map fst tr) (map fst rs)"
    using serve_requests_legal [OF assms(1) wf awake_new req] by blast
  have "set (map fst tr) \<subseteq> set (map fst rs)" using tr(3) by (rule subseq_subset)
  then have "\<forall>t \<in> set (map fst tr). no_wrap (Timing_new cfg) t" using assms(2) by fastforce
  with legal_trace_respects_timing [OF wf tr(2)] cm.trace_valid [OF wf tr(2)] tr(1) show ?thesis by simp
qed

definition demo_requests :: "(u64 \<times> Command) list" where
  "demo_requests =
     [(0, mk_Command READ (mk_Address 0 0 0 0 5 1) 64), (3, mk_Command WRITE (mk_Address 0 0 0 1 6 1) 128),
      (4, mk_Command WRITE (mk_Address 0 0 0 1 6 1) 128), (15, mk_Command READ (mk_Address 0 0 0 0 5 1) 64),
      (40, mk_Command WRITE (mk_Address 0 0 0 1 6 1) 128),
      (90, mk_Command REFRESH (mk_Address (-1) 0 (-1) (-1) (-1) (-1)) (-1))]"

theorem run_respects_timing_witness:
  "succeeds (serve_requests small_config (Timing_new small_config) (ChannelState_new small_config) demo_requests)
    (\<lambda>(tr, cs'). trace_respects_timing small_config tr \<and> chan_wf small_config cs')"
  by (rule run_respects_timing [OF small_config_ok]) code_simp

text \<open>
  Claim C13. The activation windows.  In a run whose requests come in the order of their times, any
  five consecutive activations of a rank span at least \<^verbatim>\<open>tFAW\<close> cycles, and with a GDDR protocol any
  33 consecutive activations span at least \<^verbatim>\<open>t32AW\<close>.
\<close>

theorem run_respects_windows:
  assumes "config_ok cfg" "\<forall>(t, cmd) \<in> set rs. request_ok cfg cmd" "sorted (map fst rs)"
    and "\<forall>(t, cmd) \<in> set rs. uint t + max (tFAW (tim cfg)) (t32AW (tim cfg)) < 2 ^ 64"
    and "0 \<le> tFAW (tim cfg)" "0 \<le> t32AW (tim cfg)" "0 \<le> r" "r < ranks (dram cfg)"
  shows "succeeds (serve_requests cfg (Timing_new cfg) (ChannelState_new cfg) rs) (\<lambda>(tr, cs').
    (\<forall>i. i + 4 < length (activations r tr) \<longrightarrow>
       uint (activations r tr ! i) + tFAW (tim cfg) \<le> uint (activations r tr ! (i + 4)))
    \<and> (IsGDDR cfg \<longrightarrow> (\<forall>i. i + 32 < length (activations r tr) \<longrightarrow>
         uint (activations r tr ! i) + t32AW (tim cfg) \<le> uint (activations r tr ! (i + 32)))))"
proof -
  let ?cs = "ChannelState_new cfg"
  have wf: "chan_wf cfg ?cs" using assms(1) by (auto simp: config_ok_def intro: chan_wf_new)
  obtain tr cs' where tr: "serve_requests cfg (Timing_new cfg) ?cs rs = Inr (tr, cs')"
    "legal_trace (issuable cfg) (UpdateTimingAndStates cfg (Timing_new cfg)) ?cs tr cs'"
    "subseq (map fst tr) (map fst rs)"
    using serve_requests_legal [OF assms(1) wf awake_new assms(2)] by blast
  let ?a = "activations r tr"
  have sub: "subseq ?a (map fst rs)"
    unfolding activations_def by (rule subseq_order.trans [OF subseq_map [OF subseq_filter_left] tr(3)])
  have srt: "sorted ?a" by (rule subseq_keeps_sorted [OF sub assms(3)])
  have bnd: "\<forall>x \<in> set ?a. uint x + max (tFAW (tim cfg)) (t32AW (tim cfg)) < 2 ^ 64"
    using subseq_subset [OF sub] assms(4) by fastforce
  have empty: "four_aw ?cs ! nat r = []" "thirty_two_aw ?cs ! nat r = []"
    using assms(7,8) by (auto simp: ChannelState_new_def Let_def)
  have inv: "window_inv n w [] []" for n w by (simp add: window_inv_def)
  have "uint (?a ! i) + tFAW (tim cfg) \<le> uint (?a ! (i + 4))" if "i + 4 < length ?a" for i
    using window_run_spacing [OF _ inv, of 4 "tFAW (tim cfg)" ?a i] trace_windows [OF wf tr(2) assms(7,8)]
      srt bnd assms(5) that unfolding empty by fastforce
  moreover have "uint (?a ! i) + t32AW (tim cfg) \<le> uint (?a ! (i + 32))"
    if "IsGDDR cfg" "i + 32 < length ?a" for i
    using window_run_spacing [OF _ inv, of 32 "t32AW (tim cfg)" ?a i] trace_windows [OF wf tr(2) assms(7,8)]
      srt bnd assms(6) that unfolding empty by fastforce
  ultimately show ?thesis using tr(1) by simp
qed

theorem run_respects_windows_witness:
  "succeeds (serve_requests small_config (Timing_new small_config) (ChannelState_new small_config) demo_requests)
    (\<lambda>(tr, cs'). (\<forall>i. i + 4 < length (activations 0 tr) \<longrightarrow>
       uint (activations 0 tr ! i) + tFAW (tim small_config) \<le> uint (activations 0 tr ! (i + 4)))
    \<and> (IsGDDR small_config \<longrightarrow> (\<forall>i. i + 32 < length (activations 0 tr) \<longrightarrow>
         uint (activations 0 tr ! i) + t32AW (tim small_config) \<le> uint (activations 0 tr ! (i + 32)))))"
  by (rule run_respects_windows [OF small_config_ok]; code_simp)

end
