(* ===== verification/Refresh_Policy.thy ===== *)
theory Refresh_Policy
  imports Timing_Safety
begin

text \<open>
  \<^verbatim>\<open>DRAMsim3/src/refresh.h\<close> and \<^verbatim>\<open>refresh.cc\<close>: the component that decides when a rank or a bank
  needs a refresh and puts the request into the channel's refresh queue.
\<close>

section \<open>State and operations\<close>

record Refresh =
  rf_clk :: u64
  refresh_interval :: int
  rf_policy :: RefreshPolicy
  next_rank :: int
  next_bg :: int
  next_bank :: int

definition Refresh_new :: "Config \<Rightarrow> Refresh res" where
  "Refresh_new cfg =
     bindE (if refresh_policy (sys cfg) = RANK_LEVEL_SIMULTANEOUS then Inr (tREFI (tim cfg))
            else if refresh_policy (sys cfg) = BANK_LEVEL_STAGGERED then Inr (tREFIb (tim cfg))
            else idiv (tREFI (tim cfg)) (ranks (dram cfg))) (\<lambda>iv.
     Inr \<lparr>rf_clk = 0, refresh_interval = iv, rf_policy = refresh_policy (sys cfg),
          next_rank = 0, next_bg = 0, next_bank = 0\<rparr>)"

text \<open>The operator \<^verbatim>\<open>%\<close> on operands that are not negative; a zero divisor traps.\<close>

definition imod :: "int \<Rightarrow> int \<Rightarrow> int res" where
  "imod a b = (if b = 0 then Inl DivByZero else Inr (a smod b))"

definition IterateNext :: "Config \<Rightarrow> Refresh \<Rightarrow> Refresh res" where
  "IterateNext cfg rf =
     (case rf_policy rf of
        RANK_LEVEL_STAGGERED \<Rightarrow>
          bindE (imod (next_rank rf + 1) (ranks (dram cfg))) (\<lambda>r. Inr (rf\<lparr>next_rank := r\<rparr>))
      | BANK_LEVEL_STAGGERED \<Rightarrow>
          bindE (imod (next_bg rf + 1) (bankgroups (dram cfg))) (\<lambda>g.
          let rf1 = rf\<lparr>next_bg := g\<rparr> in
          if g = 0 then
            bindE (imod (next_bank rf1 + 1) (banks_per_group (dram cfg))) (\<lambda>b.
            let rf2 = rf1\<lparr>next_bank := b\<rparr> in
            if b = 0 then
              bindE (imod (next_rank rf2 + 1) (ranks (dram cfg))) (\<lambda>r. Inr (rf2\<lparr>next_rank := r\<rparr>))
            else Inr rf2)
          else Inr rf1)
      | _ \<Rightarrow> Inl (AbruptExit ''refresh.cc'' 79))"

text \<open>The loop of the simultaneous policy, with its \<^verbatim>\<open>break\<close>.\<close>

fun simultaneous_loop :: "int list \<Rightarrow> ChannelState \<Rightarrow> ChannelState res" where
  "simultaneous_loop [] cs = Inr cs"
| "simultaneous_loop (i # is) cs =
     bindE (IsRankSelfRefreshing cs i) (\<lambda>sr.
     if \<not> sr then Inr (RankNeedRefresh cs i True) else simultaneous_loop is cs)"

definition InsertRefresh :: "Config \<Rightarrow> Refresh \<Rightarrow> ChannelState \<Rightarrow> (Refresh \<times> ChannelState) res" where
  "InsertRefresh cfg rf cs =
     (case rf_policy rf of
        RANK_LEVEL_SIMULTANEOUS \<Rightarrow>
          bindE (simultaneous_loop (int_range (ranks (dram cfg))) cs) (\<lambda>cs1. Inr (rf, cs1))
      | RANK_LEVEL_STAGGERED \<Rightarrow>
          bindE (IsRankSelfRefreshing cs (next_rank rf)) (\<lambda>sr.
          let cs1 = (if \<not> sr then RankNeedRefresh cs (next_rank rf) True else cs) in
          bindE (IterateNext cfg rf) (\<lambda>rf1. Inr (rf1, cs1)))
      | BANK_LEVEL_STAGGERED \<Rightarrow>
          bindE (IsRankSelfRefreshing cs (next_rank rf)) (\<lambda>sr.
          let cs1 = (if \<not> sr then BankNeedRefresh cs (next_rank rf) (next_bg rf) (next_bank rf) True
                     else cs) in
          bindE (IterateNext cfg rf) (\<lambda>rf1. Inr (rf1, cs1)))
      | REF_SIZE \<Rightarrow> Inl (AbruptExit ''refresh.cc'' 56))"

text \<open>\<^verbatim>\<open>clk_ % refresh_interval_\<close> converts the interval to \<^verbatim>\<open>uint64_t\<close>.\<close>

definition Refresh_ClockTick :: "Config \<Rightarrow> Refresh \<Rightarrow> ChannelState \<Rightarrow> (Refresh \<times> ChannelState) res" where
  "Refresh_ClockTick cfg rf cs =
     (let iv = (of_int (refresh_interval rf) :: u64) in
      if iv = 0 then Inl DivByZero
      else bindE (if rf_clk rf mod iv = 0 \<and> rf_clk rf > 0 then InsertRefresh cfg rf cs else Inr (rf, cs))
             (\<lambda>(rf1, cs1). Inr (rf1\<lparr>rf_clk := rf_clk rf1 + 1\<rparr>, cs1)))"

section \<open>Invariant\<close>

definition refresh_wf :: "Config \<Rightarrow> Refresh \<Rightarrow> bool" where
  "refresh_wf cfg rf =
     (rf_policy rf \<noteq> REF_SIZE \<and> 0 < refresh_interval rf \<and> refresh_interval rf < 2 ^ 31
      \<and> in_dims cfg (next_rank rf, next_bg rf, next_bank rf))"

lemma imod_pos: "0 \<le> a \<Longrightarrow> 0 < b \<Longrightarrow> imod a b = Inr (a mod b)"
  by (cases "a = 0") (simp_all add: imod_def signed_modulo_int_def)

lemma interval_pos: "refresh_wf cfg rf \<Longrightarrow> uint (of_int (refresh_interval rf) :: u64) = refresh_interval rf"
  by (simp add: refresh_wf_def uint_word_of_int take_bit_int_eq_self)

lemma IterateNext_wf:
  assumes "refresh_wf cfg rf" "rf_policy rf \<noteq> RANK_LEVEL_SIMULTANEOUS"
  shows "succeeds (IterateNext cfg rf) (\<lambda>rf'. refresh_wf cfg rf' \<and> rf_clk rf' = rf_clk rf
    \<and> rf_policy rf' = rf_policy rf \<and> refresh_interval rf' = refresh_interval rf)"
proof -
  have d: "0 \<le> next_rank rf" "0 \<le> next_bg rf" "0 \<le> next_bank rf"
    "0 < ranks (dram cfg)" "0 < bankgroups (dram cfg)" "0 < banks_per_group (dram cfg)"
    using assms(1) by (auto simp: refresh_wf_def in_dims_def)
  then show ?thesis
    using assms by (cases "rf_policy rf")
      (auto simp: IterateNext_def imod_pos refresh_wf_def in_dims_def Let_def)
qed

lemma bank_of_other_fields [simp]:
  "bank_of (cs\<lparr>refresh_q := q\<rparr>) = bank_of cs"
  "bank_of (cs\<lparr>rank_idle_cycles := l\<rparr>) = bank_of cs"
  by (simp_all add: bank_of_def fun_eq_iff)

lemma chan_wf_cong:
  assumes "chan_wf cfg cs" "chan_dims cfg cs'" "bank_of cs' = bank_of cs"
    "rank_is_sref cs' = rank_is_sref cs" "list_all (refresh_cmd_ok cfg) (refresh_q cs')"
  shows "chan_wf cfg cs'"
  using assms(1) unfolding chan_wf_def assms(3,4) using assms(2,5) by blast

lemma chan_wf_refresh_q:
  assumes "chan_wf cfg cs" "list_all (refresh_cmd_ok cfg) q"
  shows "chan_wf cfg (cs\<lparr>refresh_q := q\<rparr>)"
  using chan_wfD(1) [OF assms(1)] assms(2) by (intro chan_wf_cong [OF assms(1)]) (simp_all add: chan_dims_def)

lemma RankNeedRefresh_wf:
  assumes "chan_wf cfg cs" "0 \<le> r" "r < ranks (dram cfg)"
  shows "chan_wf cfg (RankNeedRefresh cs r True)"
  unfolding RankNeedRefresh_def if_P [OF TrueI]
  using chan_wfD(2) [OF assms(1)] assms(2,3)
  by (intro chan_wf_refresh_q [OF assms(1)])
    (simp add: refresh_cmd_ok_def cmd_in_dims_def command_kind_defs)

lemma BankNeedRefresh_wf:
  assumes "chan_wf cfg cs" "in_dims cfg (r, j, k)"
  shows "chan_wf cfg (BankNeedRefresh cs r j k True)"
  unfolding BankNeedRefresh_def if_P [OF TrueI]
  using chan_wfD(2) [OF assms(1)] assms(2)
  by (intro chan_wf_refresh_q [OF assms(1)])
    (simp add: refresh_cmd_ok_def cmd_in_dims_def command_kind_defs)

text \<open>The only part of the channel a refresh request changes is the queue of requests.\<close>

definition only_refresh_q :: "ChannelState \<Rightarrow> ChannelState \<Rightarrow> bool" where
  "only_refresh_q cs cs' = (cs' = cs\<lparr>refresh_q := refresh_q cs'\<rparr>)"

lemma only_refresh_q_simps:
  "only_refresh_q cs cs" "only_refresh_q cs (RankNeedRefresh cs r n)"
  "only_refresh_q cs (BankNeedRefresh cs r j k n)"
  by (simp_all add: only_refresh_q_def RankNeedRefresh_def BankNeedRefresh_def)

lemma only_refresh_qD:
  assumes "only_refresh_q cs cs'"
  shows "bank_of cs' = bank_of cs" "bank_states cs' = bank_states cs" "rank_is_sref cs' = rank_is_sref cs"
    "rank_idle_cycles cs' = rank_idle_cycles cs" "four_aw cs' = four_aw cs"
    "thirty_two_aw cs' = thirty_two_aw cs"
  by (subst assms [unfolded only_refresh_q_def], simp)+

lemma IsRankSelfRefreshing_in:
  assumes "chan_wf cfg cs" "0 \<le> r" "r < ranks (dram cfg)"
  shows "IsRankSelfRefreshing cs r = Inr (rank_is_sref cs ! nat r)"
  using chan_wfD(1) [OF assms(1)] assms(2,3)
  by (simp add: IsRankSelfRefreshing_def nth_res_def chan_dims_def)

lemma simultaneous_loop_wf:
  assumes "chan_wf cfg cs" "\<forall>i \<in> set is. 0 \<le> i \<and> i < ranks (dram cfg)"
  shows "succeeds (simultaneous_loop is cs) (\<lambda>cs'. chan_wf cfg cs' \<and> only_refresh_q cs cs')"
  using assms(2)
  by (induction "is")
    (auto simp: assms(1) IsRankSelfRefreshing_in [OF assms(1)] RankNeedRefresh_wf [OF assms(1)] only_refresh_q_simps)

lemma InsertRefresh_wf:
  assumes "chan_wf cfg cs" "refresh_wf cfg rf"
  shows "succeeds (InsertRefresh cfg rf cs) (\<lambda>(rf', cs'). chan_wf cfg cs' \<and> refresh_wf cfg rf'
    \<and> rf_clk rf' = rf_clk rf \<and> only_refresh_q cs cs')"
proof -
  have p: "in_dims cfg (next_rank rf, next_bg rf, next_bank rf)" "rf_policy rf \<noteq> REF_SIZE"
    using assms(2) by (simp_all add: refresh_wf_def)
  then have r: "0 \<le> next_rank rf" "next_rank rf < ranks (dram cfg)" by (auto simp: in_dims_def)
  have loop: "succeeds (simultaneous_loop (int_range (ranks (dram cfg))) cs)
      (\<lambda>cs'. chan_wf cfg cs' \<and> only_refresh_q cs cs')"
    by (rule simultaneous_loop_wf [OF assms(1)]) simp
  show ?thesis
    using loop IterateNext_wf [OF assms(2)] RankNeedRefresh_wf [OF assms(1) r] BankNeedRefresh_wf [OF assms(1) p(1)]
      IsRankSelfRefreshing_in [OF assms(1) r] p(2) assms
    by (cases "rf_policy rf") (auto simp: InsertRefresh_def succeeds_iff only_refresh_q_simps)
qed

lemma Refresh_ClockTick_wf:
  assumes "chan_wf cfg cs" "refresh_wf cfg rf"
  shows "succeeds (Refresh_ClockTick cfg rf cs) (\<lambda>(rf', cs'). chan_wf cfg cs' \<and> refresh_wf cfg rf'
    \<and> rf_clk rf' = rf_clk rf + 1 \<and> only_refresh_q cs cs')"
proof -
  have "(of_int (refresh_interval rf) :: u64) \<noteq> 0"
    using interval_pos [OF assms(2)] assms(2) unfolding refresh_wf_def by (metis less_irrefl uint_0_eq)
  then show ?thesis
    using InsertRefresh_wf [OF assms] assms
    by (auto simp: Refresh_ClockTick_def Let_def succeeds_iff refresh_wf_def only_refresh_q_simps)
qed

lemma Refresh_new_wf:
  assumes "geometry_ok cfg" "refresh_policy (sys cfg) \<noteq> REF_SIZE" "ranks (dram cfg) \<le> tREFI (tim cfg)"
    "tREFI (tim cfg) < 2 ^ 31" "0 < tREFIb (tim cfg)" "tREFIb (tim cfg) < 2 ^ 31"
  shows "succeeds (Refresh_new cfg) (\<lambda>rf. refresh_wf cfg rf \<and> rf_clk rf = 0)"
proof -
  have r: "0 < ranks (dram cfg)" "0 \<le> tREFI (tim cfg)" using assms(1,3) by (auto simp: geometry_ok_def)
  then have d: "tREFI (tim cfg) sdiv ranks (dram cfg) = tREFI (tim cfg) div ranks (dram cfg)"
    by (cases "tREFI (tim cfg) = 0") (simp_all add: signed_divide_int_def)
  have "0 < tREFI (tim cfg) div ranks (dram cfg)" using r assms(3) by (simp add: pos_imp_zdiv_pos_iff)
  moreover have "tREFI (tim cfg) div ranks (dram cfg) \<le> tREFI (tim cfg)"
    using zdiv_mono2 [of "tREFI (tim cfg)" 1 "ranks (dram cfg)"] r by simp
  ultimately show ?thesis
    using assms r d
    by (auto simp: Refresh_new_def refresh_wf_def in_dims_def geometry_ok_def idiv_def)
qed

section \<open>Which bank is refreshed when\<close>

fun iterate_next :: "Config \<Rightarrow> nat \<Rightarrow> Refresh \<Rightarrow> Refresh res" where
  "iterate_next cfg 0 rf = Inr rf"
| "iterate_next cfg (Suc n) rf = bindE (iterate_next cfg n rf) (IterateNext cfg)"

text \<open>The static order the source comments on: bank groups fastest, then banks, then ranks.\<close>

definition refresh_order :: "Config \<Rightarrow> nat \<Rightarrow> coord" where
  "refresh_order cfg n =
     (int n div (bankgroups (dram cfg) * banks_per_group (dram cfg)) mod ranks (dram cfg),
      int n mod bankgroups (dram cfg),
      int n div bankgroups (dram cfg) mod banks_per_group (dram cfg))"

lemma mod_succ: "0 < (m::int) \<Longrightarrow> 0 \<le> a \<Longrightarrow> (a mod m + 1) mod m = (a + 1) mod m"
  by (simp add: mod_add_left_eq)

lemma div_succ:
  assumes "0 < (m::int)" "0 \<le> a"
  shows "(a + 1) div m = (if (a + 1) mod m = 0 then a div m + 1 else a div m)"
proof (cases "(a + 1) mod m = 0")
  case True
  then obtain q where q: "a + 1 = m * q" by (auto elim: dvdE simp: mod_eq_0_iff_dvd)
  then have "a = m * (q - 1) + (m - 1)" by (simp add: algebra_simps)
  then have "a div m = q - 1" using assms(1) by (simp add: div_mult_self4 div_pos_pos_trivial)
  then show ?thesis using q True assms(1) by simp
next
  case False
  have "(a + 1) div m = a div m + (a mod m + 1) div m"
    using div_mult_mod_eq [of a m] by (metis add.assoc assms(1) div_mult_self3 less_irrefl)
  moreover have "a mod m + 1 < m"
  proof -
    have "a mod m + 1 \<noteq> m"
      using False mod_add_left_eq [of a m 1] by auto
    then show ?thesis using pos_mod_bound [OF assms(1), of a] by simp
  qed
  ultimately show ?thesis using False assms(1) by (simp add: div_pos_pos_trivial)
qed

lemma IterateNext_order:
  assumes "geometry_ok cfg" "rf_policy rf = BANK_LEVEL_STAGGERED"
    "(next_rank rf, next_bg rf, next_bank rf) = refresh_order cfg n"
  shows "succeeds (IterateNext cfg rf) (\<lambda>rf'. rf_policy rf' = BANK_LEVEL_STAGGERED
    \<and> (next_rank rf', next_bg rf', next_bank rf') = refresh_order cfg (Suc n))"
proof -
  let ?g = "bankgroups (dram cfg)" and ?b = "banks_per_group (dram cfg)" and ?r = "ranks (dram cfg)"
  have pos: "0 < ?g" "0 < ?b" "0 < ?r" using assms(1) by (auto simp: geometry_ok_def)
  have nx: "next_rank rf = int n div (?g * ?b) mod ?r" "next_bg rf = int n mod ?g"
    "next_bank rf = int n div ?g mod ?b"
    using assms(3) by (simp_all add: refresh_order_def)
  have gb: "x div (?g * ?b) = x div ?g div ?b" for x using pos by (simp add: zdiv_zmult2_eq)
  have nn: "0 \<le> int n div ?g" "0 \<le> int n div ?g div ?b" using pos by (simp_all add: pos_imp_zdiv_nonneg_iff)
  have g: "imod (next_bg rf + 1) ?g = Inr ((int n + 1) mod ?g)"
    using pos by (simp add: nx imod_pos mod_succ)
  have b: "imod (next_bank rf + 1) ?b = Inr ((int n div ?g + 1) mod ?b)"
    using pos nn by (simp add: nx imod_pos mod_succ)
  have r: "imod (next_rank rf + 1) ?r = Inr ((int n div ?g div ?b + 1) mod ?r)"
    using pos nn by (simp add: nx gb imod_pos mod_succ)
  have ord: "refresh_order cfg (Suc n) = ((int n + 1) div ?g div ?b mod ?r, (int n + 1) mod ?g,
      (int n + 1) div ?g mod ?b)"
    by (simp add: refresh_order_def gb add.commute)
  note dv = div_succ [OF pos(1), of "int n"] div_succ [OF pos(2) nn(1)]
  have "IterateNext cfg rf = Inr (if (int n + 1) mod ?g = 0 then
      (if (int n div ?g + 1) mod ?b = 0
       then rf\<lparr>next_bg := 0, next_bank := 0, next_rank := (int n div ?g div ?b + 1) mod ?r\<rparr>
       else rf\<lparr>next_bg := 0, next_bank := (int n div ?g + 1) mod ?b\<rparr>)
      else rf\<lparr>next_bg := (int n + 1) mod ?g\<rparr>)"
    using assms(2) by (simp add: IterateNext_def g b r Let_def)
  then show ?thesis
    using assms(2) dv by (auto simp: ord nx gb)
qed

lemma iterate_next_order:
  assumes "geometry_ok cfg" "rf_policy rf = BANK_LEVEL_STAGGERED"
    "(next_rank rf, next_bg rf, next_bank rf) = (0, 0, 0)"
  shows "succeeds (iterate_next cfg n rf) (\<lambda>rf'. rf_policy rf' = BANK_LEVEL_STAGGERED
    \<and> (next_rank rf', next_bg rf', next_bank rf') = refresh_order cfg n)"
proof (induction n)
  case 0
  show ?case using assms by (simp add: refresh_order_def)
next
  case (Suc n)
  show ?case
    unfolding iterate_next.simps
    by (rule succeeds_bind [OF Suc]) (use IterateNext_order [OF assms(1)] in auto)
qed

text \<open>Within one round every bank occurs exactly once in the order.\<close>

lemma refresh_order_once:
  assumes "geometry_ok cfg" "in_dims cfg p"
  shows "\<exists>!n. int n < ranks (dram cfg) * (bankgroups (dram cfg) * banks_per_group (dram cfg))
    \<and> refresh_order cfg n = p"
proof -
  let ?g = "bankgroups (dram cfg)" and ?b = "banks_per_group (dram cfg)" and ?r = "ranks (dram cfg)"
  obtain r j k where p: "p = (r, j, k)" by (cases p)
  have d: "0 \<le> r" "r < ?r" "0 \<le> j" "j < ?g" "0 \<le> k" "k < ?b" using assms(2) by (auto simp: p in_dims_def)
  define N where "N = j + ?g * (k + ?b * r)"
  have N0: "0 \<le> N" using d by (simp add: N_def)
  have kr: "(k + ?b * r) mod ?b = k" "(k + ?b * r) div ?b = r" using d by simp_all
  have Ng: "N mod ?g = j" "N div ?g = k + ?b * r" using d by (simp_all add: N_def)
  have "k + ?b * r < ?b * ?r"
    using d mult_left_mono [of "r + 1" ?r ?b] by (simp add: algebra_simps)
  then have "?g * (k + ?b * r + 1) \<le> ?g * (?b * ?r)" using d by (intro mult_left_mono) auto
  then have Nlt: "N < ?r * (?g * ?b)" using d unfolding N_def by (simp add: algebra_simps)
  have ord: "refresh_order cfg (nat N) = p"
    using N0 Ng kr d by (simp add: refresh_order_def p zdiv_zmult2_eq)
  show ?thesis
  proof (rule ex1I [of _ "nat N"])
    fix n assume n: "int n < ?r * (?g * ?b) \<and> refresh_order cfg n = p"
    then have e: "int n mod ?g = j" "int n div ?g mod ?b = k" "int n div (?g * ?b) mod ?r = r"
      by (auto simp: refresh_order_def p)
    have gb: "0 < ?g * ?b" using d by simp
    have "int n div (?g * ?b) < ?r"
    proof (rule ccontr)
      assume "\<not> int n div (?g * ?b) < ?r"
      then have "?r * (?g * ?b) \<le> int n div (?g * ?b) * (?g * ?b)" using d by (intro mult_right_mono) auto
      also have "\<dots> \<le> int n"
        using div_mult_mod_eq [of "int n" "?g * ?b"] pos_mod_sign [OF gb, of "int n"] by linarith
      finally show False using n by simp
    qed
    then have "int n div (?g * ?b) = r"
      using e(3) d by (simp add: pos_imp_zdiv_nonneg_iff)
    then have "int n div ?g div ?b = r" using d by (simp add: zdiv_zmult2_eq)
    then have "int n div ?g = k + ?b * r" using e(2) div_mult_mod_eq [of "int n div ?g" ?b] by (simp add: algebra_simps)
    then have "int n = N" using e(1) div_mult_mod_eq [of "int n" ?g] by (simp add: N_def algebra_simps)
    then show "n = nat N" by simp
  qed (use N0 Nlt ord in auto)
qed

section \<open>How many requests\<close>

fun refresh_run :: "Config \<Rightarrow> nat \<Rightarrow> Refresh \<times> ChannelState \<Rightarrow> (Refresh \<times> ChannelState) res" where
  "refresh_run cfg 0 s = Inr s"
| "refresh_run cfg (Suc n) s = bindE (refresh_run cfg n s) (\<lambda>(rf, cs). Refresh_ClockTick cfg rf cs)"

lemma awake_not_refreshing:
  assumes "awake cs" "chan_wf cfg cs" "0 \<le> r" "r < ranks (dram cfg)"
  shows "IsRankSelfRefreshing cs r = Inr False"
  using awake_nth [OF assms(1) chan_wfD(1) [OF assms(2)] assms(3,4)] IsRankSelfRefreshing_in [OF assms(2-4)]
  by simp

lemma InsertRefresh_one:
  assumes "chan_wf cfg cs" "refresh_wf cfg rf" "awake cs" "InsertRefresh cfg rf cs = Inr (rf', cs')"
  shows "length (refresh_q cs') = Suc (length (refresh_q cs))"
proof -
  have r: "0 \<le> next_rank rf" "next_rank rf < ranks (dram cfg)" "rf_policy rf \<noteq> REF_SIZE"
    using assms(2) by (auto simp: refresh_wf_def in_dims_def)
  have "int_range (ranks (dram cfg)) = 0 # map int [1..<nat (ranks (dram cfg))]"
    using r by (simp add: int_range_def upt_conv_Cons)
  then show ?thesis
    using assms(4) r awake_not_refreshing [OF assms(3,1)]
    by (cases "rf_policy rf")
      (auto simp: InsertRefresh_def res_simps RankNeedRefresh_def BankNeedRefresh_def)
qed

lemma IterateNext_interval:
  "IterateNext cfg rf = Inr rf' \<Longrightarrow> refresh_interval rf' = refresh_interval rf"
  by (cases "rf_policy rf") (auto simp: IterateNext_def Let_def res_simps split: if_splits)

lemma InsertRefresh_interval:
  "InsertRefresh cfg rf cs = Inr (rf', cs') \<Longrightarrow> refresh_interval rf' = refresh_interval rf"
  by (cases "rf_policy rf")
    (auto simp: InsertRefresh_def Let_def dest: IterateNext_interval elim!: bindE_InrE)

lemma refresh_run_count:
  assumes "chan_wf cfg cs" "refresh_wf cfg rf" "awake cs" "refresh_q cs = []" "rf_clk rf = 0"
    "int n < 2 ^ 64"
  shows "succeeds (refresh_run cfg n (rf, cs)) (\<lambda>(rf', cs'). chan_wf cfg cs' \<and> refresh_wf cfg rf'
    \<and> awake cs' \<and> uint (rf_clk rf') = int n \<and> refresh_interval rf' = refresh_interval rf
    \<and> int (length (refresh_q cs')) = (if n = 0 then 0 else (int n - 1) div refresh_interval rf))"
  using assms(6)
proof (induction n)
  case 0
  then show ?case using assms by simp
next
  case (Suc n)
  let ?iv = "refresh_interval rf"
  obtain rf1 cs1 where 1: "refresh_run cfg n (rf, cs) = Inr (rf1, cs1)" "chan_wf cfg cs1" "refresh_wf cfg rf1"
    "awake cs1" "uint (rf_clk rf1) = int n" "refresh_interval rf1 = ?iv"
    "int (length (refresh_q cs1)) = (if n = 0 then 0 else (int n - 1) div ?iv)"
    using Suc by (auto simp: succeeds_iff)
  obtain rf2 cs2 where 2: "Refresh_ClockTick cfg rf1 cs1 = Inr (rf2, cs2)" "chan_wf cfg cs2" "refresh_wf cfg rf2"
    "rf_clk rf2 = rf_clk rf1 + 1" "only_refresh_q cs1 cs2"
    using Refresh_ClockTick_wf [OF 1(2,3)] by (auto simp: succeeds_iff)
  have iv: "0 < ?iv" "uint (of_int ?iv :: u64) = ?iv"
    using interval_pos [OF 1(3)] 1(3) by (auto simp: 1(6) refresh_wf_def)
  have clk: "uint (rf_clk rf2) = int (Suc n)"
    using Suc.prems by (simp add: 2(4) uint_word_ariths 1(5))
  have due: "rf_clk rf1 mod of_int ?iv = 0 \<and> rf_clk rf1 > 0 \<longleftrightarrow> 0 < n \<and> int n mod ?iv = 0"
  proof -
    have "rf_clk rf1 mod of_int ?iv = 0 \<longleftrightarrow> uint (rf_clk rf1 mod of_int ?iv) = 0"
      by (rule uint_0_iff [symmetric])
    also have "\<dots> \<longleftrightarrow> int n mod ?iv = 0" by (simp only: uint_mod 1(5) iv(2))
    finally have "rf_clk rf1 mod of_int ?iv = 0 \<longleftrightarrow> int n mod ?iv = 0" .
    moreover have "rf_clk rf1 > 0 \<longleftrightarrow> 0 < n" using 1(5) by (simp add: word_less_def)
    ultimately show ?thesis by auto
  qed
  have len: "length (refresh_q cs2) = (if 0 < n \<and> int n mod ?iv = 0 then Suc (length (refresh_q cs1))
      else length (refresh_q cs1))"
    using 2(1) InsertRefresh_one [OF 1(2,3,4)]
    by (auto simp: Refresh_ClockTick_def Let_def res_simps 1(6) due split: if_splits)
  have ivk: "refresh_interval rf2 = ?iv"
    using 2(1) InsertRefresh_interval by (fastforce simp: Refresh_ClockTick_def Let_def res_simps 1(6) split: if_splits)
  have "awake cs2" using 1(4) by (simp add: awake_def only_refresh_qD [OF 2(5)])
  moreover have "int (length (refresh_q cs2)) = int n div ?iv"
  proof (cases n)
    case 0
    then show ?thesis using 1(7) len by simp
  next
    case (Suc m)
    then have "int (length (refresh_q cs2)) = (if int n mod ?iv = 0 then (int n - 1) div ?iv + 1 else (int n - 1) div ?iv)"
      using len 1(7) by simp
    also have "\<dots> = int n div ?iv" using div_succ [OF iv(1), of "int m"] Suc by (simp add: add.commute)
    finally show ?thesis .
  qed
  ultimately show ?case using 1(1) 2(1-3) clk ivk by simp
qed

section \<open>Properties\<close>

text \<open>
  Claim C20. The staggered per-bank policy refreshes every bank exactly once per round: the
  \<open>n\<close>-th request after the start goes to the bank at position \<open>n\<close> of the mixed-radix order with the
  bank group running fastest, and in \<^verbatim>\<open>ranks * bankgroups * banks_per_group\<close> consecutive requests each
  bank of the channel occurs exactly once.
\<close>

theorem bank_staggered_round:
  assumes "geometry_ok cfg" "in_dims cfg p" "rf_policy rf = BANK_LEVEL_STAGGERED"
    and "next_rank rf = 0" "next_bg rf = 0" "next_bank rf = 0"
  shows "\<exists>!n. int n < ranks (dram cfg) * (bankgroups (dram cfg) * banks_per_group (dram cfg))
    \<and> succeeds (iterate_next cfg n rf) (\<lambda>rf'. (next_rank rf', next_bg rf', next_bank rf') = p)"
proof -
  have start: "(next_rank rf, next_bg rf, next_bank rf) = (0, 0, 0)" using assms(4-6) by simp
  have "succeeds (iterate_next cfg n rf) (\<lambda>rf'. (next_rank rf', next_bg rf', next_bank rf') = p)
      \<longleftrightarrow> refresh_order cfg n = p" for n
    using iterate_next_order [OF assms(1,3) start, of n] by (auto simp: succeeds_iff)
  then show ?thesis using refresh_order_once [OF assms(1,2)] by simp
qed

definition bank_staggered :: Refresh where
  "bank_staggered = \<lparr>rf_clk = 0, refresh_interval = 1950, rf_policy = BANK_LEVEL_STAGGERED,
     next_rank = 0, next_bg = 0, next_bank = 0\<rparr>"

theorem bank_staggered_round_witness:
  "\<exists>!n. int n < 2 * (2 * 2)
    \<and> succeeds (iterate_next small_config n bank_staggered) (\<lambda>rf'. (next_rank rf', next_bg rf', next_bank rf') = (1, 0, 1))"
  using bank_staggered_round [of small_config "(1, 0, 1)" bank_staggered] small_config_ok
  by (simp add: config_ok_def bank_staggered_def small_config_def lpddr5_config_def in_dims_def)

text \<open>
  Claim C21. Under both staggered policies refreshes are requested at the configured rate: after \<open>n\<close> clock
  ticks from a fresh start, with no rank in self refresh and no request served yet, the refresh
  queue holds exactly \<^verbatim>\<open>(n - 1) / refresh_interval_\<close> requests, one per elapsed interval, all of them well formed,
  and no tick aborts.
\<close>

theorem refresh_rate:
  assumes "chan_wf cfg cs" "refresh_wf cfg rf" "awake cs" "refresh_q cs = []" "rf_clk rf = 0"
    and "0 < n" "int n < 2 ^ 64" "rf_policy rf \<in> {RANK_LEVEL_STAGGERED, BANK_LEVEL_STAGGERED}"
  shows "succeeds (refresh_run cfg n (rf, cs)) (\<lambda>(rf', cs'). chan_wf cfg cs'
    \<and> int (length (refresh_q cs')) = (int n - 1) div refresh_interval rf)"
  using refresh_run_count [OF assms(1-5,7)] assms(6) by (auto elim!: succeeds_mono)

theorem refresh_rate_witness:
  "succeeds (refresh_run small_config 5000 (bank_staggered, ChannelState_new small_config)) (\<lambda>(rf', cs').
    chan_wf small_config cs' \<and> int (length (refresh_q cs')) = (int 5000 - 1) div refresh_interval bank_staggered)"
  by (rule refresh_rate [OF chan_wf_new])
    (use small_config_ok in \<open>auto simp: config_ok_def refresh_wf_def bank_staggered_def in_dims_def small_config_def
       lpddr5_config_def awake_def ChannelState_new_def Let_def\<close>)

text \<open>
  The policy called simultaneous does not refresh the ranks simultaneously: its loop
  leaves at the first rank that is not in self refresh, so with all ranks awake each interval
  requests a refresh of rank 0 only.
\<close>

theorem simultaneous_refreshes_rank_zero:
  assumes "chan_wf cfg cs" "geometry_ok cfg" "awake cs" "rf_policy rf = RANK_LEVEL_SIMULTANEOUS"
  shows "InsertRefresh cfg rf cs = Inr (rf, RankNeedRefresh cs 0 True)"
proof -
  have "0 < ranks (dram cfg)" using assms(2) by (simp add: geometry_ok_def)
  then have "int_range (ranks (dram cfg)) = 0 # map int [1..<nat (ranks (dram cfg))]"
    by (simp add: int_range_def upt_conv_Cons)
  then show ?thesis
    using awake_not_refreshing [OF assms(3,1), of 0] \<open>0 < ranks (dram cfg)\<close>
    by (simp add: InsertRefresh_def assms(4))
qed

theorem simultaneous_refreshes_rank_zero_witness:
  "InsertRefresh small_config (bank_staggered\<lparr>rf_policy := RANK_LEVEL_SIMULTANEOUS\<rparr>) (ChannelState_new small_config)
     = Inr (bank_staggered\<lparr>rf_policy := RANK_LEVEL_SIMULTANEOUS\<rparr>, RankNeedRefresh (ChannelState_new small_config) 0 True)"
  by (rule simultaneous_refreshes_rank_zero [OF chan_wf_new])
    (use small_config_ok in \<open>auto simp: config_ok_def awake_def ChannelState_new_def Let_def\<close>)

end
