(* ===== verification/Simple_Stats.thy ===== *)
theory Simple_Stats
  imports Dram_Config
begin

text \<open>
  \<^verbatim>\<open>DRAMsim3/src/simple_stats.h\<close> and \<^verbatim>\<open>simple_stats.cc\<close>: the counters, per-rank counters and
  histograms of a channel, with their epoch and overall copies.  Maps from names whose missing
  entries read as zero are total functions; the counts of a histogram are association lists.
  Energies, averages (floating point) and the text and JSON output are not modelled.
\<close>

section \<open>State\<close>

type_synonym histo_count = "(int \<times> u64) list"

record SimpleStats =
  counters :: "string \<Rightarrow> u64"
  epoch_counters :: "string \<Rightarrow> u64"
  vec_counters :: "string \<Rightarrow> u64 list"
  epoch_vec_counters :: "string \<Rightarrow> u64 list"
  histo_names :: "string list"
  histo_bounds :: "string \<Rightarrow> int \<times> int"
  bin_widths :: "string \<Rightarrow> int"
  histo_counts :: "string \<Rightarrow> histo_count"
  epoch_histo_counts :: "string \<Rightarrow> histo_count"
  histo_bins :: "string \<Rightarrow> u64 list"
  epoch_histo_bins :: "string \<Rightarrow> u64 list"

section \<open>Initialisation\<close>

definition InitVecStat :: "string \<Rightarrow> int \<Rightarrow> SimpleStats \<Rightarrow> SimpleStats" where
  "InitVecStat name vec_len st =
     st\<lparr>vec_counters := (vec_counters st)(name := replicate (nat vec_len) 0),
        epoch_vec_counters := (epoch_vec_counters st)(name := replicate (nat vec_len) 0)\<rparr>"

definition InitHistoStat :: "string \<Rightarrow> int \<Rightarrow> int \<Rightarrow> int \<Rightarrow> SimpleStats \<Rightarrow> SimpleStats res" where
  "InitHistoStat name start_val end_val num_bins st =
     bindE (idiv (end_val - start_val) num_bins) (\<lambda>bin_width.
     Inr (st\<lparr>histo_names := histo_names st @ [name],
        bin_widths := (bin_widths st)(name := bin_width),
        histo_bounds := (histo_bounds st)(name := (start_val, end_val)),
        histo_counts := (histo_counts st)(name := []),
        epoch_histo_counts := (epoch_histo_counts st)(name := []),
        histo_bins := (histo_bins st)(name := replicate (nat (num_bins + 2)) 0),
        epoch_histo_bins := (epoch_histo_bins st)(name := replicate (nat (num_bins + 2)) 0)\<rparr>))"

definition SimpleStats_empty :: SimpleStats where
  "SimpleStats_empty = \<lparr>counters = (\<lambda>n. 0), epoch_counters = (\<lambda>n. 0), vec_counters = (\<lambda>n. []),
     epoch_vec_counters = (\<lambda>n. []), histo_names = [], histo_bounds = (\<lambda>n. (0, 0)),
     bin_widths = (\<lambda>n. 0), histo_counts = (\<lambda>n. []), epoch_histo_counts = (\<lambda>n. []),
     histo_bins = (\<lambda>n. []), epoch_histo_bins = (\<lambda>n. [])\<rparr>"

text \<open>The scalar counters start at zero whether or not they are registered.\<close>

definition SimpleStats_new :: "Config \<Rightarrow> SimpleStats res" where
  "SimpleStats_new cfg =
     (let r = ranks (dram cfg);
          st = InitVecStat ''sref_cycles'' r (InitVecStat ''rank_active_cycles'' r
                 (InitVecStat ''all_bank_idle_cycles'' r SimpleStats_empty))
      in bindE (InitHistoStat ''read_latency'' 0 200 10 st) (\<lambda>st1.
         bindE (InitHistoStat ''write_latency'' 0 200 10 st1)
           (InitHistoStat ''interarrival_latency'' 0 100 10)))"

section \<open>Recording\<close>

definition Increment :: "string \<Rightarrow> SimpleStats \<Rightarrow> SimpleStats" where
  "Increment name st = st\<lparr>epoch_counters := (epoch_counters st)(name := epoch_counters st name + 1)\<rparr>"

definition IncrementVecBy :: "string \<Rightarrow> int \<Rightarrow> int \<Rightarrow> SimpleStats \<Rightarrow> SimpleStats res" where
  "IncrementVecBy name pos num st =
     bindE (nth_res (epoch_vec_counters st name) pos) (\<lambda>x.
     bindE (upd_res (epoch_vec_counters st name) pos (x + of_int num)) (\<lambda>v.
     Inr (st\<lparr>epoch_vec_counters := (epoch_vec_counters st)(name := v)\<rparr>)))"

definition IncrementVec :: "string \<Rightarrow> int \<Rightarrow> SimpleStats \<Rightarrow> SimpleStats res" where
  "IncrementVec name pos st =
     bindE (nth_res (epoch_vec_counters st name) pos) (\<lambda>x.
     bindE (upd_res (epoch_vec_counters st name) pos (x + 1)) (\<lambda>v.
     Inr (st\<lparr>epoch_vec_counters := (epoch_vec_counters st)(name := v)\<rparr>)))"

text \<open>\<^verbatim>\<open>counts[value] += n\<close>, entering the value when it is not there.\<close>

fun add_count :: "int \<Rightarrow> u64 \<Rightarrow> histo_count \<Rightarrow> histo_count" where
  "add_count value n [] = [(value, n)]"
| "add_count value n ((v, c) # cs) =
     (if v = value then (v, c + n) # cs else (v, c) # add_count value n cs)"

definition AddValue :: "string \<Rightarrow> int \<Rightarrow> SimpleStats \<Rightarrow> SimpleStats" where
  "AddValue name value st =
     st\<lparr>epoch_histo_counts :=
          (epoch_histo_counts st)(name := add_count value 1 (epoch_histo_counts st name))\<rparr>"

section \<open>Epochs\<close>

definition UpdateCounters :: "SimpleStats \<Rightarrow> SimpleStats" where
  "UpdateCounters st =
     st\<lparr>counters := (\<lambda>n. counters st n + epoch_counters st n),
        vec_counters := (\<lambda>n. map2 (+) (vec_counters st n) (epoch_vec_counters st n))\<rparr>"

definition bin_index :: "int \<times> int \<Rightarrow> int \<Rightarrow> nat \<Rightarrow> int \<Rightarrow> int res" where
  "bin_index bounds width nbins value =
     (if value < fst bounds then Inr 0
      else if value > snd bounds then Inr (int nbins - 1)
      else bindE (idiv (value - fst bounds) width) (\<lambda>q. Inr (q + 1)))"

definition fill_bins :: "int \<times> int \<Rightarrow> int \<Rightarrow> histo_count \<Rightarrow> u64 list \<Rightarrow> u64 list res" where
  "fill_bins bounds width counts bins =
     fold_res (\<lambda>(value, cnt) bs.
       bindE (bin_index bounds width (length bs) value) (\<lambda>idx.
       bindE (nth_res bs idx) (\<lambda>x. upd_res bs idx (x + cnt))))
       counts (replicate (length bins) 0)"

definition update_epoch_bins :: "string \<Rightarrow> SimpleStats \<Rightarrow> SimpleStats res" where
  "update_epoch_bins name st =
     bindE (fill_bins (histo_bounds st name) (bin_widths st name) (epoch_histo_counts st name)
              (epoch_histo_bins st name)) (\<lambda>bs.
     Inr (st\<lparr>epoch_histo_bins := (epoch_histo_bins st)(name := bs)\<rparr>))"

definition update_final_bins :: "string \<Rightarrow> SimpleStats \<Rightarrow> SimpleStats" where
  "update_final_bins name st =
     st\<lparr>histo_counts := (histo_counts st)(name :=
          fold (\<lambda>(v, c). add_count v c) (epoch_histo_counts st name) (histo_counts st name)),
        histo_bins := (histo_bins st)(name := map2 (+) (histo_bins st name) (epoch_histo_bins st name))\<rparr>"

definition UpdateHistoBins :: "SimpleStats \<Rightarrow> SimpleStats res" where
  "UpdateHistoBins st =
     bindE (fold_res update_epoch_bins (histo_names st) st) (\<lambda>st1.
     Inr (fold update_final_bins (histo_names st) st1))"

definition clear_epoch :: "SimpleStats \<Rightarrow> SimpleStats" where
  "clear_epoch st =
     st\<lparr>epoch_counters := (\<lambda>n. 0),
        epoch_vec_counters := (\<lambda>n. replicate (length (epoch_vec_counters st n)) 0),
        epoch_histo_counts := (\<lambda>n. [])\<rparr>"

definition UpdateEpochStats :: "SimpleStats \<Rightarrow> SimpleStats res" where
  "UpdateEpochStats st = bindE (UpdateHistoBins (UpdateCounters st)) (\<lambda>st1. Inr (clear_epoch st1))"

definition UpdateFinalStats :: "SimpleStats \<Rightarrow> SimpleStats res" where
  "UpdateFinalStats st = UpdateHistoBins (UpdateCounters st)"

text \<open>The two reports, without the text they write.\<close>

definition SimpleStats_PrintEpochStats :: "SimpleStats \<Rightarrow> SimpleStats res" where
  "SimpleStats_PrintEpochStats st = UpdateEpochStats st"

definition SimpleStats_PrintFinalStats :: "SimpleStats \<Rightarrow> SimpleStats res" where
  "SimpleStats_PrintFinalStats st = UpdateFinalStats st"

definition SimpleStats_Reset :: "SimpleStats \<Rightarrow> SimpleStats" where
  "SimpleStats_Reset st =
     (clear_epoch st)\<lparr>counters := (\<lambda>n. 0),
        vec_counters := (\<lambda>n. replicate (length (vec_counters st n)) 0),
        histo_counts := (\<lambda>n. [])\<rparr>"

section \<open>Invariant\<close>

text \<open>The per-rank counters have one entry per rank; the epoch and overall copies agree in shape.\<close>

definition histo_ok :: "SimpleStats \<Rightarrow> string \<Rightarrow> bool" where
  "histo_ok st n =
     (0 < bin_widths st n \<and> fst (histo_bounds st n) \<le> snd (histo_bounds st n)
      \<and> (snd (histo_bounds st n) - fst (histo_bounds st n)) div bin_widths st n + 2
          \<le> int (length (epoch_histo_bins st n))
      \<and> length (histo_bins st n) = length (epoch_histo_bins st n))"

definition stats_wf :: "Config \<Rightarrow> SimpleStats \<Rightarrow> bool" where
  "stats_wf cfg st =
     ((\<forall>n \<in> {''all_bank_idle_cycles'', ''rank_active_cycles'', ''sref_cycles''}.
         int (length (epoch_vec_counters st n)) = ranks (dram cfg))
      \<and> (\<forall>n. length (vec_counters st n) = length (epoch_vec_counters st n))
      \<and> distinct (histo_names st) \<and> (\<forall>n \<in> set (histo_names st). histo_ok st n))"

lemma SimpleStats_new_wf:
  "0 \<le> ranks (dram cfg) \<Longrightarrow> succeeds (SimpleStats_new cfg) (stats_wf cfg)"
  by (simp add: SimpleStats_new_def Let_def InitHistoStat_def InitVecStat_def SimpleStats_empty_def
      idiv_def stats_wf_def histo_ok_def)

lemma stats_wf_Increment [simp]: "stats_wf cfg (Increment n st) = stats_wf cfg st"
  by (simp add: stats_wf_def Increment_def histo_ok_def)

lemma stats_wf_AddValue [simp]: "stats_wf cfg (AddValue n v st) = stats_wf cfg st"
  by (simp add: stats_wf_def AddValue_def histo_ok_def)

lemma IncrementVec_ok:
  assumes "stats_wf cfg st" "0 \<le> i" "i < ranks (dram cfg)"
    "name \<in> {''all_bank_idle_cycles'', ''rank_active_cycles'', ''sref_cycles''}"
  shows "succeeds (IncrementVec name i st) (stats_wf cfg)"
proof -
  have "int (length (epoch_vec_counters st name)) = ranks (dram cfg)"
    using assms(1,4) by (auto simp: stats_wf_def)
  then show ?thesis
    using assms by (simp add: IncrementVec_def nth_res_def upd_res_def stats_wf_def histo_ok_def)
qed

section \<open>Histograms\<close>

lemma div_pos_geq_iff_bounds:
  assumes "0 < (w::int)"
  shows "x div w = q \<longleftrightarrow> q * w \<le> x \<and> x < (q + 1) * w"
proof
  assume q: "x div w = q"
  have "x = q * w + x mod w" using div_mult_mod_eq [of x w] q by simp
  moreover have "0 \<le> x mod w" "x mod w < w" using assms by simp_all
  moreover have "(q + 1) * w = q * w + w" by (simp add: algebra_simps)
  ultimately show "q * w \<le> x \<and> x < (q + 1) * w" by linarith
next
  assume "q * w \<le> x \<and> x < (q + 1) * w"
  then have "0 \<le> x - q * w" "x - q * w < w" by (simp_all add: algebra_simps)
  then have "(x - q * w) div w = 0" by simp
  moreover have "(x - q * w + q * w) div w = q + (x - q * w) div w" using assms by (intro div_mult_self1) simp
  ultimately show "x div w = q" by simp
qed

lemma bin_index_in_range:
  assumes "0 < w" "fst bd \<le> snd bd" "(snd bd - fst bd) div w + 2 \<le> int n"
  shows "\<exists>i. bin_index bd w n v = Inr i \<and> 0 \<le> i \<and> i < int n"
proof -
  have nn: "0 \<le> (snd bd - fst bd) div w" using assms by (simp add: pos_imp_zdiv_nonneg_iff)
  consider "v < fst bd" | "v > snd bd" | "fst bd \<le> v" "v \<le> snd bd" by linarith
  then show ?thesis
  proof cases
    case 3
    have "(v - fst bd) div w \<le> (snd bd - fst bd) div w" using 3 assms(1) by (intro zdiv_mono1) auto
    moreover have "0 \<le> (v - fst bd) div w" using 3 assms(1) by (simp add: pos_imp_zdiv_nonneg_iff)
    moreover have "(v - fst bd) sdiv w = (v - fst bd) div w"
      using 3 assms(1) by (cases "v = fst bd") (simp_all add: signed_divide_int_def)
    ultimately show ?thesis
      using 3 assms by (simp add: bin_index_def idiv_def)
  qed (use assms nn in \<open>auto simp: bin_index_def\<close>)
qed

text \<open>
  The values of a bin: the first one takes what lies below the bounds, the last one what lies above, and bin \<open>i\<close> the \<open>i\<close>-th
  interval of the bin width.
\<close>

definition in_bin :: "int \<times> int \<Rightarrow> int \<Rightarrow> nat \<Rightarrow> nat \<Rightarrow> int \<Rightarrow> bool" where
  "in_bin bd w n i v =
     (if v < fst bd then i = 0
      else if snd bd < v then i = n - 1
      else fst bd + (int i - 1) * w \<le> v \<and> v < fst bd + int i * w)"

lemma bin_index_in_bin:
  assumes "0 < w" "fst bd \<le> snd bd" "(snd bd - fst bd) div w + 2 \<le> int n" "bin_index bd w n v = Inr i"
  shows "in_bin bd w n j v \<longleftrightarrow> j = nat i"
proof -
  have nn: "0 \<le> (snd bd - fst bd) div w" using assms by (simp add: pos_imp_zdiv_nonneg_iff)
  consider "v < fst bd" | "v > snd bd" "fst bd \<le> v" | "fst bd \<le> v" "v \<le> snd bd" by linarith
  then show ?thesis
  proof cases
    case 3
    have d: "(v - fst bd) sdiv w = (v - fst bd) div w"
      using 3 assms(1) by (cases "v = fst bd") (simp_all add: signed_divide_int_def)
    have i: "i = (v - fst bd) div w + 1" using assms(1,4) 3 d by (simp add: bin_index_def idiv_def)
    have "0 \<le> (v - fst bd) div w" using 3 assms(1) by (simp add: pos_imp_zdiv_nonneg_iff)
    moreover have "fst bd + (int j - 1) * w \<le> v \<and> v < fst bd + int j * w \<longleftrightarrow> (v - fst bd) div w = int j - 1"
      using div_pos_geq_iff_bounds [OF assms(1), of "v - fst bd" "int j - 1"] by (auto simp: algebra_simps)
    ultimately show ?thesis using 3 i by (auto simp: in_bin_def)
  qed (use assms nn in \<open>auto simp: bin_index_def in_bin_def\<close>)
qed

text \<open>How often the values with a property were recorded.\<close>

definition recorded :: "(int \<Rightarrow> bool) \<Rightarrow> histo_count \<Rightarrow> u64" where
  "recorded P counts = (\<Sum>(v, c) \<leftarrow> counts. if P v then c else 0)"

lemma recorded_simps [simp]:
  "recorded P [] = 0" "recorded P ((v, c) # cs) = (if P v then c else 0) + recorded P cs"
  by (simp_all add: recorded_def)

lemma recorded_add_count: "recorded P (add_count v n cs) = recorded P cs + (if P v then n else 0)"
  by (induction v n cs rule: add_count.induct) (simp_all add: algebra_simps)

lemma recorded_fold_add: "recorded P (fold (\<lambda>(v, c). add_count v c) xs cs) = recorded P cs + recorded P xs"
  by (induction xs arbitrary: cs) (auto simp: recorded_add_count)

lemma recorded_all: "recorded (\<lambda>v. True) cs = sum_list (map snd cs)"
  by (induction cs) auto

lemma sum_list_update_add: "i < length xs \<Longrightarrow> sum_list (xs[i := xs ! i + (c::u64)]) = sum_list xs + c"
proof (induction xs arbitrary: i)
  case (Cons x xs)
  then show ?case by (cases i) (simp_all add: algebra_simps)
qed simp

lemma fill_bins_loop:
  assumes "0 < w" "fst bd \<le> snd bd" "(snd bd - fst bd) div w + 2 \<le> int (length bs)"
  shows "succeeds (fold_res (\<lambda>(value, cnt) (bs :: u64 list).
       bindE (bin_index bd w (length bs) value) (\<lambda>idx.
       bindE (nth_res bs idx) (\<lambda>x. upd_res bs idx (x + cnt)))) counts bs)
     (\<lambda>bs'. length bs' = length bs \<and> sum_list bs' = sum_list bs + sum_list (map snd counts)
       \<and> (\<forall>i < length bs. bs' ! i = bs ! i + recorded (in_bin bd w (length bs) i) counts))"
  using assms(3)
proof (induction counts arbitrary: bs)
  case (Cons x counts)
  obtain v c where x: "x = (v, c)" by (cases x)
  obtain i where i: "bin_index bd w (length bs) v = Inr i" "0 \<le> i" "i < int (length bs)"
    using bin_index_in_range [OF assms(1,2) Cons.prems] by blast
  let ?bs = "bs[nat i := bs ! nat i + c]"
  have "sum_list ?bs = sum_list bs + c" using i by (intro sum_list_update_add) auto
  moreover have "?bs ! j = bs ! j + (if in_bin bd w (length bs) j v then c else 0)" if "j < length bs" for j
    using bin_index_in_bin [OF assms(1,2) Cons.prems i(1), of j] that by auto
  ultimately show ?case
    using Cons.IH [of ?bs] Cons.prems i
    by (auto simp: x nth_res_def upd_res_def add.assoc elim!: succeeds_mono)
qed simp

lemma sum_list_replicate_zero: "sum_list (replicate n (0::u64)) = 0"
  by (induction n) auto

lemma fill_bins_sum:
  assumes "histo_ok st n"
  shows "succeeds (fill_bins (histo_bounds st n) (bin_widths st n) counts (epoch_histo_bins st n))
    (\<lambda>bs. length bs = length (epoch_histo_bins st n) \<and> sum_list bs = sum_list (map snd counts)
      \<and> (\<forall>i < length (epoch_histo_bins st n).
           bs ! i = recorded (in_bin (histo_bounds st n) (bin_widths st n) (length (epoch_histo_bins st n)) i) counts))"
  using fill_bins_loop [of "bin_widths st n" "histo_bounds st n" "replicate (length (epoch_histo_bins st n)) 0" counts]
    assms by (simp add: fill_bins_def histo_ok_def sum_list_replicate_zero)

lemma sum_list_map2_add:
  "length xs = length ys \<Longrightarrow> sum_list (map2 (+) xs ys) = sum_list xs + (sum_list ys :: u64)"
  by (induction xs ys rule: list_induct2) (simp_all add: algebra_simps)

lemma sum_add_count: "sum_list (map snd (add_count v n cs)) = sum_list (map snd cs) + n"
  by (induction v n cs rule: add_count.induct) (simp_all add: algebra_simps)

text \<open>What the epoch has recorded for a bin of a histogram.\<close>

definition epoch_bin :: "SimpleStats \<Rightarrow> string \<Rightarrow> nat \<Rightarrow> u64" where
  "epoch_bin st n i =
     recorded (in_bin (histo_bounds st n) (bin_widths st n) (length (epoch_histo_bins st n)) i) (epoch_histo_counts st n)"

lemma update_epoch_bins_ok:
  assumes "histo_ok st n"
  obtains bs where "update_epoch_bins n st = Inr (st\<lparr>epoch_histo_bins := (epoch_histo_bins st)(n := bs)\<rparr>)"
    "length bs = length (epoch_histo_bins st n)" "sum_list bs = sum_list (map snd (epoch_histo_counts st n))"
    "\<forall>i < length (epoch_histo_bins st n). bs ! i = epoch_bin st n i"
  using fill_bins_sum [OF assms, of "epoch_histo_counts st n"]
  by (auto simp: update_epoch_bins_def succeeds_iff epoch_bin_def)

definition same_but_epoch_bins :: "SimpleStats \<Rightarrow> SimpleStats \<Rightarrow> bool" where
  "same_but_epoch_bins st st' = (st' = st\<lparr>epoch_histo_bins := epoch_histo_bins st'\<rparr>
     \<and> (\<forall>n. length (epoch_histo_bins st' n) = length (epoch_histo_bins st n)))"

lemma same_but_epoch_binsD:
  assumes "same_but_epoch_bins st st'"
  shows "counters st' = counters st" "epoch_counters st' = epoch_counters st"
    "vec_counters st' = vec_counters st" "epoch_vec_counters st' = epoch_vec_counters st"
    "histo_names st' = histo_names st" "histo_bounds st' = histo_bounds st" "bin_widths st' = bin_widths st"
    "histo_counts st' = histo_counts st" "epoch_histo_counts st' = epoch_histo_counts st"
    "histo_bins st' = histo_bins st"
  by (subst conjunct1 [OF assms [unfolded same_but_epoch_bins_def]], simp)+

lemma same_but_epoch_bins_length:
  "same_but_epoch_bins st st' \<Longrightarrow> length (epoch_histo_bins st' n) = length (epoch_histo_bins st n)"
  unfolding same_but_epoch_bins_def by blast

lemma histo_ok_same: "same_but_epoch_bins st st' \<Longrightarrow> histo_ok st' n = histo_ok st n"
  by (simp add: histo_ok_def same_but_epoch_binsD same_but_epoch_bins_length)

lemma epoch_bin_same: "same_but_epoch_bins st st' \<Longrightarrow> epoch_bin st' n = epoch_bin st n"
  by (rule ext) (simp add: epoch_bin_def same_but_epoch_binsD same_but_epoch_bins_length)

lemma epoch_bins_loop:
  assumes "distinct ns" "\<forall>n \<in> set ns. histo_ok st n"
  shows "succeeds (fold_res update_epoch_bins ns st) (\<lambda>st'. same_but_epoch_bins st st'
    \<and> (\<forall>n \<in> set ns. sum_list (epoch_histo_bins st' n) = sum_list (map snd (epoch_histo_counts st n)))
    \<and> (\<forall>n \<in> set ns. \<forall>i < length (epoch_histo_bins st n). epoch_histo_bins st' n ! i = epoch_bin st n i)
    \<and> (\<forall>n. n \<notin> set ns \<longrightarrow> epoch_histo_bins st' n = epoch_histo_bins st n))"
  using assms
proof (induction ns arbitrary: st)
  case Nil
  then show ?case by (simp add: same_but_epoch_bins_def)
next
  case (Cons n ns)
  obtain bs where bs: "update_epoch_bins n st = Inr (st\<lparr>epoch_histo_bins := (epoch_histo_bins st)(n := bs)\<rparr>)"
    "length bs = length (epoch_histo_bins st n)" "sum_list bs = sum_list (map snd (epoch_histo_counts st n))"
    "\<forall>i < length (epoch_histo_bins st n). bs ! i = epoch_bin st n i"
    using update_epoch_bins_ok Cons.prems(2) by (metis list.set_intros(1))
  let ?st = "st\<lparr>epoch_histo_bins := (epoch_histo_bins st)(n := bs)\<rparr>"
  have s1: "same_but_epoch_bins st ?st" using bs(2) by (simp add: same_but_epoch_bins_def)
  have "succeeds (fold_res update_epoch_bins ns ?st) (\<lambda>st'. same_but_epoch_bins ?st st'
    \<and> (\<forall>n \<in> set ns. sum_list (epoch_histo_bins st' n) = sum_list (map snd (epoch_histo_counts ?st n)))
    \<and> (\<forall>n \<in> set ns. \<forall>i < length (epoch_histo_bins ?st n). epoch_histo_bins st' n ! i = epoch_bin ?st n i)
    \<and> (\<forall>n. n \<notin> set ns \<longrightarrow> epoch_histo_bins st' n = epoch_histo_bins ?st n))"
    using Cons.prems by (intro Cons.IH) (simp_all add: histo_ok_same [OF s1])
  then show ?case
    using bs s1 Cons.prems(1) unfolding epoch_bin_same [OF s1]
    by (auto simp: same_but_epoch_bins_def elim!: succeeds_mono)
qed

lemma final_bins_simps [simp]:
  "epoch_counters (fold update_final_bins ns st) = epoch_counters st"
  "counters (fold update_final_bins ns st) = counters st"
  "vec_counters (fold update_final_bins ns st) = vec_counters st"
  "epoch_vec_counters (fold update_final_bins ns st) = epoch_vec_counters st"
  "epoch_histo_counts (fold update_final_bins ns st) = epoch_histo_counts st"
  "epoch_histo_bins (fold update_final_bins ns st) = epoch_histo_bins st"
  "histo_names (fold update_final_bins ns st) = histo_names st"
  "histo_bounds (fold update_final_bins ns st) = histo_bounds st"
  "bin_widths (fold update_final_bins ns st) = bin_widths st"
  by (induction ns arbitrary: st) (simp_all add: update_final_bins_def)

lemma final_bins_other:
  "n \<notin> set ns \<Longrightarrow> histo_bins (fold update_final_bins ns st) n = histo_bins st n"
  by (induction ns arbitrary: st) (auto simp: update_final_bins_def)

lemma final_bins_at:
  "distinct ns \<Longrightarrow> n \<in> set ns \<Longrightarrow>
     histo_bins (fold update_final_bins ns st) n = map2 (+) (histo_bins st n) (epoch_histo_bins st n)"
proof (induction ns arbitrary: st)
  case (Cons m ns)
  show ?case
  proof (cases "n = m")
    case True
    then show ?thesis using Cons.prems by (simp add: final_bins_other) (simp add: update_final_bins_def)
  next
    case False
    then show ?thesis using Cons by (simp add: update_final_bins_def)
  qed
qed simp

lemma final_counts_other:
  "n \<notin> set ns \<Longrightarrow> histo_counts (fold update_final_bins ns st) n = histo_counts st n"
  by (induction ns arbitrary: st) (auto simp: update_final_bins_def)

lemma final_counts_at:
  "distinct ns \<Longrightarrow> n \<in> set ns \<Longrightarrow> recorded P (histo_counts (fold update_final_bins ns st) n)
     = recorded P (histo_counts st n) + recorded P (epoch_histo_counts st n)"
proof (induction ns arbitrary: st)
  case (Cons m ns)
  show ?case
  proof (cases "n = m")
    case True
    then show ?thesis using Cons.prems by (simp add: final_counts_other) (simp add: update_final_bins_def recorded_fold_add)
  next
    case False
    then show ?thesis using Cons by (simp add: update_final_bins_def)
  qed
qed simp

lemma UpdateHistoBins_ok:
  assumes "stats_wf cfg st"
  shows "succeeds (UpdateHistoBins st) (\<lambda>st'. stats_wf cfg st'
    \<and> counters st' = counters st \<and> epoch_counters st' = epoch_counters st
    \<and> vec_counters st' = vec_counters st \<and> epoch_vec_counters st' = epoch_vec_counters st
    \<and> histo_names st' = histo_names st
    \<and> (\<forall>n \<in> set (histo_names st). sum_list (histo_bins st' n)
          = sum_list (histo_bins st n) + sum_list (map snd (epoch_histo_counts st n)))
    \<and> (\<forall>n \<in> set (histo_names st). length (histo_bins st' n) = length (histo_bins st n)
         \<and> (\<forall>i < length (histo_bins st n). histo_bins st' n ! i = histo_bins st n ! i + epoch_bin st n i)
         \<and> (\<forall>P. recorded P (histo_counts st' n) = recorded P (histo_counts st n) + recorded P (epoch_histo_counts st n))))"
proof -
  have d: "distinct (histo_names st)" "\<forall>n \<in> set (histo_names st). histo_ok st n"
    using assms by (simp_all add: stats_wf_def)
  from epoch_bins_loop [OF d] obtain st1 where 1: "fold_res update_epoch_bins (histo_names st) st = Inr st1"
    "same_but_epoch_bins st st1"
    "\<forall>n \<in> set (histo_names st). sum_list (epoch_histo_bins st1 n) = sum_list (map snd (epoch_histo_counts st n))"
    "\<forall>n \<in> set (histo_names st). \<forall>i < length (epoch_histo_bins st n). epoch_histo_bins st1 n ! i = epoch_bin st n i"
    by (auto simp: succeeds_iff)
  let ?st = "fold update_final_bins (histo_names st) st1"
  note e = same_but_epoch_binsD [OF 1(2)] same_but_epoch_bins_length [OF 1(2)]
  have bins: "histo_bins ?st n = map2 (+) (histo_bins st n) (epoch_histo_bins st1 n)"
    if "n \<in> set (histo_names st)" for n
    using final_bins_at [OF d(1) that, of st1] e by simp
  have ok: "histo_ok ?st n" if "n \<in> set (histo_names st)" for n
    using d(2) that bins [OF that] by (simp add: histo_ok_def e)
  have len: "length (histo_bins st n) = length (epoch_histo_bins st1 n)" if "n \<in> set (histo_names st)" for n
    using d(2) that by (simp add: histo_ok_def e)
  have wf: "stats_wf cfg ?st" using assms ok by (simp add: stats_wf_def e)
  moreover have "sum_list (histo_bins ?st n) = sum_list (histo_bins st n) + sum_list (map snd (epoch_histo_counts st n))"
    if "n \<in> set (histo_names st)" for n
    using 1(3) that len [OF that] by (simp add: bins sum_list_map2_add)
  moreover have "length (histo_bins ?st n) = length (histo_bins st n)
      \<and> (\<forall>i < length (histo_bins st n). histo_bins ?st n ! i = histo_bins st n ! i + epoch_bin st n i)" if "n \<in> set (histo_names st)" for n
    using 1(4) that len [OF that] e(11) by (simp add: bins)
  moreover have "recorded P (histo_counts ?st n) = recorded P (histo_counts st n) + recorded P (epoch_histo_counts st n)"
    if "n \<in> set (histo_names st)" for P n
    using final_counts_at [OF d(1) that, of P st1] e by simp
  ultimately show ?thesis using 1(1) e by (simp add: UpdateHistoBins_def)
qed

lemma stats_wf_UpdateCounters: "stats_wf cfg st \<Longrightarrow> stats_wf cfg (UpdateCounters st)"
  by (simp add: stats_wf_def UpdateCounters_def histo_ok_def)

lemma stats_wf_clear_epoch: "stats_wf cfg st \<Longrightarrow> stats_wf cfg (clear_epoch st)"
  by (simp add: stats_wf_def clear_epoch_def histo_ok_def)

lemma stats_wf_Reset: "stats_wf cfg st \<Longrightarrow> stats_wf cfg (SimpleStats_Reset st)"
  by (simp add: stats_wf_def SimpleStats_Reset_def clear_epoch_def histo_ok_def)

lemma PrintEpochStats_wf: "stats_wf cfg st \<Longrightarrow> succeeds (SimpleStats_PrintEpochStats st) (stats_wf cfg)"
  unfolding SimpleStats_PrintEpochStats_def UpdateEpochStats_def
  by (rule succeeds_bind [OF UpdateHistoBins_ok [OF stats_wf_UpdateCounters]]) (auto simp: stats_wf_clear_epoch)

lemma PrintFinalStats_wf: "stats_wf cfg st \<Longrightarrow> succeeds (SimpleStats_PrintFinalStats st) (stats_wf cfg)"
  unfolding SimpleStats_PrintFinalStats_def UpdateFinalStats_def
  by (rule succeeds_mono [OF UpdateHistoBins_ok [OF stats_wf_UpdateCounters]]) auto

section \<open>Properties\<close>

text \<open>
  Claim C22. Closing an epoch neither loses nor duplicates what was recorded, and never indexes a
  histogram bin out of range.  Every counter and every element of a per-rank counter grows overall by its epoch value, which is
  reset to zero; for each histogram every value's overall count grows by its count in the epoch, which is cleared, and
  every overall bin by the counts of exactly the values of the epoch that lie in the interval of the bin, the outer bins taking
  what lies outside the bounds.
\<close>

theorem epoch_accounting:
  assumes "stats_wf cfg st"
  shows "succeeds (UpdateEpochStats st) (\<lambda>st'. stats_wf cfg st'
    \<and> (\<forall>n. counters st' n = counters st n + epoch_counters st n \<and> epoch_counters st' n = 0)
    \<and> (\<forall>n. length (vec_counters st' n) = length (vec_counters st n)
         \<and> (\<forall>i < length (vec_counters st n). vec_counters st' n ! i = vec_counters st n ! i + epoch_vec_counters st n ! i)
         \<and> epoch_vec_counters st' n = replicate (length (epoch_vec_counters st n)) 0)
    \<and> (\<forall>n \<in> set (histo_names st). epoch_histo_counts st' n = []
         \<and> (\<forall>v. recorded ((=) v) (histo_counts st' n) = recorded ((=) v) (histo_counts st n) + recorded ((=) v) (epoch_histo_counts st n))
         \<and> length (histo_bins st' n) = length (histo_bins st n)
         \<and> (\<forall>i < length (histo_bins st n). histo_bins st' n ! i = histo_bins st n ! i
              + recorded (in_bin (histo_bounds st n) (bin_widths st n) (length (histo_bins st n)) i) (epoch_histo_counts st n))))"
proof -
  note wf = stats_wf_UpdateCounters [OF assms]
  have uc: "histo_bins (UpdateCounters st) = histo_bins st" "histo_names (UpdateCounters st) = histo_names st"
    "epoch_histo_counts (UpdateCounters st) = epoch_histo_counts st" "histo_counts (UpdateCounters st) = histo_counts st"
    "epoch_counters (UpdateCounters st) = epoch_counters st" "epoch_vec_counters (UpdateCounters st) = epoch_vec_counters st"
    "counters (UpdateCounters st) n = counters st n + epoch_counters st n"
    "vec_counters (UpdateCounters st) n = map2 (+) (vec_counters st n) (epoch_vec_counters st n)"
    "epoch_bin (UpdateCounters st) = epoch_bin st" for n
    by (simp_all add: UpdateCounters_def epoch_bin_def [abs_def])
  have ce: "counters (clear_epoch s) = counters s" "epoch_counters (clear_epoch s) n = 0" "vec_counters (clear_epoch s) = vec_counters s"
    "epoch_vec_counters (clear_epoch s) n = replicate (length (epoch_vec_counters s n)) 0" "histo_counts (clear_epoch s) = histo_counts s"
    "histo_bins (clear_epoch s) = histo_bins s" "epoch_histo_counts (clear_epoch s) n = []" for s n
    by (simp_all add: clear_epoch_def)
  have len: "length (vec_counters st n) = length (epoch_vec_counters st n)"
    "n \<in> set (histo_names st) \<Longrightarrow> length (epoch_histo_bins st n) = length (histo_bins st n)" for n
    using assms by (simp_all add: stats_wf_def histo_ok_def)
  obtain st1 where 1: "UpdateHistoBins (UpdateCounters st) = Inr st1" "stats_wf cfg st1" "counters st1 = counters (UpdateCounters st)"
    "vec_counters st1 = vec_counters (UpdateCounters st)" "epoch_vec_counters st1 = epoch_vec_counters st"
    "\<forall>n \<in> set (histo_names st). length (histo_bins st1 n) = length (histo_bins st n)
         \<and> (\<forall>i < length (histo_bins st n). histo_bins st1 n ! i = histo_bins st n ! i + epoch_bin st n i)
         \<and> (\<forall>P. recorded P (histo_counts st1 n) = recorded P (histo_counts st n) + recorded P (epoch_histo_counts st n))"
    using UpdateHistoBins_ok [OF wf] unfolding uc succeeds_iff by blast
  then show ?thesis
    unfolding UpdateEpochStats_def by (simp add: stats_wf_clear_epoch ce uc len epoch_bin_def)
qed

definition demo_stats :: SimpleStats where
  "demo_stats = AddValue ''read_latency'' 200 (AddValue ''read_latency'' 999 (AddValue ''read_latency'' (-3)
     (Increment ''num_cycles'' (case SimpleStats_new lpddr5_config of Inr s \<Rightarrow> s | Inl e \<Rightarrow> SimpleStats_empty))))"

lemma demo_stats_wf: "stats_wf lpddr5_config demo_stats"
  using SimpleStats_new_wf [of lpddr5_config]
  by (auto simp: demo_stats_def lpddr5_config_def succeeds_iff split: sum.split)

theorem epoch_accounting_witness:
  "succeeds (UpdateEpochStats demo_stats) (\<lambda>st'. counters st' ''num_cycles'' = 1 \<and> recorded ((=) 999) (histo_counts st' ''read_latency'') = 1
    \<and> histo_bins st' ''read_latency'' ! 0 = 1 \<and> histo_bins st' ''read_latency'' ! 5 = 0 \<and> histo_bins st' ''read_latency'' ! 11 = 2)"
proof -
  have v: "counters demo_stats ''num_cycles'' = 0" "epoch_counters demo_stats ''num_cycles'' = 1"
    "''read_latency'' \<in> set (histo_names demo_stats)" "histo_counts demo_stats ''read_latency'' = []"
    "epoch_histo_counts demo_stats ''read_latency'' = [(-3, 1), (999, 1), (200, 1)]"
    "histo_bounds demo_stats ''read_latency'' = (0, 200)" "bin_widths demo_stats ''read_latency'' = 20"
    "histo_bins demo_stats ''read_latency'' = replicate 12 0"
    by code_simp+
  show ?thesis
    by (rule succeeds_mono [OF epoch_accounting [OF demo_stats_wf]]) (use v in \<open>auto simp: in_bin_def\<close>)
qed

text \<open>
  A reset does not clear the histogram bins: after \<^verbatim>\<open>Reset\<close> and one empty epoch every
  counter is zero, but the overall bins still add up to what was recorded before the reset.
\<close>

theorem reset_keeps_bins:
  assumes "stats_wf cfg st"
  shows "succeeds (UpdateEpochStats (SimpleStats_Reset st)) (\<lambda>st'. (\<forall>n. counters st' n = 0)
    \<and> (\<forall>n \<in> set (histo_names st). sum_list (histo_bins st' n) = sum_list (histo_bins st n)))"
proof -
  have r: "counters (SimpleStats_Reset st) = (\<lambda>n. 0)" "epoch_counters (SimpleStats_Reset st) = (\<lambda>n. 0)"
    "histo_bins (SimpleStats_Reset st) = histo_bins st" "histo_names (SimpleStats_Reset st) = histo_names st"
    "epoch_histo_counts (SimpleStats_Reset st) n = []" for n
    by (simp_all add: SimpleStats_Reset_def clear_epoch_def)
  have uc: "histo_bins (UpdateCounters s) = histo_bins s" "histo_names (UpdateCounters s) = histo_names s"
    "epoch_histo_counts (UpdateCounters s) = epoch_histo_counts s"
    "counters (UpdateCounters s) n = counters s n + epoch_counters s n" for s n
    by (simp_all add: UpdateCounters_def)
  show ?thesis
    unfolding UpdateEpochStats_def
    by (rule succeeds_bind [OF UpdateHistoBins_ok [OF stats_wf_UpdateCounters [OF stats_wf_Reset [OF assms]]]])
      (auto simp: r uc clear_epoch_def)
qed

theorem reset_keeps_bins_witness:
  "succeeds (UpdateEpochStats (SimpleStats_Reset demo_stats)) (\<lambda>st'. (\<forall>n. counters st' n = 0)
    \<and> (\<forall>n \<in> set (histo_names demo_stats). sum_list (histo_bins st' n) = sum_list (histo_bins demo_stats n)))"
  by (rule reset_keeps_bins [OF demo_stats_wf])

end
