(* ===== verification/Command_Queue.thy ===== *)
theory Command_Queue
  imports Refresh_Policy Simple_Stats
begin

text \<open>
  \<^verbatim>\<open>DRAMsim3/src/command_queue.h\<close> and \<^verbatim>\<open>command_queue.cc\<close>: the per-bank or per-rank queues of
  commands of a channel, the round-robin selection of the next command and the handling of
  pending refreshes.  The channel state and the statistics the object refers to are arguments;
  operations that count in the statistics return them.
\<close>

section \<open>State\<close>

datatype QueueStructure = PER_RANK | PER_BANK | QS_SIZE

record CommandQueue =
  rank_q_empty :: "bool list"
  cq_structure :: QueueStructure
  queues :: "Command list list"
  ref_q_indices :: "int set"
  is_in_ref :: bool
  num_queues :: int
  queue_size :: u64
  queue_idx :: int
  cq_clk :: u64

definition CommandQueue_new :: "Config \<Rightarrow> CommandQueue res" where
  "CommandQueue_new cfg =
     bindE (if queue_structure (sys cfg) = ''PER_BANK''
            then Inr (PER_BANK, banks (dram cfg) * ranks (dram cfg))
            else if queue_structure (sys cfg) = ''PER_RANK'' then Inr (PER_RANK, ranks (dram cfg))
            else Inl (AbruptExit ''command_queue.cc'' 25)) (\<lambda>(qs, n).
     Inr \<lparr>rank_q_empty = replicate (nat (ranks (dram cfg))) True, cq_structure = qs,
          queues = replicate (nat n) [], ref_q_indices = {}, is_in_ref = False, num_queues = n,
          queue_size = of_int (cmd_queue_size (sys cfg)), queue_idx = 0, cq_clk = 0\<rparr>)"

section \<open>Placement\<close>

definition GetQueueIndex :: "Config \<Rightarrow> CommandQueue \<Rightarrow> int \<Rightarrow> int \<Rightarrow> int \<Rightarrow> int" where
  "GetQueueIndex cfg cq rank bankgroup bank =
     (if cq_structure cq = PER_RANK then rank
      else rank * banks (dram cfg) + bankgroup * banks_per_group (dram cfg) + bank)"

definition GetQueue :: "Config \<Rightarrow> CommandQueue \<Rightarrow> int \<Rightarrow> int \<Rightarrow> int \<Rightarrow> Command list res" where
  "GetQueue cfg cq rank bankgroup bank = nth_res (queues cq) (GetQueueIndex cfg cq rank bankgroup bank)"

definition fits :: "CommandQueue \<Rightarrow> Command list \<Rightarrow> bool" where
  "fits cq q = (int (length q) < uint (queue_size cq))"

definition WillAcceptCommand :: "Config \<Rightarrow> CommandQueue \<Rightarrow> int \<Rightarrow> int \<Rightarrow> int \<Rightarrow> bool res" where
  "WillAcceptCommand cfg cq rank bankgroup bank =
     bindE (GetQueue cfg cq rank bankgroup bank) (\<lambda>q. Inr (fits cq q))"

definition CommandQueue_QueueEmpty :: "CommandQueue \<Rightarrow> bool" where
  "CommandQueue_QueueEmpty cq = list_all (\<lambda>q. q = []) (queues cq)"

definition CommandQueue_QueueUsage :: "CommandQueue \<Rightarrow> int" where
  "CommandQueue_QueueUsage cq = sum_list (map (\<lambda>q. int (length q)) (queues cq))"

definition AddCommand :: "Config \<Rightarrow> CommandQueue \<Rightarrow> Command \<Rightarrow> (bool \<times> CommandQueue) res" where
  "AddCommand cfg cq cmd =
     bindE (GetQueue cfg cq (Rank cmd) (Bankgroup cmd) (Bank cmd)) (\<lambda>q.
     if fits cq q then
       bindE (upd_res (queues cq) (GetQueueIndex cfg cq (Rank cmd) (Bankgroup cmd) (Bank cmd)) (q @ [cmd])) (\<lambda>qs.
       bindE (upd_res (rank_q_empty cq) (Rank cmd) False) (\<lambda>re.
       Inr (True, cq\<lparr>queues := qs, rank_q_empty := re\<rparr>)))
     else Inr (False, cq))"

section \<open>Choosing a command\<close>

definition same_bank_as :: "Command \<Rightarrow> Command \<Rightarrow> bool" where
  "same_bank_as a b = (Rank a = Rank b \<and> Bankgroup a = Bankgroup b \<and> Bank a = Bank b)"

text \<open>
  \<open>prev\<close> are the commands of the queue before the iterator, \<open>cmd # rest\<close> those from it on.
\<close>

definition ArbitratePrecharge ::
    "ChannelState \<Rightarrow> Command list \<Rightarrow> Command \<Rightarrow> Command list \<Rightarrow> SimpleStats \<Rightarrow> (bool \<times> SimpleStats) res" where
  "ArbitratePrecharge cs prev cmd rest st =
     (if \<exists>p \<in> set prev. same_bank_as p cmd then Inr (False, st)
      else
        bindE (ChannelState_OpenRow cs (Rank cmd) (Bankgroup cmd) (Bank cmd)) (\<lambda>row.
        let pending_row_hits_exist = (\<exists>p \<in> set (cmd # rest). Row p = row \<and> same_bank_as p cmd) in
        bindE (ChannelState_RowHitCount cs (Rank cmd) (Bankgroup cmd) (Bank cmd)) (\<lambda>hits.
        if \<not> pending_row_hits_exist \<or> hits \<ge> 4
        then Inr (True, Increment ''num_ondemand_pres'' st)
        else Inr (False, st))))"

definition HasRWDependency :: "Command list \<Rightarrow> Command \<Rightarrow> bool" where
  "HasRWDependency prev cmd =
     (\<exists>it \<in> set prev. IsRead it \<and> Row it = Row cmd \<and> Column it = Column cmd \<and> Bank it = Bank cmd
        \<and> Bankgroup it = Bankgroup cmd)"

fun first_ready_loop ::
    "Config \<Rightarrow> ChannelState \<Rightarrow> u64 \<Rightarrow> Command list \<Rightarrow> Command list \<Rightarrow> SimpleStats \<Rightarrow> (Command \<times> SimpleStats) res" where
  "first_ready_loop cfg cs clk prev [] st = Inr (Command_default, st)"
| "first_ready_loop cfg cs clk prev (c # rest) st =
     bindE (ChannelState_GetReadyCommand cfg cs c clk) (\<lambda>cmd.
     if \<not> IsValid cmd then first_ready_loop cfg cs clk (prev @ [c]) rest st
     else if cmd_type cmd = PRECHARGE then
       bindE (ArbitratePrecharge cs prev c rest st) (\<lambda>(ok, st1).
       if \<not> ok then first_ready_loop cfg cs clk (prev @ [c]) rest st1 else Inr (cmd, st1))
     else if IsWrite cmd \<and> HasRWDependency prev c
     then first_ready_loop cfg cs clk (prev @ [c]) rest st
     else Inr (cmd, st))"

definition GetFirstReadyInQueue ::
    "Config \<Rightarrow> ChannelState \<Rightarrow> CommandQueue \<Rightarrow> Command list \<Rightarrow> SimpleStats \<Rightarrow> (Command \<times> SimpleStats) res" where
  "GetFirstReadyInQueue cfg cs cq q st = first_ready_loop cfg cs (cq_clk cq) [] q st"

definition EraseRWCommand :: "Config \<Rightarrow> CommandQueue \<Rightarrow> Command \<Rightarrow> CommandQueue res" where
  "EraseRWCommand cfg cq cmd =
     bindE (GetQueue cfg cq (Rank cmd) (Bankgroup cmd) (Bank cmd)) (\<lambda>q.
     let hit = (\<lambda>it. hex_addr cmd = hex_addr it \<and> cmd_type cmd = cmd_type it) in
     if \<exists>it \<in> set q. hit it then
       bindE (upd_res (queues cq) (GetQueueIndex cfg cq (Rank cmd) (Bankgroup cmd) (Bank cmd)) (erase_first hit q)) (\<lambda>qs.
       Inr (cq\<lparr>queues := qs\<rparr>))
     else Inl (ExitCall 1))"

definition GetNextQueue :: "CommandQueue \<Rightarrow> CommandQueue" where
  "GetNextQueue cq =
     cq\<lparr>queue_idx := (if queue_idx cq + 1 = num_queues cq then 0 else queue_idx cq + 1)\<rparr>"

text \<open>The loop \<^verbatim>\<open>for (int i = 0; i < num_queues_; i++)\<close>; the argument counts the rounds left.\<close>

fun issue_loop ::
    "Config \<Rightarrow> ChannelState \<Rightarrow> nat \<Rightarrow> CommandQueue \<Rightarrow> SimpleStats \<Rightarrow> (Command \<times> CommandQueue \<times> SimpleStats) res" where
  "issue_loop cfg cs 0 cq st = Inr (Command_default, cq, st)"
| "issue_loop cfg cs (Suc n) cq st =
     (let cq1 = GetNextQueue cq in
      bindE (nth_res (queues cq1) (queue_idx cq1)) (\<lambda>q.
      if is_in_ref cq1 \<and> queue_idx cq1 \<in> ref_q_indices cq1 then issue_loop cfg cs n cq1 st
      else
        bindE (GetFirstReadyInQueue cfg cs cq1 q st) (\<lambda>(cmd, st1).
        if IsValid cmd then
          bindE (if IsReadWrite cmd then EraseRWCommand cfg cq1 cmd else Inr cq1) (\<lambda>cq2.
          Inr (cmd, cq2, st1))
        else issue_loop cfg cs n cq1 st1)))"

definition GetCommandToIssue ::
    "Config \<Rightarrow> ChannelState \<Rightarrow> CommandQueue \<Rightarrow> SimpleStats \<Rightarrow> (Command \<times> CommandQueue \<times> SimpleStats) res" where
  "GetCommandToIssue cfg cs cq st = issue_loop cfg cs (nat (num_queues cq)) cq st"

section \<open>Refreshes\<close>

definition GetRefQIndices :: "Config \<Rightarrow> CommandQueue \<Rightarrow> Command \<Rightarrow> CommandQueue res" where
  "GetRefQIndices cfg cq ref =
     (if cmd_type ref = REFRESH then
        (if cq_structure cq = PER_BANK then
           (if banks (dram cfg) = 0 \<and> num_queues cq > 0 then Inl DivByZero
            else Inr (cq\<lparr>ref_q_indices := ref_q_indices cq \<union>
               set (filter (\<lambda>i. i sdiv banks (dram cfg) = Rank ref) (int_range (num_queues cq)))\<rparr>))
         else Inr (cq\<lparr>ref_q_indices := insert (Rank ref) (ref_q_indices cq)\<rparr>))
      else Inr (cq\<lparr>ref_q_indices :=
        insert (GetQueueIndex cfg cq (Rank ref) (Bankgroup ref) (Bank ref)) (ref_q_indices cq)\<rparr>))"

definition FinishRefresh :: "Config \<Rightarrow> ChannelState \<Rightarrow> CommandQueue \<Rightarrow> (Command \<times> CommandQueue) res" where
  "FinishRefresh cfg cs cq =
     bindE (PendingRefCommand cs) (\<lambda>ref.
     bindE (if \<not> is_in_ref cq
            then bindE (GetRefQIndices cfg cq ref) (\<lambda>cq1. Inr (cq1\<lparr>is_in_ref := True\<rparr>))
            else Inr cq) (\<lambda>cq1.
     bindE (ChannelState_GetReadyCommand cfg cs ref (cq_clk cq1)) (\<lambda>cmd.
     Inr (cmd, if IsRefresh cmd then cq1\<lparr>ref_q_indices := {}, is_in_ref := False\<rparr> else cq1))))"

definition CommandQueue_ClockTick :: "CommandQueue \<Rightarrow> CommandQueue" where
  "CommandQueue_ClockTick cq = cq\<lparr>cq_clk := cq_clk cq + 1\<rparr>"

section \<open>Invariant\<close>

text \<open>
  Every queued command is a read or write whose coordinates are those its address decodes to, and
  it sits in the queue its coordinates select; no queue exceeds the configured size.
\<close>

definition queued_ok :: "Config \<Rightarrow> Command \<Rightarrow> bool" where
  "queued_ok cfg c = (IsReadWrite c \<and> addr c = AddressMapping cfg (hex_addr c)
     \<and> in_dims cfg (Rank c, Bankgroup c, Bank c))"

definition cq_wf :: "Config \<Rightarrow> CommandQueue \<Rightarrow> bool" where
  "cq_wf cfg cq =
     (cq_structure cq \<in> {PER_RANK, PER_BANK}
      \<and> num_queues cq = (if cq_structure cq = PER_BANK then banks (dram cfg) * ranks (dram cfg) else ranks (dram cfg))
      \<and> int (length (queues cq)) = num_queues cq \<and> int (length (rank_q_empty cq)) = ranks (dram cfg)
      \<and> 0 \<le> queue_idx cq \<and> queue_idx cq < num_queues cq
      \<and> (\<forall>i < length (queues cq). int (length (queues cq ! i)) \<le> uint (queue_size cq)
           \<and> (\<forall>c \<in> set (queues cq ! i). queued_ok cfg c
                \<and> GetQueueIndex cfg cq (Rank c) (Bankgroup c) (Bank c) = int i)))"

text \<open>All commands that are queued.\<close>

definition queued :: "CommandQueue \<Rightarrow> Command multiset" where
  "queued cq = mset (concat (queues cq))"

lemma GetQueueIndex_in_range:
  assumes "config_ok cfg" "cq_wf cfg cq" "in_dims cfg (r, j, k)"
  shows "0 \<le> GetQueueIndex cfg cq r j k" "GetQueueIndex cfg cq r j k < num_queues cq"
proof -
  let ?g = "bankgroups (dram cfg)" and ?b = "banks_per_group (dram cfg)" and ?r = "ranks (dram cfg)"
  have d: "0 \<le> r" "r < ?r" "0 \<le> j" "j < ?g" "0 \<le> k" "k < ?b" using assms(3) by (auto simp: in_dims_def)
  have b: "banks (dram cfg) = ?g * ?b" "0 < ?b" "0 < ?g" using assms(1) d by (auto simp: config_ok_def)
  have "j * ?b + k < ?g * ?b"
  proof -
    have "(j + 1) * ?b \<le> ?g * ?b" using d by (intro mult_right_mono) auto
    then show ?thesis using d by (simp add: algebra_simps)
  qed
  moreover have "r * (?g * ?b) + ?g * ?b \<le> ?r * (?g * ?b)"
    using d b mult_right_mono [of "r + 1" ?r "?g * ?b"] by (simp add: algebra_simps)
  moreover have "0 \<le> r * (?g * ?b)" "0 \<le> j * ?b" using d b by auto
  ultimately show "0 \<le> GetQueueIndex cfg cq r j k" "GetQueueIndex cfg cq r j k < num_queues cq"
    using assms(2) d by (auto simp: GetQueueIndex_def cq_wf_def b(1) algebra_simps split: if_splits)
qed

lemma GetQueue_in_range:
  assumes "config_ok cfg" "cq_wf cfg cq" "in_dims cfg (r, j, k)"
  shows "GetQueue cfg cq r j k = Inr (queues cq ! nat (GetQueueIndex cfg cq r j k))"
    "nat (GetQueueIndex cfg cq r j k) < length (queues cq)"
  using GetQueueIndex_in_range [OF assms] assms(2) by (auto simp: GetQueue_def nth_res_def cq_wf_def)

lemma GetQueueIndex_queues [simp]:
  "GetQueueIndex cfg (cq\<lparr>queues := qs\<rparr>) = GetQueueIndex cfg cq"
  "GetQueueIndex cfg (cq\<lparr>queue_idx := i\<rparr>) = GetQueueIndex cfg cq"
  "GetQueueIndex cfg (cq\<lparr>rank_q_empty := re\<rparr>) = GetQueueIndex cfg cq"
  "GetQueueIndex cfg (cq\<lparr>ref_q_indices := ri\<rparr>) = GetQueueIndex cfg cq"
  "GetQueueIndex cfg (cq\<lparr>is_in_ref := ir\<rparr>) = GetQueueIndex cfg cq"
  "GetQueueIndex cfg (cq\<lparr>cq_clk := t\<rparr>) = GetQueueIndex cfg cq"
  by (simp_all add: GetQueueIndex_def fun_eq_iff)

lemma cq_wf_queue_idx:
  "cq_wf cfg cq \<Longrightarrow> 0 \<le> i \<Longrightarrow> i < num_queues cq \<Longrightarrow> cq_wf cfg (cq\<lparr>queue_idx := i\<rparr>)"
  by (simp add: cq_wf_def)

lemma cq_wfD:
  assumes "cq_wf cfg cq"
  shows "0 \<le> queue_idx cq" "queue_idx cq < num_queues cq" "int (length (queues cq)) = num_queues cq"
    "i < length (queues cq) \<Longrightarrow> c \<in> set (queues cq ! i) \<Longrightarrow> queued_ok cfg c"
    "i < length (queues cq) \<Longrightarrow> c \<in> set (queues cq ! i) \<Longrightarrow>
       GetQueueIndex cfg cq (Rank c) (Bankgroup c) (Bank c) = int i"
    "i < length (queues cq) \<Longrightarrow> int (length (queues cq ! i)) \<le> uint (queue_size cq)"
  using assms unfolding cq_wf_def by blast+

lemma cq_wf_GetNextQueue:
  assumes "cq_wf cfg cq"
  shows "cq_wf cfg (GetNextQueue cq)"
  unfolding GetNextQueue_def using cq_wfD(1,2) [OF assms] by (intro cq_wf_queue_idx [OF assms]) auto

lemma cq_wf_other [simp]:
  "cq_wf cfg (cq\<lparr>ref_q_indices := ri\<rparr>) = cq_wf cfg cq" "cq_wf cfg (cq\<lparr>is_in_ref := ir\<rparr>) = cq_wf cfg cq"
  "cq_wf cfg (cq\<lparr>cq_clk := t\<rparr>) = cq_wf cfg cq" "cq_wf cfg (CommandQueue_ClockTick cq) = cq_wf cfg cq"
  by (simp_all add: cq_wf_def CommandQueue_ClockTick_def)

lemma cq_wf_update_queue:
  assumes "cq_wf cfg cq" "i < length (queues cq)" "int (length q) \<le> uint (queue_size cq)"
    "\<forall>c \<in> set q. queued_ok cfg c \<and> GetQueueIndex cfg cq (Rank c) (Bankgroup c) (Bank c) = int i"
  shows "cq_wf cfg (cq\<lparr>queues := (queues cq)[i := q]\<rparr>)"
proof -
  have "int (length ((queues cq)[i := q] ! k)) \<le> uint (queue_size cq)
      \<and> (\<forall>c \<in> set ((queues cq)[i := q] ! k). queued_ok cfg c
           \<and> GetQueueIndex cfg cq (Rank c) (Bankgroup c) (Bank c) = int k)"
    if "k < length (queues cq)" for k
    using that assms(2-4) cq_wfD(4-6) [OF assms(1) that] by (cases "k = i") simp_all
  with assms(1) show ?thesis unfolding cq_wf_def by simp
qed

lemma mset_concat_update:
  "i < length xss \<Longrightarrow> mset (concat (xss[i := ys])) + mset (xss ! i) = mset (concat xss) + mset ys"
proof (induction xss arbitrary: i)
  case (Cons x xss)
  then show ?case by (cases i) (auto simp: add.assoc add.left_commute)
qed simp

section \<open>Selecting\<close>

lemma queued_okD:
  assumes "queued_ok cfg c"
  shows "IsReadWrite c" "addr c = AddressMapping cfg (hex_addr c)" "in_dims cfg (Rank c, Bankgroup c, Bank c)"
  using assms unfolding queued_ok_def by blast+

lemma ready_of_request:
  assumes "chan_wf cfg cs" "queued_ok cfg c"
  shows "\<exists>rc. ChannelState_GetReadyCommand cfg cs c clk = Inr rc"
  using GetReadyCommand_rw [OF assms(1)] assms(2) by (auto simp: queued_ok_def)

lemma ready_rw_is_request:
  assumes "chan_wf cfg cs" "queued_ok cfg c" "ChannelState_GetReadyCommand cfg cs c clk = Inr rc" "IsReadWrite rc"
  shows "rc = c"
proof -
  let ?p = "(Rank c, Bankgroup c, Bank c)"
  have c: "IsReadWrite c" "in_dims cfg ?p" "\<not> IsRankCMD c"
    using assms(2) by (auto simp: queued_ok_def command_kind_defs)
  have dims: "bank_dims cfg (bank_states cs)" using chan_wfD(1) [OF assms(1)] by (simp add: chan_dims_def)
  have v: "IsValid rc" using assms(4) by (auto simp: command_kind_defs)
  have "BankState_GetReadyCommand (bank_of cs ?p) c clk = Inr rc"
    using assms(3,4) c(3) bank_at_in [OF dims c(2)] v
    by (auto simp: ChannelState_GetReadyCommand_def res_simps split: if_splits)
  from GetReadyCommand_valid [OF this v] obtain rt where
    rt: "required_type (bank_of cs ?p) c = Inr rt" "rc = mk_Command rt (addr c) (hex_addr c)" by blast
  have "rt = cmd_type c"
    using required_type_rw_cases [OF rt(1) c(1)] assms(4) by (auto simp: rt(2) command_kind_defs)
  then show ?thesis by (simp add: rt(2) mk_Command_def)
qed

lemma ArbitratePrecharge_ok:
  assumes "chan_wf cfg cs" "queued_ok cfg c" "stats_wf cfg st"
  shows "succeeds (ArbitratePrecharge cs prev c rest st) (\<lambda>(ok, st'). stats_wf cfg st')"
proof -
  have "bank_dims cfg (bank_states cs)" using chan_wfD(1) [OF assms(1)] by (simp add: chan_dims_def)
  note bank_at_in [OF this queued_okD(3) [OF assms(2)]]
  then show ?thesis
    using assms(3)
    by (auto simp: ArbitratePrecharge_def ChannelState_OpenRow_def ChannelState_RowHitCount_def Let_def)
qed

text \<open>What the search through one queue finds.\<close>

definition found_in :: "Config \<Rightarrow> ChannelState \<Rightarrow> u64 \<Rightarrow> Command list \<Rightarrow> Command \<Rightarrow> bool" where
  "found_in cfg cs clk q cmd =
     (\<exists>pre c post. q = pre @ c # post \<and> ChannelState_GetReadyCommand cfg cs c clk = Inr cmd
        \<and> (IsWrite cmd \<longrightarrow> \<not> HasRWDependency pre c))"

lemma first_ready_loop_ok:
  assumes "chan_wf cfg cs" "\<forall>c \<in> set q. queued_ok cfg c" "stats_wf cfg st"
  shows "succeeds (first_ready_loop cfg cs clk prev q st) (\<lambda>(cmd, st'). stats_wf cfg st'
    \<and> (IsValid cmd \<longrightarrow> found_in cfg cs clk (prev @ q) cmd))"
  using assms(2,3)
proof (induction q arbitrary: prev st)
  case (Cons c q)
  have c: "queued_ok cfg c" using Cons.prems(1) by simp
  obtain rc where rc: "ChannelState_GetReadyCommand cfg cs c clk = Inr rc"
    using ready_of_request [OF assms(1) c] by blast
  obtain ok st1 where arb: "ArbitratePrecharge cs prev c q st = Inr (ok, st1)" "stats_wf cfg st1"
    using ArbitratePrecharge_ok [OF assms(1) c Cons.prems(2), of prev q] by (auto simp: succeeds_iff)
  have tl: "succeeds (first_ready_loop cfg cs clk (prev @ [c]) q st') (\<lambda>(cmd, st'). stats_wf cfg st'
      \<and> (IsValid cmd \<longrightarrow> found_in cfg cs clk (prev @ c # q) cmd))" if "stats_wf cfg st'" for st'
    using Cons.IH [of st' "prev @ [c]"] Cons.prems(1) that by simp
  have here: "found_in cfg cs clk (prev @ c # q) rc" if "IsWrite rc \<longrightarrow> \<not> HasRWDependency prev c"
    unfolding found_in_def using rc that by blast
  have nw: "cmd_type rc = PRECHARGE \<Longrightarrow> \<not> IsWrite rc" by (auto simp: command_kind_defs)
  show ?case
    using tl [OF Cons.prems(2)] tl [OF arb(2)] here nw Cons.prems(2) arb
    by (auto simp: rc split del: if_split split: if_splits)
qed simp

lemma EraseRWCommand_ok:
  assumes "config_ok cfg" "cq_wf cfg cq" "i < length (queues cq)" "cmd \<in> set (queues cq ! i)"
  shows "succeeds (EraseRWCommand cfg cq cmd) (\<lambda>cq'. cq_wf cfg cq' \<and> queued cq = add_mset cmd (queued cq')
    \<and> cq' = cq\<lparr>queues := queues cq'\<rparr>)"
proof -
  let ?hit = "\<lambda>it. hex_addr cmd = hex_addr it \<and> cmd_type cmd = cmd_type it"
  let ?q = "queues cq ! i"
  have ok: "queued_ok cfg cmd" by (rule cq_wfD(4) [OF assms(2-4)])
  have idx: "GetQueueIndex cfg cq (Rank cmd) (Bankgroup cmd) (Bank cmd) = int i"
    by (rule cq_wfD(5) [OF assms(2-4)])
  have ex: "\<exists>it \<in> set ?q. ?hit it" using assms(4) by blast
  from erase_first_find [OF this] obtain y where y: "?hit y" "y \<in> set ?q" "mset ?q = add_mset y (mset (erase_first ?hit ?q))"
    by blast
  have "queued_ok cfg y" by (rule cq_wfD(4) [OF assms(2,3) y(2)])
  then have "y = cmd" using y(1) ok by (simp add: queued_ok_def)
  let ?qs = "(queues cq)[i := erase_first ?hit ?q]"
  have "EraseRWCommand cfg cq cmd = Inr (cq\<lparr>queues := ?qs\<rparr>)"
    using ex idx assms(3) GetQueue_in_range(1) [OF assms(1,2) queued_okD(3) [OF ok]]
    by (simp add: EraseRWCommand_def Let_def upd_res_def)
  moreover have "queued cq = add_mset cmd (queued (cq\<lparr>queues := ?qs\<rparr>))"
    using mset_concat_update [OF assms(3), of "erase_first ?hit ?q"] y(3)
    by (simp add: queued_def \<open>y = cmd\<close>)
  moreover have "cq_wf cfg (cq\<lparr>queues := ?qs\<rparr>)"
  proof (rule cq_wf_update_queue [OF assms(2,3)])
    show "int (length (erase_first ?hit ?q)) \<le> uint (queue_size cq)"
      using cq_wfD(6) [OF assms(2,3)] length_erase_first [of ?hit ?q] by linarith
    show "\<forall>c \<in> set (erase_first ?hit ?q). queued_ok cfg c
        \<and> GetQueueIndex cfg cq (Rank c) (Bankgroup c) (Bank c) = int i"
      using set_erase_first [of ?hit ?q] cq_wfD(4,5) [OF assms(2,3)] by blast
  qed
  ultimately show ?thesis by simp
qed

definition same_meta :: "CommandQueue \<Rightarrow> CommandQueue \<Rightarrow> bool" where
  "same_meta cq cq' = (cq' = cq\<lparr>queues := queues cq', queue_idx := queue_idx cq'\<rparr>)"

lemma same_metaD:
  assumes "same_meta cq cq'"
  shows "cq_clk cq' = cq_clk cq" "num_queues cq' = num_queues cq" "cq_structure cq' = cq_structure cq"
    "is_in_ref cq' = is_in_ref cq" "ref_q_indices cq' = ref_q_indices cq" "queue_size cq' = queue_size cq"
    "rank_q_empty cq' = rank_q_empty cq"
  by (subst assms [unfolded same_meta_def], simp)+

lemma same_meta_trans: "same_meta a b \<Longrightarrow> same_meta b c \<Longrightarrow> same_meta a c"
  unfolding same_meta_def by (cases a; cases b; cases c) simp

text \<open>What a command that is chosen is: found in some queue, which is not blocked by a refresh.\<close>

definition chosen :: "Config \<Rightarrow> ChannelState \<Rightarrow> CommandQueue \<Rightarrow> Command \<Rightarrow> bool" where
  "chosen cfg cs cq cmd =
     (\<exists>i < length (queues cq). found_in cfg cs (cq_clk cq) (queues cq ! i) cmd
        \<and> \<not> (is_in_ref cq \<and> int i \<in> ref_q_indices cq))"

lemma found_rw_member:
  assumes "chan_wf cfg cs" "\<forall>c \<in> set q. queued_ok cfg c" "found_in cfg cs clk q cmd" "IsReadWrite cmd"
  shows "cmd \<in> set q"
proof -
  obtain pre c post where q: "q = pre @ c # post" and rc: "ChannelState_GetReadyCommand cfg cs c clk = Inr cmd"
    using assms(3) unfolding found_in_def by blast
  have "cmd = c" by (rule ready_rw_is_request [OF assms(1) _ rc assms(4)]) (use assms(2) q in auto)
  then show ?thesis using q by simp
qed

lemma issue_loop_ok:
  assumes "config_ok cfg" "chan_wf cfg cs" "cq_wf cfg cq" "stats_wf cfg st"
  shows "succeeds (issue_loop cfg cs n cq st) (\<lambda>(cmd, cq', st'). cq_wf cfg cq' \<and> stats_wf cfg st'
    \<and> same_meta cq cq' \<and> (IsValid cmd \<longrightarrow> chosen cfg cs cq cmd)
    \<and> queued cq = (if IsReadWrite cmd then add_mset cmd (queued cq') else queued cq'))"
  using assms(3,4)
proof (induction n arbitrary: cq st)
  case 0
  then show ?case by (simp add: same_meta_def command_kind_defs Command_default_def)
next
  case (Suc n)
  let ?cq = "GetNextQueue cq" and ?i = "nat (queue_idx (GetNextQueue cq))"
  let ?Q = "\<lambda>cq (cmd, cq', st'). cq_wf cfg cq' \<and> stats_wf cfg st'
    \<and> same_meta cq cq' \<and> (IsValid cmd \<longrightarrow> chosen cfg cs cq cmd)
    \<and> queued cq = (if IsReadWrite cmd then add_mset cmd (queued cq') else queued cq')"
  have wf: "cq_wf cfg ?cq" by (rule cq_wf_GetNextQueue [OF Suc.prems(1)])
  have meta: "same_meta cq ?cq" and qs: "queues ?cq = queues cq"
    by (simp_all add: same_meta_def GetNextQueue_def)
  have eq: "queued ?cq = queued cq" "chosen cfg cs ?cq cmd = chosen cfg cs cq cmd" for cmd
    by (simp_all add: queued_def qs chosen_def same_metaD [OF meta])
  have i: "?i < length (queues ?cq)" "0 \<le> queue_idx ?cq" "queue_idx ?cq < int (length (queues ?cq))"
    using cq_wfD(1-3) [OF wf] by auto
  have nth: "nth_res (queues ?cq) (queue_idx ?cq) = Inr (queues ?cq ! ?i)" by (rule nth_res_in [OF i(2,3)])
  have lift: "?Q cq r" if "?Q ?cq r" for r
    using that same_meta_trans [OF meta] by (auto simp: eq split: prod.splits)
  have tl: "succeeds (issue_loop cfg cs n ?cq st') (?Q cq)" if "stats_wf cfg st'" for st'
    by (rule succeeds_mono [OF Suc.IH [OF wf that] lift])
  show ?case
  proof (cases "is_in_ref ?cq \<and> queue_idx ?cq \<in> ref_q_indices ?cq")
    case True
    then show ?thesis using tl [OF Suc.prems(2)] by (simp add: Let_def nth)
  next
    case False
    have qok: "\<forall>c \<in> set (queues ?cq ! ?i). queued_ok cfg c" using cq_wfD(4) [OF wf i(1)] by blast
    obtain cmd st1 where fr: "GetFirstReadyInQueue cfg cs ?cq (queues ?cq ! ?i) st = Inr (cmd, st1)"
      "stats_wf cfg st1" "IsValid cmd \<Longrightarrow> found_in cfg cs (cq_clk ?cq) (queues ?cq ! ?i) cmd"
      using first_ready_loop_ok [OF assms(2) qok Suc.prems(2), of "cq_clk ?cq" "[]"]
      by (auto simp: GetFirstReadyInQueue_def succeeds_iff)
    show ?thesis
    proof (cases "IsValid cmd")
      case True
      have ch: "chosen cfg cs ?cq cmd"
        unfolding chosen_def using fr(3) [OF True] i False by (intro exI [of _ ?i]) auto
      show ?thesis
      proof (cases "IsReadWrite cmd")
        case rw: True
        have "cmd \<in> set (queues ?cq ! ?i)" by (rule found_rw_member [OF assms(2) qok fr(3) [OF True] rw])
        from EraseRWCommand_ok [OF assms(1) wf i(1) this] obtain cq2 where
          cq2: "EraseRWCommand cfg ?cq cmd = Inr cq2" "cq_wf cfg cq2" "queued ?cq = add_mset cmd (queued cq2)"
            "cq2 = ?cq\<lparr>queues := queues cq2\<rparr>" by (auto simp: succeeds_iff)
        have "same_meta ?cq cq2" unfolding same_meta_def by (subst cq2(4)) (metis CommandQueue.surjective
            CommandQueue.update_convs(3,8) cq2(4))
        then have "?Q cq (cmd, cq2, st1)" using cq2 rw fr(2) ch same_meta_trans [OF meta] by (simp add: eq)
        then show ?thesis using False True fr(1) rw cq2(1) by (auto simp: Let_def nth)
      next
        case nrw: False
        have "?Q cq (cmd, ?cq, st1)" using nrw fr(2) ch meta wf by (simp add: eq)
        then show ?thesis using False True fr(1) nrw by (auto simp: Let_def nth)
      qed
    next
      case inv: False
      then show ?thesis using False fr(1) tl [OF fr(2)] by (auto simp: Let_def nth)
    qed
  qed
qed

lemma GetCommandToIssue_ok:
  assumes "config_ok cfg" "chan_wf cfg cs" "cq_wf cfg cq" "stats_wf cfg st"
  shows "succeeds (GetCommandToIssue cfg cs cq st) (\<lambda>(cmd, cq', st'). cq_wf cfg cq' \<and> stats_wf cfg st'
    \<and> same_meta cq cq' \<and> (IsValid cmd \<longrightarrow> chosen cfg cs cq cmd)
    \<and> queued cq = (if IsReadWrite cmd then add_mset cmd (queued cq') else queued cq'))"
  unfolding GetCommandToIssue_def by (rule issue_loop_ok [OF assms])

section \<open>No ready command is overlooked\<close>

text \<open>The command a search through a queue returns does not depend on the statistics.\<close>

definition idle_queue :: "Config \<Rightarrow> ChannelState \<Rightarrow> u64 \<Rightarrow> Command list \<Rightarrow> bool" where
  "idle_queue cfg cs clk q = (\<exists>st st' c. first_ready_loop cfg cs clk [] q st = Inr (c, st') \<and> \<not> IsValid c)"

lemma next_index: "cq_wf cfg cq \<Longrightarrow> queue_idx (GetNextQueue cq) = (queue_idx cq + 1) mod num_queues cq"
  using cq_wfD(1,2) [of cfg cq] by (auto simp: GetNextQueue_def)

lemma issue_loop_none:
  assumes "cq_wf cfg cq" "issue_loop cfg cs n cq st = Inr (cmd, cq', st')" "\<not> IsValid cmd" "m < n"
  shows "let i = (queue_idx cq + 1 + int m) mod num_queues cq in
    is_in_ref cq \<and> i \<in> ref_q_indices cq \<or> idle_queue cfg cs (cq_clk cq) (queues cq ! nat i)"
  using assms
proof (induction n arbitrary: cq st m)
  case (Suc n)
  let ?cq = "GetNextQueue cq"
  have wf: "cq_wf cfg ?cq" by (rule cq_wf_GetNextQueue [OF Suc.prems(1)])
  have meta: "num_queues ?cq = num_queues cq" "is_in_ref ?cq = is_in_ref cq" "cq_clk ?cq = cq_clk cq"
    "ref_q_indices ?cq = ref_q_indices cq" "queues ?cq = queues cq"
    by (simp_all add: GetNextQueue_def)
  have here: "is_in_ref cq \<and> queue_idx ?cq \<in> ref_q_indices cq \<or> idle_queue cfg cs (cq_clk cq) (queues cq ! nat (queue_idx ?cq))"
    and rest: "\<exists>st1. issue_loop cfg cs n ?cq st1 = Inr (cmd, cq', st')"
    using Suc.prems(2,3) unfolding idle_queue_def
    by (auto simp: Let_def res_simps meta GetFirstReadyInQueue_def split: if_splits prod.splits)
  show ?case
  proof (cases m)
    case 0
    then show ?thesis using here by (simp add: Let_def next_index [OF Suc.prems(1)])
  next
    case (Suc k)
    from rest obtain st1 where "issue_loop cfg cs n ?cq st1 = Inr (cmd, cq', st')" by blast
    from Suc.IH [OF wf this Suc.prems(3), of k] Suc.prems(4) Suc
    have "let i = ((queue_idx cq + 1) mod num_queues cq + 1 + int k) mod num_queues cq in
      is_in_ref cq \<and> i \<in> ref_q_indices cq \<or> idle_queue cfg cs (cq_clk cq) (queues cq ! nat i)"
      by (simp add: meta next_index [OF Suc.prems(1)])
    moreover have "((queue_idx cq + 1) mod num_queues cq + 1 + int k) mod num_queues cq
        = (queue_idx cq + 1 + int m) mod num_queues cq"
      using Suc by (simp add: add.assoc mod_add_left_eq)
    ultimately show ?thesis by simp
  qed
qed simp

lemma GetCommandToIssue_none:
  assumes "cq_wf cfg cq" "GetCommandToIssue cfg cs cq st = Inr (cmd, cq', st')" "\<not> IsValid cmd"
    "0 \<le> i" "i < num_queues cq"
  shows "is_in_ref cq \<and> i \<in> ref_q_indices cq \<or> idle_queue cfg cs (cq_clk cq) (queues cq ! nat i)"
proof -
  let ?n = "num_queues cq" and ?m = "nat ((i - queue_idx cq - 1) mod num_queues cq)"
  have n: "0 < ?n" using assms(4,5) by simp
  have m: "?m < nat ?n" "int ?m = (i - queue_idx cq - 1) mod ?n" using n by simp_all
  have "(queue_idx cq + 1 + int ?m) mod ?n = (queue_idx cq + 1 + (i - queue_idx cq - 1)) mod ?n"
    unfolding m(2) by (rule mod_add_right_eq)
  also have "\<dots> = i" using assms(4,5) by simp
  finally show ?thesis
    using issue_loop_none [OF assms(1) assms(2) [unfolded GetCommandToIssue_def] assms(3) m(1)] by (simp add: Let_def)
qed

text \<open>Why the search may pass over a command of a queue.\<close>

definition passed_over :: "Config \<Rightarrow> ChannelState \<Rightarrow> u64 \<Rightarrow> Command list \<Rightarrow> Command \<Rightarrow> Command list \<Rightarrow> bool" where
  "passed_over cfg cs clk pre c post =
     (\<exists>rc. ChannelState_GetReadyCommand cfg cs c clk = Inr rc
        \<and> (\<not> IsValid rc
           \<or> cmd_type rc = PRECHARGE \<and> (\<exists>st st'. ArbitratePrecharge cs pre c post st = Inr (False, st'))
           \<or> IsWrite rc \<and> HasRWDependency pre c))"

lemma first_ready_loop_passes:
  assumes "first_ready_loop cfg cs clk prev q st = Inr (cmd, st')" "\<not> IsValid cmd" "q = pre @ c # post"
  shows "passed_over cfg cs clk (prev @ pre) c post"
  using assms
proof (induction q arbitrary: prev st pre)
  case (Cons x q)
  have here: "passed_over cfg cs clk prev x q"
    and rest: "\<exists>st1. first_ready_loop cfg cs clk (prev @ [x]) q st1 = Inr (cmd, st')"
    using Cons.prems(1,2) unfolding passed_over_def
    by (auto simp: res_simps split: if_splits prod.splits)
  show ?case
  proof (cases pre)
    case Nil
    then show ?thesis using here Cons.prems(3) by simp
  next
    case (Cons y ys)
    with rest Cons.IH [of "prev @ [x]" _ ys] Cons.prems(2,3) show ?thesis by auto
  qed
qed simp

lemma idle_queue_passes: "idle_queue cfg cs clk (pre @ c # post) \<Longrightarrow> passed_over cfg cs clk pre c post"
  unfolding idle_queue_def using first_ready_loop_passes [where prev = "[]"] by fastforce

section \<open>Adding and refreshing\<close>

lemma cq_wf_rank_q_empty [simp]:
  "length re = length (rank_q_empty cq) \<Longrightarrow> cq_wf cfg (cq\<lparr>rank_q_empty := re\<rparr>) = cq_wf cfg cq"
  by (simp add: cq_wf_def)

lemma AddCommand_ok:
  assumes "config_ok cfg" "cq_wf cfg cq" "queued_ok cfg c"
  shows "\<exists>b. WillAcceptCommand cfg cq (Rank c) (Bankgroup c) (Bank c) = Inr b
    \<and> succeeds (AddCommand cfg cq c) (\<lambda>(ok, cq'). ok = b \<and> cq_wf cfg cq'
        \<and> queued cq' = (if b then add_mset c (queued cq) else queued cq)
        \<and> cq' = cq\<lparr>queues := queues cq', rank_q_empty := rank_q_empty cq'\<rparr>)"
proof -
  let ?i = "GetQueueIndex cfg cq (Rank c) (Bankgroup c) (Bank c)"
  let ?q = "queues cq ! nat ?i" and ?re = "(rank_q_empty cq)[nat (Rank c) := False]"
  note d = queued_okD(3) [OF assms(3)]
  note r = GetQueueIndex_in_range [OF assms(1,2) d]
  note q = GetQueue_in_range [OF assms(1,2) d]
  have rk: "0 \<le> Rank c" "Rank c < int (length (rank_q_empty cq))"
    using d assms(2) by (auto simp: in_dims_def cq_wf_def)
  show ?thesis
  proof (cases "fits cq ?q")
    case True
    let ?cq = "cq\<lparr>queues := (queues cq)[nat ?i := ?q @ [c]], rank_q_empty := ?re\<rparr>"
    have add: "AddCommand cfg cq c = Inr (True, ?cq)"
      using True r rk cq_wfD(3) [OF assms(2)] by (simp add: AddCommand_def q(1) upd_res_def)
    have "cq_wf cfg (cq\<lparr>queues := (queues cq)[nat ?i := ?q @ [c]]\<rparr>)"
    proof (rule cq_wf_update_queue [OF assms(2) q(2)])
      show "int (length (?q @ [c])) \<le> uint (queue_size cq)" using True by (simp add: fits_def)
      show "\<forall>x \<in> set (?q @ [c]). queued_ok cfg x \<and> GetQueueIndex cfg cq (Rank x) (Bankgroup x) (Bank x) = int (nat ?i)"
      proof
        fix x assume "x \<in> set (?q @ [c])"
        then consider "x \<in> set ?q" | "x = c" by auto
        then show "queued_ok cfg x \<and> GetQueueIndex cfg cq (Rank x) (Bankgroup x) (Bank x) = int (nat ?i)"
          by cases (use cq_wfD(4,5) [OF assms(2) q(2)] in blast, use assms(3) r(1) in simp)
      qed
    qed
    then have wf: "cq_wf cfg ?cq"
      using cq_wf_rank_q_empty [of ?re "cq\<lparr>queues := (queues cq)[nat ?i := ?q @ [c]]\<rparr>" cfg] by simp
    have qd: "queued ?cq = add_mset c (queued cq)"
      using mset_concat_update [OF q(2), of "?q @ [c]"] by (simp add: queued_def)
    show ?thesis
    proof (intro exI [of _ True] conjI)
      show "WillAcceptCommand cfg cq (Rank c) (Bankgroup c) (Bank c) = Inr True"
        using True by (simp add: WillAcceptCommand_def q(1))
      show "succeeds (AddCommand cfg cq c) (\<lambda>(ok, cq'). ok = True \<and> cq_wf cfg cq'
          \<and> queued cq' = (if True then add_mset c (queued cq) else queued cq)
          \<and> cq' = cq\<lparr>queues := queues cq', rank_q_empty := rank_q_empty cq'\<rparr>)"
        unfolding add using wf qd by simp
    qed
  next
    case False
    then show ?thesis
      using assms(2) by (intro exI [of _ False]) (simp add: WillAcceptCommand_def AddCommand_def q(1))
  qed
qed

text \<open>The queues that hold the commands of the banks a refresh goes to.\<close>

definition ref_indices :: "Config \<Rightarrow> CommandQueue \<Rightarrow> Command \<Rightarrow> int set" where
  "ref_indices cfg cq ref =
     (if cmd_type ref = REFRESH then
        (if cq_structure cq = PER_BANK
         then {i. 0 \<le> i \<and> i < num_queues cq \<and> i sdiv banks (dram cfg) = Rank ref} else {Rank ref})
      else {GetQueueIndex cfg cq (Rank ref) (Bankgroup ref) (Bank ref)})"

lemma GetRefQIndices_form:
  "banks (dram cfg) \<noteq> 0 \<Longrightarrow>
     GetRefQIndices cfg cq ref = Inr (cq\<lparr>ref_q_indices := ref_q_indices cq \<union> ref_indices cfg cq ref\<rparr>)"
  by (auto simp: GetRefQIndices_def ref_indices_def intro: arg_cong [where f = "\<lambda>x. ref_q_indices_update (\<lambda>_. x) cq"])

lemma FinishRefresh_ok:
  assumes "config_ok cfg" "chan_wf cfg cs" "awake cs" "cq_wf cfg cq" "IsRefreshWaiting cs"
  shows "succeeds (FinishRefresh cfg cs cq) (\<lambda>(cmd, cq'). cq_wf cfg cq' \<and> queues cq' = queues cq
    \<and> cq_clk cq' = cq_clk cq
    \<and> (\<exists>ref. request_ok cfg ref \<and> IsRefresh ref \<and> ChannelState_GetReadyCommand cfg cs ref (cq_clk cq) = Inr cmd))"
proof -
  let ?ref = "refresh_q cs ! 0"
  have ne: "refresh_q cs \<noteq> []" using assms(5) by (simp add: IsRefreshWaiting_def)
  then have ref: "refresh_cmd_ok cfg ?ref" using chan_wfD(2) [OF assms(2)] by (simp add: list_all_length)
  then have req: "request_ok cfg ?ref" "IsRefresh ?ref" by (simp_all add: request_ok_def refresh_cmd_ok_def)
  obtain cmd where cmd: "ChannelState_GetReadyCommand cfg cs ?ref (cq_clk cq) = Inr cmd"
    using request_ready [OF assms(2,3) req(1)] by blast
  have pend: "PendingRefCommand cs = Inr ?ref" using ne by (simp add: PendingRefCommand_def nth_res_def)
  have b: "banks (dram cfg) \<noteq> 0" using assms(1) by (simp add: config_ok_def geometry_ok_def)
  obtain cq1 where cq1: "(if \<not> is_in_ref cq
            then bindE (GetRefQIndices cfg cq ?ref) (\<lambda>cq1. Inr (cq1\<lparr>is_in_ref := True\<rparr>))
            else Inr cq) = Inr cq1" "cq_wf cfg cq1" "queues cq1 = queues cq" "cq_clk cq1 = cq_clk cq"
    using assms(4) GetRefQIndices_form [OF b, of cq ?ref] by (cases "is_in_ref cq") auto
  show ?thesis
    unfolding FinishRefresh_def pend bindE_Inr cq1(1)
    using cq1(2-4) cmd req by auto
qed

lemma CommandQueue_new_wf:
  assumes "config_ok cfg" "queue_structure (sys cfg) \<in> {''PER_BANK'', ''PER_RANK''}"
  shows "succeeds (CommandQueue_new cfg) (\<lambda>cq. cq_wf cfg cq \<and> queued cq = {#} \<and> cq_clk cq = 0
    \<and> \<not> is_in_ref cq \<and> ref_q_indices cq = {})"
proof -
  have p: "0 < ranks (dram cfg)" "0 < banks (dram cfg)" using assms(1) by (auto simp: config_ok_def geometry_ok_def)
  then have "0 < banks (dram cfg) * ranks (dram cfg)" by simp
  with p assms(2) show ?thesis
    by (auto simp: CommandQueue_new_def cq_wf_def queued_def)
qed

lemma sdiv_queue_index:
  assumes "config_ok cfg" "in_dims cfg (r, j, k)"
  shows "(r * banks (dram cfg) + j * banks_per_group (dram cfg) + k) sdiv banks (dram cfg) = r"
proof -
  let ?g = "bankgroups (dram cfg)" and ?b = "banks_per_group (dram cfg)"
  have d: "0 \<le> r" "0 \<le> j" "j < ?g" "0 \<le> k" "k < ?b" using assms(2) by (auto simp: in_dims_def)
  have b: "banks (dram cfg) = ?g * ?b" "0 < ?g * ?b" using assms(1) d by (auto simp: config_ok_def)
  have "(j + 1) * ?b \<le> ?g * ?b" using d by (intro mult_right_mono) auto
  then have lo: "0 \<le> j * ?b + k" "j * ?b + k < ?g * ?b" using d by (auto simp: algebra_simps)
  have "(r * (?g * ?b) + (j * ?b + k)) div (?g * ?b) = r + (j * ?b + k) div (?g * ?b)"
    by (rule div_mult_self3) (use d in simp)
  also have "(j * ?b + k) div (?g * ?b) = 0" by (rule div_pos_pos_trivial [OF lo])
  finally have "(r * (?g * ?b) + (j * ?b + k)) div (?g * ?b) = r" by simp
  moreover have "0 \<le> r * (?g * ?b) + (j * ?b + k)" using d lo b by simp
  ultimately show ?thesis
    using b by (cases "r * (?g * ?b) + (j * ?b + k) = 0") (simp_all add: signed_divide_int_def add.assoc)
qed

section \<open>Properties\<close>

text \<open>
  Claim C14. Selecting a command never aborts (in particular the erasure of a read or write always
  finds it) and is exact: a valid result is the next step of a queued command that may be issued
  now, taken from a queue that no refresh blocks, and a write is never taken past an earlier read
  of the same location; a read or write leaves the queues, anything else leaves them as they are; and
  the placement and capacity invariant of the queues is kept.
\<close>

theorem GetCommandToIssue_correct:
  assumes "config_ok cfg" "chan_wf cfg cs" "cq_wf cfg cq" "stats_wf cfg st"
  shows "succeeds (GetCommandToIssue cfg cs cq st) (\<lambda>(cmd, cq', st'). cq_wf cfg cq' \<and> stats_wf cfg st'
    \<and> (IsValid cmd \<longrightarrow> chosen cfg cs cq cmd)
    \<and> queued cq = (if IsReadWrite cmd then add_mset cmd (queued cq') else queued cq'))"
  by (rule succeeds_mono [OF GetCommandToIssue_ok [OF assms]]) auto

definition demo_queue :: CommandQueue where
  "demo_queue =
     \<lparr>rank_q_empty = [False, True], cq_structure = PER_RANK,
      queues = [[mk_Command READ (AddressMapping small_config 4096) 4096], []],
      ref_q_indices = {}, is_in_ref = False, num_queues = 2, queue_size = 8, queue_idx = 0, cq_clk = 7\<rparr>"

lemma demo_queue_wf: "cq_wf small_config demo_queue"
  by code_simp

definition small_stats :: SimpleStats where
  "small_stats = (case SimpleStats_new small_config of Inr s \<Rightarrow> s | Inl e \<Rightarrow> SimpleStats_empty)"

lemma small_stats_wf: "stats_wf small_config small_stats"
  using SimpleStats_new_wf [of small_config]
  by (auto simp: small_stats_def small_config_def lpddr5_config_def succeeds_iff)

lemma small_chan_wf: "chan_wf small_config (ChannelState_new small_config)"
  using small_config_ok by (simp add: config_ok_def chan_wf_new)

theorem GetCommandToIssue_correct_witness:
  "succeeds (GetCommandToIssue small_config (ChannelState_new small_config) demo_queue small_stats)
    (\<lambda>(cmd, cq', st'). cq_wf small_config cq' \<and> stats_wf small_config st'
    \<and> (IsValid cmd \<longrightarrow> chosen small_config (ChannelState_new small_config) demo_queue cmd)
    \<and> queued demo_queue = (if IsReadWrite cmd then add_mset cmd (queued cq') else queued cq'))"
  by (rule GetCommandToIssue_correct [OF small_config_ok small_chan_wf demo_queue_wf small_stats_wf])

text \<open>
  Claim C15. The round-robin scan is complete: when no command is chosen, every command of every
  queue that no refresh blocks had a reason to be passed over, namely nothing can be issued for it
  now, or it needs a precharge that the arbitration denies, or it is a write behind an earlier read
  of the same location.
\<close>

theorem no_ready_command_overlooked:
  assumes "cq_wf cfg cq" "GetCommandToIssue cfg cs cq st = Inr (cmd, cq', st')" "\<not> IsValid cmd"
    and "0 \<le> i" "i < num_queues cq" "\<not> (is_in_ref cq \<and> i \<in> ref_q_indices cq)"
    and "queues cq ! nat i = pre @ c # post"
  shows "passed_over cfg cs (cq_clk cq) pre c post"
  using GetCommandToIssue_none [OF assms(1-5)] assms(6,7) idle_queue_passes by metis

text \<open>A channel where an activation of rank 0 has just been issued and rank 0 wants a refresh.\<close>

definition busy_channel :: ChannelState where
  "busy_channel =
     (case UpdateTimingAndStates small_config (Timing_new small_config) (ChannelState_new small_config)
             (mk_Command ACTIVATE (mk_Address 0 0 0 0 5 0) 0) 1 of
        Inr cs \<Rightarrow> RankNeedRefresh cs 0 True
      | Inl e \<Rightarrow> ChannelState_new small_config)"

lemma busy_channel_wf: "chan_wf small_config busy_channel"
proof -
  have "ChannelState_GetReadyCommand small_config (ChannelState_new small_config)
      (mk_Command READ (mk_Address 0 0 0 0 5 0) 0) 1 = Inr (mk_Command ACTIVATE (mk_Address 0 0 0 0 5 0) 0)"
    "cmd_in_dims small_config (mk_Command READ (mk_Address 0 0 0 0 5 0) 0)"
    "IsValid (mk_Command ACTIVATE (mk_Address 0 0 0 0 5 0) 0)" by code_simp+
  from issue_preserves_wf [OF small_chan_wf GetReadyCommand_issuable [OF small_chan_wf small_config_ok this(2,1,3)]
      sref_exit_rankwide_new, of small_config]
  show ?thesis
    by (auto simp: busy_channel_def succeeds_iff small_config_def lpddr5_config_def intro!: RankNeedRefresh_wf)
qed

theorem no_ready_command_overlooked_witness:
  "\<exists>cmd cq' st'. GetCommandToIssue small_config busy_channel demo_queue small_stats = Inr (cmd, cq', st')
     \<and> passed_over small_config busy_channel 7 [] (mk_Command READ (AddressMapping small_config 4096) 4096) []"
proof -
  have "case GetCommandToIssue small_config busy_channel demo_queue small_stats of
      Inr (cmd, cq', st') \<Rightarrow> \<not> IsValid cmd | Inl e \<Rightarrow> False" by code_simp
  then obtain cmd cq' st' where *: "GetCommandToIssue small_config busy_channel demo_queue small_stats = Inr (cmd, cq', st')"
    "\<not> IsValid cmd" by (auto split: sum.splits prod.splits)
  with no_ready_command_overlooked [OF demo_queue_wf *, of 0 "[]"] show ?thesis by (simp add: demo_queue_def)
qed

lemma ready_keeps_rank:
  assumes "chan_wf cfg cs" "queued_ok cfg c" "ChannelState_GetReadyCommand cfg cs c clk = Inr rc" "IsValid rc"
  shows "Rank rc = Rank c"
proof -
  have dims: "bank_dims cfg (bank_states cs)" using chan_wfD(1) [OF assms(1)] by (simp add: chan_dims_def)
  have "\<not> IsRankCMD c" using queued_okD(1) [OF assms(2)] by (auto simp: command_kind_defs)
  then have "BankState_GetReadyCommand (bank_of cs (Rank c, Bankgroup c, Bank c)) c clk = Inr rc"
    using assms(3,4) bank_at_in [OF dims queued_okD(3) [OF assms(2)]]
    by (auto simp: ChannelState_GetReadyCommand_def res_simps split: if_splits)
  then show ?thesis using assms(4) by (auto elim!: GetReadyCommand_valid)
qed

text \<open>
  While a rank refresh is pending, the queues do not feed that rank: once
  \<open>FinishRefresh\<close> has started on it, the next command chosen from the queues is for another rank.
\<close>

theorem refresh_blocks_rank:
  assumes "config_ok cfg" "chan_wf cfg cs" "cq_wf cfg cq" "stats_wf cfg st" "\<not> is_in_ref cq"
    and "refresh_q cs = ref # rest" "cmd_type ref = REFRESH"
    and "FinishRefresh cfg cs cq = Inr (rc, cq1)" "\<not> IsRefresh rc"
    and "GetCommandToIssue cfg cs cq1 st = Inr (cmd, cq2, st2)" "IsValid cmd"
  shows "Rank cmd \<noteq> Rank ref"
proof
  assume same: "Rank cmd = Rank ref"
  have b: "banks (dram cfg) \<noteq> 0" using assms(1) by (simp add: config_ok_def geometry_ok_def)
  let ?ri = "ref_q_indices cq \<union> ref_indices cfg cq ref"
  have cq1: "cq1 = cq\<lparr>ref_q_indices := ?ri, is_in_ref := True\<rparr>"
    using assms(5-9) GetRefQIndices_form [OF b, of cq ref] by (auto simp: FinishRefresh_def PendingRefCommand_def nth_res_def res_simps)
  have wf1: "cq_wf cfg cq1" using assms(3) by (simp add: cq1)
  from GetCommandToIssue_ok [OF assms(1,2) wf1 assms(4)] assms(10,11) have "chosen cfg cs cq1 cmd" by simp
  then obtain i pre c post where i: "i < length (queues cq1)" "int i \<notin> ?ri" "queues cq1 ! i = pre @ c # post"
    "ChannelState_GetReadyCommand cfg cs c (cq_clk cq1) = Inr cmd"
    unfolding chosen_def found_in_def by (auto simp: cq1)
  have mem: "c \<in> set (queues cq1 ! i)" using i(3) by simp
  have c: "queued_ok cfg c" "GetQueueIndex cfg cq1 (Rank c) (Bankgroup c) (Bank c) = int i"
    using cq_wfD(4,5) [OF wf1 i(1) mem] by blast+
  have "Rank cmd = Rank c" by (rule ready_keeps_rank [OF assms(2) c(1) i(4) assms(11)])
  with same have rk: "Rank c = Rank ref" by simp
  have nq: "int i < num_queues cq" using i(1) cq_wfD(3) [OF wf1] by (simp add: cq1)
  have "int i \<in> ref_indices cfg cq ref"
    using c(2) rk nq sdiv_queue_index [OF assms(1) queued_okD(3) [OF c(1)]] assms(3,7)
    by (auto simp: ref_indices_def GetQueueIndex_def cq1 cq_wf_def split: if_splits)
  with i(2) show False by simp
qed

end
