(* ===== verification/Mem_Controller.thy ===== *)
theory Mem_Controller
  imports Command_Queue
begin

text \<open>
  \<^verbatim>\<open>DRAMsim3/src/controller.h\<close> and \<^verbatim>\<open>controller.cc\<close>: the controller of one channel.  It owns the
  channel state, the command queue, the refresh component and the statistics, the transaction
  queues, the pending and returning transactions.  The multimaps of pending transactions are
  association lists in insertion order, so that \<^verbatim>\<open>find\<close> yields the first entry of a key and
  \<^verbatim>\<open>insert\<close> appends.  \<open>cmd_trace\<close> is the command trace that builds with \<^verbatim>\<open>CMD_TRACE\<close> write.
\<close>

section \<open>State\<close>

type_synonym pending = "(u64 \<times> Transaction) list"

record Controller =
  channel_id :: int
  ctl_clk :: u64
  simple_stats :: SimpleStats
  channel_state :: ChannelState
  cmd_queue :: CommandQueue
  refresh :: Refresh
  is_unified_queue :: bool
  ctl_unified_queue :: "Transaction vec"
  read_queue :: "Transaction vec"
  write_buffer :: "Transaction vec"
  pending_rd_q :: pending
  pending_wr_q :: pending
  return_queue :: "Transaction list"
  ctl_row_buf_policy :: RowBufPolicy
  last_trans_clk :: u64
  write_draining :: int
  cmd_trace :: "(u64 \<times> Command) list"

definition Controller_new :: "int \<Rightarrow> Config \<Rightarrow> Controller res" where
  "Controller_new channel cfg =
     bindE (SimpleStats_new cfg) (\<lambda>st.
     bindE (CommandQueue_new cfg) (\<lambda>cq.
     bindE (Refresh_new cfg) (\<lambda>rf.
     let u = unified_queue (sys cfg); n = trans_queue_size (sys cfg) in
     Inr \<lparr>channel_id = channel, ctl_clk = 0, simple_stats = st, channel_state = ChannelState_new cfg,
          cmd_queue = cq, refresh = rf, is_unified_queue = u,
          ctl_unified_queue = vec_reserve (if u then n else 0),
          read_queue = vec_reserve (if u then 0 else n),
          write_buffer = vec_reserve (if u then 0 else n),
          pending_rd_q = [], pending_wr_q = [], return_queue = [],
          ctl_row_buf_policy = (if row_buf_policy (sys cfg) = ''CLOSE_PAGE'' then CLOSE_PAGE else OPEN_PAGE),
          last_trans_clk = 0, write_draining = 0, cmd_trace = []\<rparr>)))"

section \<open>Returning transactions\<close>

definition ReturnDoneTrans :: "u64 \<Rightarrow> Controller \<Rightarrow> (u64 \<times> int) \<times> Controller" where
  "ReturnDoneTrans clk s =
     (case find (\<lambda>it. clk \<ge> complete_cycle it) (return_queue s) of
        None \<Rightarrow> ((-1, -1), s)
      | Some it \<Rightarrow>
          ((tr_addr it, if is_write it then 1 else 0),
           s\<lparr>simple_stats :=
                (if is_write it then Increment ''num_writes_done'' (simple_stats s)
                 else AddValue ''read_latency'' (to_int32 (ctl_clk s - added_cycle it))
                        (Increment ''num_reads_done'' (simple_stats s))),
              return_queue := erase_first (\<lambda>it. clk \<ge> complete_cycle it) (return_queue s)\<rparr>))"

definition IsAllQueueEmpty :: "Controller \<Rightarrow> bool" where
  "IsAllQueueEmpty s =
     (if return_queue s \<noteq> [] then False
      else if \<not> CommandQueue_QueueEmpty (cmd_queue s) then False
      else if is_unified_queue s \<and> vec_items (ctl_unified_queue s) \<noteq> [] then False
      else if \<not> is_unified_queue s
              \<and> (vec_items (read_queue s) \<noteq> [] \<or> vec_items (write_buffer s) \<noteq> []) then False
      else True)"

definition IsReadQueueEmpty :: "Controller \<Rightarrow> bool" where
  "IsReadQueueEmpty s = (length (pending_rd_q s) = 0)"

definition IsWriteQueueEmpty :: "Controller \<Rightarrow> bool" where
  "IsWriteQueueEmpty s = (length (pending_wr_q s) = 0)"

definition Controller_QueueEmpty :: "Controller \<Rightarrow> bool" where
  "Controller_QueueEmpty s = CommandQueue_QueueEmpty (cmd_queue s)"

definition Controller_QueueUsage :: "Controller \<Rightarrow> int" where
  "Controller_QueueUsage s = CommandQueue_QueueUsage (cmd_queue s)"

section \<open>Accepting transactions\<close>

definition vec_accepts :: "'a vec \<Rightarrow> bool" where
  "vec_accepts v = (length (vec_items v) < vec_cap v)"

definition Controller_WillAcceptTransaction :: "Controller \<Rightarrow> u64 \<Rightarrow> bool \<Rightarrow> bool" where
  "Controller_WillAcceptTransaction s hex is_wr =
     (if is_unified_queue s then vec_accepts (ctl_unified_queue s)
      else if \<not> is_wr then vec_accepts (read_queue s)
      else vec_accepts (write_buffer s))"

definition key_count :: "u64 \<Rightarrow> pending \<Rightarrow> nat" where
  "key_count a p = length (filter (\<lambda>(k, t). k = a) p)"

definition Controller_AddTransaction :: "Transaction \<Rightarrow> Controller \<Rightarrow> bool \<times> Controller" where
  "Controller_AddTransaction txn0 s0 =
     (let txn = txn0\<lparr>added_cycle := ctl_clk s0\<rparr>;
          s = s0\<lparr>simple_stats := AddValue ''interarrival_latency''
                   (to_int32 (ctl_clk s0 - last_trans_clk s0)) (simple_stats s0),
                 last_trans_clk := ctl_clk s0\<rparr>
      in if is_write txn then
           (let s1 = (if key_count (tr_addr txn) (pending_wr_q s) = 0 then
                        (let s' = s\<lparr>pending_wr_q := pending_wr_q s @ [(tr_addr txn, txn)]\<rparr> in
                         if is_unified_queue s'
                         then s'\<lparr>ctl_unified_queue := vec_push_back (ctl_unified_queue s') txn\<rparr>
                         else s'\<lparr>write_buffer := vec_push_back (write_buffer s') txn\<rparr>)
                      else s)
            in (True, s1\<lparr>return_queue := return_queue s1 @ [txn\<lparr>complete_cycle := ctl_clk s1 + 1\<rparr>]\<rparr>))
         else if key_count (tr_addr txn) (pending_wr_q s) > 0 then
           (True, s\<lparr>return_queue := return_queue s @ [txn\<lparr>complete_cycle := ctl_clk s + 1\<rparr>]\<rparr>)
         else
           (let s1 = s\<lparr>pending_rd_q := pending_rd_q s @ [(tr_addr txn, txn)]\<rparr> in
            (True,
             if key_count (tr_addr txn) (pending_rd_q s1) = 1 then
               (if is_unified_queue s1
                then s1\<lparr>ctl_unified_queue := vec_push_back (ctl_unified_queue s1) txn\<rparr>
                else s1\<lparr>read_queue := vec_push_back (read_queue s1) txn\<rparr>)
             else s1)))"

section \<open>Scheduling\<close>

definition TransToCommand :: "Config \<Rightarrow> Controller \<Rightarrow> Transaction \<Rightarrow> Command" where
  "TransToCommand cfg s txn =
     mk_Command
       (if ctl_row_buf_policy s = OPEN_PAGE then (if is_write txn then WRITE else READ)
        else (if is_write txn then WRITE_PRECHARGE else READ_PRECHARGE))
       (AddressMapping cfg (tr_addr txn)) (tr_addr txn)"

text \<open>The queue the reference \<^verbatim>\<open>queue\<close> is bound to.\<close>

definition selected_queue :: "Controller \<Rightarrow> Transaction vec" where
  "selected_queue s =
     (if is_unified_queue s then ctl_unified_queue s
      else if write_draining s > 0 then write_buffer s else read_queue s)"

definition erase_selected :: "nat \<Rightarrow> Controller \<Rightarrow> Controller \<Rightarrow> Controller" where
  "erase_selected i s0 s =
     (if is_unified_queue s0
      then s\<lparr>ctl_unified_queue := (ctl_unified_queue s)\<lparr>vec_items := erase_at i (vec_items (ctl_unified_queue s))\<rparr>\<rparr>
      else if write_draining s0 > 0
      then s\<lparr>write_buffer := (write_buffer s)\<lparr>vec_items := erase_at i (vec_items (write_buffer s))\<rparr>\<rparr>
      else s\<lparr>read_queue := (read_queue s)\<lparr>vec_items := erase_at i (vec_items (read_queue s))\<rparr>\<rparr>)"

text \<open>\<open>s0\<close> is the state when \<^verbatim>\<open>queue\<close> was bound; \<open>i\<close> is the position of the iterator.\<close>

fun schedule_loop :: "Config \<Rightarrow> Controller \<Rightarrow> nat \<Rightarrow> Transaction list \<Rightarrow> Controller res" where
  "schedule_loop cfg s i [] = Inr s"
| "schedule_loop cfg s i (t # ts) =
     (let cmd = TransToCommand cfg s t in
      bindE (WillAcceptCommand cfg (cmd_queue s) (Rank cmd) (Bankgroup cmd) (Bank cmd)) (\<lambda>ok.
      if \<not> ok then schedule_loop cfg s (Suc i) ts
      else if \<not> is_unified_queue s \<and> IsWrite cmd \<and> key_count (tr_addr t) (pending_rd_q s) > 0
      then Inr (s\<lparr>write_draining := 0\<rparr>)
      else
        bindE (AddCommand cfg (cmd_queue s) cmd) (\<lambda>(added, cq).
        Inr (erase_selected i s
          (s\<lparr>cmd_queue := cq,
             write_draining := (if \<not> is_unified_queue s \<and> IsWrite cmd
                                then write_draining s - 1 else write_draining s)\<rparr>)))))"

definition ScheduleTransaction :: "Config \<Rightarrow> Controller \<Rightarrow> Controller res" where
  "ScheduleTransaction cfg s =
     (let wb = write_buffer s;
          s1 = (if write_draining s = 0 \<and> \<not> is_unified_queue s then
                  (if length (vec_items wb) \<ge> vec_cap wb
                      \<or> length (vec_items wb) > 8 \<and> CommandQueue_QueueEmpty (cmd_queue s)
                      \<or> length (vec_items (read_queue s)) = 0
                   then s\<lparr>write_draining := int (length (vec_items wb))\<rparr> else s)
                else s)
      in schedule_loop cfg s1 0 (vec_items (selected_queue s1)))"

section \<open>Issuing commands\<close>

definition UpdateCommandStats :: "ChannelState \<Rightarrow> Command \<Rightarrow> SimpleStats \<Rightarrow> SimpleStats res" where
  "UpdateCommandStats cs cmd st =
     (case cmd_type cmd of
        ACTIVATE \<Rightarrow> Inr (Increment ''num_act_cmds'' st)
      | PRECHARGE \<Rightarrow> Inr (Increment ''num_pre_cmds'' st)
      | REFRESH \<Rightarrow> Inr (Increment ''num_ref_cmds'' st)
      | REFRESH_BANK \<Rightarrow> Inr (Increment ''num_refb_cmds'' st)
      | SREF_ENTER \<Rightarrow> Inr (Increment ''num_srefe_cmds'' st)
      | SREF_EXIT \<Rightarrow> Inr (Increment ''num_srefx_cmds'' st)
      | CMD_SIZE \<Rightarrow> Inl (AbruptExit ''controller.cc'' 360)
      | _ \<Rightarrow>
          (let st1 = Increment (if IsRead cmd then ''num_read_cmds'' else ''num_write_cmds'') st in
           bindE (ChannelState_RowHitCount cs (Rank cmd) (Bankgroup cmd) (Bank cmd)) (\<lambda>hits.
           Inr (if hits \<noteq> 0
                then Increment (if IsRead cmd then ''num_read_row_hits'' else ''num_write_row_hits'') st1
                else st1))))"

text \<open>The loop that returns all pending reads of an address.\<close>

fun return_reads :: "nat \<Rightarrow> u64 \<Rightarrow> u64 \<Rightarrow> pending \<times> Transaction list \<Rightarrow> (pending \<times> Transaction list) res" where
  "return_reads 0 a t pr = Inr pr"
| "return_reads (Suc n) a t (p, rq) =
     (case find (\<lambda>(k, tr). k = a) p of
        None \<Rightarrow> Inl OutOfRange
      | Some (k, tr) \<Rightarrow>
          return_reads n a t (erase_first (\<lambda>(k, tr). k = a) p, rq @ [tr\<lparr>complete_cycle := t\<rparr>]))"

definition issue_pending :: "Config \<Rightarrow> Command \<Rightarrow> Controller \<Rightarrow> Controller res" where
  "issue_pending cfg cmd s =
     (if IsRead cmd then
        (let num_reads = key_count (hex_addr cmd) (pending_rd_q s) in
         if num_reads = 0 then Inl (ExitCall 1)
         else bindE (return_reads num_reads (hex_addr cmd) (ctl_clk s + of_int (read_delay (tim cfg)))
                       (pending_rd_q s, return_queue s)) (\<lambda>(p, rq).
              Inr (s\<lparr>pending_rd_q := p, return_queue := rq\<rparr>)))
      else if IsWrite cmd then
        (case find (\<lambda>(k, tr). k = hex_addr cmd) (pending_wr_q s) of
           None \<Rightarrow> Inl (ExitCall 1)
         | Some (k, tr) \<Rightarrow>
             Inr (s\<lparr>simple_stats := AddValue ''write_latency''
                      (to_int32 (ctl_clk s - added_cycle tr + of_int (write_delay (tim cfg)))) (simple_stats s),
                    pending_wr_q := erase_first (\<lambda>(k, tr). k = hex_addr cmd) (pending_wr_q s)\<rparr>))
      else Inr s)"

definition IssueCommand :: "Config \<Rightarrow> Timing \<Rightarrow> Command \<Rightarrow> Controller \<Rightarrow> Controller res" where
  "IssueCommand cfg tm cmd s0 =
     (let s = s0\<lparr>cmd_trace := cmd_trace s0 @ [(ctl_clk s0, cmd)]\<rparr> in
      bindE (issue_pending cfg cmd s) (\<lambda>s1.
      bindE (UpdateCommandStats (channel_state s1) cmd (simple_stats s1)) (\<lambda>st.
      bindE (UpdateTimingAndStates cfg tm (channel_state s1) cmd (ctl_clk s1)) (\<lambda>cs.
      Inr (s1\<lparr>simple_stats := st, channel_state := cs\<rparr>)))))"

section \<open>One clock cycle\<close>

definition next_command :: "Config \<Rightarrow> Controller \<Rightarrow> (Command \<times> Controller) res" where
  "next_command cfg s =
     bindE (if IsRefreshWaiting (channel_state s)
            then bindE (FinishRefresh cfg (channel_state s) (cmd_queue s)) (\<lambda>(cmd, cq).
                   Inr (cmd, s\<lparr>cmd_queue := cq\<rparr>))
            else Inr (Command_default, s)) (\<lambda>(cmd, s1).
     if IsValid cmd then Inr (cmd, s1)
     else bindE (GetCommandToIssue cfg (channel_state s1) (cmd_queue s1) (simple_stats s1)) (\<lambda>(cmd2, cq, st).
          Inr (cmd2, s1\<lparr>cmd_queue := cq, simple_stats := st\<rparr>)))"

definition issue_dual :: "Config \<Rightarrow> Timing \<Rightarrow> Command \<Rightarrow> Controller \<Rightarrow> Controller res" where
  "issue_dual cfg tm cmd s =
     bindE (GetCommandToIssue cfg (channel_state s) (cmd_queue s) (simple_stats s)) (\<lambda>(second, cq, st).
     let s1 = s\<lparr>cmd_queue := cq, simple_stats := st\<rparr> in
     if IsValid second \<and> IsReadWrite second \<noteq> IsReadWrite cmd
     then bindE (IssueCommand cfg tm second s1) (\<lambda>s2.
          Inr (s2\<lparr>simple_stats := Increment ''hbm_dual_cmds'' (simple_stats s2)\<rparr>))
     else Inr s1)"

definition rank_power :: "Config \<Rightarrow> int \<Rightarrow> Controller \<Rightarrow> Controller res" where
  "rank_power cfg i s =
     bindE (IsRankSelfRefreshing (channel_state s) i) (\<lambda>sr.
     if sr then bindE (IncrementVec ''sref_cycles'' i (simple_stats s)) (\<lambda>st. Inr (s\<lparr>simple_stats := st\<rparr>))
     else
       bindE (IsAllBankIdleInRank cfg (channel_state s) i) (\<lambda>idle.
       bindE (nth_res (rank_idle_cycles (channel_state s)) i) (\<lambda>n.
       bindE (upd_res (rank_idle_cycles (channel_state s)) i (if idle then n + 1 else 0)) (\<lambda>ric.
       bindE (IncrementVec (if idle then ''all_bank_idle_cycles'' else ''rank_active_cycles'') i (simple_stats s)) (\<lambda>st.
       Inr (s\<lparr>simple_stats := st, channel_state := (channel_state s)\<lparr>rank_idle_cycles := ric\<rparr>\<rparr>))))))"

definition rank_command :: "CommandType \<Rightarrow> int \<Rightarrow> Command" where
  "rank_command ct i = mk_Command ct (Address_default\<lparr>ad_rank := i\<rparr>) (-1)"

text \<open>The loop of part two; it leaves after the first command it issues.\<close>

fun self_refresh_loop :: "Config \<Rightarrow> Timing \<Rightarrow> int list \<Rightarrow> Controller \<Rightarrow> Controller res" where
  "self_refresh_loop cfg tm [] s = Inr s"
| "self_refresh_loop cfg tm (i # is) s =
     bindE (IsRankSelfRefreshing (channel_state s) i) (\<lambda>sr.
     bindE (nth_res (rank_q_empty (cmd_queue s)) i) (\<lambda>empty.
     bindE (nth_res (rank_idle_cycles (channel_state s)) i) (\<lambda>idle_cycles.
     if (if sr then \<not> empty else empty \<and> idle_cycles \<ge> sref_threshold (sys cfg)) then
       bindE (ChannelState_GetReadyCommand cfg (channel_state s)
                (rank_command (if sr then SREF_EXIT else SREF_ENTER) i) (ctl_clk s)) (\<lambda>cmd.
       if IsValid cmd then IssueCommand cfg tm cmd s else self_refresh_loop cfg tm is s)
     else self_refresh_loop cfg tm is s)))"

definition Controller_ClockTick :: "Config \<Rightarrow> Timing \<Rightarrow> Controller \<Rightarrow> Controller res" where
  "Controller_ClockTick cfg tm s =
     bindE (Refresh_ClockTick cfg (refresh s) (channel_state s)) (\<lambda>(rf, cs).
     bindE (next_command cfg (s\<lparr>refresh := rf, channel_state := cs\<rparr>)) (\<lambda>(cmd, s1).
     bindE (if IsValid cmd then
              bindE (IssueCommand cfg tm cmd s1) (\<lambda>s2.
              if enable_hbm_dual_cmd (dram cfg) then issue_dual cfg tm cmd s2 else Inr s2)
            else Inr s1) (\<lambda>s3.
     bindE (fold_res (rank_power cfg) (int_range (ranks (dram cfg))) s3) (\<lambda>s4.
     bindE (if enable_self_refresh (sys cfg) \<and> \<not> IsValid cmd
            then self_refresh_loop cfg tm (int_range (ranks (dram cfg))) s4 else Inr s4) (\<lambda>s5.
     bindE (ScheduleTransaction cfg s5) (\<lambda>s6.
     Inr (s6\<lparr>ctl_clk := ctl_clk s6 + 1, cmd_queue := CommandQueue_ClockTick (cmd_queue s6),
             simple_stats := Increment ''num_cycles'' (simple_stats s6)\<rparr>)))))))"

section \<open>Statistics\<close>

definition Controller_PrintEpochStats :: "Controller \<Rightarrow> Controller res" where
  "Controller_PrintEpochStats s =
     bindE (SimpleStats_PrintEpochStats (Increment ''epoch_num'' (simple_stats s))) (\<lambda>st.
     Inr (s\<lparr>simple_stats := st\<rparr>))"

definition Controller_PrintFinalStats :: "Controller \<Rightarrow> Controller res" where
  "Controller_PrintFinalStats s =
     bindE (SimpleStats_PrintFinalStats (simple_stats s)) (\<lambda>st. Inr (s\<lparr>simple_stats := st\<rparr>))"

definition Controller_ResetStats :: "Controller \<Rightarrow> Controller" where
  "Controller_ResetStats s = s\<lparr>simple_stats := SimpleStats_Reset (simple_stats s)\<rparr>"

end
