(* ===== verification/Controller_Safety.thy ===== *)
theory Controller_Safety
  imports Mem_Controller
begin

text \<open>
  Correctness of the controller of a channel over whole runs: no clock cycle aborts, the issued
  commands respect the timing tables, every accepted transaction is answered exactly once, writes
  never pass older reads of the same address, and the queues stay within their bounds.  The
  invariant ties the pending transactions to the work that is queued for them.
\<close>

section \<open>Commands issued so far bound the deadlines\<close>

context timing_monitor
begin

lemma covered_step:
  assumes "valid s" "rdy s c t" "iss s c t = Inr s'" "time_ok t"
    and "\<And>t0 c0 b k d. (t0, c0) \<in> set tr \<Longrightarrow> resource b \<Longrightarrow> distance c0 b k d \<Longrightarrow> uint t0 + d \<le> deadline s b k"
    and "(t1, c1) \<in> set (tr @ [(t, c)])" "resource b" "distance c1 b k d"
  shows "uint t1 + d \<le> deadline s' b k"
proof (cases "(t1, c1) \<in> set tr")
  case True
  show ?thesis using assms(5) [OF True assms(7,8)] issue_keeps [OF assms(1-3,7), of k] by linarith
next
  case False
  then have "t1 = t" "c1 = c" using assms(6) by auto
  then show ?thesis using issue_sets [OF assms(1-3,7,4)] assms(8) by simp
qed

lemma covered_ready:
  assumes "valid s" "rdy s c t" "covers c b"
    and "\<And>t0 c0 b k d. (t0, c0) \<in> set tr \<Longrightarrow> resource b \<Longrightarrow> distance c0 b k d \<Longrightarrow> uint t0 + d \<le> deadline s b k"
    and "(t0, c0) \<in> set tr" "distance c0 b (kind c) d"
  shows "uint t0 + d \<le> uint t"
  using assms(4) [OF assms(5) covers_resource [OF assms(1-3)] assms(6)] ready_deadline [OF assms(1-3)]
  by linarith

end

definition covered :: "Config \<Rightarrow> ChannelState \<Rightarrow> (u64 \<times> Command) list \<Rightarrow> bool" where
  "covered cfg cs tr =
     (\<forall>t c p k d. (t, c) \<in> set tr \<longrightarrow> in_dims cfg p \<longrightarrow> (k, d) \<in> set (constraint_list (Timing_new cfg) c p) \<longrightarrow>
        uint t + d \<le> uint (cmd_timing (bank_of cs p) k))"

lemma coveredD:
  "covered cfg cs tr \<Longrightarrow> (t, c) \<in> set tr \<Longrightarrow> in_dims cfg p \<Longrightarrow>
     (k, d) \<in> set (constraint_list (Timing_new cfg) c p) \<Longrightarrow> uint t + d \<le> uint (cmd_timing (bank_of cs p) k)"
  unfolding covered_def by blast

lemma covered_cong: "bank_of cs' = bank_of cs \<Longrightarrow> covered cfg cs' tr = covered cfg cs tr"
  by (simp add: covered_def)

lemma covered_issue:
  assumes "chan_wf cfg cs" "issuable cfg cs c t" "UpdateTimingAndStates cfg (Timing_new cfg) cs c t = Inr cs'"
    "no_wrap (Timing_new cfg) t" "covered cfg cs tr"
  shows "covered cfg cs' (tr @ [(t, c)])"
  unfolding covered_def
proof (intro allI impI)
  fix t1 c1 p k d assume *: "(t1, c1) \<in> set (tr @ [(t, c)])" "in_dims cfg p"
    "(k, d) \<in> set (constraint_list (Timing_new cfg) c1 p)"
  show "uint t1 + d \<le> uint (cmd_timing (bank_of cs' p) k)"
    by (rule cm.covered_step [OF assms(1-4) _ *]) (rule coveredD [OF assms(5)])
qed

lemma respects_issue:
  assumes "chan_wf cfg cs" "issuable cfg cs c t" "covered cfg cs tr" "trace_respects_timing cfg tr"
  shows "trace_respects_timing cfg (tr @ [(t, c)])"
  unfolding trace_respects_timing_def
proof (intro allI impI, elim conjE)
  fix i j p d assume ij: "i < j" "j < length (tr @ [(t, c)])" "p \<in> targets cfg (snd ((tr @ [(t, c)]) ! j))"
    "(cmd_type (snd ((tr @ [(t, c)]) ! j)), d) \<in> set (constraint_list (Timing_new cfg) (snd ((tr @ [(t, c)]) ! i)) p)"
  have i: "i < length tr" "(tr @ [(t, c)]) ! i = tr ! i" using ij(1,2) by (auto simp: nth_append)
  have mem: "(fst (tr ! i), snd (tr ! i)) \<in> set tr" using i(1) by simp
  show "uint (fst ((tr @ [(t, c)]) ! i)) + d \<le> uint (fst ((tr @ [(t, c)]) ! j))"
  proof (cases "j < length tr")
    case True
    then have j: "(tr @ [(t, c)]) ! j = tr ! j" by (simp add: nth_append)
    show ?thesis
      using assms(4) ij(1) True ij(3,4) unfolding trace_respects_timing_def i(2) j by blast
  next
    case False
    then have j: "(tr @ [(t, c)]) ! j = (t, c)" using ij(2) by (auto simp: nth_append)
    show ?thesis
      unfolding i(2) j fst_conv
      by (rule cm.covered_ready [OF assms(1,2) _ _ mem])
        (use ij(3,4) i(2) j in \<open>auto intro: coveredD [OF assms(3)]\<close>)
  qed
qed

section \<open>Issuing a command\<close>

definition match_addr :: "u64 \<Rightarrow> u64 \<times> Transaction \<Rightarrow> bool" where
  "match_addr a e = (fst e = a)"

lemma match_addr_pair: "(\<lambda>(k, tr). k = a) = match_addr a"
  by (auto simp: match_addr_def)

lemma key_count_filter: "key_count a p = length (filter (match_addr a) p)"
  by (simp add: key_count_def match_addr_pair)

lemma keys_member: "a \<in> fst ` set p \<longleftrightarrow> (\<exists>e \<in> set p. match_addr a e)"
  unfolding match_addr_def by (metis image_iff)

lemma key_count_pos: "0 < key_count a p \<longleftrightarrow> a \<in> fst ` set p"
  by (auto simp: key_count_filter match_addr_def filter_empty_conv image_iff)

lemma key_count_zero: "key_count a p = 0 \<longleftrightarrow> a \<notin> fst ` set p"
  using key_count_pos [of a p] by linarith

lemma return_reads_all:
  assumes "n = length (filter (match_addr a) p)"
  shows "return_reads n a t (p, rq)
    = Inr (filter (\<lambda>e. \<not> match_addr a e) p, rq @ map (\<lambda>e. (snd e)\<lparr>complete_cycle := t\<rparr>) (filter (match_addr a) p))"
  using assms
proof (induction n arbitrary: p rq)
  case 0
  then have "\<forall>e \<in> set p. \<not> match_addr a e" by (simp add: filter_empty_conv)
  then have "filter (\<lambda>e. \<not> match_addr a e) p = p" by (simp add: filter_id_conv)
  then show ?case using 0 by simp
next
  case (Suc n)
  obtain pre e post where p: "p = pre @ e # post" "\<forall>x \<in> set pre. \<not> match_addr a x" "match_addr a e"
  proof -
    have "filter (match_addr a) p \<noteq> []" using Suc.prems by auto
    then have "\<exists>x \<in> set p. match_addr a x" by (auto simp: filter_empty_conv)
    from split_list_first_prop [OF this] show thesis using that by blast
  qed
  have f: "find (match_addr a) p = Some e"
    using p by (simp add: find_Some_iff) (metis length_append less_add_same_cancel1 list.size(4) nth_append nth_append_length nth_mem zero_less_Suc add_Suc_right)
  have er: "erase_first (match_addr a) p = pre @ post"
  proof -
    have "erase_first (match_addr a) (pre @ e # post) = pre @ post" if "\<forall>x \<in> set pre. \<not> match_addr a x" for pre
      using that p(3) by (induction pre) auto
    then show ?thesis using p by simp
  qed
  have fl: "filter (match_addr a) pre = []" "filter (\<lambda>e. \<not> match_addr a e) pre = pre"
    using p(2) by (simp_all add: filter_empty_conv filter_id_conv)
  have "return_reads (Suc n) a t (p, rq) = return_reads n a t (pre @ post, rq @ [(snd e)\<lparr>complete_cycle := t\<rparr>])"
    using f er by (cases e) (simp add: match_addr_pair)
  also have "\<dots> = Inr (filter (\<lambda>e. \<not> match_addr a e) (pre @ post),
      (rq @ [(snd e)\<lparr>complete_cycle := t\<rparr>]) @ map (\<lambda>e. (snd e)\<lparr>complete_cycle := t\<rparr>) (filter (match_addr a) (pre @ post)))"
    using Suc.prems p fl by (intro Suc.IH) simp
  finally show ?case using p fl by simp
qed

text \<open>The state after the pending transactions have been updated for a command.\<close>

definition issued_pending :: "Config \<Rightarrow> Command \<Rightarrow> Controller \<Rightarrow> Controller" where
  "issued_pending cfg cmd s =
     (if IsRead cmd then
        s\<lparr>pending_rd_q := filter (\<lambda>e. \<not> match_addr (hex_addr cmd) e) (pending_rd_q s),
          return_queue := return_queue s @
            map (\<lambda>e. (snd e)\<lparr>complete_cycle := ctl_clk s + of_int (read_delay (tim cfg))\<rparr>)
              (filter (match_addr (hex_addr cmd)) (pending_rd_q s))\<rparr>
      else if IsWrite cmd then
        s\<lparr>pending_wr_q := erase_first (match_addr (hex_addr cmd)) (pending_wr_q s)\<rparr>
      else s)"

lemma issue_pending_ok:
  assumes "IsRead cmd \<Longrightarrow> hex_addr cmd \<in> fst ` set (pending_rd_q s)"
    and "IsWrite cmd \<Longrightarrow> hex_addr cmd \<in> fst ` set (pending_wr_q s)" and "stats_wf cfg (simple_stats s)"
  shows "succeeds (issue_pending cfg cmd s) (\<lambda>s'. \<exists>st. stats_wf cfg st
    \<and> s' = (issued_pending cfg cmd s)\<lparr>simple_stats := st\<rparr>)"
proof -
  show ?thesis
  proof (cases "IsRead cmd")
    case True
    then have "0 < key_count (hex_addr cmd) (pending_rd_q s)" using assms(1) by (simp add: key_count_pos)
    then show ?thesis
      using True assms(3)
      by (auto simp: issue_pending_def issued_pending_def return_reads_all [OF key_count_filter]
          intro!: exI [of _ "simple_stats s"])
  next
    case nr: False
    show ?thesis
    proof (cases "IsWrite cmd")
      case True
      then have "\<exists>e \<in> set (pending_wr_q s). match_addr (hex_addr cmd) e"
        by (intro keys_member [THEN iffD1] assms(2))
      from erase_first_find [OF this]
      obtain e where e: "find (match_addr (hex_addr cmd)) (pending_wr_q s) = Some e" by (elim exE conjE)
      let ?st = "AddValue ''write_latency''
        (to_int32 (ctl_clk s - added_cycle (snd e) + of_int (write_delay (tim cfg)))) (simple_stats s)"
      show ?thesis
        using True nr e assms(3)
        by (cases e) (auto simp: issue_pending_def issued_pending_def match_addr_pair intro!: exI [of _ ?st])
    next
      case False
      then show ?thesis
        using nr assms(3) by (auto simp: issue_pending_def issued_pending_def intro!: exI [of _ "simple_stats s"])
    qed
  qed
qed

lemma UpdateCommandStats_ok:
  assumes "chan_wf cfg cs" "IsValid cmd" "cmd_in_dims cfg cmd" "stats_wf cfg st"
  shows "succeeds (UpdateCommandStats cs cmd st) (stats_wf cfg)"
proof -
  have dims: "bank_dims cfg (bank_states cs)" using chan_wfD(1) [OF assms(1)] by (simp add: chan_dims_def)
  show ?thesis
  proof (cases "IsReadWrite cmd")
    case True
    then have "in_dims cfg (Rank cmd, Bankgroup cmd, Bank cmd)"
      using assms(3) by (auto simp: cmd_in_dims_def command_kind_defs)
    from bank_at_in [OF dims this] True assms(4) show ?thesis
      by (auto simp: UpdateCommandStats_def ChannelState_RowHitCount_def Let_def command_kind_defs split: CommandType.splits)
  next
    case False
    then show ?thesis
      using assms(2,4) by (auto simp: UpdateCommandStats_def command_kind_defs split: CommandType.splits)
  qed
qed

lemma issued_pending_fields [simp]:
  "ctl_clk (issued_pending cfg cmd s) = ctl_clk s" "channel_state (issued_pending cfg cmd s) = channel_state s"
  "cmd_queue (issued_pending cfg cmd s) = cmd_queue s" "refresh (issued_pending cfg cmd s) = refresh s"
  "cmd_trace (issued_pending cfg cmd s) = cmd_trace s" "is_unified_queue (issued_pending cfg cmd s) = is_unified_queue s"
  "ctl_unified_queue (issued_pending cfg cmd s) = ctl_unified_queue s"
  "read_queue (issued_pending cfg cmd s) = read_queue s" "write_buffer (issued_pending cfg cmd s) = write_buffer s"
  by (simp_all add: issued_pending_def)

lemma IssueCommand_ok:
  assumes "chan_wf cfg (channel_state s)" "issuable cfg (channel_state s) cmd (ctl_clk s)"
    "stats_wf cfg (simple_stats s)"
    and "IsRead cmd \<Longrightarrow> hex_addr cmd \<in> fst ` set (pending_rd_q s)"
    and "IsWrite cmd \<Longrightarrow> hex_addr cmd \<in> fst ` set (pending_wr_q s)"
  shows "succeeds (IssueCommand cfg (Timing_new cfg) cmd s) (\<lambda>s'. \<exists>st cs. stats_wf cfg st \<and> chan_wf cfg cs
    \<and> UpdateTimingAndStates cfg (Timing_new cfg) (channel_state s) cmd (ctl_clk s) = Inr cs
    \<and> s' = (issued_pending cfg cmd s)\<lparr>simple_stats := st, channel_state := cs,
             cmd_trace := cmd_trace s @ [(ctl_clk s, cmd)]\<rparr>)"
proof -
  let ?s = "s\<lparr>cmd_trace := cmd_trace s @ [(ctl_clk s, cmd)]\<rparr>"
  have cmd: "IsValid cmd" "cmd_in_dims cfg cmd" using assms(2) by (simp_all add: issuable_def)
  obtain st1 where p: "issue_pending cfg cmd ?s = Inr ((issued_pending cfg cmd ?s)\<lparr>simple_stats := st1\<rparr>)"
    "stats_wf cfg st1"
    using issue_pending_ok [of cmd ?s cfg] assms(3-5) by (auto simp: succeeds_iff)
  obtain st where st: "UpdateCommandStats (channel_state s) cmd st1 = Inr st" "stats_wf cfg st"
    using UpdateCommandStats_ok [OF assms(1) cmd p(2)] by (auto simp: succeeds_iff)
  obtain cs where cs: "UpdateTimingAndStates cfg (Timing_new cfg) (channel_state s) cmd (ctl_clk s) = Inr cs" "chan_wf cfg cs"
    using issue_preserves_wf [OF assms(1,2) sref_exit_rankwide_new] by (auto simp: succeeds_iff)
  have "IssueCommand cfg (Timing_new cfg) cmd s
      = Inr ((issued_pending cfg cmd s)\<lparr>simple_stats := st, channel_state := cs,
             cmd_trace := cmd_trace s @ [(ctl_clk s, cmd)]\<rparr>)"
    using st(1) cs(1) by (simp add: IssueCommand_def p(1)) (simp add: issued_pending_def)
  then show ?thesis using st cs by auto
qed

section \<open>Pending transactions and queued work\<close>

text \<open>
  The transactions that wait for scheduling; the addresses with queued work for reads or for writes,
  as a waiting transaction or as a command; the answers the controller still owes.
\<close>

definition waiting :: "Controller \<Rightarrow> Transaction multiset" where
  "waiting s = mset (vec_items (ctl_unified_queue s)) + mset (vec_items (read_queue s)) + mset (vec_items (write_buffer s))"

definition tokens :: "bool \<Rightarrow> Transaction multiset \<Rightarrow> Command multiset \<Rightarrow> u64 multiset" where
  "tokens w ts qs =
     image_mset tr_addr {#t \<in># ts. is_write t = w#}
     + image_mset hex_addr {#c \<in># qs. if w then IsWrite c else IsRead c#}"

definition owed :: "Controller \<Rightarrow> (u64 \<times> bool) multiset" where
  "owed s = image_mset (\<lambda>t. (tr_addr t, is_write t)) (mset (return_queue s) + mset (map snd (pending_rd_q s)))"

text \<open>
  Each address with pending reads has exactly one queued read, and each pending write exactly one
  queued write; conversely all queued work belongs to a pending transaction.
\<close>

definition pending_ok :: "Transaction multiset \<Rightarrow> Command multiset \<Rightarrow> pending \<Rightarrow> pending \<Rightarrow> bool" where
  "pending_ok ts qs prd pwr =
     (tokens False ts qs = mset_set (fst ` set prd) \<and> tokens True ts qs = mset (map fst pwr)
      \<and> distinct (map fst pwr) \<and> (\<forall>e \<in> set prd. tr_addr (snd e) = fst e \<and> \<not> is_write (snd e)))"

lemma read_not_write: "IsRead c \<Longrightarrow> \<not> IsWrite c"
  by (auto simp: command_kind_defs)

lemma keys_without: "fst ` {e \<in> set p. \<not> match_addr a e} = fst ` set p - {a}"
  by (auto simp: match_addr_def)

lemma mset_set_add_mset:
  assumes "mset_set K = add_mset a T" "finite K"
  shows "a \<in> K" "T = mset_set (K - {a})"
proof -
  have "a \<in># mset_set K" using assms(1) by simp
  then show a: "a \<in> K" using assms(2) by simp
  show "T = mset_set (K - {a})" using assms(1) by (simp add: mset_set_Diff [OF assms(2)] a)
qed

lemma pending_ok_read:
  assumes "pending_ok ts (add_mset c qs) prd pwr" "IsRead c"
  shows "hex_addr c \<in> fst ` set prd"
    "pending_ok ts qs (filter (\<lambda>e. \<not> match_addr (hex_addr c) e) prd) pwr"
proof -
  have "mset_set (fst ` set prd) = add_mset (hex_addr c) (tokens False ts qs)"
    "tokens True ts (add_mset c qs) = tokens True ts qs"
    using assms read_not_write [OF assms(2)] by (simp_all add: pending_ok_def tokens_def)
  with mset_set_add_mset [OF this(1)] assms(1) show "hex_addr c \<in> fst ` set prd"
    "pending_ok ts qs (filter (\<lambda>e. \<not> match_addr (hex_addr c) e) prd) pwr"
    by (simp_all add: pending_ok_def keys_without)
qed

lemma pending_ok_write:
  assumes "pending_ok ts (add_mset c qs) prd pwr" "IsWrite c"
  shows "hex_addr c \<in> fst ` set pwr"
    "pending_ok ts qs prd (erase_first (match_addr (hex_addr c)) pwr)"
proof -
  let ?a = "hex_addr c"
  have t: "mset (map fst pwr) = add_mset ?a (tokens True ts qs)" "tokens False ts (add_mset c qs) = tokens False ts qs"
    using assms read_not_write [of c] by (auto simp: pending_ok_def tokens_def split: if_splits)
  have "?a \<in> set (map fst pwr)" unfolding set_mset_mset [symmetric] t(1) by simp
  then show a: "?a \<in> fst ` set pwr" by simp
  then have "\<exists>e \<in> set pwr. match_addr ?a e" by (rule keys_member [THEN iffD1])
  from erase_first_find [OF this]
  obtain e where e: "match_addr ?a e" "mset pwr = add_mset e (mset (erase_first (match_addr ?a) pwr))"
    by (elim exE conjE)
  have m: "mset (map fst pwr) = add_mset ?a (mset (map fst (erase_first (match_addr ?a) pwr)))"
    using e by (simp add: match_addr_def)
  then have "tokens True ts qs = mset (map fst (erase_first (match_addr ?a) pwr))" using t(1) by simp
  moreover have "distinct (map fst (erase_first (match_addr ?a) pwr))"
    using assms(1) mset_eq_imp_distinct_iff [of "map fst pwr" "?a # map fst (erase_first (match_addr ?a) pwr)"] m
    by (simp add: pending_ok_def)
  ultimately show "pending_ok ts qs prd (erase_first (match_addr ?a) pwr)"
    using assms(1) t(2) by (simp add: pending_ok_def)
qed

lemma pending_ok_schedule:
  "pending_ok ts (add_mset (TransToCommand cfg s t) qs) prd pwr = pending_ok (add_mset t ts) qs prd pwr"
proof -
  let ?c = "TransToCommand cfg s t"
  have c: "IsWrite ?c = is_write t" "IsRead ?c = (\<not> is_write t)" "hex_addr ?c = tr_addr t"
    by (simp_all add: TransToCommand_def command_kind_defs)
  have "tokens w ts (add_mset ?c qs) = tokens w (add_mset t ts) qs" for w
    by (cases w) (simp_all add: tokens_def c)
  then show ?thesis by (simp add: pending_ok_def)
qed

lemma pending_ok_add_read:
  assumes "pending_ok ts qs prd pwr" "\<not> is_write t" "tr_addr t = a"
  shows "pending_ok (if a \<in> fst ` set prd then ts else add_mset t ts) qs (prd @ [(a, t)]) pwr"
proof -
  have "mset_set (insert a (fst ` set prd)) = add_mset a (mset_set (fst ` set prd))" if "a \<notin> fst ` set prd"
    using that by simp
  then show ?thesis
    using assms by (auto simp: pending_ok_def tokens_def insert_absorb)
qed

lemma pending_ok_add_write:
  assumes "pending_ok ts qs prd pwr" "is_write t" "tr_addr t = a" "a \<notin> fst ` set pwr"
  shows "pending_ok (add_mset t ts) qs prd (pwr @ [(a, t)])"
  using assms by (simp add: pending_ok_def tokens_def)

text \<open>Work of a queued write is that of a pending write.\<close>

lemma queued_write_pending:
  assumes "pending_ok ts qs prd pwr" "c \<in># qs" "IsWrite c"
  shows "hex_addr c \<in> fst ` set pwr"
proof -
  obtain qs' where "qs = add_mset c qs'" using multi_member_split [OF assms(2)] by blast
  then show ?thesis using pending_ok_write(1) [of ts c qs'] assms by simp
qed

section \<open>The invariant of the controller\<close>

text \<open>
  With separate queues no write command is queued for an address that has a pending read.
\<close>

definition hazard_free :: "bool \<Rightarrow> Command multiset \<Rightarrow> pending \<Rightarrow> bool" where
  "hazard_free unified qs prd = (unified \<or> (\<forall>c \<in># qs. IsWrite c \<longrightarrow> hex_addr c \<notin> fst ` set prd))"

definition vec_ok :: "'a vec \<Rightarrow> bool" where
  "vec_ok v = (length (vec_items v) \<le> vec_cap v)"

definition ctl_wf :: "Config \<Rightarrow> Controller \<Rightarrow> bool" where
  "ctl_wf cfg s =
     (chan_wf cfg (channel_state s) \<and> awake (channel_state s) \<and> cq_wf cfg (cmd_queue s)
      \<and> stats_wf cfg (simple_stats s) \<and> refresh_wf cfg (refresh s) \<and> cq_clk (cmd_queue s) = ctl_clk s
      \<and> pending_ok (waiting s) (queued (cmd_queue s)) (pending_rd_q s) (pending_wr_q s)
      \<and> hazard_free (is_unified_queue s) (queued (cmd_queue s)) (pending_rd_q s)
      \<and> covered cfg (channel_state s) (cmd_trace s) \<and> trace_respects_timing cfg (cmd_trace s)
      \<and> vec_ok (ctl_unified_queue s) \<and> vec_ok (read_queue s) \<and> vec_ok (write_buffer s))"

lemma ctl_wfD:
  assumes "ctl_wf cfg s"
  shows "chan_wf cfg (channel_state s)" "awake (channel_state s)" "cq_wf cfg (cmd_queue s)"
    "stats_wf cfg (simple_stats s)" "refresh_wf cfg (refresh s)" "cq_clk (cmd_queue s) = ctl_clk s"
    "pending_ok (waiting s) (queued (cmd_queue s)) (pending_rd_q s) (pending_wr_q s)"
    "hazard_free (is_unified_queue s) (queued (cmd_queue s)) (pending_rd_q s)"
    "covered cfg (channel_state s) (cmd_trace s)" "trace_respects_timing cfg (cmd_trace s)"
    "vec_ok (ctl_unified_queue s)" "vec_ok (read_queue s)" "vec_ok (write_buffer s)"
  using assms unfolding ctl_wf_def by blast+

text \<open>
  The configurations considered: consistent geometry and address mapping, neither self refresh nor
  the dual command mode of HBM.
\<close>

definition ctl_config :: "Config \<Rightarrow> bool" where
  "ctl_config cfg =
     (config_ok cfg \<and> SetAddressMapping cfg = Inr cfg
      \<and> \<not> enable_self_refresh (sys cfg) \<and> \<not> enable_hbm_dual_cmd (dram cfg))"

lemma mapped_in_dims:
  assumes "ctl_config cfg"
  shows "let a = AddressMapping cfg h in in_dims cfg (ad_rank a, ad_bankgroup a, ad_bank a)"
  using AddressMapping_valid [of cfg cfg h] assms
  by (auto simp: ctl_config_def config_ok_def address_in_geometry_def in_dims_def Let_def)

lemma TransToCommand_queued_ok:
  assumes "ctl_config cfg"
  shows "queued_ok cfg (TransToCommand cfg s t)"
  using mapped_in_dims [OF assms, of "tr_addr t"]
  by (auto simp: queued_ok_def TransToCommand_def command_kind_defs Let_def)

section \<open>Scheduling\<close>

text \<open>What the phases of a clock cycle leave alone: the clock, the answers owed, and the bounds of the queues.\<close>

definition kept :: "Controller \<Rightarrow> Controller \<Rightarrow> bool" where
  "kept s s' = (ctl_clk s' = ctl_clk s \<and> owed s' = owed s \<and> is_unified_queue s' = is_unified_queue s
     \<and> vec_cap (ctl_unified_queue s') = vec_cap (ctl_unified_queue s)
     \<and> vec_cap (read_queue s') = vec_cap (read_queue s) \<and> vec_cap (write_buffer s') = vec_cap (write_buffer s))"

lemma kept_trans: "kept a b \<Longrightarrow> kept b c \<Longrightarrow> kept a c"
  by (simp add: kept_def)

lemma ctl_wf_draining [simp]:
  "ctl_wf cfg (s\<lparr>write_draining := n\<rparr>) = ctl_wf cfg s" "kept s (s\<lparr>write_draining := n\<rparr>)"
  by (simp_all add: ctl_wf_def waiting_def kept_def owed_def)

lemma erase_selected_fields [simp]:
  "ctl_clk (erase_selected i s0 s) = ctl_clk s" "channel_state (erase_selected i s0 s) = channel_state s"
  "cmd_queue (erase_selected i s0 s) = cmd_queue s" "refresh (erase_selected i s0 s) = refresh s"
  "simple_stats (erase_selected i s0 s) = simple_stats s"
  "cmd_trace (erase_selected i s0 s) = cmd_trace s" "is_unified_queue (erase_selected i s0 s) = is_unified_queue s"
  "pending_rd_q (erase_selected i s0 s) = pending_rd_q s" "pending_wr_q (erase_selected i s0 s) = pending_wr_q s"
  "return_queue (erase_selected i s0 s) = return_queue s"
  "vec_cap (ctl_unified_queue (erase_selected i s0 s)) = vec_cap (ctl_unified_queue s)"
  "vec_cap (read_queue (erase_selected i s0 s)) = vec_cap (read_queue s)"
  "vec_cap (write_buffer (erase_selected i s0 s)) = vec_cap (write_buffer s)"
  by (simp_all add: erase_selected_def)

lemma waiting_erase:
  assumes "i < length (vec_items (selected_queue s))"
    "ctl_unified_queue s' = ctl_unified_queue s" "read_queue s' = read_queue s" "write_buffer s' = write_buffer s"
  shows "add_mset (vec_items (selected_queue s) ! i) (waiting (erase_selected i s s')) = waiting s"
  using assms mset_erase_at [OF assms(1)]
  by (auto simp: waiting_def erase_selected_def selected_queue_def split: if_splits)

lemma vec_ok_erase: "vec_ok v \<Longrightarrow> vec_ok (v\<lparr>vec_items := erase_at i (vec_items v)\<rparr>)"
  by (auto simp: vec_ok_def erase_at_def)

lemma vec_ok_erase_selected:
  assumes "vec_ok (ctl_unified_queue s)" "vec_ok (read_queue s)" "vec_ok (write_buffer s)"
  shows "vec_ok (ctl_unified_queue (erase_selected i s0 s))" "vec_ok (read_queue (erase_selected i s0 s))"
    "vec_ok (write_buffer (erase_selected i s0 s))"
  using assms vec_ok_erase by (auto simp: erase_selected_def)

lemma scheduled_wf:
  assumes "ctl_config cfg" "ctl_wf cfg s" "i < length (vec_items (selected_queue s))"
    "vec_items (selected_queue s) ! i = t" "cq_wf cfg cq"
    "queued cq = add_mset (TransToCommand cfg s t) (queued (cmd_queue s))" "cq_clk cq = cq_clk (cmd_queue s)"
    "\<not> is_unified_queue s \<Longrightarrow> is_write t \<Longrightarrow> tr_addr t \<notin> fst ` set (pending_rd_q s)"
  shows "ctl_wf cfg (erase_selected i s (s\<lparr>cmd_queue := cq, write_draining := n\<rparr>))"
    "kept s (erase_selected i s (s\<lparr>cmd_queue := cq, write_draining := n\<rparr>))"
proof -
  let ?s = "erase_selected i s (s\<lparr>cmd_queue := cq, write_draining := n\<rparr>)"
  note wf = ctl_wfD [OF assms(2)]
  have w: "waiting s = add_mset t (waiting ?s)"
    using waiting_erase [OF assms(3), of "s\<lparr>cmd_queue := cq, write_draining := n\<rparr>"] assms(4) by simp
  have p: "pending_ok (waiting ?s) (queued cq) (pending_rd_q s) (pending_wr_q s)"
    unfolding assms(6) pending_ok_schedule using wf(7) unfolding w .
  have h: "hazard_free (is_unified_queue s) (queued cq) (pending_rd_q s)"
    using wf(8) assms(8) by (auto simp: hazard_free_def assms(6) TransToCommand_def command_kind_defs)
  show "ctl_wf cfg ?s"
    unfolding ctl_wf_def using wf p h assms(5,7) vec_ok_erase_selected [of "s\<lparr>cmd_queue := cq, write_draining := n\<rparr>"]
    by simp
  show "kept s ?s" by (simp add: kept_def owed_def)
qed

lemma schedule_loop_ok:
  assumes "ctl_config cfg" "ctl_wf cfg s" "ts = drop i (vec_items (selected_queue s))"
  shows "succeeds (schedule_loop cfg s i ts) (\<lambda>s'. ctl_wf cfg s' \<and> kept s s')"
  using assms(3)
proof (induction ts arbitrary: i)
  case Nil
  then show ?case using assms(2) by (simp add: kept_def)
next
  case (Cons t ts)
  let ?c = "TransToCommand cfg s t"
  have i: "i < length (vec_items (selected_queue s))" "vec_items (selected_queue s) ! i = t"
    "ts = drop (Suc i) (vec_items (selected_queue s))"
    using Cons.prems by (metis drop_all linorder_not_le list.distinct(1), metis nth_via_drop, metis drop_Suc list.sel(3) tl_drop)
  have cfg: "config_ok cfg" using assms(1) by (simp add: ctl_config_def)
  obtain b where b: "WillAcceptCommand cfg (cmd_queue s) (Rank ?c) (Bankgroup ?c) (Bank ?c) = Inr b"
    and add: "succeeds (AddCommand cfg (cmd_queue s) ?c) (\<lambda>(ok, cq'). ok = b \<and> cq_wf cfg cq'
        \<and> queued cq' = (if b then add_mset ?c (queued (cmd_queue s)) else queued (cmd_queue s))
        \<and> cq' = (cmd_queue s)\<lparr>queues := queues cq', rank_q_empty := rank_q_empty cq'\<rparr>)"
    using AddCommand_ok [OF cfg ctl_wfD(3) [OF assms(2)] TransToCommand_queued_ok [OF assms(1)]] by blast
  from add obtain cq where cq: "AddCommand cfg (cmd_queue s) ?c = Inr (b, cq)" "cq_wf cfg cq"
    "queued cq = (if b then add_mset ?c (queued (cmd_queue s)) else queued (cmd_queue s))"
    "cq = (cmd_queue s)\<lparr>queues := queues cq, rank_q_empty := rank_q_empty cq\<rparr>"
    by (auto simp: succeeds_iff)
  have clk: "cq_clk cq = cq_clk (cmd_queue s)" by (subst cq(4)) simp
  show ?case
  proof (cases b)
    case False
    then show ?thesis using Cons.IH [OF i(3)] b by (simp add: Let_def)
  next
    case True
    have wr: "IsWrite ?c = is_write t" by (simp add: TransToCommand_def command_kind_defs)
    show ?thesis
    proof (cases "\<not> is_unified_queue s \<and> is_write t \<and> key_count (tr_addr t) (pending_rd_q s) > 0")
      case hz: True
      then show ?thesis using b True assms(2) by (simp add: Let_def wr)
    next
      case False
      then have "\<not> is_unified_queue s \<Longrightarrow> is_write t \<Longrightarrow> tr_addr t \<notin> fst ` set (pending_rd_q s)"
        by (simp add: key_count_zero)
      from scheduled_wf [OF assms(1,2) i(1,2) cq(2) _ clk this] cq(3) True
      show ?thesis using b False cq(1) assms(2) by (simp add: Let_def wr)
    qed
  qed
qed

lemma ScheduleTransaction_ok:
  assumes "ctl_config cfg" "ctl_wf cfg s"
  shows "succeeds (ScheduleTransaction cfg s) (\<lambda>s'. ctl_wf cfg s' \<and> kept s s')"
proof -
  let ?s = "\<lambda>n. s\<lparr>write_draining := n\<rparr>"
  have main: "succeeds (schedule_loop cfg (?s n) 0 (vec_items (selected_queue (?s n)))) (\<lambda>s'. ctl_wf cfg s' \<and> kept s s')" for n
    using schedule_loop_ok [OF assms(1), of "?s n" "vec_items (selected_queue (?s n))" 0] assms(2)
    by (auto elim!: succeeds_mono intro: kept_trans [OF ctl_wf_draining(2)])
  have "s = ?s (write_draining s)" by simp
  then have same: "succeeds (schedule_loop cfg s 0 (vec_items (selected_queue s))) (\<lambda>s'. ctl_wf cfg s' \<and> kept s s')"
    using main [of "write_draining s"] by simp
  show ?thesis
    unfolding ScheduleTransaction_def Let_def using main same by (simp split: if_split)
qed

section \<open>The power counters\<close>

lemma IsAllBankIdleInRank_returns:
  assumes "chan_wf cfg cs" "0 \<le> r" "r < ranks (dram cfg)"
  shows "\<exists>b. IsAllBankIdleInRank cfg cs r = Inr b"
proof -
  have dims: "bank_dims cfg (bank_states cs)" using chan_wfD(1) [OF assms(1)] by (simp add: chan_dims_def)
  have "\<exists>b. all_idle_loop cs r ps = Inr b" if "set ps \<subseteq> set (rank_banks cfg)" for ps
    using that
  proof (induction ps)
    case (Cons jk ps)
    obtain j k where jk: "jk = (j, k)" by (cases jk)
    have "in_dims cfg (r, j, k)" using Cons.prems assms(2,3) by (auto simp: jk set_rank_banks in_dims_def)
    from bank_at_in [OF dims this] Cons show ?case by (auto simp: jk)
  qed auto
  then show ?thesis by (simp add: IsAllBankIdleInRank_def)
qed

definition only_power :: "Config \<Rightarrow> Controller \<Rightarrow> Controller \<Rightarrow> bool" where
  "only_power cfg s s' = (\<exists>st l. stats_wf cfg st \<and> int (length l) = ranks (dram cfg)
     \<and> s' = s\<lparr>simple_stats := st, channel_state := (channel_state s)\<lparr>rank_idle_cycles := l\<rparr>\<rparr>)"

lemma chan_wf_idle:
  assumes "chan_wf cfg cs" "int (length l) = ranks (dram cfg)"
  shows "chan_wf cfg (cs\<lparr>rank_idle_cycles := l\<rparr>)"
  using chan_wfD(1,2) [OF assms(1)] assms(2) by (intro chan_wf_cong [OF assms(1)]) (simp_all add: chan_dims_def)

lemma rank_power_ok:
  assumes "chan_wf cfg (channel_state s)" "awake (channel_state s)" "only_power cfg s s1"
    "0 \<le> i" "i < ranks (dram cfg)"
  shows "succeeds (rank_power cfg i s1) (only_power cfg s)"
proof -
  obtain st l where s1: "stats_wf cfg st" "int (length l) = ranks (dram cfg)"
    "s1 = s\<lparr>simple_stats := st, channel_state := (channel_state s)\<lparr>rank_idle_cycles := l\<rparr>\<rparr>"
    using assms(3) by (auto simp: only_power_def)
  let ?cs = "(channel_state s)\<lparr>rank_idle_cycles := l\<rparr>"
  have wf: "chan_wf cfg ?cs" by (rule chan_wf_idle [OF assms(1) s1(2)])
  have sr: "IsRankSelfRefreshing ?cs i = Inr False"
    using IsRankSelfRefreshing_in [OF wf assms(4,5)] awake_nth [of ?cs cfg, OF _ chan_wfD(1) [OF wf] assms(4,5)] assms(2)
    by (simp add: awake_def)
  obtain b where b: "IsAllBankIdleInRank cfg ?cs i = Inr b"
    using IsAllBankIdleInRank_returns [OF wf assms(4,5)] by blast
  have nl: "nth_res l i = Inr (l ! nat i)" "\<And>x. upd_res l i x = Inr (l[nat i := x])"
    using assms(4,5) s1(2) by (simp_all add: nth_res_def upd_res_def)
  obtain st' where st': "IncrementVec (if b then ''all_bank_idle_cycles'' else ''rank_active_cycles'') i st = Inr st'"
    "stats_wf cfg st'"
    using IncrementVec_ok [OF s1(1) assms(4,5)] by (cases b) (auto simp: succeeds_iff)
  show ?thesis
    using sr b nl st' s1(2) unfolding s1(3)
    by (auto simp: rank_power_def only_power_def intro!: exI [of _ st'] exI [of _ "l[nat i := if b then l ! nat i + 1 else 0]"])
qed

lemma rank_powers_ok:
  assumes "ctl_wf cfg s"
  shows "succeeds (fold_res (rank_power cfg) (int_range (ranks (dram cfg))) s) (\<lambda>s'. ctl_wf cfg s' \<and> kept s s')"
proof -
  note wf = ctl_wfD [OF assms]
  have len: "int (length (rank_idle_cycles (channel_state s))) = ranks (dram cfg)"
    using chan_wfD(1) [OF wf(1)] by (simp add: chan_dims_def)
  then have "only_power cfg s s"
    using wf(4) by (auto simp: only_power_def intro!: exI [of _ "simple_stats s"] exI [of _ "rank_idle_cycles (channel_state s)"])
  then have "succeeds (fold_res (rank_power cfg) (int_range (ranks (dram cfg))) s) (only_power cfg s)"
    by (rule fold_res_invariant) (auto intro: rank_power_ok [OF wf(1,2)])
  moreover have "ctl_wf cfg s' \<and> kept s s'" if pw: "only_power cfg s s'" for s'
  proof -
    obtain st l where s': "stats_wf cfg st" "int (length l) = ranks (dram cfg)"
      "s' = s\<lparr>simple_stats := st, channel_state := (channel_state s)\<lparr>rank_idle_cycles := l\<rparr>\<rparr>"
      using pw unfolding only_power_def by (elim exE conjE)
    have cov: "covered cfg ((channel_state s)\<lparr>rank_idle_cycles := l\<rparr>) (cmd_trace s)"
      using wf(9) by (simp add: covered_cong [of "(channel_state s)\<lparr>rank_idle_cycles := l\<rparr>" "channel_state s"])
    show ?thesis
      using wf s'(1) cov chan_wf_idle [OF wf(1) s'(2)] unfolding s'(3)
      by (simp add: ctl_wf_def kept_def owed_def waiting_def awake_def)
  qed
  ultimately show ?thesis by (rule succeeds_mono)
qed

section \<open>Choosing and issuing a command\<close>

lemma ready_kind:
  assumes "ChannelState_GetReadyCommand cfg cs cmd clk = Inr rc" "IsValid rc" "config_ok cfg"
  shows "cmd_type rc = cmd_type cmd \<or> (\<exists>b r. BankState_GetReadyCommand b cmd clk = Inr r \<and> cmd_type rc = cmd_type r)"
proof (cases "IsRankCMD cmd")
  case True
  then have "rank_ready_loop cfg cs cmd clk (rank_banks cfg) 0 Command_default = Inr rc"
    using assms(1) by (simp add: ChannelState_GetReadyCommand_def)
  from rank_ready_loop_cases [OF this assms(2)] length_rank_banks [OF assms(3)] assms(2)
  show ?thesis
    by (auto simp: rank_diverted_def Command_default_def IsValid_def split: if_splits) blast
next
  case False
  then show ?thesis
    using assms(1,2) by (auto simp: ChannelState_GetReadyCommand_def res_simps Command_default_def IsValid_def
        split: if_splits)
qed

lemma refresh_ready_no_access:
  assumes "IsRefresh ref" "ChannelState_GetReadyCommand cfg cs ref clk = Inr rc" "config_ok cfg"
  shows "\<not> IsReadWrite rc"
proof
  assume rw: "IsReadWrite rc"
  then have v: "IsValid rc" by (auto simp: command_kind_defs)
  have "\<not> IsReadWrite r" if "BankState_GetReadyCommand b ref clk = Inr r" for b r
    using that assms(1)
    by (auto simp: BankState_GetReadyCommand_def res_simps required_type_def Command_default_def command_kind_defs
        split: if_splits State.splits CommandType.splits)
  then have "cmd_type rc = cmd_type ref \<or> (\<exists>r. \<not> IsReadWrite r \<and> cmd_type rc = cmd_type r)"
    using ready_kind [OF assms(2) v assms(3)] by blast
  with assms(1) rw show False by (auto simp: command_kind_defs)
qed

text \<open>What the selection of a command yields: at most one access leaves the queues, and what is selected may be issued.\<close>

definition selected :: "Config \<Rightarrow> Controller \<Rightarrow> Command \<Rightarrow> CommandQueue \<Rightarrow> bool" where
  "selected cfg s cmd cq =
     (cq_wf cfg cq \<and> cq_clk cq = cq_clk (cmd_queue s)
      \<and> queued (cmd_queue s) = (if IsReadWrite cmd then add_mset cmd (queued cq) else queued cq)
      \<and> (IsValid cmd \<longrightarrow> issuable cfg (channel_state s) cmd (cq_clk (cmd_queue s)) \<and> cmd_type cmd \<noteq> SREF_ENTER))"

lemma ready_selected:
  assumes "config_ok cfg" "chan_wf cfg cs" "request_ok cfg ref" "ChannelState_GetReadyCommand cfg cs ref clk = Inr cmd"
    "IsValid cmd"
  shows "issuable cfg cs cmd clk" "cmd_type cmd \<noteq> SREF_ENTER"
  using GetReadyCommand_issuable [OF assms(2,1) request_ok_dims [OF assms(3)] assms(4,5)]
    ready_not_sref_enter [OF assms(3,4,2,1)] by blast+

lemma chosen_selected:
  assumes "config_ok cfg" "chan_wf cfg cs" "cq_wf cfg cq" "chosen cfg cs cq cmd" "IsValid cmd"
  shows "issuable cfg cs cmd (cq_clk cq)" "cmd_type cmd \<noteq> SREF_ENTER"
proof -
  obtain i pre c post where c: "i < length (queues cq)" "queues cq ! i = pre @ c # post"
    "ChannelState_GetReadyCommand cfg cs c (cq_clk cq) = Inr cmd"
    using assms(4) unfolding chosen_def found_in_def by blast
  then have "queued_ok cfg c" by (intro cq_wfD(4) [OF assms(3) c(1)]) simp
  then have "request_ok cfg c" unfolding request_ok_def queued_ok_def by blast
  from ready_selected [OF assms(1,2) this c(3) assms(5)]
  show "issuable cfg cs cmd (cq_clk cq)" "cmd_type cmd \<noteq> SREF_ENTER" .
qed

lemma next_command_ok:
  assumes "config_ok cfg" "ctl_wf cfg s"
  shows "succeeds (next_command cfg s) (\<lambda>(cmd, s'). \<exists>cq st. s' = s\<lparr>cmd_queue := cq, simple_stats := st\<rparr>
    \<and> stats_wf cfg st \<and> selected cfg s cmd cq)"
proof -
  note wf = ctl_wfD [OF assms(2)]
  have from_queue: "succeeds (GetCommandToIssue cfg (channel_state s) cq (simple_stats s)) (\<lambda>(cmd, cq', st).
      stats_wf cfg st \<and> selected cfg s cmd cq')"
    if cq: "cq_wf cfg cq" "queues cq = queues (cmd_queue s)" "cq_clk cq = cq_clk (cmd_queue s)" for cq
    using GetCommandToIssue_ok [OF assms(1) wf(1) cq(1) wf(4)]
    by (rule succeeds_mono)
      (auto simp: selected_def queued_def cq(2,3) same_metaD dest: chosen_selected [OF assms(1) wf(1) cq(1)])
  show ?thesis
  proof (cases "IsRefreshWaiting (channel_state s)")
    case False
    obtain cmd cq st where "GetCommandToIssue cfg (channel_state s) (cmd_queue s) (simple_stats s) = Inr (cmd, cq, st)"
      "stats_wf cfg st" "selected cfg s cmd cq"
      using from_queue [OF wf(3)] by (auto simp: succeeds_iff)
    then show ?thesis
      using False by (auto simp: next_command_def Command_default_def IsValid_def)
  next
    case True
    obtain cmd cq ref where f: "FinishRefresh cfg (channel_state s) (cmd_queue s) = Inr (cmd, cq)" "cq_wf cfg cq"
      "queues cq = queues (cmd_queue s)" "cq_clk cq = cq_clk (cmd_queue s)" "request_ok cfg ref" "IsRefresh ref"
      "ChannelState_GetReadyCommand cfg (channel_state s) ref (cq_clk (cmd_queue s)) = Inr cmd"
      using FinishRefresh_ok [OF assms(1) wf(1-3) True] by (auto simp: succeeds_iff)
    show ?thesis
    proof (cases "IsValid cmd")
      case v: True
      have "selected cfg s cmd cq"
        using f(2-4) refresh_ready_no_access [OF f(6,7) assms(1)] ready_selected [OF assms(1) wf(1) f(5,7)]
        by (simp add: selected_def queued_def)
      then show ?thesis
        using True v f(1) wf(4) by (auto simp: next_command_def intro!: exI [of _ cq] exI [of _ "simple_stats s"])
    next
      case nv: False
      obtain cmd' cq' st where "GetCommandToIssue cfg (channel_state s) cq (simple_stats s) = Inr (cmd', cq', st)"
        "stats_wf cfg st" "selected cfg s cmd' cq'"
        using from_queue [OF f(2-4)] by (auto simp: succeeds_iff)
      then show ?thesis using True nv f(1) by (auto simp: next_command_def)
    qed
  qed
qed

lemma mset_filter_split: "mset (map f (filter P xs)) + mset (map f (filter (\<lambda>x. \<not> P x) xs)) = mset (map f xs)"
  by (induction xs) auto

lemma issued_pending_owed: "owed (issued_pending cfg cmd s) = owed s"
proof -
  have "image_mset (\<lambda>t. (tr_addr t, is_write t)) (mset (map (\<lambda>e. (snd e)\<lparr>complete_cycle := c\<rparr>) es))
      = image_mset (\<lambda>t. (tr_addr t, is_write t)) (mset (map snd es))" for es :: pending and c
    by (induction es) auto
  then show ?thesis
    using mset_filter_split [of "(\<lambda>t. (tr_addr t, is_write t)) \<circ> snd" "match_addr (hex_addr cmd)" "pending_rd_q s"]
    unfolding issued_pending_def owed_def
    by (simp add: image_mset_union [symmetric] add.assoc flip: mset_map)
qed

lemma issued_pending_accounts:
  assumes "pending_ok ts (if IsReadWrite cmd then add_mset cmd qs else qs) (pending_rd_q s) (pending_wr_q s)"
    "hazard_free u (if IsReadWrite cmd then add_mset cmd qs else qs) (pending_rd_q s)"
  shows "IsRead cmd \<Longrightarrow> hex_addr cmd \<in> fst ` set (pending_rd_q s)"
    "IsWrite cmd \<Longrightarrow> hex_addr cmd \<in> fst ` set (pending_wr_q s)"
    "pending_ok ts qs (pending_rd_q (issued_pending cfg cmd s)) (pending_wr_q (issued_pending cfg cmd s))"
    "hazard_free u qs (pending_rd_q (issued_pending cfg cmd s))"
proof -
  let ?s' = "issued_pending cfg cmd s"
  have rw: "IsReadWrite cmd = (IsRead cmd \<or> IsWrite cmd)" by (simp add: IsReadWrite_def)
  show "IsRead cmd \<Longrightarrow> hex_addr cmd \<in> fst ` set (pending_rd_q s)"
    using pending_ok_read(1) [of ts cmd qs] assms(1) by (simp add: rw)
  show "IsWrite cmd \<Longrightarrow> hex_addr cmd \<in> fst ` set (pending_wr_q s)"
    using pending_ok_write(1) [of ts cmd qs] assms(1) by (simp add: rw)
  consider "IsRead cmd" | "\<not> IsRead cmd" "IsWrite cmd" | "\<not> IsRead cmd" "\<not> IsWrite cmd" by blast
  then show "pending_ok ts qs (pending_rd_q ?s') (pending_wr_q ?s')"
  proof cases
    case 1
    then show ?thesis using pending_ok_read(2) [of ts cmd qs] assms(1) by (simp add: issued_pending_def rw)
  next
    case 2
    then show ?thesis using pending_ok_write(2) [of ts cmd qs] assms(1) by (simp add: issued_pending_def rw)
  next
    case 3
    then show ?thesis using assms(1) by (simp add: issued_pending_def rw)
  qed
  have "fst ` set (pending_rd_q ?s') \<subseteq> fst ` set (pending_rd_q s)" by (auto simp: issued_pending_def)
  then show "hazard_free u qs (pending_rd_q ?s')"
    using assms(2) unfolding hazard_free_def by (auto split: if_splits)
qed

lemma issue_selected_ok:
  assumes "config_ok cfg" "ctl_wf cfg s" "no_wrap (Timing_new cfg) (ctl_clk s)" "selected cfg s cmd cq" "stats_wf cfg st"
    "IsValid cmd"
  shows "succeeds (IssueCommand cfg (Timing_new cfg) cmd (s\<lparr>cmd_queue := cq, simple_stats := st\<rparr>))
    (\<lambda>s'. ctl_wf cfg s' \<and> kept s s')"
proof -
  let ?s = "s\<lparr>cmd_queue := cq, simple_stats := st\<rparr>" and ?p = "issued_pending cfg cmd"
  note wf = ctl_wfD [OF assms(2)]
  have sel: "cq_wf cfg cq" "cq_clk cq = ctl_clk s" "issuable cfg (channel_state s) cmd (ctl_clk s)" "cmd_type cmd \<noteq> SREF_ENTER"
    "queued (cmd_queue s) = (if IsReadWrite cmd then add_mset cmd (queued cq) else queued cq)"
    using assms(4,6) wf(6) by (auto simp: selected_def)
  note acc = issued_pending_accounts [where ts = "waiting s" and qs = "queued cq" and s = ?s
      and u = "is_unified_queue s", simplified]
  have pend: "pending_ok (waiting s) (if IsReadWrite cmd then add_mset cmd (queued cq) else queued cq) (pending_rd_q s) (pending_wr_q s)"
    "hazard_free (is_unified_queue s) (if IsReadWrite cmd then add_mset cmd (queued cq) else queued cq) (pending_rd_q s)"
    using wf(7,8) unfolding sel(5) .
  have "succeeds (IssueCommand cfg (Timing_new cfg) cmd ?s) (\<lambda>s'. \<exists>st cs. stats_wf cfg st \<and> chan_wf cfg cs
    \<and> UpdateTimingAndStates cfg (Timing_new cfg) (channel_state s) cmd (ctl_clk s) = Inr cs
    \<and> s' = (?p ?s)\<lparr>simple_stats := st, channel_state := cs, cmd_trace := cmd_trace s @ [(ctl_clk s, cmd)]\<rparr>)"
    using IssueCommand_ok [of cfg ?s cmd] wf(1) sel(3) assms(5) acc(1,2) [OF pend] by simp
  moreover have "ctl_wf cfg s' \<and> kept s s'"
    if s': "s' = (?p ?s)\<lparr>simple_stats := st', channel_state := cs, cmd_trace := cmd_trace s @ [(ctl_clk s, cmd)]\<rparr>"
      and st': "stats_wf cfg st'" and cs: "chan_wf cfg cs"
      "UpdateTimingAndStates cfg (Timing_new cfg) (channel_state s) cmd (ctl_clk s) = Inr cs" for s' st' cs
  proof -
    have aw: "awake cs" by (rule awake_issue [OF wf(2,1) sel(3,4) cs(2)])
    have cov: "covered cfg cs (cmd_trace s @ [(ctl_clk s, cmd)])"
      by (rule covered_issue [OF wf(1) sel(3) cs(2) assms(3) wf(9)])
    have resp: "trace_respects_timing cfg (cmd_trace s @ [(ctl_clk s, cmd)])"
      by (rule respects_issue [OF wf(1) sel(3) wf(9,10)])
    have w: "waiting s' = waiting s" by (simp add: s' waiting_def)
    have "owed s' = owed s"
      using issued_pending_owed [of cfg cmd ?s] by (simp add: s' owed_def)
    then have "kept s s'" by (simp add: kept_def s')
    moreover have "ctl_wf cfg s'"
      unfolding ctl_wf_def w using wf(5,11-13) cs(1) st' aw cov resp sel(1,2) acc(3,4) [OF pend] by (simp add: s')
    ultimately show ?thesis by blast
  qed
  ultimately show ?thesis by (elim succeeds_mono) (elim exE conjE, blast)
qed

section \<open>The operations keep the invariant\<close>

lemma refresh_stage:
  assumes "ctl_wf cfg s"
  shows "succeeds (Refresh_ClockTick cfg (refresh s) (channel_state s)) (\<lambda>(rf, cs).
    ctl_wf cfg (s\<lparr>refresh := rf, channel_state := cs\<rparr>) \<and> kept s (s\<lparr>refresh := rf, channel_state := cs\<rparr>))"
proof -
  note wf = ctl_wfD [OF assms]
  have "ctl_wf cfg (s\<lparr>refresh := rf, channel_state := cs\<rparr>) \<and> kept s (s\<lparr>refresh := rf, channel_state := cs\<rparr>)"
    if q: "chan_wf cfg cs" "refresh_wf cfg rf" "only_refresh_q (channel_state s) cs" for rf cs
  proof -
    have "awake cs" using wf(2) by (simp add: awake_def only_refresh_qD(3) [OF q(3)])
    moreover have "covered cfg cs (cmd_trace s)"
      using wf(9) covered_cong [OF only_refresh_qD(1) [OF q(3)]] by blast
    ultimately show ?thesis
      using wf q(1,2) by (simp add: ctl_wf_def waiting_def kept_def owed_def)
  qed
  then show ?thesis
    by (intro succeeds_mono [OF Refresh_ClockTick_wf [OF wf(1,5)]]) auto
qed

lemma ClockTick_ok:
  assumes "ctl_config cfg" "ctl_wf cfg s" "no_wrap (Timing_new cfg) (ctl_clk s)"
  shows "succeeds (Controller_ClockTick cfg (Timing_new cfg) s) (\<lambda>s'. ctl_wf cfg s' \<and> owed s' = owed s
    \<and> ctl_clk s' = ctl_clk s + 1 \<and> is_unified_queue s' = is_unified_queue s
    \<and> vec_cap (ctl_unified_queue s') = vec_cap (ctl_unified_queue s)
    \<and> vec_cap (read_queue s') = vec_cap (read_queue s) \<and> vec_cap (write_buffer s') = vec_cap (write_buffer s))"
proof -
  have cfg: "config_ok cfg" "\<not> enable_self_refresh (sys cfg)" "\<not> enable_hbm_dual_cmd (dram cfg)"
    using assms(1) by (simp_all add: ctl_config_def)
  obtain rf cs where r: "Refresh_ClockTick cfg (refresh s) (channel_state s) = Inr (rf, cs)"
    "ctl_wf cfg (s\<lparr>refresh := rf, channel_state := cs\<rparr>)" "kept s (s\<lparr>refresh := rf, channel_state := cs\<rparr>)"
    using refresh_stage [OF assms(2)] by (auto simp: succeeds_iff)
  let ?s1 = "s\<lparr>refresh := rf, channel_state := cs\<rparr>"
  obtain cmd cq st where n: "next_command cfg ?s1 = Inr (cmd, ?s1\<lparr>cmd_queue := cq, simple_stats := st\<rparr>)"
    "stats_wf cfg st" "selected cfg ?s1 cmd cq"
    using next_command_ok [OF cfg(1) r(2)] by (auto simp: succeeds_iff)
  let ?s2 = "?s1\<lparr>cmd_queue := cq, simple_stats := st\<rparr>"
  obtain s3 where s3: "(if IsValid cmd then IssueCommand cfg (Timing_new cfg) cmd ?s2 else Inr ?s2) = Inr s3"
    "ctl_wf cfg s3" "kept ?s1 s3"
  proof (cases "IsValid cmd")
    case True
    have "succeeds (IssueCommand cfg (Timing_new cfg) cmd ?s2) (\<lambda>s'. ctl_wf cfg s' \<and> kept ?s1 s')"
      by (rule issue_selected_ok [OF cfg(1) r(2) _ n(3,2) True]) (use assms(3) in simp)
    then show ?thesis using that True by (auto simp: succeeds_iff)
  next
    case False
    then have "\<not> IsReadWrite cmd" by (auto simp: command_kind_defs)
    then have "ctl_wf cfg ?s2" "kept ?s1 ?s2"
      using ctl_wfD [OF r(2)] n(2,3) by (simp_all add: selected_def ctl_wf_def waiting_def kept_def owed_def)
    then show ?thesis using that False by simp
  qed
  obtain s4 where s4: "fold_res (rank_power cfg) (int_range (ranks (dram cfg))) s3 = Inr s4" "ctl_wf cfg s4" "kept s3 s4"
    using rank_powers_ok [OF s3(2)] by (auto simp: succeeds_iff)
  obtain s5 where s5: "ScheduleTransaction cfg s4 = Inr s5" "ctl_wf cfg s5" "kept s4 s5"
    using ScheduleTransaction_ok [OF assms(1) s4(2)] by (auto simp: succeeds_iff)
  have k: "kept s s5" using r(3) s3(3) s4(3) s5(3) by (meson kept_trans)
  let ?s6 = "s5\<lparr>ctl_clk := ctl_clk s5 + 1, cmd_queue := CommandQueue_ClockTick (cmd_queue s5),
      simple_stats := Increment ''num_cycles'' (simple_stats s5)\<rparr>"
  have tick: "Controller_ClockTick cfg (Timing_new cfg) s = Inr ?s6"
    using r(1) n(1) s3(1) s4(1) s5(1) cfg(2,3)
    by (cases "IsValid cmd") (simp_all add: Controller_ClockTick_def)
  have "ctl_wf cfg ?s6"
    using ctl_wfD [OF s5(2)] by (simp add: ctl_wf_def waiting_def queued_def CommandQueue_ClockTick_def)
  moreover have "owed ?s6 = owed s5" by (simp add: owed_def)
  ultimately show ?thesis using k by (simp add: tick kept_def)
qed

lemma vec_ok_push: "vec_ok v \<Longrightarrow> vec_ok (vec_push_back v x)"
  by (auto simp: vec_ok_def vec_push_back_def)

text \<open>Where a new transaction is queued.\<close>

definition enqueue :: "Transaction \<Rightarrow> Controller \<Rightarrow> Controller" where
  "enqueue t s =
     (if is_unified_queue s then s\<lparr>ctl_unified_queue := vec_push_back (ctl_unified_queue s) t\<rparr>
      else if is_write t then s\<lparr>write_buffer := vec_push_back (write_buffer s) t\<rparr>
      else s\<lparr>read_queue := vec_push_back (read_queue s) t\<rparr>)"

lemma enqueue_fields [simp]:
  "ctl_clk (enqueue t s) = ctl_clk s" "channel_state (enqueue t s) = channel_state s"
  "cmd_queue (enqueue t s) = cmd_queue s" "refresh (enqueue t s) = refresh s"
  "simple_stats (enqueue t s) = simple_stats s" "cmd_trace (enqueue t s) = cmd_trace s"
  "is_unified_queue (enqueue t s) = is_unified_queue s" "return_queue (enqueue t s) = return_queue s"
  "pending_rd_q (enqueue t s) = pending_rd_q s" "pending_wr_q (enqueue t s) = pending_wr_q s"
  "waiting (enqueue t s) = add_mset t (waiting s)"
  by (simp_all add: enqueue_def waiting_def)

lemma vec_ok_enqueue:
  assumes "vec_ok (ctl_unified_queue s)" "vec_ok (read_queue s)" "vec_ok (write_buffer s)"
  shows "vec_ok (ctl_unified_queue (enqueue t s))" "vec_ok (read_queue (enqueue t s))" "vec_ok (write_buffer (enqueue t s))"
  using assms vec_ok_push by (auto simp: enqueue_def)

text \<open>The effect of \<^verbatim>\<open>AddTransaction\<close> on the queues, for the transaction stamped with the clock.\<close>

definition accept :: "Transaction \<Rightarrow> Controller \<Rightarrow> Controller" where
  "accept t s =
     (if is_write t then
        (let s1 = (if tr_addr t \<in> fst ` set (pending_wr_q s) then s
                   else enqueue t (s\<lparr>pending_wr_q := pending_wr_q s @ [(tr_addr t, t)]\<rparr>))
         in s1\<lparr>return_queue := return_queue s1 @ [t\<lparr>complete_cycle := ctl_clk s + 1\<rparr>]\<rparr>)
      else if tr_addr t \<in> fst ` set (pending_wr_q s)
      then s\<lparr>return_queue := return_queue s @ [t\<lparr>complete_cycle := ctl_clk s + 1\<rparr>]\<rparr>
      else (let s1 = s\<lparr>pending_rd_q := pending_rd_q s @ [(tr_addr t, t)]\<rparr>
            in if tr_addr t \<in> fst ` set (pending_rd_q s) then s1 else enqueue t s1))"

lemma AddTransaction_accept:
  "Controller_AddTransaction t s = (True, accept (t\<lparr>added_cycle := ctl_clk s\<rparr>)
     (s\<lparr>simple_stats := AddValue ''interarrival_latency'' (to_int32 (ctl_clk s - last_trans_clk s)) (simple_stats s),
        last_trans_clk := ctl_clk s\<rparr>))"
proof -
  have one: "(key_count a (p @ [(a, x)]) = Suc 0) = (a \<notin> fst ` set p)" for a p and x :: Transaction
    using key_count_zero [of a p] by (simp add: key_count_filter match_addr_def)
  show ?thesis
    by (cases "is_write t"; cases "is_unified_queue s"; cases "tr_addr t \<in> fst ` set (pending_wr_q s)")
      (simp_all add: Controller_AddTransaction_def accept_def enqueue_def Let_def one key_count_zero key_count_pos)
qed

lemma accept_owed: "owed (accept t s) = add_mset (tr_addr t, is_write t) (owed s)"
  by (simp add: owed_def accept_def Let_def)

lemma hazard_free_add:
  assumes "pending_ok ts qs prd pwr" "hazard_free u qs prd" "a \<notin> fst ` set pwr"
  shows "hazard_free u qs (prd @ [(a, t)])"
  using assms(2,3) queued_write_pending [OF assms(1)] by (auto simp: hazard_free_def)

lemma accept_wf:
  assumes "ctl_wf cfg s"
  shows "ctl_wf cfg (accept t s)"
proof -
  note wf = ctl_wfD [OF assms]
  note vk = vec_ok_enqueue [of "s\<lparr>pending_wr_q := p\<rparr>" t for p, simplified, OF wf(11-13)]
    vec_ok_enqueue [of "s\<lparr>pending_rd_q := p\<rparr>" t for p, simplified, OF wf(11-13)]
  have ws: "waiting (s\<lparr>pending_wr_q := p\<rparr>) = waiting s" "waiting (s\<lparr>pending_rd_q := p\<rparr>) = waiting s"
    "waiting (s'\<lparr>return_queue := r\<rparr>) = waiting s'" for p r s'
    by (simp_all add: waiting_def)
  consider (w) "is_write t" "tr_addr t \<notin> fst ` set (pending_wr_q s)"
    | (fwd) "tr_addr t \<in> fst ` set (pending_wr_q s)"
    | (r) "\<not> is_write t" "tr_addr t \<notin> fst ` set (pending_wr_q s)" by blast
  then show ?thesis
  proof cases
    case w
    from pending_ok_add_write [OF wf(7) w(1) refl w(2)] show ?thesis
      using w wf vk by (simp add: ctl_wf_def accept_def Let_def ws)
  next
    case fwd
    then show ?thesis using wf by (simp add: ctl_wf_def accept_def Let_def ws)
  next
    case r
    from pending_ok_add_read [OF wf(7) r(1) refl] hazard_free_add [OF wf(7,8) r(2)] show ?thesis
      using r wf vk by (simp add: ctl_wf_def accept_def Let_def ws split: if_splits)
  qed
qed

lemma AddTransaction_ok:
  assumes "ctl_wf cfg s" "Controller_AddTransaction t s = (b, s')"
  shows "b" "ctl_wf cfg s'" "owed s' = add_mset (tr_addr t, is_write t) (owed s)"
proof -
  let ?s = "s\<lparr>simple_stats := AddValue ''interarrival_latency'' (to_int32 (ctl_clk s - last_trans_clk s)) (simple_stats s),
        last_trans_clk := ctl_clk s\<rparr>"
  have s': "b" "s' = accept (t\<lparr>added_cycle := ctl_clk s\<rparr>) ?s" using assms(2) by (simp_all add: AddTransaction_accept)
  have "ctl_wf cfg ?s" using ctl_wfD [OF assms(1)] by (simp add: ctl_wf_def waiting_def)
  then show "b" "ctl_wf cfg s'" using s' accept_wf by auto
  have "owed ?s = owed s" by (simp add: owed_def)
  then show "owed s' = add_mset (tr_addr t, is_write t) (owed s)" by (simp add: s'(2) accept_owed)
qed

lemma ReturnDoneTrans_ok:
  assumes "ctl_wf cfg s" "ReturnDoneTrans clk s = ((a, w), s')"
  shows "ctl_wf cfg s'" "w \<noteq> -1 \<Longrightarrow> owed s = add_mset (a, w = 1) (owed s')" "w = -1 \<Longrightarrow> s' = s" "w \<in> {-1, 0, 1}"
proof -
  let ?P = "\<lambda>it. clk \<ge> complete_cycle it"
  have "ctl_wf cfg s' \<and> (w \<noteq> -1 \<longrightarrow> owed s = add_mset (a, w = 1) (owed s')) \<and> (w = -1 \<longrightarrow> s' = s) \<and> w \<in> {-1, 0, 1}"
  proof (cases "find ?P (return_queue s)")
    case None
    then show ?thesis using assms by (simp add: ReturnDoneTrans_def)
  next
    case (Some it)
    then have "\<exists>x \<in> set (return_queue s). ?P x" by (auto simp: find_Some_iff)
    from erase_first_find [OF this] Some
    have m: "mset (return_queue s) = add_mset it (mset (erase_first ?P (return_queue s)))" by auto
    have r: "a = tr_addr it" "w = (if is_write it then 1 else 0)"
      "return_queue s' = erase_first ?P (return_queue s)" "pending_rd_q s' = pending_rd_q s"
      using assms(2) Some by (auto simp: ReturnDoneTrans_def)
    have "ctl_wf cfg s'"
      using assms Some ctl_wfD [OF assms(1)] by (auto simp: ReturnDoneTrans_def ctl_wf_def waiting_def)
    then show ?thesis using r m by (simp add: owed_def)
  qed
  then show "ctl_wf cfg s'" "w \<noteq> -1 \<Longrightarrow> owed s = add_mset (a, w = 1) (owed s')" "w = -1 \<Longrightarrow> s' = s" "w \<in> {-1, 0, 1}"
    by blast+
qed

lemma Controller_new_wf:
  assumes "ctl_config cfg" "Controller_new ch cfg = Inr s"
    and "queue_structure (sys cfg) \<in> {''PER_BANK'', ''PER_RANK''}" "refresh_policy (sys cfg) \<noteq> REF_SIZE"
    and "ranks (dram cfg) \<le> tREFI (tim cfg)" "tREFI (tim cfg) < 2 ^ 31" "0 < tREFIb (tim cfg)" "tREFIb (tim cfg) < 2 ^ 31"
  shows "ctl_wf cfg s" "owed s = {#}"
proof -
  have cfg: "config_ok cfg" "geometry_ok cfg" "0 \<le> ranks (dram cfg)"
    using assms(1) by (auto simp: ctl_config_def config_ok_def geometry_ok_def)
  obtain st cq rf where n: "SimpleStats_new cfg = Inr st" "stats_wf cfg st" "CommandQueue_new cfg = Inr cq" "cq_wf cfg cq"
    "queued cq = {#}" "cq_clk cq = 0" "Refresh_new cfg = Inr rf" "refresh_wf cfg rf"
    using SimpleStats_new_wf [OF cfg(3)] CommandQueue_new_wf [OF cfg(1) assms(3)] Refresh_new_wf [OF cfg(2) assms(4-8)]
    by (auto simp: succeeds_iff)
  have "chan_wf cfg (ChannelState_new cfg)" using cfg(2) by (simp add: chan_wf_new)
  then show "ctl_wf cfg s" "owed s = {#}"
    using assms(2) n awake_new
    by (auto simp: Controller_new_def Let_def ctl_wf_def waiting_def owed_def pending_ok_def tokens_def hazard_free_def
        covered_def trace_respects_timing_def vec_ok_def vec_reserve_def)
qed

section \<open>Runs\<close>

text \<open>
  The configurations a controller is constructed for, and the runs of a controller: it is
  constructed, and then clock cycles, accepted transactions and returned transactions follow in any
  order.  \<open>acc\<close> and \<open>ans\<close> record what has been accepted and what has been answered.
\<close>

definition new_config :: "Config \<Rightarrow> bool" where
  "new_config cfg =
     (ctl_config cfg \<and> queue_structure (sys cfg) \<in> {''PER_BANK'', ''PER_RANK''} \<and> refresh_policy (sys cfg) \<noteq> REF_SIZE
      \<and> ranks (dram cfg) \<le> tREFI (tim cfg) \<and> tREFI (tim cfg) < 2 ^ 31 \<and> 0 < tREFIb (tim cfg) \<and> tREFIb (tim cfg) < 2 ^ 31)"

inductive controller_run :: "Config \<Rightarrow> (u64 \<times> bool) multiset \<Rightarrow> (u64 \<times> bool) multiset \<Rightarrow> Controller \<Rightarrow> bool"
  for cfg :: Config where
  run_start: "Controller_new ch cfg = Inr s \<Longrightarrow> controller_run cfg {#} {#} s"
| run_tick: "\<lbrakk>controller_run cfg acc ans s; no_wrap (Timing_new cfg) (ctl_clk s);
          Controller_ClockTick cfg (Timing_new cfg) s = Inr s'\<rbrakk> \<Longrightarrow> controller_run cfg acc ans s'"
| run_add: "\<lbrakk>controller_run cfg acc ans s; Controller_WillAcceptTransaction s (tr_addr t) (is_write t);
          Controller_AddTransaction t s = (b, s')\<rbrakk>
          \<Longrightarrow> controller_run cfg (add_mset (tr_addr t, is_write t) acc) ans s'"
| run_done: "\<lbrakk>controller_run cfg acc ans s; ReturnDoneTrans clk s = ((a, w), s'); w \<noteq> -1\<rbrakk>
          \<Longrightarrow> controller_run cfg acc (add_mset (a, w = 1) ans) s'"

definition caps_ok :: "Config \<Rightarrow> Controller \<Rightarrow> bool" where
  "caps_ok cfg s = (is_unified_queue s = unified_queue (sys cfg)
     \<and> vec_cap (ctl_unified_queue s) = (if unified_queue (sys cfg) then nat (trans_queue_size (sys cfg)) else 0)
     \<and> vec_cap (read_queue s) = (if unified_queue (sys cfg) then 0 else nat (trans_queue_size (sys cfg)))
     \<and> vec_cap (write_buffer s) = (if unified_queue (sys cfg) then 0 else nat (trans_queue_size (sys cfg))))"

lemma caps_ok_add:
  assumes "caps_ok cfg s" "Controller_WillAcceptTransaction s (tr_addr t) (is_write t)"
    "Controller_AddTransaction t s = (b, s')"
  shows "caps_ok cfg s'"
  using assms
  by (auto simp: AddTransaction_accept accept_def enqueue_def Let_def caps_ok_def Controller_WillAcceptTransaction_def
      vec_accepts_def vec_push_back_cap split: if_splits)

lemma controller_run_inv:
  assumes "controller_run cfg acc ans s" "new_config cfg"
  shows "ctl_wf cfg s \<and> acc = ans + owed s \<and> caps_ok cfg s"
  using assms(1)
proof (induction rule: controller_run.induct)
  case (run_start ch s)
  have "caps_ok cfg s"
    using run_start by (auto simp: Controller_new_def Let_def res_simps caps_ok_def vec_reserve_def)
  then show ?case
    using Controller_new_wf [OF _ run_start] assms(2) by (auto simp: new_config_def)
next
  case (run_tick acc ans s s')
  then show ?case
    using ClockTick_ok [of cfg s] assms(2) by (simp add: new_config_def caps_ok_def)
next
  case (run_add acc ans s t b s')
  then show ?case
    using AddTransaction_ok [OF _ run_add(3), of cfg] caps_ok_add [OF _ run_add(2,3), of cfg] by auto
next
  case (run_done acc ans s clk a w s')
  then have "caps_ok cfg s'" by (auto simp: ReturnDoneTrans_def caps_ok_def split: option.splits)
  then show ?case using ReturnDoneTrans_ok [OF _ run_done(2), of cfg] run_done by auto
qed

section \<open>Properties\<close>

text \<open>A run of three steps: a write and a read are accepted and a clock cycle passes.\<close>

definition demo_ctl :: "Controller res" where
  "demo_ctl =
     bindE (Controller_new 0 small_config) (\<lambda>s0.
     Controller_ClockTick small_config (Timing_new small_config)
       (snd (Controller_AddTransaction (mk_Transaction 8192 False)
         (snd (Controller_AddTransaction (mk_Transaction 4096 True) s0)))))"

lemma demo_new_config: "new_config small_config"
  using small_config_ok small_SetAddressMapping
  by (simp add: new_config_def ctl_config_def) (simp add: small_config_def lpddr5_config_def)

lemma small_no_wrap: "no_wrap (Timing_new small_config) 0" "no_wrap (Timing_new small_config) 1"
  by code_simp+

lemma small_add:
  assumes "controller_run small_config acc ans s" "size (waiting s) < 32"
  shows "controller_run small_config (add_mset (a, w) acc) ans (snd (Controller_AddTransaction (mk_Transaction a w) s))"
    "size (waiting (snd (Controller_AddTransaction (mk_Transaction a w) s))) \<le> Suc (size (waiting s))"
    "ctl_clk (snd (Controller_AddTransaction (mk_Transaction a w) s)) = ctl_clk s"
proof -
  let ?s' = "snd (Controller_AddTransaction (mk_Transaction a w) s)"
  have "caps_ok small_config s" by (rule conjunct2 [OF conjunct2 [OF controller_run_inv [OF assms(1) demo_new_config]]])
  then have "Controller_WillAcceptTransaction s a w"
    using assms(2)
    by (auto simp: Controller_WillAcceptTransaction_def caps_ok_def vec_accepts_def waiting_def small_config_def lpddr5_config_def)
  then show "controller_run small_config (add_mset (a, w) acc) ans ?s'"
    using run_add [OF assms(1), of "mk_Transaction a w" True ?s'] by (simp add: AddTransaction_accept)
  show "size (waiting ?s') \<le> Suc (size (waiting s))" "ctl_clk ?s' = ctl_clk s"
    by (simp_all add: AddTransaction_accept accept_def Let_def waiting_def enqueue_def)
qed

lemma demo_start:
  "succeeds (Controller_new 0 small_config) (\<lambda>s. waiting s = {#} \<and> ctl_clk s = 0)"
proof -
  have "geometry_ok small_config" "0 \<le> ranks (dram small_config)"
    using small_config_ok by (auto simp: config_ok_def geometry_ok_def)
  then have "\<exists>st cq rf. SimpleStats_new small_config = Inr st \<and> CommandQueue_new small_config = Inr cq
      \<and> Refresh_new small_config = Inr rf"
    using SimpleStats_new_wf [of small_config] CommandQueue_new_wf [OF small_config_ok] Refresh_new_wf [of small_config]
      demo_new_config
    by (auto simp: succeeds_iff new_config_def)
  then show ?thesis by (auto simp: Controller_new_def Let_def waiting_def vec_reserve_def)
qed

lemma demo_run:
  "succeeds demo_ctl (\<lambda>s. controller_run small_config {#(8192, False), (4096, True)#} {#} s \<and> ctl_clk s = 1)"
proof -
  obtain s0 where s0: "Controller_new 0 small_config = Inr s0" "waiting s0 = {#}" "ctl_clk s0 = 0"
    using demo_start by (auto simp: succeeds_iff)
  have "size (waiting s0) < 32" using s0(2) by simp
  note s1 = small_add [OF run_start [OF s0(1)] this, of 4096 True]
  let ?s1 = "snd (Controller_AddTransaction (mk_Transaction 4096 True) s0)"
  have "size (waiting ?s1) < 32" using s1(2) s0(2) by simp
  note s2 = small_add [OF s1(1) this, of 8192 False]
  let ?s2 = "snd (Controller_AddTransaction (mk_Transaction 8192 False) ?s1)"
  have clk: "ctl_clk ?s2 = 0" using s1(3) s2(3) s0(3) by simp
  have wf: "ctl_wf small_config ?s2" "ctl_config small_config"
    using controller_run_inv [OF s2(1) demo_new_config] demo_new_config by (simp_all add: new_config_def)
  from ClockTick_ok [OF wf(2,1)] small_no_wrap(1) clk
  obtain s3 where s3: "Controller_ClockTick small_config (Timing_new small_config) ?s2 = Inr s3" "ctl_clk s3 = 1"
    by (auto simp: succeeds_iff)
  have "controller_run small_config {#(8192, False), (4096, True)#} {#} s3"
    by (rule run_tick [OF s2(1) _ s3(1)]) (simp add: clk small_no_wrap)
  then show ?thesis using s3 by (simp add: demo_ctl_def s0(1))
qed

text \<open>
  A run in which a write reaches the command queue before a read of another address is accepted:
  the first cycle issues nothing, so its outcome is the same for every timing table.
\<close>

definition write_then_read :: "Controller res" where
  "write_then_read =
     bindE (Controller_new 0 small_config) (\<lambda>s0.
     bindE (Controller_ClockTick small_config (Timing_new small_config)
              (snd (Controller_AddTransaction (mk_Transaction 4096 True) s0))) (\<lambda>s1.
     Inr (snd (Controller_AddTransaction (mk_Transaction 8192 False) s1))))"

lemma write_scheduled:
  "case Controller_new 0 small_config of Inl e \<Rightarrow> False | Inr s0 \<Rightarrow>
     (case Controller_ClockTick small_config tm (snd (Controller_AddTransaction (mk_Transaction 4096 True) s0)) of
        Inl e \<Rightarrow> False
      | Inr s \<Rightarrow> map (\<lambda>c. (IsWrite c, hex_addr c)) (concat (queues (cmd_queue s))) = [(True, 4096)]
          \<and> pending_rd_q s = [] \<and> map fst (pending_wr_q s) = [4096]
          \<and> vec_items (ctl_unified_queue s) = [] \<and> vec_items (read_queue s) = [] \<and> vec_items (write_buffer s) = [])"
  by code_simp

lemma write_then_read_run:
  "succeeds write_then_read (\<lambda>s. controller_run small_config {#(8192, False), (4096, True)#} {#} s
     \<and> map (\<lambda>c. (IsWrite c, hex_addr c)) (concat (queues (cmd_queue s))) = [(True, 4096)]
     \<and> map fst (pending_rd_q s) = [8192])"
proof -
  obtain s0 where s0: "Controller_new 0 small_config = Inr s0" "waiting s0 = {#}" "ctl_clk s0 = 0"
    using demo_start by (auto simp: succeeds_iff)
  let ?w = "snd (Controller_AddTransaction (mk_Transaction 4096 True) s0)"
  have "size (waiting s0) < 32" using s0(2) by simp
  note w = small_add [OF run_start [OF s0(1)] this, of 4096 True]
  obtain s1 where s1: "Controller_ClockTick small_config (Timing_new small_config) ?w = Inr s1"
    "map (\<lambda>c. (IsWrite c, hex_addr c)) (concat (queues (cmd_queue s1))) = [(True, 4096)]"
    "pending_rd_q s1 = []" "map fst (pending_wr_q s1) = [4096]" "waiting s1 = {#}"
    using write_scheduled [of "Timing_new small_config"] s0(1) by (auto simp: waiting_def split: sum.splits)
  have run1: "controller_run small_config {#(4096, True)#} {#} s1"
    by (rule run_tick [OF w(1) _ s1(1)]) (simp add: w(3) s0(3) small_no_wrap)
  have "size (waiting s1) < 32" using s1(5) by simp
  note r = small_add [OF run1 this, of 8192 False]
  have "key_count 8192 (pending_wr_q s1) = 0"
    using s1(4) by (auto simp: key_count_def)
  then show ?thesis
    using r(1) s0(1) s1 by (simp add: write_then_read_def Controller_AddTransaction_def Let_def key_count_def)
qed

text \<open>
  Claim C2. A controller of a valid configuration without self refresh and without HBM dual commands
  never aborts: after any sequence of clock cycles, accepted transactions and returned transactions,
  as long as the clock does not wrap, the next clock cycle returns normally.  Self refresh has to be
  excluded: \<open>self_refresh_wake_aborts\<close> below shows that waking a rank ends the program; so has the
  dual command, which loses an access (\<open>dual_command_drops_access\<close>).  No \<^verbatim>\<open>AbruptExit\<close>, no read or
  write that is missing from the pending queues, and no index outside a vector is possible.
\<close>

theorem controller_never_aborts:
  assumes "new_config cfg" "controller_run cfg acc ans s" "no_wrap (Timing_new cfg) (ctl_clk s)"
  shows "\<exists>s'. Controller_ClockTick cfg (Timing_new cfg) s = Inr s'"
  using ClockTick_ok [of cfg s] controller_run_inv [OF assms(2,1)] assms(1,3)
  by (auto simp: new_config_def succeeds_iff)

theorem controller_never_aborts_witness:
  "succeeds demo_ctl (\<lambda>s. \<exists>s'. Controller_ClockTick small_config (Timing_new small_config) s = Inr s')"
  by (rule succeeds_mono [OF demo_run], elim conjE)
    (rule controller_never_aborts [OF demo_new_config], assumption, simp add: small_no_wrap)


text \<open>
  Claim C3. Without self refresh and HBM dual commands, every accepted transaction is answered
  exactly once: at any point of a run the accepted
  transactions are those that have been returned together with those the controller still holds,
  as multisets of addresses and directions, so none is lost, invented or answered twice.
\<close>

theorem transactions_answered_once:
  assumes "new_config cfg" "controller_run cfg acc ans s"
  shows "acc = ans + owed s"
  using controller_run_inv [OF assms(2,1)] by blast

theorem transactions_answered_once_witness:
  "succeeds demo_ctl (\<lambda>s. {#(8192, False), (4096, True)#} = {#} + owed s)"
  by (rule succeeds_mono [OF demo_run], elim conjE) (rule transactions_answered_once [OF demo_new_config])


text \<open>
  Claim C4. The commands a controller issues respect the timing tables as \<^verbatim>\<open>UpdateTiming\<close> consults
  them (after a refresh of one bank it consults the rows by bank and bank group, but not the same-rank
  row with \<^verbatim>\<open>tRFCb\<close>), without self refresh and HBM dual commands: in the command trace of any run, any two commands are at least as
  far apart as their types and relative position demand.
\<close>

theorem controller_respects_timing:
  assumes "new_config cfg" "controller_run cfg acc ans s"
  shows "trace_respects_timing cfg (cmd_trace s)"
  using controller_run_inv [OF assms(2,1)] ctl_wfD(10) by blast

theorem controller_respects_timing_witness:
  "succeeds demo_ctl (\<lambda>s. trace_respects_timing small_config (cmd_trace s))"
  by (rule succeeds_mono [OF demo_run], elim conjE) (rule controller_respects_timing [OF demo_new_config])


text \<open>
  Claim C5. With separate read and write queues (\<^verbatim>\<open>unified_queue\<close> off, self refresh and HBM dual
  commands disabled) a write never passes an older read: while a read of an address is pending, no
  write command for that address is in the command queue.  A unified queue is not checked by
  \<^verbatim>\<open>ScheduleTransaction\<close>, so the property is about separate queues only.
\<close>

theorem writes_never_pass_reads:
  assumes "new_config cfg" "controller_run cfg acc ans s" "\<not> unified_queue (sys cfg)"
  shows "\<forall>c \<in># queued (cmd_queue s). IsWrite c \<longrightarrow> hex_addr c \<notin> fst ` set (pending_rd_q s)"
proof -
  have "ctl_wf cfg s" "\<not> is_unified_queue s"
    using controller_run_inv [OF assms(2,1)] assms(3) by (simp_all add: caps_ok_def)
  then show ?thesis using ctl_wfD(8) [of cfg s] by (simp add: hazard_free_def)
qed

theorem writes_never_pass_reads_witness:
  "succeeds write_then_read (\<lambda>s.
     map (\<lambda>c. (IsWrite c, hex_addr c)) (concat (queues (cmd_queue s))) = [(True, 4096)]
     \<and> map fst (pending_rd_q s) = [8192]
     \<and> (\<forall>c \<in># queued (cmd_queue s). IsWrite c \<longrightarrow> hex_addr c \<notin> fst ` set (pending_rd_q s)))"
  by (rule succeeds_mono [OF write_then_read_run], elim conjE, intro conjI, assumption, assumption)
    (rule writes_never_pass_reads [OF demo_new_config], assumption, simp add: small_config_def lpddr5_config_def)

text \<open>
  The test for an idle controller is sound: when \<^verbatim>\<open>IsAllQueueEmpty\<close> holds, every accepted
  transaction has been answered and no read or write is pending.
\<close>

theorem idle_controller_has_answered:
  assumes "new_config cfg" "controller_run cfg acc ans s" "IsAllQueueEmpty s"
  shows "acc = ans \<and> IsReadQueueEmpty s \<and> IsWriteQueueEmpty s"
proof -
  have wf: "ctl_wf cfg s" "acc = ans + owed s" "caps_ok cfg s" using controller_run_inv [OF assms(2,1)] by auto
  have "waiting s = {#}"
    using assms(3) ctl_wfD(11-13) [OF wf(1)] wf(3)
    by (auto simp: IsAllQueueEmpty_def waiting_def caps_ok_def vec_ok_def split: if_splits)
  moreover have "queued (cmd_queue s) = {#}"
    using assms(3) by (auto simp: IsAllQueueEmpty_def CommandQueue_QueueEmpty_def queued_def list_all_iff split: if_splits)
  ultimately have "pending_rd_q s = []" "pending_wr_q s = []"
    using ctl_wfD(7) [OF wf(1)] by (auto simp: pending_ok_def tokens_def mset_set_empty_iff)
  moreover have "return_queue s = []" using assms(3) by (simp add: IsAllQueueEmpty_def split: if_splits)
  ultimately show ?thesis
    using wf(2) by (simp add: owed_def IsReadQueueEmpty_def IsWriteQueueEmpty_def)
qed

text \<open>
  The transaction queues stay within the configured size as long as the caller asks
  \<^verbatim>\<open>WillAcceptTransaction\<close> first, so the capacity the controller compares with never grows.
\<close>

theorem transaction_queues_bounded:
  assumes "new_config cfg" "controller_run cfg acc ans s"
  shows "int (length (vec_items (ctl_unified_queue s))) \<le> max 0 (trans_queue_size (sys cfg))
    \<and> int (length (vec_items (read_queue s))) \<le> max 0 (trans_queue_size (sys cfg))
    \<and> int (length (vec_items (write_buffer s))) \<le> max 0 (trans_queue_size (sys cfg))"
proof -
  have wf: "ctl_wf cfg s" "caps_ok cfg s" using controller_run_inv [OF assms(2,1)] by auto
  show ?thesis
    using ctl_wfD(11-13) [OF wf(1)] wf(2) unfolding caps_ok_def vec_ok_def by (auto split: if_splits)
qed

theorem transaction_queues_bounded_witness:
  "succeeds demo_ctl (\<lambda>s. int (length (vec_items (ctl_unified_queue s))) \<le> max 0 (trans_queue_size (sys small_config))
    \<and> int (length (vec_items (read_queue s))) \<le> max 0 (trans_queue_size (sys small_config))
    \<and> int (length (vec_items (write_buffer s))) \<le> max 0 (trans_queue_size (sys small_config)))"
  by (rule succeeds_mono [OF demo_run], elim conjE) (rule transaction_queues_bounded [OF demo_new_config])


text \<open>
  Waking a rank aborts the program: when the loop of the power updates reaches a rank in
  self refresh for which commands are queued, it asks for \<^verbatim>\<open>SREF_EXIT\<close>, which the automaton of a bank
  in self refresh does not accept as a request, and \<^verbatim>\<open>AbruptExit\<close> is called.
\<close>

theorem self_refresh_wake_aborts:
  assumes "config_ok cfg" "chan_wf cfg (channel_state s)" "cq_wf cfg (cmd_queue s)" "0 \<le> r" "r < ranks (dram cfg)"
    and "rank_is_sref (channel_state s) ! nat r" "\<not> rank_q_empty (cmd_queue s) ! nat r"
  shows "self_refresh_loop cfg tm (r # rs) s = Inl (AbruptExit ''bankstate.cc'' 77)"
proof -
  let ?cs = "channel_state s" and ?c = "rank_command SREF_EXIT r"
  have c: "Rank ?c = r" "cmd_type ?c = SREF_EXIT" "IsRankCMD ?c" by (simp_all add: rank_command_def IsRankCMD_def)
  have dims: "bank_dims cfg (bank_states ?cs)" using chan_wfD(1) [OF assms(2)] by (simp add: chan_dims_def)
  have g: "0 < bankgroups (dram cfg)" "0 < banks_per_group (dram cfg)"
    using assms(1) by (auto simp: config_ok_def geometry_ok_def)
  then have zero: "in_dims cfg (r, 0, 0)" using assms(4,5) by (simp add: in_dims_def)
  obtain ps where ps: "rank_banks cfg = (0, 0) # ps"
    using g by (simp add: rank_banks_def int_range_def upt_conv_Cons)
  have "bk_state (bank_of ?cs (r, 0, 0)) = SREF" using chan_wfD(4) [OF assms(2) zero] assms(6) by simp
  then have "BankState_GetReadyCommand (bank_of ?cs (r, 0, 0)) ?c t = Inl (AbruptExit ''bankstate.cc'' 77)" for t
    by (simp add: BankState_GetReadyCommand_def required_type_def c)
  then have "ChannelState_GetReadyCommand cfg ?cs ?c t = Inl (AbruptExit ''bankstate.cc'' 77)" for t
    by (simp add: ChannelState_GetReadyCommand_def c ps bank_at_in [OF dims zero])
  moreover have "nth_res (rank_q_empty (cmd_queue s)) r = Inr False"
    using assms(3-5,7) by (simp add: nth_res_def cq_wf_def)
  moreover have "\<exists>n. nth_res (rank_idle_cycles ?cs) r = Inr n"
    using chan_wfD(1) [OF assms(2)] assms(4,5) by (simp add: nth_res_def chan_dims_def)
  ultimately show ?thesis using IsRankSelfRefreshing_in [OF assms(2,4,5)] assms(6) by auto
qed

text \<open>The channel after rank 0 has entered self refresh.\<close>

lemma sleeping_channel:
  obtains cs where "chan_wf small_config cs" "rank_is_sref cs ! 0"
proof -
  let ?c = "rank_command SREF_ENTER 0" and ?cs = "ChannelState_new small_config"
  have v: "ChannelState_GetReadyCommand small_config ?cs ?c 0 = Inr ?c" by code_simp
  have "cmd_in_dims small_config ?c" "IsValid ?c" by code_simp+
  then have iss: "issuable small_config ?cs ?c 0"
    using GetReadyCommand_issuable [OF small_chan_wf small_config_ok _ v] by blast
  obtain cs where cs: "UpdateTimingAndStates small_config (Timing_new small_config) ?cs ?c 0 = Inr cs" "chan_wf small_config cs"
    using issue_preserves_wf [OF small_chan_wf iss sref_exit_rankwide_new] by (auto simp: succeeds_iff)
  have "rank_is_sref cs = flags_after ?c (rank_is_sref ?cs)"
    using cs(1) by (rule_tac issue_pointwise [OF chan_wfD(1) [OF small_chan_wf] iss, of "Timing_new small_config"]) auto
  also have "\<dots> ! 0" by code_simp
  finally show thesis using that cs(2) by blast
qed

theorem self_refresh_wake_aborts_witness:
  "\<exists>s. rank_is_sref (channel_state s) ! 0 \<and> cmd_queue s = demo_queue
     \<and> self_refresh_loop small_config (Timing_new small_config) (int_range (ranks (dram small_config))) s
         = Inl (AbruptExit ''bankstate.cc'' 77)"
proof -
  obtain cs where cs: "chan_wf small_config cs" "rank_is_sref cs ! 0" by (rule sleeping_channel)
  obtain s0 where "Controller_new 0 small_config = Inr s0" using demo_start by (auto simp: succeeds_iff)
  let ?s = "s0\<lparr>channel_state := cs, cmd_queue := demo_queue\<rparr>"
  have r: "int_range (ranks (dram small_config)) = [0, 1]" by code_simp
  have "self_refresh_loop small_config (Timing_new small_config) (0 # [1]) ?s = Inl (AbruptExit ''bankstate.cc'' 77)"
  proof (rule self_refresh_wake_aborts [OF small_config_ok])
    show "\<not> rank_q_empty (cmd_queue ?s) ! nat 0" by (simp add: demo_queue_def)
  qed (use cs demo_queue_wf in \<open>simp_all add: small_config_def\<close>)
  then show ?thesis using cs(2) by (intro exI [of _ ?s]) (simp add: r)
qed

text \<open>
  The dual command of HBM loses accesses: when the first command of a cycle is a read or a write and
  the second selection is one too, the second has left the command queue but is not issued: no
  command of the trace and no answer stands for it, and its transaction stays pending for ever.
\<close>

lemma dual_command_drops_access:
  assumes "config_ok cfg" "chan_wf cfg (channel_state s)" "cq_wf cfg (cmd_queue s)" "stats_wf cfg (simple_stats s)"
    and "IsReadWrite cmd"
    and "GetCommandToIssue cfg (channel_state s) (cmd_queue s) (simple_stats s) = Inr (second, cq, st)" "IsReadWrite second"
  shows "\<exists>s'. issue_dual cfg tm cmd s = Inr s' \<and> queued (cmd_queue s) = add_mset second (queued (cmd_queue s'))
    \<and> cmd_trace s' = cmd_trace s \<and> return_queue s' = return_queue s
    \<and> pending_rd_q s' = pending_rd_q s \<and> pending_wr_q s' = pending_wr_q s"
proof -
  have "queued (cmd_queue s) = add_mset second (queued cq)"
    using GetCommandToIssue_ok [OF assms(1-4)] assms(6,7) by simp
  then show ?thesis using assms(5-7) by (simp add: issue_dual_def)
qed

end
