(* ===== verification/Dram_System.thy ===== *)
theory Dram_System
  imports Controller_Safety
begin

text \<open>
  \<^verbatim>\<open>DRAMsim3/src/dram_system.h\<close> and \<^verbatim>\<open>dram_system.cc\<close>: the memory systems behind the front end, one with a
  controller per channel and one with a fixed latency.  The callbacks of the front end are invoked
  while a clock cycle runs; the model returns them as the list of invocations, in order.  The
  interface \<open>memory_backend\<close> says what a front end relies on: a transaction that will be accepted
  is accepted, and each accepted transaction leads to exactly one callback.
\<close>

section \<open>The interface of a memory system\<close>

type_synonym callback = "u64 \<times> bool"

text \<open>A callback \<open>(a, w)\<close> is \<^verbatim>\<open>write_callback_(a)\<close> when \<open>w\<close> holds and \<^verbatim>\<open>read_callback_(a)\<close> otherwise.\<close>

text \<open>A front end issues requests and clock cycles; a request that would not be accepted is not made.\<close>

datatype fe_op = Request u64 bool | Cycle

fun backend_run ::
    "(u64 \<Rightarrow> bool \<Rightarrow> 's \<Rightarrow> bool res) \<Rightarrow> (u64 \<Rightarrow> bool \<Rightarrow> 's \<Rightarrow> (bool \<times> 's) res) \<Rightarrow> ('s \<Rightarrow> (callback list \<times> 's) res)
      \<Rightarrow> fe_op list \<Rightarrow> 's \<Rightarrow> (callback list \<times> callback list \<times> 's) res" where
  "backend_run accepts add tick [] s = Inr ([], [], s)"
| "backend_run accepts add tick (Request a w # ops) s =
     bindE (accepts a w s) (\<lambda>ok.
     if ok then bindE (add a w s) (\<lambda>(r, s1).
       bindE (backend_run accepts add tick ops s1) (\<lambda>(acc, cbs, s2). Inr ((a, w) # acc, cbs, s2)))
     else backend_run accepts add tick ops s)"
| "backend_run accepts add tick (Cycle # ops) s =
     bindE (tick s) (\<lambda>(cbs1, s1).
     bindE (backend_run accepts add tick ops s1) (\<lambda>(acc, cbs, s2). Inr (acc, cbs1 @ cbs, s2)))"

text \<open>\<open>horizon n s\<close> says that the clock of \<open>s\<close> is at least \<open>n\<close> cycles away from the end of its range.\<close>

locale memory_backend =
  fixes valid :: "'s \<Rightarrow> bool"
    and horizon :: "nat \<Rightarrow> 's \<Rightarrow> bool"
    and accepts :: "u64 \<Rightarrow> bool \<Rightarrow> 's \<Rightarrow> bool res"
    and add :: "u64 \<Rightarrow> bool \<Rightarrow> 's \<Rightarrow> (bool \<times> 's) res"
    and tick :: "'s \<Rightarrow> (callback list \<times> 's) res"
    and outstanding :: "'s \<Rightarrow> callback multiset"
  assumes accepts_returns: "valid s \<Longrightarrow> \<exists>b. accepts a w s = Inr b"
    and add_accepted:
      "\<lbrakk>valid s; accepts a w s = Inr True; horizon n s\<rbrakk> \<Longrightarrow> succeeds (add a w s) (\<lambda>(ok, s').
         ok \<and> valid s' \<and> horizon n s' \<and> outstanding s' = add_mset (a, w) (outstanding s))"
    and tick_conserves:
      "\<lbrakk>valid s; horizon (Suc n) s\<rbrakk> \<Longrightarrow> succeeds (tick s) (\<lambda>(cbs, s').
         valid s' \<and> horizon n s' \<and> outstanding s = mset cbs + outstanding s')"
begin

lemma run_conserves:
  assumes "valid s" "horizon n s" "length (filter (\<lambda>x. x = Cycle) ops) \<le> n"
  shows "succeeds (backend_run accepts add tick ops s) (\<lambda>(acc, cbs, s').
    valid s' \<and> outstanding s + mset acc = mset cbs + outstanding s')"
  using assms
proof (induction ops arbitrary: s n)
  case (Cons x ops)
  show ?case
  proof (cases x)
    case (Request a w)
    obtain b where b: "accepts a w s = Inr b" using accepts_returns [OF Cons.prems(1)] by blast
    show ?thesis
    proof (cases b)
      case True
      obtain s1 where s1: "add a w s = Inr (True, s1)" "valid s1" "horizon n s1"
        "outstanding s1 = add_mset (a, w) (outstanding s)"
        using add_accepted [OF Cons.prems(1) _ Cons.prems(2), of a w] b True by (auto simp: succeeds_iff)
      show ?thesis
        using Cons.IH [OF s1(2,3)] Cons.prems(3) s1(1,4) b True Request by (auto simp: succeeds_iff)
    next
      case False
      then show ?thesis using Cons.IH [OF Cons.prems(1,2)] Cons.prems(3) b Request by simp
    qed
  next
    case Cycle
    then obtain m where m: "n = Suc m" "length (filter (\<lambda>x. x = Cycle) ops) \<le> m"
      using Cons.prems(3) by (cases n) auto
    obtain cbs s1 where s1: "tick s = Inr (cbs, s1)" "valid s1" "horizon m s1" "outstanding s = mset cbs + outstanding s1"
      using tick_conserves [OF Cons.prems(1), of m] Cons.prems(2) m(1) by (auto simp: succeeds_iff)
    obtain acc cbs' s2 where r: "backend_run accepts add tick ops s1 = Inr (acc, cbs', s2)" "valid s2"
      "outstanding s1 + mset acc = mset cbs' + outstanding s2"
      using Cons.IH [OF s1(2,3) m(2)] by (auto simp: succeeds_iff)
    have "outstanding s + mset acc = mset (cbs @ cbs') + outstanding s2"
      using s1(4) r(3) by (simp add: add.assoc)
    then show ?thesis using Cycle s1(1) r(1,2) by simp
  qed
qed simp

end

section \<open>State\<close>

record JedecDRAMSystem =
  jd_clk :: u64
  last_req_clk :: u64
  ctrls :: "Controller list"

definition GetChannel :: "Config \<Rightarrow> u64 \<Rightarrow> int" where
  "GetChannel cfg hex =
     (let h = drop_bit (nat (shift_bits (amap cfg))) hex in
      to_int32 (drop_bit (nat (ch_pos (amap cfg))) h AND ch_mask (amap cfg)))"

fun new_controllers :: "Config \<Rightarrow> int list \<Rightarrow> Controller list res" where
  "new_controllers cfg [] = Inr []"
| "new_controllers cfg (i # is) =
     bindE (Controller_new i cfg) (\<lambda>c. bindE (new_controllers cfg is) (\<lambda>cs. Inr (c # cs)))"

definition JedecDRAMSystem_new :: "Config \<Rightarrow> JedecDRAMSystem res" where
  "JedecDRAMSystem_new cfg =
     (if IsHMC cfg then Inl (AbruptExit ''dram_system.cc'' 103)
      else bindE (new_controllers cfg (int_range (channels (dram cfg)))) (\<lambda>cs.
           Inr \<lparr>jd_clk = 0, last_req_clk = 0, ctrls = cs\<rparr>))"

section \<open>Transactions\<close>

definition Jedec_WillAcceptTransaction :: "Config \<Rightarrow> u64 \<Rightarrow> bool \<Rightarrow> JedecDRAMSystem \<Rightarrow> bool res" where
  "Jedec_WillAcceptTransaction cfg hex is_wr s =
     bindE (nth_res (ctrls s) (GetChannel cfg hex)) (\<lambda>c.
     Inr (Controller_WillAcceptTransaction c hex is_wr))"

definition Jedec_AddTransaction :: "Config \<Rightarrow> u64 \<Rightarrow> bool \<Rightarrow> JedecDRAMSystem \<Rightarrow> (bool \<times> JedecDRAMSystem) res" where
  "Jedec_AddTransaction cfg hex is_wr s =
     (let channel = GetChannel cfg hex in
      bindE (nth_res (ctrls s) channel) (\<lambda>c.
      let ok = Controller_WillAcceptTransaction c hex is_wr in
      if \<not> ok then Inl AssertFailed
      else
        bindE (upd_res (ctrls s) channel (snd (Controller_AddTransaction (mk_Transaction hex is_wr) c))) (\<lambda>cs.
        Inr (ok, s\<lparr>ctrls := cs, last_req_clk := jd_clk s\<rparr>))))"

section \<open>One clock cycle\<close>

text \<open>The loop \<^verbatim>\<open>while (true)\<close> around \<^verbatim>\<open>ReturnDoneTrans\<close>.\<close>

lemma ReturnDoneTrans_shrinks:
  "ReturnDoneTrans clk s = ((a, w), s') \<Longrightarrow> w \<noteq> -1 \<Longrightarrow> length (return_queue s') < length (return_queue s)"
proof -
  have er: "length (erase_first P xs) < length xs" if "find P xs = Some x" for P x and xs :: "Transaction list"
    using that by (induction xs) (auto split: if_splits)
  show "ReturnDoneTrans clk s = ((a, w), s') \<Longrightarrow> w \<noteq> -1 \<Longrightarrow> length (return_queue s') < length (return_queue s)"
    by (auto simp: ReturnDoneTrans_def er split: option.splits)
qed

function drain :: "u64 \<Rightarrow> Controller \<Rightarrow> callback list \<times> Controller" where
  "drain clk s =
     (case ReturnDoneTrans clk s of ((a, w), s1) \<Rightarrow>
        if w = 1 then (case drain clk s1 of (cbs, s2) \<Rightarrow> ((a, True) # cbs, s2))
        else if w = 0 then (case drain clk s1 of (cbs, s2) \<Rightarrow> ((a, False) # cbs, s2))
        else ([], s1))"
  by pat_completeness auto
termination
  by (relation "measure (\<lambda>(clk, s). length (return_queue s))") (auto dest: ReturnDoneTrans_shrinks [OF sym])

declare drain.simps [simp del]

fun drain_all :: "u64 \<Rightarrow> Controller list \<Rightarrow> callback list \<times> Controller list" where
  "drain_all clk [] = ([], [])"
| "drain_all clk (c # cs) =
     (case drain clk c of (cbs, c1) \<Rightarrow> case drain_all clk cs of (cbs', cs') \<Rightarrow> (cbs @ cbs', c1 # cs'))"

text \<open>Applying an operation to every controller, in order.\<close>

fun map_res :: "('a \<Rightarrow> 'b res) \<Rightarrow> 'a list \<Rightarrow> 'b list res" where
  "map_res f [] = Inr []"
| "map_res f (x # xs) = bindE (f x) (\<lambda>y. bindE (map_res f xs) (\<lambda>ys. Inr (y # ys)))"

definition DRAMSystem_PrintEpochStats :: "JedecDRAMSystem \<Rightarrow> JedecDRAMSystem res" where
  "DRAMSystem_PrintEpochStats s =
     bindE (map_res Controller_PrintEpochStats (ctrls s)) (\<lambda>cs. Inr (s\<lparr>ctrls := cs\<rparr>))"

definition DRAMSystem_PrintStats :: "JedecDRAMSystem \<Rightarrow> JedecDRAMSystem res" where
  "DRAMSystem_PrintStats s =
     bindE (map_res Controller_PrintFinalStats (ctrls s)) (\<lambda>cs. Inr (s\<lparr>ctrls := cs\<rparr>))"

definition DRAMSystem_ResetStats :: "JedecDRAMSystem \<Rightarrow> JedecDRAMSystem" where
  "DRAMSystem_ResetStats s = s\<lparr>ctrls := map Controller_ResetStats (ctrls s)\<rparr>"

definition Jedec_ClockTick :: "Config \<Rightarrow> JedecDRAMSystem \<Rightarrow> (callback list \<times> JedecDRAMSystem) res" where
  "Jedec_ClockTick cfg s =
     (case drain_all (jd_clk s) (ctrls s) of (cbs, cs) \<Rightarrow>
      bindE (map_res (Controller_ClockTick cfg (Timing_new cfg)) cs) (\<lambda>cs1.
      let s1 = s\<lparr>ctrls := cs1, jd_clk := jd_clk s + 1\<rparr>;
          period = (of_int (epoch_period (sys cfg)) :: u64) in
      if period = 0 then Inl DivByZero
      else bindE (if jd_clk s1 mod period = 0 then DRAMSystem_PrintEpochStats s1 else Inr s1) (\<lambda>s2.
           Inr (cbs, s2))))"

section \<open>The ideal memory system\<close>

record IdealDRAMSystem =
  id_clk :: u64
  latency :: int
  infinite_buffer_q :: "Transaction list"

definition IdealDRAMSystem_new :: "Config \<Rightarrow> IdealDRAMSystem" where
  "IdealDRAMSystem_new cfg =
     \<lparr>id_clk = 0, latency = ideal_memory_latency (tim cfg), infinite_buffer_q = []\<rparr>"

definition Ideal_WillAcceptTransaction :: "u64 \<Rightarrow> bool \<Rightarrow> IdealDRAMSystem \<Rightarrow> bool" where
  "Ideal_WillAcceptTransaction hex is_wr s = True"

definition Ideal_AddTransaction :: "u64 \<Rightarrow> bool \<Rightarrow> IdealDRAMSystem \<Rightarrow> bool \<times> IdealDRAMSystem" where
  "Ideal_AddTransaction hex is_wr s =
     (True, s\<lparr>infinite_buffer_q := infinite_buffer_q s @
               [(mk_Transaction hex is_wr)\<lparr>added_cycle := id_clk s\<rparr>]\<rparr>)"

text \<open>
  The loop over the buffer.  After an erasure the iterator already denotes the next element, and
  the increment at the end of the body then passes over that element.
\<close>

fun ideal_loop :: "u64 \<Rightarrow> u64 \<Rightarrow> Transaction list \<Rightarrow> callback list \<times> Transaction list" where
  "ideal_loop clk lat [] = ([], [])"
| "ideal_loop clk lat (t # ts) =
     (if clk - added_cycle t \<ge> lat then
        (case ts of
           [] \<Rightarrow> ([(tr_addr t, is_write t)], [])
         | t' # ts' \<Rightarrow> (case ideal_loop clk lat ts' of (cbs, q) \<Rightarrow> ((tr_addr t, is_write t) # cbs, t' # q)))
      else (case ideal_loop clk lat ts of (cbs, q) \<Rightarrow> (cbs, t # q)))"

definition Ideal_ClockTick :: "IdealDRAMSystem \<Rightarrow> callback list \<times> IdealDRAMSystem" where
  "Ideal_ClockTick s =
     (case ideal_loop (id_clk s) (of_int (latency s)) (infinite_buffer_q s) of (cbs, q) \<Rightarrow>
        (cbs, s\<lparr>infinite_buffer_q := q, id_clk := id_clk s + 1\<rparr>))"

section \<open>Returning transactions\<close>

definition due :: "u64 \<Rightarrow> Transaction \<Rightarrow> bool" where
  "due clk t = (clk \<ge> complete_cycle t)"

definition callback_of :: "Transaction \<Rightarrow> callback" where
  "callback_of t = (tr_addr t, is_write t)"

lemma erase_first_filters:
  assumes "find P xs = Some x"
  shows "filter P xs = x # filter P (erase_first P xs)" "filter (\<lambda>y. \<not> P y) (erase_first P xs) = filter (\<lambda>y. \<not> P y) xs"
  using assms by (induction xs) (auto split: if_splits)

lemma due_pred: "(\<lambda>it. complete_cycle it \<le> clk) = due clk"
  by (simp add: due_def fun_eq_iff)

lemma ReturnDoneTrans_due:
  "ReturnDoneTrans clk s =
     (case find (due clk) (return_queue s) of
        None \<Rightarrow> ((-1, -1), s)
      | Some it \<Rightarrow>
          ((tr_addr it, if is_write it then 1 else 0),
           s\<lparr>simple_stats :=
                (if is_write it then Increment ''num_writes_done'' (simple_stats s)
                 else AddValue ''read_latency'' (to_int32 (ctl_clk s - added_cycle it))
                        (Increment ''num_reads_done'' (simple_stats s))),
              return_queue := erase_first (due clk) (return_queue s)\<rparr>))"
  unfolding ReturnDoneTrans_def due_pred ..

lemma drain_spec:
  "fst (drain clk s) = map callback_of (filter (due clk) (return_queue s))
   \<and> (\<exists>st. snd (drain clk s) = s\<lparr>simple_stats := st, return_queue := filter (\<lambda>t. \<not> due clk t) (return_queue s)\<rparr>
        \<and> (\<forall>cfg. stats_wf cfg (simple_stats s) \<longrightarrow> stats_wf cfg st))"
proof (induction clk s rule: drain.induct)
  case (1 clk s)
  show ?case
  proof (cases "find (due clk) (return_queue s)")
    case None
    then have "filter (due clk) (return_queue s) = []" "filter (\<lambda>t. \<not> due clk t) (return_queue s) = return_queue s"
      by (auto simp: find_None_iff filter_empty_conv filter_id_conv)
    then show ?thesis
      using None by (simp add: drain.simps [of clk s] ReturnDoneTrans_due) (rule exI [of _ "simple_stats s"], simp)
  next
    case (Some it)
    define s1 where "s1 = snd (ReturnDoneTrans clk s)"
    have r: "ReturnDoneTrans clk s = ((tr_addr it, if is_write it then 1 else 0), s1)"
      using Some by (simp add: s1_def ReturnDoneTrans_due)
    have IH: "fst (drain clk s1) = map callback_of (filter (due clk) (return_queue s1))
      \<and> (\<exists>st. snd (drain clk s1) = s1\<lparr>simple_stats := st, return_queue := filter (\<lambda>t. \<not> due clk t) (return_queue s1)\<rparr>
           \<and> (\<forall>cfg. stats_wf cfg (simple_stats s1) \<longrightarrow> stats_wf cfg st))"
      using "1.IH" [OF r [symmetric] refl] by (cases "is_write it") simp_all
    obtain st1 where s1: "s1 = s\<lparr>simple_stats := st1, return_queue := erase_first (due clk) (return_queue s)\<rparr>"
      "\<And>cfg. stats_wf cfg (simple_stats s) \<Longrightarrow> stats_wf cfg st1"
      using Some by (cases "is_write it") (auto simp: s1_def ReturnDoneTrans_due)
    have d: "drain clk s = (callback_of it # fst (drain clk s1), snd (drain clk s1))"
      by (subst drain.simps) (simp add: r callback_of_def case_prod_unfold)
    show ?thesis
      using IH s1(2) unfolding d by (auto simp: s1(1) erase_first_filters [OF Some])
  qed
qed

lemma drain_keeps:
  assumes "ctl_wf cfg s" "caps_ok cfg s" "drain clk s = (cbs, s')"
  shows "ctl_wf cfg s'" "caps_ok cfg s'" "owed s = mset cbs + owed s'" "ctl_clk s' = ctl_clk s"
proof -
  obtain st where d: "cbs = map callback_of (filter (due clk) (return_queue s))"
    "s' = s\<lparr>simple_stats := st, return_queue := filter (\<lambda>t. \<not> due clk t) (return_queue s)\<rparr>"
    "stats_wf cfg st"
    using drain_spec [of clk s] assms(3) ctl_wfD(4) [OF assms(1)] by auto
  show "ctl_wf cfg s'" using ctl_wfD [OF assms(1)] d(3) by (simp add: d(2) ctl_wf_def waiting_def)
  show "caps_ok cfg s'" "ctl_clk s' = ctl_clk s" using assms(2) by (simp_all add: d(2) caps_ok_def)
  have "mset (map callback_of (return_queue s)) = mset cbs + mset (map callback_of (return_queue s'))"
    using mset_filter_split [of callback_of "due clk" "return_queue s"] by (simp add: d)
  then show "owed s = mset cbs + owed s'" by (simp add: owed_def d(2) callback_of_def [abs_def] add.assoc)
qed

section \<open>The invariant of a system with controllers\<close>

definition jedec_wf :: "Config \<Rightarrow> JedecDRAMSystem \<Rightarrow> bool" where
  "jedec_wf cfg s =
     (int (length (ctrls s)) = channels (dram cfg)
      \<and> (\<forall>c \<in> set (ctrls s). ctl_wf cfg c \<and> caps_ok cfg c \<and> ctl_clk c = jd_clk s))"

definition jedec_outstanding :: "JedecDRAMSystem \<Rightarrow> callback multiset" where
  "jedec_outstanding s = sum_list (map owed (ctrls s))"

definition jedec_horizon :: "Config \<Rightarrow> nat \<Rightarrow> JedecDRAMSystem \<Rightarrow> bool" where
  "jedec_horizon cfg n s = (\<forall>k < n. no_wrap (Timing_new cfg) (jd_clk s + of_nat k))"

text \<open>The configurations of such a system.\<close>

definition jedec_config :: "Config \<Rightarrow> bool" where
  "jedec_config cfg = (new_config cfg \<and> \<not> IsHMC cfg \<and> 0 < epoch_period (sys cfg) \<and> epoch_period (sys cfg) < 2 ^ 31)"

lemma GetChannel_decoded: "GetChannel cfg hex = ad_channel (AddressMapping cfg hex)"
  by (simp add: GetChannel_def AddressMapping_def select_field_def Let_def)

lemma GetChannel_in_range:
  assumes "new_config cfg"
  shows "0 \<le> GetChannel cfg hex" "GetChannel cfg hex < channels (dram cfg)"
  using AddressMapping_valid [of cfg cfg hex] assms
  by (auto simp: GetChannel_decoded new_config_def ctl_config_def config_ok_def address_in_geometry_def)

lemma map_res_ok:
  assumes "\<And>x. x \<in> set xs \<Longrightarrow> succeeds (f x) (R x)"
  shows "succeeds (map_res f xs) (\<lambda>ys. list_all2 R xs ys)"
  using assms
proof (induction xs)
  case (Cons x xs)
  obtain y where "f x = Inr y" "R x y" using Cons.prems [of x] by (auto simp: succeeds_iff)
  moreover obtain ys where "map_res f xs = Inr ys" "list_all2 R xs ys" using Cons by (auto simp: succeeds_iff)
  ultimately show ?case by simp
qed simp

lemma sum_list_owed_cong: "list_all2 (\<lambda>c c'. owed c' = owed c) cs cs' \<Longrightarrow> sum_list (map owed cs') = sum_list (map owed cs)"
  by (induction rule: list_all2_induct) auto

lemma sum_list_owed_update:
  "i < length cs \<Longrightarrow> owed c = add_mset e (owed (cs ! i)) \<Longrightarrow>
     sum_list (map owed (cs[i := c])) = add_mset e (sum_list (map owed cs))"
proof (induction cs arbitrary: i)
  case (Cons d cs)
  then show ?case by (cases i) auto
qed simp

lemma drain_all_ok:
  assumes "\<forall>c \<in> set cs. ctl_wf cfg c \<and> caps_ok cfg c \<and> ctl_clk c = t" "drain_all clk cs = (cbs, cs')"
  shows "(\<forall>c \<in> set cs'. ctl_wf cfg c \<and> caps_ok cfg c \<and> ctl_clk c = t) \<and> length cs' = length cs
    \<and> sum_list (map owed cs) = mset cbs + sum_list (map owed cs')"
  using assms
proof (induction cs arbitrary: cbs cs')
  case (Cons c cs)
  obtain cbs1 c1 where d: "drain clk c = (cbs1, c1)" by (cases "drain clk c")
  obtain cbs2 cs1 where a: "drain_all clk cs = (cbs2, cs1)" by (cases "drain_all clk cs")
  have r: "cbs = cbs1 @ cbs2" "cs' = c1 # cs1" using Cons.prems(2) by (simp_all add: d a)
  have c: "ctl_wf cfg c" "caps_ok cfg c" "ctl_clk c = t" using Cons.prems(1) by auto
  note k = drain_keeps [OF c(1,2) d]
  show ?case using Cons.IH [OF _ a] Cons.prems(1) k c(3) by (auto simp: r)
qed simp

lemma PrintEpochStats_ok:
  assumes "ctl_wf cfg c" "caps_ok cfg c"
  shows "succeeds (Controller_PrintEpochStats c) (\<lambda>c'. ctl_wf cfg c' \<and> caps_ok cfg c' \<and> ctl_clk c' = ctl_clk c \<and> owed c' = owed c)"
proof -
  have "stats_wf cfg (Increment ''epoch_num'' (simple_stats c))" using ctl_wfD(4) [OF assms(1)] by simp
  from PrintEpochStats_wf [OF this] obtain st where
    st: "SimpleStats_PrintEpochStats (Increment ''epoch_num'' (simple_stats c)) = Inr st" "stats_wf cfg st"
    by (auto simp: succeeds_iff)
  then show ?thesis
    using ctl_wfD [OF assms(1)] assms(2)
    by (simp add: Controller_PrintEpochStats_def ctl_wf_def caps_ok_def owed_def waiting_def)
qed

lemma list_all2_set_right: "list_all2 R xs ys \<Longrightarrow> \<forall>x \<in> set xs. P x \<Longrightarrow> (\<And>x y. P x \<Longrightarrow> R x y \<Longrightarrow> Q y) \<Longrightarrow> \<forall>y \<in> set ys. Q y"
  by (induction rule: list_all2_induct) auto

lemma of_int_word_nonzero:
  assumes "0 < e" "e < 2 ^ 31"
  shows "(of_int e :: u64) \<noteq> 0"
proof
  assume z: "(of_int e :: u64) = 0"
  have "uint (of_int e :: u64) = e" using assms by (simp add: uint_word_of_int take_bit_int_eq_self)
  then show False using z assms(1) by simp
qed

lemma epoch_stage:
  assumes "jedec_wf cfg s"
  shows "succeeds (DRAMSystem_PrintEpochStats s) (\<lambda>s'. jedec_wf cfg s' \<and> jd_clk s' = jd_clk s
    \<and> jedec_outstanding s' = jedec_outstanding s)"
proof -
  let ?R = "\<lambda>c c'. ctl_wf cfg c' \<and> caps_ok cfg c' \<and> ctl_clk c' = ctl_clk c \<and> owed c' = owed c"
  have "succeeds (map_res Controller_PrintEpochStats (ctrls s)) (list_all2 ?R (ctrls s))"
    by (rule map_res_ok, rule PrintEpochStats_ok) (use assms in \<open>simp_all add: jedec_wf_def\<close>)
  then obtain cs where cs: "map_res Controller_PrintEpochStats (ctrls s) = Inr cs" "list_all2 ?R (ctrls s) cs"
    by (auto simp: succeeds_iff)
  have "sum_list (map owed cs) = sum_list (map owed (ctrls s))"
    by (rule sum_list_owed_cong) (use cs(2) in \<open>auto elim: list_all2_mono\<close>)
  moreover have "\<forall>c \<in> set cs. ctl_wf cfg c \<and> caps_ok cfg c \<and> ctl_clk c = jd_clk s"
    by (rule list_all2_set_right [OF cs(2), of "\<lambda>c. ctl_clk c = jd_clk s"]) (use assms in \<open>auto simp: jedec_wf_def\<close>)
  ultimately show ?thesis
    using assms list_all2_lengthD [OF cs(2)]
    by (simp add: DRAMSystem_PrintEpochStats_def cs(1) jedec_wf_def jedec_outstanding_def)
qed

lemma Jedec_ClockTick_ok:
  assumes "jedec_config cfg" "jedec_wf cfg s" "jedec_horizon cfg (Suc n) s"
  shows "succeeds (Jedec_ClockTick cfg s) (\<lambda>(cbs, s'). jedec_wf cfg s' \<and> jedec_horizon cfg n s'
    \<and> jedec_outstanding s = mset cbs + jedec_outstanding s')"
proof -
  have cfg: "ctl_config cfg" "0 < epoch_period (sys cfg)" using assms(1) by (simp_all add: jedec_config_def new_config_def)
  have ep: "(of_int (epoch_period (sys cfg)) :: u64) \<noteq> 0"
    by (rule of_int_word_nonzero [OF cfg(2)]) (use assms(1) in \<open>simp add: jedec_config_def\<close>)
  obtain cbs cs where d: "drain_all (jd_clk s) (ctrls s) = (cbs, cs)" by (cases "drain_all (jd_clk s) (ctrls s)")
  have pre: "\<forall>c \<in> set (ctrls s). ctl_wf cfg c \<and> caps_ok cfg c \<and> ctl_clk c = jd_clk s"
    using assms(2) unfolding jedec_wf_def by blast
  have dd: "\<forall>c \<in> set cs. ctl_wf cfg c \<and> caps_ok cfg c \<and> ctl_clk c = jd_clk s" "length cs = length (ctrls s)"
    "jedec_outstanding s = mset cbs + sum_list (map owed cs)"
    using drain_all_ok [OF pre d] unfolding jedec_outstanding_def by blast+
  have nw: "no_wrap (Timing_new cfg) (jd_clk s)"
    using spec [OF assms(3) [unfolded jedec_horizon_def], of 0] by simp
  let ?R = "\<lambda>c c'. ctl_wf cfg c' \<and> caps_ok cfg c' \<and> ctl_clk c' = jd_clk s + 1 \<and> owed c' = owed c"
  have "succeeds (map_res (Controller_ClockTick cfg (Timing_new cfg)) cs) (list_all2 ?R cs)"
  proof (rule map_res_ok)
    fix c assume "c \<in> set cs"
    then have c: "ctl_wf cfg c" "caps_ok cfg c" "ctl_clk c = jd_clk s" using dd(1) by auto
    show "succeeds (Controller_ClockTick cfg (Timing_new cfg) c) (?R c)"
      by (rule succeeds_mono [OF ClockTick_ok [OF cfg(1) c(1)]]) (use nw c(2,3) in \<open>auto simp: caps_ok_def\<close>)
  qed
  then obtain cs1 where cs1: "map_res (Controller_ClockTick cfg (Timing_new cfg)) cs = Inr cs1" "list_all2 ?R cs cs1"
    by (auto simp: succeeds_iff)
  let ?s = "s\<lparr>ctrls := cs1, jd_clk := jd_clk s + 1\<rparr>"
  have "sum_list (map owed cs1) = sum_list (map owed cs)"
    by (rule sum_list_owed_cong) (use cs1(2) in \<open>auto elim: list_all2_mono\<close>)
  then have out: "jedec_outstanding s = mset cbs + jedec_outstanding ?s" using dd(3) by (simp add: jedec_outstanding_def)
  have "\<forall>c \<in> set cs1. ctl_wf cfg c \<and> caps_ok cfg c \<and> ctl_clk c = jd_clk s + 1"
    by (rule list_all2_set_right [OF cs1(2) dd(1)]) blast
  then have wf: "jedec_wf cfg ?s"
    using assms(2) dd(2) list_all2_lengthD [OF cs1(2)] unfolding jedec_wf_def by simp
  have hz: "jedec_horizon cfg n s'" if "jd_clk s' = jd_clk s + 1" for s'
    unfolding jedec_horizon_def that
  proof (intro allI impI)
    fix k assume "k < n"
    then have "no_wrap (Timing_new cfg) (jd_clk s + of_nat (Suc k))" using assms(3) unfolding jedec_horizon_def by blast
    then show "no_wrap (Timing_new cfg) (jd_clk s + 1 + of_nat k)" by (simp add: add.assoc)
  qed
  show ?thesis
    using ep cs1(1) wf out hz epoch_stage [OF wf]
    by (auto simp: Jedec_ClockTick_def d Let_def succeeds_iff)
qed

lemma Jedec_accepts_returns:
  assumes "jedec_config cfg" "jedec_wf cfg s"
  shows "\<exists>b. Jedec_WillAcceptTransaction cfg a w s = Inr b"
  using GetChannel_in_range [of cfg a] assms
  by (simp add: Jedec_WillAcceptTransaction_def nth_res_def jedec_config_def jedec_wf_def)

lemma Jedec_AddTransaction_ok:
  assumes "jedec_config cfg" "jedec_wf cfg s" "Jedec_WillAcceptTransaction cfg a w s = Inr True" "jedec_horizon cfg n s"
  shows "succeeds (Jedec_AddTransaction cfg a w s) (\<lambda>(ok, s'). ok \<and> jedec_wf cfg s' \<and> jedec_horizon cfg n s'
    \<and> jedec_outstanding s' = add_mset (a, w) (jedec_outstanding s))"
proof -
  let ?ch = "GetChannel cfg a" and ?t = "mk_Transaction a w"
  let ?c = "ctrls s ! nat ?ch"
  have ch: "0 \<le> ?ch" "?ch < int (length (ctrls s))"
    using GetChannel_in_range [of cfg a] assms(1,2) by (simp_all add: jedec_config_def jedec_wf_def)
  then have i: "nat ?ch < length (ctrls s)" by linarith
  have acc: "Controller_WillAcceptTransaction ?c a w"
    using assms(3) ch by (simp add: Jedec_WillAcceptTransaction_def nth_res_def)
  have c: "ctl_wf cfg ?c" "caps_ok cfg ?c" "ctl_clk ?c = jd_clk s"
    using assms(2) nth_mem [OF i] unfolding jedec_wf_def by blast+
  define c' where "c' = snd (Controller_AddTransaction ?t ?c)"
  have add: "Controller_AddTransaction ?t ?c = (True, c')" by (simp add: c'_def AddTransaction_accept)
  have c': "ctl_wf cfg c'" "owed c' = add_mset (a, w) (owed ?c)" "caps_ok cfg c'"
    using AddTransaction_ok [OF c(1) add] caps_ok_add [OF c(2) _ add] acc by simp_all
  have clk: "ctl_clk c' = jd_clk s"
    using c(3) by (simp add: c'_def AddTransaction_accept accept_def Let_def)
  let ?s = "s\<lparr>ctrls := (ctrls s)[nat ?ch := c'], last_req_clk := jd_clk s\<rparr>"
  have "\<forall>x \<in> set ((ctrls s)[nat ?ch := c']). ctl_wf cfg x \<and> caps_ok cfg x \<and> ctl_clk x = jd_clk s"
    using assms(2) c'(1,3) clk set_update_subset_insert [of "ctrls s" "nat ?ch" c'] unfolding jedec_wf_def by blast
  then have "jedec_wf cfg ?s" using assms(2) by (simp add: jedec_wf_def)
  moreover have "jedec_outstanding ?s = add_mset (a, w) (jedec_outstanding s)"
    unfolding jedec_outstanding_def using sum_list_owed_update [OF i c'(2)] by simp
  moreover have "jedec_horizon cfg n ?s" using assms(4) by (simp add: jedec_horizon_def)
  moreover have "Jedec_AddTransaction cfg a w s = Inr (True, ?s)"
    using acc ch by (simp add: Jedec_AddTransaction_def Let_def nth_res_def upd_res_def c'_def)
  ultimately show ?thesis by simp
qed

interpretation jedec: memory_backend "\<lambda>s. jedec_config cfg \<and> jedec_wf cfg s" "jedec_horizon cfg"
  "Jedec_WillAcceptTransaction cfg" "Jedec_AddTransaction cfg" "Jedec_ClockTick cfg" jedec_outstanding
  for cfg
proof (unfold_locales, goal_cases)
  case (1 s a w)
  then show ?case using Jedec_accepts_returns by blast
next
  case (2 s a w n)
  then show ?case using Jedec_AddTransaction_ok [of cfg s a w n] by (auto elim!: succeeds_mono)
next
  case (3 s n)
  then show ?case using Jedec_ClockTick_ok [of cfg s n] by (auto elim!: succeeds_mono)
qed

lemma new_controllers_ok:
  assumes "new_config cfg"
  shows "succeeds (new_controllers cfg is) (\<lambda>cs. length cs = length is
    \<and> (\<forall>c \<in> set cs. ctl_wf cfg c \<and> caps_ok cfg c \<and> ctl_clk c = 0 \<and> owed c = {#}))"
proof (induction "is")
  case (Cons i "is")
  have g: "config_ok cfg" "geometry_ok cfg" "0 \<le> ranks (dram cfg)"
    using assms by (auto simp: new_config_def ctl_config_def config_ok_def geometry_ok_def)
  obtain st cq rf where n: "SimpleStats_new cfg = Inr st" "CommandQueue_new cfg = Inr cq" "Refresh_new cfg = Inr rf"
    using SimpleStats_new_wf [OF g(3)] CommandQueue_new_wf [OF g(1)] Refresh_new_wf [OF g(2)] assms
    by (auto simp: succeeds_iff new_config_def)
  then obtain c where c: "Controller_new i cfg = Inr c" "ctl_clk c = 0" by (auto simp: Controller_new_def Let_def)
  have "ctl_wf cfg c \<and> {#} = {#} + owed c \<and> caps_ok cfg c"
    by (rule controller_run_inv [OF run_start [OF c(1)] assms])
  with Cons c show ?case by (auto simp: succeeds_iff)
qed simp

lemma JedecDRAMSystem_new_ok:
  assumes "jedec_config cfg"
  shows "succeeds (JedecDRAMSystem_new cfg) (\<lambda>s. jedec_wf cfg s \<and> jd_clk s = 0 \<and> jedec_outstanding s = {#})"
proof -
  have cfg: "new_config cfg" "\<not> IsHMC cfg" "0 \<le> channels (dram cfg)"
    using assms by (auto simp: jedec_config_def new_config_def ctl_config_def config_ok_def geometry_ok_def)
  obtain cs where cs: "new_controllers cfg (int_range (channels (dram cfg))) = Inr cs"
    "length cs = nat (channels (dram cfg))" "\<forall>c \<in> set cs. ctl_wf cfg c \<and> caps_ok cfg c \<and> ctl_clk c = 0 \<and> owed c = {#}"
    using new_controllers_ok [OF cfg(1), of "int_range (channels (dram cfg))"] by (auto simp: succeeds_iff)
  have "sum_list (map owed cs) = {#}" using cs(3) by (induction cs) auto
  then show ?thesis
    using cs cfg(2,3) by (simp add: JedecDRAMSystem_new_def jedec_wf_def jedec_outstanding_def)
qed

section \<open>The ideal system\<close>

definition ideal_outstanding :: "IdealDRAMSystem \<Rightarrow> callback multiset" where
  "ideal_outstanding s = mset (map callback_of (infinite_buffer_q s))"

lemma ideal_loop_conserves:
  "ideal_loop clk lat q = (cbs, q') \<Longrightarrow> mset (map callback_of q) = mset cbs + mset (map callback_of q')"
  by (induction clk lat q arbitrary: cbs q' rule: ideal_loop.induct)
    (auto simp: callback_of_def split: if_splits list.splits prod.splits)

lemma ideal_loop_late:
  "ideal_loop clk lat q = (cbs, q') \<Longrightarrow> cb \<in> set cbs \<Longrightarrow> \<exists>t \<in> set q. callback_of t = cb \<and> lat \<le> clk - added_cycle t"
  by (induction clk lat q arbitrary: cbs q' rule: ideal_loop.induct)
    (fastforce simp: callback_of_def split: if_splits list.splits prod.splits)+

interpretation ideal: memory_backend "\<lambda>s. True" "\<lambda>n s. True" "\<lambda>a w s. Inr (Ideal_WillAcceptTransaction a w s)"
  "\<lambda>a w s. Inr (Ideal_AddTransaction a w s)" "\<lambda>s. Inr (Ideal_ClockTick s)" ideal_outstanding
proof (unfold_locales, goal_cases)
  case (2 s a w n)
  then show ?case by (simp add: Ideal_AddTransaction_def ideal_outstanding_def callback_of_def)
next
  case (3 s n)
  then show ?case
    using ideal_loop_conserves [of "id_clk s" "of_int (latency s)" "infinite_buffer_q s"]
    by (auto simp: Ideal_ClockTick_def ideal_outstanding_def split: prod.splits)
qed simp

section \<open>Properties\<close>

text \<open>
  Claim C1. The memory system as a whole: for any sequence of requests and clock cycles on a newly
  constructed system, nothing aborts, and each accepted request leads to exactly one callback with its address
  and direction or is still outstanding in one of the channels, as long as the clock
  does not reach the end of its range.  The configuration is valid and has self refresh and HBM
  dual commands disabled (\<open>jedec_config\<close>).
\<close>

theorem memory_system_answers_once:
  assumes "jedec_config cfg" "JedecDRAMSystem_new cfg = Inr s" "jedec_horizon cfg n s"
    and "length (filter (\<lambda>x. x = Cycle) ops) \<le> n"
  shows "succeeds (backend_run (Jedec_WillAcceptTransaction cfg) (Jedec_AddTransaction cfg) (Jedec_ClockTick cfg) ops s)
    (\<lambda>(acc, cbs, s'). mset acc = mset cbs + jedec_outstanding s')"
proof -
  have "jedec_wf cfg s" "jedec_outstanding s = {#}"
    using JedecDRAMSystem_new_ok [OF assms(1)] assms(2) by simp_all
  with jedec.run_conserves [of cfg s n ops] assms(1,3,4) show ?thesis
    by (auto elim!: succeeds_mono)
qed

definition small_ops :: "fe_op list" where
  "small_ops = [Request 4096 True, Request 8192 False, Cycle, Cycle, Request 4096 False, Cycle]"

lemma small_jedec_config: "jedec_config small_config"
  using demo_new_config by (simp add: jedec_config_def) (simp add: small_config_def lpddr5_config_def IsHMC_def)

lemma small_no_wrap_2: "no_wrap (Timing_new small_config) 2"
  by code_simp

lemma small_horizon:
  assumes "k < (3 :: nat)"
  shows "no_wrap (Timing_new small_config) (of_nat k)"
proof -
  have "k = 0 \<or> k = 1 \<or> k = 2" using assms by linarith
  then show ?thesis using small_no_wrap small_no_wrap_2 by auto
qed

theorem memory_system_answers_once_witness:
  "succeeds (bindE (JedecDRAMSystem_new small_config)
      (backend_run (Jedec_WillAcceptTransaction small_config) (Jedec_AddTransaction small_config)
         (Jedec_ClockTick small_config) small_ops))
    (\<lambda>(acc, cbs, s'). mset acc = mset cbs + jedec_outstanding s')"
proof -
  obtain s where s: "JedecDRAMSystem_new small_config = Inr s" "jd_clk s = 0"
    using JedecDRAMSystem_new_ok [OF small_jedec_config] by (auto simp: succeeds_iff)
  have "jedec_horizon small_config 3 s" using small_horizon by (simp add: jedec_horizon_def s(2))
  from memory_system_answers_once [OF small_jedec_config s(1) this, of small_ops]
  show ?thesis by (simp add: s(1) small_ops_def)
qed

text \<open>
  Claim C23. Returning transactions terminates and is exact: in one clock cycle a channel invokes the callbacks
  of precisely the transactions that are due, in the order they completed, and keeps the others.
\<close>

theorem drain_returns_due:
  "fst (drain clk s) = map (\<lambda>t. (tr_addr t, is_write t)) (filter (\<lambda>t. complete_cycle t \<le> clk) (return_queue s))
   \<and> return_queue (snd (drain clk s)) = filter (\<lambda>t. \<not> complete_cycle t \<le> clk) (return_queue s)"
  using drain_spec [of clk s] by (auto simp: callback_of_def [abs_def] due_def [abs_def])

text \<open>
  An accepted request enters the controller of the channel its address decodes to,
  which always exists, and leaves every other controller as it was.
\<close>

theorem requests_go_to_their_channel:
  assumes "jedec_config cfg" "jedec_wf cfg s" "Jedec_WillAcceptTransaction cfg hex w s = Inr True"
  shows "nat (ad_channel (AddressMapping cfg hex)) < length (ctrls s)
    \<and> Jedec_AddTransaction cfg hex w s =
        Inr (True, s\<lparr>ctrls := (ctrls s)[nat (ad_channel (AddressMapping cfg hex)) :=
               snd (Controller_AddTransaction (mk_Transaction hex w) (ctrls s ! nat (ad_channel (AddressMapping cfg hex))))],
             last_req_clk := jd_clk s\<rparr>)"
proof -
  have ch: "0 \<le> GetChannel cfg hex" "GetChannel cfg hex < int (length (ctrls s))"
    using GetChannel_in_range [of cfg hex] assms by (simp_all add: jedec_config_def jedec_wf_def)
  then have "Controller_WillAcceptTransaction (ctrls s ! nat (GetChannel cfg hex)) hex w"
    using assms(3) by (simp add: Jedec_WillAcceptTransaction_def nth_res_def)
  with ch show ?thesis
    unfolding GetChannel_decoded [symmetric] by (auto simp: Jedec_AddTransaction_def Let_def nth_res_def upd_res_def)
qed

lemma small_accepts:
  "bindE (JedecDRAMSystem_new small_config) (Jedec_WillAcceptTransaction small_config 4096 True) = Inr True"
  by code_simp

theorem requests_go_to_their_channel_witness:
  "succeeds (JedecDRAMSystem_new small_config) (\<lambda>s. nat (ad_channel (AddressMapping small_config 4096)) < length (ctrls s)
     \<and> Jedec_AddTransaction small_config 4096 True s =
        Inr (True, s\<lparr>ctrls := (ctrls s)[nat (ad_channel (AddressMapping small_config 4096)) :=
               snd (Controller_AddTransaction (mk_Transaction 4096 True) (ctrls s ! nat (ad_channel (AddressMapping small_config 4096))))],
             last_req_clk := jd_clk s\<rparr>))"
proof -
  obtain s where s: "JedecDRAMSystem_new small_config = Inr s" "jedec_wf small_config s"
    using JedecDRAMSystem_new_ok [OF small_jedec_config] by (auto simp: succeeds_iff)
  have "Jedec_WillAcceptTransaction small_config 4096 True s = Inr True" using small_accepts by (simp add: s(1))
  from requests_go_to_their_channel [OF small_jedec_config s(2) this] show ?thesis by (simp only: s(1) succeeds_iff) simp
qed

text \<open>
  The ideal memory answers each request once and never before its latency has passed.
\<close>

theorem ideal_answers_once_and_late:
  assumes "Ideal_ClockTick s = (cbs, s')"
  shows "ideal_outstanding s = mset cbs + ideal_outstanding s'
    \<and> (\<forall>cb \<in> set cbs. \<exists>t \<in> set (infinite_buffer_q s).
         cb = (tr_addr t, is_write t) \<and> of_int (latency s) \<le> id_clk s - added_cycle t)"
proof -
  obtain q where q: "ideal_loop (id_clk s) (of_int (latency s)) (infinite_buffer_q s) = (cbs, q)"
    "s' = s\<lparr>infinite_buffer_q := q, id_clk := id_clk s + 1\<rparr>"
    using assms by (auto simp: Ideal_ClockTick_def split: prod.splits)
  show ?thesis
    using ideal_loop_conserves [OF q(1)] ideal_loop_late [OF q(1)]
    by (auto simp: ideal_outstanding_def q(2) callback_of_def)
qed

definition busy_ideal :: IdealDRAMSystem where
  "busy_ideal = \<lparr>id_clk = 12, latency = 10, infinite_buffer_q =
     [mk_Transaction 64 False, mk_Transaction 128 True, (mk_Transaction 192 False)\<lparr>added_cycle := 5\<rparr>]\<rparr>"

lemma busy_ideal_tick: "fst (Ideal_ClockTick busy_ideal) = [(64, False)]"
  by code_simp

theorem ideal_answers_once_and_late_witness:
  "ideal_outstanding busy_ideal = {#(64, False)#} + ideal_outstanding (snd (Ideal_ClockTick busy_ideal))
   \<and> (\<exists>t \<in> set (infinite_buffer_q busy_ideal).
        (64, False) = (tr_addr t, is_write t) \<and> of_int (latency busy_ideal) \<le> id_clk busy_ideal - added_cycle t)"
  using ideal_answers_once_and_late [of busy_ideal "fst (Ideal_ClockTick busy_ideal)" "snd (Ideal_ClockTick busy_ideal)"]
  using busy_ideal_tick by (auto simp: prod_eq_iff)

text \<open>
  The ideal memory misses a transaction that is due when it follows one that is returned:
  whatever follows a returned transaction stays in the buffer for that cycle, due or not.
\<close>

theorem ideal_skips_after_erase:
  assumes "lat \<le> clk - added_cycle t1" "ideal_loop clk lat (t1 # t2 # ts) = (cbs, q)"
  shows "cbs = (tr_addr t1, is_write t1) # fst (ideal_loop clk lat ts) \<and> q = t2 # snd (ideal_loop clk lat ts)"
  using assms by (auto split: prod.splits)

theorem ideal_skips_after_erase_witness:
  "ideal_loop 12 10 [mk_Transaction 64 False, mk_Transaction 128 True] = ([(64, False)], [mk_Transaction 128 True])"
  using ideal_skips_after_erase [of 10 12 "mk_Transaction 64 False" "mk_Transaction 128 True" "[]"
    "fst (ideal_loop 12 10 [mk_Transaction 64 False, mk_Transaction 128 True])"
    "snd (ideal_loop 12 10 [mk_Transaction 64 False, mk_Transaction 128 True])"]
  by (simp add: mk_Transaction_def)

end
