(* ===== verification/Hmc_System.thy ===== *)
theory Hmc_System
  imports Dram_System
begin

text \<open>
  \<^verbatim>\<open>DRAMsim3/src/hmc.h\<close> and \<^verbatim>\<open>hmc.cc\<close>: the hybrid memory cube.  Requests travel from link queues through a
  crossbar to four quads and from there to the controllers of the vaults; responses travel back
  from the quads to the links.  Requests and responses are values; the multimap that finds the
  response of a returned transaction by its address is an association list in insertion order.
\<close>

section \<open>Requests and responses\<close>

datatype HMCReqType =
    RD0 | RD16 | RD32 | RD48 | RD64 | RD80 | RD96 | RD112 | RD128 | RD256
  | WR0 | WR16 | WR32 | WR48 | WR64 | WR80 | WR96 | WR112 | WR128 | WR256
  | P_WR16 | P_WR32 | P_WR48 | P_WR64 | P_WR80 | P_WR96 | P_WR112 | P_WR128 | P_WR256
  | ADD8 | ADD16 | P_2ADD8 | P_ADD16 | ADDS8R | ADDS16R | INC8 | P_INC8
  | XOR16 | OR16 | NOR16 | AND16 | NAND16
  | CASGT8 | CASGT16 | CASLT8 | CASLT16 | CASEQ8 | CASZERO16
  | EQ8 | EQ16 | BWR | P_BWR | BWR8R | SWAP16 | REQ_SIZE

datatype HMCRespType = RS_NONE | RD_RS | WR_RS | RS_ERR | RESP_SIZE

record HMCRequest =
  rq_type :: HMCReqType
  mem_operand :: u64
  rq_link :: int
  rq_quad :: int
  vault :: int
  rq_flits :: int
  rq_is_write :: bool
  rq_exit_time :: u64

record HMCResponse =
  resp_id :: u64
  rs_type :: HMCRespType
  rs_link :: int
  rs_quad :: int
  rs_flits :: int
  rs_exit_time :: u64

text \<open>\<^verbatim>\<open>type >= HMCReqType::WR0 && type <= HMCReqType::P_WR256\<close>: the enumerators in between.\<close>

definition write_types :: "HMCReqType list" where
  "write_types = [WR0, WR16, WR32, WR48, WR64, WR80, WR96, WR112, WR128, WR256,
     P_WR16, P_WR32, P_WR48, P_WR64, P_WR80, P_WR96, P_WR112, P_WR128, P_WR256]"

fun request_flits :: "HMCReqType \<Rightarrow> int res" where
  "request_flits RD0 = Inr 0" | "request_flits WR0 = Inr 0"
| "request_flits RD16 = Inr 1" | "request_flits RD32 = Inr 1" | "request_flits RD48 = Inr 1"
| "request_flits RD64 = Inr 1" | "request_flits RD80 = Inr 1" | "request_flits RD96 = Inr 1"
| "request_flits RD112 = Inr 1" | "request_flits RD128 = Inr 1" | "request_flits RD256 = Inr 1"
| "request_flits WR16 = Inr 2" | "request_flits P_WR16 = Inr 2"
| "request_flits WR32 = Inr 3" | "request_flits P_WR32 = Inr 3"
| "request_flits WR48 = Inr 4" | "request_flits P_WR48 = Inr 4"
| "request_flits WR64 = Inr 5" | "request_flits P_WR64 = Inr 5"
| "request_flits WR80 = Inr 6" | "request_flits P_WR80 = Inr 6"
| "request_flits WR96 = Inr 7" | "request_flits P_WR96 = Inr 7"
| "request_flits WR112 = Inr 8" | "request_flits P_WR112 = Inr 8"
| "request_flits WR128 = Inr 9" | "request_flits P_WR128 = Inr 9"
| "request_flits WR256 = Inr 17" | "request_flits P_WR256 = Inr 17"
| "request_flits INC8 = Inr 1" | "request_flits P_INC8 = Inr 1"
| "request_flits REQ_SIZE = Inl (AbruptExit ''hmc.cc'' 107)"
| "request_flits _ = Inr 2"

fun response_of :: "HMCReqType \<Rightarrow> (HMCRespType \<times> int) res" where
  "response_of RD0 = Inr (RD_RS, 0)" | "response_of RD16 = Inr (RD_RS, 2)"
| "response_of RD32 = Inr (RD_RS, 3)" | "response_of RD48 = Inr (RD_RS, 4)"
| "response_of RD64 = Inr (RD_RS, 5)" | "response_of RD80 = Inr (RD_RS, 6)"
| "response_of RD96 = Inr (RD_RS, 7)" | "response_of RD112 = Inr (RD_RS, 8)"
| "response_of RD128 = Inr (RD_RS, 9)" | "response_of RD256 = Inr (RD_RS, 17)"
| "response_of WR0 = Inr (WR_RS, 0)"
| "response_of WR16 = Inr (WR_RS, 1)" | "response_of WR32 = Inr (WR_RS, 1)"
| "response_of WR48 = Inr (WR_RS, 1)" | "response_of WR64 = Inr (WR_RS, 1)"
| "response_of WR80 = Inr (WR_RS, 1)" | "response_of WR96 = Inr (WR_RS, 1)"
| "response_of WR112 = Inr (WR_RS, 1)" | "response_of WR128 = Inr (WR_RS, 1)"
| "response_of WR256 = Inr (WR_RS, 1)"
| "response_of P_WR16 = Inr (RS_NONE, 0)" | "response_of P_WR32 = Inr (RS_NONE, 0)"
| "response_of P_WR48 = Inr (RS_NONE, 0)" | "response_of P_WR64 = Inr (RS_NONE, 0)"
| "response_of P_WR80 = Inr (RS_NONE, 0)" | "response_of P_WR96 = Inr (RS_NONE, 0)"
| "response_of P_WR112 = Inr (RS_NONE, 0)" | "response_of P_WR128 = Inr (RS_NONE, 0)"
| "response_of P_WR256 = Inr (RS_NONE, 0)"
| "response_of ADD8 = Inr (WR_RS, 1)" | "response_of ADD16 = Inr (WR_RS, 1)"
| "response_of P_2ADD8 = Inr (RS_NONE, 0)" | "response_of P_ADD16 = Inr (RS_NONE, 0)"
| "response_of INC8 = Inr (WR_RS, 1)" | "response_of P_INC8 = Inr (RS_NONE, 0)"
| "response_of EQ8 = Inr (WR_RS, 1)" | "response_of EQ16 = Inr (WR_RS, 1)"
| "response_of BWR = Inr (WR_RS, 1)" | "response_of P_BWR = Inr (RS_NONE, 0)"
| "response_of REQ_SIZE = Inl (AbruptExit ''hmc.cc'' 237)"
| "response_of _ = Inr (RD_RS, 2)"

definition HMCRequest_new :: "HMCReqType \<Rightarrow> u64 \<Rightarrow> int \<Rightarrow> HMCRequest res" where
  "HMCRequest_new ty hex v =
     bindE (request_flits ty) (\<lambda>f.
     Inr \<lparr>rq_type = ty, mem_operand = hex, rq_link = 0, rq_quad = v smod 4, vault = v, rq_flits = f,
          rq_is_write = (ty \<in> set write_types), rq_exit_time = 0\<rparr>)"

definition HMCResponse_new :: "u64 \<Rightarrow> HMCReqType \<Rightarrow> int \<Rightarrow> int \<Rightarrow> HMCResponse res" where
  "HMCResponse_new i ty dest_link src_quad =
     bindE (response_of ty) (\<lambda>(rt, f).
     Inr \<lparr>resp_id = i, rs_type = rt, rs_link = dest_link, rs_quad = src_quad, rs_flits = f, rs_exit_time = 0\<rparr>)"

section \<open>State\<close>

record HMCMemorySystem =
  hm_clk :: u64
  hm_last_req_clk :: u64
  logic_clk :: u64
  ps_per_dram :: u64
  ps_per_logic :: u64
  logic_ps :: u64
  dram_ps :: u64
  next_link :: int
  links :: int
  queue_depth :: u64
  resp_lookup_table :: "(u64 \<times> HMCResponse) list"
  link_req_queues :: "HMCRequest list list"
  link_resp_queues :: "HMCResponse list list"
  quad_req_queues :: "HMCRequest list list"
  quad_resp_queues :: "HMCResponse list list"
  link_busy :: "int list"
  quad_busy :: "int list"
  link_age_counter :: "int list"
  quad_age_counter :: "int list"
  vaults :: "Controller list"

text \<open>
  \<^verbatim>\<open>SetClockRatio\<close>.  The quotient \<^verbatim>\<open>1000000 / (double) logic_speed\<close> is truncated; for a positive \<^verbatim>\<open>int\<close> its
  rounding error is smaller than its distance to the next integer, so the result is the integer
  quotient.  For other values the conversion is undefined.
\<close>

definition SetClockRatio :: "Config \<Rightarrow> (u64 \<times> u64) res" where
  "SetClockRatio cfg =
     bindE (idiv 128 (link_width (dram cfg))) (\<lambda>link_cycles_per_flit.
     bindE (idiv (link_speed (dram cfg)) link_cycles_per_flit) (\<lambda>logic_speed.
     if logic_speed \<le> 0 then Inl BadConversion
     else let ps = 1000000 div logic_speed in
          Inr (800, if ps > 800 then 800 else of_int ps)))"

definition HMCMemorySystem_new :: "Config \<Rightarrow> HMCMemorySystem res" where
  "HMCMemorySystem_new cfg =
     (if \<not> IsHMC cfg then Inl (AbruptExit ''hmc.cc'' 255)
      else bindE (SetClockRatio cfg) (\<lambda>(per_dram, per_logic).
           bindE (new_controllers cfg (int_range (channels (dram cfg)))) (\<lambda>cs.
           let n = nat (num_links (dram cfg)) in
           Inr \<lparr>hm_clk = 0, hm_last_req_clk = 0, logic_clk = 0, ps_per_dram = per_dram, ps_per_logic = per_logic,
                logic_ps = 0, dram_ps = 0, next_link = 0, links = num_links (dram cfg),
                queue_depth = of_int (xbar_queue_depth (dram cfg)), resp_lookup_table = [],
                link_req_queues = replicate n [], link_resp_queues = replicate n [],
                quad_req_queues = replicate 4 [], quad_resp_queues = replicate 4 [],
                link_busy = replicate n 0, quad_busy = [0, 0, 0, 0],
                link_age_counter = replicate n 0, quad_age_counter = [0, 0, 0, 0], vaults = cs\<rparr>)))"

section \<open>Accepting requests\<close>

definition has_room :: "HMCMemorySystem \<Rightarrow> 'a list \<Rightarrow> bool" where
  "has_room s q = (int (length q) < uint (queue_depth s))"

definition HMC_WillAcceptTransaction :: "u64 \<Rightarrow> bool \<Rightarrow> HMCMemorySystem \<Rightarrow> bool" where
  "HMC_WillAcceptTransaction hex is_wr s = (\<exists>q \<in> set (link_req_queues s). has_room s q)"

definition IterateNextLink :: "HMCMemorySystem \<Rightarrow> HMCMemorySystem res" where
  "IterateNextLink s =
     (if links s = 0 then Inl DivByZero else Inr (s\<lparr>next_link := (next_link s + 1) smod links s\<rparr>))"

definition InsertReqToLink :: "HMCRequest \<Rightarrow> int \<Rightarrow> HMCMemorySystem \<Rightarrow> (bool \<times> HMCMemorySystem) res" where
  "InsertReqToLink req link s =
     bindE (nth_res (link_req_queues s) link) (\<lambda>q.
     if has_room s q then
       bindE (upd_res (link_req_queues s) link (q @ [req\<lparr>rq_link := link\<rparr>])) (\<lambda>qs.
       bindE (HMCResponse_new (mem_operand req) (rq_type req) link (rq_quad req)) (\<lambda>resp.
       bindE (upd_res (link_age_counter s) link 1) (\<lambda>ages.
       Inr (True, s\<lparr>link_req_queues := qs, resp_lookup_table := resp_lookup_table s @ [(resp_id resp, resp)],
                    link_age_counter := ages, hm_last_req_clk := hm_clk s\<rparr>))))
     else Inr (False, s))"

text \<open>
  The loop \<^verbatim>\<open>while (start_link != next_link_)\<close>.  Its first argument bounds the iterations; the links are
  tried in cyclic order, so their number is enough.
\<close>

fun insert_loop :: "nat \<Rightarrow> int \<Rightarrow> HMCRequest \<Rightarrow> HMCMemorySystem \<Rightarrow> (bool \<times> HMCMemorySystem) res" where
  "insert_loop fuel start_link req s =
     (if start_link = next_link s then Inr (False, s)
      else case fuel of
        0 \<Rightarrow> Inl Diverges
      | Suc n \<Rightarrow>
          bindE (InsertReqToLink req (next_link s) s) (\<lambda>(ok, s1).
          bindE (IterateNextLink s1) (\<lambda>s2.
          if ok then Inr (True, s2) else insert_loop n start_link req s2)))"

declare insert_loop.simps [simp del]

definition InsertHMCReq :: "HMCRequest \<Rightarrow> HMCMemorySystem \<Rightarrow> (bool \<times> HMCMemorySystem) res" where
  "InsertHMCReq req s =
     bindE (InsertReqToLink req (next_link s) s) (\<lambda>(is_inserted, s1).
     bindE (IterateNextLink s1) (\<lambda>s2.
     if is_inserted then Inr (True, s2)
     else insert_loop (length (link_req_queues s)) (next_link s1) req s2))"

definition block_request :: "int \<Rightarrow> bool \<Rightarrow> HMCReqType res" where
  "block_request bs is_wr =
     (if is_wr then
        (if bs = 0 then Inr WR0 else if bs = 32 then Inr WR32 else if bs = 64 then Inr WR64
         else if bs = 128 then Inr WR128 else if bs = 256 then Inr WR256
         else Inl (AbruptExit ''hmc.cc'' 366))
      else
        (if bs = 0 then Inr RD0 else if bs = 32 then Inr RD32 else if bs = 64 then Inr RD64
         else if bs = 128 then Inr RD128 else if bs = 256 then Inr RD256
         else Inl (AbruptExit ''hmc.cc'' 388)))"

definition HMC_AddTransaction :: "Config \<Rightarrow> u64 \<Rightarrow> bool \<Rightarrow> HMCMemorySystem \<Rightarrow> (bool \<times> HMCMemorySystem) res" where
  "HMC_AddTransaction cfg hex is_wr s =
     bindE (block_request (block_size (dram cfg)) is_wr) (\<lambda>ty.
     bindE (HMCRequest_new ty hex (GetChannel cfg hex)) (\<lambda>req.
     InsertHMCReq req s))"

section \<open>Arbitration\<close>

text \<open>
  The inner loop inserts a position before the first element that is smaller than the age of the
  position; the outer loop visits the positions in cyclic order.
\<close>

fun age_insert :: "int \<Rightarrow> int \<Rightarrow> int list \<Rightarrow> int list" where
  "age_insert age pos [] = [pos]"
| "age_insert age pos (it # its) = (if age > it then pos # it # its else it # age_insert age pos its)"

definition BuildAgeQueue :: "u64 \<Rightarrow> int list \<Rightarrow> int list res" where
  "BuildAgeQueue clk age_counter =
     (let queue_len = int (length age_counter) in
      if queue_len = 0 then Inl DivByZero
      else let start_pos = uint (clk mod of_int queue_len) in
           Inr (fold (\<lambda>i q. let pos = (i + start_pos) mod queue_len; age = age_counter ! nat pos in
                        if age > 0 then age_insert age pos q else q)
                  (int_range queue_len) []))"

text \<open>\<^verbatim>\<open>if (i > 0) i -= 2\<close> for all elements.\<close>

definition drain_busy :: "int list \<Rightarrow> int list" where
  "drain_busy = map (\<lambda>i. if i > 0 then i - 2 else i)"

section \<open>Moving requests\<close>

definition InsertReqToDRAM :: "HMCRequest \<Rightarrow> HMCMemorySystem \<Rightarrow> HMCMemorySystem res" where
  "InsertReqToDRAM req s =
     bindE (nth_res (vaults s) (vault req)) (\<lambda>c.
     bindE (upd_res (vaults s) (vault req)
              (snd (Controller_AddTransaction (mk_Transaction (mem_operand req) (rq_is_write req)) c))) (\<lambda>cs.
     Inr (s\<lparr>vaults := cs\<rparr>)))"

definition drain_quad :: "int \<Rightarrow> HMCMemorySystem \<Rightarrow> HMCMemorySystem res" where
  "drain_quad i s =
     bindE (nth_res (quad_req_queues s) i) (\<lambda>q.
     bindE (nth_res (quad_resp_queues s) i) (\<lambda>rq.
     case q of
       [] \<Rightarrow> Inr s
     | req # rest \<Rightarrow>
         if has_room s rq \<and> rq_exit_time req \<le> logic_clk s then
           bindE (nth_res (vaults s) (vault req)) (\<lambda>c.
           if Controller_WillAcceptTransaction c (mem_operand req) (rq_is_write req) then
             bindE (InsertReqToDRAM req s) (\<lambda>s1.
             bindE (upd_res (quad_req_queues s1) i rest) (\<lambda>qs.
             Inr (s1\<lparr>quad_req_queues := qs\<rparr>)))
           else Inr s)
         else Inr s))"

definition link_to_quad :: "int \<Rightarrow> HMCMemorySystem \<Rightarrow> HMCMemorySystem res" where
  "link_to_quad src_link s =
     bindE (nth_res (link_req_queues s) src_link) (\<lambda>lq.
     case lq of
       [] \<Rightarrow> Inl OutOfRange
     | req # rest \<Rightarrow>
         bindE (nth_res (quad_req_queues s) (rq_quad req)) (\<lambda>qq.
         bindE (nth_res (quad_busy s) (rq_quad req)) (\<lambda>busy.
         bindE (nth_res (link_age_counter s) src_link) (\<lambda>age.
         if has_room s qq \<and> busy \<le> 0 then
           bindE (upd_res (link_req_queues s) src_link rest) (\<lambda>lqs.
           bindE (upd_res (quad_req_queues s) (rq_quad req)
                    (qq @ [req\<lparr>rq_exit_time := logic_clk s + of_int (rq_flits req)\<rparr>])) (\<lambda>qqs.
           bindE (upd_res (quad_busy s) (rq_quad req) (rq_flits req)) (\<lambda>qb.
           bindE (upd_res (link_age_counter s) src_link (if rest = [] then 0 else 1)) (\<lambda>ages.
           Inr (s\<lparr>link_req_queues := lqs, quad_req_queues := qqs, quad_busy := qb, link_age_counter := ages\<rparr>)))))
         else bindE (upd_res (link_age_counter s) src_link (age + 1)) (\<lambda>ages.
              Inr (s\<lparr>link_age_counter := ages\<rparr>))))))"

definition DrainRequests :: "HMCMemorySystem \<Rightarrow> HMCMemorySystem res" where
  "DrainRequests s =
     bindE (fold_res drain_quad [0, 1, 2, 3] s) (\<lambda>s1.
     let s2 = s1\<lparr>quad_busy := drain_busy (quad_busy s1)\<rparr> in
     bindE (BuildAgeQueue (logic_clk s2) (link_age_counter s2)) (\<lambda>age_queue.
     fold_res link_to_quad age_queue s2))"

section \<open>Moving responses\<close>

definition link_callback :: "HMCResponse \<Rightarrow> callback" where
  "link_callback r = (resp_id r, rs_type r \<noteq> RD_RS)"

definition link_to_cpu :: "int \<Rightarrow> callback list \<times> HMCMemorySystem \<Rightarrow> (callback list \<times> HMCMemorySystem) res" where
  "link_to_cpu i cs =
     (case cs of (cbs, s) \<Rightarrow>
      bindE (nth_res (link_resp_queues s) i) (\<lambda>q.
      case q of
        [] \<Rightarrow> Inr (cbs, s)
      | resp # rest \<Rightarrow>
          if rs_exit_time resp \<le> logic_clk s then
            bindE (upd_res (link_resp_queues s) i rest) (\<lambda>qs.
            Inr (cbs @ [link_callback resp], s\<lparr>link_resp_queues := qs\<rparr>))
          else Inr (cbs, s)))"

definition quad_to_link :: "int \<Rightarrow> HMCMemorySystem \<Rightarrow> HMCMemorySystem res" where
  "quad_to_link src_quad s =
     bindE (nth_res (quad_resp_queues s) src_quad) (\<lambda>qq.
     case qq of
       [] \<Rightarrow> Inl OutOfRange
     | resp # rest \<Rightarrow>
         bindE (nth_res (link_resp_queues s) (rs_link resp)) (\<lambda>lq.
         bindE (nth_res (link_busy s) (rs_link resp)) (\<lambda>busy.
         bindE (nth_res (quad_age_counter s) src_quad) (\<lambda>age.
         if has_room s lq \<and> busy \<le> 0 then
           bindE (upd_res (quad_resp_queues s) src_quad rest) (\<lambda>qqs.
           bindE (upd_res (link_resp_queues s) (rs_link resp)
                    (lq @ [resp\<lparr>rs_exit_time := logic_clk s + of_int (rs_flits resp)\<rparr>])) (\<lambda>lqs.
           bindE (upd_res (link_busy s) (rs_link resp) (rs_flits resp)) (\<lambda>lb.
           bindE (upd_res (quad_age_counter s) src_quad (if rest = [] then 0 else 1)) (\<lambda>ages.
           Inr (s\<lparr>quad_resp_queues := qqs, link_resp_queues := lqs, link_busy := lb, quad_age_counter := ages\<rparr>)))))
         else bindE (upd_res (quad_age_counter s) src_quad (age + 1)) (\<lambda>ages.
              Inr (s\<lparr>quad_age_counter := ages\<rparr>))))))"

definition DrainResponses :: "HMCMemorySystem \<Rightarrow> (callback list \<times> HMCMemorySystem) res" where
  "DrainResponses s =
     bindE (fold_res link_to_cpu (int_range (links s)) ([], s)) (\<lambda>(cbs, s1).
     let s2 = s1\<lparr>link_busy := drain_busy (link_busy s1)\<rparr> in
     bindE (BuildAgeQueue (logic_clk s2) (quad_age_counter s2)) (\<lambda>age_queue.
     bindE (fold_res quad_to_link age_queue s2) (\<lambda>s3. Inr (cbs, s3))))"

section \<open>Clocks\<close>

definition VaultCallback :: "u64 \<Rightarrow> HMCMemorySystem \<Rightarrow> HMCMemorySystem res" where
  "VaultCallback req_id s =
     (case find (\<lambda>e. fst e = req_id) (resp_lookup_table s) of
        None \<Rightarrow> Inl OutOfRange
      | Some (k, resp) \<Rightarrow>
          bindE (nth_res (quad_resp_queues s) (rs_quad resp)) (\<lambda>q.
          bindE (upd_res (quad_resp_queues s) (rs_quad resp) (q @ [resp])) (\<lambda>qs.
          bindE (upd_res (quad_age_counter s) (rs_quad resp) 1) (\<lambda>ages.
          Inr (s\<lparr>resp_lookup_table := erase_first (\<lambda>e. fst e = req_id) (resp_lookup_table s),
                 quad_resp_queues := qs, quad_age_counter := ages\<rparr>)))))"

definition HMC_PrintEpochStats :: "HMCMemorySystem \<Rightarrow> HMCMemorySystem res" where
  "HMC_PrintEpochStats s =
     bindE (map_res Controller_PrintEpochStats (vaults s)) (\<lambda>cs. Inr (s\<lparr>vaults := cs\<rparr>))"

definition DRAMClockTick :: "Config \<Rightarrow> HMCMemorySystem \<Rightarrow> HMCMemorySystem res" where
  "DRAMClockTick cfg s =
     (case drain_all (hm_clk s) (vaults s) of (cbs, cs) \<Rightarrow>
      bindE (fold_res (\<lambda>cb. VaultCallback (fst cb)) cbs (s\<lparr>vaults := cs\<rparr>)) (\<lambda>s1.
      bindE (map_res (Controller_ClockTick cfg (Timing_new cfg)) (vaults s1)) (\<lambda>cs1.
      let s2 = s1\<lparr>vaults := cs1, hm_clk := hm_clk s1 + 1\<rparr>;
          period = (of_int (epoch_period (sys cfg)) :: u64) in
      if period = 0 then Inl DivByZero
      else if hm_clk s2 mod period = 0 then HMC_PrintEpochStats s2 else Inr s2)))"

definition logic_step :: "HMCMemorySystem \<Rightarrow> HMCMemorySystem" where
  "logic_step s = s\<lparr>logic_ps := logic_ps s + ps_per_logic s, logic_clk := logic_clk s + 1\<rparr>"

text \<open>
  The loop \<^verbatim>\<open>while (logic_ps_ < dram_ps_ + ps_per_dram_)\<close>, with a bound on the iterations: a DRAM cycle
  takes 800 ps and a logic cycle at least one, so 801 are enough.
\<close>

fun logic_loop :: "nat \<Rightarrow> HMCMemorySystem \<Rightarrow> (callback list \<times> HMCMemorySystem) res" where
  "logic_loop fuel s =
     (if logic_ps s < dram_ps s + ps_per_dram s then
        (case fuel of
           0 \<Rightarrow> Inl Diverges
         | Suc n \<Rightarrow>
             bindE (DrainResponses s) (\<lambda>(cbs, s1).
             bindE (DrainRequests s1) (\<lambda>s2.
             bindE (logic_loop n (logic_step s2)) (\<lambda>(cbs', s3). Inr (cbs @ cbs', s3)))))
      else Inr ([], s))"

declare logic_loop.simps [simp del]

definition HMC_ClockTick :: "Config \<Rightarrow> HMCMemorySystem \<Rightarrow> (callback list \<times> HMCMemorySystem) res" where
  "HMC_ClockTick cfg s =
     bindE (if dram_ps s = logic_ps s then
              bindE (DrainResponses s) (\<lambda>(cbs, s1).
              bindE (DRAMClockTick cfg s1) (\<lambda>s2.
              bindE (DrainRequests s2) (\<lambda>s3. Inr (cbs, logic_step s3))))
            else bindE (DRAMClockTick cfg s) (\<lambda>s1. Inr ([], s1))) (\<lambda>(cbs, s1).
     bindE (logic_loop 801 s1) (\<lambda>(cbs', s2).
     Inr (cbs @ cbs', s2\<lparr>dram_ps := dram_ps s2 + ps_per_dram s2\<rparr>)))"

end
