(* ===== verification/Hmc_Safety.thy ===== *)
theory Hmc_Safety
  imports Hmc_System
begin

text \<open>
  The hybrid memory cube keeps its promises to the front end: no clock cycle aborts or runs forever,
  a request that fits is accepted by some link, arbitration serves every waiting link and quad
  once, and each accepted request leads to exactly one callback.
\<close>

section \<open>Arbitration visits every waiting position once\<close>

lemma mset_age_insert: "mset (age_insert age pos q) = add_mset pos (mset q)"
  by (induction q) auto

lemma mset_age_fold:
  "mset (fold (\<lambda>i q. if P (f i) then age_insert (g i) (f i) q else q) is q0)
     = mset q0 + mset (filter P (map f is))"
  by (induction "is" arbitrary: q0) (auto simp: mset_age_insert)

lemma rotation_permutes:
  assumes "0 < (n::int)"
  shows "mset (map (\<lambda>i. (i + k) mod n) (int_range n)) = mset (int_range n)"
proof (rule set_eq_iff_mset_eq_distinct [THEN iffD1])
  have inj: "i = j" if "(i + k) mod n = (j + k) mod n" "0 \<le> i" "i < n" "0 \<le> j" "j < n" for i j
  proof -
    have "(i + k - k) mod n = (j + k - k) mod n" using mod_diff_cong [OF that(1) refl, of k] by simp
    then show ?thesis using that by simp
  qed
  show "distinct (map (\<lambda>i. (i + k) mod n) (int_range n))"
    unfolding distinct_map
  proof (intro conjI inj_onI)
    fix i j assume "i \<in> set (int_range n)" "j \<in> set (int_range n)" "(i + k) mod n = (j + k) mod n"
    then show "i = j" using inj [of i j] by simp
  qed simp
  show "set (map (\<lambda>i. (i + k) mod n) (int_range n)) = set (int_range n)"
  proof
    show "set (int_range n) \<subseteq> set (map (\<lambda>i. (i + k) mod n) (int_range n))"
    proof
      fix j assume j: "j \<in> set (int_range n)"
      have "j = ((j - k) mod n + k) mod n" using j by (simp add: mod_add_left_eq)
      then show "j \<in> set (map (\<lambda>i. (i + k) mod n) (int_range n))"
        unfolding set_map by (rule image_eqI) (use assms in simp)
    qed
  qed (use assms in auto)
qed simp

lemma BuildAgeQueue_mset:
  assumes "ages \<noteq> []"
  shows "succeeds (BuildAgeQueue clk ages) (\<lambda>q. mset q = mset (filter (\<lambda>i. ages ! nat i > 0) (int_range (int (length ages)))))"
proof -
  let ?n = "int (length ages)"
  define k where "k = uint (clk mod of_int ?n)"
  have n: "0 < ?n" using assms by simp
  have "mset (filter (\<lambda>i. ages ! nat i > 0) (map (\<lambda>i. (i + k) mod ?n) (int_range ?n)))
      = mset (filter (\<lambda>i. ages ! nat i > 0) (int_range ?n))"
    using rotation_permutes [OF n, of k] by (metis mset_filter)
  then show ?thesis
    using n mset_age_fold [of "\<lambda>i. ages ! nat i > 0" "\<lambda>i. (i + k) mod ?n" "\<lambda>i. ages ! nat ((i + k) mod ?n)" "int_range ?n" "[]"]
    unfolding BuildAgeQueue_def Let_def k_def [symmetric] by simp
qed

lemma BuildAgeQueue_ok:
  assumes "ages \<noteq> []"
  shows "succeeds (BuildAgeQueue clk ages) (\<lambda>q. distinct q \<and> set q = {i. 0 \<le> i \<and> i < int (length ages) \<and> ages ! nat i > 0})"
proof (rule succeeds_mono [OF BuildAgeQueue_mset [OF assms]])
  fix q assume m: "mset q = mset (filter (\<lambda>i. ages ! nat i > 0) (int_range (int (length ages))))"
  show "distinct q \<and> set q = {i. 0 \<le> i \<and> i < int (length ages) \<and> ages ! nat i > 0}"
    using mset_eq_imp_distinct_iff [OF m] mset_eq_setD [OF m] by auto
qed

section \<open>Invariant\<close>

definition ages_ok :: "int list \<Rightarrow> 'a list list \<Rightarrow> bool" where
  "ages_ok ages qs = (length ages = length qs \<and> (\<forall>i < length qs. 0 < ages ! i \<longrightarrow> qs ! i \<noteq> []))"

definition req_ok :: "Config \<Rightarrow> HMCRequest \<Rightarrow> bool" where
  "req_ok cfg r = (0 \<le> rq_quad r \<and> rq_quad r < 4 \<and> 0 \<le> vault r \<and> vault r < channels (dram cfg))"

definition resp_ok :: "int \<Rightarrow> HMCResponse \<Rightarrow> bool" where
  "resp_ok n r = (0 \<le> rs_quad r \<and> rs_quad r < 4 \<and> 0 \<le> rs_link r \<and> rs_link r < n)"

definition vaults_ok :: "Config \<Rightarrow> u64 \<Rightarrow> Controller list \<Rightarrow> bool" where
  "vaults_ok cfg t cs =
     (int (length cs) = channels (dram cfg) \<and> (\<forall>c \<in> set cs. ctl_wf cfg c \<and> caps_ok cfg c \<and> ctl_clk c = t))"

text \<open>The addresses of the requests on their way to a vault or inside one.\<close>

definition travelling :: "HMCMemorySystem \<Rightarrow> u64 multiset" where
  "travelling s = image_mset mem_operand (mset (concat (link_req_queues s)) + mset (concat (quad_req_queues s)))
     + image_mset fst (sum_list (map owed (vaults s)))"

text \<open>
  The invariant; \<open>X\<close> are the addresses of transactions that the vaults have returned and whose
  responses have not been looked up yet.
\<close>

definition hmc_inv :: "Config \<Rightarrow> u64 multiset \<Rightarrow> HMCMemorySystem \<Rightarrow> bool" where
  "hmc_inv cfg X s =
     (0 < links s \<and> int (length (link_req_queues s)) = links s \<and> int (length (link_resp_queues s)) = links s
      \<and> int (length (link_busy s)) = links s \<and> length (quad_req_queues s) = 4 \<and> length (quad_resp_queues s) = 4
      \<and> length (quad_busy s) = 4 \<and> 0 \<le> next_link s \<and> next_link s < links s
      \<and> ages_ok (link_age_counter s) (link_req_queues s) \<and> ages_ok (quad_age_counter s) (quad_resp_queues s)
      \<and> (\<forall>r \<in># mset (concat (link_req_queues s)) + mset (concat (quad_req_queues s)). req_ok cfg r)
      \<and> (\<forall>r \<in># mset (map snd (resp_lookup_table s)) + mset (concat (quad_resp_queues s)). resp_ok (links s) r)
      \<and> (\<forall>e \<in> set (resp_lookup_table s). fst e = resp_id (snd e))
      \<and> vaults_ok cfg (hm_clk s) (vaults s)
      \<and> mset (map fst (resp_lookup_table s)) = travelling s + X)"

lemma hmc_invD:
  assumes "hmc_inv cfg X s"
  shows "0 < links s" "int (length (link_req_queues s)) = links s" "int (length (link_resp_queues s)) = links s"
    "int (length (link_busy s)) = links s" "length (quad_req_queues s) = 4" "length (quad_resp_queues s) = 4"
    "length (quad_busy s) = 4" "0 \<le> next_link s" "next_link s < links s"
    "ages_ok (link_age_counter s) (link_req_queues s)" "ages_ok (quad_age_counter s) (quad_resp_queues s)"
    "r \<in># mset (concat (link_req_queues s)) + mset (concat (quad_req_queues s)) \<Longrightarrow> req_ok cfg r"
    "rs \<in># mset (map snd (resp_lookup_table s)) + mset (concat (quad_resp_queues s)) \<Longrightarrow> resp_ok (links s) rs"
    "e \<in> set (resp_lookup_table s) \<Longrightarrow> fst e = resp_id (snd e)"
    "vaults_ok cfg (hm_clk s) (vaults s)" "mset (map fst (resp_lookup_table s)) = travelling s + X"
  using assms unfolding hmc_inv_def by blast+

definition hmc_outstanding :: "HMCMemorySystem \<Rightarrow> callback multiset" where
  "hmc_outstanding s = image_mset link_callback
     (mset (map snd (resp_lookup_table s)) + mset (concat (quad_resp_queues s)) + mset (concat (link_resp_queues s)))"

lemma ages_ok_update:
  assumes "ages_ok ages qs" "0 < a \<Longrightarrow> q \<noteq> []"
  shows "ages_ok (ages[i := a]) (qs[i := q])"
  using assms by (cases "i < length qs") (auto simp: ages_ok_def nth_list_update)

lemma ages_ok_stall:
  assumes "ages_ok ages qs" "0 < ages ! i" "i < length qs"
  shows "ages_ok (ages[i := a]) qs"
  using assms by (auto simp: ages_ok_def nth_list_update)

lemma concat_pop:
  assumes "i < length xss" "xss ! i = x # rest"
  shows "mset (concat xss) = add_mset x (mset (concat (xss[i := rest])))"
  using mset_concat_update [OF assms(1), of rest] assms(2) by simp

lemma concat_push:
  assumes "i < length xss"
  shows "mset (concat (xss[i := xss ! i @ [x]])) = add_mset x (mset (concat xss))"
  using mset_concat_update [OF assms, of "xss ! i @ [x]"] by simp

lemma ages_nonempty: "ages_ok ages qs \<Longrightarrow> i < length qs \<Longrightarrow> 0 < ages ! i \<Longrightarrow> \<exists>x rest. qs ! i = x # rest"
  by (auto simp: ages_ok_def neq_Nil_conv)

text \<open>What moving packets leaves alone.\<close>

definition hmc_frame :: "HMCMemorySystem \<Rightarrow> HMCMemorySystem \<Rightarrow> bool" where
  "hmc_frame s s' = (hm_clk s' = hm_clk s \<and> logic_clk s' = logic_clk s \<and> ps_per_dram s' = ps_per_dram s
     \<and> ps_per_logic s' = ps_per_logic s \<and> logic_ps s' = logic_ps s \<and> dram_ps s' = dram_ps s
     \<and> links s' = links s \<and> queue_depth s' = queue_depth s)"

lemma hmc_frame_trans: "hmc_frame a b \<Longrightarrow> hmc_frame b c \<Longrightarrow> hmc_frame a c"
  by (simp add: hmc_frame_def)

section \<open>Moving requests\<close>

lemma link_to_quad_ok:
  assumes "hmc_inv cfg X s" "0 \<le> i" "i < links s" "0 < link_age_counter s ! nat i"
  shows "succeeds (link_to_quad i s) (\<lambda>s'. hmc_inv cfg X s' \<and> hmc_outstanding s' = hmc_outstanding s \<and> hmc_frame s s'
    \<and> (\<forall>j. j \<noteq> nat i \<longrightarrow> link_age_counter s' ! j = link_age_counter s ! j))"
proof -
  note inv = hmc_invD [OF assms(1)]
  have i: "nat i < length (link_req_queues s)" using assms(2,3) inv(2) by linarith
  obtain req rest where q: "link_req_queues s ! nat i = req # rest"
    using ages_nonempty [OF inv(10) i assms(4)] by blast
  let ?l = "(link_req_queues s)[nat i := rest]" and ?k = "nat (rq_quad req)"
  let ?req = "req\<lparr>rq_exit_time := logic_clk s + of_int (rq_flits req)\<rparr>"
  let ?qq = "(quad_req_queues s)[?k := quad_req_queues s ! ?k @ [?req]]"
  have pop: "mset (concat (link_req_queues s)) = add_mset req (mset (concat ?l))" by (rule concat_pop [OF i q])
  have ok: "req_ok cfg req" by (rule inv(12)) (simp add: pop)
  then have k: "0 \<le> rq_quad req" "rq_quad req < 4" "?k < 4" by (auto simp: req_ok_def)
  have push: "mset (concat ?qq) = add_mset ?req (mset (concat (quad_req_queues s)))"
    by (rule concat_push) (use k(3) inv(5) in simp)
  have len: "length (link_age_counter s) = length (link_req_queues s)" using inv(10) by (simp add: ages_ok_def)
  have nth: "nth_res (link_req_queues s) i = Inr (req # rest)" "nth_res (quad_req_queues s) (rq_quad req) = Inr (quad_req_queues s ! ?k)"
    "nth_res (quad_busy s) (rq_quad req) = Inr (quad_busy s ! ?k)" "nth_res (link_age_counter s) i = Inr (link_age_counter s ! nat i)"
    "\<And>x. upd_res (link_req_queues s) i x = Inr ((link_req_queues s)[nat i := x])"
    "\<And>x. upd_res (quad_req_queues s) (rq_quad req) x = Inr ((quad_req_queues s)[?k := x])"
    "\<And>x. upd_res (quad_busy s) (rq_quad req) x = Inr ((quad_busy s)[?k := x])"
    "\<And>x. upd_res (link_age_counter s) i x = Inr ((link_age_counter s)[nat i := x])"
    using assms(2,3) k inv(2,5,7) len q by (simp_all add: nth_res_def upd_res_def)
  show ?thesis
  proof (cases "has_room s (quad_req_queues s ! ?k) \<and> quad_busy s ! ?k \<le> 0")
    case True
    let ?ages = "(link_age_counter s)[nat i := if rest = [] then 0 else 1]"
    let ?s = "s\<lparr>link_req_queues := ?l, quad_req_queues := ?qq, quad_busy := (quad_busy s)[?k := rq_flits req], link_age_counter := ?ages\<rparr>"
    have ages: "ages_ok ?ages ?l" by (rule ages_ok_update [OF inv(10)]) auto
    have tr: "travelling ?s = travelling s" by (simp add: travelling_def pop push)
    have "req_ok cfg ?req" using ok by (simp add: req_ok_def)
    then have "\<forall>r \<in># mset (concat ?l) + mset (concat ?qq). req_ok cfg r"
      using inv(12) by (auto simp: push pop)
    then have "hmc_inv cfg X ?s"
      unfolding hmc_inv_def tr using inv(1-9,11,13-16) ages by simp
    moreover have "link_to_quad i s = Inr ?s"
      using True by (simp add: link_to_quad_def nth)
    ultimately show ?thesis by (simp add: hmc_outstanding_def hmc_frame_def)
  next
    case False
    let ?s = "s\<lparr>link_age_counter := (link_age_counter s)[nat i := link_age_counter s ! nat i + 1]\<rparr>"
    have "ages_ok ((link_age_counter s)[nat i := link_age_counter s ! nat i + 1]) (link_req_queues s)"
      by (rule ages_ok_stall [OF inv(10) assms(4) i])
    then have "hmc_inv cfg X ?s"
      using inv by (simp add: hmc_inv_def travelling_def)
    moreover have "link_to_quad i s = Inr ?s"
      using False by (auto simp: link_to_quad_def nth)
    ultimately show ?thesis by (simp add: hmc_outstanding_def hmc_frame_def)
  qed
qed

lemma vaults_add:
  assumes "vaults_ok cfg t cs" "0 \<le> v" "v < channels (dram cfg)" "Controller_WillAcceptTransaction (cs ! nat v) a w"
  defines "c' \<equiv> snd (Controller_AddTransaction (mk_Transaction a w) (cs ! nat v))"
  shows "vaults_ok cfg t (cs[nat v := c'])"
    "sum_list (map owed (cs[nat v := c'])) = add_mset (a, w) (sum_list (map owed cs))"
proof -
  let ?c = "cs ! nat v" and ?t = "mk_Transaction a w"
  have v: "nat v < length cs" using assms(1-3) by (auto simp: vaults_ok_def)
  have c: "ctl_wf cfg ?c" "caps_ok cfg ?c" "ctl_clk ?c = t"
    using assms(1) nth_mem [OF v] unfolding vaults_ok_def by blast+
  have add: "Controller_AddTransaction ?t ?c = (True, c')" by (simp add: c'_def AddTransaction_accept)
  have c': "ctl_wf cfg c'" "owed c' = add_mset (a, w) (owed ?c)" "caps_ok cfg c'"
    using AddTransaction_ok [OF c(1) add] caps_ok_add [OF c(2) _ add] assms(4) by simp_all
  have clk: "ctl_clk c' = t" using c(3) by (simp add: c'_def AddTransaction_accept accept_def Let_def)
  have "\<forall>x \<in> set (cs[nat v := c']). ctl_wf cfg x \<and> caps_ok cfg x \<and> ctl_clk x = t"
    using assms(1) c'(1,3) clk set_update_subset_insert [of cs "nat v" c'] unfolding vaults_ok_def by blast
  then show "vaults_ok cfg t (cs[nat v := c'])" using assms(1) by (simp add: vaults_ok_def)
  show "sum_list (map owed (cs[nat v := c'])) = add_mset (a, w) (sum_list (map owed cs))"
    by (rule sum_list_owed_update [OF v c'(2)])
qed

lemma drain_quad_ok:
  assumes "hmc_inv cfg X s" "0 \<le> i" "i < 4"
  shows "succeeds (drain_quad i s) (\<lambda>s'. hmc_inv cfg X s' \<and> hmc_outstanding s' = hmc_outstanding s \<and> hmc_frame s s'
    \<and> link_age_counter s' = link_age_counter s)"
proof -
  note inv = hmc_invD [OF assms(1)]
  have i: "nat i < length (quad_req_queues s)" "nat i < length (quad_resp_queues s)" using assms(2,3) inv(5,6) by linarith+
  have nth: "nth_res (quad_req_queues s) i = Inr (quad_req_queues s ! nat i)" "nth_res (quad_resp_queues s) i = Inr (quad_resp_queues s ! nat i)"
    "\<And>x. upd_res (quad_req_queues s) i x = Inr ((quad_req_queues s)[nat i := x])"
    using assms(2,3) inv(5,6) by (simp_all add: nth_res_def upd_res_def)
  have same: ?thesis if "drain_quad i s = Inr s" using assms(1) that by (simp add: hmc_frame_def)
  show ?thesis
  proof (cases "quad_req_queues s ! nat i")
    case Nil
    then show ?thesis by (intro same) (simp add: drain_quad_def nth)
  next
    case (Cons req rest)
    let ?q = "(quad_req_queues s)[nat i := rest]" and ?a = "mem_operand req" and ?w = "rq_is_write req"
    let ?c = "vaults s ! nat (vault req)"
    let ?cs = "(vaults s)[nat (vault req) := snd (Controller_AddTransaction (mk_Transaction ?a ?w) ?c)]"
    have pop: "mset (concat (quad_req_queues s)) = add_mset req (mset (concat ?q))" by (rule concat_pop [OF i(1) Cons])
    have ok: "req_ok cfg req" by (rule inv(12)) (simp add: pop)
    then have v: "0 \<le> vault req" "vault req < channels (dram cfg)" by (simp_all add: req_ok_def)
    have vn: "nth_res (vaults s) (vault req) = Inr ?c" "\<And>x. upd_res (vaults s) (vault req) x = Inr ((vaults s)[nat (vault req) := x])"
      using v inv(15) by (simp_all add: nth_res_def upd_res_def vaults_ok_def)
    show ?thesis
    proof (cases "has_room s (quad_resp_queues s ! nat i) \<and> rq_exit_time req \<le> logic_clk s
        \<and> Controller_WillAcceptTransaction ?c ?a ?w")
      case True
      let ?s = "s\<lparr>vaults := ?cs, quad_req_queues := ?q\<rparr>"
      note va = vaults_add [OF inv(15) v conjunct2 [OF conjunct2 [OF True]]]
      have tr: "travelling ?s = travelling s" by (simp add: travelling_def pop va(2))
      have "\<forall>r \<in># mset (concat (link_req_queues s)) + mset (concat ?q). req_ok cfg r"
        using inv(12) by (auto simp: pop)
      then have "hmc_inv cfg X ?s"
        unfolding hmc_inv_def tr using inv(1-11,13,14,16) va(1) by simp
      moreover have "drain_quad i s = Inr ?s"
        using True by (simp add: drain_quad_def nth Cons InsertReqToDRAM_def vn)
      ultimately show ?thesis by (simp add: hmc_outstanding_def hmc_frame_def)
    next
      case False
      then show ?thesis by (intro same) (auto simp: drain_quad_def nth Cons vn)
    qed
  qed
qed

text \<open>A loop over positions with a positive age, each of which is changed by its own step only.\<close>

lemma fold_res_ages:
  assumes "\<And>i s. I s \<Longrightarrow> P i s \<Longrightarrow> succeeds (f i s) (\<lambda>s'. I s' \<and> R s s' \<and> (\<forall>j. j \<noteq> i \<longrightarrow> P j s \<longrightarrow> P j s'))"
    and "\<And>s. R s s" "\<And>a b c. R a b \<Longrightarrow> R b c \<Longrightarrow> R a c"
    and "I s" "distinct is" "\<forall>i \<in> set is. P i s"
  shows "succeeds (fold_res f is s) (\<lambda>s'. I s' \<and> R s s')"
  using assms(4-6)
proof (induction "is" arbitrary: s)
  case (Cons i "is")
  obtain s1 where s1: "f i s = Inr s1" "I s1" "R s s1" "\<forall>j. j \<noteq> i \<longrightarrow> P j s \<longrightarrow> P j s1"
    using assms(1) [of s i] Cons.prems by (auto simp: succeeds_iff)
  have "\<forall>j \<in> set is. P j s1" using s1(4) Cons.prems(2,3) by auto
  from Cons.IH [OF s1(2) _ this] Cons.prems(2) s1(1,3) show ?case
    by (auto simp: succeeds_iff intro: assms(3))
qed (simp add: assms(2))

definition unmoved :: "HMCMemorySystem \<Rightarrow> HMCMemorySystem \<Rightarrow> bool" where
  "unmoved s s' = (hmc_outstanding s' = hmc_outstanding s \<and> hmc_frame s s')"

lemma unmoved_refl: "unmoved s s" and unmoved_trans: "unmoved a b \<Longrightarrow> unmoved b c \<Longrightarrow> unmoved a c"
  by (simp_all add: unmoved_def hmc_frame_def)

lemma quad_busy_irrelevant:
  assumes "hmc_inv cfg X s" "length b = 4"
  shows "hmc_inv cfg X (s\<lparr>quad_busy := b\<rparr>)" "unmoved s (s\<lparr>quad_busy := b\<rparr>)"
  using assms by (simp_all add: hmc_inv_def travelling_def unmoved_def hmc_outstanding_def hmc_frame_def)

lemma link_busy_irrelevant:
  assumes "hmc_inv cfg X s" "int (length b) = links s"
  shows "hmc_inv cfg X (s\<lparr>link_busy := b\<rparr>)" "unmoved s (s\<lparr>link_busy := b\<rparr>)"
  using assms by (simp_all add: hmc_inv_def travelling_def unmoved_def hmc_outstanding_def hmc_frame_def)

lemma DrainRequests_ok:
  assumes "hmc_inv cfg X s"
  shows "succeeds (DrainRequests s) (\<lambda>s'. hmc_inv cfg X s' \<and> unmoved s s')"
proof -
  have "succeeds (fold_res drain_quad [0, 1, 2, 3] s) (\<lambda>s'. hmc_inv cfg X s' \<and> unmoved s s')"
  proof (rule fold_res_invariant)
    show "hmc_inv cfg X s \<and> unmoved s s" using assms unmoved_refl by blast
    fix i s' assume "i \<in> set [0, 1, 2, 3 :: int]" "hmc_inv cfg X s' \<and> unmoved s s'"
    then show "succeeds (drain_quad i s') (\<lambda>s'. hmc_inv cfg X s' \<and> unmoved s s')"
      using drain_quad_ok [of cfg X s' i] by (auto elim!: succeeds_mono simp: unmoved_def intro: hmc_frame_trans)
  qed
  then obtain s1 where s1: "fold_res drain_quad [0, 1, 2, 3] s = Inr s1" "hmc_inv cfg X s1" "unmoved s s1"
    by (auto simp: succeeds_iff)
  let ?s2 = "s1\<lparr>quad_busy := drain_busy (quad_busy s1)\<rparr>"
  have s2: "hmc_inv cfg X ?s2" "unmoved s1 ?s2"
    by (rule quad_busy_irrelevant [OF s1(2)], simp add: drain_busy_def hmc_invD(7) [OF s1(2)])+
  have len: "int (length (link_age_counter ?s2)) = links ?s2" "link_age_counter ?s2 \<noteq> []"
    using hmc_invD(1,2,10) [OF s2(1)] by (auto simp: ages_ok_def)
  obtain q where q: "BuildAgeQueue (logic_clk ?s2) (link_age_counter ?s2) = Inr q" "distinct q"
    "set q = {i. 0 \<le> i \<and> i < links ?s2 \<and> link_age_counter ?s2 ! nat i > 0}"
    using BuildAgeQueue_ok [OF len(2), of "logic_clk ?s2"] unfolding len(1) by (auto simp: succeeds_iff)
  have "succeeds (fold_res link_to_quad q ?s2) (\<lambda>s'. hmc_inv cfg X s' \<and> unmoved ?s2 s')"
  proof (rule fold_res_ages [where P = "\<lambda>i s. 0 \<le> i \<and> i < links s \<and> 0 < link_age_counter s ! nat i"])
    fix i s assume "hmc_inv cfg X s" "0 \<le> i \<and> i < links s \<and> 0 < link_age_counter s ! nat i"
    then show "succeeds (link_to_quad i s) (\<lambda>s'. hmc_inv cfg X s' \<and> unmoved s s' \<and> (\<forall>j. j \<noteq> i
        \<longrightarrow> 0 \<le> j \<and> j < links s \<and> 0 < link_age_counter s ! nat j \<longrightarrow> 0 \<le> j \<and> j < links s' \<and> 0 < link_age_counter s' ! nat j))"
      using link_to_quad_ok [of cfg X s i] by (auto elim!: succeeds_mono simp: unmoved_def hmc_frame_def)
  qed (use s2(1) q unmoved_refl unmoved_trans in auto)
  then show ?thesis
    using s1(1,3) s2(2) q(1) by (auto simp: DrainRequests_def Let_def succeeds_iff intro: unmoved_trans)
qed

section \<open>Moving responses\<close>

lemma quad_to_link_ok:
  assumes "hmc_inv cfg X s" "0 \<le> i" "i < 4" "0 < quad_age_counter s ! nat i"
  shows "succeeds (quad_to_link i s) (\<lambda>s'. hmc_inv cfg X s' \<and> unmoved s s'
    \<and> (\<forall>j. j \<noteq> nat i \<longrightarrow> quad_age_counter s' ! j = quad_age_counter s ! j))"
proof -
  note inv = hmc_invD [OF assms(1)]
  have i: "nat i < length (quad_resp_queues s)" using assms(2,3) inv(6) by linarith
  obtain resp rest where q: "quad_resp_queues s ! nat i = resp # rest"
    using ages_nonempty [OF inv(11) i assms(4)] by blast
  let ?q = "(quad_resp_queues s)[nat i := rest]" and ?k = "nat (rs_link resp)"
  let ?resp = "resp\<lparr>rs_exit_time := logic_clk s + of_int (rs_flits resp)\<rparr>"
  let ?l = "(link_resp_queues s)[?k := link_resp_queues s ! ?k @ [?resp]]"
  have pop: "mset (concat (quad_resp_queues s)) = add_mset resp (mset (concat ?q))" by (rule concat_pop [OF i q])
  have ok: "resp_ok (links s) resp" by (rule inv(13)) (simp add: pop)
  then have k: "0 \<le> rs_link resp" "rs_link resp < links s" "?k < length (link_resp_queues s)"
    using inv(3) by (auto simp: resp_ok_def)
  have push: "mset (concat ?l) = add_mset ?resp (mset (concat (link_resp_queues s)))" by (rule concat_push [OF k(3)])
  have len: "length (quad_age_counter s) = 4" using inv(6,11) by (simp add: ages_ok_def)
  have nth: "nth_res (quad_resp_queues s) i = Inr (resp # rest)" "nth_res (link_resp_queues s) (rs_link resp) = Inr (link_resp_queues s ! ?k)"
    "nth_res (link_busy s) (rs_link resp) = Inr (link_busy s ! ?k)" "nth_res (quad_age_counter s) i = Inr (quad_age_counter s ! nat i)"
    "\<And>x. upd_res (quad_resp_queues s) i x = Inr ((quad_resp_queues s)[nat i := x])"
    "\<And>x. upd_res (link_resp_queues s) (rs_link resp) x = Inr ((link_resp_queues s)[?k := x])"
    "\<And>x. upd_res (link_busy s) (rs_link resp) x = Inr ((link_busy s)[?k := x])"
    "\<And>x. upd_res (quad_age_counter s) i x = Inr ((quad_age_counter s)[nat i := x])"
    using assms(2,3) k inv(3,4,6) len q by (simp_all add: nth_res_def upd_res_def)
  show ?thesis
  proof (cases "has_room s (link_resp_queues s ! ?k) \<and> link_busy s ! ?k \<le> 0")
    case True
    let ?ages = "(quad_age_counter s)[nat i := if rest = [] then 0 else 1]"
    let ?s = "s\<lparr>quad_resp_queues := ?q, link_resp_queues := ?l, link_busy := (link_busy s)[?k := rs_flits resp], quad_age_counter := ?ages\<rparr>"
    have ages: "ages_ok ?ages ?q" by (rule ages_ok_update [OF inv(11)]) auto
    have "\<forall>r \<in># mset (map snd (resp_lookup_table s)) + mset (concat ?q). resp_ok (links s) r"
      using inv(13) by (auto simp: pop)
    moreover have "travelling ?s = travelling s" by (simp add: travelling_def)
    ultimately have "hmc_inv cfg X ?s"
      unfolding hmc_inv_def using inv(1-10,12,14-16) ages by simp
    moreover have "quad_to_link i s = Inr ?s" using True by (auto simp: quad_to_link_def nth)
    moreover have "hmc_outstanding ?s = hmc_outstanding s"
      by (simp add: hmc_outstanding_def pop push link_callback_def)
    ultimately show ?thesis by (simp add: unmoved_def hmc_frame_def)
  next
    case False
    let ?s = "s\<lparr>quad_age_counter := (quad_age_counter s)[nat i := quad_age_counter s ! nat i + 1]\<rparr>"
    have "ages_ok ((quad_age_counter s)[nat i := quad_age_counter s ! nat i + 1]) (quad_resp_queues s)"
      by (rule ages_ok_stall [OF inv(11) assms(4) i])
    then have "hmc_inv cfg X ?s" using inv by (simp add: hmc_inv_def travelling_def)
    moreover have "quad_to_link i s = Inr ?s" using False by (auto simp: quad_to_link_def nth)
    ultimately show ?thesis by (simp add: unmoved_def hmc_outstanding_def hmc_frame_def)
  qed
qed

lemma link_to_cpu_ok:
  assumes "hmc_inv cfg X s" "0 \<le> i" "i < links s"
  shows "succeeds (link_to_cpu i (cbs, s)) (\<lambda>(cbs', s'). hmc_inv cfg X s' \<and> hmc_frame s s'
    \<and> mset cbs + hmc_outstanding s = mset cbs' + hmc_outstanding s')"
proof -
  note inv = hmc_invD [OF assms(1)]
  have i: "nat i < length (link_resp_queues s)" using assms(2,3) inv(3) by linarith
  have nth: "nth_res (link_resp_queues s) i = Inr (link_resp_queues s ! nat i)"
    "\<And>x. upd_res (link_resp_queues s) i x = Inr ((link_resp_queues s)[nat i := x])"
    using assms(2,3) inv(3) by (simp_all add: nth_res_def upd_res_def)
  show ?thesis
  proof (cases "link_resp_queues s ! nat i")
    case Nil
    then show ?thesis using assms(1) by (simp add: link_to_cpu_def nth hmc_frame_def)
  next
    case (Cons resp rest)
    let ?s = "s\<lparr>link_resp_queues := (link_resp_queues s)[nat i := rest]\<rparr>"
    have pop: "mset (concat (link_resp_queues s)) = add_mset resp (mset (concat ((link_resp_queues s)[nat i := rest])))"
      by (rule concat_pop [OF i Cons])
    have "hmc_inv cfg X ?s" using assms(1) by (simp add: hmc_inv_def travelling_def)
    moreover have "hmc_outstanding s = add_mset (link_callback resp) (hmc_outstanding ?s)"
      by (simp add: hmc_outstanding_def pop)
    ultimately show ?thesis
      using assms(1) by (simp add: link_to_cpu_def nth Cons hmc_frame_def)
  qed
qed

lemma DrainResponses_ok:
  assumes "hmc_inv cfg X s"
  shows "succeeds (DrainResponses s) (\<lambda>(cbs, s'). hmc_inv cfg X s' \<and> hmc_frame s s'
    \<and> hmc_outstanding s = mset cbs + hmc_outstanding s')"
proof -
  let ?I = "\<lambda>(cbs, s'). hmc_inv cfg X s' \<and> hmc_frame s s' \<and> hmc_outstanding s = mset cbs + hmc_outstanding s'"
  have "succeeds (fold_res link_to_cpu (int_range (links s)) ([], s)) ?I"
  proof (rule fold_res_invariant)
    show "?I ([], s)" using assms by (simp add: hmc_frame_def)
    fix i p assume *: "i \<in> set (int_range (links s))" "?I p"
    obtain cbs s' where p: "p = (cbs, s')" by (cases p)
    have i: "0 \<le> i" "i < links s'" using * by (auto simp: p hmc_frame_def)
    show "succeeds (link_to_cpu i p) ?I"
      using link_to_cpu_ok [OF _ i, of cfg X cbs] * unfolding p
      by (auto elim!: succeeds_mono intro: hmc_frame_trans)
  qed
  then obtain cbs s1 where s1: "fold_res link_to_cpu (int_range (links s)) ([], s) = Inr (cbs, s1)" "hmc_inv cfg X s1"
    "hmc_frame s s1" "hmc_outstanding s = mset cbs + hmc_outstanding s1" by (auto simp: succeeds_iff)
  let ?s2 = "s1\<lparr>link_busy := drain_busy (link_busy s1)\<rparr>"
  have s2: "hmc_inv cfg X ?s2" "unmoved s1 ?s2"
    by (rule link_busy_irrelevant [OF s1(2)], simp add: drain_busy_def hmc_invD(4) [OF s1(2)])+
  have len: "length (quad_age_counter ?s2) = 4" "quad_age_counter ?s2 \<noteq> []"
    using hmc_invD(6,11) [OF s2(1)] by (auto simp: ages_ok_def)
  obtain q where q: "BuildAgeQueue (logic_clk ?s2) (quad_age_counter ?s2) = Inr q" "distinct q"
    "set q = {i. 0 \<le> i \<and> i < 4 \<and> quad_age_counter ?s2 ! nat i > 0}"
    using BuildAgeQueue_ok [OF len(2), of "logic_clk ?s2"] unfolding len(1) by (auto simp: succeeds_iff)
  have "succeeds (fold_res quad_to_link q ?s2) (\<lambda>s'. hmc_inv cfg X s' \<and> unmoved ?s2 s')"
  proof (rule fold_res_ages [where P = "\<lambda>i s. 0 \<le> i \<and> i < 4 \<and> 0 < quad_age_counter s ! nat i"])
    fix i s assume "hmc_inv cfg X s" "0 \<le> i \<and> i < 4 \<and> 0 < quad_age_counter s ! nat i"
    then show "succeeds (quad_to_link i s) (\<lambda>s'. hmc_inv cfg X s' \<and> unmoved s s' \<and> (\<forall>j. j \<noteq> i
        \<longrightarrow> 0 \<le> j \<and> j < 4 \<and> 0 < quad_age_counter s ! nat j \<longrightarrow> 0 \<le> j \<and> j < 4 \<and> 0 < quad_age_counter s' ! nat j))"
      using quad_to_link_ok [of cfg X s i] by (auto elim!: succeeds_mono)
  qed (use s2(1) q unmoved_refl unmoved_trans in auto)
  then show ?thesis
    using s1(1,3,4) s2(2) q(1)
    by (auto simp: DrainResponses_def Let_def succeeds_iff unmoved_def) (meson hmc_frame_trans)
qed

section \<open>The vaults\<close>

lemma VaultCallback_ok:
  assumes "hmc_inv cfg (add_mset a X) s"
  shows "succeeds (VaultCallback a s) (\<lambda>s'. hmc_inv cfg X s' \<and> unmoved s s' \<and> vaults s' = vaults s)"
proof -
  note inv = hmc_invD [OF assms]
  let ?P = "\<lambda>e :: u64 \<times> HMCResponse. fst e = a" and ?t = "resp_lookup_table s"
  have "a \<in># mset (map fst ?t)" by (simp only: inv(16)) simp
  then have "\<exists>e \<in> set ?t. ?P e" by auto
  from erase_first_find [OF this] obtain e where
    e: "find ?P ?t = Some e" "fst e = a" "e \<in> set ?t" "mset ?t = add_mset e (mset (erase_first ?P ?t))" by (elim exE conjE)
  obtain resp where r: "e = (a, resp)" using e(2) by (cases e) auto
  let ?t' = "erase_first ?P ?t" and ?k = "nat (rs_quad resp)"
  let ?q = "(quad_resp_queues s)[?k := quad_resp_queues s ! ?k @ [resp]]"
  have tbl: "mset (map snd ?t) = add_mset resp (mset (map snd ?t'))" "mset (map fst ?t) = add_mset a (mset (map fst ?t'))"
    using e(4) by (simp_all add: r)
  have ok: "resp_ok (links s) resp" by (rule inv(13)) (simp only: tbl, simp)
  then have k: "0 \<le> rs_quad resp" "rs_quad resp < 4" "?k < length (quad_resp_queues s)"
    using inv(6) by (auto simp: resp_ok_def)
  have push: "mset (concat ?q) = add_mset resp (mset (concat (quad_resp_queues s)))" by (rule concat_push [OF k(3)])
  have len: "length (quad_age_counter s) = 4" using inv(6,11) by (simp add: ages_ok_def)
  let ?s = "s\<lparr>resp_lookup_table := ?t', quad_resp_queues := ?q, quad_age_counter := (quad_age_counter s)[?k := 1]\<rparr>"
  have "VaultCallback a s = Inr ?s"
    using k inv(6) len by (simp add: VaultCallback_def e(1) r nth_res_def upd_res_def)
  moreover have "hmc_inv cfg X ?s"
    unfolding hmc_inv_def
  proof (intro conjI)
    show "ages_ok (quad_age_counter ?s) (quad_resp_queues ?s)"
      using ages_ok_update [OF inv(11), of 1 "quad_resp_queues s ! ?k @ [resp]" ?k] by simp
    show "\<forall>r \<in># mset (map snd (resp_lookup_table ?s)) + mset (concat (quad_resp_queues ?s)). resp_ok (links ?s) r"
    proof
      fix x assume "x \<in># mset (map snd (resp_lookup_table ?s)) + mset (concat (quad_resp_queues ?s))"
      then have "x \<in># mset (map snd ?t) + mset (concat (quad_resp_queues s))" unfolding tbl(1) using push by auto
      then show "resp_ok (links ?s) x" using inv(13) by simp
    qed
    show "\<forall>e \<in> set (resp_lookup_table ?s). fst e = resp_id (snd e)"
      using inv(14) set_erase_first [of ?P ?t] by auto
    show "mset (map fst (resp_lookup_table ?s)) = travelling ?s + X"
      using inv(16) tbl(2) by (simp add: travelling_def)
    show "\<forall>r \<in># mset (concat (link_req_queues ?s)) + mset (concat (quad_req_queues ?s)). req_ok cfg r"
      using inv(12) by simp
  qed (use inv in simp_all)
  moreover have "hmc_outstanding ?s = hmc_outstanding s"
    using tbl(1) by (simp add: hmc_outstanding_def push)
  ultimately show ?thesis by (simp add: unmoved_def hmc_frame_def)
qed

lemma VaultCallbacks_ok:
  assumes "hmc_inv cfg (image_mset fst (mset cbs)) s"
  shows "succeeds (fold_res (\<lambda>cb. VaultCallback (fst cb)) cbs s) (\<lambda>s'. hmc_inv cfg {#} s' \<and> unmoved s s' \<and> vaults s' = vaults s)"
  using assms
proof (induction cbs arbitrary: s)
  case (Cons cb cbs)
  have "hmc_inv cfg (add_mset (fst cb) (image_mset fst (mset cbs))) s" using Cons.prems by simp
  from VaultCallback_ok [OF this] obtain s1 where
    s1: "VaultCallback (fst cb) s = Inr s1" "hmc_inv cfg (image_mset fst (mset cbs)) s1" "unmoved s s1" "vaults s1 = vaults s"
    by (auto simp: succeeds_iff)
  show ?case using Cons.IH [OF s1(2)] s1 by (auto elim!: succeeds_mono intro: unmoved_trans)
qed (simp add: unmoved_refl)

lemma hmc_inv_vaults:
  assumes "hmc_inv cfg X s" "vaults_ok cfg t cs" "sum_list (map owed (vaults s)) = D + sum_list (map owed cs)"
  shows "hmc_inv cfg (X + image_mset fst D) (s\<lparr>vaults := cs, hm_clk := t\<rparr>)"
  using hmc_invD [OF assms(1)] assms(2,3) by (simp add: hmc_inv_def travelling_def ac_simps)

definition clock_horizon :: "Config \<Rightarrow> nat \<Rightarrow> u64 \<Rightarrow> bool" where
  "clock_horizon cfg n t = (\<forall>k < n. no_wrap (Timing_new cfg) (t + of_nat k))"

text \<open>The configurations of a cube.\<close>

definition hmc_config :: "Config \<Rightarrow> bool" where
  "hmc_config cfg =
     (new_config cfg \<and> IsHMC cfg \<and> 0 < epoch_period (sys cfg) \<and> epoch_period (sys cfg) < 2 ^ 31
      \<and> 0 < num_links (dram cfg) \<and> block_size (dram cfg) \<in> {0, 32, 64, 128, 256}
      \<and> succeeds (SetClockRatio cfg) (\<lambda>(d, l). d = 800 \<and> 0 < l \<and> l \<le> 800))"

lemma vaults_tick:
  assumes "ctl_config cfg" "vaults_ok cfg t cs" "no_wrap (Timing_new cfg) t"
  shows "succeeds (map_res (Controller_ClockTick cfg (Timing_new cfg)) cs) (\<lambda>cs'. vaults_ok cfg (t + 1) cs'
    \<and> sum_list (map owed cs') = sum_list (map owed cs))"
proof -
  let ?R = "\<lambda>c c'. ctl_wf cfg c' \<and> caps_ok cfg c' \<and> ctl_clk c' = t + 1 \<and> owed c' = owed c"
  have "succeeds (map_res (Controller_ClockTick cfg (Timing_new cfg)) cs) (list_all2 ?R cs)"
  proof (rule map_res_ok)
    fix c assume "c \<in> set cs"
    then have c: "ctl_wf cfg c" "caps_ok cfg c" "ctl_clk c = t" using assms(2) unfolding vaults_ok_def by blast+
    show "succeeds (Controller_ClockTick cfg (Timing_new cfg) c) (?R c)"
      by (rule succeeds_mono [OF ClockTick_ok [OF assms(1) c(1)]]) (use assms(3) c(2,3) in \<open>auto simp: caps_ok_def\<close>)
  qed
  then obtain cs' where cs': "map_res (Controller_ClockTick cfg (Timing_new cfg)) cs = Inr cs'" "list_all2 ?R cs cs'"
    by (auto simp: succeeds_iff)
  have "\<forall>c \<in> set cs'. ctl_wf cfg c \<and> caps_ok cfg c \<and> ctl_clk c = t + 1"
    by (rule list_all2_set_right [OF cs'(2), of "\<lambda>c. True"]) auto
  moreover have "sum_list (map owed cs') = sum_list (map owed cs)"
    by (rule sum_list_owed_cong) (use cs'(2) in \<open>auto elim: list_all2_mono\<close>)
  ultimately show ?thesis
    using cs'(1) assms(2) list_all2_lengthD [OF cs'(2)] by (simp add: vaults_ok_def)
qed

lemma vaults_epoch:
  assumes "vaults_ok cfg t cs"
  shows "succeeds (map_res Controller_PrintEpochStats cs) (\<lambda>cs'. vaults_ok cfg t cs' \<and> sum_list (map owed cs') = sum_list (map owed cs))"
proof -
  let ?R = "\<lambda>c c'. ctl_wf cfg c' \<and> caps_ok cfg c' \<and> ctl_clk c' = ctl_clk c \<and> owed c' = owed c"
  have "succeeds (map_res Controller_PrintEpochStats cs) (list_all2 ?R cs)"
    by (rule map_res_ok, rule PrintEpochStats_ok) (use assms in \<open>simp_all add: vaults_ok_def\<close>)
  then obtain cs' where cs': "map_res Controller_PrintEpochStats cs = Inr cs'" "list_all2 ?R cs cs'"
    by (auto simp: succeeds_iff)
  have "\<forall>c \<in> set cs'. ctl_wf cfg c \<and> caps_ok cfg c \<and> ctl_clk c = t"
    by (rule list_all2_set_right [OF cs'(2), of "\<lambda>c. ctl_clk c = t"]) (use assms in \<open>auto simp: vaults_ok_def\<close>)
  moreover have "sum_list (map owed cs') = sum_list (map owed cs)"
    by (rule sum_list_owed_cong) (use cs'(2) in \<open>auto elim: list_all2_mono\<close>)
  ultimately show ?thesis
    using cs'(1) assms list_all2_lengthD [OF cs'(2)] by (simp add: vaults_ok_def)
qed

section \<open>Accepting requests\<close>

lemma InsertReqToLink_full:
  assumes "hmc_inv cfg X s" "0 \<le> l" "l < links s" "\<not> has_room s (link_req_queues s ! nat l)"
  shows "InsertReqToLink req l s = Inr (False, s)"
  using assms hmc_invD(2) [OF assms(1)] by (simp add: InsertReqToLink_def nth_res_def)

lemma InsertReqToLink_ok:
  assumes "hmc_inv cfg X s" "0 \<le> l" "l < links s" "has_room s (link_req_queues s ! nat l)"
    and "req_ok cfg req" "response_of (rq_type req) = Inr (rt, f)"
  shows "succeeds (InsertReqToLink req l s) (\<lambda>(ok, s'). ok \<and> hmc_inv cfg X s' \<and> hmc_frame s s' \<and> next_link s' = next_link s
    \<and> hmc_outstanding s' = add_mset (mem_operand req, rt \<noteq> RD_RS) (hmc_outstanding s))"
proof -
  note inv = hmc_invD [OF assms(1)]
  let ?q = "link_req_queues s ! nat l"
  let ?req = "req\<lparr>rq_link := l\<rparr>"
  let ?resp = "\<lparr>resp_id = mem_operand req, rs_type = rt, rs_link = l, rs_quad = rq_quad req, rs_flits = f, rs_exit_time = 0\<rparr>"
  let ?qs = "(link_req_queues s)[nat l := ?q @ [?req]]" and ?ages = "(link_age_counter s)[nat l := 1]"
  let ?s = "s\<lparr>link_req_queues := ?qs, resp_lookup_table := resp_lookup_table s @ [(mem_operand req, ?resp)],
    link_age_counter := ?ages, hm_last_req_clk := hm_clk s\<rparr>"
  have l: "nat l < length (link_req_queues s)" using assms(2,3) inv(2) by linarith
  have len: "length (link_age_counter s) = length (link_req_queues s)" using inv(10) by (simp add: ages_ok_def)
  have push: "mset (concat ?qs) = add_mset ?req (mset (concat (link_req_queues s)))" by (rule concat_push [OF l])
  have "InsertReqToLink req l s = Inr (True, ?s)"
    using assms(2-4,6) inv(2) len
    by (simp add: InsertReqToLink_def nth_res_def upd_res_def HMCResponse_new_def)
  moreover have "hmc_inv cfg X ?s"
    unfolding hmc_inv_def
  proof (intro conjI)
    show "ages_ok (link_age_counter ?s) (link_req_queues ?s)" using ages_ok_update [OF inv(10), of 1 "?q @ [?req]"] by simp
    show "\<forall>r \<in># mset (concat (link_req_queues ?s)) + mset (concat (quad_req_queues ?s)). req_ok cfg r"
      using inv(12) assms(5) push by (auto simp: req_ok_def)
    show "\<forall>r \<in># mset (map snd (resp_lookup_table ?s)) + mset (concat (quad_resp_queues ?s)). resp_ok (links ?s) r"
      using inv(13) assms(2,3,5) by (auto simp: req_ok_def resp_ok_def)
    show "\<forall>e \<in> set (resp_lookup_table ?s). fst e = resp_id (snd e)" using inv(14) by auto
    show "mset (map fst (resp_lookup_table ?s)) = travelling ?s + X"
      using inv(16) push by (simp add: travelling_def)
  qed (use inv in simp_all)
  moreover have "hmc_outstanding ?s = add_mset (mem_operand req, rt \<noteq> RD_RS) (hmc_outstanding s)"
    by (simp add: hmc_outstanding_def link_callback_def)
  ultimately show ?thesis by (simp add: hmc_frame_def)
qed

lemma has_room_next_link [simp]: "has_room (s\<lparr>next_link := k\<rparr>) q = has_room s q"
  by (simp add: has_room_def)

lemma next_link_irrelevant:
  assumes "hmc_inv cfg X s" "0 \<le> k" "k < links s"
  shows "hmc_inv cfg X (s\<lparr>next_link := k\<rparr>)" "hmc_outstanding (s\<lparr>next_link := k\<rparr>) = hmc_outstanding s"
    "hmc_frame s (s\<lparr>next_link := k\<rparr>)"
  using assms by (simp_all add: hmc_inv_def travelling_def hmc_outstanding_def hmc_frame_def)

lemma smod_nonneg: "0 \<le> a \<Longrightarrow> 0 < b \<Longrightarrow> a smod b = (a mod b :: int)"
  by (cases "a = 0") (simp_all add: signed_modulo_int_def)

lemma IterateNextLink_mod:
  assumes "0 < links s" "0 \<le> next_link s"
  shows "IterateNextLink s = Inr (s\<lparr>next_link := (next_link s + 1) mod links s\<rparr>)"
  using assms by (simp add: IterateNextLink_def smod_nonneg)

text \<open>
  The search for a link: after \<open>j\<close> full links the next one is tried, and as some link has room the
  search finds one before it has gone round.
\<close>

definition inserted :: "Config \<Rightarrow> u64 multiset \<Rightarrow> callback \<Rightarrow> HMCMemorySystem \<Rightarrow> bool \<times> HMCMemorySystem \<Rightarrow> bool" where
  "inserted cfg X cb s r =
     (fst r \<and> hmc_inv cfg X (snd r) \<and> hmc_frame s (snd r) \<and> hmc_outstanding (snd r) = add_mset cb (hmc_outstanding s))"

lemma inserted_here:
  assumes "hmc_inv cfg X s" "has_room s (link_req_queues s ! nat (next_link s))"
    and "req_ok cfg req" "response_of (rq_type req) = Inr (rt, f)"
  shows "succeeds (bindE (InsertReqToLink req (next_link s) s) (\<lambda>(ok, s1). bindE (IterateNextLink s1) (\<lambda>s2.
      if ok then Inr (True, s2) else g s2))) (inserted cfg X (mem_operand req, rt \<noteq> RD_RS) s)"
proof -
  note inv = hmc_invD [OF assms(1)]
  from InsertReqToLink_ok [OF assms(1) inv(8,9) assms(2-4)] obtain s1 where
    s1: "InsertReqToLink req (next_link s) s = Inr (True, s1)" "hmc_inv cfg X s1" "hmc_frame s s1"
      "hmc_outstanding s1 = add_mset (mem_operand req, rt \<noteq> RD_RS) (hmc_outstanding s)"
    by (auto simp: succeeds_iff)
  note inv1 = hmc_invD [OF s1(2)]
  note n = next_link_irrelevant [OF s1(2), of "(next_link s1 + 1) mod links s1"]
  show ?thesis
    using s1 n inv1(1,8) hmc_frame_trans [OF s1(3)] by (simp add: IterateNextLink_mod inserted_def)
qed

lemma cyclic_all:
  assumes "0 < (n::int)" "\<forall>i. 0 \<le> i \<and> i < n \<longrightarrow> P ((b + i) mod n)" "0 \<le> l" "l < n"
  shows "P l"
proof -
  have "(b + (l - b) mod n) mod n = l" using assms(3,4) by (simp add: mod_add_right_eq)
  moreover have "P ((b + (l - b) mod n) mod n)" using assms(1,2) by simp
  ultimately show ?thesis by simp
qed

lemma insert_loop_ok:
  assumes "hmc_inv cfg X s" "req_ok cfg req" "response_of (rq_type req) = Inr (rt, f)"
    and "\<exists>q \<in> set (link_req_queues s). has_room s q" "0 \<le> start" "start < links s" "0 < j" "j \<le> links s"
    and "next_link s = (start + j) mod links s" "links s - j \<le> int fuel"
    and "\<forall>i. 0 \<le> i \<and> i < j \<longrightarrow> \<not> has_room s (link_req_queues s ! nat ((start + i) mod links s))"
  shows "succeeds (insert_loop fuel start req s) (inserted cfg X (mem_operand req, rt \<noteq> RD_RS) s)"
  using assms
proof (induction fuel arbitrary: s j)
  case 0
  note inv = hmc_invD [OF 0(1)]
  have j: "j = links s" using 0(8,10) by simp
  obtain i where i: "i < length (link_req_queues s)" "has_room s (link_req_queues s ! i)"
    using 0(4) by (auto simp: in_set_conv_nth)
  have "\<not> has_room s (link_req_queues s ! nat (int i))"
    by (rule cyclic_all [OF inv(1), of "\<lambda>l. \<not> has_room s (link_req_queues s ! nat l)" start]) (use 0(11) j i(1) inv(2) in auto)
  then show ?case using i(2) by simp
next
  case (Suc fuel)
  note inv = hmc_invD [OF Suc.prems(1)]
  show ?case
  proof (cases "j = links s")
    case True
    obtain i where i: "i < length (link_req_queues s)" "has_room s (link_req_queues s ! i)"
      using Suc.prems(4) by (auto simp: in_set_conv_nth)
    have "\<not> has_room s (link_req_queues s ! nat (int i))"
      by (rule cyclic_all [OF inv(1), of "\<lambda>l. \<not> has_room s (link_req_queues s ! nat l)" start])
        (use Suc.prems(11) True i(1) inv(2) in auto)
    then show ?thesis using i(2) by simp
  next
    case False
    then have j: "j < links s" using Suc.prems(8) by simp
    have ne: "start \<noteq> next_link s"
    proof
      assume "start = next_link s"
      then have "(start + j) mod links s = start mod links s" using Suc.prems(5,6,9) by simp
      then have "j mod links s = 0" by (metis add_diff_cancel_left' mod_0_imp_dvd mod_eq_dvd_iff dvd_imp_mod_0)
      then show False using Suc.prems(7) j by simp
    qed
    show ?thesis
    proof (cases "has_room s (link_req_queues s ! nat (next_link s))")
      case True
      then show ?thesis
        using ne inserted_here [OF Suc.prems(1) True Suc.prems(2,3)] by (simp add: insert_loop.simps)
    next
      case full: False
      let ?s = "s\<lparr>next_link := (next_link s + 1) mod links s\<rparr>"
      note n = next_link_irrelevant [OF Suc.prems(1), of "(next_link s + 1) mod links s"]
      have "succeeds (insert_loop fuel start req ?s) (inserted cfg X (mem_operand req, rt \<noteq> RD_RS) ?s)"
      proof (rule Suc.IH [of ?s "j + 1"])
        show "next_link ?s = (start + (j + 1)) mod links ?s"
          using Suc.prems(9) by (simp add: mod_add_left_eq ac_simps) (metis add.assoc add.commute mod_add_left_eq)
        show "\<forall>i. 0 \<le> i \<and> i < j + 1 \<longrightarrow> \<not> has_room ?s (link_req_queues ?s ! nat ((start + i) mod links ?s))"
        proof (intro allI impI)
          fix i assume i: "0 \<le> i \<and> i < j + 1"
          show "\<not> has_room ?s (link_req_queues ?s ! nat ((start + i) mod links ?s))"
          proof (cases "i = j")
            case True
            then show ?thesis using full Suc.prems(9) by simp
          next
            case False
            then show ?thesis using Suc.prems(11) i by simp
          qed
        qed
      qed (use Suc.prems n inv(1) j in auto)
      then have "succeeds (insert_loop fuel start req ?s) (inserted cfg X (mem_operand req, rt \<noteq> RD_RS) s)"
        using n inv(1) by (auto simp: inserted_def hmc_frame_def elim!: succeeds_mono)
      then show ?thesis
        using ne InsertReqToLink_full [OF Suc.prems(1) inv(8,9) full, of req] inv(1,8)
        by (simp add: insert_loop.simps IterateNextLink_mod)
    qed
  qed
qed

lemma InsertHMCReq_ok:
  assumes "hmc_inv cfg X s" "req_ok cfg req" "response_of (rq_type req) = Inr (rt, f)"
    and "\<exists>q \<in> set (link_req_queues s). has_room s q"
  shows "succeeds (InsertHMCReq req s) (inserted cfg X (mem_operand req, rt \<noteq> RD_RS) s)"
proof -
  note inv = hmc_invD [OF assms(1)]
  show ?thesis
  proof (cases "has_room s (link_req_queues s ! nat (next_link s))")
    case True
    from InsertReqToLink_ok [OF assms(1) inv(8,9) True assms(2,3)] inserted_here [OF assms(1) True assms(2,3)]
    show ?thesis by (auto simp: InsertHMCReq_def succeeds_iff)
  next
    case full: False
    let ?s = "s\<lparr>next_link := (next_link s + 1) mod links s\<rparr>"
    note n = next_link_irrelevant [OF assms(1), of "(next_link s + 1) mod links s"]
    have "succeeds (insert_loop (length (link_req_queues s)) (next_link s) req ?s) (inserted cfg X (mem_operand req, rt \<noteq> RD_RS) ?s)"
    proof (rule insert_loop_ok [where j = 1])
      show "\<forall>i. 0 \<le> i \<and> i < 1 \<longrightarrow> \<not> has_room ?s (link_req_queues ?s ! nat ((next_link s + i) mod links ?s))"
      proof (intro allI impI)
        fix i :: int assume "0 \<le> i \<and> i < 1"
        then have "i = 0" by linarith
        then show "\<not> has_room ?s (link_req_queues ?s ! nat ((next_link s + i) mod links ?s))"
          using full inv(8,9) by simp
      qed
    qed (use assms n inv(1,2,8,9) in auto)
    then show ?thesis
      using InsertReqToLink_full [OF assms(1) inv(8,9) full, of req] inv(1,8) n
      by (auto simp: InsertHMCReq_def IterateNextLink_mod inserted_def hmc_frame_def elim!: succeeds_mono)
  qed
qed

lemma block_request_ok:
  assumes "bs \<in> {0, 32, 64, 128, 256}"
  shows "\<exists>ty fl rt f. block_request bs w = Inr ty \<and> request_flits ty = Inr fl \<and> response_of ty = Inr (rt, f)
    \<and> (rt \<noteq> RD_RS) = w \<and> (ty \<in> set write_types) = w"
  using assms by (cases w) (auto simp: block_request_def write_types_def)

lemma HMC_AddTransaction_ok:
  assumes "hmc_config cfg" "hmc_inv cfg {#} s" "HMC_WillAcceptTransaction a w s"
  shows "succeeds (HMC_AddTransaction cfg a w s) (inserted cfg {#} (a, w) s)"
proof -
  have cfg: "new_config cfg" "block_size (dram cfg) \<in> {0, 32, 64, 128, 256}" using assms(1) unfolding hmc_config_def by blast+
  obtain ty fl rt f where ty: "block_request (block_size (dram cfg)) w = Inr ty" "request_flits ty = Inr fl"
    "response_of ty = Inr (rt, f)" "(rt \<noteq> RD_RS) = w"
    using block_request_ok [OF cfg(2), of w] by blast
  note ch = GetChannel_in_range [OF cfg(1), of a]
  let ?req = "\<lparr>rq_type = ty, mem_operand = a, rq_link = 0, rq_quad = GetChannel cfg a smod 4, vault = GetChannel cfg a, rq_flits = fl,
          rq_is_write = (ty \<in> set write_types), rq_exit_time = 0\<rparr>"
  have "req_ok cfg ?req" using ch by (simp add: req_ok_def smod_nonneg)
  from InsertHMCReq_ok [OF assms(2) this, of rt f] ty assms(3)
  show ?thesis by (simp add: HMC_AddTransaction_def HMCRequest_new_def HMC_WillAcceptTransaction_def)
qed

text \<open>The clock domains.\<close>

definition same_ps :: "HMCMemorySystem \<Rightarrow> HMCMemorySystem \<Rightarrow> bool" where
  "same_ps s s' = (logic_ps s' = logic_ps s \<and> dram_ps s' = dram_ps s \<and> ps_per_dram s' = ps_per_dram s \<and> ps_per_logic s' = ps_per_logic s)"

lemma DRAMClockTick_ok:
  assumes "hmc_config cfg" "hmc_inv cfg {#} s" "no_wrap (Timing_new cfg) (hm_clk s)"
  shows "succeeds (DRAMClockTick cfg s) (\<lambda>s'. hmc_inv cfg {#} s' \<and> hmc_outstanding s' = hmc_outstanding s
    \<and> hm_clk s' = hm_clk s + 1 \<and> same_ps s s')"
proof -
  have cfg: "ctl_config cfg" "(of_int (epoch_period (sys cfg)) :: u64) \<noteq> 0"
    using assms(1) of_int_word_nonzero [of "epoch_period (sys cfg)"] by (auto simp: hmc_config_def new_config_def)
  note inv = hmc_invD [OF assms(2)]
  obtain cbs cs where d: "drain_all (hm_clk s) (vaults s) = (cbs, cs)" by (cases "drain_all (hm_clk s) (vaults s)")
  have pre: "\<forall>c \<in> set (vaults s). ctl_wf cfg c \<and> caps_ok cfg c \<and> ctl_clk c = hm_clk s"
    using inv(15) unfolding vaults_ok_def by blast
  have dd: "vaults_ok cfg (hm_clk s) cs" "sum_list (map owed (vaults s)) = mset cbs + sum_list (map owed cs)"
    using drain_all_ok [OF pre d] inv(15) by (simp_all add: vaults_ok_def)
  have "hmc_inv cfg (image_mset fst (mset cbs)) (s\<lparr>vaults := cs\<rparr>)"
    using hmc_inv_vaults [OF assms(2) dd] by simp
  from VaultCallbacks_ok [OF this] obtain s1 where s1: "fold_res (\<lambda>cb. VaultCallback (fst cb)) cbs (s\<lparr>vaults := cs\<rparr>) = Inr s1"
    "hmc_inv cfg {#} s1" "unmoved (s\<lparr>vaults := cs\<rparr>) s1" "vaults s1 = cs"
    by (auto simp: succeeds_iff)
  have f: "hm_clk s1 = hm_clk s" "hmc_outstanding s1 = hmc_outstanding s" "same_ps s s1"
    using s1(3) by (simp_all add: unmoved_def hmc_frame_def hmc_outstanding_def same_ps_def)
  obtain cs1 where cs1: "map_res (Controller_ClockTick cfg (Timing_new cfg)) (vaults s1) = Inr cs1"
    "vaults_ok cfg (hm_clk s + 1) cs1" "sum_list (map owed cs1) = sum_list (map owed (vaults s1))"
    using vaults_tick [OF cfg(1) dd(1) assms(3)] s1(4) by (auto simp: succeeds_iff)
  let ?s2 = "s1\<lparr>vaults := cs1, hm_clk := hm_clk s + 1\<rparr>"
  have s2: "hmc_inv cfg {#} ?s2" using hmc_inv_vaults [OF s1(2) cs1(2), of "{#}"] cs1(3) by simp
  have o2: "hmc_outstanding ?s2 = hmc_outstanding s" "same_ps s ?s2"
    using f by (simp_all add: hmc_outstanding_def same_ps_def)
  obtain cs3 where cs3: "map_res Controller_PrintEpochStats cs1 = Inr cs3" "vaults_ok cfg (hm_clk s + 1) cs3"
    "sum_list (map owed cs3) = sum_list (map owed cs1)"
    using vaults_epoch [OF cs1(2)] by (auto simp: succeeds_iff)
  let ?s3 = "s1\<lparr>vaults := cs3, hm_clk := hm_clk s + 1\<rparr>"
  have eq3: "s1\<lparr>hm_clk := hm_clk s + 1, vaults := cs3\<rparr> = ?s3" by simp
  have s3: "hmc_inv cfg {#} ?s3"
    using hmc_inv_vaults [OF s1(2) cs3(2), of "{#}"] cs1(3) cs3(3) by simp
  have o3: "hmc_outstanding ?s3 = hmc_outstanding s" "same_ps s ?s3"
    using o2 by (simp_all add: hmc_outstanding_def same_ps_def)
  show ?thesis
    using s1(1) cs1(1) s2 o2 s3 o3 cfg(2) f(1) cs3(1)
    by (simp add: DRAMClockTick_def d Let_def HMC_PrintEpochStats_def eq3)
qed

text \<open>
  The logic clock never falls behind the DRAM clock and is ahead by less than one logic cycle;
  so the inner loop runs at least once per picosecond of a DRAM cycle at most.
\<close>

definition ps_ok :: "HMCMemorySystem \<Rightarrow> bool" where
  "ps_ok s = (ps_per_dram s = 800 \<and> 0 < uint (ps_per_logic s) \<and> uint (ps_per_logic s) \<le> 800
     \<and> uint (dram_ps s) \<le> uint (logic_ps s) \<and> uint (logic_ps s) < uint (dram_ps s) + uint (ps_per_logic s))"

lemma uint_add_small: "uint (a::u64) + uint b < 2 ^ 64 \<Longrightarrow> uint (a + b) = uint a + uint b"
  by (simp add: uint_word_ariths)

lemma logic_step_irrelevant:
  assumes "hmc_inv cfg X s"
  shows "hmc_inv cfg X (logic_step s)" "hmc_outstanding (logic_step s) = hmc_outstanding s"
    "hm_clk (logic_step s) = hm_clk s"
  using assms by (simp_all add: logic_step_def hmc_inv_def travelling_def hmc_outstanding_def)

lemma logic_loop_ok:
  assumes "hmc_inv cfg {#} s" "ps_per_dram s = 800" "0 < uint (ps_per_logic s)" "uint (ps_per_logic s) \<le> 800"
    and "uint (dram_ps s) + 1600 < 2 ^ 64" "uint (logic_ps s) < uint (dram_ps s) + 800 + uint (ps_per_logic s)"
    and "uint (dram_ps s) + 800 \<le> uint (logic_ps s) + int fuel"
  shows "succeeds (logic_loop fuel s) (\<lambda>(cbs, s'). hmc_inv cfg {#} s' \<and> hmc_outstanding s = mset cbs + hmc_outstanding s'
    \<and> hm_clk s' = hm_clk s \<and> dram_ps s' = dram_ps s \<and> ps_per_dram s' = 800 \<and> ps_per_logic s' = ps_per_logic s
    \<and> uint (dram_ps s) + 800 \<le> uint (logic_ps s') \<and> uint (logic_ps s') < uint (dram_ps s) + 800 + uint (ps_per_logic s))"
  using assms
proof (induction fuel arbitrary: s)
  case 0
  have "uint (dram_ps s + ps_per_dram s) = uint (dram_ps s) + 800" using 0(2,5) by (simp add: uint_add_small)
  then have "\<not> logic_ps s < dram_ps s + ps_per_dram s" using 0(7) by (simp add: word_less_def)
  then show ?case using 0 by (simp add: logic_loop.simps)
next
  case (Suc fuel)
  have d: "uint (dram_ps s + ps_per_dram s) = uint (dram_ps s) + 800" using Suc.prems(2,5) by (simp add: uint_add_small)
  show ?case
  proof (cases "logic_ps s < dram_ps s + ps_per_dram s")
    case True
    then have lt: "uint (logic_ps s) < uint (dram_ps s) + 800" using d by (simp add: word_less_def)
    from DrainResponses_ok [OF Suc.prems(1)] obtain cbs s1 where s1: "DrainResponses s = Inr (cbs, s1)" "hmc_inv cfg {#} s1"
      "hmc_frame s s1" "hmc_outstanding s = mset cbs + hmc_outstanding s1" by (auto simp: succeeds_iff)
    from DrainRequests_ok [OF s1(2)] obtain s2 where s2: "DrainRequests s1 = Inr s2" "hmc_inv cfg {#} s2"
      "hmc_outstanding s2 = hmc_outstanding s1" "hmc_frame s1 s2" by (auto simp: succeeds_iff unmoved_def)
    have fr: "hmc_frame s s2" by (rule hmc_frame_trans [OF s1(3) s2(4)])
    have add: "uint (logic_ps s + ps_per_logic s) = uint (logic_ps s) + uint (ps_per_logic s)"
      by (rule uint_add_small) (use lt Suc.prems(4,5) in linarith)
    have f: "hm_clk (logic_step s2) = hm_clk s" "dram_ps (logic_step s2) = dram_ps s" "ps_per_dram (logic_step s2) = 800"
      "ps_per_logic (logic_step s2) = ps_per_logic s" "logic_ps (logic_step s2) = logic_ps s + ps_per_logic s"
      using fr Suc.prems(2) by (simp_all add: hmc_frame_def logic_step_def)
    note st = logic_step_irrelevant [OF s2(2)]
    have "uint (logic_ps s) + 1 + int fuel \<le> uint (logic_ps s) + uint (ps_per_logic s) + int fuel" using Suc.prems(3) by linarith
    then have "uint (dram_ps s) + 800 \<le> uint (logic_ps s + ps_per_logic s) + int fuel" using Suc.prems(7) add by simp
    then have "succeeds (logic_loop fuel (logic_step s2)) (\<lambda>(cbs, s'). hmc_inv cfg {#} s' \<and> hmc_outstanding s2 = mset cbs + hmc_outstanding s'
      \<and> hm_clk s' = hm_clk s \<and> dram_ps s' = dram_ps s \<and> ps_per_dram s' = 800 \<and> ps_per_logic s' = ps_per_logic s
      \<and> uint (dram_ps s) + 800 \<le> uint (logic_ps s') \<and> uint (logic_ps s') < uint (dram_ps s) + 800 + uint (ps_per_logic s))"
      using Suc.IH [OF st(1)] Suc.prems(3-5) lt add unfolding f st(2) by simp
    then show ?thesis
      using True s1(1,4) s2(1,3) by (auto simp: logic_loop.simps succeeds_iff add.assoc)
  next
    case False
    then have "uint (dram_ps s) + 800 \<le> uint (logic_ps s)" using d by (simp add: word_less_def)
    with False Suc.prems show ?thesis by (simp add: logic_loop.simps)
  qed
qed

definition hmc_horizon :: "Config \<Rightarrow> nat \<Rightarrow> HMCMemorySystem \<Rightarrow> bool" where
  "hmc_horizon cfg n s = (clock_horizon cfg n (hm_clk s) \<and> uint (dram_ps s) + 800 * int n + 1600 < 2 ^ 64)"

lemma clock_horizon_Suc:
  assumes "clock_horizon cfg (Suc n) t"
  shows "no_wrap (Timing_new cfg) t" "clock_horizon cfg n (t + 1)"
proof -
  show "no_wrap (Timing_new cfg) t" using spec [OF assms [unfolded clock_horizon_def], of 0] by simp
  show "clock_horizon cfg n (t + 1)"
    unfolding clock_horizon_def
  proof (intro allI impI)
    fix k assume "k < n"
    then have "no_wrap (Timing_new cfg) (t + of_nat (Suc k))" using assms unfolding clock_horizon_def by blast
    then show "no_wrap (Timing_new cfg) (t + 1 + of_nat k)" by (simp add: add.assoc)
  qed
qed

text \<open>The first half of a clock cycle: the DRAM cycle, with a logic cycle around it when both clocks meet.\<close>

lemma first_half_ok:
  assumes "hmc_config cfg" "hmc_inv cfg {#} s" "no_wrap (Timing_new cfg) (hm_clk s)"
  shows "succeeds (if dram_ps s = logic_ps s then
              bindE (DrainResponses s) (\<lambda>(cbs, s1).
              bindE (DRAMClockTick cfg s1) (\<lambda>s2.
              bindE (DrainRequests s2) (\<lambda>s3. Inr (cbs, logic_step s3))))
            else bindE (DRAMClockTick cfg s) (\<lambda>s1. Inr ([], s1)))
    (\<lambda>(cbs, s'). hmc_inv cfg {#} s' \<and> hmc_outstanding s = mset cbs + hmc_outstanding s' \<and> hm_clk s' = hm_clk s + 1
      \<and> dram_ps s' = dram_ps s \<and> ps_per_dram s' = ps_per_dram s \<and> ps_per_logic s' = ps_per_logic s
      \<and> logic_ps s' = (if dram_ps s = logic_ps s then logic_ps s + ps_per_logic s else logic_ps s))"
proof (cases "dram_ps s = logic_ps s")
  case True
  from DrainResponses_ok [OF assms(2)] obtain cbs s1 where s1: "DrainResponses s = Inr (cbs, s1)" "hmc_inv cfg {#} s1"
    "hmc_frame s s1" "hmc_outstanding s = mset cbs + hmc_outstanding s1" by (auto simp: succeeds_iff)
  have "no_wrap (Timing_new cfg) (hm_clk s1)" using assms(3) s1(3) by (simp add: hmc_frame_def)
  from DRAMClockTick_ok [OF assms(1) s1(2) this] obtain s2 where s2: "DRAMClockTick cfg s1 = Inr s2" "hmc_inv cfg {#} s2"
    "hmc_outstanding s2 = hmc_outstanding s1" "hm_clk s2 = hm_clk s1 + 1" "same_ps s1 s2" by (auto simp: succeeds_iff)
  from DrainRequests_ok [OF s2(2)] obtain s3 where s3: "DrainRequests s2 = Inr s3" "hmc_inv cfg {#} s3"
    "hmc_outstanding s3 = hmc_outstanding s2" "hmc_frame s2 s3" by (auto simp: succeeds_iff unmoved_def)
  note st = logic_step_irrelevant [OF s3(2)]
  show ?thesis
    using True s1 s2 s3 st by (simp add: hmc_frame_def same_ps_def logic_step_def)
next
  case False
  from DRAMClockTick_ok [OF assms] show ?thesis using False by (auto simp: succeeds_iff same_ps_def)
qed

lemma HMC_ClockTick_ok:
  assumes "hmc_config cfg" "hmc_inv cfg {#} s" "ps_ok s" "hmc_horizon cfg (Suc n) s"
  shows "succeeds (HMC_ClockTick cfg s) (\<lambda>(cbs, s'). hmc_inv cfg {#} s' \<and> ps_ok s' \<and> hmc_horizon cfg n s'
    \<and> hmc_outstanding s = mset cbs + hmc_outstanding s')"
proof -
  have ps: "ps_per_dram s = 800" "0 < uint (ps_per_logic s)" "uint (ps_per_logic s) \<le> 800"
    "uint (dram_ps s) \<le> uint (logic_ps s)" "uint (logic_ps s) < uint (dram_ps s) + uint (ps_per_logic s)"
    using assms(3) by (simp_all add: ps_ok_def)
  have hz: "clock_horizon cfg (Suc n) (hm_clk s)" "uint (dram_ps s) + 800 * int n + 2400 < 2 ^ 64"
    using assms(4) by (simp_all add: hmc_horizon_def)
  note ch = clock_horizon_Suc [OF hz(1)]
  from first_half_ok [OF assms(1,2) ch(1)] obtain cbs s1 where
    s1: "(if dram_ps s = logic_ps s then
              bindE (DrainResponses s) (\<lambda>(cbs, s1).
              bindE (DRAMClockTick cfg s1) (\<lambda>s2.
              bindE (DrainRequests s2) (\<lambda>s3. Inr (cbs, logic_step s3))))
            else bindE (DRAMClockTick cfg s) (\<lambda>s1. Inr ([], s1))) = Inr (cbs, s1)"
      "hmc_inv cfg {#} s1" "hmc_outstanding s = mset cbs + hmc_outstanding s1" "hm_clk s1 = hm_clk s + 1"
      "dram_ps s1 = dram_ps s" "ps_per_dram s1 = ps_per_dram s" "ps_per_logic s1 = ps_per_logic s"
      "logic_ps s1 = (if dram_ps s = logic_ps s then logic_ps s + ps_per_logic s else logic_ps s)"
    unfolding succeeds_iff by fast
  have add: "uint (logic_ps s + ps_per_logic s) = uint (logic_ps s) + uint (ps_per_logic s)"
    by (rule uint_add_small) (use ps hz(2) in linarith)
  have lo: "uint (dram_ps s) \<le> uint (logic_ps s1)" "uint (logic_ps s1) < uint (dram_ps s) + 800 + uint (ps_per_logic s)"
    using ps add by (auto simp: s1(8))
  have "succeeds (logic_loop 801 s1) (\<lambda>(cbs, s'). hmc_inv cfg {#} s' \<and> hmc_outstanding s1 = mset cbs + hmc_outstanding s'
    \<and> hm_clk s' = hm_clk s1 \<and> dram_ps s' = dram_ps s1 \<and> ps_per_dram s' = 800 \<and> ps_per_logic s' = ps_per_logic s1
    \<and> uint (dram_ps s1) + 800 \<le> uint (logic_ps s') \<and> uint (logic_ps s') < uint (dram_ps s1) + 800 + uint (ps_per_logic s1))"
    by (rule logic_loop_ok [OF s1(2)]) (use ps lo hz(2) in \<open>simp_all add: s1(5-7)\<close>)
  then obtain cbs' s2 where s2: "logic_loop 801 s1 = Inr (cbs', s2)" "hmc_inv cfg {#} s2"
    "hmc_outstanding s1 = mset cbs' + hmc_outstanding s2" "hm_clk s2 = hm_clk s1" "dram_ps s2 = dram_ps s1" "ps_per_dram s2 = 800"
    "ps_per_logic s2 = ps_per_logic s1" "uint (dram_ps s1) + 800 \<le> uint (logic_ps s2)"
    "uint (logic_ps s2) < uint (dram_ps s1) + 800 + uint (ps_per_logic s1)"
    by (auto simp: succeeds_iff)
  let ?s = "s2\<lparr>dram_ps := dram_ps s2 + ps_per_dram s2\<rparr>"
  have d: "uint (dram_ps s + 800) = uint (dram_ps s) + 800" using uint_add_small [of "dram_ps s" 800] hz(2) by simp
  have "hmc_inv cfg {#} ?s" "hmc_outstanding ?s = hmc_outstanding s2"
    using s2(2) by (simp_all add: hmc_inv_def travelling_def hmc_outstanding_def)
  moreover have "ps_ok ?s" using ps s2 s1 d by (simp add: ps_ok_def)
  moreover have "hmc_horizon cfg n ?s" using ch(2) hz(2) s2(4-6) s1(4,5) d by (simp add: hmc_horizon_def)
  ultimately show ?thesis
    unfolding HMC_ClockTick_def s1(1) using s1(3) s2(1,3) by (simp add: add.assoc)
qed

lemma ages_ok_new: "ages_ok (replicate n 0) (replicate n [])" "ages_ok [0, 0, 0, 0] (replicate 4 [])"
  by (auto simp: ages_ok_def less_Suc_eq numeral_eq_Suc)

lemma HMCMemorySystem_new_ok:
  assumes "hmc_config cfg"
  shows "succeeds (HMCMemorySystem_new cfg) (\<lambda>s. hmc_inv cfg {#} s \<and> ps_ok s \<and> hm_clk s = 0 \<and> dram_ps s = 0 \<and> hmc_outstanding s = {#})"
proof -
  have cfg: "new_config cfg" "IsHMC cfg" "0 \<le> channels (dram cfg)" "0 < num_links (dram cfg)"
    using assms by (auto simp: hmc_config_def new_config_def ctl_config_def config_ok_def geometry_ok_def)
  obtain l where r: "SetClockRatio cfg = Inr (800, l)" "0 < uint l" "uint l \<le> 800"
    using assms by (auto simp: hmc_config_def succeeds_iff word_less_def word_le_def)
  obtain cs where cs: "new_controllers cfg (int_range (channels (dram cfg))) = Inr cs"
    "length cs = nat (channels (dram cfg))" "\<forall>c \<in> set cs. ctl_wf cfg c \<and> caps_ok cfg c \<and> ctl_clk c = 0 \<and> owed c = {#}"
    using new_controllers_ok [OF cfg(1), of "int_range (channels (dram cfg))"] by (auto simp: succeeds_iff)
  have z: "sum_list (map owed cs) = {#}" using cs(3) by (induction cs) auto
  have c: "concat (replicate n []) = []" for n by simp
  show ?thesis
    using cfg cs r z
    by (simp add: ages_ok_new HMCMemorySystem_new_def hmc_inv_def travelling_def vaults_ok_def ps_ok_def hmc_outstanding_def Let_def c)
qed

interpretation hmc: memory_backend "\<lambda>s. hmc_config cfg \<and> hmc_inv cfg {#} s \<and> ps_ok s" "hmc_horizon cfg"
  "\<lambda>a w s. Inr (HMC_WillAcceptTransaction a w s)" "HMC_AddTransaction cfg" "HMC_ClockTick cfg" hmc_outstanding
  for cfg
proof (unfold_locales, goal_cases)
  case (2 s a w n)
  then have "succeeds (HMC_AddTransaction cfg a w s) (inserted cfg {#} (a, w) s)"
    using HMC_AddTransaction_ok by simp
  with 2 show ?case by (auto simp: inserted_def hmc_frame_def ps_ok_def hmc_horizon_def elim!: succeeds_mono)
next
  case (3 s n)
  then show ?case using HMC_ClockTick_ok [of cfg s n] by (auto elim!: succeeds_mono)
qed simp

section \<open>Properties\<close>

text \<open>
  Claim C12. The cube as a whole: for any sequence of requests and clock cycles on a newly
  constructed cube, nothing aborts and no loop runs forever, and each accepted request leads to exactly one
  callback with its address and direction or is still travelling through the cube, as long as the clocks do not reach the
  end of their range.  The configuration is valid and has self refresh and HBM dual commands
  disabled (\<open>hmc_config\<close>).
\<close>

theorem hmc_answers_once:
  assumes "hmc_config cfg" "HMCMemorySystem_new cfg = Inr s" "hmc_horizon cfg n s"
    and "length (filter (\<lambda>x. x = Cycle) ops) \<le> n"
  shows "succeeds (backend_run (\<lambda>a w s. Inr (HMC_WillAcceptTransaction a w s)) (HMC_AddTransaction cfg) (HMC_ClockTick cfg) ops s)
    (\<lambda>(acc, cbs, s'). mset acc = mset cbs + hmc_outstanding s')"
proof -
  have "hmc_inv cfg {#} s" "ps_ok s" "hmc_outstanding s = {#}"
    using HMCMemorySystem_new_ok [OF assms(1)] assms(2) by simp_all
  with hmc.run_conserves [of cfg s n ops] assms(1,3,4) show ?thesis
    by (auto elim!: succeeds_mono)
qed

text \<open>A small cube: the parameters of the small configuration behind two links.\<close>

definition cube_config :: Config where
  "cube_config = small_config\<lparr>dram := (dram small_config)\<lparr>protocol := HMC, num_links := 2, link_width := 16, link_speed := 30000,
     xbar_queue_depth := 8, block_size := 64\<rparr>\<rparr>"

lemma cube_SetAddressMapping: "SetAddressMapping cube_config = Inr cube_config"
  by code_simp

lemma cube_SetClockRatio: "SetClockRatio cube_config = Inr (800, 266)"
  by code_simp

lemma cube_hmc_config: "hmc_config cube_config"
  using cube_SetAddressMapping cube_SetClockRatio
  by (simp add: hmc_config_def new_config_def ctl_config_def config_ok_def geometry_ok_def)
    (simp add: cube_config_def small_config_def lpddr5_config_def IsHMC_def)

lemma cube_no_wrap: "no_wrap (Timing_new cube_config) 0" "no_wrap (Timing_new cube_config) 1"
  by code_simp+

lemma cube_clock_horizon: "clock_horizon cube_config 2 0"
  unfolding clock_horizon_def
proof (intro allI impI)
  fix k :: nat assume "k < 2"
  then have "k = 0 \<or> k = 1" by linarith
  then show "no_wrap (Timing_new cube_config) (0 + of_nat k)" using cube_no_wrap by auto
qed

definition cube_ops :: "fe_op list" where
  "cube_ops = [Request 4096 True, Request 8192 False, Cycle, Request 4096 False, Cycle]"

theorem hmc_answers_once_witness:
  "succeeds (bindE (HMCMemorySystem_new cube_config)
      (backend_run (\<lambda>a w s. Inr (HMC_WillAcceptTransaction a w s)) (HMC_AddTransaction cube_config)
         (HMC_ClockTick cube_config) cube_ops))
    (\<lambda>(acc, cbs, s'). mset acc = mset cbs + hmc_outstanding s')"
proof -
  obtain s where s: "HMCMemorySystem_new cube_config = Inr s" "hm_clk s = 0" "dram_ps s = 0"
    using HMCMemorySystem_new_ok [OF cube_hmc_config] by (auto simp: succeeds_iff)
  have "hmc_horizon cube_config 2 s" using cube_clock_horizon by (simp add: hmc_horizon_def s(2,3))
  from hmc_answers_once [OF cube_hmc_config s(1) this, of cube_ops]
  show ?thesis by (simp add: s(1) cube_ops_def)
qed

text \<open>
  Arbitration is complete and fair within a cycle: every link or quad with a waiting packet (a positive age)
  is served exactly once per logic cycle, and no other is.
\<close>

theorem arbitration_serves_waiting_once:
  assumes "ages \<noteq> []"
  shows "succeeds (BuildAgeQueue clk ages)
    (\<lambda>q. distinct q \<and> set q = {i. 0 \<le> i \<and> i < int (length ages) \<and> ages ! nat i > 0})"
  by (rule BuildAgeQueue_ok [OF assms])

theorem arbitration_serves_waiting_once_witness:
  "succeeds (BuildAgeQueue 7 [3, 0, 1, 2])
    (\<lambda>q. distinct q \<and> set q = {i. 0 \<le> i \<and> i < int (length [3, 0, 1, 2 :: int]) \<and> [3, 0, 1, 2 :: int] ! nat i > 0})"
  by (rule arbitration_serves_waiting_once) simp

lemma age_insert_front: "\<forall>p \<in> set q. p < age \<Longrightarrow> age_insert age pos q = pos # q"
  by (cases q) auto

lemma age_fold_front:
  assumes "\<And>i. i \<in> set is \<Longrightarrow> P (f i) \<Longrightarrow> n \<le> g i" "\<And>i. f i < n" "\<forall>p \<in> set q0. p < (n :: int)"
  shows "fold (\<lambda>i q. if P (f i) then age_insert (g i) (f i) q else q) is q0 = rev (filter P (map f is)) @ q0"
  using assms(1,3)
proof (induction "is" arbitrary: q0)
  case (Cons i "is")
  show ?case
  proof (cases "P (f i)")
    case True
    then have "age_insert (g i) (f i) q0 = f i # q0" using Cons.prems by (intro age_insert_front) fastforce
    moreover have "\<forall>p \<in> set (f i # q0). p < n" using Cons.prems(2) assms(2) by simp
    ultimately show ?thesis using True Cons.IH [of "f i # q0"] Cons.prems(1) by simp
  next
    case False
    then show ?thesis using Cons by simp
  qed
qed simp

text \<open>
  The order of arbitration does not follow the ages: an age is compared with positions, not with
  ages, so once every waiting position is older than the number of positions, they are served in the
  reverse of the round-robin order whatever their ages are.
\<close>

theorem arbitration_ignores_age:
  assumes "ages \<noteq> []" "\<forall>a \<in> set ages. 0 < a \<longrightarrow> int (length ages) \<le> a"
  shows "BuildAgeQueue clk ages =
    Inr (rev (filter (\<lambda>i. 0 < ages ! nat i)
      (map (\<lambda>i. (i + uint (clk mod of_int (int (length ages)))) mod int (length ages)) (int_range (int (length ages))))))"
proof -
  let ?n = "int (length ages)"
  define k where "k = uint (clk mod of_int ?n)"
  have n: "0 < ?n" using assms(1) by simp
  have "fold (\<lambda>i q. if 0 < ages ! nat ((i + k) mod ?n) then age_insert (ages ! nat ((i + k) mod ?n)) ((i + k) mod ?n) q else q)
      (int_range ?n) [] = rev (filter (\<lambda>i. 0 < ages ! nat i) (map (\<lambda>i. (i + k) mod ?n) (int_range ?n))) @ []"
  proof (rule age_fold_front)
    fix i assume pos: "0 < ages ! nat ((i + k) mod ?n)"
    have "nat ((i + k) mod ?n) < length ages" using n by (simp add: nat_less_iff)
    then show "?n \<le> ages ! nat ((i + k) mod ?n)" using assms(2) pos nth_mem by blast
  qed (use n in simp_all)
  then show ?thesis using n unfolding BuildAgeQueue_def Let_def k_def [symmetric] by simp
qed

theorem arbitration_ignores_age_witness: "BuildAgeQueue 0 [9, 4, 5, 0] = Inr [2, 1, 0]"
  by (subst arbitration_ignores_age) (simp_all add: int_range_def upt_rec)

end
