(* ===== verification/Memory_System.thy ===== *)
theory Memory_System
  imports Hmc_Safety
begin

text \<open>
  \<^verbatim>\<open>DRAMsim3/src/memory_system.cc\<close>: the class that front ends use.  A memory system is a controller-per-channel system or a cube, chosen by the protocol of the
  configuration; it satisfies the interface \<open>memory_backend\<close> because both do.
\<close>

section \<open>The memory system\<close>

datatype DRAMSystem = JedecSystem JedecDRAMSystem | HmcSystem HMCMemorySystem

record MemorySystem =
  ms_config :: Config
  dram_system :: DRAMSystem

definition MemorySystem_new :: "ini \<Rightarrow> Config \<Rightarrow> MemorySystem res" where
  "MemorySystem_new r c0 =
     bindE (Config_new r c0) (\<lambda>cfg.
     if IsHMC cfg then bindE (HMCMemorySystem_new cfg) (\<lambda>s. Inr \<lparr>ms_config = cfg, dram_system = HmcSystem s\<rparr>)
     else bindE (JedecDRAMSystem_new cfg) (\<lambda>s. Inr \<lparr>ms_config = cfg, dram_system = JedecSystem s\<rparr>))"

definition MemorySystem_ClockTick :: "MemorySystem \<Rightarrow> (callback list \<times> MemorySystem) res" where
  "MemorySystem_ClockTick m =
     (case dram_system m of
        JedecSystem s \<Rightarrow> bindE (Jedec_ClockTick (ms_config m) s) (\<lambda>(cbs, s1). Inr (cbs, m\<lparr>dram_system := JedecSystem s1\<rparr>))
      | HmcSystem s \<Rightarrow> bindE (HMC_ClockTick (ms_config m) s) (\<lambda>(cbs, s1). Inr (cbs, m\<lparr>dram_system := HmcSystem s1\<rparr>)))"

definition GetBusBits :: "MemorySystem \<Rightarrow> int" where
  "GetBusBits m = bus_width (dram (ms_config m))"

definition GetBurstLength :: "MemorySystem \<Rightarrow> int" where
  "GetBurstLength m = BL (dram (ms_config m))"

definition GetQueueSize :: "MemorySystem \<Rightarrow> int" where
  "GetQueueSize m = trans_queue_size (sys (ms_config m))"

definition MemorySystem_GetChannel :: "u64 \<Rightarrow> MemorySystem \<Rightarrow> int" where
  "MemorySystem_GetChannel hex m = GetChannel (ms_config m) hex"

definition GetChannels :: "MemorySystem \<Rightarrow> int" where
  "GetChannels m = channels (dram (ms_config m))"

definition MemorySystem_WillAcceptTransaction :: "u64 \<Rightarrow> bool \<Rightarrow> MemorySystem \<Rightarrow> bool res" where
  "MemorySystem_WillAcceptTransaction hex is_wr m =
     (case dram_system m of
        JedecSystem s \<Rightarrow> Jedec_WillAcceptTransaction (ms_config m) hex is_wr s
      | HmcSystem s \<Rightarrow> Inr (HMC_WillAcceptTransaction hex is_wr s))"

definition MemorySystem_AddTransaction :: "u64 \<Rightarrow> bool \<Rightarrow> MemorySystem \<Rightarrow> (bool \<times> MemorySystem) res" where
  "MemorySystem_AddTransaction hex is_wr m =
     (case dram_system m of
        JedecSystem s \<Rightarrow> bindE (Jedec_AddTransaction (ms_config m) hex is_wr s) (\<lambda>(ok, s1).
          Inr (ok, m\<lparr>dram_system := JedecSystem s1\<rparr>))
      | HmcSystem s \<Rightarrow> bindE (HMC_AddTransaction (ms_config m) hex is_wr s) (\<lambda>(ok, s1).
          Inr (ok, m\<lparr>dram_system := HmcSystem s1\<rparr>)))"

text \<open>The functions of the base class work on the controllers of either system.\<close>

definition MemorySystem_PrintStats :: "MemorySystem \<Rightarrow> MemorySystem res" where
  "MemorySystem_PrintStats m =
     (case dram_system m of
        JedecSystem s \<Rightarrow> bindE (DRAMSystem_PrintStats s) (\<lambda>s1. Inr (m\<lparr>dram_system := JedecSystem s1\<rparr>))
      | HmcSystem s \<Rightarrow> bindE (map_res Controller_PrintFinalStats (vaults s)) (\<lambda>cs.
          Inr (m\<lparr>dram_system := HmcSystem (s\<lparr>vaults := cs\<rparr>)\<rparr>)))"

definition MemorySystem_ResetStats :: "MemorySystem \<Rightarrow> MemorySystem" where
  "MemorySystem_ResetStats m =
     (case dram_system m of
        JedecSystem s \<Rightarrow> m\<lparr>dram_system := JedecSystem (DRAMSystem_ResetStats s)\<rparr>
      | HmcSystem s \<Rightarrow> m\<lparr>dram_system := HmcSystem (s\<lparr>vaults := map Controller_ResetStats (vaults s)\<rparr>)\<rparr>)"

section \<open>The memory system keeps the interface\<close>

definition mem_valid :: "MemorySystem \<Rightarrow> bool" where
  "mem_valid m =
     (case dram_system m of
        JedecSystem s \<Rightarrow> jedec_config (ms_config m) \<and> jedec_wf (ms_config m) s
      | HmcSystem s \<Rightarrow> hmc_config (ms_config m) \<and> hmc_inv (ms_config m) {#} s \<and> ps_ok s)"

definition mem_horizon :: "nat \<Rightarrow> MemorySystem \<Rightarrow> bool" where
  "mem_horizon n m =
     (case dram_system m of
        JedecSystem s \<Rightarrow> jedec_horizon (ms_config m) n s
      | HmcSystem s \<Rightarrow> hmc_horizon (ms_config m) n s)"

definition mem_outstanding :: "MemorySystem \<Rightarrow> callback multiset" where
  "mem_outstanding m = (case dram_system m of JedecSystem s \<Rightarrow> jedec_outstanding s | HmcSystem s \<Rightarrow> hmc_outstanding s)"

lemmas mem_defs = mem_valid_def mem_horizon_def mem_outstanding_def MemorySystem_WillAcceptTransaction_def
  MemorySystem_AddTransaction_def MemorySystem_ClockTick_def

interpretation mem: memory_backend mem_valid mem_horizon
  MemorySystem_WillAcceptTransaction MemorySystem_AddTransaction MemorySystem_ClockTick mem_outstanding
proof (unfold_locales, goal_cases)
  case (1 m a w)
  then show ?case using jedec.accepts_returns by (auto simp: mem_defs split: DRAMSystem.splits)
next
  case (2 m a w n)
  show ?case
  proof (cases "dram_system m")
    case (JedecSystem s)
    then show ?thesis
      using 2 jedec.add_accepted [of "ms_config m" s a w n] by (auto simp: mem_defs succeeds_iff)
  next
    case (HmcSystem s)
    then show ?thesis
      using 2 hmc.add_accepted [of "ms_config m" s a w n] by (auto simp: mem_defs succeeds_iff)
  qed
next
  case (3 m n)
  show ?case
  proof (cases "dram_system m")
    case (JedecSystem s)
    then show ?thesis
      using 3 jedec.tick_conserves [of "ms_config m" s n] by (auto simp: mem_defs succeeds_iff)
  next
    case (HmcSystem s)
    then show ?thesis
      using 3 hmc.tick_conserves [of "ms_config m" s n] by (auto simp: mem_defs succeeds_iff)
  qed
qed

lemma mem_config_kept:
  "MemorySystem_AddTransaction a w m = Inr (ok, m') \<Longrightarrow> ms_config m' = ms_config m"
  "MemorySystem_ClockTick m = Inr (cbs, m') \<Longrightarrow> ms_config m' = ms_config m"
  by (auto simp: MemorySystem_AddTransaction_def MemorySystem_ClockTick_def bindE_def split: DRAMSystem.splits sum.splits prod.splits)

lemma MemorySystem_new_ok:
  assumes "Config_new r c0 = Inr cfg" "if IsHMC cfg then hmc_config cfg else jedec_config cfg"
  shows "succeeds (MemorySystem_new r c0) (\<lambda>m. mem_valid m \<and> ms_config m = cfg \<and> mem_outstanding m = {#})"
  using assms HMCMemorySystem_new_ok [of cfg] JedecDRAMSystem_new_ok [of cfg]
  by (auto simp: MemorySystem_new_def mem_valid_def mem_outstanding_def succeeds_iff split: if_splits)

section \<open>Offering a request\<close>

text \<open>What every front end does: ask whether a request will be accepted, and make it only then.\<close>

definition offer_to ::
    "(u64 \<Rightarrow> bool \<Rightarrow> 's \<Rightarrow> bool res) \<Rightarrow> (u64 \<Rightarrow> bool \<Rightarrow> 's \<Rightarrow> (bool \<times> 's) res) \<Rightarrow> u64 \<Rightarrow> bool \<Rightarrow> 's \<Rightarrow> (bool \<times> 's) res" where
  "offer_to accepts add a w s =
     bindE (accepts a w s) (\<lambda>ok.
     if ok then bindE (add a w s) (\<lambda>(r, s1). Inr (True, s1)) else Inr (False, s))"

abbreviation offer :: "u64 \<Rightarrow> bool \<Rightarrow> MemorySystem \<Rightarrow> (bool \<times> MemorySystem) res" where
  "offer \<equiv> offer_to MemorySystem_WillAcceptTransaction MemorySystem_AddTransaction"

context memory_backend
begin

lemma offer_ok:
  assumes "valid s" "horizon n s"
  shows "succeeds (offer_to accepts add a w s) (\<lambda>(ok, s'). valid s' \<and> horizon n s'
    \<and> outstanding s' = outstanding s + (if ok then {#(a, w)#} else {#}))"
proof -
  obtain b where b: "accepts a w s = Inr b" using accepts_returns [OF assms(1)] by blast
  show ?thesis
  proof (cases b)
    case True
    then show ?thesis
      using add_accepted [OF assms(1) _ assms(2), of a w] b by (auto simp: offer_to_def succeeds_iff)
  qed (use assms b in \<open>simp add: offer_to_def\<close>)
qed

end

section \<open>A small memory system\<close>

definition small_mem :: "MemorySystem res" where
  "small_mem = bindE (JedecDRAMSystem_new small_config) (\<lambda>s. Inr \<lparr>ms_config = small_config, dram_system = JedecSystem s\<rparr>)"

lemma small_mem_ok:
  "succeeds small_mem (\<lambda>m. mem_valid m \<and> mem_horizon 3 m \<and> ms_config m = small_config \<and> mem_outstanding m = {#})"
proof -
  obtain s where s: "JedecDRAMSystem_new small_config = Inr s" "jedec_wf small_config s" "jd_clk s = 0" "jedec_outstanding s = {#}"
    using JedecDRAMSystem_new_ok [OF small_jedec_config] by (auto simp: succeeds_iff)
  have "jedec_horizon small_config 3 s" using small_horizon by (simp add: jedec_horizon_def s(3))
  then show ?thesis
    using s small_jedec_config by (simp add: small_mem_def mem_valid_def mem_horizon_def mem_outstanding_def)
qed

end
