(* ===== verification/Front_Ends.thy ===== *)
theory Front_Ends
  imports Memory_System
begin

text \<open>
  \<^verbatim>\<open>DRAMsim3/src/cpu.h\<close>, \<^verbatim>\<open>cpu.cc\<close> and the loop of \<^verbatim>\<open>main.cc\<close>: front ends that offer random requests, the
  accesses of a stream kernel, or the requests of a trace file to a memory system, once per clock
  cycle.
\<close>

section \<open>Front ends\<close>

text \<open>
  The random generator \<^verbatim>\<open>std::mt19937_64\<close> is a parameter: a function from its state to a value and the
  next state.  The front ends ignore the callbacks; a clock cycle returns those it received.
\<close>

record 'g RandomCPU =
  rc_mem :: MemorySystem
  rc_clk :: u64
  last_addr :: u64
  last_write :: bool
  rc_gen :: 'g
  rc_get_next :: bool

definition RandomCPU_ClockTick :: "('g \<Rightarrow> u64 \<times> 'g) \<Rightarrow> 'g RandomCPU \<Rightarrow> (callback list \<times> 'g RandomCPU) res" where
  "RandomCPU_ClockTick gen c =
     bindE (MemorySystem_ClockTick (rc_mem c)) (\<lambda>(cbs, m1).
     let (a, w, g) =
       (if rc_get_next c then
          (case gen (rc_gen c) of (x, g1) \<Rightarrow> case gen g1 of (y, g2) \<Rightarrow> (x, y mod 3 = 0, g2))
        else (last_addr c, last_write c, rc_gen c)) in
     bindE (offer a w m1) (\<lambda>(ok, m2).
     Inr (cbs, \<lparr>rc_mem = m2, rc_clk = rc_clk c + 1, last_addr = a, last_write = w, rc_gen = g, rc_get_next = ok\<rparr>)))"

record 'g StreamCPU =
  sc_mem :: MemorySystem
  sc_clk :: u64
  addr_a :: u64
  addr_b :: u64
  addr_c :: u64
  stream_offset :: u64
  inserted_a :: bool
  inserted_b :: bool
  inserted_c :: bool
  sc_gen :: 'g

abbreviation array_size :: u64 where "array_size \<equiv> 2097152"
abbreviation stride :: u64 where "stride \<equiv> 64"

definition next_arrays :: "('g \<Rightarrow> u64 \<times> 'g) \<Rightarrow> 'g StreamCPU \<Rightarrow> 'g StreamCPU" where
  "next_arrays gen c =
     (if stream_offset c \<ge> array_size \<or> sc_clk c = 0 then
        (case gen (sc_gen c) of (a, g1) \<Rightarrow> case gen g1 of (b, g2) \<Rightarrow> case gen g2 of (d, g3) \<Rightarrow>
           c\<lparr>addr_a := a, addr_b := b, addr_c := d, sc_gen := g3, stream_offset := 0\<rparr>)
      else c)"

text \<open>One of the three blocks \<^verbatim>\<open>if (!inserted && WillAcceptTransaction(...))\<close>.\<close>

definition stream_offer :: "bool \<Rightarrow> u64 \<Rightarrow> bool \<Rightarrow> MemorySystem \<Rightarrow> (bool \<times> MemorySystem) res" where
  "stream_offer already a w m = (if \<not> already then offer a w m else Inr (True, m))"

definition StreamCPU_ClockTick :: "('g \<Rightarrow> u64 \<times> 'g) \<Rightarrow> 'g StreamCPU \<Rightarrow> (callback list \<times> 'g StreamCPU) res" where
  "StreamCPU_ClockTick gen c0 =
     bindE (MemorySystem_ClockTick (sc_mem c0)) (\<lambda>(cbs, m0).
     let c = next_arrays gen c0 in
     bindE (stream_offer (inserted_a c) (addr_a c + stream_offset c) False m0) (\<lambda>(a, m1).
     bindE (stream_offer (inserted_b c) (addr_b c + stream_offset c) False m1) (\<lambda>(b, m2).
     bindE (stream_offer (inserted_c c) (addr_c c + stream_offset c) True m2) (\<lambda>(d, m3).
     let c1 = c\<lparr>sc_mem := m3, inserted_a := a, inserted_b := b, inserted_c := d\<rparr>;
         c2 = (if a \<and> b \<and> d then
                 c1\<lparr>stream_offset := stream_offset c1 + stride, inserted_a := False, inserted_b := False, inserted_c := False\<rparr>
               else c1) in
     Inr (cbs, c2\<lparr>sc_clk := sc_clk c2 + 1\<rparr>)))))"

text \<open>
  The trace file: the records that are not read yet (address, operation, cycle), whether white space
  follows the last one, and the end-of-file bit of the stream, which is set by the read that runs
  into the end of the file.  A read that finds no record leaves the address and the cycle
  as they were; the operation it then has is the empty string.
\<close>

record trace_stream =
  ts_records :: "(u64 \<times> string \<times> u64) list"
  ts_newline :: bool
  ts_eof :: bool

definition trace_write_types :: "string list" where
  "trace_write_types = [''WRITE'', ''write'', ''P_MEM_WR'', ''BOFF'']"

definition read_transaction :: "Transaction \<Rightarrow> trace_stream \<Rightarrow> Transaction \<times> trace_stream" where
  "read_transaction t f =
     (case ts_records f of
        [] \<Rightarrow> (t\<lparr>is_write := ([] \<in> set trace_write_types)\<rparr>, f\<lparr>ts_eof := True\<rparr>)
      | (a, mem_op, cycle) # rs \<Rightarrow>
          (t\<lparr>tr_addr := a, is_write := (mem_op \<in> set trace_write_types), added_cycle := cycle\<rparr>,
           f\<lparr>ts_records := rs, ts_eof := (rs = [] \<and> \<not> ts_newline f)\<rparr>))"

record TraceBasedCPU =
  tc_mem :: MemorySystem
  tc_clk :: u64
  trace_file :: trace_stream
  tc_trans :: Transaction
  tc_get_next :: bool

definition TraceBasedCPU_new :: "MemorySystem \<Rightarrow> trace_stream option \<Rightarrow> Transaction \<Rightarrow> TraceBasedCPU res" where
  "TraceBasedCPU_new m file t0 =
     (case file of
        None \<Rightarrow> Inl (AbruptExit ''cpu.cc'' 69)
      | Some f \<Rightarrow> Inr \<lparr>tc_mem = m, tc_clk = 0, trace_file = f, tc_trans = t0, tc_get_next = True\<rparr>)"

definition TraceBasedCPU_ClockTick :: "TraceBasedCPU \<Rightarrow> (callback list \<times> TraceBasedCPU) res" where
  "TraceBasedCPU_ClockTick c =
     bindE (MemorySystem_ClockTick (tc_mem c)) (\<lambda>(cbs, m1).
     bindE (if \<not> ts_eof (trace_file c) then
              (let (t, f) = (if tc_get_next c then read_transaction (tc_trans c) (trace_file c)
                             else (tc_trans c, trace_file c));
                   c1 = c\<lparr>tc_mem := m1, tc_trans := t, trace_file := f, tc_get_next := False\<rparr> in
               if added_cycle t \<le> tc_clk c then
                 bindE (offer (tr_addr t) (is_write t) m1) (\<lambda>(ok, m2).
                 Inr (c1\<lparr>tc_mem := m2, tc_get_next := ok\<rparr>))
               else Inr c1)
            else Inr (c\<lparr>tc_mem := m1\<rparr>)) (\<lambda>c2.
     Inr (cbs, c2\<lparr>tc_clk := tc_clk c2 + 1\<rparr>)))"

text \<open>The loop of \<^verbatim>\<open>main\<close> over a number of cycles.\<close>

fun main_loop :: "('c \<Rightarrow> (callback list \<times> 'c) res) \<Rightarrow> nat \<Rightarrow> 'c \<Rightarrow> (callback list \<times> 'c) res" where
  "main_loop tick 0 c = Inr ([], c)"
| "main_loop tick (Suc n) c =
     bindE (tick c) (\<lambda>(cbs, c1). bindE (main_loop tick n c1) (\<lambda>(cbs', c2). Inr (cbs @ cbs', c2)))"

section \<open>A front end never stops the simulation\<close>

lemma main_loop_ok:
  assumes "\<And>n c. I (Suc n) c \<Longrightarrow> succeeds (tick c) (\<lambda>(cbs, c'). I n c')" "I n c"
  shows "succeeds (main_loop tick n c) (\<lambda>(cbs, c'). I 0 c')"
  using assms(2)
proof (induction n arbitrary: c)
  case (Suc n)
  obtain cbs c1 where "tick c = Inr (cbs, c1)" "I n c1" using assms(1) [OF Suc.prems] by (auto simp: succeeds_iff)
  then show ?case using Suc.IH [of c1] by (auto simp: succeeds_iff)
qed simp

definition mem_ready :: "nat \<Rightarrow> MemorySystem \<Rightarrow> bool" where
  "mem_ready n m = (mem_valid m \<and> mem_horizon n m)"

lemma mem_tick_ok:
  "mem_ready (Suc n) m \<Longrightarrow> succeeds (MemorySystem_ClockTick m) (\<lambda>(cbs, m').
     mem_ready n m' \<and> mem_outstanding m = mset cbs + mem_outstanding m')"
  using mem.tick_conserves [of m n] by (auto simp: mem_ready_def)

lemma mem_offer_ok:
  "mem_ready n m \<Longrightarrow> succeeds (offer a w m) (\<lambda>(ok, m').
     mem_ready n m' \<and> mem_outstanding m' = mem_outstanding m + (if ok then {#(a, w)#} else {#}))"
  using mem.offer_ok [of m n a w] by (auto simp: mem_ready_def elim!: succeeds_mono)

lemma RandomCPU_ClockTick_ok:
  assumes "mem_ready (Suc n) (rc_mem c)"
  shows "succeeds (RandomCPU_ClockTick gen c) (\<lambda>(cbs, c'). mem_ready n (rc_mem c')
    \<and> mem_outstanding (rc_mem c) + (if rc_get_next c' then {#(last_addr c', last_write c')#} else {#})
        = mset cbs + mem_outstanding (rc_mem c')
    \<and> (\<not> rc_get_next c \<longrightarrow> last_addr c' = last_addr c \<and> last_write c' = last_write c))"
proof -
  obtain cbs m1 where m1: "MemorySystem_ClockTick (rc_mem c) = Inr (cbs, m1)" "mem_ready n m1"
    "mem_outstanding (rc_mem c) = mset cbs + mem_outstanding m1"
    using mem_tick_ok [OF assms] by (auto simp: succeeds_iff)
  obtain a w g where g: "(if rc_get_next c then
          (case gen (rc_gen c) of (x, g1) \<Rightarrow> case gen g1 of (y, g2) \<Rightarrow> (x, y mod 3 = 0, g2))
        else (last_addr c, last_write c, rc_gen c)) = (a, w, g)"
    by (rule prod_cases3)
  have keep: "\<not> rc_get_next c \<longrightarrow> a = last_addr c \<and> w = last_write c" using g by auto
  obtain ok m2 where m2: "offer a w m1 = Inr (ok, m2)" "mem_ready n m2"
    "mem_outstanding m2 = mem_outstanding m1 + (if ok then {#(a, w)#} else {#})"
    using mem_offer_ok [OF m1(2), of a w] by (auto simp: succeeds_iff)
  have "RandomCPU_ClockTick gen c =
      Inr (cbs, \<lparr>rc_mem = m2, rc_clk = rc_clk c + 1, last_addr = a, last_write = w, rc_gen = g, rc_get_next = ok\<rparr>)"
    unfolding RandomCPU_ClockTick_def m1(1) bindE_Inr prod.case g Let_def m2(1) ..
  then show ?thesis using m1(3) m2(2,3) keep by simp
qed

text \<open>The accesses of the current element of the stream that are still to be made.\<close>

definition stream_todo :: "'g StreamCPU \<Rightarrow> callback multiset" where
  "stream_todo c =
     (if inserted_a c then {#} else {#(addr_a c + stream_offset c, False)#})
   + (if inserted_b c then {#} else {#(addr_b c + stream_offset c, False)#})
   + (if inserted_c c then {#} else {#(addr_c c + stream_offset c, True)#})"

definition same_element :: "'g StreamCPU \<Rightarrow> 'g StreamCPU \<Rightarrow> bool" where
  "same_element c c' = (addr_a c' = addr_a c \<and> addr_b c' = addr_b c \<and> addr_c c' = addr_c c \<and> stream_offset c' = stream_offset c)"

definition stream_step :: "'g StreamCPU \<Rightarrow> callback multiset \<Rightarrow> 'g StreamCPU \<Rightarrow> bool" where
  "stream_step c acc c' =
     (acc \<subseteq># stream_todo c
      \<and> (if acc = stream_todo c
         then same_element (c\<lparr>stream_offset := stream_offset c + stride\<rparr>) c'
              \<and> stream_todo c' = {#(addr_a c' + stream_offset c', False), (addr_b c' + stream_offset c', False),
                                  (addr_c c' + stream_offset c', True)#}
         else same_element c c' \<and> stream_todo c' = stream_todo c - acc))"

lemma stream_offer_ok:
  "mem_ready n m \<Longrightarrow> succeeds (stream_offer already a w m) (\<lambda>(ok, m').
     mem_ready n m' \<and> (already \<longrightarrow> ok)
     \<and> mem_outstanding m' = mem_outstanding m + (if ok \<and> \<not> already then {#(a, w)#} else {#}))"
  using mem_offer_ok [of n m a w] by (cases already) (auto simp: stream_offer_def elim!: succeeds_mono)

lemma next_arrays_keeps [simp]:
  "sc_mem (next_arrays gen c) = sc_mem c" "inserted_a (next_arrays gen c) = inserted_a c"
  "inserted_b (next_arrays gen c) = inserted_b c" "inserted_c (next_arrays gen c) = inserted_c c"
  by (simp_all add: next_arrays_def split: prod.splits)

lemma stream_flags_step:
  fixes c :: "'g StreamCPU"
  assumes "inserted_a c \<longrightarrow> a" "inserted_b c \<longrightarrow> b" "inserted_c c \<longrightarrow> d"
  defines "acc \<equiv> (if a \<and> \<not> inserted_a c then {#(addr_a c + stream_offset c, False)#} else {#})
     + (if b \<and> \<not> inserted_b c then {#(addr_b c + stream_offset c, False)#} else {#})
     + (if d \<and> \<not> inserted_c c then {#(addr_c c + stream_offset c, True)#} else {#})"
  shows "stream_step c acc (if a \<and> b \<and> d then c\<lparr>sc_mem := m, inserted_a := False, inserted_b := False, inserted_c := False,
             stream_offset := stream_offset c + stride, sc_clk := k\<rparr>
           else c\<lparr>sc_mem := m, inserted_a := a, inserted_b := b, inserted_c := d, sc_clk := k\<rparr>)"
  using assms by (cases a; cases b; cases d) (auto simp: stream_step_def stream_todo_def same_element_def ac_simps)

lemma StreamCPU_ClockTick_ok:
  assumes "mem_ready (Suc n) (sc_mem c)"
  shows "succeeds (StreamCPU_ClockTick gen c) (\<lambda>(cbs, c'). mem_ready n (sc_mem c')
    \<and> (\<exists>acc. stream_step (next_arrays gen c) acc c' \<and> mem_outstanding (sc_mem c) + acc = mset cbs + mem_outstanding (sc_mem c')))"
proof -
  let ?c = "next_arrays gen c"
  obtain cbs m0 where m0: "MemorySystem_ClockTick (sc_mem c) = Inr (cbs, m0)" "mem_ready n m0"
    "mem_outstanding (sc_mem c) = mset cbs + mem_outstanding m0"
    using mem_tick_ok [OF assms] by (auto simp: succeeds_iff)
  obtain a m1 where m1: "stream_offer (inserted_a ?c) (addr_a ?c + stream_offset ?c) False m0 = Inr (a, m1)" "mem_ready n m1"
    "inserted_a ?c \<longrightarrow> a" "mem_outstanding m1 = mem_outstanding m0 + (if a \<and> \<not> inserted_a ?c then {#(addr_a ?c + stream_offset ?c, False)#} else {#})"
    using stream_offer_ok [OF m0(2), of "inserted_a ?c" "addr_a ?c + stream_offset ?c" False] by (auto simp: succeeds_iff)
  obtain b m2 where m2: "stream_offer (inserted_b ?c) (addr_b ?c + stream_offset ?c) False m1 = Inr (b, m2)" "mem_ready n m2"
    "inserted_b ?c \<longrightarrow> b" "mem_outstanding m2 = mem_outstanding m1 + (if b \<and> \<not> inserted_b ?c then {#(addr_b ?c + stream_offset ?c, False)#} else {#})"
    using stream_offer_ok [OF m1(2), of "inserted_b ?c" "addr_b ?c + stream_offset ?c" False] by (auto simp: succeeds_iff)
  obtain d m3 where m3: "stream_offer (inserted_c ?c) (addr_c ?c + stream_offset ?c) True m2 = Inr (d, m3)" "mem_ready n m3"
    "inserted_c ?c \<longrightarrow> d" "mem_outstanding m3 = mem_outstanding m2 + (if d \<and> \<not> inserted_c ?c then {#(addr_c ?c + stream_offset ?c, True)#} else {#})"
    using stream_offer_ok [OF m2(2), of "inserted_c ?c" "addr_c ?c + stream_offset ?c" True] by (auto simp: succeeds_iff)
  define c' where "c' = (if a \<and> b \<and> d then ?c\<lparr>sc_mem := m3, inserted_a := False, inserted_b := False, inserted_c := False,
             stream_offset := stream_offset ?c + stride, sc_clk := sc_clk ?c + 1\<rparr>
           else ?c\<lparr>sc_mem := m3, inserted_a := a, inserted_b := b, inserted_c := d, sc_clk := sc_clk ?c + 1\<rparr>)"
  define acc where "acc = (if a \<and> \<not> inserted_a ?c then {#(addr_a ?c + stream_offset ?c, False)#} else {#})
     + (if b \<and> \<not> inserted_b ?c then {#(addr_b ?c + stream_offset ?c, False)#} else {#})
     + (if d \<and> \<not> inserted_c ?c then {#(addr_c ?c + stream_offset ?c, True)#} else {#})"
  have tick: "StreamCPU_ClockTick gen c = Inr (cbs, c')"
    unfolding StreamCPU_ClockTick_def m0(1) Let_def bindE_Inr prod.case m1(1) m2(1) m3(1) c'_def by simp
  have step: "stream_step ?c acc c'"
    unfolding acc_def c'_def by (rule stream_flags_step [OF m1(3) m2(3) m3(3)])
  have out: "mem_outstanding m3 = mem_outstanding m0 + acc"
    unfolding acc_def m3(4) m2(4) m1(4) by (simp only: add.assoc)
  have mem: "sc_mem c' = m3" by (simp add: c'_def)
  have "mem_outstanding (sc_mem c) + acc = mset cbs + mem_outstanding (sc_mem c')"
    unfolding m0(3) mem out by (simp only: add.assoc)
  with step m3(2) mem show ?thesis unfolding tick by auto
qed

section \<open>Replay of a trace\<close>

text \<open>The request that a cycle has made, with the clock at which it was made.\<close>

definition trace_issued :: "TraceBasedCPU \<Rightarrow> TraceBasedCPU \<Rightarrow> (u64 \<times> callback) list" where
  "trace_issued c c' =
     (if \<not> ts_eof (trace_file c) \<and> tc_get_next c' then [(tc_clk c, tr_addr (tc_trans c'), is_write (tc_trans c'))] else [])"

fun trace_log :: "nat \<Rightarrow> TraceBasedCPU \<Rightarrow> (u64 \<times> callback) list res" where
  "trace_log 0 c = Inr []"
| "trace_log (Suc n) c =
     bindE (TraceBasedCPU_ClockTick c) (\<lambda>(cbs, c'). bindE (trace_log n c') (\<lambda>l. Inr (trace_issued c c' @ l)))"

text \<open>The requests that are still to come, with their cycles.\<close>

definition record_request :: "u64 \<times> string \<times> u64 \<Rightarrow> u64 \<times> callback" where
  "record_request r = (case r of (a, mem_op, cycle) \<Rightarrow> (cycle, a, mem_op \<in> set trace_write_types))"

definition current_request :: "Transaction \<Rightarrow> u64 \<times> callback" where
  "current_request t = (added_cycle t, tr_addr t, is_write t)"

definition final_read :: "u64 \<times> callback \<Rightarrow> u64 \<times> callback" where
  "final_read r = (fst r, fst (snd r), False)"

definition trace_rest :: "TraceBasedCPU \<Rightarrow> (u64 \<times> callback) list" where
  "trace_rest c =
     (let rs = map record_request (ts_records (trace_file c)) in
      if ts_eof (trace_file c) then []
      else (if tc_get_next c then [] else [current_request (tc_trans c)]) @ rs
           @ (if ts_newline (trace_file c) then [final_read (last (current_request (tc_trans c) # rs))] else []))"

definition trace_ok :: "TraceBasedCPU \<Rightarrow> bool" where
  "trace_ok c = (ts_eof (trace_file c) \<or> ts_records (trace_file c) \<noteq> [] \<or> ts_newline (trace_file c))"

definition made_in_order :: "(u64 \<times> callback) list \<Rightarrow> (u64 \<times> callback) list \<Rightarrow> bool" where
  "made_in_order l es =
     list_all2 (\<lambda>made due. snd made = snd due \<and> fst due \<le> fst made) l (take (length l) es)"

lemma made_in_order_Nil [simp]: "made_in_order [] es"
  by (simp add: made_in_order_def)

lemma made_in_order_Nil2 [simp]: "made_in_order l [] = (l = [])"
  by (simp add: made_in_order_def)

lemma made_in_order_Cons [simp]:
  "made_in_order (x # l) (e # es) = (snd x = snd e \<and> fst e \<le> fst x \<and> made_in_order l es)"
  by (simp add: made_in_order_def)

lemma trace_read_step:
  assumes "\<not> ts_eof (trace_file c)" "trace_ok c"
    and "(if tc_get_next c then read_transaction (tc_trans c) (trace_file c) else (tc_trans c, trace_file c)) = (t, f)"
  shows "made_in_order l (trace_rest (c\<lparr>tc_mem := m, tc_trans := t, trace_file := f, tc_get_next := False, tc_clk := k\<rparr>)) \<Longrightarrow>
      made_in_order l (trace_rest c)"
    and "added_cycle t \<le> i \<Longrightarrow>
      made_in_order l (trace_rest (c\<lparr>tc_mem := m, tc_trans := t, trace_file := f, tc_get_next := True, tc_clk := k\<rparr>)) \<Longrightarrow>
      made_in_order ((i, tr_addr t, is_write t) # l) (trace_rest c)"
    and "trace_ok (c\<lparr>tc_mem := m, tc_trans := t, trace_file := f, tc_get_next := b, tc_clk := k\<rparr>)"
proof -
  consider (same) "\<not> tc_get_next c" "t = tc_trans c" "f = trace_file c"
    | (none) "tc_get_next c" "ts_records (trace_file c) = []" "ts_newline (trace_file c)"
        "t = (tc_trans c)\<lparr>is_write := False\<rparr>" "f = (trace_file c)\<lparr>ts_eof := True\<rparr>"
    | (more) a mo cy rs where "tc_get_next c" "ts_records (trace_file c) = (a, mo, cy) # rs"
        "t = (tc_trans c)\<lparr>tr_addr := a, is_write := (mo \<in> set trace_write_types), added_cycle := cy\<rparr>"
        "f = (trace_file c)\<lparr>ts_records := rs, ts_eof := (rs = [] \<and> \<not> ts_newline (trace_file c))\<rparr>"
    using assms by (cases "ts_records (trace_file c)")
      (auto simp: read_transaction_def trace_write_types_def trace_ok_def split: if_splits)
  note cs = this
  show "made_in_order l (trace_rest (c\<lparr>tc_mem := m, tc_trans := t, trace_file := f, tc_get_next := False, tc_clk := k\<rparr>)) \<Longrightarrow>
      made_in_order l (trace_rest c)"
    by (cases rule: cs) (use assms(1) in \<open>auto simp: trace_rest_def current_request_def record_request_def final_read_def Let_def split: if_splits\<close>)
  show "added_cycle t \<le> i \<Longrightarrow>
      made_in_order l (trace_rest (c\<lparr>tc_mem := m, tc_trans := t, trace_file := f, tc_get_next := True, tc_clk := k\<rparr>)) \<Longrightarrow>
      made_in_order ((i, tr_addr t, is_write t) # l) (trace_rest c)"
    by (cases rule: cs) (use assms(1) in \<open>auto simp: trace_rest_def current_request_def record_request_def final_read_def Let_def split: if_splits\<close>)
  show "trace_ok (c\<lparr>tc_mem := m, tc_trans := t, trace_file := f, tc_get_next := b, tc_clk := k\<rparr>)"
    by (cases rule: cs) (use assms(1,2) in \<open>auto simp: trace_ok_def\<close>)
qed

lemma TraceBasedCPU_ClockTick_ok:
  assumes "mem_ready (Suc n) (tc_mem c)" "trace_ok c"
  shows "succeeds (TraceBasedCPU_ClockTick c) (\<lambda>(cbs, c'). mem_ready n (tc_mem c') \<and> trace_ok c'
    \<and> mem_outstanding (tc_mem c) + mset (map snd (trace_issued c c')) = mset cbs + mem_outstanding (tc_mem c')
    \<and> (\<forall>l. made_in_order l (trace_rest c') \<longrightarrow> made_in_order (trace_issued c c' @ l) (trace_rest c)))"
proof -
  obtain cbs m1 where m1: "MemorySystem_ClockTick (tc_mem c) = Inr (cbs, m1)" "mem_ready n m1"
    "mem_outstanding (tc_mem c) = mset cbs + mem_outstanding m1"
    using mem_tick_ok [OF assms(1)] by (auto simp: succeeds_iff)
  show ?thesis
  proof (cases "ts_eof (trace_file c)")
    case True
    then show ?thesis
      using m1 by (simp add: TraceBasedCPU_ClockTick_def trace_ok_def trace_issued_def trace_rest_def)
  next
    case False
    obtain t f where tf: "(if tc_get_next c then read_transaction (tc_trans c) (trace_file c)
        else (tc_trans c, trace_file c)) = (t, f)" by (rule prod.exhaust)
    let ?c1 = "\<lambda>m ok. c\<lparr>tc_mem := m, tc_trans := t, trace_file := f, tc_get_next := ok, tc_clk := tc_clk c + 1\<rparr>"
    note wait = trace_read_step(1) [OF False assms(2) tf] and issued = trace_read_step(2) [OF False assms(2) tf]
      and ok = trace_read_step(3) [OF False assms(2) tf]
    show ?thesis
    proof (cases "added_cycle t \<le> tc_clk c")
      case True
      obtain b m2 where m2: "offer (tr_addr t) (is_write t) m1 = Inr (b, m2)" "mem_ready n m2"
        "mem_outstanding m2 = mem_outstanding m1 + (if b then {#(tr_addr t, is_write t)#} else {#})"
        using mem_offer_ok [OF m1(2), of "tr_addr t" "is_write t"] by (auto simp: succeeds_iff)
      have "TraceBasedCPU_ClockTick c = Inr (cbs, ?c1 m2 b)"
        unfolding TraceBasedCPU_ClockTick_def m1(1) bindE_Inr prod.case tf Let_def using False True m2(1) by simp
      then show ?thesis
        using m1(3) m2(2,3) ok [where m = m2 and b = b] wait issued [OF True] False by (cases b) (auto simp: trace_issued_def)
    next
      case late: False
      have "TraceBasedCPU_ClockTick c = Inr (cbs, ?c1 m1 False)"
        unfolding TraceBasedCPU_ClockTick_def m1(1) bindE_Inr prod.case tf Let_def using False late by simp
      then show ?thesis using m1(2,3) ok [where m = m1 and b = False] wait by (auto simp: trace_issued_def)
    qed
  qed
qed

lemma trace_log_ok:
  assumes "mem_ready n (tc_mem c)" "trace_ok c"
  shows "succeeds (trace_log n c) (\<lambda>l. made_in_order l (trace_rest c))"
  using assms
proof (induction n arbitrary: c)
  case (Suc n)
  from TraceBasedCPU_ClockTick_ok [OF Suc.prems] obtain cbs c' where
    c': "TraceBasedCPU_ClockTick c = Inr (cbs, c')" "mem_ready n (tc_mem c')" "trace_ok c'"
      "\<forall>l. made_in_order l (trace_rest c') \<longrightarrow> made_in_order (trace_issued c c' @ l) (trace_rest c)"
    by (auto simp: succeeds_iff)
  from Suc.IH [OF c'(2,3)] obtain l where "trace_log n c' = Inr l" "made_in_order l (trace_rest c')"
    by (auto simp: succeeds_iff)
  then show ?case using c'(1,4) by simp
qed simp

section \<open>Properties\<close>

lemma small_memory: "succeeds small_mem (mem_ready 3)"
  by (rule succeeds_mono [OF small_mem_ok]) (simp add: mem_ready_def)

text \<open>
  Claim C34. A simulation runs for as many cycles as are asked for: whatever values the random generator yields and
  whatever the trace file holds, no cycle of the random, the stream or the trace front end on a
  valid memory system (self refresh and HBM dual commands disabled) aborts, as long as the clock
  does not reach the end of its range.
\<close>

theorem simulation_never_aborts:
  assumes "mem_ready n m" "trace_ok tc"
  shows "succeeds (main_loop (RandomCPU_ClockTick gen) n (rc\<lparr>rc_mem := m\<rparr>)) (\<lambda>(cbs, c). mem_valid (rc_mem c))
    \<and> succeeds (main_loop (StreamCPU_ClockTick gen) n (sc\<lparr>sc_mem := m\<rparr>)) (\<lambda>(cbs, c). mem_valid (sc_mem c))
    \<and> succeeds (main_loop TraceBasedCPU_ClockTick n (tc\<lparr>tc_mem := m\<rparr>)) (\<lambda>(cbs, c). mem_valid (tc_mem c))"
proof (intro conjI)
  have "succeeds (main_loop (RandomCPU_ClockTick gen) n (rc\<lparr>rc_mem := m\<rparr>)) (\<lambda>(cbs, c). mem_ready 0 (rc_mem c))"
    by (rule main_loop_ok [where I = "\<lambda>n c. mem_ready n (rc_mem c)"], rule succeeds_mono, rule RandomCPU_ClockTick_ok)
      (use assms(1) in auto)
  then show "succeeds (main_loop (RandomCPU_ClockTick gen) n (rc\<lparr>rc_mem := m\<rparr>)) (\<lambda>(cbs, c). mem_valid (rc_mem c))"
    by (rule succeeds_mono) (auto simp: mem_ready_def)
  have "succeeds (main_loop (StreamCPU_ClockTick gen) n (sc\<lparr>sc_mem := m\<rparr>)) (\<lambda>(cbs, c). mem_ready 0 (sc_mem c))"
    by (rule main_loop_ok [where I = "\<lambda>n c. mem_ready n (sc_mem c)"], rule succeeds_mono, rule StreamCPU_ClockTick_ok)
      (use assms(1) in auto)
  then show "succeeds (main_loop (StreamCPU_ClockTick gen) n (sc\<lparr>sc_mem := m\<rparr>)) (\<lambda>(cbs, c). mem_valid (sc_mem c))"
    by (rule succeeds_mono) (auto simp: mem_ready_def)
  have "trace_ok (tc\<lparr>tc_mem := m\<rparr>)" using assms(2) by (simp add: trace_ok_def)
  then have "succeeds (main_loop TraceBasedCPU_ClockTick n (tc\<lparr>tc_mem := m\<rparr>)) (\<lambda>(cbs, c). mem_ready 0 (tc_mem c) \<and> trace_ok c)"
    by (intro main_loop_ok [where I = "\<lambda>n c. mem_ready n (tc_mem c) \<and> trace_ok c"], intro succeeds_mono [OF TraceBasedCPU_ClockTick_ok])
      (use assms(1) in auto)
  then show "succeeds (main_loop TraceBasedCPU_ClockTick n (tc\<lparr>tc_mem := m\<rparr>)) (\<lambda>(cbs, c). mem_valid (tc_mem c))"
    by (rule succeeds_mono) (auto simp: mem_ready_def)
qed

definition small_trace :: trace_stream where
  "small_trace = \<lparr>ts_records = [(4096, ''WRITE'', 0), (8192, ''READ'', 1)], ts_newline = True, ts_eof = False\<rparr>"

definition small_trace_cpu :: "MemorySystem \<Rightarrow> TraceBasedCPU" where
  "small_trace_cpu m = \<lparr>tc_mem = m, tc_clk = 0, trace_file = small_trace, tc_trans = mk_Transaction 0 False, tc_get_next = True\<rparr>"

definition small_random_cpu :: "MemorySystem \<Rightarrow> u64 RandomCPU" where
  "small_random_cpu m = \<lparr>rc_mem = m, rc_clk = 0, last_addr = 0, last_write = False, rc_gen = 5, rc_get_next = True\<rparr>"

definition small_stream_cpu :: "MemorySystem \<Rightarrow> u64 StreamCPU" where
  "small_stream_cpu m = \<lparr>sc_mem = m, sc_clk = 0, addr_a = 0, addr_b = 0, addr_c = 0, stream_offset = 0,
     inserted_a = False, inserted_b = False, inserted_c = False, sc_gen = 5\<rparr>"

definition small_gen :: "u64 \<Rightarrow> u64 \<times> u64" where
  "small_gen x = (64 * x, 5 * x + 3)"

theorem simulation_never_aborts_witness:
  "succeeds small_mem (\<lambda>m.
      succeeds (main_loop (RandomCPU_ClockTick small_gen) 3 ((small_random_cpu m)\<lparr>rc_mem := m\<rparr>)) (\<lambda>(cbs, c). mem_valid (rc_mem c))
    \<and> succeeds (main_loop (StreamCPU_ClockTick small_gen) 3 ((small_stream_cpu m)\<lparr>sc_mem := m\<rparr>)) (\<lambda>(cbs, c). mem_valid (sc_mem c))
    \<and> succeeds (main_loop TraceBasedCPU_ClockTick 3 ((small_trace_cpu m)\<lparr>tc_mem := m\<rparr>)) (\<lambda>(cbs, c). mem_valid (tc_mem c)))"
  by (rule succeeds_mono [OF small_memory], rule simulation_never_aborts)
    (simp_all add: trace_ok_def small_trace_cpu_def small_trace_def)



text \<open>
  The stream kernel makes each access once: a cycle makes some of the accesses of the current
  element that are still missing, and moves on to the next element exactly when all three were made.
\<close>

theorem stream_accesses_once:
  assumes "mem_ready (Suc n) (sc_mem c)"
  shows "succeeds (StreamCPU_ClockTick gen c) (\<lambda>(cbs, c'). \<exists>acc. stream_step (next_arrays gen c) acc c'
    \<and> mem_outstanding (sc_mem c) + acc = mset cbs + mem_outstanding (sc_mem c'))"
  by (rule succeeds_mono [OF StreamCPU_ClockTick_ok [OF assms]]) auto

theorem stream_accesses_once_witness:
  "succeeds small_mem (\<lambda>m.
     succeeds (StreamCPU_ClockTick small_gen (small_stream_cpu m)) (\<lambda>(cbs, c').
       \<exists>acc. stream_step (next_arrays small_gen (small_stream_cpu m)) acc c'
       \<and> mem_outstanding m + acc = mset cbs + mem_outstanding (sc_mem c')))"
proof (rule succeeds_mono [OF small_memory])
  fix m assume "mem_ready 3 m"
  then have "mem_ready (Suc 2) (sc_mem (small_stream_cpu m))" by (simp add: small_stream_cpu_def numeral_3_eq_3)
  from stream_accesses_once [OF this, of small_gen]
  show "succeeds (StreamCPU_ClockTick small_gen (small_stream_cpu m)) (\<lambda>(cbs, c').
       \<exists>acc. stream_step (next_arrays small_gen (small_stream_cpu m)) acc c'
       \<and> mem_outstanding m + acc = mset cbs + mem_outstanding (sc_mem c'))"
    by (simp add: small_stream_cpu_def)
qed

end
