(* ===== verification/Tlm_Bridge.thy ===== *)
theory Tlm_Bridge
  imports Memory_System
begin

text \<open>
  \<^verbatim>\<open>DRAMsim3/src/bridge.h\<close> and \<^verbatim>\<open>bridge.cc\<close>: the adapter through which the SystemC components send
  transaction payloads to a memory system.  A payload is a value with the address of the C++
  object as its identity; nothing changes a payload while it is in flight.  Simulation time is
  the number of picoseconds of an \<^verbatim>\<open>sc_time\<close>; the conversion \<^verbatim>\<open>sc_time(v, SC_NS)\<close> of SystemC is the parameter
  \<open>ns\<close> of the operations that use it.
\<close>

section \<open>Payloads\<close>

text \<open>\<^verbatim>\<open>hsim/utilities/common.h\<close> and the attributes of the generic payload the simulator uses.\<close>

datatype DeviceType = HOST | NPU | PIM | DRAM | MCU | NO_DEVICE

datatype tlm_command = TLM_READ | TLM_WRITE | TLM_IGNORE | TLM_COMPUTE | TLM_PIM

record payload =
  gp_ptr :: nat
  gp_command :: tlm_command
  gp_address :: u64
  gp_length :: u32
  src_id :: DeviceType
  dst_id :: DeviceType
  bst_id :: u32
  bst_size :: u32
  gp_head :: bool
  gp_last :: bool
  gp_layer :: string
  pim_cmd :: string

type_synonym ps_time = u64

section \<open>The bridge\<close>

abbreviation MAX_CHANNEL :: nat where "MAX_CHANNEL \<equiv> 16"

record Bridge =
  br_mem :: MemorySystem
  br_clk :: u64
  incomingQueue :: "payload list list"
  outgoingQueue :: "payload list"
  readDone :: "(u64 \<times> payload) list"
  writeDone :: "(u64 \<times> payload) list"
  pimComputeQueue :: "(ps_time \<times> payload) list"
  last_compute_start_time :: ps_time
  last_compute_done_time :: ps_time

definition Bridge_new :: "MemorySystem \<Rightarrow> Bridge" where
  "Bridge_new m =
     \<lparr>br_mem = m, br_clk = 0, incomingQueue = replicate MAX_CHANNEL [], outgoingQueue = [], readDone = [], writeDone = [],
      pimComputeQueue = [], last_compute_start_time = 0, last_compute_done_time = 0\<rparr>"

text \<open>
  The loop of a callback.  It erases the element at the index and then increments the index, so it
  passes over the element that follows an erased one.
\<close>

fun callback_loop :: "u64 \<Rightarrow> (u64 \<times> payload) list \<Rightarrow> payload list \<times> (u64 \<times> payload) list" where
  "callback_loop hex [] = ([], [])"
| "callback_loop hex (e # q) =
     (if fst e = hex then
        (case q of
           [] \<Rightarrow> ([snd e], [])
         | e' # q' \<Rightarrow> (case callback_loop hex q' of (out, r) \<Rightarrow> (snd e # out, e' # r)))
      else (case callback_loop hex q of (out, r) \<Rightarrow> (out, e # r)))"

definition ReadCallBack :: "u64 \<Rightarrow> Bridge \<Rightarrow> Bridge" where
  "ReadCallBack hex b =
     (case callback_loop hex (readDone b) of (out, q) \<Rightarrow> b\<lparr>outgoingQueue := outgoingQueue b @ out, readDone := q\<rparr>)"

definition WriteCallBack :: "u64 \<Rightarrow> Bridge \<Rightarrow> Bridge" where
  "WriteCallBack hex b =
     (case callback_loop hex (writeDone b) of (out, q) \<Rightarrow> b\<lparr>outgoingQueue := outgoingQueue b @ out, writeDone := q\<rparr>)"

definition Bridge_callback :: "callback \<Rightarrow> Bridge \<Rightarrow> Bridge" where
  "Bridge_callback cb b = (if snd cb then WriteCallBack (fst cb) b else ReadCallBack (fst cb) b)"

definition is_write_payload :: "payload \<Rightarrow> bool" where
  "is_write_payload t = (gp_command t = TLM_WRITE)"

definition bridge_accept :: "int \<Rightarrow> Bridge \<Rightarrow> Bridge res" where
  "bridge_accept c b =
     bindE (nth_res (incomingQueue b) c) (\<lambda>q.
     case q of
       [] \<Rightarrow> Inr b
     | t # rest \<Rightarrow>
         let hex = gp_address t; write = is_write_payload t in
         bindE (MemorySystem_WillAcceptTransaction hex write (br_mem b)) (\<lambda>accepted.
         if accepted then
           bindE (MemorySystem_AddTransaction hex write (br_mem b)) (\<lambda>(ok, m).
           if ok then
             bindE (upd_res (incomingQueue b) c rest) (\<lambda>qs.
             Inr (if write then b\<lparr>br_mem := m, incomingQueue := qs, writeDone := writeDone b @ [(hex, t)]\<rparr>
                  else b\<lparr>br_mem := m, incomingQueue := qs, readDone := readDone b @ [(hex, t)]\<rparr>))
           else Inr (b\<lparr>br_mem := m\<rparr>))
         else Inr b))"

fun pim_drain :: "ps_time \<Rightarrow> (ps_time \<times> payload) list \<Rightarrow> payload list \<times> (ps_time \<times> payload) list" where
  "pim_drain now [] = ([], [])"
| "pim_drain now (e # q) =
     (if now \<ge> fst e then (case pim_drain now q of (out, r) \<Rightarrow> (snd e # out, r)) else ([], e # q))"

definition Bridge_ClockTick :: "ps_time \<Rightarrow> Bridge \<Rightarrow> Bridge res" where
  "Bridge_ClockTick now b =
     bindE (MemorySystem_ClockTick (br_mem b)) (\<lambda>(cbs, m).
     let b1 = fold Bridge_callback cbs (b\<lparr>br_mem := m\<rparr>) in
     bindE (fold_res bridge_accept (int_range (GetChannels (br_mem b1))) b1) (\<lambda>b2.
     case pim_drain now (pimComputeQueue b2) of (out, q) \<Rightarrow>
       Inr (b2\<lparr>outgoingQueue := outgoingQueue b2 @ out, pimComputeQueue := q, br_clk := br_clk b2 + 1\<rparr>)))"

definition sendCommand :: "(u64 \<Rightarrow> ps_time) \<Rightarrow> ps_time \<Rightarrow> payload \<Rightarrow> Bridge \<Rightarrow> Bridge res" where
  "sendCommand ns now t b =
     (if gp_command t = TLM_PIM then
        (let actual_start = max now (last_compute_done_time b);
             compute_done_time = actual_start + ns (gp_address t) + 500 in
         Inr (b\<lparr>pimComputeQueue := pimComputeQueue b @ [(compute_done_time, t)],
                last_compute_start_time := actual_start, last_compute_done_time := compute_done_time\<rparr>))
      else
        (let channel = MemorySystem_GetChannel (gp_address t) (br_mem b) in
         bindE (nth_res (incomingQueue b) channel) (\<lambda>q.
         bindE (upd_res (incomingQueue b) channel (q @ [t])) (\<lambda>qs.
         Inr (b\<lparr>incomingQueue := qs\<rparr>)))))"

definition getCompletedCommand :: "Bridge \<Rightarrow> payload option \<times> Bridge" where
  "getCompletedCommand b =
     (case outgoingQueue b of
        [] \<Rightarrow> (None, b)
      | t # q \<Rightarrow> (Some t, b\<lparr>outgoingQueue := q\<rparr>))"

section \<open>The interface of a device that completes payloads\<close>

text \<open>
  What the wrappers rely on: a payload that is sent is in flight until it is taken as completed,
  and a clock cycle neither loses nor duplicates one.
\<close>

locale payload_device =
  fixes valid :: "'b \<Rightarrow> bool"
    and horizon :: "nat \<Rightarrow> 'b \<Rightarrow> bool"
    and send :: "ps_time \<Rightarrow> payload \<Rightarrow> 'b \<Rightarrow> 'b res"
    and tick :: "ps_time \<Rightarrow> 'b \<Rightarrow> 'b res"
    and take_done :: "'b \<Rightarrow> payload option \<times> 'b"
    and inflight :: "'b \<Rightarrow> payload multiset"
  assumes send_ok: "\<lbrakk>valid b; horizon n b\<rbrakk> \<Longrightarrow> succeeds (send now t b) (\<lambda>b'.
      valid b' \<and> horizon n b' \<and> inflight b' = add_mset t (inflight b))"
    and tick_ok: "\<lbrakk>valid b; horizon (Suc n) b\<rbrakk> \<Longrightarrow> succeeds (tick now b) (\<lambda>b'.
      valid b' \<and> horizon n b' \<and> inflight b' = inflight b)"
    and take_ok: "\<lbrakk>valid b; horizon n b\<rbrakk> \<Longrightarrow> valid (snd (take_done b)) \<and> horizon n (snd (take_done b))
      \<and> inflight b = (case fst (take_done b) of None \<Rightarrow> {#} | Some t \<Rightarrow> {#t#}) + inflight (snd (take_done b))"

datatype device_op = Send ps_time payload | Tick ps_time | Take

fun device_run ::
    "(ps_time \<Rightarrow> payload \<Rightarrow> 'b \<Rightarrow> 'b res) \<Rightarrow> (ps_time \<Rightarrow> 'b \<Rightarrow> 'b res) \<Rightarrow> ('b \<Rightarrow> payload option \<times> 'b)
      \<Rightarrow> device_op list \<Rightarrow> 'b \<Rightarrow> (payload list \<times> payload list \<times> 'b) res" where
  "device_run send tick tk [] b = Inr ([], [], b)"
| "device_run send tick tk (Send now t # ops) b =
     bindE (send now t b) (\<lambda>b1. bindE (device_run send tick tk ops b1) (\<lambda>(sent, got, b2). Inr (t # sent, got, b2)))"
| "device_run send tick tk (Tick now # ops) b = bindE (tick now b) (device_run send tick tk ops)"
| "device_run send tick tk (Take # ops) b =
     (case tk b of (r, b1) \<Rightarrow> bindE (device_run send tick tk ops b1) (\<lambda>(sent, got, b2).
        Inr (sent, (case r of None \<Rightarrow> got | Some t \<Rightarrow> t # got), b2)))"

context payload_device
begin

lemma run_conserves:
  assumes "valid b" "horizon n b" "length (filter (\<lambda>x. \<exists>now. x = Tick now) ops) \<le> n"
  shows "succeeds (device_run send tick take_done ops b) (\<lambda>(sent, got, b').
    valid b' \<and> inflight b + mset sent = mset got + inflight b')"
  using assms
proof (induction ops arbitrary: b n)
  case (Cons x ops)
  show ?case
  proof (cases x)
    case (Send now t)
    from send_ok [OF Cons.prems(1,2), of now t] obtain b1 where b1: "send now t b = Inr b1" "valid b1" "horizon n b1"
      "inflight b1 = add_mset t (inflight b)" by (auto simp: succeeds_iff)
    show ?thesis using Cons.IH [OF b1(2,3)] Cons.prems(3) b1(1,4) Send by (auto simp: succeeds_iff)
  next
    case (Tick now)
    then obtain m where m: "n = Suc m" "length (filter (\<lambda>x. \<exists>now. x = Tick now) ops) \<le> m"
      using Cons.prems(3) by (cases n) auto
    from tick_ok [OF Cons.prems(1), of m now] Cons.prems(2) m(1) obtain b1 where
      b1: "tick now b = Inr b1" "valid b1" "horizon m b1" "inflight b1 = inflight b" by (auto simp: succeeds_iff)
    show ?thesis using Cons.IH [OF b1(2,3) m(2)] b1(1,4) Tick by simp
  next
    case Take
    obtain r b1 where t: "take_done b = (r, b1)" by (cases "take_done b")
    have b1: "valid b1" "horizon n b1" "inflight b = (case r of None \<Rightarrow> {#} | Some t \<Rightarrow> {#t#}) + inflight b1"
      using take_ok [OF Cons.prems(1,2)] by (simp_all add: t)
    show ?thesis
      using Cons.IH [OF b1(1,2)] Cons.prems(3) b1(3) Take t by (cases r) (auto simp: succeeds_iff)
  qed
qed simp

end

section \<open>The bridge is such a device\<close>

definition done_pending :: "Bridge \<Rightarrow> callback multiset" where
  "done_pending b = image_mset (\<lambda>e. (fst e, False)) (mset (readDone b)) + image_mset (\<lambda>e. (fst e, True)) (mset (writeDone b))"

definition bridge_inflight :: "Bridge \<Rightarrow> payload multiset" where
  "bridge_inflight b = mset (concat (incomingQueue b)) + mset (outgoingQueue b) + mset (map snd (readDone b))
     + mset (map snd (writeDone b)) + mset (map snd (pimComputeQueue b))"

definition bridge_config :: "Config \<Rightarrow> bool" where
  "bridge_config cfg = (new_config cfg \<and> channels (dram cfg) \<le> int MAX_CHANNEL)"

text \<open>
  Every payload that waits for a callback has a request in the memory system that will lead to
  one.
\<close>

definition bridge_valid :: "Bridge \<Rightarrow> bool" where
  "bridge_valid b = (mem_valid (br_mem b) \<and> bridge_config (ms_config (br_mem b))
     \<and> length (incomingQueue b) = MAX_CHANNEL \<and> done_pending b \<subseteq># mem_outstanding (br_mem b))"

definition bridge_horizon :: "nat \<Rightarrow> Bridge \<Rightarrow> bool" where
  "bridge_horizon n b = mem_horizon n (br_mem b)"

lemma callback_loop_conserves:
  "callback_loop a q = (out, r) \<Longrightarrow> mset (map snd q) = mset out + mset (map snd r)"
  by (induction a q arbitrary: out r rule: callback_loop.induct)
    (auto split: if_splits list.splits prod.splits)

lemma callback_loop_answers:
  "callback_loop a q = (out, r) \<Longrightarrow> count (mset (map fst r)) x \<le> count (mset (map fst q)) x - (if x = a then 1 else 0)"
proof (induction a q arbitrary: out r rule: callback_loop.induct)
  case (2 a e q)
  show ?case
  proof (cases "fst e = a")
    case True
    show ?thesis
    proof (cases q)
      case Nil
      then show ?thesis using 2(3) True by simp
    next
      case (Cons e' q')
      obtain out' r' where c: "callback_loop a q' = (out', r')" by (cases "callback_loop a q'")
      have "count (mset (map fst r')) x \<le> count (mset (map fst q')) x" using 2(1) [OF True Cons c] by simp
      then show ?thesis using 2(3) True Cons c by auto
    qed
  next
    case False
    obtain out' r' where c: "callback_loop a q = (out', r')" by (cases "callback_loop a q")
    have "count (mset (map fst r')) x \<le> count (mset (map fst q)) x - (if x = a then 1 else 0)" using 2(2) [OF False c] .
    then show ?thesis using 2(3) False c by (auto split: if_splits)
  qed
qed simp

lemma callback_loop_pending:
  assumes "callback_loop a q = (out, r)"
  shows "image_mset (\<lambda>e. (fst e, w)) (mset r) \<subseteq># image_mset (\<lambda>e. (fst e, w)) (mset q) - {#(a, w)#}"
proof -
  have "mset (map fst r) \<subseteq># mset (map fst q) - {#a#}"
  proof (rule mset_subset_eqI)
    fix x
    show "count (mset (map fst r)) x \<le> count (mset (map fst q) - {#a#}) x"
      using callback_loop_answers [OF assms, of x] by (cases "x = a") simp_all
  qed
  then have "image_mset (\<lambda>x. (x, w)) (mset (map fst r)) \<subseteq># image_mset (\<lambda>x. (x, w)) (mset (map fst q) - {#a#})"
    by (rule image_mset_subseteq_mono)
  moreover have "image_mset (\<lambda>x. (x, w)) (M - {#a#}) = image_mset (\<lambda>x. (x, w)) M - {#(a, w)#}" for M
    by (rule image_mset_diff_if_inj [of "\<lambda>x. (x, w)" M "{#a#}", simplified]) (auto intro: injI)
  ultimately show ?thesis by (simp add: image_mset.compositionality comp_def)
qed

lemma Bridge_callback_keeps [simp]:
  "br_mem (Bridge_callback cb b) = br_mem b" "incomingQueue (Bridge_callback cb b) = incomingQueue b"
  "pimComputeQueue (Bridge_callback cb b) = pimComputeQueue b"
  by (simp_all add: Bridge_callback_def ReadCallBack_def WriteCallBack_def split: prod.splits)

lemma diff_single_other:
  assumes "x \<notin># A"
  shows "A + B - {#x#} = A + (B - {#x#})"
  by (rule multiset_eqI) (use assms in \<open>auto simp: not_in_iff\<close>)

lemma mset_diff_mono: "A \<subseteq># B \<Longrightarrow> A - C \<subseteq># B - C"
  by (auto simp: subseteq_mset_def diff_le_mono)

lemma Bridge_callback_ok:
  "bridge_inflight (Bridge_callback cb b) = bridge_inflight b"
  "done_pending (Bridge_callback cb b) \<subseteq># done_pending b - {#cb#}"
proof -
  obtain a w where cb: "cb = (a, w)" by (cases cb)
  show "bridge_inflight (Bridge_callback cb b) = bridge_inflight b"
  proof (cases w)
    case True
    obtain out r where c: "callback_loop a (writeDone b) = (out, r)" by (cases "callback_loop a (writeDone b)")
    show ?thesis
      using callback_loop_conserves [OF c] c True by (simp add: cb Bridge_callback_def WriteCallBack_def bridge_inflight_def)
  next
    case False
    obtain out r where c: "callback_loop a (readDone b) = (out, r)" by (cases "callback_loop a (readDone b)")
    show ?thesis
      using callback_loop_conserves [OF c] c False by (simp add: cb Bridge_callback_def ReadCallBack_def bridge_inflight_def)
  qed
  show "done_pending (Bridge_callback cb b) \<subseteq># done_pending b - {#cb#}"
  proof (cases w)
    case True
    obtain out r where c: "callback_loop a (writeDone b) = (out, r)" by (cases "callback_loop a (writeDone b)")
    have "(a, True) \<notin># image_mset (\<lambda>e. (fst e, False)) (mset (readDone b))" by auto
    from diff_single_other [OF this] show ?thesis
      using callback_loop_pending [OF c, of True] c True
      by (simp add: cb Bridge_callback_def WriteCallBack_def done_pending_def)
  next
    case False
    obtain out r where c: "callback_loop a (readDone b) = (out, r)" by (cases "callback_loop a (readDone b)")
    have "(a, False) \<notin># image_mset (\<lambda>e. (fst e, True)) (mset (writeDone b))" by auto
    from diff_single_other [OF this, of "image_mset (\<lambda>e. (fst e, False)) (mset (readDone b))"] show ?thesis
      using callback_loop_pending [OF c, of False] c False
      by (simp add: cb Bridge_callback_def ReadCallBack_def done_pending_def add.commute)
  qed
qed

lemma Bridge_callbacks_ok:
  "bridge_inflight (fold Bridge_callback cbs b) = bridge_inflight b"
  "done_pending (fold Bridge_callback cbs b) \<subseteq># done_pending b - mset cbs"
  "br_mem (fold Bridge_callback cbs b) = br_mem b"
  "incomingQueue (fold Bridge_callback cbs b) = incomingQueue b"
proof (induction cbs arbitrary: b)
  case (Cons cb cbs)
  { case 2
    have "done_pending (fold Bridge_callback cbs (Bridge_callback cb b)) \<subseteq># done_pending (Bridge_callback cb b) - mset cbs"
      by (rule Cons)
    also have "\<dots> \<subseteq># done_pending b - {#cb#} - mset cbs" by (rule mset_diff_mono) (rule Bridge_callback_ok)
    finally show ?case by simp }
qed (simp_all add: Bridge_callback_ok)

lemma bridge_accept_ok:
  assumes "bridge_valid b" "bridge_horizon n b" "0 \<le> c" "c < int MAX_CHANNEL"
  shows "succeeds (bridge_accept c b) (\<lambda>b'. bridge_valid b' \<and> bridge_horizon n b' \<and> bridge_inflight b' = bridge_inflight b)"
proof -
  have inv: "mem_valid (br_mem b)" "bridge_config (ms_config (br_mem b))" "length (incomingQueue b) = MAX_CHANNEL"
    "done_pending b \<subseteq># mem_outstanding (br_mem b)" using assms(1) by (simp_all add: bridge_valid_def)
  let ?i = "nat c"
  have i: "?i < length (incomingQueue b)" using assms(3,4) inv(3) by simp
  have nth: "nth_res (incomingQueue b) c = Inr (incomingQueue b ! ?i)"
    "\<And>x. upd_res (incomingQueue b) c x = Inr ((incomingQueue b)[?i := x])"
    using assms(3,4) inv(3) by (simp_all add: nth_res_def upd_res_def)
  show ?thesis
  proof (cases "incomingQueue b ! ?i")
    case Nil
    then show ?thesis using assms(1,2) by (simp add: bridge_accept_def nth)
  next
    case (Cons t rest)
    let ?a = "gp_address t" and ?w = "is_write_payload t" and ?m = "br_mem b"
    obtain acc where acc: "MemorySystem_WillAcceptTransaction ?a ?w ?m = Inr acc"
      using mem.accepts_returns [OF inv(1)] by blast
    show ?thesis
    proof (cases acc)
      case True
      obtain m where m: "MemorySystem_AddTransaction ?a ?w ?m = Inr (True, m)" "mem_valid m" "mem_horizon n m"
        "mem_outstanding m = add_mset (?a, ?w) (mem_outstanding ?m)"
        using mem.add_accepted [OF inv(1), of ?a ?w n] acc True assms(2) by (auto simp: succeeds_iff bridge_horizon_def)
      have cfg: "ms_config m = ms_config ?m" by (rule mem_config_kept(1) [OF m(1)])
      have pop: "mset (concat (incomingQueue b)) = add_mset t (mset (concat ((incomingQueue b)[?i := rest])))"
        by (rule concat_pop [OF i Cons])
      let ?b = "if ?w then b\<lparr>br_mem := m, incomingQueue := (incomingQueue b)[?i := rest], writeDone := writeDone b @ [(?a, t)]\<rparr>
        else b\<lparr>br_mem := m, incomingQueue := (incomingQueue b)[?i := rest], readDone := readDone b @ [(?a, t)]\<rparr>"
      have "done_pending ?b = add_mset (?a, ?w) (done_pending b)" by (simp add: done_pending_def)
      then have "bridge_valid ?b" using m(2,4) cfg inv by (simp add: bridge_valid_def)
      moreover have "bridge_horizon n ?b" using m(3) by (simp add: bridge_horizon_def)
      moreover have "bridge_inflight ?b = bridge_inflight b" by (simp add: bridge_inflight_def pop)
      moreover have "bridge_accept c b = Inr ?b" using acc True m(1) by (simp add: bridge_accept_def nth Cons Let_def)
      ultimately show ?thesis by simp
    next
      case False
      then show ?thesis using assms(1,2) acc by (simp add: bridge_accept_def nth Cons)
    qed
  qed
qed

lemma pim_drain_splits: "pim_drain now q = (out, r) \<Longrightarrow> \<exists>d. q = d @ r \<and> out = map snd d"
  by (induction q arbitrary: out r) (force split: if_splits prod.splits)+

lemma Bridge_ClockTick_ok:
  assumes "bridge_valid b" "bridge_horizon (Suc n) b"
  shows "succeeds (Bridge_ClockTick now b) (\<lambda>b'. bridge_valid b' \<and> bridge_horizon n b' \<and> bridge_inflight b' = bridge_inflight b)"
proof -
  have inv: "mem_valid (br_mem b)" "bridge_config (ms_config (br_mem b))" "length (incomingQueue b) = MAX_CHANNEL"
    "done_pending b \<subseteq># mem_outstanding (br_mem b)" "mem_horizon (Suc n) (br_mem b)"
    using assms by (simp_all add: bridge_valid_def bridge_horizon_def)
  obtain cbs m where m: "MemorySystem_ClockTick (br_mem b) = Inr (cbs, m)" "mem_valid m" "mem_horizon n m"
    "mem_outstanding (br_mem b) = mset cbs + mem_outstanding m"
    using mem.tick_conserves [OF inv(1,5)] by (auto simp: succeeds_iff)
  have cfg: "ms_config m = ms_config (br_mem b)" by (rule mem_config_kept(2) [OF m(1)])
  let ?b1 = "fold Bridge_callback cbs (b\<lparr>br_mem := m\<rparr>)"
  have d: "done_pending (b\<lparr>br_mem := m\<rparr>) = done_pending b" "bridge_inflight (b\<lparr>br_mem := m\<rparr>) = bridge_inflight b"
    by (simp_all add: done_pending_def bridge_inflight_def)
  have "done_pending ?b1 \<subseteq># done_pending b - mset cbs" using Bridge_callbacks_ok(2) [of cbs "b\<lparr>br_mem := m\<rparr>"] d(1) by simp
  also have "\<dots> \<subseteq># mem_outstanding m"
    using mset_diff_mono [OF inv(4), of "mset cbs"] by (simp add: m(4))
  finally have b1: "bridge_valid ?b1" "bridge_horizon n ?b1" "bridge_inflight ?b1 = bridge_inflight b"
    using m(2,3) cfg inv(2,3) d(2) by (simp_all add: bridge_valid_def bridge_horizon_def Bridge_callbacks_ok)
  have ch: "GetChannels (br_mem ?b1) \<le> int MAX_CHANNEL"
    using inv(2) cfg by (simp add: Bridge_callbacks_ok GetChannels_def bridge_config_def)
  have "succeeds (fold_res bridge_accept (int_range (GetChannels (br_mem ?b1))) ?b1)
    (\<lambda>b'. bridge_valid b' \<and> bridge_horizon n b' \<and> bridge_inflight b' = bridge_inflight b)"
  proof (rule fold_res_invariant)
    show "bridge_valid ?b1 \<and> bridge_horizon n ?b1 \<and> bridge_inflight ?b1 = bridge_inflight b" using b1 by blast
    fix c b' assume "c \<in> set (int_range (GetChannels (br_mem ?b1)))"
      "bridge_valid b' \<and> bridge_horizon n b' \<and> bridge_inflight b' = bridge_inflight b"
    then show "succeeds (bridge_accept c b') (\<lambda>b'. bridge_valid b' \<and> bridge_horizon n b' \<and> bridge_inflight b' = bridge_inflight b)"
      using bridge_accept_ok [of b' n c] ch by auto
  qed
  then obtain b2 where b2: "fold_res bridge_accept (int_range (GetChannels (br_mem ?b1))) ?b1 = Inr b2"
    "bridge_valid b2" "bridge_horizon n b2" "bridge_inflight b2 = bridge_inflight b" by (auto simp: succeeds_iff)
  obtain out r where p: "pim_drain now (pimComputeQueue b2) = (out, r)" by (cases "pim_drain now (pimComputeQueue b2)")
  then obtain e where e: "pimComputeQueue b2 = e @ r" "out = map snd e" using pim_drain_splits by blast
  let ?b3 = "b2\<lparr>outgoingQueue := outgoingQueue b2 @ out, pimComputeQueue := r, br_clk := br_clk b2 + 1\<rparr>"
  have "bridge_inflight ?b3 = bridge_inflight b2" by (simp add: bridge_inflight_def e ac_simps)
  moreover have "bridge_valid ?b3" "bridge_horizon n ?b3"
    using b2(2,3) by (simp_all add: bridge_valid_def bridge_horizon_def done_pending_def)
  ultimately show ?thesis using b2(1,4) m(1) p by (simp add: Bridge_ClockTick_def Let_def)
qed

lemma sendCommand_ok:
  assumes "bridge_valid b" "bridge_horizon n b"
  shows "succeeds (sendCommand ns now t b) (\<lambda>b'. bridge_valid b' \<and> bridge_horizon n b' \<and> bridge_inflight b' = add_mset t (bridge_inflight b))"
proof (cases "gp_command t = TLM_PIM")
  case True
  then show ?thesis
    using assms by (simp add: sendCommand_def Let_def bridge_valid_def bridge_horizon_def bridge_inflight_def done_pending_def)
next
  case False
  let ?c = "MemorySystem_GetChannel (gp_address t) (br_mem b)"
  have c: "0 \<le> ?c" "?c < int (length (incomingQueue b))"
    using GetChannel_in_range [of "ms_config (br_mem b)" "gp_address t"] assms(1)
    by (simp_all add: MemorySystem_GetChannel_def bridge_valid_def bridge_config_def)
  have "mset (concat ((incomingQueue b)[nat ?c := incomingQueue b ! nat ?c @ [t]])) = add_mset t (mset (concat (incomingQueue b)))"
    by (rule concat_push) (use c in linarith)
  then show ?thesis
    using False c assms
    by (simp add: sendCommand_def Let_def nth_res_def upd_res_def bridge_valid_def bridge_horizon_def bridge_inflight_def done_pending_def)
qed

lemma getCompletedCommand_ok:
  assumes "bridge_valid b" "bridge_horizon n b"
  shows "bridge_valid (snd (getCompletedCommand b)) \<and> bridge_horizon n (snd (getCompletedCommand b))
    \<and> bridge_inflight b = (case fst (getCompletedCommand b) of None \<Rightarrow> {#} | Some t \<Rightarrow> {#t#})
        + bridge_inflight (snd (getCompletedCommand b))"
  using assms by (cases "outgoingQueue b")
    (simp_all add: getCompletedCommand_def bridge_valid_def bridge_horizon_def bridge_inflight_def done_pending_def)

interpretation bridge: payload_device bridge_valid bridge_horizon "sendCommand ns" Bridge_ClockTick getCompletedCommand bridge_inflight
  for ns
  by unfold_locales (rule sendCommand_ok Bridge_ClockTick_ok getCompletedCommand_ok; assumption)+

section \<open>Computation requests\<close>

text \<open>The completion times in the queue ascend, and none is later than the end of the last command.\<close>

definition pim_ok :: "Bridge \<Rightarrow> bool" where
  "pim_ok b = (sorted (map fst (pimComputeQueue b)) \<and> (\<forall>e \<in> set (pimComputeQueue b). fst e \<le> last_compute_done_time b))"

lemma pim_drain_due:
  "sorted (map fst q) \<Longrightarrow> pim_drain now q = (map snd (filter (\<lambda>e. fst e \<le> now) q), filter (\<lambda>e. \<not> fst e \<le> now) q)"
proof (induction q)
  case (Cons e q)
  show ?case
  proof (cases "fst e \<le> now")
    case False
    then have "\<forall>x \<in> set q. \<not> fst x \<le> now" using Cons.prems by force
    then show ?thesis using False by (simp add: filter_empty_conv filter_id_conv)
  qed (use Cons in simp)
qed simp

lemma later_by:
  assumes "uint (a :: u64) + uint b + 500 < 2 ^ 64"
  shows "uint (a + b + 500) = uint a + uint b + 500"
  using uint_add_small [of a b] uint_add_small [of "a + b" 500] assms by simp

text \<open>
  The reference of the computation unit, over integers: one server that takes the commands in the order they are sent.  A command starts
  when it is sent or when the server is free, whichever is later, and ends its duration plus half a nanosecond later; a clock cycle
  completes what has ended.  \<open>free\<close> is the time at which the server is free, and the result are the commands completed and those that wait.
\<close>

fun pim_server :: "(u64 \<Rightarrow> ps_time) \<Rightarrow> device_op list \<Rightarrow> int \<Rightarrow> (int \<times> payload) list \<Rightarrow> payload list \<times> (int \<times> payload) list" where
  "pim_server ns [] free q = ([], q)"
| "pim_server ns (Send now t # ops) free q =
     (if gp_command t = TLM_PIM
      then let e = max (uint now) free + uint (ns (gp_address t)) + 500 in pim_server ns ops e (q @ [(e, t)])
      else pim_server ns ops free q)"
| "pim_server ns (Tick now # ops) free q =
     (case pim_server ns ops free (filter (\<lambda>x. uint now < fst x) q) of (out, r) \<Rightarrow> (map snd (filter (\<lambda>x. fst x \<le> uint now) q) @ out, r))"
| "pim_server ns (Take # ops) free q = pim_server ns ops free q"

text \<open>The end of the last command.\<close>

fun pim_makespan :: "(u64 \<Rightarrow> ps_time) \<Rightarrow> device_op list \<Rightarrow> int \<Rightarrow> int" where
  "pim_makespan ns [] free = free"
| "pim_makespan ns (Send now t # ops) free =
     pim_makespan ns ops (if gp_command t = TLM_PIM then max (uint now) free + uint (ns (gp_address t)) + 500 else free)"
| "pim_makespan ns (x # ops) free = pim_makespan ns ops free"

lemma pim_makespan_ge: "free \<le> pim_makespan ns ops free"
proof (induction ns ops free rule: pim_makespan.induct)
  case (2 ns now t ops free)
  have "0 \<le> uint (ns (gp_address t))" by simp
  then have "free \<le> (if gp_command t = TLM_PIM then max (uint now) free + uint (ns (gp_address t)) + 500 else free)"
    using max.cobounded2 [of free "uint now"] by (simp, linarith)
  then show ?case unfolding pim_makespan.simps using 2 by (rule order_trans)
qed simp_all

abbreviation is_pim :: "payload \<Rightarrow> bool" where
  "is_pim t \<equiv> gp_command t = TLM_PIM"

text \<open>No computation command is among the commands of the memory system.\<close>

definition pim_apart :: "Bridge \<Rightarrow> bool" where
  "pim_apart b = (list_all (\<lambda>t. \<not> is_pim t) (concat (incomingQueue b)) \<and> list_all (\<lambda>e. \<not> is_pim (snd e)) (readDone b)
     \<and> list_all (\<lambda>e. \<not> is_pim (snd e)) (writeDone b))"

definition pim_view :: "Bridge \<Rightarrow> payload list \<times> (ps_time \<times> payload) list \<times> ps_time" where
  "pim_view b = (filter is_pim (outgoingQueue b), pimComputeQueue b, last_compute_done_time b)"

lemma callback_loop_sets: "callback_loop a q = (out, r) \<Longrightarrow> set out \<subseteq> snd ` set q \<and> set r \<subseteq> set q"
  by (induction a q arbitrary: out r rule: callback_loop.induct) (fastforce split: if_splits list.splits prod.splits)+

lemma Bridge_callback_pim:
  assumes "pim_apart b"
  shows "pim_apart (Bridge_callback cb b) \<and> pim_view (Bridge_callback cb b) = pim_view b"
proof -
  obtain out1 r1 where 1: "callback_loop (fst cb) (readDone b) = (out1, r1)" by fastforce
  obtain out2 r2 where 2: "callback_loop (fst cb) (writeDone b) = (out2, r2)" by fastforce
  have "\<forall>t \<in> set out1 \<union> set out2. \<not> is_pim t" using callback_loop_sets [OF 1] callback_loop_sets [OF 2] assms by (auto simp: pim_apart_def list_all_iff)
  then have "filter is_pim out1 = []" "filter is_pim out2 = []" by (auto simp: filter_empty_conv)
  then show ?thesis
    using callback_loop_sets [OF 1] callback_loop_sets [OF 2] assms
    by (auto simp: pim_apart_def pim_view_def list_all_iff Bridge_callback_def ReadCallBack_def WriteCallBack_def 1 2)
qed

lemma Bridge_callbacks_pim:
  "pim_apart b \<Longrightarrow> pim_apart (fold Bridge_callback cbs b) \<and> pim_view (fold Bridge_callback cbs b) = pim_view b"
  by (induction cbs arbitrary: b) (simp_all add: Bridge_callback_pim)

lemma concat_updated: "i < length xss \<Longrightarrow> set (concat (xss[i := ys])) \<subseteq> set (concat xss) \<union> set ys"
  by (auto dest!: set_update_subset_insert [THEN subsetD])

lemma bridge_accept_pim:
  assumes "bridge_accept c b = Inr b'" "pim_apart b"
  shows "pim_apart b' \<and> pim_view b' = pim_view b"
proof -
  obtain q where q: "nth_res (incomingQueue b) c = Inr q" using assms(1) by (auto simp: bridge_accept_def res_simps)
  then have c: "nat c < length (incomingQueue b)" "q = incomingQueue b ! nat c" by (auto simp: nth_res_def split: if_splits)
  show ?thesis
  proof (cases q)
    case (Cons t rest)
    have "set q \<subseteq> set (concat (incomingQueue b))" using nth_mem [OF c(1)] c(2) by auto
    then have t: "\<not> is_pim t" "set (concat ((incomingQueue b)[nat c := rest])) \<subseteq> set (concat (incomingQueue b))"
      using assms(2) Cons concat_updated [OF c(1), of rest] by (auto simp: pim_apart_def list_all_iff)
    then have "list_all (\<lambda>t. \<not> is_pim t) (concat ((incomingQueue b)[nat c := rest]))" using assms(2) by (auto simp: pim_apart_def list_all_iff)
    then show ?thesis
      using assms t(1) q Cons
      by (auto simp: bridge_accept_def res_simps Let_def upd_res_def pim_apart_def pim_view_def split: if_splits prod.splits)
  qed (use assms q in \<open>simp add: bridge_accept_def\<close>)
qed

lemma Bridge_ClockTick_pim:
  assumes "Bridge_ClockTick now b = Inr b'" "pim_apart b" "pim_ok b"
  shows "pim_apart b'" "pim_ok b'" "last_compute_done_time b' = last_compute_done_time b"
    "pimComputeQueue b' = filter (\<lambda>e. \<not> fst e \<le> now) (pimComputeQueue b)"
    "filter is_pim (outgoingQueue b') = filter is_pim (outgoingQueue b) @ filter is_pim (map snd (filter (\<lambda>e. fst e \<le> now) (pimComputeQueue b)))"
proof -
  obtain cbs m b2 where t: "MemorySystem_ClockTick (br_mem b) = Inr (cbs, m)"
    "fold_res bridge_accept (int_range (GetChannels (br_mem (fold Bridge_callback cbs (b\<lparr>br_mem := m\<rparr>))))) (fold Bridge_callback cbs (b\<lparr>br_mem := m\<rparr>)) = Inr b2"
    "b' = b2\<lparr>outgoingQueue := outgoingQueue b2 @ fst (pim_drain now (pimComputeQueue b2)), pimComputeQueue := snd (pim_drain now (pimComputeQueue b2)),
       br_clk := br_clk b2 + 1\<rparr>"
    using assms(1) by (auto simp: Bridge_ClockTick_def res_simps Let_def case_prod_beta)
  have "pim_apart (b\<lparr>br_mem := m\<rparr>)" "pim_view (b\<lparr>br_mem := m\<rparr>) = pim_view b" using assms(2) by (simp_all add: pim_apart_def pim_view_def)
  then have 1: "pim_apart (fold Bridge_callback cbs (b\<lparr>br_mem := m\<rparr>))" "pim_view (fold Bridge_callback cbs (b\<lparr>br_mem := m\<rparr>)) = pim_view b"
    using Bridge_callbacks_pim by simp_all
  have "pim_apart b2 \<and> pim_view b2 = pim_view b" if "fold_res bridge_accept cs b1 = Inr b2" "pim_apart b1" "pim_view b1 = pim_view b" for cs b1
    using that by (induction cs arbitrary: b1) (auto simp: res_simps dest: bridge_accept_pim)
  from this [OF t(2) 1] have 2: "pim_apart b2" "pimComputeQueue b2 = pimComputeQueue b" "last_compute_done_time b2 = last_compute_done_time b"
    "filter is_pim (outgoingQueue b2) = filter is_pim (outgoingQueue b)" by (simp_all add: pim_view_def)
  have d: "pim_drain now (pimComputeQueue b2) = (map snd (filter (\<lambda>e. fst e \<le> now) (pimComputeQueue b)), filter (\<lambda>e. \<not> fst e \<le> now) (pimComputeQueue b))"
    unfolding 2(2) by (rule pim_drain_due) (use assms(3) in \<open>simp add: pim_ok_def\<close>)
  show "pim_apart b'" "last_compute_done_time b' = last_compute_done_time b" "pimComputeQueue b' = filter (\<lambda>e. \<not> fst e \<le> now) (pimComputeQueue b)"
    "filter is_pim (outgoingQueue b') = filter is_pim (outgoingQueue b) @ filter is_pim (map snd (filter (\<lambda>e. fst e \<le> now) (pimComputeQueue b)))"
    using 2 d by (simp_all add: t(3) pim_apart_def)
  show "pim_ok b'" using assms(3) 2 d by (auto simp: t(3) pim_ok_def intro: sorted_filter [of "fst", simplified])
qed

lemma sendCommand_pim:
  assumes "sendCommand ns now t b = Inr b'" "pim_apart b" "pim_ok b"
    "is_pim t \<Longrightarrow> uint (max now (last_compute_done_time b)) + uint (ns (gp_address t)) + 500 < 2 ^ 64"
  shows "pim_apart b' \<and> pim_ok b' \<and> outgoingQueue b' = outgoingQueue b
    \<and> (if is_pim t
       then uint (last_compute_done_time b') = max (uint now) (uint (last_compute_done_time b)) + uint (ns (gp_address t)) + 500
         \<and> pimComputeQueue b' = pimComputeQueue b @ [(last_compute_done_time b', t)]
       else last_compute_done_time b' = last_compute_done_time b \<and> pimComputeQueue b' = pimComputeQueue b)"
proof (cases "is_pim t")
  case True
  let ?s = "max now (last_compute_done_time b)"
  let ?e = "?s + ns (gp_address t) + 500"
  have u: "uint ?e = uint ?s + uint (ns (gp_address t)) + 500" by (rule later_by [OF assms(4) [OF True]])
  have m: "uint ?s = max (uint now) (uint (last_compute_done_time b))" by (simp add: max_def word_le_def)
  have "last_compute_done_time b \<le> ?s" by simp
  also have "?s \<le> ?e" using u by (simp add: word_le_def)
  finally have le: "\<forall>x \<in> set (pimComputeQueue b). fst x \<le> ?e" using assms(3) by (force simp: pim_ok_def)
  then have "sorted (map fst (pimComputeQueue b @ [(?e, t)]))" using assms(3) by (auto simp: pim_ok_def sorted_append)
  then show ?thesis
    using assms(1,2) True le u m by (auto simp: sendCommand_def Let_def pim_ok_def pim_apart_def simp del: map_append) fastforce
next
  case False
  obtain q where q: "nth_res (incomingQueue b) (MemorySystem_GetChannel (gp_address t) (br_mem b)) = Inr q"
    using assms(1) False by (auto simp: sendCommand_def res_simps Let_def)
  let ?i = "nat (MemorySystem_GetChannel (gp_address t) (br_mem b))"
  have c: "?i < length (incomingQueue b)" "q = incomingQueue b ! ?i" using q by (auto simp: nth_res_def split: if_splits)
  have "set q \<subseteq> set (concat (incomingQueue b))" using nth_mem [OF c(1)] c(2) by auto
  then have "set (concat ((incomingQueue b)[?i := q @ [t]])) \<subseteq> insert t (set (concat (incomingQueue b)))"
    using concat_updated [OF c(1), of "q @ [t]"] by auto
  then have "list_all (\<lambda>t. \<not> is_pim t) (concat ((incomingQueue b)[?i := q @ [t]]))" using assms(2) False by (auto simp: pim_apart_def list_all_iff)
  then show ?thesis
    using assms(1-3) False q by (auto simp: sendCommand_def res_simps Let_def upd_res_def pim_apart_def pim_ok_def split: if_splits) fastforce
qed

text \<open>A run of the bridge is a run of the reference.\<close>

lemma device_run_pim:
  assumes "device_run (sendCommand ns) Bridge_ClockTick getCompletedCommand ops b = Inr (sent, got, b')" "pim_apart b" "pim_ok b"
    and "list_all (\<lambda>e. is_pim (snd e)) (pimComputeQueue b)" "pim_makespan ns ops (uint (last_compute_done_time b)) < 2 ^ 64"
    and "pim_server ns ops (uint (last_compute_done_time b)) (map (\<lambda>e. (uint (fst e), snd e)) (pimComputeQueue b)) = (out, q)"
  shows "filter is_pim (got @ outgoingQueue b') = filter is_pim (outgoingQueue b) @ out \<and> map (\<lambda>e. (uint (fst e), snd e)) (pimComputeQueue b') = q"
  using assms
proof (induction ops arbitrary: b sent got out)
  case (Cons x ops)
  show ?case
  proof (cases x)
    case (Send now t)
    obtain b1 sent1 where r: "sendCommand ns now t b = Inr b1" "device_run (sendCommand ns) Bridge_ClockTick getCompletedCommand ops b1 = Inr (sent1, got, b')"
      using Cons.prems(1) Send by (auto simp: res_simps)
    let ?e = "max (uint now) (uint (last_compute_done_time b)) + uint (ns (gp_address t)) + 500"
    have m: "uint (max now (last_compute_done_time b)) = max (uint now) (uint (last_compute_done_time b))" by (simp add: max_def word_le_def)
    have "?e < 2 ^ 64" if "is_pim t" using pim_makespan_ge [of ?e ns ops] Cons.prems(5) Send that by simp
    then have 1: "pim_apart b1" "pim_ok b1" "outgoingQueue b1 = outgoingQueue b"
      "if is_pim t then uint (last_compute_done_time b1) = ?e \<and> pimComputeQueue b1 = pimComputeQueue b @ [(last_compute_done_time b1, t)]
       else last_compute_done_time b1 = last_compute_done_time b \<and> pimComputeQueue b1 = pimComputeQueue b"
      using sendCommand_pim [OF r(1) Cons.prems(2,3)] m by auto
    have "list_all (\<lambda>e. is_pim (snd e)) (pimComputeQueue b1)" "pim_makespan ns ops (uint (last_compute_done_time b1)) < 2 ^ 64"
      "pim_server ns ops (uint (last_compute_done_time b1)) (map (\<lambda>e. (uint (fst e), snd e)) (pimComputeQueue b1)) = (out, q)"
      using 1(4) Cons.prems(4-6) Send by (auto simp: Let_def split: if_splits)
    from Cons.IH [OF r(2) 1(1,2) this] show ?thesis using 1(3) by simp
  next
    case (Tick now)
    obtain b1 where r: "Bridge_ClockTick now b = Inr b1" "device_run (sendCommand ns) Bridge_ClockTick getCompletedCommand ops b1 = Inr (sent, got, b')"
      using Cons.prems(1) Tick by (auto simp: res_simps)
    note c = Bridge_ClockTick_pim [OF r(1) Cons.prems(2,3)]
    have f: "map (\<lambda>e. (uint (fst e), snd e)) (pimComputeQueue b1) = filter (\<lambda>x. uint now < fst x) (map (\<lambda>e. (uint (fst e), snd e)) (pimComputeQueue b))"
      unfolding c(4) by (simp add: filter_map comp_def word_less_def not_le)
    obtain out1 where o: "pim_server ns ops (uint (last_compute_done_time b1)) (map (\<lambda>e. (uint (fst e), snd e)) (pimComputeQueue b1)) = (out1, q)"
      "out = map snd (filter (\<lambda>x. fst x \<le> uint now) (map (\<lambda>e. (uint (fst e), snd e)) (pimComputeQueue b))) @ out1"
      using Cons.prems(6) Tick unfolding f c(3) by (auto split: prod.splits)
    have "list_all (\<lambda>e. is_pim (snd e)) (pimComputeQueue b1)" using Cons.prems(4) by (auto simp: c(4) list_all_iff)
    moreover have "pim_makespan ns ops (uint (last_compute_done_time b1)) < 2 ^ 64" using Cons.prems(5) Tick by (simp add: c(3))
    ultimately have ih: "filter is_pim (got @ outgoingQueue b') = filter is_pim (outgoingQueue b1) @ out1 \<and> map (\<lambda>e. (uint (fst e), snd e)) (pimComputeQueue b') = q"
      using Cons.IH [OF r(2) c(1,2) _ _ o(1)] by blast
    have "filter is_pim (map snd (filter (\<lambda>e. fst e \<le> now) (pimComputeQueue b)))
      = map snd (filter (\<lambda>x. fst x \<le> uint now) (map (\<lambda>e. (uint (fst e), snd e)) (pimComputeQueue b)))"
      using Cons.prems(4) by (auto simp: filter_map comp_def word_le_def list_all_iff intro!: arg_cong [of _ _ "map snd"] filter_cong)
    then show ?thesis using ih unfolding c(5) o(2) by simp
  next
    case Take
    obtain g b1 where t: "getCompletedCommand b = (g, b1)" by fastforce
    obtain got1 where r: "device_run (sendCommand ns) Bridge_ClockTick getCompletedCommand ops b1 = Inr (sent, got1, b')"
      "got = (case g of None \<Rightarrow> got1 | Some t \<Rightarrow> t # got1)"
      using Cons.prems(1) Take t by (auto simp: res_simps)
    have 1: "pim_apart b1" "pim_ok b1" "pimComputeQueue b1 = pimComputeQueue b" "last_compute_done_time b1 = last_compute_done_time b"
      "outgoingQueue b = (case g of None \<Rightarrow> outgoingQueue b1 | Some t \<Rightarrow> t # outgoingQueue b1)"
      "g = None \<longrightarrow> outgoingQueue b1 = []"
      using t Cons.prems(2,3) by (auto simp: getCompletedCommand_def pim_apart_def pim_ok_def split: list.splits) fastforce
    from Cons.IH [OF r(1) 1(1,2)] Cons.prems(4-6) Take 1(3-6) r(2) show ?thesis by (cases g) auto
  qed
qed simp

section \<open>Properties\<close>

text \<open>
  Claim C36. The bridge loses and invents nothing: for any sequence of commands, clock cycles and polls on
  a new bridge over a valid memory system (self refresh and HBM dual commands disabled), nothing aborts, and the commands sent are exactly the commands returned as completed plus those
  still in flight; when the memory system owes no callback and the channel queues are empty,
  only completed commands that were not fetched yet and pending computations are in flight.
\<close>

theorem bridge_conserves_payloads:
  assumes "mem_valid m" "bridge_config (ms_config m)" "mem_horizon n m"
    and "length (filter (\<lambda>x. \<exists>now. x = Tick now) ops) \<le> n"
  shows "succeeds (device_run (sendCommand ns) Bridge_ClockTick getCompletedCommand ops (Bridge_new m)) (\<lambda>(sent, got, b).
    mset sent = mset got + bridge_inflight b
    \<and> (mem_outstanding (br_mem b) = {#} \<and> concat (incomingQueue b) = [] \<longrightarrow>
         mset sent = mset got + mset (outgoingQueue b) + mset (map snd (pimComputeQueue b))))"
proof -
  have v: "bridge_valid (Bridge_new m)" "bridge_horizon n (Bridge_new m)" "bridge_inflight (Bridge_new m) = {#}"
    using assms(1-3) by (simp_all add: bridge_valid_def bridge_horizon_def bridge_inflight_def Bridge_new_def done_pending_def)
  show ?thesis
  proof (rule succeeds_mono [OF bridge.run_conserves [OF v(1,2) assms(4), of ns]])
    fix r assume r: "case r of (sent, got, b') \<Rightarrow> bridge_valid b' \<and> bridge_inflight (Bridge_new m) + mset sent = mset got + bridge_inflight b'"
    obtain sent got b where rr: "r = (sent, got, b)" by (cases r)
    have b: "bridge_valid b" "mset sent = mset got + bridge_inflight b" using r v(3) by (simp_all add: rr)
    have "readDone b = [] \<and> writeDone b = []" if "mem_outstanding (br_mem b) = {#}"
      using b(1) that by (simp add: bridge_valid_def done_pending_def)
    then show "case r of (sent, got, b) \<Rightarrow> mset sent = mset got + bridge_inflight b
      \<and> (mem_outstanding (br_mem b) = {#} \<and> concat (incomingQueue b) = [] \<longrightarrow>
         mset sent = mset got + mset (outgoingQueue b) + mset (map snd (pimComputeQueue b)))"
      using b(2) by (auto simp: rr bridge_inflight_def)
  qed
qed

definition demo_payload :: "nat \<Rightarrow> tlm_command \<Rightarrow> u64 \<Rightarrow> payload" where
  "demo_payload p c a = \<lparr>gp_ptr = p, gp_command = c, gp_address = a, gp_length = 64, src_id = NPU, dst_id = DRAM, bst_id = 0, bst_size = 1,
     gp_head = True, gp_last = True, gp_layer = ''layer'', pim_cmd = []\<rparr>"

definition demo_ops :: "device_op list" where
  "demo_ops = [Send 0 (demo_payload 0 TLM_READ 4096), Send 0 (demo_payload 1 TLM_PIM 12), Tick 625, Take,
     Send 1250 (demo_payload 2 TLM_WRITE 8192), Tick 1250, Take, Tick 1875]"

lemma small_bridge_config: "bridge_config small_config"
  using demo_new_config by (simp add: bridge_config_def) (simp add: small_config_def)

theorem bridge_conserves_payloads_witness:
  "succeeds small_mem (\<lambda>m.
     succeeds (device_run (sendCommand (\<lambda>a. 1000 * a)) Bridge_ClockTick getCompletedCommand demo_ops (Bridge_new m)) (\<lambda>(sent, got, b).
       mset sent = mset got + bridge_inflight b))"
proof (rule succeeds_mono [OF small_mem_ok])
  fix m assume "mem_valid m \<and> mem_horizon 3 m \<and> ms_config m = small_config \<and> mem_outstanding m = {#}"
  then have m: "mem_valid m" "bridge_config (ms_config m)" "mem_horizon 3 m" using small_bridge_config by simp_all
  have "length (filter (\<lambda>x. \<exists>now. x = Tick now) demo_ops) \<le> 3" by (simp add: demo_ops_def)
  from bridge_conserves_payloads [OF m this, of "\<lambda>a. 1000 * a"]
  show "succeeds (device_run (sendCommand (\<lambda>a. 1000 * a)) Bridge_ClockTick getCompletedCommand demo_ops (Bridge_new m)) (\<lambda>(sent, got, b).
       mset sent = mset got + bridge_inflight b)"
    by (auto elim!: succeeds_mono)
qed

text \<open>
  Claim C37. Computation commands run one at a time and in order: for any sequence of commands, clock cycles and polls on a new bridge over a
  valid memory system (as in the conservation of payloads above) nothing aborts, and the computation commands returned or ready to be fetched are, in this order, those that the reference server has completed, a command
  starting when it is sent or when the previous one ends, whichever is later, ending its duration plus half a nanosecond later, and being completed by the first
  clock cycle at or after its end; the others wait in the order they were sent.  The end of the last command is within the 64 bits of the simulated time.
\<close>

theorem pim_commands_run_in_order:
  assumes "mem_valid m" "bridge_config (ms_config m)" "mem_horizon n m"
    and "length (filter (\<lambda>x. \<exists>now. x = Tick now) ops) \<le> n" "pim_makespan ns ops 0 < 2 ^ 64"
  shows "succeeds (device_run (sendCommand ns) Bridge_ClockTick getCompletedCommand ops (Bridge_new m)) (\<lambda>(sent, got, b).
    (filter (\<lambda>t. gp_command t = TLM_PIM) (got @ outgoingQueue b), map (\<lambda>e. (uint (fst e), snd e)) (pimComputeQueue b)) = pim_server ns ops 0 [])"
proof -
  have v: "bridge_valid (Bridge_new m)" "bridge_horizon n (Bridge_new m)"
    using assms(1-3) by (simp_all add: bridge_valid_def bridge_horizon_def Bridge_new_def done_pending_def)
  obtain sent got b where r: "device_run (sendCommand ns) Bridge_ClockTick getCompletedCommand ops (Bridge_new m) = Inr (sent, got, b)"
    using bridge.run_conserves [OF v assms(4), of ns] by (auto simp: succeeds_iff)
  obtain out q where p: "pim_server ns ops 0 [] = (out, q)" by fastforce
  have "list_all (\<lambda>t. \<not> is_pim t) (concat (replicate k []))" for k by (induction k) simp_all
  then have new: "pim_apart (Bridge_new m)" "pim_ok (Bridge_new m)" by (simp_all add: pim_apart_def pim_ok_def Bridge_new_def)
  show ?thesis using device_run_pim [OF r new, of out q] assms(5) p r by (simp add: Bridge_new_def)
qed

definition demo_compute_ops :: "device_op list" where
  "demo_compute_ops = [Send 250 (demo_payload 1 TLM_PIM 12), Send 300 (demo_payload 0 TLM_READ 4096), Send 400 (demo_payload 2 TLM_PIM 3), Tick 12000,
     Tick 12750, Take, Send 13000 (demo_payload 3 TLM_PIM 1), Tick 16250]"

theorem pim_commands_run_in_order_witness:
  "succeeds small_mem (\<lambda>m. succeeds (device_run (sendCommand (\<lambda>a. 1000 * a)) Bridge_ClockTick getCompletedCommand demo_compute_ops (Bridge_new m)) (\<lambda>(sent, got, b).
     filter (\<lambda>t. gp_command t = TLM_PIM) (got @ outgoingQueue b) = [demo_payload 1 TLM_PIM 12, demo_payload 2 TLM_PIM 3]
     \<and> map (\<lambda>e. (uint (fst e), snd e)) (pimComputeQueue b) = [(17750, demo_payload 3 TLM_PIM 1)]))"
proof (rule succeeds_mono [OF small_mem_ok])
  fix m assume "mem_valid m \<and> mem_horizon 3 m \<and> ms_config m = small_config \<and> mem_outstanding m = {#}"
  then have m: "mem_valid m" "bridge_config (ms_config m)" "mem_horizon 3 m" using small_bridge_config by simp_all
  have d: "length (filter (\<lambda>x. \<exists>now. x = Tick now) demo_compute_ops) \<le> 3" "pim_makespan (\<lambda>a. 1000 * a) demo_compute_ops 0 < 2 ^ 64"
    "pim_server (\<lambda>a. 1000 * a) demo_compute_ops 0 [] = ([demo_payload 1 TLM_PIM 12, demo_payload 2 TLM_PIM 3], [(17750, demo_payload 3 TLM_PIM 1)])"
    by (simp_all add: demo_compute_ops_def demo_payload_def)
  from pim_commands_run_in_order [OF m d(1,2)]
  show "succeeds (device_run (sendCommand (\<lambda>a. 1000 * a)) Bridge_ClockTick getCompletedCommand demo_compute_ops (Bridge_new m)) (\<lambda>(sent, got, b).
     filter (\<lambda>t. gp_command t = TLM_PIM) (got @ outgoingQueue b) = [demo_payload 1 TLM_PIM 12, demo_payload 2 TLM_PIM 3]
     \<and> map (\<lambda>e. (uint (fst e), snd e)) (pimComputeQueue b) = [(17750, demo_payload 3 TLM_PIM 1)])"
    unfolding d(3) by (auto elim!: succeeds_mono)
qed

text \<open>
  One callback can complete several commands: a second command for the same address is returned together
  with the first, before the memory system has answered it.
\<close>

lemma callback_completes_several:
  "callback_loop a ((a, p) # e # (a, r) # q) =
     (p # r # fst (callback_loop a (tl q)), e # take 1 q @ snd (callback_loop a (tl q)))"
  by (cases q) (auto split: prod.splits)

end
