(* ===== verification/Performance_Metrics.thy ===== *)
theory Performance_Metrics
  imports Tlm_Bridge
begin

text \<open>
  \<^verbatim>\<open>hsim/utilities/performance_metrics.h\<close> and \<^verbatim>\<open>.cpp\<close>: service intervals, queue waits and traffic of the
  devices, and the times of the final report.  Times are \<^verbatim>\<open>int64_t\<close> nanoseconds, modelled as integers; sums are \<^verbatim>\<open>uint64_t\<close>
  and wrap.  The conversion \<^verbatim>\<open>to_ns\<close> of a simulation time goes through floating point and is a
  parameter of the operations that use it.  Percentages and ratios of the report are
  floating point and not modelled.
\<close>

section \<open>Intervals\<close>

datatype Interval = Interval (start_ns: int) (end_ns: int)

text \<open>The comparison of the calls of \<^verbatim>\<open>std::sort\<close>: by start, then by end.\<close>

instantiation Interval :: linorder
begin

definition less_eq_Interval :: "Interval \<Rightarrow> Interval \<Rightarrow> bool" where
  "less_eq_Interval a b = (start_ns a < start_ns b \<or> start_ns a = start_ns b \<and> end_ns a \<le> end_ns b)"

definition less_Interval :: "Interval \<Rightarrow> Interval \<Rightarrow> bool" where
  "less_Interval a b = (if start_ns a = start_ns b then end_ns a < end_ns b else start_ns a < start_ns b)"

instance
  by standard (auto simp: less_eq_Interval_def less_Interval_def Interval.expand)

end

fun union_loop :: "Interval list \<Rightarrow> u64 \<Rightarrow> int \<Rightarrow> int \<Rightarrow> u64" where
  "union_loop [] tot active_start active_end = tot + of_int (active_end - active_start)"
| "union_loop (i # is) tot active_start active_end =
     (if start_ns i > active_end
      then union_loop is (tot + of_int (active_end - active_start)) (start_ns i) (end_ns i)
      else union_loop is tot active_start (max active_end (end_ns i)))"

definition interval_union_ns :: "Interval list \<Rightarrow> u64" where
  "interval_union_ns intervals =
     (case sort (filter (\<lambda>v. \<not> end_ns v \<le> start_ns v) intervals) of
        [] \<Rightarrow> 0
      | v # vs \<Rightarrow> union_loop (v # vs) 0 (start_ns v) (end_ns v))"

definition merge_one :: "Interval \<Rightarrow> Interval list \<Rightarrow> Interval list" where
  "merge_one i merged =
     (if end_ns i \<le> start_ns i then merged
      else if merged = [] \<or> start_ns i > end_ns (last merged) then merged @ [i]
      else butlast merged @ [Interval (start_ns (last merged)) (max (end_ns (last merged)) (end_ns i))])"

definition normalize :: "Interval list \<Rightarrow> Interval list" where
  "normalize intervals = fold merge_one (sort intervals) []"

text \<open>The loop over two indices, on the lists from those indices on.\<close>

fun intersection_loop :: "Interval list \<Rightarrow> Interval list \<Rightarrow> u64 \<Rightarrow> u64" where
  "intersection_loop (l # ls) (r # rs) tot =
     (let b = max (start_ns l) (start_ns r); e = min (end_ns l) (end_ns r);
          tot' = (if e > b then tot + of_int (e - b) else tot) in
      if end_ns l < end_ns r then intersection_loop ls (r # rs) tot' else intersection_loop (l # ls) rs tot')"
| "intersection_loop ls rs tot = tot"

definition interval_intersection_ns :: "Interval list \<Rightarrow> Interval list \<Rightarrow> u64" where
  "interval_intersection_ns lhs rhs = intersection_loop (normalize lhs) (normalize rhs) 0"

text \<open>
  \<^verbatim>\<open>ceil(size * 0.95) - 1\<close>: the double nearest to 0.95 is smaller than 0.95 by less than the rounding
  of the product, so for less than \<open>2 ^ 48\<close> samples the rounded product has the ceiling of the
  exact one.
\<close>

definition percentile95 :: "u64 list \<Rightarrow> u64" where
  "percentile95 samples =
     (if samples = [] then 0
      else let index = (95 * length samples + 99) div 100 - 1 in
           sort samples ! min index (length samples - 1))"

section \<open>What the computations on intervals mean\<close>

definition covered_ns :: "Interval list \<Rightarrow> int set" where
  "covered_ns ivs = (\<Union>i \<in> set ivs. {start_ns i ..< end_ns i})"

definition in_range :: "Interval list \<Rightarrow> bool" where
  "in_range ivs = (\<forall>i \<in> set ivs. 0 \<le> start_ns i \<and> end_ns i < 2 ^ 63)"

lemma covered_simps [simp]:
  "covered_ns [] = {}" "covered_ns (i # is) = {start_ns i ..< end_ns i} \<union> covered_ns is"
  "covered_ns (xs @ ys) = covered_ns xs \<union> covered_ns ys" "finite (covered_ns is)"
  by (auto simp: covered_ns_def)

lemma covered_sort [simp]: "covered_ns (sort ivs) = covered_ns ivs"
  by (simp add: covered_ns_def)

lemma covered_filter: "covered_ns (filter (\<lambda>v. \<not> end_ns v \<le> start_ns v) ivs) = covered_ns ivs"
  by (auto simp: covered_ns_def)

lemma covered_bounds:
  assumes "in_range ivs"
  shows "covered_ns ivs \<subseteq> {0 ..< 2 ^ 63}"
  using assms by (force simp: covered_ns_def in_range_def)

lemma covered_card:
  assumes "in_range ivs" "A \<subseteq> covered_ns ivs"
  shows "int (card A) < 2 ^ 64"
proof -
  have "card A \<le> card {0 ..< 2 ^ 63 :: int}" using assms(2) covered_bounds [OF assms(1)] by (intro card_mono) auto
  then show ?thesis by simp
qed

lemma uint_of_card:
  assumes "int n < 2 ^ 64"
  shows "uint (of_nat n :: u64) = int n"
  using assms by (simp add: unsigned_of_nat take_bit_nat_eq_self nat_less_iff)

lemma union_loop_card:
  assumes "sorted is" "\<forall>i \<in> set is. s \<le> start_ns i \<and> start_ns i < end_ns i" "s \<le> e"
  shows "union_loop is tot s e = tot + of_nat (card ({s ..< e} \<union> covered_ns is))"
  using assms
proof (induction "is" arbitrary: tot s e)
  case (Cons i "is")
  have later: "\<forall>j \<in> set is. start_ns i \<le> start_ns j" using Cons.prems(1) by (force simp: less_eq_Interval_def)
  show ?case
  proof (cases "start_ns i > e")
    case True
    let ?B = "{start_ns i ..< end_ns i} \<union> covered_ns is"
    have "\<forall>x \<in> ?B. start_ns i \<le> x" using later by (auto simp: covered_ns_def)
    then have "{s ..< e} \<inter> ?B = {}" using True by force
    then have "card ({s ..< e} \<union> ?B) = nat (e - s) + card ?B" by (subst card_Un_disjoint) auto
    moreover have "union_loop is (tot + of_int (e - s)) (start_ns i) (end_ns i) = tot + of_int (e - s) + of_nat (card ?B)"
      by (rule Cons.IH) (use Cons.prems later in auto)
    moreover have "(of_int (e - s) :: u64) = of_nat (nat (e - s))" using Cons.prems(3) by (simp add: of_nat_nat)
    ultimately show ?thesis using True by (simp add: Un_assoc add.assoc)
  next
    case False
    have "union_loop (i # is) tot s e = union_loop is tot s (max e (end_ns i))" using False by simp
    also have "\<dots> = tot + of_nat (card ({s ..< max e (end_ns i)} \<union> covered_ns is))"
      by (rule Cons.IH) (use Cons.prems in auto)
    also have "{s ..< max e (end_ns i)} \<union> covered_ns is = {s ..< e} \<union> covered_ns (i # is)"
      using False Cons.prems(2) by auto
    finally show ?thesis .
  qed
qed (simp add: of_nat_nat)

lemma interval_union_card: "interval_union_ns ivs = of_nat (card (covered_ns ivs))"
proof -
  let ?f = "filter (\<lambda>v. \<not> end_ns v \<le> start_ns v) ivs"
  show ?thesis
  proof (cases "sort ?f")
    case Nil
    then have "covered_ns (sort ?f) = {}" by simp
    then have "covered_ns ivs = {}" by (simp add: covered_filter)
    then show ?thesis using Nil by (simp add: interval_union_ns_def)
  next
    case (Cons v vs)
    have sorted: "sorted (v # vs)" using Cons by (metis sorted_sort)
    have ne: "\<forall>i \<in> set (v # vs). start_ns i < end_ns i"
    proof -
      have "set (v # vs) = set ?f" using Cons set_sort [of "\<lambda>x. x" ?f] by simp
      then show ?thesis by auto
    qed
    have first: "\<forall>i \<in> set (v # vs). start_ns v \<le> start_ns i" using sorted by (force simp: less_eq_Interval_def)
    have "union_loop (v # vs) 0 (start_ns v) (end_ns v) = 0 + of_nat (card ({start_ns v ..< end_ns v} \<union> covered_ns (v # vs)))"
      by (rule union_loop_card) (use sorted ne first in auto)
    also have "{start_ns v ..< end_ns v} \<union> covered_ns (v # vs) = covered_ns (v # vs)" by auto
    also have "covered_ns (v # vs) = covered_ns ivs" using covered_sort [of ?f] Cons covered_filter by metis
    finally show ?thesis using Cons by (simp add: interval_union_ns_def)
  qed
qed

text \<open>Normal form: non-empty intervals, each ending before the next one starts.\<close>

definition separated :: "Interval list \<Rightarrow> bool" where
  "separated ivs = (sorted_wrt (\<lambda>a b. end_ns a < start_ns b) ivs \<and> (\<forall>i \<in> set ivs. start_ns i < end_ns i))"

lemma merge_one_ok:
  assumes "separated m" "m \<noteq> [] \<Longrightarrow> start_ns (last m) \<le> start_ns i"
  shows "separated (merge_one i m) \<and> covered_ns (merge_one i m) = covered_ns m \<union> {start_ns i ..< end_ns i}
    \<and> (merge_one i m \<noteq> [] \<longrightarrow> start_ns (last (merge_one i m)) \<le> start_ns i)"
proof (cases m rule: rev_cases)
  case (snoc ys y)
  have y: "start_ns y < end_ns y" "start_ns y \<le> start_ns i" "\<forall>x \<in> set ys. end_ns x < start_ns y"
    using assms snoc by (auto simp: separated_def sorted_wrt_append)
  consider (empty) "end_ns i \<le> start_ns i" | (apart) "start_ns i < end_ns i" "end_ns y < start_ns i"
    | (joined) "start_ns i < end_ns i" "start_ns i \<le> end_ns y" by linarith
  then show ?thesis
  proof cases
    case empty
    then show ?thesis using assms by (simp add: merge_one_def)
  next
    case apart
    then have "merge_one i m = m @ [i]" by (simp add: merge_one_def snoc)
    moreover have "\<forall>x \<in> set m. end_ns x < start_ns i" using y apart by (force simp: snoc)
    ultimately show ?thesis using assms(1) apart by (auto simp: separated_def sorted_wrt_append)
  next
    case joined
    let ?z = "Interval (start_ns y) (max (end_ns y) (end_ns i))"
    have "merge_one i m = ys @ [?z]" using joined by (simp add: merge_one_def snoc)
    moreover have "{start_ns ?z ..< end_ns ?z} = {start_ns y ..< end_ns y} \<union> {start_ns i ..< end_ns i}" using y joined by auto
    moreover have "separated (ys @ [?z])" using assms(1) y by (auto simp: snoc separated_def sorted_wrt_append)
    ultimately show ?thesis using y(2) by (auto simp: snoc)
  qed
qed (auto simp: merge_one_def separated_def)

lemma normalize_fold:
  assumes "sorted is" "separated m" "m \<noteq> [] \<Longrightarrow> \<forall>i \<in> set is. start_ns (last m) \<le> start_ns i"
  shows "separated (fold merge_one is m) \<and> covered_ns (fold merge_one is m) = covered_ns m \<union> covered_ns is"
  using assms
proof (induction "is" arbitrary: m)
  case (Cons i "is")
  have later: "\<forall>j \<in> set is. start_ns i \<le> start_ns j" using Cons.prems(1) by (force simp: less_eq_Interval_def)
  have m: "separated (merge_one i m)" "covered_ns (merge_one i m) = covered_ns m \<union> {start_ns i ..< end_ns i}"
    "merge_one i m \<noteq> [] \<longrightarrow> start_ns (last (merge_one i m)) \<le> start_ns i"
    using merge_one_ok [OF Cons.prems(2), of i] Cons.prems(3) by auto
  have "separated (fold merge_one is (merge_one i m)) \<and> covered_ns (fold merge_one is (merge_one i m)) = covered_ns (merge_one i m) \<union> covered_ns is"
    by (rule Cons.IH) (use Cons.prems(1) m(1,3) later in force)+
  then show ?case using m(2) by auto
qed simp

lemma normalize_ok: "separated (normalize ivs)" "covered_ns (normalize ivs) = covered_ns ivs"
  using normalize_fold [of "sort ivs" "[]"] by (simp_all add: normalize_def separated_def)

lemma intersection_step:
  assumes "separated (l # ls)" "separated (r # rs)" "end_ns l \<le> end_ns r"
  shows "card (covered_ns (l # ls) \<inter> covered_ns (r # rs))
    = nat (min (end_ns l) (end_ns r) - max (start_ns l) (start_ns r)) + card (covered_ns ls \<inter> covered_ns (r # rs))"
proof -
  let ?L = "{start_ns l ..< end_ns l}" and ?R = "{start_ns r ..< end_ns r}"
  have "\<forall>x \<in> covered_ns ls. end_ns l < x" using assms(1) by (fastforce simp: separated_def covered_ns_def)
  then have dis: "(?L \<inter> covered_ns (r # rs)) \<inter> (covered_ns ls \<inter> covered_ns (r # rs)) = {}" by force
  have "\<forall>x \<in> covered_ns rs. end_ns r < x" using assms(2) by (fastforce simp: separated_def covered_ns_def)
  then have "?L \<inter> covered_ns (r # rs) = {max (start_ns l) (start_ns r) ..< min (end_ns l) (end_ns r)}"
    using assms(3) by force
  moreover have "covered_ns (l # ls) \<inter> covered_ns (r # rs) = (?L \<inter> covered_ns (r # rs)) \<union> (covered_ns ls \<inter> covered_ns (r # rs))"
    by auto
  ultimately show ?thesis using dis card_Un_disjoint [of "?L \<inter> covered_ns (r # rs)" "covered_ns ls \<inter> covered_ns (r # rs)"] by simp
qed

lemma separated_tl: "separated (i # is) \<Longrightarrow> separated is"
  by (simp add: separated_def)

lemma intersection_loop_card:
  "separated ls \<Longrightarrow> separated rs \<Longrightarrow> intersection_loop ls rs tot = tot + of_nat (card (covered_ns ls \<inter> covered_ns rs))"
proof (induction ls rs tot rule: intersection_loop.induct)
  case (1 l ls r rs tot)
  let ?e = "min (end_ns l) (end_ns r)" and ?b = "max (start_ns l) (start_ns r)"
  have add: "(if ?e > ?b then tot + of_int (?e - ?b) else tot) = tot + of_nat (nat (?e - ?b))"
  proof (cases "?e > ?b")
    case False
    then have z: "nat (?e - ?b) = 0" by linarith
    have "(of_nat (nat (?e - ?b)) :: u64) = 0" unfolding z by simp
    then show ?thesis unfolding if_not_P [OF False] by (simp only: add_0_right)
  qed (simp add: of_nat_nat)
  show ?case
  proof (cases "end_ns l < end_ns r")
    case True
    have "card (covered_ns (l # ls) \<inter> covered_ns (r # rs)) = nat (?e - ?b) + card (covered_ns ls \<inter> covered_ns (r # rs))"
      by (rule intersection_step [OF 1(3,4)]) (use True in simp)
    moreover have "intersection_loop (l # ls) (r # rs) tot = intersection_loop ls (r # rs) (tot + of_nat (nat (?e - ?b)))"
      unfolding intersection_loop.simps(1) Let_def add if_P [OF True] ..
    ultimately show ?thesis
      using 1(1) [OF refl refl refl True separated_tl [OF 1(3)] 1(4)] unfolding add by (simp only: of_nat_add add.assoc)
  next
    case False
    have "card (covered_ns (r # rs) \<inter> covered_ns (l # ls)) = nat (?e - ?b) + card (covered_ns rs \<inter> covered_ns (l # ls))"
      using intersection_step [OF 1(4,3)] False by (simp add: min.commute max.commute)
    moreover have "intersection_loop (l # ls) (r # rs) tot = intersection_loop (l # ls) rs (tot + of_nat (nat (?e - ?b)))"
      unfolding intersection_loop.simps(1) Let_def add if_not_P [OF False] ..
    ultimately show ?thesis
      using 1(2) [OF refl refl refl False 1(3) separated_tl [OF 1(4)]] unfolding add by (simp only: of_nat_add add.assoc Int_commute)
  qed
qed simp_all

lemma interval_intersection_card: "interval_intersection_ns lhs rhs = of_nat (card (covered_ns lhs \<inter> covered_ns rhs))"
  by (simp add: interval_intersection_ns_def intersection_loop_card normalize_ok)

section \<open>State\<close>

datatype Device = DRAM_device | PIM_device

record ChannelStats =
  ch_bytes :: u64
  ch_requests :: u64
  ch_intervals :: "Interval list"

definition ChannelStats_zero :: ChannelStats where
  "ChannelStats_zero = \<lparr>ch_bytes = 0, ch_requests = 0, ch_intervals = []\<rparr>"

record Request =
  rq_device :: Device
  rq_bytes :: u64
  rq_pim_compute :: bool
  rq_arrival_ns :: int
  rq_start_ns :: int
  rq_channel :: int

record TrafficStats =
  tr_requests :: u64
  tr_bytes :: u64
  queue_wait_ns :: u64
  max_queue_wait_ns :: u64
  queue_wait_samples :: "u64 list"
  service_intervals :: "Interval list"

definition TrafficStats_zero :: TrafficStats where
  "TrafficStats_zero = \<lparr>tr_requests = 0, tr_bytes = 0, queue_wait_ns = 0, max_queue_wait_ns = 0, queue_wait_samples = [],
     service_intervals = []\<rparr>"

record DeviceStats =
  ds_channels :: u32
  channel_mode :: string
  ds_memory :: TrafficStats
  ds_compute :: TrafficStats
  per_channel :: "ChannelStats list"

definition DeviceStats_zero :: DeviceStats where
  "DeviceStats_zero = \<lparr>ds_channels = 1, channel_mode = ''physical_address_mapped'', ds_memory = TrafficStats_zero,
     ds_compute = TrafficStats_zero, per_channel = []\<rparr>"

record ParallelEpisode =
  ep_id :: string
  launch_ns :: int
  npu_end_ns :: int
  pim_end_ns :: int

text \<open>The hash maps from payloads and from episode names are partial functions.\<close>

record PerformanceMetrics =
  pm_dram :: DeviceStats
  pm_pim :: DeviceStats
  requests :: "nat \<rightharpoonup> Request"
  npu_intervals :: "Interval list"
  npu_compute_intervals :: "Interval list"
  pim_compute_intervals :: "Interval list"
  pim_draft_compute_intervals :: "Interval list"
  parallel_episodes :: "ParallelEpisode list"
  parallel_episode_index :: "string \<rightharpoonup> nat"
  draft_compute_stall_ns :: u64
  target_memory_stall_ns :: u64

definition PerformanceMetrics_new :: PerformanceMetrics where
  "PerformanceMetrics_new =
     \<lparr>pm_dram = DeviceStats_zero, pm_pim = DeviceStats_zero, requests = Map.empty, npu_intervals = [], npu_compute_intervals = [],
      pim_compute_intervals = [], pim_draft_compute_intervals = [], parallel_episodes = [], parallel_episode_index = Map.empty,
      draft_compute_stall_ns = 0, target_memory_stall_ns = 0\<rparr>"

section \<open>Operations\<close>

definition device_stats :: "Device \<Rightarrow> PerformanceMetrics \<Rightarrow> DeviceStats" where
  "device_stats d pm = (case d of DRAM_device \<Rightarrow> pm_dram pm | PIM_device \<Rightarrow> pm_pim pm)"

definition set_device_stats :: "Device \<Rightarrow> DeviceStats \<Rightarrow> PerformanceMetrics \<Rightarrow> PerformanceMetrics" where
  "set_device_stats d ds pm = (case d of DRAM_device \<Rightarrow> pm\<lparr>pm_dram := ds\<rparr> | PIM_device \<Rightarrow> pm\<lparr>pm_pim := ds\<rparr>)"

text \<open>\<^verbatim>\<open>vector::resize\<close>: truncates or fills with default elements.\<close>

definition resize_channels :: "nat \<Rightarrow> ChannelStats list \<Rightarrow> ChannelStats list" where
  "resize_channels n cs = take n cs @ replicate (n - length cs) ChannelStats_zero"

definition metrics_configure :: "Device \<Rightarrow> u32 \<Rightarrow> string \<Rightarrow> PerformanceMetrics \<Rightarrow> PerformanceMetrics" where
  "metrics_configure d n mode pm =
     (let ds = device_stats d pm; chs = max 1 n in
      set_device_stats d (ds\<lparr>ds_channels := chs, channel_mode := mode,
        per_channel := resize_channels (unat chs) (per_channel ds)\<rparr>) pm)"

definition request_arrived :: "(ps_time \<Rightarrow> int) \<Rightarrow> ps_time \<Rightarrow> Device \<Rightarrow> payload \<Rightarrow> u64 \<Rightarrow> bool \<Rightarrow> PerformanceMetrics \<Rightarrow> PerformanceMetrics" where
  "request_arrived to_ns now d t bytes compute pm =
     (case requests pm (gp_ptr t) of
        Some r \<Rightarrow> pm
      | None \<Rightarrow> pm\<lparr>requests := (requests pm)(gp_ptr t \<mapsto>
          \<lparr>rq_device = d, rq_bytes = bytes, rq_pim_compute = compute, rq_arrival_ns = to_ns now, rq_start_ns = -1, rq_channel = -1\<rparr>)\<rparr>)"

definition add_queue_wait :: "u64 \<Rightarrow> TrafficStats \<Rightarrow> TrafficStats" where
  "add_queue_wait w ts = ts\<lparr>queue_wait_ns := queue_wait_ns ts + w, max_queue_wait_ns := max (max_queue_wait_ns ts) w,
     queue_wait_samples := queue_wait_samples ts @ [w]\<rparr>"

definition request_started :: "(ps_time \<Rightarrow> int) \<Rightarrow> Device \<Rightarrow> payload \<Rightarrow> ps_time \<Rightarrow> int \<Rightarrow> PerformanceMetrics \<Rightarrow> PerformanceMetrics" where
  "request_started to_ns d t start channel pm =
     (case requests pm (gp_ptr t) of
        None \<Rightarrow> pm
      | Some r \<Rightarrow>
          if rq_device r \<noteq> d \<or> rq_start_ns r \<ge> 0 then pm
          else let s = max (rq_arrival_ns r) (to_ns start);
                   w = of_int (s - rq_arrival_ns r);
                   ds = device_stats d pm;
                   ds' = (if rq_pim_compute r then ds\<lparr>ds_compute := add_queue_wait w (ds_compute ds)\<rparr>
                          else ds\<lparr>ds_memory := add_queue_wait w (ds_memory ds)\<rparr>) in
               set_device_stats d ds' (pm\<lparr>requests := (requests pm)(gp_ptr t \<mapsto> r\<lparr>rq_start_ns := s, rq_channel := channel\<rparr>)\<rparr>))"

definition add_service :: "u64 \<Rightarrow> Interval \<Rightarrow> TrafficStats \<Rightarrow> TrafficStats" where
  "add_service bytes i ts = ts\<lparr>tr_requests := tr_requests ts + 1, tr_bytes := tr_bytes ts + bytes,
     service_intervals := service_intervals ts @ [i]\<rparr>"

definition serve_channel :: "u64 \<Rightarrow> Interval \<Rightarrow> ChannelStats \<Rightarrow> ChannelStats" where
  "serve_channel bytes i c = c\<lparr>ch_requests := ch_requests c + 1, ch_bytes := ch_bytes c + bytes, ch_intervals := ch_intervals c @ [i]\<rparr>"

fun serve_all :: "u64 \<Rightarrow> u64 \<Rightarrow> Interval \<Rightarrow> nat \<Rightarrow> ChannelStats list \<Rightarrow> ChannelStats list" where
  "serve_all base remainder i k [] = []"
| "serve_all base remainder i k (c # cs) =
     serve_channel (base + (if of_nat k < remainder then 1 else 0)) i c # serve_all base remainder i (Suc k) cs"

definition add_channel_service :: "Request \<Rightarrow> Interval \<Rightarrow> DeviceStats \<Rightarrow> DeviceStats" where
  "add_channel_service r i ds =
     (let cs = (if per_channel ds = [] then resize_channels (unat (max 1 (ds_channels ds))) [] else per_channel ds) in
      if rq_channel r \<ge> 0 \<and> nat (rq_channel r) < length cs then
        ds\<lparr>per_channel := cs[nat (rq_channel r) := serve_channel (rq_bytes r) i (cs ! nat (rq_channel r))]\<rparr>
      else ds\<lparr>per_channel := serve_all (rq_bytes r div of_nat (length cs)) (rq_bytes r mod of_nat (length cs)) i 0 cs\<rparr>)"

definition is_draft_layer :: "string \<Rightarrow> bool" where
  "is_draft_layer l = (take 10 l = ''draft_pim.'')"

definition request_completed :: "(ps_time \<Rightarrow> int) \<Rightarrow> Device \<Rightarrow> payload \<Rightarrow> ps_time \<Rightarrow> PerformanceMetrics \<Rightarrow> PerformanceMetrics" where
  "request_completed to_ns d t fin pm =
     (case requests pm (gp_ptr t) of
        None \<Rightarrow> pm
      | Some r \<Rightarrow>
          let pm1 = pm\<lparr>requests := (requests pm)(gp_ptr t := None)\<rparr> in
          if rq_device r \<noteq> d \<or> rq_start_ns r < 0 then pm1
          else let i = Interval (rq_start_ns r) (max (rq_start_ns r) (to_ns fin));
                   ds = device_stats d pm1;
                   ds' = (if rq_pim_compute r then ds\<lparr>ds_compute := add_service (rq_bytes r) i (ds_compute ds)\<rparr>
                          else ds\<lparr>ds_memory := add_service (rq_bytes r) i (ds_memory ds)\<rparr>);
                   pm2 = set_device_stats d (add_channel_service r i ds') pm1 in
               if rq_pim_compute r then
                 pm2\<lparr>pim_compute_intervals := pim_compute_intervals pm2 @ [i],
                     pim_draft_compute_intervals := (if is_draft_layer (gp_layer t) then pim_draft_compute_intervals pm2 @ [i]
                                                     else pim_draft_compute_intervals pm2)\<rparr>
               else pm2)"

definition record_pim_resource_stall :: "(ps_time \<Rightarrow> int) \<Rightarrow> ps_time \<Rightarrow> ps_time \<Rightarrow> bool \<Rightarrow> PerformanceMetrics \<Rightarrow> PerformanceMetrics" where
  "record_pim_resource_stall to_ns start fin draft pm =
     (if to_ns fin \<le> to_ns start then pm
      else let d = of_int (to_ns fin - to_ns start) in
           if draft then pm\<lparr>draft_compute_stall_ns := draft_compute_stall_ns pm + d\<rparr>
           else pm\<lparr>target_memory_stall_ns := target_memory_stall_ns pm + d\<rparr>)"

definition record_npu_interval :: "(ps_time \<Rightarrow> int) \<Rightarrow> ps_time \<Rightarrow> ps_time \<Rightarrow> PerformanceMetrics \<Rightarrow> PerformanceMetrics" where
  "record_npu_interval to_ns start fin pm =
     (if to_ns fin > to_ns start then pm\<lparr>npu_intervals := npu_intervals pm @ [Interval (to_ns start) (to_ns fin)]\<rparr> else pm)"

definition record_npu_compute_interval :: "(ps_time \<Rightarrow> int) \<Rightarrow> ps_time \<Rightarrow> ps_time \<Rightarrow> PerformanceMetrics \<Rightarrow> PerformanceMetrics" where
  "record_npu_compute_interval to_ns start fin pm =
     (if to_ns fin > to_ns start
      then pm\<lparr>npu_compute_intervals := npu_compute_intervals pm @ [Interval (to_ns start) (to_ns fin)]\<rparr> else pm)"

definition begin_parallel_episode :: "(ps_time \<Rightarrow> int) \<Rightarrow> string \<Rightarrow> ps_time \<Rightarrow> PerformanceMetrics \<Rightarrow> PerformanceMetrics" where
  "begin_parallel_episode to_ns name launch pm =
     (if name = [] \<or> parallel_episode_index pm name \<noteq> None then pm
      else pm\<lparr>parallel_episode_index := (parallel_episode_index pm)(name \<mapsto> length (parallel_episodes pm)),
              parallel_episodes := parallel_episodes pm @ [\<lparr>ep_id = name, launch_ns = to_ns launch, npu_end_ns = -1, pim_end_ns = -1\<rparr>]\<rparr>)"

definition complete_parallel_npu_episode :: "(ps_time \<Rightarrow> int) \<Rightarrow> string \<Rightarrow> ps_time \<Rightarrow> PerformanceMetrics \<Rightarrow> PerformanceMetrics res" where
  "complete_parallel_npu_episode to_ns name fin pm =
     (case parallel_episode_index pm name of
        None \<Rightarrow> Inr pm
      | Some k \<Rightarrow>
          if k < length (parallel_episodes pm) then
            (let e = parallel_episodes pm ! k in
             Inr (pm\<lparr>parallel_episodes := (parallel_episodes pm)[k := e\<lparr>npu_end_ns := max (launch_ns e) (to_ns fin)\<rparr>]\<rparr>))
          else Inl OutOfRange)"

definition complete_parallel_pim_episode :: "(ps_time \<Rightarrow> int) \<Rightarrow> string \<Rightarrow> ps_time \<Rightarrow> PerformanceMetrics \<Rightarrow> PerformanceMetrics res" where
  "complete_parallel_pim_episode to_ns name fin pm =
     (case parallel_episode_index pm name of
        None \<Rightarrow> Inr pm
      | Some k \<Rightarrow>
          if k < length (parallel_episodes pm) then
            (let e = parallel_episodes pm ! k in
             Inr (pm\<lparr>parallel_episodes := (parallel_episodes pm)[k := e\<lparr>pim_end_ns := max (launch_ns e) (to_ns fin)\<rparr>]\<rparr>))
          else Inl OutOfRange)"

section \<open>The times of the report\<close>

record Report =
  npu_active_ns :: u64
  npu_target_busy_ns :: u64
  pim_active_ns :: u64
  pim_draft_busy_ns :: u64
  overlap_ns :: u64
  union_ns :: u64
  eei_pim_only_ns :: u64
  eei_npu_only_ns :: u64
  eei_both_ns :: u64
  completed_episodes :: nat

definition episode_done :: "ParallelEpisode \<Rightarrow> bool" where
  "episode_done e = (\<not> (npu_end_ns e < launch_ns e \<or> pim_end_ns e < launch_ns e))"

definition both_end :: "ParallelEpisode \<Rightarrow> int" where
  "both_end e = min (npu_end_ns e) (pim_end_ns e)"

definition add_episode :: "ParallelEpisode \<Rightarrow> Report \<Rightarrow> Report" where
  "add_episode e r =
     (if \<not> episode_done e then r
      else r\<lparr>eei_both_ns := eei_both_ns r + of_int (both_end e - launch_ns e),
             eei_pim_only_ns := eei_pim_only_ns r + of_int (max 0 (pim_end_ns e - both_end e)),
             eei_npu_only_ns := eei_npu_only_ns r + of_int (max 0 (npu_end_ns e - both_end e)),
             completed_episodes := completed_episodes r + 1\<rparr>)"

definition write_json :: "PerformanceMetrics \<Rightarrow> Report" where
  "write_json pm =
     (let npu = interval_union_ns (npu_intervals pm); pim = interval_union_ns (pim_compute_intervals pm);
          both = interval_intersection_ns (npu_intervals pm) (pim_compute_intervals pm) in
      fold add_episode (parallel_episodes pm)
        \<lparr>npu_active_ns = npu, npu_target_busy_ns = interval_union_ns (npu_compute_intervals pm), pim_active_ns = pim,
         pim_draft_busy_ns = interval_union_ns (pim_draft_compute_intervals pm), overlap_ns = both, union_ns = npu + pim - both,
         eei_pim_only_ns = 0, eei_npu_only_ns = 0, eei_both_ns = 0, completed_episodes = 0\<rparr>)"

section \<open>Accounting\<close>

definition traffic_ok :: "TrafficStats \<Rightarrow> bool" where
  "traffic_ok ts = (queue_wait_ns ts = sum_list (queue_wait_samples ts) \<and> max_queue_wait_ns ts = fold max (queue_wait_samples ts) 0
     \<and> tr_requests ts = of_nat (length (service_intervals ts)))"

definition channel_bytes :: "DeviceStats \<Rightarrow> u64" where
  "channel_bytes ds = sum_list (map ch_bytes (per_channel ds))"

definition device_ok :: "DeviceStats \<Rightarrow> bool" where
  "device_ok ds = (traffic_ok (ds_memory ds) \<and> traffic_ok (ds_compute ds)
     \<and> channel_bytes ds = tr_bytes (ds_memory ds) + tr_bytes (ds_compute ds) \<and> length (per_channel ds) < 2 ^ 32)"

definition metrics_ok :: "PerformanceMetrics \<Rightarrow> bool" where
  "metrics_ok pm = (device_ok (pm_dram pm) \<and> device_ok (pm_pim pm))"

lemma add_queue_wait_ok: "traffic_ok ts \<Longrightarrow> traffic_ok (add_queue_wait w ts)"
  by (simp add: traffic_ok_def add_queue_wait_def max.commute)

lemma add_service_ok: "traffic_ok ts \<Longrightarrow> traffic_ok (add_service bytes i ts)"
  by (simp add: traffic_ok_def add_service_def)

lemma serve_update_bytes:
  "k < length cs \<Longrightarrow> sum_list (map ch_bytes (cs[k := serve_channel b i (cs ! k)])) = sum_list (map ch_bytes cs) + b"
proof (induction cs arbitrary: k)
  case (Cons c cs)
  then show ?case by (cases k) (simp_all add: serve_channel_def ac_simps)
qed simp

lemma unat_small: "n < 2 ^ 64 \<Longrightarrow> unat (of_nat n :: u64) = n"
  by (simp add: unsigned_of_nat take_bit_nat_eq_self)

lemma serve_all_bytes:
  assumes "k + length cs < 2 ^ 64"
  shows "sum_list (map ch_bytes (serve_all base rm i k cs)) =
    sum_list (map ch_bytes cs) + of_nat (length cs) * base + of_nat (min (length cs) (unat rm - k))"
  using assms
proof (induction cs arbitrary: k)
  case (Cons c cs)
  have k: "unat (of_nat k :: u64) = k" by (rule unat_small) (use Cons.prems in simp)
  have lt: "((of_nat k :: u64) < rm) = (k < unat rm)" by (simp add: word_less_nat_alt k)
  have m: "min (length (c # cs)) (unat rm - k) = (if k < unat rm then 1 else 0) + min (length cs) (unat rm - Suc k)" by auto
  have "sum_list (map ch_bytes (serve_all base rm i k (c # cs))) =
      ch_bytes c + (base + (if k < unat rm then 1 else 0)) + sum_list (map ch_bytes (serve_all base rm i (Suc k) cs))"
    by (simp add: serve_channel_def lt)
  also have "\<dots> = ch_bytes c + (base + (if k < unat rm then 1 else 0))
      + (sum_list (map ch_bytes cs) + of_nat (length cs) * base + of_nat (min (length cs) (unat rm - Suc k)))"
    by (subst Cons.IH) (use Cons.prems in auto)
  finally show ?case unfolding m by (simp add: algebra_simps split: if_splits)
qed simp

lemma split_bytes:
  assumes "0 < n" "n < 2 ^ 32"
  shows "of_nat n * (b div of_nat n) + of_nat (min n (unat (b mod of_nat n))) = (b :: u64)"
proof -
  have n: "unat (of_nat n :: u64) = n" by (rule unat_small) (use assms(2) in simp)
  have "(of_nat n :: u64) \<noteq> 0" using n assms(1) by (metis unat_0 less_irrefl)
  then have "unat (b mod of_nat n) < n" using n by (metis unat_mod mod_less_divisor assms(1))
  then have "of_nat (min n (unat (b mod of_nat n))) = b mod of_nat n" by (simp add: min_absorb2 less_imp_le)
  then show ?thesis by (simp add: mult_div_mod_eq)
qed

lemma channel_service_bytes:
  assumes "length (per_channel ds) < 2 ^ 32"
  shows "channel_bytes (add_channel_service r i ds) = channel_bytes ds + rq_bytes r"
    "length (per_channel (add_channel_service r i ds)) < 2 ^ 32"
    "ds_memory (add_channel_service r i ds) = ds_memory ds" "ds_compute (add_channel_service r i ds) = ds_compute ds"
proof -
  define cs where "cs = (if per_channel ds = [] then resize_channels (unat (max 1 (ds_channels ds))) [] else per_channel ds)"
  have pos: "0 < unat (max 1 (ds_channels ds))" by (cases "ds_channels ds = 0") (auto simp: unat_gt_0 max_def)
  have cs: "0 < length cs" "length cs < 2 ^ 32" "sum_list (map ch_bytes cs) = channel_bytes ds"
    using assms pos unsigned_less [of "max 1 (ds_channels ds)"]
    by (auto simp: cs_def resize_channels_def channel_bytes_def ChannelStats_zero_def sum_list_replicate)
  have a: "add_channel_service r i ds =
      (if rq_channel r \<ge> 0 \<and> nat (rq_channel r) < length cs then
        ds\<lparr>per_channel := cs[nat (rq_channel r) := serve_channel (rq_bytes r) i (cs ! nat (rq_channel r))]\<rparr>
      else ds\<lparr>per_channel := serve_all (rq_bytes r div of_nat (length cs)) (rq_bytes r mod of_nat (length cs)) i 0 cs\<rparr>)"
    by (simp add: add_channel_service_def cs_def Let_def)
  have len: "length (serve_all x y i k cs) = length cs" for x y k by (induction x y i k cs rule: serve_all.induct) auto
  show "channel_bytes (add_channel_service r i ds) = channel_bytes ds + rq_bytes r"
  proof (cases "rq_channel r \<ge> 0 \<and> nat (rq_channel r) < length cs")
    case True
    then show ?thesis using cs(3) by (simp add: a channel_bytes_def serve_update_bytes)
  next
    case False
    have "channel_bytes (add_channel_service r i ds) = channel_bytes ds
        + (of_nat (length cs) * (rq_bytes r div of_nat (length cs)) + of_nat (min (length cs) (unat (rq_bytes r mod of_nat (length cs)))))"
      using cs unfolding a if_not_P [OF False] by (simp add: channel_bytes_def serve_all_bytes add.assoc)
    then show ?thesis by (simp only: split_bytes [OF cs(1,2)])
  qed
  show "length (per_channel (add_channel_service r i ds)) < 2 ^ 32" using cs(2) len by (simp add: a)
  show "ds_memory (add_channel_service r i ds) = ds_memory ds" "ds_compute (add_channel_service r i ds) = ds_compute ds"
    by (simp_all add: a)
qed

lemma set_device_ok: "metrics_ok pm \<Longrightarrow> device_ok ds \<Longrightarrow> metrics_ok (set_device_stats d ds pm)"
  by (cases d) (simp_all add: metrics_ok_def set_device_stats_def)

lemma device_stats_ok: "metrics_ok pm \<Longrightarrow> device_ok (device_stats d pm)"
  by (cases d) (simp_all add: metrics_ok_def device_stats_def)

lemma request_started_ok:
  assumes "metrics_ok pm"
  shows "metrics_ok (request_started to_ns d t start channel pm)"
proof -
  have ds: "device_ok (device_stats d pm)" by (rule device_stats_ok [OF assms])
  have pm: "metrics_ok (pm\<lparr>requests := R\<rparr>)" for R using assms by (simp add: metrics_ok_def)
  have "device_ok ((device_stats d pm)\<lparr>ds_compute := add_queue_wait w (ds_compute (device_stats d pm))\<rparr>)"
    "device_ok ((device_stats d pm)\<lparr>ds_memory := add_queue_wait w (ds_memory (device_stats d pm))\<rparr>)" for w
    using ds by (simp_all add: device_ok_def add_queue_wait_ok channel_bytes_def) (simp_all add: add_queue_wait_def)
  with assms show ?thesis
    by (auto simp: request_started_def Let_def intro!: set_device_ok [OF pm] split: option.splits)
qed

lemma request_completed_ok:
  assumes "metrics_ok pm"
  shows "metrics_ok (request_completed to_ns d t fin pm)"
proof (cases "requests pm (gp_ptr t)")
  case (Some r)
  let ?pm1 = "pm\<lparr>requests := (requests pm)(gp_ptr t := None)\<rparr>"
  let ?i = "Interval (rq_start_ns r) (max (rq_start_ns r) (to_ns fin))"
  let ?ds = "device_stats d ?pm1"
  let ?ds' = "if rq_pim_compute r then ?ds\<lparr>ds_compute := add_service (rq_bytes r) ?i (ds_compute ?ds)\<rparr>
                          else ?ds\<lparr>ds_memory := add_service (rq_bytes r) ?i (ds_memory ?ds)\<rparr>"
  have pm1: "metrics_ok ?pm1" using assms by (simp add: metrics_ok_def)
  have ds: "device_ok ?ds" by (rule device_stats_ok [OF pm1])
  then have len: "length (per_channel ?ds') < 2 ^ 32" by (simp add: device_ok_def)
  have "device_ok (add_channel_service r ?i ?ds')"
    using ds channel_service_bytes [OF len, of r ?i]
    by (auto simp: device_ok_def add_service_ok channel_bytes_def) (auto simp: add_service_def ac_simps)
  from set_device_ok [OF pm1 this, of d] show ?thesis
    using pm1 Some by (auto simp: request_completed_def Let_def metrics_ok_def)
qed (use assms in \<open>simp add: request_completed_def\<close>)

text \<open>What the components report to the metrics.\<close>

datatype metric_event =
    Arrived ps_time Device payload u64 bool
  | Started Device payload ps_time int
  | Completed Device payload ps_time
  | NpuInterval ps_time ps_time
  | NpuCompute ps_time ps_time
  | ResourceStall ps_time ps_time bool

fun metric_step :: "(ps_time \<Rightarrow> int) \<Rightarrow> metric_event \<Rightarrow> PerformanceMetrics \<Rightarrow> PerformanceMetrics" where
  "metric_step to_ns (Arrived now d t b c) pm = request_arrived to_ns now d t b c pm"
| "metric_step to_ns (Started d t s ch) pm = request_started to_ns d t s ch pm"
| "metric_step to_ns (Completed d t f) pm = request_completed to_ns d t f pm"
| "metric_step to_ns (NpuInterval s f) pm = record_npu_interval to_ns s f pm"
| "metric_step to_ns (NpuCompute s f) pm = record_npu_compute_interval to_ns s f pm"
| "metric_step to_ns (ResourceStall s f dr) pm = record_pim_resource_stall to_ns s f dr pm"

lemma metric_step_ok: "metrics_ok pm \<Longrightarrow> metrics_ok (metric_step to_ns e pm)"
proof (induction e)
  case (Arrived now d t b c)
  then show ?case by (simp add: request_arrived_def metrics_ok_def split: option.splits)
next
  case (NpuInterval s f)
  then show ?case by (simp add: record_npu_interval_def metrics_ok_def)
next
  case (NpuCompute s f)
  then show ?case by (simp add: record_npu_compute_interval_def metrics_ok_def)
next
  case (ResourceStall s f dr)
  then show ?case by (simp add: record_pim_resource_stall_def metrics_ok_def Let_def)
qed (simp_all add: request_started_ok request_completed_ok)

lemma metric_steps_ok: "metrics_ok pm \<Longrightarrow> metrics_ok (fold (metric_step to_ns) es pm)"
  by (induction es arbitrary: pm) (simp_all add: metric_step_ok)

lemma configure_ok: "metrics_ok (metrics_configure PIM_device m mode' (metrics_configure DRAM_device n mode PerformanceMetrics_new))"
proof -
  have "device_ok (DeviceStats_zero\<lparr>ds_channels := max 1 k, channel_mode := md, per_channel := resize_channels (unat (max 1 k)) []\<rparr>)" for k md
    using unsigned_less [of "max 1 k"]
    by (simp add: device_ok_def traffic_ok_def DeviceStats_zero_def TrafficStats_zero_def channel_bytes_def resize_channels_def ChannelStats_zero_def
        sum_list_replicate)
  then show ?thesis
    by (simp add: metrics_ok_def metrics_configure_def Let_def device_stats_def set_device_stats_def PerformanceMetrics_new_def DeviceStats_zero_def)
qed

section \<open>Episodes\<close>

definition episode_ns :: "ParallelEpisode \<Rightarrow> int" where
  "episode_ns e = (if episode_done e then max (npu_end_ns e) (pim_end_ns e) - launch_ns e else 0)"

lemma add_episode_sum:
  "eei_pim_only_ns (add_episode e r) + eei_npu_only_ns (add_episode e r) + eei_both_ns (add_episode e r)
     = eei_pim_only_ns r + eei_npu_only_ns r + eei_both_ns r + of_int (episode_ns e)"
proof (cases "episode_done e")
  case True
  have "both_end e - launch_ns e + max 0 (pim_end_ns e - both_end e) + max 0 (npu_end_ns e - both_end e) = episode_ns e"
    using True by (simp add: episode_ns_def both_end_def min_def max_def)
  from arg_cong [OF this, of "of_int :: int \<Rightarrow> u64"] show ?thesis
    using True by (simp add: add_episode_def ac_simps)
qed (simp add: add_episode_def episode_ns_def)

lemma add_episodes_sum:
  "eei_pim_only_ns (fold add_episode es r) + eei_npu_only_ns (fold add_episode es r) + eei_both_ns (fold add_episode es r)
     = eei_pim_only_ns r + eei_npu_only_ns r + eei_both_ns r + of_int (sum_list (map episode_ns es))"
proof (induction es arbitrary: r)
  case (Cons e es)
  show ?case using Cons.IH [of "add_episode e r"] add_episode_sum [of e r] by (simp add: ac_simps)
qed simp

lemma add_episodes_keep:
  "npu_active_ns (fold add_episode es r) = npu_active_ns r \<and> pim_active_ns (fold add_episode es r) = pim_active_ns r
   \<and> overlap_ns (fold add_episode es r) = overlap_ns r \<and> union_ns (fold add_episode es r) = union_ns r
   \<and> npu_target_busy_ns (fold add_episode es r) = npu_target_busy_ns r \<and> pim_draft_busy_ns (fold add_episode es r) = pim_draft_busy_ns r"
  by (induction es arbitrary: r) (simp_all add: add_episode_def)

section \<open>Properties\<close>

text \<open>
  Claim C38. The report measures time exactly: however the recorded intervals overlap and in whatever order they were recorded, the
  active times are the numbers of nanoseconds covered by at least one interval, the overlap is
  the number of nanoseconds in which both devices are active, and the union is the number in which
  one of them is.
\<close>

theorem report_measures_time:
  assumes "in_range (npu_intervals pm)" "in_range (pim_compute_intervals pm)"
  shows "uint (npu_active_ns (write_json pm)) = int (card (covered_ns (npu_intervals pm)))
    \<and> uint (pim_active_ns (write_json pm)) = int (card (covered_ns (pim_compute_intervals pm)))
    \<and> uint (overlap_ns (write_json pm)) = int (card (covered_ns (npu_intervals pm) \<inter> covered_ns (pim_compute_intervals pm)))
    \<and> uint (union_ns (write_json pm)) = int (card (covered_ns (npu_intervals pm) \<union> covered_ns (pim_compute_intervals pm)))"
proof -
  let ?A = "covered_ns (npu_intervals pm)" and ?B = "covered_ns (pim_compute_intervals pm)"
  have w: "npu_active_ns (write_json pm) = of_nat (card ?A)" "pim_active_ns (write_json pm) = of_nat (card ?B)"
    "overlap_ns (write_json pm) = of_nat (card (?A \<inter> ?B))"
    "union_ns (write_json pm) = of_nat (card ?A) + of_nat (card ?B) - of_nat (card (?A \<inter> ?B))"
    by (simp_all add: write_json_def Let_def add_episodes_keep interval_union_card interval_intersection_card)
  have "card ?A + card ?B = card (?A \<union> ?B) + card (?A \<inter> ?B)" by (rule card_Un_Int) simp_all
  from arg_cong [OF this, of "of_nat :: nat \<Rightarrow> u64"]
  have u: "union_ns (write_json pm) = of_nat (card (?A \<union> ?B))" by (simp add: w(4) algebra_simps)
  have r: "in_range (npu_intervals pm @ pim_compute_intervals pm)" using assms by (auto simp: in_range_def)
  have "int (card S) < 2 ^ 64" if "S \<subseteq> ?A \<union> ?B" for S
    by (rule covered_card [OF r]) (use that in simp)
  then show ?thesis unfolding w(1-3) u by (simp add: uint_of_card inf.coboundedI1)
qed

definition demo_metrics :: PerformanceMetrics where
  "demo_metrics = PerformanceMetrics_new\<lparr>npu_intervals := [Interval 10 30, Interval 0 5, Interval 20 40],
     pim_compute_intervals := [Interval 35 60, Interval 3 12]\<rparr>"

lemma demo_covered:
  "covered_ns (npu_intervals demo_metrics) = {0..<5} \<union> {10..<40}"
  "covered_ns (pim_compute_intervals demo_metrics) = {3..<12} \<union> {35..<60}"
  by (auto simp: demo_metrics_def)

theorem report_measures_time_witness:
  "uint (npu_active_ns (write_json demo_metrics)) = 35 \<and> uint (overlap_ns (write_json demo_metrics)) = 9
   \<and> uint (union_ns (write_json demo_metrics)) = 60"
proof -
  have r: "in_range (npu_intervals demo_metrics)" "in_range (pim_compute_intervals demo_metrics)"
    by (simp_all add: demo_metrics_def in_range_def)
  have "({0..<5} \<union> {10..<40}) \<inter> ({3..<12} \<union> {35..<60}) = {3..<5} \<union> {10..<12} \<union> {35..<40 :: int}"
    "({0..<5} \<union> {10..<40}) \<union> ({3..<12} \<union> {35..<60}) = {0..<60 :: int}" by auto
  moreover have "card ({0..<5} \<union> {10..<40 :: int}) = 35" by (subst card_Un_disjoint) auto
  moreover have "card ({3..<5} \<union> {10..<12} \<union> {35..<40 :: int}) = 9" by (subst card_Un_disjoint, force, force, force, subst card_Un_disjoint) auto
  ultimately show ?thesis
    using report_measures_time [OF r] unfolding demo_covered by simp
qed

text \<open>
  Claim C39. Nothing is lost in the accounting: whatever requests arrive, start and complete in whatever order,
  the total queue wait is the sum of the samples, the maximum is their maximum, the number of
  requests is the number of service intervals, and the bytes of the channels add up to the bytes of the
  device.
\<close>

theorem traffic_accounted:
  "metrics_ok (fold (metric_step to_ns) events
     (metrics_configure PIM_device m pim_mode (metrics_configure DRAM_device n dram_mode PerformanceMetrics_new)))"
  by (rule metric_steps_ok [OF configure_ok])

text \<open>
  The 95th percentile is a sample such that at least 95 of 100 samples do not exceed it.
\<close>

theorem percentile95_rank:
  assumes "samples \<noteq> []"
  shows "percentile95 samples \<in> set samples
    \<and> 95 * length samples \<le> 100 * length (filter (\<lambda>x. x \<le> percentile95 samples) samples)"
proof -
  let ?n = "length samples" and ?k = "(95 * length samples + 99) div 100 - 1"
  let ?s = "sort samples"
  have n: "0 < ?n" using assms by simp
  have p: "percentile95 samples = ?s ! min ?k (?n - 1)" using assms by (simp add: percentile95_def Let_def)
  have k: "?k < ?n" using n by linarith
  then have p': "percentile95 samples = ?s ! ?k" using p by simp
  have "\<forall>x \<in> set (take (Suc ?k) ?s). x \<le> percentile95 samples"
  proof
    fix x assume "x \<in> set (take (Suc ?k) ?s)"
    then obtain j where "j < Suc ?k" "j < ?n" "x = ?s ! j" by (auto simp: in_set_conv_nth)
    then show "x \<le> percentile95 samples" using k p' by (auto intro: sorted_nth_mono)
  qed
  then have "length (take (Suc ?k) ?s) \<le> length (filter (\<lambda>x. x \<le> percentile95 samples) ?s)"
  proof -
    assume "\<forall>x \<in> set (take (Suc ?k) ?s). x \<le> percentile95 samples"
    then have "filter (\<lambda>x. x \<le> percentile95 samples) (take (Suc ?k) ?s) = take (Suc ?k) ?s" by (simp add: filter_id_conv)
    moreover have "filter (\<lambda>x. x \<le> percentile95 samples) ?s = filter (\<lambda>x. x \<le> percentile95 samples) (take (Suc ?k) ?s)
        @ filter (\<lambda>x. x \<le> percentile95 samples) (drop (Suc ?k) ?s)"
      unfolding filter_append [symmetric] append_take_drop_id ..
    ultimately show ?thesis by simp
  qed
  also have "\<dots> = length (filter (\<lambda>x. x \<le> percentile95 samples) samples)"
    by (metis filter_sort length_sort)
  finally have "Suc ?k \<le> length (filter (\<lambda>x. x \<le> percentile95 samples) samples)" using k by simp
  moreover have "95 * ?n \<le> 100 * Suc ?k"
  proof -
    have "95 * ?n + 99 < 100 * ((95 * ?n + 99) div 100) + 100"
      using div_mult_mod_eq [of "95 * ?n + 99" 100] mod_less_divisor [of 100 "95 * ?n + 99"] by linarith
    then show ?thesis by simp
  qed
  moreover have "?s ! ?k \<in> set ?s" by (rule nth_mem) (use k in simp)
  then have "percentile95 samples \<in> set samples" unfolding p' by simp
  ultimately show ?thesis by linarith
qed

theorem percentile95_rank_witness:
  "percentile95 [7, 3, 9, 1] \<in> set [7, 3, 9, 1 :: u64]
    \<and> 95 * length [7, 3, 9, 1 :: u64] \<le> 100 * length (filter (\<lambda>x. x \<le> percentile95 [7, 3, 9, 1]) [7, 3, 9, 1])"
  by (rule percentile95_rank) simp

text \<open>
  The three parts of an episode add up: the time that both branches, only the first and only the second
  were running is together the time from the launch of the episode to the end of its later branch,
  over all completed episodes.
\<close>

theorem episode_parts_add_up:
  "eei_pim_only_ns (write_json pm) + eei_npu_only_ns (write_json pm) + eei_both_ns (write_json pm)
     = of_int (sum_list (map episode_ns (parallel_episodes pm)))"
  by (simp add: write_json_def Let_def add_episodes_sum)

end
