(* ===== verification/Payload_Pool.thy ===== *)
theory Payload_Pool
  imports Npex_Prelude
begin

text \<open>
  \<^verbatim>\<open>hsim/utilities/mm.h\<close> and \<^verbatim>\<open>mm.cpp\<close>: the pool of transaction payloads.  The pool keeps its nodes in one doubly linked
  list on the heap; \<^verbatim>\<open>free_list\<close> and \<^verbatim>\<open>empties\<close> point to two neighbours in it, the nodes from \<^verbatim>\<open>free_list\<close> on
  carry free payloads and the nodes before it none.  The heap is explicit: nodes and payloads are
  addresses, the fields are functions from addresses, and \<^verbatim>\<open>new\<close> takes the next unused address.
  The specification is a stack of free payloads.
\<close>

section \<open>The pool on the heap\<close>

record mm =
  node_trans :: "nat \<Rightarrow> nat"
  node_next :: "nat \<Rightarrow> nat option"
  node_prev :: "nat \<Rightarrow> nat option"
  free_list :: "nat option"
  empties :: "nat option"
  next_node :: nat
  next_gp :: nat

definition mm_new :: mm where
  "mm_new = \<lparr>node_trans = (\<lambda>_. 0), node_next = (\<lambda>_. None), node_prev = (\<lambda>_. None), free_list = None, empties = None,
     next_node = 0, next_gp = 0\<rparr>"

definition mm_allocate :: "mm \<Rightarrow> nat \<times> mm" where
  "mm_allocate s =
     (case free_list s of
        Some n \<Rightarrow> (node_trans s n, s\<lparr>empties := Some n, free_list := node_next s n\<rparr>)
      | None \<Rightarrow> (next_gp s, s\<lparr>next_gp := Suc (next_gp s)\<rparr>))"

definition new_empty :: "mm \<Rightarrow> mm" where
  "new_empty s =
     (let n = next_node s;
          s1 = s\<lparr>next_node := Suc n, empties := Some n, node_next := (node_next s)(n := free_list s), node_prev := (node_prev s)(n := None)\<rparr> in
      case free_list s1 of
        Some f \<Rightarrow> s1\<lparr>node_prev := (node_prev s1)(f := Some n)\<rparr>
      | None \<Rightarrow> s1)"

definition mm_free :: "nat \<Rightarrow> mm \<Rightarrow> mm" where
  "mm_free t s =
     (let s1 = (if empties s = None then new_empty s else s) in
      case empties s1 of
        Some n \<Rightarrow> s1\<lparr>free_list := Some n, node_trans := (node_trans s1)(n := t), empties := node_prev s1 n\<rparr>
      | None \<Rightarrow> s1)"

section \<open>Lists on the heap\<close>

text \<open>
  \<open>chain h p xs\<close>: following the field \<open>h\<close> from \<open>p\<close> visits the nodes \<open>xs\<close> and ends.  \<open>backlinks h p xs\<close>: in the
  nodes \<open>xs\<close> the field \<open>h\<close> points to the predecessor, and to \<open>p\<close> in the first.
\<close>

fun chain :: "(nat \<Rightarrow> nat option) \<Rightarrow> nat option \<Rightarrow> nat list \<Rightarrow> bool" where
  "chain h p [] = (p = None)"
| "chain h p (x # xs) = (p = Some x \<and> chain h (h x) xs)"

fun backlinks :: "(nat \<Rightarrow> nat option) \<Rightarrow> nat option \<Rightarrow> nat list \<Rightarrow> bool" where
  "backlinks h p [] = True"
| "backlinks h p (x # xs) = (h x = p \<and> backlinks h (Some x) xs)"

lemma chain_upd [simp]: "n \<notin> set xs \<Longrightarrow> chain (h(n := v)) p xs = chain h p xs"
  by (induction xs arbitrary: p) auto

lemma backlinks_upd [simp]: "n \<notin> set xs \<Longrightarrow> backlinks (h(n := v)) p xs = backlinks h p xs"
  by (induction xs arbitrary: p) auto

lemma chain_None [simp]: "chain h None xs = (xs = [])"
  by (cases xs) auto

lemma chain_Some: "chain h (Some x) xs = (\<exists>ys. xs = x # ys \<and> chain h (h x) ys)"
  by (cases xs) auto

definition pool_rep :: "mm \<Rightarrow> nat list \<Rightarrow> nat list \<Rightarrow> bool" where
  "pool_rep s es fs =
     (chain (node_next s) (free_list s) fs \<and> backlinks (node_prev s) (empties s) fs
      \<and> chain (node_prev s) (empties s) es \<and> backlinks (node_next s) (free_list s) es
      \<and> distinct (es @ fs) \<and> (\<forall>n \<in> set (es @ fs). n < next_node s))"

definition pool_abs :: "mm \<Rightarrow> nat list \<Rightarrow> bool" where
  "pool_abs s st = (\<exists>es fs. pool_rep s es fs \<and> st = map (node_trans s) fs)"

lemma pool_abs_new: "pool_abs mm_new []"
  by (auto simp: pool_abs_def pool_rep_def mm_new_def intro!: exI [of _ "[]"])

lemma new_empty_rep:
  assumes "pool_rep s [] fs"
  shows "pool_rep (new_empty s) [next_node s] fs \<and> node_trans (new_empty s) = node_trans s \<and> next_gp (new_empty s) = next_gp s"
proof (cases fs)
  case Nil
  then show ?thesis using assms by (simp add: pool_rep_def new_empty_def Let_def)
next
  case (Cons f fs')
  have fresh: "next_node s \<notin> set fs" "f \<notin> set fs'" "next_node s \<noteq> f" "next_node s \<notin> set fs'"
    using assms by (auto simp: pool_rep_def Cons)
  show ?thesis
    using assms fresh by (auto simp: pool_rep_def new_empty_def Let_def Cons)
qed

lemma mm_free_rep:
  assumes "pool_rep s es fs"
  shows "\<exists>n es'. pool_rep (mm_free t s) es' (n # fs) \<and> node_trans (mm_free t s) = (node_trans s)(n := t) \<and> n \<notin> set fs
    \<and> next_gp (mm_free t s) = next_gp s"
proof -
  have pop: "\<exists>n es'. pool_rep (mm_free t s) es' (n # fs) \<and> node_trans (mm_free t s) = (node_trans s1)(n := t) \<and> n \<notin> set fs
      \<and> next_gp (mm_free t s) = next_gp s1"
    if "pool_rep s1 (n # es') fs" "s1 = (if empties s = None then new_empty s else s)" for s1 n es'
  proof -
    have "mm_free t s = s1\<lparr>free_list := Some n, node_trans := (node_trans s1)(n := t), empties := node_prev s1 n\<rparr>"
      using that by (simp add: mm_free_def Let_def pool_rep_def)
    then show ?thesis using that(1) by (auto simp: pool_rep_def)
  qed
  show ?thesis
  proof (cases es)
    case Nil
    then have e: "empties s = None" using assms by (simp add: pool_rep_def)
    have "pool_rep (new_empty s) [next_node s] fs" "node_trans (new_empty s) = node_trans s" "next_gp (new_empty s) = next_gp s"
      using new_empty_rep assms Nil by blast+
    then show ?thesis using pop [of "new_empty s" "next_node s" "[]"] e by (metis (full_types))
  next
    case (Cons n es')
    then have "empties s \<noteq> None" using assms by (simp add: pool_rep_def)
    then show ?thesis using pop [of s n es'] assms Cons by (metis (full_types))
  qed
qed

lemma mm_allocate_rep:
  assumes "pool_rep s es (f # fs)"
  shows "fst (mm_allocate s) = node_trans s f" "pool_rep (snd (mm_allocate s)) (f # es) fs"
    "node_trans (snd (mm_allocate s)) = node_trans s" "next_gp (snd (mm_allocate s)) = next_gp s"
  using assms by (auto simp: mm_allocate_def pool_rep_def)

lemma mm_allocate_fresh:
  assumes "pool_rep s es []"
  shows "mm_allocate s = (next_gp s, s\<lparr>next_gp := Suc (next_gp s)\<rparr>)"
    "pool_rep (s\<lparr>next_gp := Suc (next_gp s)\<rparr>) es []"
  using assms by (auto simp: mm_allocate_def pool_rep_def)

section \<open>Runs\<close>

text \<open>Payloads are allocated and freed, each only while it is in use; \<open>L\<close> are the payloads in use.\<close>

inductive pool_run :: "mm \<Rightarrow> nat set \<Rightarrow> bool" where
  pool_start: "pool_run mm_new {}"
| pool_allocate: "pool_run s L \<Longrightarrow> mm_allocate s = (p, s') \<Longrightarrow> pool_run s' (insert p L)"
| pool_free: "pool_run s L \<Longrightarrow> t \<in> L \<Longrightarrow> pool_run (mm_free t s) (L - {t})"

definition pool_inv :: "mm \<Rightarrow> nat set \<Rightarrow> bool" where
  "pool_inv s L = (\<exists>es fs. pool_rep s es fs \<and> distinct (map (node_trans s) fs) \<and> set (map (node_trans s) fs) \<inter> L = {}
     \<and> (\<forall>p \<in> set (map (node_trans s) fs) \<union> L. p < next_gp s))"

lemma pool_invI:
  assumes "pool_rep s es fs" "distinct (map (node_trans s) fs)" "set (map (node_trans s) fs) \<inter> L = {}"
    "\<And>p. p \<in> set (map (node_trans s) fs) \<union> L \<Longrightarrow> p < next_gp s"
  shows "pool_inv s L"
  using assms unfolding pool_inv_def by blast

lemma pool_inv_allocate:
  assumes "pool_inv s L" "mm_allocate s = (p, s')"
  shows "p \<notin> L \<and> pool_inv s' (insert p L)"
proof -
  obtain es fs where r: "pool_rep s es fs" "distinct (map (node_trans s) fs)" "set (map (node_trans s) fs) \<inter> L = {}"
    "\<forall>p \<in> set (map (node_trans s) fs) \<union> L. p < next_gp s" using assms(1) unfolding pool_inv_def by blast
  show ?thesis
  proof (cases fs)
    case Nil
    have "p = next_gp s" "s' = s\<lparr>next_gp := Suc (next_gp s)\<rparr>" "pool_rep s' es []"
      using mm_allocate_fresh [of s es] r(1) assms(2) Nil by auto
    moreover have "pool_inv s' (insert p L)" by (rule pool_invI [of s' es "[]"]) (use calculation r(4) in \<open>auto intro: less_SucI\<close>)
    ultimately show ?thesis using r(4) by auto
  next
    case (Cons f fs')
    note a = mm_allocate_rep [OF r(1) [unfolded Cons]]
    have "p = node_trans s f" "pool_rep s' (f # es) fs'" "node_trans s' = node_trans s" "next_gp s' = next_gp s"
      using a assms(2) by simp_all
    then show ?thesis
      using r(2-4) unfolding Cons by (auto intro!: pool_invI [of s' "f # es" fs'])
  qed
qed

lemma pool_inv_free:
  assumes "pool_inv s L" "t \<in> L"
  shows "pool_inv (mm_free t s) (L - {t})"
proof -
  obtain es fs where r: "pool_rep s es fs" "distinct (map (node_trans s) fs)" "set (map (node_trans s) fs) \<inter> L = {}"
    "\<forall>p \<in> set (map (node_trans s) fs) \<union> L. p < next_gp s" using assms(1) unfolding pool_inv_def by blast
  obtain n es' where f: "pool_rep (mm_free t s) es' (n # fs)" "node_trans (mm_free t s) = (node_trans s)(n := t)" "n \<notin> set fs"
    "next_gp (mm_free t s) = next_gp s" using mm_free_rep [OF r(1), of t] by blast
  have m: "map (node_trans (mm_free t s)) (n # fs) = t # map (node_trans s) fs" using f(2,3) by simp
  have "t \<notin> set (map (node_trans s) fs)" using r(3) assms(2) by blast
  then show ?thesis
    by (intro pool_invI [OF f(1)]) (use f(4) r(2-4) assms(2) in \<open>auto simp: m simp del: list.map\<close>)
qed

lemma pool_run_inv: "pool_run s L \<Longrightarrow> pool_inv s L"
proof (induction rule: pool_run.induct)
  case pool_start
  show ?case by (auto simp: pool_inv_def pool_rep_def mm_new_def intro!: exI [of _ "[]"])
qed (use pool_inv_allocate pool_inv_free in blast)+

section \<open>Properties\<close>

text \<open>
  The pool refines a stack: with the payloads \<open>st\<close> free, an allocation returns and removes the first of them, or a
  new payload if there is none, and freeing a payload puts it in front.
\<close>

theorem pool_refines_stack:
  assumes "pool_abs s st"
  shows "(case st of
            [] \<Rightarrow> fst (mm_allocate s) = next_gp s \<and> pool_abs (snd (mm_allocate s)) []
          | p # ps \<Rightarrow> fst (mm_allocate s) = p \<and> pool_abs (snd (mm_allocate s)) ps)
    \<and> pool_abs (mm_free t s) (t # st)"
proof -
  obtain es fs where r: "pool_rep s es fs" "st = map (node_trans s) fs" using assms unfolding pool_abs_def by blast
  obtain n es' where f: "pool_rep (mm_free t s) es' (n # fs)" "node_trans (mm_free t s) = (node_trans s)(n := t)" "n \<notin> set fs"
    using mm_free_rep [OF r(1), of t] by blast
  have "map (node_trans (mm_free t s)) (n # fs) = t # st" using f(2,3) by (simp add: r(2))
  then have fr: "pool_abs (mm_free t s) (t # st)" using f(1) unfolding pool_abs_def by metis
  show ?thesis
  proof (cases fs)
    case Nil
    then show ?thesis using mm_allocate_fresh [of s es] r fr unfolding pool_abs_def by force
  next
    case (Cons f fs')
    note a = mm_allocate_rep [OF r(1) [unfolded Cons]]
    have "pool_abs (snd (mm_allocate s)) (map (node_trans s) fs')" using a(2,3) unfolding pool_abs_def by metis
    then show ?thesis using a(1) fr by (simp add: r(2) Cons)
  qed
qed

theorem pool_refines_stack_witness:
  "fst (mm_allocate mm_new) = 0 \<and> pool_abs (mm_free 5 mm_new) [5]"
  using pool_refines_stack [OF pool_abs_new, of 5] by (simp add: mm_new_def)

text \<open>
  Claim C40. No payload is handed out twice: whatever payloads were allocated and freed before, an allocation never
  returns a payload that is in use.
\<close>

theorem pool_never_shares:
  assumes "pool_run s L" "mm_allocate s = (p, s')"
  shows "p \<notin> L"
  using pool_inv_allocate [OF pool_run_inv [OF assms(1)] assms(2)] by blast

definition demo_pool :: mm where
  "demo_pool = mm_free 0 (snd (mm_allocate (snd (mm_allocate mm_new))))"

lemma demo_pool_run: "pool_run demo_pool {1}"
proof -
  have "pool_run (snd (mm_allocate mm_new)) {0}"
    using pool_allocate [OF pool_start, of 0 "snd (mm_allocate mm_new)"] by (simp add: mm_allocate_def mm_new_def)
  from pool_allocate [OF this, of 1 "snd (mm_allocate (snd (mm_allocate mm_new)))"]
  have "pool_run (snd (mm_allocate (snd (mm_allocate mm_new)))) {1, 0}" by (simp add: mm_allocate_def mm_new_def)
  from pool_free [OF this, of 0] show ?thesis by (simp add: demo_pool_def insert_Diff_if)
qed

theorem pool_never_shares_witness: "fst (mm_allocate demo_pool) \<notin> {1}"
  by (rule pool_never_shares [OF demo_pool_run, of _ "snd (mm_allocate demo_pool)"]) simp

end
