(* ===== verification/Sim_Globals.thy ===== *)
theory Sim_Globals
  imports Performance_Metrics Payload_Pool
begin

text \<open>
  What the SystemC processes of \<^verbatim>\<open>hsim\<close> share: the synchronisation objects
  (\<^verbatim>\<open>utilities/sync_object.h\<close>), the maps from layers to signals (\<^verbatim>\<open>utilities/common.h\<close>), the cycle log
  (\<^verbatim>\<open>utilities/logger.cpp\<close>), the global activity counters, and the names by which a layer carries its episode.
  The conversions of SystemC times are floating point; they are the parameters \<open>TimeConv\<close>.
\<close>

section \<open>Phases of the transport interface\<close>

datatype tlm_phase = UNINITIALIZED_PHASE | BEGIN_REQ | END_REQ | BEGIN_RESP | END_RESP

datatype tlm_sync = TLM_ACCEPTED | TLM_UPDATED | TLM_COMPLETED

section \<open>Counters of 32 bits\<close>

lemma u32_less: "unat (x :: u32) < 2 ^ 32"
  by (rule less_le_trans [OF unsigned_less]) simp

lemma unat_of_nat_u32: "n < 2 ^ 32 \<Longrightarrow> unat (of_nat n :: u32) = n"
  by (simp add: unat_of_nat take_bit_nat_eq_self)

lemma outstanding_more:
  assumes "unat (c :: u32) = n" "Suc n < 2 ^ 32"
  shows "unat (c + 1) = Suc n"
  using assms by (simp add: unat_word_ariths)

lemma outstanding_less:
  assumes "unat (c :: u32) = Suc n"
  shows "unat (c - 1) = n"
  using assms by (subst unat_minus_one) auto

section \<open>Times\<close>

text \<open>
  \<open>tc_ns v\<close> is \<^verbatim>\<open>sc_time(v, SC_NS)\<close>; \<open>tc_to_ns\<close> is \<^verbatim>\<open>llround(t.to_seconds() * 1e9)\<close>; \<open>tc_cycle\<close> is
  \<^verbatim>\<open>int64_t(t.to_double() / 1000)\<close>; \<open>tc_sec_ns\<close> is \<^verbatim>\<open>int64_t(t.to_seconds() * 1e9)\<close>.
\<close>

record TimeConv =
  tc_ns :: "u64 \<Rightarrow> ps_time"
  tc_to_ns :: "ps_time \<Rightarrow> int"
  tc_cycle :: "ps_time \<Rightarrow> int"
  tc_sec_ns :: "ps_time \<Rightarrow> int"

definition exact_times :: TimeConv where
  "exact_times = \<lparr>tc_ns = (\<lambda>v. 1000 * v), tc_to_ns = (\<lambda>t. (uint t + 500) div 1000), tc_cycle = (\<lambda>t. uint t div 1000),
     tc_sec_ns = (\<lambda>t. uint t div 1000)\<rparr>"

section \<open>Synchronisation objects\<close>

text \<open>The events are those that \<^verbatim>\<open>get_event\<close> has created; \<open>signal\<close> also returns whether an event was notified.\<close>

record SyncObject =
  sync :: "u32 \<rightharpoonup> bool"
  sync_events :: "u32 set"

definition SyncObject_new :: SyncObject where
  "SyncObject_new = \<lparr>sync = Map.empty, sync_events = {}\<rparr>"

definition sync_signal :: "u32 \<Rightarrow> SyncObject \<Rightarrow> bool \<times> SyncObject" where
  "sync_signal i so = (i \<in> sync_events so, so\<lparr>sync := (sync so)(i \<mapsto> True)\<rparr>)"

definition check_signal :: "u32 \<Rightarrow> SyncObject \<Rightarrow> bool \<times> SyncObject" where
  "check_signal i so =
     (case sync so i of Some v \<Rightarrow> (v, so) | None \<Rightarrow> (False, so\<lparr>sync := (sync so)(i \<mapsto> False)\<rparr>))"

definition get_event :: "u32 \<Rightarrow> SyncObject \<Rightarrow> SyncObject" where
  "get_event i so = so\<lparr>sync_events := insert i (sync_events so)\<rparr>"

definition sync_free :: "u32 \<Rightarrow> SyncObject \<Rightarrow> SyncObject" where
  "sync_free i so = so\<lparr>sync := (sync so)(i \<mapsto> False)\<rparr>"

text \<open>
  The multimaps from layers to an identifier, a size and an address: the list of their entries in the order
  of iteration.
\<close>

type_synonym BaseMap = "(string \<times> u32 \<times> u32 \<times> u64) list"

section \<open>The cycle log\<close>

record NPUCycle =
  nc_start :: int
  nc_end :: int
  nc_compute :: int

definition NPUCycle_new :: NPUCycle where
  "NPUCycle_new = \<lparr>nc_start = -1, nc_end = -1, nc_compute = -1\<rparr>"

record Logger =
  host_info :: "string \<rightharpoonup> int \<times> int"
  npu_info :: "string \<rightharpoonup> NPUCycle"
  dram_info :: "string \<rightharpoonup> int \<times> int"
  pim_info :: "string \<rightharpoonup> int \<times> int"

definition Logger_new :: Logger where
  "Logger_new = \<lparr>host_info = Map.empty, npu_info = Map.empty, dram_info = Map.empty, pim_info = Map.empty\<rparr>"

text \<open>\<open>entry m l d\<close> is \<^verbatim>\<open>m[l]\<close>, which inserts the value \<open>d\<close> if there is none.\<close>

definition entry :: "(string \<rightharpoonup> 'a) \<Rightarrow> string \<Rightarrow> 'a \<Rightarrow> 'a" where
  "entry m l d = (case m l of Some v \<Rightarrow> v | None \<Rightarrow> d)"

definition log_first :: "string \<Rightarrow> int \<Rightarrow> (string \<rightharpoonup> int \<times> int) \<Rightarrow> (string \<rightharpoonup> int \<times> int)" where
  "log_first l c m = (if m l = None then m(l \<mapsto> (c, 0)) else m)"

definition log_second :: "string \<Rightarrow> int \<Rightarrow> (string \<rightharpoonup> int \<times> int) \<Rightarrow> (string \<rightharpoonup> int \<times> int)" where
  "log_second l c m = m(l \<mapsto> (fst (entry m l (0, 0)), c))"

definition update_start_at :: "string \<Rightarrow> DeviceType \<Rightarrow> int \<Rightarrow> Logger \<Rightarrow> Logger" where
  "update_start_at l d c lg =
     (case d of
        HOST \<Rightarrow> lg\<lparr>host_info := log_first l c (host_info lg)\<rparr>
      | NPU \<Rightarrow> lg\<lparr>npu_info := (if npu_info lg l = None then (npu_info lg)(l \<mapsto> NPUCycle_new\<lparr>nc_start := c\<rparr>) else npu_info lg)\<rparr>
      | PIM \<Rightarrow> lg\<lparr>pim_info := log_first l c (pim_info lg)\<rparr>
      | DRAM \<Rightarrow> lg\<lparr>dram_info := log_first l c (dram_info lg)\<rparr>
      | _ \<Rightarrow> lg)"

definition update_end_at :: "string \<Rightarrow> DeviceType \<Rightarrow> int \<Rightarrow> Logger \<Rightarrow> Logger" where
  "update_end_at l d c lg =
     (case d of
        HOST \<Rightarrow> lg\<lparr>host_info := log_second l c (host_info lg)\<rparr>
      | PIM \<Rightarrow> lg\<lparr>pim_info := log_second l c (pim_info lg)\<rparr>
      | DRAM \<Rightarrow> lg\<lparr>dram_info := log_second l c (dram_info lg)\<rparr>
      | _ \<Rightarrow> lg)"

definition update_start :: "TimeConv \<Rightarrow> ps_time \<Rightarrow> string \<Rightarrow> DeviceType \<Rightarrow> Logger \<Rightarrow> Logger" where
  "update_start tc now l d lg = update_start_at l d (tc_cycle tc now) lg"

definition update_end :: "TimeConv \<Rightarrow> ps_time \<Rightarrow> string \<Rightarrow> DeviceType \<Rightarrow> Logger \<Rightarrow> Logger" where
  "update_end tc now l d lg = update_end_at l d (tc_cycle tc now) lg"

definition update_npu_start :: "TimeConv \<Rightarrow> ps_time \<Rightarrow> string \<Rightarrow> int \<Rightarrow> Logger \<Rightarrow> Logger" where
  "update_npu_start tc now l start lg =
     (let cycle = tc_cycle tc now; info = entry (npu_info lg) l NPUCycle_new;
          info' = (if l = ''D_MHA_out'' then info\<lparr>nc_start := start\<rparr>
                   else if nc_start info = -1 then info\<lparr>nc_start := (if l = ''D_Q0'' then cycle else start)\<rparr>
                   else info) in
      lg\<lparr>npu_info := (npu_info lg)(l \<mapsto> info')\<rparr>)"

definition update_npu_end :: "string \<Rightarrow> int \<Rightarrow> int \<Rightarrow> Logger \<Rightarrow> Logger" where
  "update_npu_end l fin compute lg =
     lg\<lparr>npu_info := (npu_info lg)(l \<mapsto> (entry (npu_info lg) l NPUCycle_new)\<lparr>nc_end := fin, nc_compute := compute\<rparr>)\<rparr>"

text \<open>The columns of a printed row: start, end and total (\<open>None\<close> stands for N/A), and the extra column of the NPU.\<close>

definition print_cycle_data :: "int \<Rightarrow> int \<Rightarrow> int \<Rightarrow> int \<times> int option \<times> int option \<times> int option" where
  "print_cycle_data start fin extra =
     (let duration = (if fin > 0 then fin - start else -1) in
      (start, if fin > 0 then Some fin else None, if extra \<ge> 0 then Some (duration - extra) else None,
       if duration \<ge> 0 then Some duration else None))"

definition device_log :: "DeviceType \<Rightarrow> Logger \<Rightarrow> string \<rightharpoonup> int \<times> int" where
  "device_log d lg = (case d of HOST \<Rightarrow> host_info lg | PIM \<Rightarrow> pim_info lg | DRAM \<Rightarrow> dram_info lg | _ \<Rightarrow> Map.empty)"

section \<open>The global state\<close>

record Sim =
  active_host :: u32
  active_core :: u32
  active_dram :: u32
  is_pim_busy :: bool
  dram_sync_obj :: SyncObject
  pim_sync_obj :: SyncObject
  sim_logger :: Logger
  sim_metrics :: PerformanceMetrics

definition log_with :: "(Logger \<Rightarrow> Logger) \<Rightarrow> Sim \<Rightarrow> Sim" where
  "log_with f g = g\<lparr>sim_logger := f (sim_logger g)\<rparr>"

definition metrics_with :: "(PerformanceMetrics \<Rightarrow> PerformanceMetrics) \<Rightarrow> Sim \<Rightarrow> Sim" where
  "metrics_with f g = g\<lparr>sim_metrics := f (sim_metrics g)\<rparr>"

section \<open>Names\<close>

text \<open>\<^verbatim>\<open>std::string::find\<close> and \<^verbatim>\<open>std::to_string\<close> of an unsigned number.\<close>

fun str_find :: "string \<Rightarrow> string \<Rightarrow> nat option" where
  "str_find p [] = (if p = [] then Some 0 else None)"
| "str_find p (c # s) = (if take (length p) (c # s) = p then Some 0 else map_option Suc (str_find p s))"

definition contains :: "string \<Rightarrow> string \<Rightarrow> bool" where
  "contains p s = (str_find p s \<noteq> None)"

definition starts_with :: "string \<Rightarrow> string \<Rightarrow> bool" where
  "starts_with p s = (take (length p) s = p)"

definition is_digit :: "char \<Rightarrow> bool" where
  "is_digit c = (c \<in> set ''0123456789'')"

fun to_string :: "nat \<Rightarrow> string" where
  "to_string n = (if n < 10 then [''0123456789'' ! n] else to_string (n div 10) @ [''0123456789'' ! (n mod 10)])"

declare to_string.simps [simp del]

text \<open>\<^verbatim>\<open>episode_id_from_layer\<close> of the NPU and \<^verbatim>\<open>episode_id_from_draft_layer\<close> of the PIM device.\<close>

definition episode_id_from_layer :: "string \<Rightarrow> string" where
  "episode_id_from_layer l =
     (case str_find ''sample'' l of
        None \<Rightarrow> []
      | Some i \<Rightarrow>
          case str_find ''.iter'' (drop i l) of
            None \<Rightarrow> []
          | Some j \<Rightarrow> take (j + 5 + length (takeWhile is_digit (drop (j + 5) (drop i l)))) (drop i l))"

lemma str_find_skip:
  assumes "hd p \<notin> set xs" "p \<noteq> []"
  shows "str_find p (xs @ s) = map_option ((+) (length xs)) (str_find p s)"
  using assms(1)
proof (induction xs)
  case Nil
  show ?case by (simp add: option.map_ident)
next
  case (Cons c xs)
  have "take (length p) (c # xs @ s) \<noteq> p"
    using Cons.prems assms(2) by (cases p) auto
  then show ?case using Cons by (simp add: option.map_comp comp_def)
qed

lemma str_find_prefix: "take (length p) s = p \<Longrightarrow> str_find p s = Some 0"
  by (cases s) auto

lemma str_find_here: "str_find p (p @ s) = Some 0"
  by (rule str_find_prefix) simp

lemma split_at: "n = length xs \<Longrightarrow> drop n (xs @ ys) = ys" "n = length xs \<Longrightarrow> take n (xs @ ys) = xs"
  by simp_all

lemma to_string_digits: "c \<in> set (to_string n) \<Longrightarrow> is_digit c"
proof (induction n rule: to_string.induct)
  case (1 n)
  have d: "is_digit (''0123456789'' ! k)" if "k < 10" for k
    unfolding is_digit_def by (rule nth_mem) (use that in simp)
  show ?case
    using "1.prems" "1.IH" d [of n] d [of "n mod 10"]
    by (cases "n < 10") (auto simp: to_string.simps [of n])
qed

section \<open>Properties\<close>

definition episode_name :: "nat \<Rightarrow> nat \<Rightarrow> string" where
  "episode_name sample iter = ''sample'' @ to_string sample @ ''.iter'' @ to_string iter"

lemma episode_recovered:
  assumes "CHR ''s'' \<notin> set pre" "post = [] \<or> \<not> is_digit (hd post)"
  shows "episode_id_from_layer (pre @ episode_name a b @ post) = episode_name a b"
proof -
  let ?e = "episode_name a b @ post"
  have e: "?e = (''sample'' @ to_string a @ ''.iter'') @ (to_string b @ post)" by (simp add: episode_name_def)
  have "str_find ''sample'' (pre @ ?e) = Some (length pre)"
    using str_find_skip [of "''sample''" pre ?e] str_find_here [of "''sample''"] assms(1) by (simp add: episode_name_def)
  moreover have "str_find ''.iter'' ?e = Some (6 + length (to_string a))"
  proof -
    have "CHR ''.'' \<notin> set (''sample'' @ to_string a)" using to_string_digits [of "CHR ''.''" a] by (auto simp: is_digit_def)
    from str_find_skip [OF _, of "''.iter''" "''sample'' @ to_string a"] this
    show ?thesis using str_find_here [of "''.iter''" "to_string b @ post"] by (simp add: episode_name_def)
  qed
  moreover have "takeWhile is_digit (to_string b @ post) = to_string b"
    using assms(2) to_string_digits [of _ b] by (cases post) (auto simp: takeWhile_append)
  moreover have "drop (6 + length (to_string a) + 5) ?e = to_string b @ post"
    by (subst e) (rule split_at(1), simp)
  moreover have "take (6 + length (to_string a) + 5 + length (to_string b)) ?e = episode_name a b"
    by (rule split_at(2)) (simp add: episode_name_def)
  ultimately show ?thesis unfolding episode_id_from_layer_def by (simp add: split_at(1) del: take_append drop_append)
qed

text \<open>
  Episodes are recognised by name: from the layer name that the host gives to the target run of an
  iteration, and from the name of any of its draft commands, exactly the name under which the host opened the episode is
  recovered, so both ends of an episode are recorded in the same entry.
\<close>

theorem episodes_recognised:
  "episode_id_from_layer (''target.'' @ episode_name a b) = episode_name a b
   \<and> episode_id_from_layer (''draft_pim.'' @ episode_name a b @ ''.tree_step'' @ rest) = episode_name a b
   \<and> episode_id_from_layer (''draft_pim.'' @ episode_name a b @ ''.proposal'' @ rest) = episode_name a b"
  using episode_recovered [of "''target.''" "[]" a b] episode_recovered [of "''draft_pim.''" "''.tree_step'' @ rest" a b]
    episode_recovered [of "''draft_pim.''" "''.proposal'' @ rest" a b]
  by (simp add: is_digit_def)

text \<open>Events of the log.\<close>

datatype log_event = Log_start string DeviceType int | Log_end string DeviceType int

fun log_step :: "log_event \<Rightarrow> Logger \<Rightarrow> Logger" where
  "log_step (Log_start l d c) lg = update_start_at l d c lg"
| "log_step (Log_end l d c) lg = update_end_at l d c lg"

fun log_ends :: "string \<Rightarrow> DeviceType \<Rightarrow> log_event list \<Rightarrow> int list" where
  "log_ends l d [] = []"
| "log_ends l d (Log_end l' d' c # es) = (if l' = l \<and> d' = d then c # log_ends l d es else log_ends l d es)"
| "log_ends l d (Log_start l' d' c # es) = log_ends l d es"

lemma device_log_step:
  assumes "d \<in> {HOST, PIM, DRAM}"
  shows "device_log d (log_step e lg) l =
    (case e of
       Log_start l' d' c \<Rightarrow> if l' = l \<and> d' = d \<and> device_log d lg l = None then Some (c, 0) else device_log d lg l
     | Log_end l' d' c \<Rightarrow> if l' = l \<and> d' = d then Some (fst (entry (device_log d lg) l (0, 0)), c) else device_log d lg l)"
  using assms
  by (cases e; rename_tac l' d' c; case_tac d')
    (auto simp: device_log_def update_start_at_def update_end_at_def log_first_def log_second_def)

lemma device_log_run:
  assumes "d \<in> {HOST, PIM, DRAM}" "device_log d lg l = Some (s, f)"
  shows "device_log d (fold log_step es lg) l = Some (s, last (f # log_ends l d es))"
  using assms(2)
proof (induction es arbitrary: lg f)
  case (Cons e es)
  show ?case
  proof (cases e)
    case (Log_start l' d' c)
    then have "device_log d (log_step e lg) l = Some (s, f)" using device_log_step [OF assms(1), of e lg l] Cons.prems by simp
    from Cons.IH [OF this] show ?thesis by (simp add: Log_start)
  next
    case (Log_end l' d' c)
    have "device_log d (log_step e lg) l = Some (s, if l' = l \<and> d' = d then c else f)"
      using device_log_step [OF assms(1), of e lg l] Cons.prems by (simp add: Log_end entry_def)
    from Cons.IH [OF this] show ?thesis by (simp add: Log_end)
  qed
qed simp

text \<open>
  The log keeps the first start and the last end: whatever is logged for other layers and devices in
  between, a layer whose first event on a device is a start is shown with the cycle of its first start and of
  its last end.
\<close>

theorem log_first_start_last_end:
  assumes "d \<in> {HOST, PIM, DRAM}" "device_log d lg l = None"
  shows "device_log d (fold log_step (Log_start l d c # es) lg) l = Some (c, last (0 # log_ends l d es))"
  using device_log_run [OF assms(1), of "log_step (Log_start l d c) lg" l c 0 es] device_log_step [OF assms(1), of "Log_start l d c" lg l]
    assms(2) by simp

theorem log_first_start_last_end_witness:
  "device_log PIM (fold log_step [Log_start ''k'' PIM 4, Log_start ''k'' PIM 7, Log_end ''k'' HOST 8, Log_end ''k'' PIM 9] Logger_new) ''k''
     = Some (4, 9)"
  using log_first_start_last_end [of PIM Logger_new "''k''" 4 "[Log_start ''k'' PIM 7, Log_end ''k'' HOST 8, Log_end ''k'' PIM 9]"]
  by (simp add: device_log_def Logger_new_def)

text \<open>
  An end that is logged before any start creates the entry with start 0, and a later start does not
  change it: the row shows cycle 0 as its start.
\<close>

lemma log_end_before_start:
  assumes "d \<in> {HOST, PIM, DRAM}" "device_log d lg l = None"
  shows "device_log d (log_step (Log_start l d c) (log_step (Log_end l d f) lg)) l = Some (0, f)"
  using device_log_step [OF assms(1), of "Log_end l d f" lg l]
    device_log_step [OF assms(1), of "Log_start l d c" "log_step (Log_end l d f) lg" l] assms(2)
  by (simp add: entry_def)

end
