(* ===== verification/Arbiter_Model.thy ===== *)
theory Arbiter_Model
  imports Sim_Globals
begin

text \<open>
  \<^verbatim>\<open>hsim/components/arbiter.cpp\<close>: the switch between the initiators (host and NPU) and the memory devices.  A
  request waits in the event queue of the socket until the end of the delta cycle, then in a queue from which one
  is forwarded at each falling edge; responses take the same way back at the rising edges.  The number of
  devices bound to the initiator socket, \<open>nt\<close>, is decided by \<^verbatim>\<open>components/Top.h\<close>.
\<close>

record Arbiter =
  ab_peq_fw :: "payload list"
  ab_peq_bw :: "payload list"
  ab_fw_queue :: "(payload \<times> nat) list"
  ab_bw_queue :: "(payload \<times> nat) list"
  ab_fw_phase_map :: "nat \<Rightarrow> tlm_phase"
  ab_bw_phase_map :: "nat \<Rightarrow> tlm_phase"

definition Arbiter_new :: Arbiter where
  "Arbiter_new = \<lparr>ab_peq_fw = [], ab_peq_bw = [], ab_fw_queue = [], ab_bw_queue = [], ab_fw_phase_map = (\<lambda>_. UNINITIALIZED_PHASE),
     ab_bw_phase_map = (\<lambda>_. UNINITIALIZED_PHASE)\<rparr>"

section \<open>Operations\<close>

definition arb_transport_fw :: "payload \<Rightarrow> tlm_phase \<Rightarrow> Arbiter \<Rightarrow> tlm_sync \<times> Arbiter" where
  "arb_transport_fw t phase s =
     (if phase = BEGIN_REQ then
        (TLM_UPDATED, s\<lparr>ab_fw_phase_map := (ab_fw_phase_map s)(gp_ptr t := phase), ab_peq_fw := ab_peq_fw s @ [t]\<rparr>)
      else if phase = END_RESP then (TLM_COMPLETED, s)
      else (TLM_UPDATED, s))"

definition arb_transport_bw :: "payload \<Rightarrow> tlm_phase \<Rightarrow> Arbiter \<Rightarrow> tlm_sync \<times> Arbiter" where
  "arb_transport_bw t phase s =
     (TLM_UPDATED, s\<lparr>ab_bw_phase_map := (ab_bw_phase_map s)(gp_ptr t := phase), ab_peq_bw := ab_peq_bw s @ [t]\<rparr>)"

definition arb_target :: "bool \<Rightarrow> payload \<Rightarrow> nat" where
  "arb_target dram_on t = (if dram_on then (case dst_id t of DRAM \<Rightarrow> 0 | PIM \<Rightarrow> 1 | _ \<Rightarrow> 0) else 0)"

definition arb_source :: "payload \<Rightarrow> nat" where
  "arb_source t = (if src_id t = HOST then 0 else 1)"

definition arb_peq_fw_cb :: "bool \<Rightarrow> payload \<Rightarrow> Arbiter \<Rightarrow> Arbiter" where
  "arb_peq_fw_cb dram_on t s = s\<lparr>ab_fw_queue := ab_fw_queue s @ [(t, arb_target dram_on t)]\<rparr>"

definition arb_peq_bw_cb :: "payload \<Rightarrow> Arbiter \<Rightarrow> Arbiter" where
  "arb_peq_bw_cb t s = s\<lparr>ab_bw_queue := ab_bw_queue s @ [(t, arb_source t)]\<rparr>"

text \<open>
  The bindings of \<^verbatim>\<open>Top::bind_modules\<close>, in its order: the modules behind the indices of the target socket and
  of the initiator socket.
\<close>

definition initiator_sockets :: "DeviceType list" where
  "initiator_sockets = [HOST, NPU]"

definition device_sockets :: "bool \<Rightarrow> bool \<Rightarrow> DeviceType list" where
  "device_sockets dram_on pim_on = (if dram_on then [DRAM] else []) @ (if pim_on then [PIM] else [])"

text \<open>A call on a socket: its index, the payload and the phase.\<close>

type_synonym arb_call = "nat \<times> payload \<times> tlm_phase"

definition arb_clock_posedge :: "Arbiter \<Rightarrow> arb_call list \<times> Arbiter" where
  "arb_clock_posedge s =
     (case ab_bw_queue s of
        [] \<Rightarrow> ([], s)
      | (t, i) # q \<Rightarrow> ([(i, t, ab_bw_phase_map s (gp_ptr t))], s\<lparr>ab_bw_queue := q\<rparr>))"

definition arb_clock_negedge :: "nat \<Rightarrow> Arbiter \<Rightarrow> (arb_call list \<times> Arbiter) res" where
  "arb_clock_negedge nt s =
     (case ab_fw_queue s of
        [] \<Rightarrow> Inr ([], s)
      | (t, i) # q \<Rightarrow>
          if i < nt then Inr ([(i, t, ab_fw_phase_map s (gp_ptr t))], s\<lparr>ab_fw_queue := q\<rparr>) else Inl OutOfRange)"

text \<open>
  The event queues call back for every payload they hold, in the order of their notification, before time
  advances.
\<close>

definition arb_delta_fw :: "bool \<Rightarrow> Arbiter \<Rightarrow> Arbiter" where
  "arb_delta_fw dram_on s = fold (arb_peq_fw_cb dram_on) (ab_peq_fw s) (s\<lparr>ab_peq_fw := []\<rparr>)"

definition arb_delta_bw :: "Arbiter \<Rightarrow> Arbiter" where
  "arb_delta_bw s = fold arb_peq_bw_cb (ab_peq_bw s) (s\<lparr>ab_peq_bw := []\<rparr>)"

datatype arb_op = Arb_fw payload tlm_phase | Arb_bw payload tlm_phase | Arb_delta_fw | Arb_delta_bw | Arb_posedge | Arb_negedge

text \<open>A step makes calls on the initiator socket (to the devices) and on the target socket (to host and NPU).\<close>

fun arb_step :: "bool \<Rightarrow> nat \<Rightarrow> arb_op \<Rightarrow> Arbiter \<Rightarrow> (arb_call list \<times> arb_call list \<times> Arbiter) res" where
  "arb_step dram_on nt (Arb_fw t p) s = Inr ([], [], snd (arb_transport_fw t p s))"
| "arb_step dram_on nt (Arb_bw t p) s = Inr ([], [], snd (arb_transport_bw t p s))"
| "arb_step dram_on nt Arb_delta_fw s = Inr ([], [], arb_delta_fw dram_on s)"
| "arb_step dram_on nt Arb_delta_bw s = Inr ([], [], arb_delta_bw s)"
| "arb_step dram_on nt Arb_posedge s = (case arb_clock_posedge s of (ups, s1) \<Rightarrow> Inr ([], ups, s1))"
| "arb_step dram_on nt Arb_negedge s = bindE (arb_clock_negedge nt s) (\<lambda>(downs, s1). Inr (downs, [], s1))"

fun arb_steps :: "bool \<Rightarrow> nat \<Rightarrow> arb_op list \<Rightarrow> Arbiter \<Rightarrow> (arb_call list \<times> arb_call list \<times> Arbiter) res" where
  "arb_steps dram_on nt [] s = Inr ([], [], s)"
| "arb_steps dram_on nt (x # xs) s =
     bindE (arb_step dram_on nt x s) (\<lambda>(d1, u1, s1).
     bindE (arb_steps dram_on nt xs s1) (\<lambda>(d2, u2, s2). Inr (d1 @ d2, u1 @ u2, s2)))"

section \<open>Routing\<close>

text \<open>What was accepted in each direction.\<close>

fun accepted_fw :: "arb_op \<Rightarrow> payload list" where
  "accepted_fw (Arb_fw t p) = (if p = BEGIN_REQ then [t] else [])"
| "accepted_fw _ = []"

fun accepted_bw :: "arb_op \<Rightarrow> payload list" where
  "accepted_bw (Arb_bw t p) = [t]"
| "accepted_bw _ = []"

fun responses_only :: "arb_op \<Rightarrow> bool" where
  "responses_only (Arb_bw t p) = (p = BEGIN_RESP)"
| "responses_only _ = True"

abbreviation arb_down :: "bool \<Rightarrow> payload \<Rightarrow> arb_call" where
  "arb_down dram_on t \<equiv> (arb_target dram_on t, t, BEGIN_REQ)"

abbreviation arb_up :: "payload \<Rightarrow> arb_call" where
  "arb_up t \<equiv> (arb_source t, t, BEGIN_RESP)"

definition waiting_fw :: "bool \<Rightarrow> Arbiter \<Rightarrow> arb_call list" where
  "waiting_fw dram_on s = map (\<lambda>(t, i). (i, t, BEGIN_REQ)) (ab_fw_queue s) @ map (arb_down dram_on) (ab_peq_fw s)"

definition waiting_bw :: "Arbiter \<Rightarrow> arb_call list" where
  "waiting_bw s = map (\<lambda>(t, i). (i, t, BEGIN_RESP)) (ab_bw_queue s) @ map arb_up (ab_peq_bw s)"

definition arb_inv :: "bool \<Rightarrow> nat \<Rightarrow> Arbiter \<Rightarrow> bool" where
  "arb_inv dram_on nt s =
     ((\<forall>(t, i) \<in> set (ab_fw_queue s). ab_fw_phase_map s (gp_ptr t) = BEGIN_REQ \<and> i < nt)
      \<and> (\<forall>t \<in> set (ab_peq_fw s). ab_fw_phase_map s (gp_ptr t) = BEGIN_REQ \<and> arb_target dram_on t < nt)
      \<and> (\<forall>(t, i) \<in> set (ab_bw_queue s). ab_bw_phase_map s (gp_ptr t) = BEGIN_RESP)
      \<and> (\<forall>t \<in> set (ab_peq_bw s). ab_bw_phase_map s (gp_ptr t) = BEGIN_RESP))"

lemma arb_delta_fw_eq:
  "arb_delta_fw dram_on s = s\<lparr>ab_fw_queue := ab_fw_queue s @ map (\<lambda>t. (t, arb_target dram_on t)) (ab_peq_fw s), ab_peq_fw := []\<rparr>"
proof -
  have "fold (arb_peq_fw_cb dram_on) ts s = s\<lparr>ab_fw_queue := ab_fw_queue s @ map (\<lambda>t. (t, arb_target dram_on t)) ts\<rparr>" for ts s
    by (induction ts arbitrary: s) (simp_all add: arb_peq_fw_cb_def)
  then show ?thesis by (simp add: arb_delta_fw_def)
qed

lemma arb_delta_bw_eq:
  "arb_delta_bw s = s\<lparr>ab_bw_queue := ab_bw_queue s @ map (\<lambda>t. (t, arb_source t)) (ab_peq_bw s), ab_peq_bw := []\<rparr>"
proof -
  have "fold arb_peq_bw_cb ts s = s\<lparr>ab_bw_queue := ab_bw_queue s @ map (\<lambda>t. (t, arb_source t)) ts\<rparr>" for ts s
    by (induction ts arbitrary: s) (simp_all add: arb_peq_bw_cb_def)
  then show ?thesis by (simp add: arb_delta_bw_def)
qed

lemma arb_step_ok:
  assumes "arb_inv dram_on nt s" "responses_only x" "\<forall>t \<in> set (accepted_fw x). arb_target dram_on t < nt"
  shows "\<exists>d u s'. arb_step dram_on nt x s = Inr (d, u, s') \<and> arb_inv dram_on nt s'
    \<and> d @ waiting_fw dram_on s' = waiting_fw dram_on s @ map (arb_down dram_on) (accepted_fw x)
    \<and> u @ waiting_bw s' = waiting_bw s @ map arb_up (accepted_bw x)"
proof (cases x)
  case (Arb_fw t p)
  then show ?thesis using assms by (auto simp: arb_transport_fw_def arb_inv_def waiting_fw_def waiting_bw_def)
next
  case (Arb_bw t p)
  then show ?thesis using assms by (auto simp: arb_transport_bw_def arb_inv_def waiting_fw_def waiting_bw_def)
next
  case Arb_delta_fw
  then show ?thesis using assms(1) by (auto simp: arb_delta_fw_eq arb_inv_def waiting_fw_def waiting_bw_def)
next
  case Arb_delta_bw
  then show ?thesis using assms(1) by (auto simp: arb_delta_bw_eq arb_inv_def waiting_fw_def waiting_bw_def)
next
  case Arb_posedge
  then show ?thesis using assms(1) by (auto simp: arb_clock_posedge_def arb_inv_def waiting_fw_def waiting_bw_def split: list.split)
next
  case Arb_negedge
  then show ?thesis using assms(1) by (auto simp: arb_clock_negedge_def arb_inv_def waiting_fw_def waiting_bw_def split: list.split)
qed

lemma arb_steps_ok:
  assumes "arb_inv dram_on nt s" "\<forall>x \<in> set xs. responses_only x" "\<forall>t \<in> set (concat (map accepted_fw xs)). arb_target dram_on t < nt"
  shows "\<exists>d u s'. arb_steps dram_on nt xs s = Inr (d, u, s') \<and> arb_inv dram_on nt s'
    \<and> d @ waiting_fw dram_on s' = waiting_fw dram_on s @ map (arb_down dram_on) (concat (map accepted_fw xs))
    \<and> u @ waiting_bw s' = waiting_bw s @ map arb_up (concat (map accepted_bw xs))"
  using assms
proof (induction xs arbitrary: s)
  case (Cons x xs)
  obtain d u s1 where x: "arb_step dram_on nt x s = Inr (d, u, s1)" "arb_inv dram_on nt s1"
    "d @ waiting_fw dram_on s1 = waiting_fw dram_on s @ map (arb_down dram_on) (accepted_fw x)"
    "u @ waiting_bw s1 = waiting_bw s @ map arb_up (accepted_bw x)"
    using arb_step_ok [OF Cons.prems(1), of x] Cons.prems(2,3) by auto
  obtain d2 u2 s2 where xs: "arb_steps dram_on nt xs s1 = Inr (d2, u2, s2)" "arb_inv dram_on nt s2"
    "d2 @ waiting_fw dram_on s2 = waiting_fw dram_on s1 @ map (arb_down dram_on) (concat (map accepted_fw xs))"
    "u2 @ waiting_bw s2 = waiting_bw s1 @ map arb_up (concat (map accepted_bw xs))"
    using Cons.IH [OF x(2)] Cons.prems(2,3) by auto
  let ?f = "\<lambda>xs. map (arb_down dram_on) (concat (map accepted_fw xs))" and ?b = "\<lambda>xs. map arb_up (concat (map accepted_bw xs))"
  have "(d @ d2) @ waiting_fw dram_on s2 = (d @ waiting_fw dram_on s1) @ ?f xs" using xs(3) by simp
  also have "\<dots> = waiting_fw dram_on s @ ?f (x # xs)" unfolding x(3) by simp
  finally have "(d @ d2) @ waiting_fw dram_on s2 = waiting_fw dram_on s @ ?f (x # xs)" .
  moreover have "(u @ u2) @ waiting_bw s2 = (u @ waiting_bw s1) @ ?b xs" using xs(4) by simp
  then have "(u @ u2) @ waiting_bw s2 = waiting_bw s @ ?b (x # xs)" unfolding x(4) by simp
  ultimately show ?case using x(1) xs(1,2) by simp
qed simp

text \<open>
  The indices that the arbiter computes are those of the bindings: the target is the device that the destination names, or the only
  device when there is no DRAM; the source is the initiator that the payload names.
\<close>

lemma arb_target_bound:
  assumes "(if dr then dst_id t else PIM) \<in> set (device_sockets dr pm)"
  shows "arb_target dr t < length (device_sockets dr pm) \<and> device_sockets dr pm ! arb_target dr t = (if dr then dst_id t else PIM)"
  using assms by (auto simp: arb_target_def device_sockets_def split: if_splits)

lemma arb_source_bound:
  assumes "src_id t \<in> set initiator_sockets"
  shows "arb_source t < length initiator_sockets \<and> initiator_sockets ! arb_source t = src_id t"
  using assms by (auto simp: arb_source_def initiator_sockets_def)

section \<open>Properties\<close>

text \<open>
  Claim C28. The arbiter loses, duplicates and reorders nothing, and routes by the bindings of the assembly: for any interleaving of requests for a
  bound device, responses of requests of a bound initiator, delta cycles and clock edges no step fails; the payloads called on the devices followed by
  those still queued are the requests accepted, in their order, and each call is made on the socket to which the device of its destination is bound (the
  only device, when there is no DRAM); and the same for the responses, each called on the socket of the host or the NPU that its source names.
\<close>

theorem arbiter_routes_in_order:
  assumes "\<forall>x \<in> set xs. responses_only x"
    and "\<forall>t \<in> set (concat (map accepted_fw xs)). (if dr then dst_id t else PIM) \<in> set (device_sockets dr pm)"
    and "\<forall>t \<in> set (concat (map accepted_bw xs)). src_id t \<in> set initiator_sockets"
  shows "\<exists>downs ups s. arb_steps dr (length (device_sockets dr pm)) xs Arbiter_new = Inr (downs, ups, s)
    \<and> map (fst \<circ> snd) downs @ map fst (ab_fw_queue s) @ ab_peq_fw s = concat (map accepted_fw xs)
    \<and> map (fst \<circ> snd) ups @ map fst (ab_bw_queue s) @ ab_peq_bw s = concat (map accepted_bw xs)
    \<and> list_all (\<lambda>(i, t, p). i < length (device_sockets dr pm) \<and> device_sockets dr pm ! i = (if dr then dst_id t else PIM) \<and> p = BEGIN_REQ) downs
    \<and> list_all (\<lambda>(i, t, p). i < length initiator_sockets \<and> initiator_sockets ! i = src_id t \<and> p = BEGIN_RESP) ups"
proof -
  let ?nt = "length (device_sockets dr pm)" and ?fw = "concat (map accepted_fw xs)" and ?bw = "concat (map accepted_bw xs)"
  have new: "arb_inv dr ?nt Arbiter_new" "waiting_fw dr Arbiter_new = []" "waiting_bw Arbiter_new = []"
    by (simp_all add: arb_inv_def waiting_fw_def waiting_bw_def Arbiter_new_def)
  have "\<forall>t \<in> set ?fw. arb_target dr t < ?nt" using assms(2) arb_target_bound by blast
  from arb_steps_ok [OF new(1) assms(1) this] new(2,3) obtain d u s where r: "arb_steps dr ?nt xs Arbiter_new = Inr (d, u, s)"
    "d @ waiting_fw dr s = map (arb_down dr) ?fw" "u @ waiting_bw s = map arb_up ?bw" by fastforce
  have f: "map (fst \<circ> snd) d @ map fst (ab_fw_queue s) @ ab_peq_fw s = ?fw"
    using arg_cong [OF r(2), of "map (fst \<circ> snd)"] by (simp add: waiting_fw_def comp_def case_prod_beta)
  have b: "map (fst \<circ> snd) u @ map fst (ab_bw_queue s) @ ab_peq_bw s = ?bw"
    using arg_cong [OF r(3), of "map (fst \<circ> snd)"] by (simp add: waiting_bw_def comp_def case_prod_beta)
  have "set d \<subseteq> arb_down dr ` set ?fw" using arg_cong [OF r(2), of set] by auto
  then have df: "list_all (\<lambda>(i, t, p). i < ?nt \<and> device_sockets dr pm ! i = (if dr then dst_id t else PIM) \<and> p = BEGIN_REQ) d"
    using assms(2) arb_target_bound by (force simp: list_all_iff)
  have "set u \<subseteq> arb_up ` set ?bw" using arg_cong [OF r(3), of set] by auto
  then have "list_all (\<lambda>(i, t, p). i < length initiator_sockets \<and> initiator_sockets ! i = src_id t \<and> p = BEGIN_RESP) u"
    using assms(3) arb_source_bound by (force simp: list_all_iff)
  with r(1) f b df show ?thesis by blast
qed

definition arb_sample :: "nat \<Rightarrow> DeviceType \<Rightarrow> DeviceType \<Rightarrow> payload" where
  "arb_sample p src dst = \<lparr>gp_ptr = p, gp_command = TLM_READ, gp_address = 0, gp_length = 64, src_id = src, dst_id = dst,
     bst_id = 0, bst_size = 1, gp_head = False, gp_last = False, gp_layer = [], pim_cmd = []\<rparr>"

definition arb_sample_ops :: "arb_op list" where
  "arb_sample_ops = [Arb_fw (arb_sample 1 NPU DRAM) BEGIN_REQ, Arb_fw (arb_sample 2 HOST PIM) BEGIN_REQ, Arb_delta_fw, Arb_negedge,
     Arb_bw (arb_sample 1 NPU DRAM) BEGIN_RESP, Arb_negedge, Arb_bw (arb_sample 2 HOST PIM) BEGIN_RESP, Arb_delta_bw, Arb_posedge, Arb_posedge]"

theorem arbiter_routes_in_order_witness:
  "\<exists>s. arb_steps True 2 arb_sample_ops Arbiter_new
     = Inr ([(0, arb_sample 1 NPU DRAM, BEGIN_REQ), (1, arb_sample 2 HOST PIM, BEGIN_REQ)],
            [(1, arb_sample 1 NPU DRAM, BEGIN_RESP), (0, arb_sample 2 HOST PIM, BEGIN_RESP)], s)"
proof -
  have h: "\<forall>x \<in> set arb_sample_ops. responses_only x"
    "\<forall>t \<in> set (concat (map accepted_fw arb_sample_ops)). (if True then dst_id t else PIM) \<in> set (device_sockets True True)"
    "\<forall>t \<in> set (concat (map accepted_bw arb_sample_ops)). src_id t \<in> set initiator_sockets"
    by (simp_all add: arb_sample_ops_def arb_sample_def device_sockets_def initiator_sockets_def)
  have acc: "concat (map accepted_fw arb_sample_ops) = [arb_sample 1 NPU DRAM, arb_sample 2 HOST PIM]"
    "concat (map accepted_bw arb_sample_ops) = [arb_sample 1 NPU DRAM, arb_sample 2 HOST PIM]" by (simp_all add: arb_sample_ops_def)
  have sockets: "device_sockets True True = [DRAM, PIM]" "initiator_sockets = [HOST, NPU]" by (simp_all add: device_sockets_def initiator_sockets_def)
  have two: "length [DRAM, PIM] = 2" "length [HOST, NPU] = 2" by simp_all
  obtain d u s where r: "arb_steps True 2 arb_sample_ops Arbiter_new = Inr (d, u, s)"
    "map (fst \<circ> snd) d @ map fst (ab_fw_queue s) @ ab_peq_fw s = [arb_sample 1 NPU DRAM, arb_sample 2 HOST PIM]"
    "map (fst \<circ> snd) u @ map fst (ab_bw_queue s) @ ab_peq_bw s = [arb_sample 1 NPU DRAM, arb_sample 2 HOST PIM]"
    "list_all (\<lambda>(i, t, p). i < 2 \<and> [DRAM, PIM] ! i = (if True then dst_id t else PIM) \<and> p = BEGIN_REQ) d"
    "list_all (\<lambda>(i, t, p). i < 2 \<and> [HOST, NPU] ! i = src_id t \<and> p = BEGIN_RESP) u"
    using arbiter_routes_in_order [OF h, unfolded acc sockets two] by blast
  have "case arb_steps True 2 arb_sample_ops Arbiter_new of Inr (_, _, s) \<Rightarrow>
      ab_fw_queue s = [] \<and> ab_peq_fw s = [] \<and> ab_bw_queue s = [] \<and> ab_peq_bw s = [] | _ \<Rightarrow> False" by code_simp
  then have "map (fst \<circ> snd) d = [arb_sample 1 NPU DRAM, arb_sample 2 HOST PIM]" "map (fst \<circ> snd) u = [arb_sample 1 NPU DRAM, arb_sample 2 HOST PIM]"
    using r(1-3) by auto
  then have "d = [(0, arb_sample 1 NPU DRAM, BEGIN_REQ), (1, arb_sample 2 HOST PIM, BEGIN_REQ)]"
    "u = [(1, arb_sample 1 NPU DRAM, BEGIN_RESP), (0, arb_sample 2 HOST PIM, BEGIN_RESP)]"
    using r(4,5) by (auto simp: arb_sample_def less_2_cases_iff)
  with r(1) show ?thesis by blast
qed

text \<open>
  With \<^verbatim>\<open>memory_structure = baseline\<close> only the DRAM is bound, and a request for the PIM indexes the initiator
  socket out of its range.
\<close>

lemma unbound_pim_fails:
  "dst_id t = PIM \<Longrightarrow> arb_steps True 1 [Arb_fw t BEGIN_REQ, Arb_delta_fw, Arb_negedge] Arbiter_new = Inl OutOfRange"
  by (simp add: arb_transport_fw_def arb_delta_fw_eq arb_clock_negedge_def arb_target_def Arbiter_new_def)

end
