(* ===== verification/Dram_Macro.thy ===== *)
theory Dram_Macro
  imports Sim_Globals
begin

text \<open>
  \<^verbatim>\<open>hsim/components/dram_macro_model.cpp\<close>: the calibrated latency model for tensor-sized requests.  The
  calibration streams requests through a bridge of its own; the floating-point fit of its measurements is
  not modelled, and neither is the constructor's choice of it.  \<open>service\<close> in \<open>estimate_ns\<close> stands for the rounded-up
  \<^verbatim>\<open>raw_ns\<close> of a number of requests after the first.
\<close>

definition is_macro_request :: "payload \<Rightarrow> bool" where
  "is_macro_request t = (pim_cmd t = ''fast_memory'')"

definition macro_bytes :: "payload \<Rightarrow> u64" where
  "macro_bytes t = push_bit 32 (ucast (bst_size t)) OR ucast (gp_length t)"

record MacroModel =
  mm_analytic :: bool
  fixed_latency_ns :: u64
  bandwidth_ns :: "u64 \<Rightarrow> u64"
  request_bytes :: u32
  service :: "bool \<Rightarrow> u64 \<Rightarrow> u64"

definition estimate_ns :: "MacroModel \<Rightarrow> tlm_command \<Rightarrow> u64 \<Rightarrow> u64" where
  "estimate_ns m cmd bytes =
     (if bytes = 0 then 0
      else if mm_analytic m then fixed_latency_ns m + bandwidth_ns m bytes
      else let n_req = (bytes + ucast (request_bytes m) - 1) div ucast (request_bytes m) in
           fixed_latency_ns m + service m (cmd = TLM_WRITE) (if n_req > 0 then n_req - 1 else 0))"

section \<open>The configuration of one channel\<close>

text \<open>\<^verbatim>\<open>std::string::rfind\<close>: the last occurrence.\<close>

fun str_rfind :: "string \<Rightarrow> string \<Rightarrow> nat option" where
  "str_rfind p [] = (if p = [] then Some 0 else None)"
| "str_rfind p (c # s) =
     (case str_rfind p s of
        Some k \<Rightarrow> Some (Suc k)
      | None \<Rightarrow> if take (length p) (c # s) = p then Some 0 else None)"

definition one_channel_config_path :: "string \<Rightarrow> string res" where
  "one_channel_config_path path =
     (case (str_rfind ''_ch'' path, str_rfind ''.ini'' path) of
        (Some marker, Some extension) \<Rightarrow>
          if extension \<le> marker + 3 then Inl (Thrown ''Cannot derive one-channel DRAMsim3 configuration'')
          else if \<not> list_all is_digit (take (extension - marker - 3) (drop (marker + 3) path))
          then Inl (Thrown ''Cannot derive one-channel DRAMsim3 configuration'')
          else Inr (take marker path @ ''_ch1'' @ drop extension path)
      | _ \<Rightarrow> Inl (Thrown ''Cannot derive one-channel DRAMsim3 configuration''))"

lemma str_rfind_absent: "p \<noteq> [] \<Longrightarrow> hd p \<notin> set s \<Longrightarrow> str_rfind p s = None"
proof (induction s)
  case (Cons c s)
  then show ?case by (cases p) auto
qed simp

lemma str_rfind_later: "str_rfind p s = Some k \<Longrightarrow> str_rfind p (xs @ s) = Some (length xs + k)"
  by (induction xs) simp_all

lemma str_rfind_here: "str_rfind p (tl p @ s) = None \<Longrightarrow> p \<noteq> [] \<Longrightarrow> str_rfind p (p @ s) = Some 0"
  by (cases p) auto

lemma one_channel_path:
  assumes "list_all is_digit ds" "ds \<noteq> []"
  shows "one_channel_config_path (pre @ ''_ch'' @ ds @ ''.ini'') = Inr (pre @ ''_ch1.ini'')"
proof -
  have "\<not> is_digit (CHR ''_'')" "\<not> is_digit (CHR ''.'')" by (simp_all add: is_digit_def)
  then have d: "CHR ''_'' \<notin> set ds" "CHR ''.'' \<notin> set ds" using assms(1) unfolding list_all_iff by blast+
  have "str_rfind ''_ch'' (tl ''_ch'' @ ds @ ''.ini'') = None" by (rule str_rfind_absent) (use d in auto)
  from str_rfind_later [OF str_rfind_here [OF this], of pre]
  have m: "str_rfind ''_ch'' (pre @ ''_ch'' @ ds @ ''.ini'') = Some (length pre)" by (simp del: str_rfind.simps)
  have "str_rfind ''.ini'' (tl ''.ini'' @ []) = None" by (rule str_rfind_absent) auto
  from str_rfind_later [OF str_rfind_here [OF this], of "pre @ ''_ch'' @ ds"]
  have e: "str_rfind ''.ini'' (pre @ ''_ch'' @ ds @ ''.ini'') = Some (length pre + 3 + length ds)" by (simp del: str_rfind.simps)
  have "drop (length pre + 3) (pre @ ''_ch'' @ ds @ ''.ini'') = ds @ ''.ini''"
    "drop (length pre + 3 + length ds) (pre @ ''_ch'' @ ds @ ''.ini'') = ''.ini''"
    using split_at(1) [of "length pre + 3" "pre @ ''_ch''" "ds @ ''.ini''"]
      split_at(1) [of "length pre + 3 + length ds" "pre @ ''_ch'' @ ds" "''.ini''"] by simp_all
  then show ?thesis using m e assms by (simp add: one_channel_config_path_def del: str_rfind.simps)
qed

section \<open>Calibration\<close>

text \<open>The requests of a stream; the payloads are new objects.\<close>

definition stream_payload :: "tlm_command \<Rightarrow> u64 \<Rightarrow> u32 \<Rightarrow> nat \<Rightarrow> payload" where
  "stream_payload cmd base bytes k =
     \<lparr>gp_ptr = k, gp_command = cmd, gp_address = base + of_nat k * ucast bytes, gp_length = bytes, src_id = HOST, dst_id = HOST,
      bst_id = 0, bst_size = 0, gp_head = False, gp_last = False, gp_layer = [], pim_cmd = []\<rparr>"

fun stream_loop :: "(u64 \<Rightarrow> ps_time) \<Rightarrow> ps_time \<Rightarrow> payload list \<Rightarrow> Bridge \<Rightarrow> Bridge res" where
  "stream_loop ns now [] b = Inr b"
| "stream_loop ns now (t # ts) b = bindE (sendCommand ns now t b) (stream_loop ns now ts)"

function collect_loop :: "Bridge \<Rightarrow> u32 \<Rightarrow> u32 \<times> Bridge" where
  "collect_loop b completed =
     (case getCompletedCommand b of
        (None, b') \<Rightarrow> (completed, b')
      | (Some t, b') \<Rightarrow> collect_loop b' (completed + 1))"
  by pat_completeness auto
termination
  by (relation "measure (\<lambda>(b, c). length (outgoingQueue b))") (auto simp: getCompletedCommand_def split: list.splits)

declare collect_loop.simps [simp del]

text \<open>The measuring loop, with the ticks still allowed.\<close>

fun measure_loop :: "ps_time \<Rightarrow> u32 \<Rightarrow> nat \<Rightarrow> Bridge \<Rightarrow> u32 \<Rightarrow> u64 \<Rightarrow> (u32 \<times> u64 \<times> Bridge) res" where
  "measure_loop now reqs 0 b completed ticks = Inr (completed, ticks, b)"
| "measure_loop now reqs (Suc fuel) b completed ticks =
     (if completed < reqs then
        bindE (Bridge_ClockTick now b) (\<lambda>b1.
        case collect_loop b1 completed of (completed', b2) \<Rightarrow> measure_loop now reqs fuel b2 completed' (ticks + 1))
      else Inr (completed, ticks, b))"

abbreviation max_ticks :: nat where "max_ticks \<equiv> 10000000"

definition measure_stream ::
    "(u64 \<Rightarrow> ps_time) \<Rightarrow> ps_time \<Rightarrow> MemorySystem \<Rightarrow> u32 \<Rightarrow> tlm_command \<Rightarrow> u64 \<Rightarrow> u32 \<Rightarrow> (u64 \<times> u32) res" where
  "measure_stream ns now m bytes cmd base reqs =
     bindE (stream_loop ns now (map (stream_payload cmd base bytes) [0..<unat reqs]) (Bridge_new m)) (\<lambda>b.
     bindE (measure_loop now reqs max_ticks b 0 0) (\<lambda>(completed, ticks, b').
     if completed \<noteq> reqs then Inl (Thrown ''DRAMsim3 macro calibration did not complete'')
     else Inr (ticks, completed)))"

section \<open>The stream on a device\<close>

lemma collect_loop_all: "collect_loop b c = (c + of_nat (length (outgoingQueue b)), b\<lparr>outgoingQueue := []\<rparr>)"
proof (induction b c rule: collect_loop.induct)
  case (1 b c)
  show ?case
  proof (cases "outgoingQueue b")
    case Nil
    then show ?thesis by (subst collect_loop.simps) (simp add: getCompletedCommand_def)
  next
    case (Cons t q)
    have "collect_loop (b\<lparr>outgoingQueue := q\<rparr>) (c + 1) = (c + 1 + of_nat (length q), b\<lparr>outgoingQueue := []\<rparr>)"
      using 1 Cons by (simp add: getCompletedCommand_def)
    then show ?thesis using Cons by (subst collect_loop.simps) (simp add: getCompletedCommand_def)
  qed
qed

lemma stream_loop_ok:
  assumes "bridge_valid b" "bridge_horizon n b"
  shows "succeeds (stream_loop ns now ts b) (\<lambda>b'. bridge_valid b' \<and> bridge_horizon n b' \<and> bridge_inflight b' = bridge_inflight b + mset ts)"
  using assms
proof (induction ts arbitrary: b)
  case (Cons t ts)
  from bridge.send_ok [OF Cons.prems, of ns now t] obtain b1 where
    b1: "sendCommand ns now t b = Inr b1" "bridge_valid b1" "bridge_horizon n b1" "bridge_inflight b1 = add_mset t (bridge_inflight b)"
    by (auto simp: succeeds_iff)
  show ?case using Cons.IH [OF b1(2,3)] b1(1,4) by simp
qed simp

lemma collected_ok:
  assumes "bridge_valid b" "bridge_horizon n b"
  shows "bridge_valid (b\<lparr>outgoingQueue := []\<rparr>)" "bridge_horizon n (b\<lparr>outgoingQueue := []\<rparr>)"
    "bridge_inflight b = mset (outgoingQueue b) + bridge_inflight (b\<lparr>outgoingQueue := []\<rparr>)"
  using assms by (simp_all add: bridge_valid_def bridge_horizon_def bridge_inflight_def done_pending_def)

text \<open>The requests counted as completed and those in flight always add up to the requests sent.\<close>

lemma measure_loop_ok:
  assumes "bridge_valid b" "bridge_horizon fuel b" "unat completed + size (bridge_inflight b) = unat reqs" "unat ticks + fuel < 2 ^ 64"
  shows "succeeds (measure_loop now reqs fuel b completed ticks) (\<lambda>(completed', ticks', b').
    unat completed' + size (bridge_inflight b') = unat reqs \<and> unat ticks' \<le> unat ticks + fuel
    \<and> (completed' = reqs \<or> unat ticks' = unat ticks + fuel))"
  using assms
proof (induction fuel arbitrary: b completed ticks)
  case (Suc fuel)
  show ?case
  proof (cases "completed < reqs")
    case True
    from bridge.tick_ok [OF Suc.prems(1,2), of now] obtain b1 where
      b1: "Bridge_ClockTick now b = Inr b1" "bridge_valid b1" "bridge_horizon fuel b1" "bridge_inflight b1 = bridge_inflight b"
      by (auto simp: succeeds_iff)
    let ?b2 = "b1\<lparr>outgoingQueue := []\<rparr>" and ?c = "completed + of_nat (length (outgoingQueue b1))"
    note c = collected_ok [OF b1(2,3)]
    have s: "size (bridge_inflight b) = length (outgoingQueue b1) + size (bridge_inflight ?b2)" using c(3) b1(4) by (metis size_mset size_union)
    have "unat reqs < 2 ^ LENGTH(32)" by (rule unsigned_less)
    then have "unat completed + length (outgoingQueue b1) < 2 ^ 32" using Suc.prems(3) s by simp
    then have "unat ?c = unat completed + length (outgoingQueue b1)"
      by (simp add: unat_word_ariths unat_of_nat take_bit_nat_eq_self)
    then have u: "unat ?c + size (bridge_inflight ?b2) = unat reqs" using Suc.prems(3) s by simp
    have t: "unat (ticks + 1) = unat ticks + 1" using Suc.prems(4) by (simp add: unat_word_ariths)
    have "succeeds (measure_loop now reqs fuel ?b2 ?c (ticks + 1)) (\<lambda>(completed', ticks', b').
      unat completed' + size (bridge_inflight b') = unat reqs \<and> unat ticks' \<le> unat (ticks + 1) + fuel
      \<and> (completed' = reqs \<or> unat ticks' = unat (ticks + 1) + fuel))"
      by (rule Suc.IH [OF c(1,2) u]) (use t Suc.prems(4) in simp)
    then show ?thesis using True b1(1) by (simp add: collect_loop_all t)
  next
    case False
    then have "completed = reqs" using Suc.prems(3) by (simp add: not_less word_le_nat_alt word_unat_eq_iff)
    then show ?thesis using Suc.prems(3) by simp
  qed
qed simp

lemma no_wrap_between:
  assumes "no_wrap tm a" "no_wrap tm c" "a \<le> b" "b \<le> c"
  shows "no_wrap tm b"
  using assms by (force simp: no_wrap_def list_all_iff word_le_def)

section \<open>Properties\<close>

text \<open>
  A calibration run ends: it stops after at most ten million ticks, counts every request as completed exactly once, and
  either returns the number of ticks after which all of them were, or reports that they were not; no request is lost and
  nothing else aborts.
\<close>

theorem calibration_exact:
  assumes "mem_valid m" "bridge_config (ms_config m)" "mem_horizon max_ticks m"
  shows "measure_stream ns now m bytes cmd base reqs = Inl (Thrown ''DRAMsim3 macro calibration did not complete'')
    \<or> (\<exists>ticks. measure_stream ns now m bytes cmd base reqs = Inr (ticks, reqs) \<and> unat ticks \<le> max_ticks)"
proof -
  let ?ts = "map (stream_payload cmd base bytes) [0..<unat reqs]"
  have v: "bridge_valid (Bridge_new m)" "bridge_horizon max_ticks (Bridge_new m)" "bridge_inflight (Bridge_new m) = {#}"
    using assms by (simp_all add: bridge_valid_def bridge_horizon_def bridge_inflight_def Bridge_new_def done_pending_def)
  from stream_loop_ok [OF v(1,2), of ns now ?ts] obtain b where
    b: "stream_loop ns now ?ts (Bridge_new m) = Inr b" "bridge_valid b" "bridge_horizon max_ticks b" "bridge_inflight b = mset ?ts"
    by (auto simp: succeeds_iff v(3))
  have "unat (0 :: u32) + size (bridge_inflight b) = unat reqs" by (simp add: b(4))
  from measure_loop_ok [OF b(2,3) this, of 0 now] obtain completed ticks b' where
    r: "measure_loop now reqs max_ticks b 0 0 = Inr (completed, ticks, b')" "unat ticks \<le> max_ticks"
    by (auto simp: succeeds_iff)
  show ?thesis using b(1) r by (simp add: measure_stream_def)
qed

lemma small_long_horizon: "no_wrap (Timing_new small_config) (2 ^ 24)"
  by code_simp

lemma small_mem_long: "succeeds small_mem (\<lambda>m. mem_valid m \<and> mem_horizon max_ticks m \<and> ms_config m = small_config)"
proof -
  obtain s where s: "JedecDRAMSystem_new small_config = Inr s" "jedec_wf small_config s" "jd_clk s = 0"
    using JedecDRAMSystem_new_ok [OF small_jedec_config] by (auto simp: succeeds_iff)
  have "no_wrap (Timing_new small_config) (of_nat k)" if "k < max_ticks" for k
  proof (rule no_wrap_between [OF _ small_long_horizon])
    show "no_wrap (Timing_new small_config) 0" using small_horizon [of 0] by simp
    have "k mod 2 ^ 64 = k" using that by simp
    then show "of_nat k \<le> (2 ^ 24 :: u64)" using that by (simp add: word_le_nat_alt unat_of_nat take_bit_eq_mod)
  qed simp
  then have "jedec_horizon small_config max_ticks s" by (simp add: jedec_horizon_def s(3))
  then show ?thesis
    using s small_jedec_config by (simp add: small_mem_def mem_valid_def mem_horizon_def)
qed

theorem calibration_exact_witness:
  "succeeds small_mem (\<lambda>m.
     measure_stream (\<lambda>a. 1000 * a) 0 m 64 TLM_READ 4096 3 = Inl (Thrown ''DRAMsim3 macro calibration did not complete'')
     \<or> (\<exists>ticks. measure_stream (\<lambda>a. 1000 * a) 0 m 64 TLM_READ 4096 3 = Inr (ticks, 3) \<and> unat ticks \<le> max_ticks))"
proof (rule succeeds_mono [OF small_mem_long])
  fix m assume "mem_valid m \<and> mem_horizon max_ticks m \<and> ms_config m = small_config"
  then have m: "mem_valid m" "bridge_config (ms_config m)" "mem_horizon max_ticks m" using small_bridge_config by simp_all
  show "measure_stream (\<lambda>a. 1000 * a) 0 m 64 TLM_READ 4096 3 = Inl (Thrown ''DRAMsim3 macro calibration did not complete'')
     \<or> (\<exists>ticks. measure_stream (\<lambda>a. 1000 * a) 0 m 64 TLM_READ 4096 3 = Inr (ticks, 3) \<and> unat ticks \<le> max_ticks)"
    by (rule calibration_exact [OF m])
qed

end
