(* ===== verification/Pim_Wrapper.thy ===== *)
theory Pim_Wrapper
  imports Dram_Macro
begin

text \<open>
  \<^verbatim>\<open>hsim/components/pim_wrapper.cpp\<close>: the processing-in-memory device.  Its SystemC thread runs without
  interruption between two waits; a change of mode waits in the middle of an iteration, so the thread has
  the program points \<open>pim_pc\<close>.  \<open>pim_resume\<close> runs the thread from one wait to the next; the clock edges and
  the arrival of a payload run between them, in any order.  Replies leave through the returned list.
\<close>

section \<open>State\<close>

datatype PimMode = COMPUTE_mode | MEMORY_mode

text \<open>The configuration values the wrapper reads, and its latency model (\<open>None\<close> for the null pointer).\<close>

record PimConfig =
  pc_fast :: bool
  pc_unified :: bool
  mode_change_delay :: "u32 \<times> u32"
  pc_pim_sync :: BaseMap
  pc_host_sync :: BaseMap
  pc_model :: "MacroModel option"

datatype pim_pc = Loop_top | Changing_mode payload | Stopped

record PIMWrapper =
  pw_bridge :: Bridge
  pending_queue :: "payload list"
  memory_completed_queue :: "payload list"
  compute_completed_queue :: "payload list"
  fast_memory_completed_queue :: "(ps_time \<times> payload) list"
  fast_compute_completed_queue :: "(ps_time \<times> payload) list"
  fast_compute_available :: ps_time
  fast_memory_available :: ps_time
  fast_macro_completed :: u64
  detailed_compute_done_time :: "nat \<rightharpoonup> ps_time"
  contention_wait_start :: "nat \<rightharpoonup> ps_time"
  target_memory_wait_count :: u64
  draft_compute_wait_count :: u64
  target_memory_wait_total :: ps_time
  draft_compute_wait_total :: ps_time
  pim_mode :: PimMode
  mode_change_count :: u32
  pending_count :: u32
  memory_busy :: bool
  compute_busy :: bool
  memory_busy_count :: u32
  compute_busy_count :: u32
  pw_pc :: pim_pc

definition PIMWrapper_new :: "MemorySystem \<Rightarrow> PIMWrapper" where
  "PIMWrapper_new m =
     \<lparr>pw_bridge = Bridge_new m, pending_queue = [], memory_completed_queue = [], compute_completed_queue = [],
      fast_memory_completed_queue = [], fast_compute_completed_queue = [], fast_compute_available = 0, fast_memory_available = 0,
      fast_macro_completed = 0, detailed_compute_done_time = Map.empty, contention_wait_start = Map.empty,
      target_memory_wait_count = 0, draft_compute_wait_count = 0, target_memory_wait_total = 0, draft_compute_wait_total = 0,
      pim_mode = MEMORY_mode, mode_change_count = 0, pending_count = 0, memory_busy = False, compute_busy = False,
      memory_busy_count = 0, compute_busy_count = 0, pw_pc = Loop_top\<rparr>"

text \<open>What the thread waits for, and what leaves the wrapper.\<close>

datatype pim_wait = Wait_mode u32 | Wait_period | Wait_events ps_time | Wait_end

datatype pim_output = Send_response nat payload | Released payload | No_reply payload | Compute_finished payload

abbreviation is_compute :: "payload \<Rightarrow> bool" where "is_compute t \<equiv> gp_command t = TLM_PIM"

section \<open>Completions\<close>

text \<open>The common loop: the payloads whose time has come leave the queue, and \<open>f\<close> records each of them.\<close>

fun complete_due ::
    "ps_time \<Rightarrow> (ps_time \<times> payload \<Rightarrow> 's \<Rightarrow> 's) \<Rightarrow> (ps_time \<times> payload) list \<Rightarrow> payload list \<Rightarrow> 's \<Rightarrow> (ps_time \<times> payload) list \<times> payload list \<times> 's" where
  "complete_due now f [] out st = ([], out, st)"
| "complete_due now f (e # q) out st =
     (if fst e \<le> now then complete_due now f q (out @ [snd e]) (f e st) else (e # q, out, st))"

definition record_fast_end :: "TimeConv \<Rightarrow> ps_time \<times> payload \<Rightarrow> Sim \<Rightarrow> Sim" where
  "record_fast_end tc e g =
     metrics_with (request_completed (tc_to_ns tc) PIM_device (snd e) (fst e))
       (log_with (update_end_at (gp_layer (snd e)) PIM (tc_cycle tc (fst e))) g)"

definition complete_fast_memory_requests :: "TimeConv \<Rightarrow> ps_time \<Rightarrow> PIMWrapper \<Rightarrow> Sim \<Rightarrow> PIMWrapper \<times> Sim" where
  "complete_fast_memory_requests tc now s g =
     (case complete_due now (record_fast_end tc) (fast_memory_completed_queue s) (memory_completed_queue s) g of
        (q, out, g') \<Rightarrow> (s\<lparr>fast_memory_completed_queue := q, memory_completed_queue := out\<rparr>, g'))"

definition record_macro_end :: "TimeConv \<Rightarrow> ps_time \<times> payload \<Rightarrow> u64 \<times> Sim \<Rightarrow> u64 \<times> Sim" where
  "record_macro_end tc e st =
     (if is_draft_layer (gp_layer (snd e)) then fst st + 1 else fst st, record_fast_end tc e (snd st))"

definition complete_fast_compute_requests :: "TimeConv \<Rightarrow> ps_time \<Rightarrow> PIMWrapper \<Rightarrow> Sim \<Rightarrow> PIMWrapper \<times> Sim" where
  "complete_fast_compute_requests tc now s g =
     (case complete_due now (record_macro_end tc) (fast_compute_completed_queue s) (compute_completed_queue s) (fast_macro_completed s, g) of
        (q, out, k, g') \<Rightarrow> (s\<lparr>fast_compute_completed_queue := q, compute_completed_queue := out, fast_macro_completed := k\<rparr>, g'))"

lemma complete_due_splits:
  "complete_due now f q out st = (q', out', st') \<Longrightarrow> \<exists>d. q = d @ q' \<and> out' = out @ map snd d \<and> st' = fold f d st"
proof (induction q arbitrary: out st)
  case (Cons e q)
  show ?case
  proof (cases "fst e \<le> now")
    case True
    with Cons.prems Cons.IH [of "out @ [snd e]" "f e st"] obtain d where
      "q = d @ q'" "out' = out @ [snd e] @ map snd d" "st' = fold f d (f e st)" by auto
    then show ?thesis by (intro exI [of _ "e # d"]) simp
  qed (use Cons.prems in auto)
qed simp

definition poll_bridge :: "TimeConv \<Rightarrow> ps_time \<Rightarrow> PIMWrapper \<Rightarrow> Sim \<Rightarrow> PIMWrapper \<times> Sim" where
  "poll_bridge tc now s g =
     (case getCompletedCommand (pw_bridge s) of
        (None, b) \<Rightarrow> (s\<lparr>pw_bridge := b\<rparr>, g)
      | (Some t, b) \<Rightarrow>
          if is_compute t then
            (s\<lparr>pw_bridge := b, compute_completed_queue := compute_completed_queue s @ [t],
               detailed_compute_done_time := (detailed_compute_done_time s)(gp_ptr t := None)\<rparr>,
             metrics_with (request_completed (tc_to_ns tc) PIM_device t
               (case detailed_compute_done_time s (gp_ptr t) of None \<Rightarrow> now | Some d \<Rightarrow> d)) g)
          else
            (s\<lparr>pw_bridge := b, memory_completed_queue := memory_completed_queue s @ [t]\<rparr>,
             metrics_with (request_completed (tc_to_ns tc) PIM_device t now) g))"

section \<open>Sending\<close>

definition finish_contention_wait :: "TimeConv \<Rightarrow> ps_time \<Rightarrow> payload \<Rightarrow> PIMWrapper \<Rightarrow> Sim \<Rightarrow> PIMWrapper \<times> Sim" where
  "finish_contention_wait tc now t s g =
     (case contention_wait_start s (gp_ptr t) of
        None \<Rightarrow> (s, g)
      | Some start \<Rightarrow>
          let s1 = s\<lparr>contention_wait_start := (contention_wait_start s)(gp_ptr t := None)\<rparr>;
              draft_compute = is_compute t; target_memory = (\<not> draft_compute \<and> src_id t = NPU) in
          if now \<le> start \<or> (\<not> draft_compute \<and> \<not> target_memory) then (s1, g)
          else
            let layer = (if draft_compute
                  then ''unified_contention.draft_compute_wait.'' @ to_string (unat (draft_compute_wait_count s))
                  else ''unified_contention.target_memory_wait.'' @ to_string (unat (target_memory_wait_count s)));
                g1 = log_with (\<lambda>lg. update_end_at layer PIM (tc_sec_ns tc now) (update_start_at layer PIM (tc_sec_ns tc start) lg)) g;
                g2 = metrics_with (record_pim_resource_stall (tc_to_ns tc) start now draft_compute) g1 in
            (if draft_compute
             then s1\<lparr>draft_compute_wait_count := draft_compute_wait_count s + 1,
                     draft_compute_wait_total := draft_compute_wait_total s + (now - start)\<rparr>
             else s1\<lparr>target_memory_wait_count := target_memory_wait_count s + 1,
                     target_memory_wait_total := target_memory_wait_total s + (now - start)\<rparr>, g2))"

text \<open>
  \<^verbatim>\<open>process_mode_transition\<close> up to its wait (\<open>Some\<close> of the delay) or to its end, and from the wait to its end.
\<close>

definition process_mode_transition :: "PimConfig \<Rightarrow> PimMode \<Rightarrow> PIMWrapper \<Rightarrow> u32 option \<times> PIMWrapper" where
  "process_mode_transition cfg target s =
     (if pim_mode s \<noteq> target then
        (Some (if target = MEMORY_mode then fst (mode_change_delay cfg) else snd (mode_change_delay cfg)),
         s\<lparr>mode_change_count := mode_change_count s + 1\<rparr>)
      else (None, s))"

definition target_mode :: "payload \<Rightarrow> PimMode" where
  "target_mode t = (if is_compute t then COMPUTE_mode else MEMORY_mode)"

text \<open>\<^verbatim>\<open>send_transaction\<close> after the mode is reached, for a compute and for a memory payload.\<close>

definition send_compute :: "PimConfig \<Rightarrow> TimeConv \<Rightarrow> ps_time \<Rightarrow> payload \<Rightarrow> PIMWrapper \<Rightarrow> Sim \<Rightarrow> (PIMWrapper \<times> Sim) res" where
  "send_compute cfg tc now t s g =
     (let s1 = s\<lparr>compute_busy := True, compute_busy_count := compute_busy_count s + 1\<rparr> in
      if pc_fast cfg \<and> starts_with ''macro('' (pim_cmd t) then
        (let actual_start = max now (fast_compute_available s1);
             done_time = actual_start + tc_ns tc (gp_address t) + 500 in
         Inr (s1\<lparr>fast_compute_completed_queue := fast_compute_completed_queue s1 @ [(done_time, t)],
                 fast_compute_available := done_time\<rparr>,
              log_with (update_start_at (gp_layer t) PIM (tc_cycle tc actual_start))
                (metrics_with (request_started (tc_to_ns tc) PIM_device t actual_start (- 1)) g)))
      else
        bindE (sendCommand (tc_ns tc) now t (pw_bridge s1)) (\<lambda>b.
        let actual_start = last_compute_start_time b in
        Inr (s1\<lparr>pw_bridge := b,
                detailed_compute_done_time := (detailed_compute_done_time s1)(gp_ptr t \<mapsto> last_compute_done_time b)\<rparr>,
             log_with (update_start_at (gp_layer t) PIM (tc_cycle tc actual_start))
               (metrics_with (request_started (tc_to_ns tc) PIM_device t actual_start (- 1)) g))))"

definition send_memory :: "PimConfig \<Rightarrow> TimeConv \<Rightarrow> ps_time \<Rightarrow> payload \<Rightarrow> PIMWrapper \<Rightarrow> Sim \<Rightarrow> (PIMWrapper \<times> Sim) res" where
  "send_memory cfg tc now t s g =
     (let s1 = s\<lparr>memory_busy := True, memory_busy_count := memory_busy_count s + 1\<rparr> in
      if is_macro_request t then
        (case pc_model cfg of
           None \<Rightarrow> Inl NullPointer
         | Some model \<Rightarrow>
             let duration = estimate_ns model (gp_command t) (macro_bytes t);
                 actual_start = max now (fast_memory_available s1);
                 done_time = actual_start + tc_ns tc duration in
             Inr (s1\<lparr>fast_memory_available := done_time,
                     fast_memory_completed_queue := fast_memory_completed_queue s1 @ [(done_time, t)]\<rparr>,
                  metrics_with (request_started (tc_to_ns tc) PIM_device t actual_start (- 1))
                    (log_with (update_start_at (gp_layer t) PIM (tc_cycle tc actual_start)) g)))
      else
        (let g1 = metrics_with (request_started (tc_to_ns tc) PIM_device t now
                    (MemorySystem_GetChannel (gp_address t) (br_mem (pw_bridge s1)))) g in
         bindE (sendCommand (tc_ns tc) now t (pw_bridge s1)) (\<lambda>b. Inr (s1\<lparr>pw_bridge := b\<rparr>, g1))))"

definition send_after_mode :: "PimConfig \<Rightarrow> TimeConv \<Rightarrow> ps_time \<Rightarrow> payload \<Rightarrow> PIMWrapper \<Rightarrow> Sim \<Rightarrow> (PIMWrapper \<times> Sim) res" where
  "send_after_mode cfg tc now t s g =
     (if is_compute t then send_compute cfg tc now t s g else send_memory cfg tc now t s g)"

section \<open>The thread\<close>

definition wake_time :: "ps_time \<Rightarrow> PIMWrapper \<Rightarrow> ps_time" where
  "wake_time now s =
     (let t0 = now + 1000000000;
          t1 = (case fast_memory_completed_queue s of [] \<Rightarrow> t0 | e # _ \<Rightarrow> min t0 (fst e)) in
      case fast_compute_completed_queue s of [] \<Rightarrow> t1 | e # _ \<Rightarrow> min t1 (fst e))"

text \<open>The end of an iteration: the tick of the bridge, the test for termination, and the wait.\<close>

definition iteration_end :: "PimConfig \<Rightarrow> ps_time \<Rightarrow> bool \<Rightarrow> PIMWrapper \<Rightarrow> Sim \<Rightarrow> (pim_wait \<times> PIMWrapper \<times> Sim) res" where
  "iteration_end cfg now blocked s g =
     bindE (if pc_fast cfg then Inr (pw_bridge s) else Bridge_ClockTick now (pw_bridge s)) (\<lambda>b.
     let s1 = s\<lparr>pw_bridge := b\<rparr> in
     if active_host g = 0 \<and> active_core g = 0 then Inr (Wait_end, s1\<lparr>pw_pc := Stopped\<rparr>, g\<lparr>active_dram := 0\<rparr>)
     else Inr (if pc_fast cfg \<and> (pending_queue s1 = [] \<or> blocked) then Wait_events (wake_time now s1) else Wait_period,
               s1\<lparr>pw_pc := Loop_top\<rparr>, g))"

definition send_transaction ::
    "PimConfig \<Rightarrow> TimeConv \<Rightarrow> ps_time \<Rightarrow> payload \<Rightarrow> PIMWrapper \<Rightarrow> Sim \<Rightarrow> (pim_wait \<times> PIMWrapper \<times> Sim) res" where
  "send_transaction cfg tc now t s g =
     (case process_mode_transition cfg (target_mode t) s of
        (Some delay, s1) \<Rightarrow> Inr (Wait_mode delay, s1\<lparr>pw_pc := Changing_mode t\<rparr>, g)
      | (None, s1) \<Rightarrow> bindE (send_after_mode cfg tc now t s1 g) (\<lambda>(s2, g2). iteration_end cfg now False s2 g2))"

definition poll_all :: "TimeConv \<Rightarrow> ps_time \<Rightarrow> PIMWrapper \<Rightarrow> Sim \<Rightarrow> PIMWrapper \<times> Sim" where
  "poll_all tc now s g =
     (case complete_fast_memory_requests tc now s g of (s1, g1) \<Rightarrow>
      case complete_fast_compute_requests tc now s1 g1 of (s2, g2) \<Rightarrow>
      poll_bridge tc now s2 g2)"

definition simulate_partitioned_pim :: "PimConfig \<Rightarrow> TimeConv \<Rightarrow> ps_time \<Rightarrow> PIMWrapper \<Rightarrow> Sim \<Rightarrow> (pim_wait \<times> PIMWrapper \<times> Sim) res" where
  "simulate_partitioned_pim cfg tc now s g =
     (case poll_all tc now s g of (s1, g1) \<Rightarrow>
      case pending_queue s1 of
        [] \<Rightarrow> iteration_end cfg now False s1 g1
      | t # q \<Rightarrow> send_transaction cfg tc now t (s1\<lparr>pending_queue := q\<rparr>) g1)"

definition simulate_unified_pim :: "PimConfig \<Rightarrow> TimeConv \<Rightarrow> ps_time \<Rightarrow> PIMWrapper \<Rightarrow> Sim \<Rightarrow> (pim_wait \<times> PIMWrapper \<times> Sim) res" where
  "simulate_unified_pim cfg tc now s g =
     (case poll_all tc now s g of (s1, g1) \<Rightarrow>
      case pending_queue s1 of
        [] \<Rightarrow> iteration_end cfg now False s1 g1
      | t # q \<Rightarrow>
          if (if is_compute t then \<not> memory_busy s1 else \<not> compute_busy s1) then
            (case finish_contention_wait tc now t (s1\<lparr>pending_queue := q\<rparr>) g1 of (s2, g2) \<Rightarrow>
             send_transaction cfg tc now t s2 g2)
          else
            iteration_end cfg now (pc_fast cfg)
              (s1\<lparr>pending_count := pending_count s1 + 1,
                  contention_wait_start := (case contention_wait_start s1 (gp_ptr t) of
                      None \<Rightarrow> (contention_wait_start s1)(gp_ptr t \<mapsto> now) | Some _ \<Rightarrow> contention_wait_start s1)\<rparr>) g1)"

definition pim_resume :: "PimConfig \<Rightarrow> TimeConv \<Rightarrow> ps_time \<Rightarrow> PIMWrapper \<Rightarrow> Sim \<Rightarrow> (pim_wait \<times> PIMWrapper \<times> Sim) res" where
  "pim_resume cfg tc now s g =
     (case pw_pc s of
        Loop_top \<Rightarrow> if pc_unified cfg then simulate_unified_pim cfg tc now s g else simulate_partitioned_pim cfg tc now s g
      | Changing_mode t \<Rightarrow>
          bindE (send_after_mode cfg tc now t (s\<lparr>pim_mode := target_mode t\<rparr>) g) (\<lambda>(s2, g2). iteration_end cfg now False s2 g2)
      | Stopped \<Rightarrow> Inr (Wait_end, s, g))"

section \<open>Clock edges and arrivals\<close>

definition pim_signal_sync :: "BaseMap \<Rightarrow> string \<Rightarrow> Sim \<Rightarrow> Sim" where
  "pim_signal_sync mp layer g =
     (case map_of mp layer of
        Some (i, _, _) \<Rightarrow> g\<lparr>pim_sync_obj := snd (sync_signal i (pim_sync_obj g))\<rparr>
      | None \<Rightarrow> g)"

definition log_source_end :: "TimeConv \<Rightarrow> ps_time \<Rightarrow> payload \<Rightarrow> Sim \<Rightarrow> Sim" where
  "log_source_end tc now t g =
     (if src_id t = HOST then log_with (update_end tc now (gp_layer t) HOST) g
      else if src_id t = MCU then log_with (update_end tc now (gp_layer t) MCU) g
      else g)"

definition pim_complete_write_request :: "PimConfig \<Rightarrow> TimeConv \<Rightarrow> ps_time \<Rightarrow> payload \<Rightarrow> Sim \<Rightarrow> Sim" where
  "pim_complete_write_request cfg tc now t g =
     (if gp_last t then
        log_source_end tc now t
          (pim_signal_sync (if pim_cmd t = ''addertree'' then pc_pim_sync cfg else pc_host_sync cfg) (gp_layer t) g)
      else g)"

definition pim_clock_posedge :: "PimConfig \<Rightarrow> TimeConv \<Rightarrow> ps_time \<Rightarrow> PIMWrapper \<Rightarrow> Sim \<Rightarrow> pim_output list \<times> PIMWrapper \<times> Sim" where
  "pim_clock_posedge cfg tc now s g =
     (case memory_completed_queue s of
        [] \<Rightarrow> ([], s, g)
      | t # q \<Rightarrow>
          let (out, g1) =
                (if gp_command t = TLM_READ \<or> src_id t = NPU then
                   ([Send_response (if src_id t = MCU then 1 else 0) t], g)
                 else if gp_command t = TLM_WRITE then ([Released t], pim_complete_write_request cfg tc now t g)
                 else ([No_reply t], g));
              n = memory_busy_count s - 1 in
          (out, s\<lparr>memory_completed_queue := q, memory_busy_count := n, memory_busy := (if n = 0 then False else memory_busy s)\<rparr>, g1))"

definition layer_finished :: "PimConfig \<Rightarrow> TimeConv \<Rightarrow> ps_time \<Rightarrow> payload \<Rightarrow> Sim \<Rightarrow> Sim res" where
  "layer_finished cfg tc now t g =
     (let layer = gp_layer t in
      bindE (if is_draft_layer layer
             then bindE (complete_parallel_pim_episode (tc_to_ns tc) (episode_id_from_layer layer) now (sim_metrics g))
                    (\<lambda>pm. Inr (g\<lparr>sim_metrics := pm\<rparr>))
             else Inr g) (\<lambda>g1.
      let g2 = (if contains ''RoPE'' layer \<or> layer = ''Mul1''
                then (log_source_end tc now t g1)\<lparr>is_pim_busy := False\<rparr> else g1);
          g3 = (if \<not> is_draft_layer layer
                then log_with (update_end tc now layer PIM) (pim_signal_sync (pc_pim_sync cfg) layer g2) else g2) in
      Inr g3))"

definition pim_clock_negedge :: "PimConfig \<Rightarrow> TimeConv \<Rightarrow> ps_time \<Rightarrow> PIMWrapper \<Rightarrow> Sim \<Rightarrow> (pim_output list \<times> PIMWrapper \<times> Sim) res" where
  "pim_clock_negedge cfg tc now s g =
     (case compute_completed_queue s of
        [] \<Rightarrow> Inr ([], s, g)
      | t # q \<Rightarrow>
          let g1 = (if is_draft_layer (gp_layer t) \<and> \<not> pc_fast cfg then log_with (update_end tc now (gp_layer t) PIM) g else g) in
          bindE (if gp_last t then layer_finished cfg tc now t g1 else Inr g1) (\<lambda>g2.
          let n = compute_busy_count s - 1 in
          Inr ([Compute_finished t],
               s\<lparr>compute_completed_queue := q, compute_busy_count := n, compute_busy := (if n = 0 then False else compute_busy s)\<rparr>, g2)))"

definition pim_peq_cb :: "TimeConv \<Rightarrow> ps_time \<Rightarrow> payload \<Rightarrow> PIMWrapper \<Rightarrow> Sim \<Rightarrow> PIMWrapper \<times> Sim" where
  "pim_peq_cb tc now t s g =
     (let bytes = (if is_compute t then 0 else if is_macro_request t then macro_bytes t else ucast (gp_length t)) in
      (s\<lparr>pending_queue := pending_queue s @ [t]\<rparr>,
       metrics_with (request_arrived (tc_to_ns tc) now PIM_device t bytes (is_compute t)) g))"

section \<open>Runs\<close>

datatype pim_op = Pim_arrive ps_time payload | Pim_resume ps_time | Pim_posedge ps_time | Pim_negedge ps_time

fun pim_step :: "PimConfig \<Rightarrow> TimeConv \<Rightarrow> pim_op \<Rightarrow> PIMWrapper \<Rightarrow> Sim \<Rightarrow> (pim_output list \<times> PIMWrapper \<times> Sim) res" where
  "pim_step cfg tc (Pim_arrive now t) s g = (case pim_peq_cb tc now t s g of (s', g') \<Rightarrow> Inr ([], s', g'))"
| "pim_step cfg tc (Pim_resume now) s g = bindE (pim_resume cfg tc now s g) (\<lambda>(w, s', g'). Inr ([], s', g'))"
| "pim_step cfg tc (Pim_posedge now) s g = Inr (pim_clock_posedge cfg tc now s g)"
| "pim_step cfg tc (Pim_negedge now) s g = pim_clock_negedge cfg tc now s g"

fun pim_steps :: "PimConfig \<Rightarrow> TimeConv \<Rightarrow> pim_op list \<Rightarrow> PIMWrapper \<Rightarrow> Sim \<Rightarrow> (pim_output list \<times> PIMWrapper \<times> Sim) res" where
  "pim_steps cfg tc [] s g = Inr ([], s, g)"
| "pim_steps cfg tc (x # ops) s g =
     bindE (pim_step cfg tc x s g) (\<lambda>(out, s1, g1).
     bindE (pim_steps cfg tc ops s1 g1) (\<lambda>(outs, s2, g2). Inr (out @ outs, s2, g2)))"

end
