(* ===== verification/Pim_Safety.thy ===== *)
theory Pim_Safety
  imports Pim_Wrapper
begin

text \<open>
  The processing-in-memory device under every interleaving of its thread, its two clock edges and the
  arrival of payloads: nothing aborts, every payload is answered once, and in the unified memory
  structure memory accesses and computations never overlap and the mode changes only while the device is idle.
\<close>

section \<open>What is in flight\<close>

definition memory_flight :: "PIMWrapper \<Rightarrow> payload multiset" where
  "memory_flight s = filter_mset (\<lambda>t. \<not> is_compute t) (bridge_inflight (pw_bridge s))
     + mset (map snd (fast_memory_completed_queue s)) + mset (memory_completed_queue s)"

definition compute_flight :: "PIMWrapper \<Rightarrow> payload multiset" where
  "compute_flight s = filter_mset is_compute (bridge_inflight (pw_bridge s))
     + mset (map snd (fast_compute_completed_queue s)) + mset (compute_completed_queue s)"

definition pim_waiting :: "PIMWrapper \<Rightarrow> payload multiset" where
  "pim_waiting s = mset (pending_queue s) + (case pw_pc s of Changing_mode t \<Rightarrow> {#t#} | _ \<Rightarrow> {#})"

definition pim_inflight :: "PIMWrapper \<Rightarrow> payload multiset" where
  "pim_inflight s = pim_waiting s + memory_flight s + compute_flight s"

definition busy_ok :: "bool \<Rightarrow> u32 \<Rightarrow> payload multiset \<Rightarrow> bool" where
  "busy_ok b n M = ((b \<longleftrightarrow> M \<noteq> {#}) \<and> unat n = size M)"

text \<open>The index of the episodes stays inside their vector.\<close>

definition episodes_ok :: "PerformanceMetrics \<Rightarrow> bool" where
  "episodes_ok pm = (\<forall>k v. parallel_episode_index pm k = Some v \<longrightarrow> v < length (parallel_episodes pm))"

text \<open>A tensor-sized memory request needs the latency model.\<close>

definition macro_ok :: "PimConfig \<Rightarrow> payload \<Rightarrow> bool" where
  "macro_ok cfg t = (\<not> is_compute t \<and> is_macro_request t \<longrightarrow> pc_model cfg \<noteq> None)"

definition exclusive :: "PIMWrapper \<Rightarrow> bool" where
  "exclusive s = (\<not> (memory_busy s \<and> compute_busy s)
     \<and> (memory_busy s \<longrightarrow> pim_mode s = MEMORY_mode) \<and> (compute_busy s \<longrightarrow> pim_mode s = COMPUTE_mode)
     \<and> (case pw_pc s of Changing_mode t \<Rightarrow> pim_mode s \<noteq> target_mode t \<and> \<not> memory_busy s \<and> \<not> compute_busy s | _ \<Rightarrow> True))"

definition pim_inv :: "PimConfig \<Rightarrow> nat \<Rightarrow> nat \<Rightarrow> PIMWrapper \<Rightarrow> Sim \<Rightarrow> bool" where
  "pim_inv cfg n k s g =
     (bridge_valid (pw_bridge s) \<and> bridge_horizon n (pw_bridge s)
      \<and> busy_ok (memory_busy s) (memory_busy_count s) (memory_flight s)
      \<and> busy_ok (compute_busy s) (compute_busy_count s) (compute_flight s)
      \<and> size (pim_inflight s) \<le> k \<and> (\<forall>t \<in># pim_waiting s. macro_ok cfg t)
      \<and> episodes_ok (sim_metrics g) \<and> (pc_unified cfg \<longrightarrow> exclusive s))"

lemma busy_ok_add:
  assumes "busy_ok b n M" "size M + 1 < 2 ^ 32"
  shows "busy_ok True (n + 1) (add_mset t M)"
  using assms by (simp add: busy_ok_def unat_word_ariths)

lemma busy_ok_remove:
  assumes "busy_ok b n (add_mset t M)"
  shows "busy_ok (if n - 1 = 0 then False else b) (n - 1) M"
proof -
  have n: "unat n = Suc (size M)" "b" using assms by (simp_all add: busy_ok_def)
  then have "n \<noteq> 0" by auto
  then have "unat (n - 1) = size M" using n(1) by (simp add: unat_minus_one)
  moreover have "n - 1 = 0 \<longleftrightarrow> M = {#}" using calculation by (metis size_eq_0_iff_empty unat_eq_zero)
  ultimately show ?thesis using n(2) by (simp add: busy_ok_def)
qed

lemma mem_horizon_less: "mem_horizon (Suc n) m \<Longrightarrow> mem_horizon n m"
  by (auto simp: mem_horizon_def jedec_horizon_def hmc_horizon_def clock_horizon_def split: DRAMSystem.splits)

lemma bridge_horizon_less: "bridge_horizon (Suc n) b \<Longrightarrow> bridge_horizon n b"
  unfolding bridge_horizon_def by (rule mem_horizon_less)

section \<open>Events of the metrics\<close>

definition same_episodes :: "Sim \<Rightarrow> Sim \<Rightarrow> bool" where
  "same_episodes g g' = (parallel_episode_index (sim_metrics g') = parallel_episode_index (sim_metrics g)
     \<and> parallel_episodes (sim_metrics g') = parallel_episodes (sim_metrics g))"

lemma same_episodes_ok: "same_episodes g g' \<Longrightarrow> episodes_ok (sim_metrics g') = episodes_ok (sim_metrics g)"
  by (simp add: same_episodes_def episodes_ok_def)

lemma same_episodes_refl [simp]: "same_episodes g g"
  by (simp add: same_episodes_def)

lemma same_episodes_trans: "same_episodes g g' \<Longrightarrow> same_episodes g' g'' \<Longrightarrow> same_episodes g g''"
  by (simp add: same_episodes_def)

lemma set_device_episodes [simp]:
  "parallel_episode_index (set_device_stats d ds pm) = parallel_episode_index pm"
  "parallel_episodes (set_device_stats d ds pm) = parallel_episodes pm"
  by (cases d; simp add: set_device_stats_def)+

lemma metrics_keep_episodes [simp]:
  "parallel_episode_index (request_arrived f now d t b c pm) = parallel_episode_index pm"
  "parallel_episodes (request_arrived f now d t b c pm) = parallel_episodes pm"
  "parallel_episode_index (request_started f d t st ch pm) = parallel_episode_index pm"
  "parallel_episodes (request_started f d t st ch pm) = parallel_episodes pm"
  "parallel_episode_index (request_completed f d t fin pm) = parallel_episode_index pm"
  "parallel_episodes (request_completed f d t fin pm) = parallel_episodes pm"
  "parallel_episode_index (record_pim_resource_stall f st fin dr pm) = parallel_episode_index pm"
  "parallel_episodes (record_pim_resource_stall f st fin dr pm) = parallel_episodes pm"
  by (simp_all add: request_arrived_def request_started_def request_completed_def record_pim_resource_stall_def Let_def
      split: option.splits)

lemma same_episodes_with [simp]:
  "same_episodes g (log_with lf g') = same_episodes g g'"
  "(\<And>pm. parallel_episode_index (mf pm) = parallel_episode_index pm) \<Longrightarrow> (\<And>pm. parallel_episodes (mf pm) = parallel_episodes pm)
    \<Longrightarrow> same_episodes g (metrics_with mf g') = same_episodes g g'"
  by (simp_all add: same_episodes_def log_with_def metrics_with_def)

section \<open>Polling\<close>

definition same_load :: "PIMWrapper \<Rightarrow> PIMWrapper \<Rightarrow> bool" where
  "same_load s s' = (memory_flight s' = memory_flight s \<and> compute_flight s' = compute_flight s \<and> pending_queue s' = pending_queue s
     \<and> memory_busy s' = memory_busy s \<and> compute_busy s' = compute_busy s \<and> memory_busy_count s' = memory_busy_count s
     \<and> compute_busy_count s' = compute_busy_count s \<and> pim_mode s' = pim_mode s)"

lemma same_load_trans: "same_load s s' \<Longrightarrow> same_load s' s'' \<Longrightarrow> same_load s s''"
  by (simp add: same_load_def)

lemma pim_inv_cong:
  assumes "pim_inv cfg n k s g" "same_load s s'" "pw_pc s' = pw_pc s" "same_episodes g g'"
    "bridge_valid (pw_bridge s')" "bridge_horizon n (pw_bridge s')"
  shows "pim_inv cfg n k s' g'"
proof -
  have "pim_waiting s' = pim_waiting s" using assms(2,3) by (simp add: pim_waiting_def same_load_def)
  then show ?thesis
    using assms by (simp add: pim_inv_def same_load_def same_episodes_ok pim_inflight_def exclusive_def cong: pim_pc.case_cong)
qed

lemma record_end_episodes [simp]:
  "same_episodes g (record_fast_end tc e g') = same_episodes g g'"
  "same_episodes g (snd (record_macro_end tc e st)) = same_episodes g (snd st)"
  by (simp_all add: record_fast_end_def record_macro_end_def)

lemma fold_same_episodes:
  assumes "\<And>e st. same_episodes g (p (f e st)) = same_episodes g (p st)"
  shows "same_episodes g (p (fold f d st)) = same_episodes g (p st)"
  by (induction d arbitrary: st) (simp_all add: assms)

lemma complete_fast_memory_ok:
  assumes "complete_fast_memory_requests tc now s g = (s', g')"
  shows "same_load s s' \<and> pw_pc s' = pw_pc s \<and> pw_bridge s' = pw_bridge s \<and> same_episodes g g'"
proof -
  obtain q out h where l: "complete_due now (record_fast_end tc) (fast_memory_completed_queue s) (memory_completed_queue s) g = (q, out, h)"
    by (metis prod_cases3)
  obtain d where d: "fast_memory_completed_queue s = d @ q" "out = memory_completed_queue s @ map snd d" "h = fold (record_fast_end tc) d g"
    using complete_due_splits [OF l] by blast
  have "s' = s\<lparr>fast_memory_completed_queue := q, memory_completed_queue := out\<rparr>" "g' = h"
    using assms l by (simp_all add: complete_fast_memory_requests_def)
  then show ?thesis
    using d fold_same_episodes [of g "\<lambda>x. x" "record_fast_end tc" d g]
    by (simp add: same_load_def memory_flight_def compute_flight_def ac_simps)
qed

lemma complete_fast_compute_ok:
  assumes "complete_fast_compute_requests tc now s g = (s', g')"
  shows "same_load s s' \<and> pw_pc s' = pw_pc s \<and> pw_bridge s' = pw_bridge s \<and> same_episodes g g'"
proof -
  obtain q out k h where
    l: "complete_due now (record_macro_end tc) (fast_compute_completed_queue s) (compute_completed_queue s) (fast_macro_completed s, g) = (q, out, k, h)"
    by (metis prod_cases4)
  obtain d where d: "fast_compute_completed_queue s = d @ q" "out = compute_completed_queue s @ map snd d"
    "(k, h) = fold (record_macro_end tc) d (fast_macro_completed s, g)"
    using complete_due_splits [OF l] by blast
  have "same_episodes g (snd (k, h))"
    unfolding d(3) using fold_same_episodes [of g snd "record_macro_end tc" d] by simp
  moreover have "s' = s\<lparr>fast_compute_completed_queue := q, compute_completed_queue := out, fast_macro_completed := k\<rparr>" "g' = h"
    using assms l by (simp_all add: complete_fast_compute_requests_def)
  ultimately show ?thesis
    using d(1,2) by (simp add: same_load_def memory_flight_def compute_flight_def ac_simps)
qed

lemma poll_bridge_ok:
  assumes "poll_bridge tc now s g = (s', g')" "bridge_valid (pw_bridge s)" "bridge_horizon n (pw_bridge s)"
  shows "same_load s s' \<and> pw_pc s' = pw_pc s \<and> bridge_valid (pw_bridge s') \<and> bridge_horizon n (pw_bridge s') \<and> same_episodes g g'"
proof -
  obtain r b where t: "getCompletedCommand (pw_bridge s) = (r, b)" by (cases "getCompletedCommand (pw_bridge s)")
  have b: "bridge_valid b" "bridge_horizon n b" "bridge_inflight (pw_bridge s) = (case r of None \<Rightarrow> {#} | Some t \<Rightarrow> {#t#}) + bridge_inflight b"
    using bridge.take_ok [OF assms(2,3)] t by simp_all
  show ?thesis
  proof (cases r)
    case None
    then show ?thesis using assms(1) t b by (auto simp: poll_bridge_def same_load_def memory_flight_def compute_flight_def)
  next
    case (Some p)
    then show ?thesis
      using assms(1) t b
      by (cases "is_compute p") (auto simp: poll_bridge_def same_load_def memory_flight_def compute_flight_def)
  qed
qed

lemma poll_all_ok:
  assumes "poll_all tc now s g = (s', g')" "bridge_valid (pw_bridge s)" "bridge_horizon n (pw_bridge s)"
  shows "same_load s s' \<and> pw_pc s' = pw_pc s \<and> bridge_valid (pw_bridge s') \<and> bridge_horizon n (pw_bridge s') \<and> same_episodes g g'"
proof -
  obtain s1 g1 where 1: "complete_fast_memory_requests tc now s g = (s1, g1)" by (cases "complete_fast_memory_requests tc now s g")
  obtain s2 g2 where 2: "complete_fast_compute_requests tc now s1 g1 = (s2, g2)" by (cases "complete_fast_compute_requests tc now s1 g1")
  have 3: "poll_bridge tc now s2 g2 = (s', g')" using assms(1) by (simp add: poll_all_def 1 2)
  note a = complete_fast_memory_ok [OF 1] and b = complete_fast_compute_ok [OF 2]
  have "pw_bridge s2 = pw_bridge s" using a b by simp
  with poll_bridge_ok [OF 3] assms(2,3) have c: "same_load s2 s' \<and> pw_pc s' = pw_pc s2 \<and> bridge_valid (pw_bridge s')
    \<and> bridge_horizon n (pw_bridge s') \<and> same_episodes g2 g'" by simp
  show ?thesis using a b c by (auto intro: same_load_trans same_episodes_trans)
qed

section \<open>Sending\<close>

text \<open>
  \<open>loaded t s s'\<close>: \<open>t\<close> is added to what is in flight on its side, and nothing else that the invariant reads changes.
\<close>

definition loaded :: "payload \<Rightarrow> PIMWrapper \<Rightarrow> PIMWrapper \<Rightarrow> bool" where
  "loaded t s s' =
     (memory_flight s' = (if is_compute t then memory_flight s else add_mset t (memory_flight s))
      \<and> compute_flight s' = (if is_compute t then add_mset t (compute_flight s) else compute_flight s)
      \<and> memory_busy s' = (\<not> is_compute t \<or> memory_busy s) \<and> compute_busy s' = (is_compute t \<or> compute_busy s)
      \<and> memory_busy_count s' = (if is_compute t then memory_busy_count s else memory_busy_count s + 1)
      \<and> compute_busy_count s' = (if is_compute t then compute_busy_count s + 1 else compute_busy_count s)
      \<and> pending_queue s' = pending_queue s \<and> pw_pc s' = pw_pc s \<and> pim_mode s' = pim_mode s)"

lemma send_compute_ok:
  assumes "bridge_valid (pw_bridge s)" "bridge_horizon n (pw_bridge s)" "is_compute t"
  shows "succeeds (send_compute cfg tc now t s g) (\<lambda>(s', g'). loaded t s s' \<and> bridge_valid (pw_bridge s') \<and> bridge_horizon n (pw_bridge s')
    \<and> same_episodes g g')"
proof (cases "pc_fast cfg \<and> starts_with ''macro('' (pim_cmd t)")
  case True
  then show ?thesis
    using assms by (simp add: send_compute_def Let_def loaded_def memory_flight_def compute_flight_def)
next
  case False
  from bridge.send_ok [OF assms(1,2), of "tc_ns tc" now t] obtain b where
    b: "sendCommand (tc_ns tc) now t (pw_bridge s) = Inr b" "bridge_valid b" "bridge_horizon n b"
    "bridge_inflight b = add_mset t (bridge_inflight (pw_bridge s))" by (auto simp: succeeds_iff)
  show ?thesis
    unfolding send_compute_def Let_def if_not_P [OF False]
    using assms b by (simp add: loaded_def memory_flight_def compute_flight_def)
qed

lemma send_memory_ok:
  assumes "bridge_valid (pw_bridge s)" "bridge_horizon n (pw_bridge s)" "\<not> is_compute t" "macro_ok cfg t"
  shows "succeeds (send_memory cfg tc now t s g) (\<lambda>(s', g'). loaded t s s' \<and> bridge_valid (pw_bridge s') \<and> bridge_horizon n (pw_bridge s')
    \<and> same_episodes g g')"
proof (cases "is_macro_request t")
  case True
  then obtain m where "pc_model cfg = Some m" using assms(3,4) by (auto simp: macro_ok_def)
  then show ?thesis
    using assms True by (simp add: send_memory_def Let_def loaded_def memory_flight_def compute_flight_def)
next
  case False
  from bridge.send_ok [OF assms(1,2), of "tc_ns tc" now t] obtain b where
    b: "sendCommand (tc_ns tc) now t (pw_bridge s) = Inr b" "bridge_valid b" "bridge_horizon n b"
    "bridge_inflight b = add_mset t (bridge_inflight (pw_bridge s))" by (auto simp: succeeds_iff)
  show ?thesis
    using assms b False by (simp add: send_memory_def Let_def loaded_def memory_flight_def compute_flight_def)
qed

lemma send_after_mode_ok:
  assumes "bridge_valid (pw_bridge s)" "bridge_horizon n (pw_bridge s)" "macro_ok cfg t"
  shows "succeeds (send_after_mode cfg tc now t s g) (\<lambda>(s', g'). loaded t s s' \<and> bridge_valid (pw_bridge s') \<and> bridge_horizon n (pw_bridge s')
    \<and> same_episodes g g')"
  using send_compute_ok [OF assms(1,2)] send_memory_ok [OF assms(1,2) _ assms(3)] by (simp add: send_after_mode_def)

lemma iteration_end_ok:
  assumes "bridge_valid (pw_bridge s)" "bridge_horizon (Suc n) (pw_bridge s)"
  shows "succeeds (iteration_end cfg now blocked s g) (\<lambda>(w, s', g'). same_load s s' \<and> pw_pc s' \<in> {Loop_top, Stopped}
    \<and> bridge_valid (pw_bridge s') \<and> bridge_horizon n (pw_bridge s') \<and> same_episodes g g')"
proof -
  have "succeeds (if pc_fast cfg then Inr (pw_bridge s) else Bridge_ClockTick now (pw_bridge s))
    (\<lambda>b. bridge_valid b \<and> bridge_horizon n b \<and> bridge_inflight b = bridge_inflight (pw_bridge s))"
    using assms bridge_horizon_less [OF assms(2)] bridge.tick_ok [OF assms, of now] by simp
  then obtain b where b: "(if pc_fast cfg then Inr (pw_bridge s) else Bridge_ClockTick now (pw_bridge s)) = Inr b"
    "bridge_valid b" "bridge_horizon n b" "bridge_inflight b = bridge_inflight (pw_bridge s)" by (auto simp: succeeds_iff)
  show ?thesis
    unfolding iteration_end_def b(1)
    using b(2-4) by (simp add: Let_def same_load_def memory_flight_def compute_flight_def same_episodes_def)
qed

text \<open>The invariant without the program counter, while the thread holds the payload \<open>t\<close> that it took from the queue.\<close>

definition pim_holding :: "PimConfig \<Rightarrow> nat \<Rightarrow> nat \<Rightarrow> payload \<Rightarrow> PIMWrapper \<Rightarrow> Sim \<Rightarrow> bool" where
  "pim_holding cfg n k t s g =
     (bridge_valid (pw_bridge s) \<and> bridge_horizon n (pw_bridge s)
      \<and> busy_ok (memory_busy s) (memory_busy_count s) (memory_flight s)
      \<and> busy_ok (compute_busy s) (compute_busy_count s) (compute_flight s)
      \<and> Suc (length (pending_queue s)) + size (memory_flight s) + size (compute_flight s) \<le> k
      \<and> macro_ok cfg t \<and> (\<forall>t \<in> set (pending_queue s). macro_ok cfg t) \<and> episodes_ok (sim_metrics g)
      \<and> (pc_unified cfg \<longrightarrow> (if is_compute t then \<not> memory_busy s else \<not> compute_busy s)
          \<and> (memory_busy s \<longrightarrow> pim_mode s = MEMORY_mode) \<and> (compute_busy s \<longrightarrow> pim_mode s = COMPUTE_mode)))"

lemma send_now_ok:
  assumes "pim_holding cfg (Suc n) k t s g" "pim_mode s = target_mode t" "k < 2 ^ 32"
  shows "succeeds (bindE (send_after_mode cfg tc now t s g) (\<lambda>(s2, g2). iteration_end cfg now False s2 g2))
    (\<lambda>(w, s', g'). pim_inv cfg n k s' g' \<and> pim_inflight s' = add_mset t (mset (pending_queue s) + memory_flight s + compute_flight s))"
proof -
  have h: "bridge_valid (pw_bridge s)" "bridge_horizon (Suc n) (pw_bridge s)" "macro_ok cfg t"
    "busy_ok (memory_busy s) (memory_busy_count s) (memory_flight s)" "busy_ok (compute_busy s) (compute_busy_count s) (compute_flight s)"
    "Suc (length (pending_queue s)) + size (memory_flight s) + size (compute_flight s) \<le> k"
    "\<forall>t \<in> set (pending_queue s). macro_ok cfg t" "episodes_ok (sim_metrics g)"
    using assms(1) by (simp_all add: pim_holding_def)
  from send_after_mode_ok [OF h(1-3), of tc now g] obtain s2 g2 where
    2: "send_after_mode cfg tc now t s g = Inr (s2, g2)" "loaded t s s2" "bridge_valid (pw_bridge s2)" "bridge_horizon (Suc n) (pw_bridge s2)"
    "same_episodes g g2" by (auto simp: succeeds_iff)
  from iteration_end_ok [OF 2(3,4), of cfg now False g2] obtain w s3 g3 where
    3: "iteration_end cfg now False s2 g2 = Inr (w, s3, g3)" "same_load s2 s3" "pw_pc s3 \<in> {Loop_top, Stopped}"
    "bridge_valid (pw_bridge s3)" "bridge_horizon n (pw_bridge s3)" "same_episodes g2 g3" by (auto simp: succeeds_iff)
  have w: "pim_waiting s3 = mset (pending_queue s)" using 2(2) 3(2,3) by (auto simp: pim_waiting_def loaded_def same_load_def)
  have b: "busy_ok (memory_busy s3) (memory_busy_count s3) (memory_flight s3)" "busy_ok (compute_busy s3) (compute_busy_count s3) (compute_flight s3)"
    using 2(2) 3(2) h(4-6) assms(3) busy_ok_add [OF h(4), of t] busy_ok_add [OF h(5), of t]
    by (cases "is_compute t"; simp add: loaded_def same_load_def)+
  have f: "pim_inflight s3 = add_mset t (mset (pending_queue s) + memory_flight s + compute_flight s)"
    using 2(2) 3(2) w by (cases "is_compute t") (simp_all add: pim_inflight_def loaded_def same_load_def)
  have e: "exclusive s3" if "pc_unified cfg"
    using assms(1,2) that 2(2) 3(2,3)
    by (cases "is_compute t") (auto simp: pim_holding_def exclusive_def loaded_def same_load_def target_mode_def split: pim_pc.splits)
  have "pim_inv cfg n k s3 g3"
    unfolding pim_inv_def using b w f e 3(4,5) h(6-8) same_episodes_ok [OF same_episodes_trans [OF 2(5) 3(6)]] by simp
  then show ?thesis using 2(1) 3(1) f by simp
qed

lemma send_transaction_ok:
  assumes "pim_holding cfg (Suc n) k t s g" "k < 2 ^ 32"
  shows "succeeds (send_transaction cfg tc now t s g)
    (\<lambda>(w, s', g'). pim_inv cfg n k s' g' \<and> pim_inflight s' = add_mset t (mset (pending_queue s) + memory_flight s + compute_flight s))"
proof (cases "pim_mode s = target_mode t")
  case True
  then show ?thesis using send_now_ok [OF assms(1) True assms(2)] by (simp add: send_transaction_def process_mode_transition_def)
next
  case False
  let ?s = "s\<lparr>mode_change_count := mode_change_count s + 1, pw_pc := Changing_mode t\<rparr>"
  have fl: "memory_flight ?s = memory_flight s" "compute_flight ?s = compute_flight s"
    "pim_waiting ?s = add_mset t (mset (pending_queue s))"
    by (simp_all add: memory_flight_def compute_flight_def pim_waiting_def)
  have "bridge_horizon n (pw_bridge s)" using assms(1) bridge_horizon_less by (simp add: pim_holding_def)
  moreover have "pc_unified cfg \<longrightarrow> exclusive ?s"
    using assms(1) False by (auto simp: pim_holding_def exclusive_def target_mode_def split: if_splits)
  ultimately have "pim_inv cfg n k ?s g" using assms(1) fl by (auto simp: pim_inv_def pim_holding_def pim_inflight_def)
  moreover have "pim_inflight ?s = add_mset t (mset (pending_queue s) + memory_flight s + compute_flight s)"
    using fl by (simp add: pim_inflight_def)
  ultimately show ?thesis using False by (simp add: send_transaction_def process_mode_transition_def)
qed

section \<open>Steps\<close>

lemma finish_contention_keeps:
  assumes "finish_contention_wait tc now t s g = (s', g')"
  shows "same_load s s' \<and> pw_pc s' = pw_pc s \<and> pw_bridge s' = pw_bridge s \<and> same_episodes g g'"
  using assms
  by (auto simp: finish_contention_wait_def Let_def same_load_def memory_flight_def compute_flight_def split: option.splits if_splits)

lemma pim_holding_cong:
  assumes "pim_holding cfg n k t s g" "same_load s s'" "pw_bridge s' = pw_bridge s" "same_episodes g g'"
  shows "pim_holding cfg n k t s' g'"
  using assms by (simp add: pim_holding_def same_load_def same_episodes_ok)

text \<open>Taking the first payload from the queue, when the memory structure lets it pass.\<close>

lemma take_pending:
  assumes "pim_inv cfg n k s g" "pw_pc s = Loop_top" "pending_queue s = t # q"
    "pc_unified cfg \<longrightarrow> (if is_compute t then \<not> memory_busy s else \<not> compute_busy s)"
  shows "pim_holding cfg n k t (s\<lparr>pending_queue := q\<rparr>) g"
    "pim_inflight s = add_mset t (mset q + memory_flight (s\<lparr>pending_queue := q\<rparr>) + compute_flight (s\<lparr>pending_queue := q\<rparr>))"
proof -
  have f: "memory_flight (s\<lparr>pending_queue := q\<rparr>) = memory_flight s" "compute_flight (s\<lparr>pending_queue := q\<rparr>) = compute_flight s"
    by (simp_all add: memory_flight_def compute_flight_def)
  have w: "pim_waiting s = add_mset t (mset q)" using assms(2,3) by (simp add: pim_waiting_def)
  show "pim_inflight s = add_mset t (mset q + memory_flight (s\<lparr>pending_queue := q\<rparr>) + compute_flight (s\<lparr>pending_queue := q\<rparr>))"
    by (simp add: pim_inflight_def w f)
  show "pim_holding cfg n k t (s\<lparr>pending_queue := q\<rparr>) g"
    using assms(1,4) w f by (auto simp: pim_holding_def pim_inv_def pim_inflight_def exclusive_def)
qed

lemma iteration_end_inv:
  assumes "pim_inv cfg (Suc n) k s g" "pw_pc s = Loop_top"
  shows "succeeds (iteration_end cfg now blocked s g) (\<lambda>(w, s', g'). pim_inv cfg n k s' g' \<and> pim_inflight s' = pim_inflight s)"
proof -
  have b: "bridge_valid (pw_bridge s)" "bridge_horizon (Suc n) (pw_bridge s)" using assms(1) by (simp_all add: pim_inv_def)
  from iteration_end_ok [OF b, of cfg now blocked g] obtain w s' g' where
    r: "iteration_end cfg now blocked s g = Inr (w, s', g')" "same_load s s'" "pw_pc s' \<in> {Loop_top, Stopped}"
    "bridge_valid (pw_bridge s')" "bridge_horizon n (pw_bridge s')" "same_episodes g g'" by (auto simp: succeeds_iff)
  have w: "pim_waiting s' = pim_waiting s" using r(2,3) assms(2) by (auto simp: pim_waiting_def same_load_def)
  have f: "pim_inflight s' = pim_inflight s" using w r(2) by (simp add: pim_inflight_def same_load_def)
  have "exclusive s'" if "exclusive s" using that r(2,3) by (auto simp: exclusive_def same_load_def)
  then have "pim_inv cfg n k s' g'"
    using assms(1) w f r(2,4,5) same_episodes_ok [OF r(6)] by (auto simp: pim_inv_def same_load_def)
  then show ?thesis using r(1) f by simp
qed

lemma loop_top_ok:
  assumes "pim_inv cfg (Suc n) k s g" "pw_pc s = Loop_top" "k < 2 ^ 32"
  shows "succeeds (if pc_unified cfg then simulate_unified_pim cfg tc now s g else simulate_partitioned_pim cfg tc now s g)
    (\<lambda>(w, s', g'). pim_inv cfg n k s' g' \<and> pim_inflight s' = pim_inflight s)"
proof -
  obtain s1 g1 where p: "poll_all tc now s g = (s1, g1)" by (cases "poll_all tc now s g")
  have b: "bridge_valid (pw_bridge s)" "bridge_horizon (Suc n) (pw_bridge s)" using assms(1) by (simp_all add: pim_inv_def)
  note a = poll_all_ok [OF p b]
  have inv: "pim_inv cfg (Suc n) k s1 g1" "pw_pc s1 = Loop_top" using pim_inv_cong [OF assms(1)] a assms(2) by simp_all
  have f: "pim_inflight s1 = pim_inflight s" using a by (simp add: pim_inflight_def pim_waiting_def same_load_def)
  show ?thesis
  proof (cases "pending_queue s1")
    case Nil
    then show ?thesis
      using iteration_end_inv [OF inv, of now False] by (simp add: simulate_unified_pim_def simulate_partitioned_pim_def p f)
  next
    case (Cons t q)
    let ?pass = "if is_compute t then \<not> memory_busy s1 else \<not> compute_busy s1"
    show ?thesis
    proof (cases "pc_unified cfg \<and> \<not> ?pass")
      case True
      let ?s = "s1\<lparr>pending_count := pending_count s1 + 1, contention_wait_start := (case contention_wait_start s1 (gp_ptr t) of
                      None \<Rightarrow> (contention_wait_start s1)(gp_ptr t \<mapsto> now) | Some _ \<Rightarrow> contention_wait_start s1)\<rparr>"
      have l: "same_load s1 ?s" "pw_pc ?s = Loop_top" "pim_inflight ?s = pim_inflight s1"
        using inv(2) by (simp_all add: same_load_def memory_flight_def compute_flight_def pim_inflight_def pim_waiting_def)
      have "pim_inv cfg (Suc n) k ?s g1" by (rule pim_inv_cong [OF inv(1) l(1)]) (use inv in \<open>simp_all add: pim_inv_def\<close>)
      from iteration_end_inv [OF this l(2), of now "pc_fast cfg"]
      show ?thesis using True Cons by (simp add: simulate_unified_pim_def p f l(3))
    next
      case False
      then have pass: "pc_unified cfg \<longrightarrow> ?pass" by blast
      note h = take_pending [OF inv Cons pass]
      show ?thesis
      proof (cases "pc_unified cfg")
        case True
        obtain s2 g2 where c: "finish_contention_wait tc now t (s1\<lparr>pending_queue := q\<rparr>) g1 = (s2, g2)"
          by (cases "finish_contention_wait tc now t (s1\<lparr>pending_queue := q\<rparr>) g1")
        note k = finish_contention_keeps [OF c]
        have "pim_holding cfg (Suc n) k t s2 g2" using pim_holding_cong [OF h(1)] k by blast
        from send_transaction_ok [OF this assms(3), of tc now]
        show ?thesis using True pass Cons k h(2) by (simp add: simulate_unified_pim_def p c f same_load_def)
      next
        case False
        then show ?thesis
          using send_transaction_ok [OF h(1) assms(3), of tc now] Cons h(2) by (simp add: simulate_partitioned_pim_def p f)
      qed
    qed
  qed
qed

lemma pim_resume_ok:
  assumes "pim_inv cfg (Suc n) k s g" "k < 2 ^ 32"
  shows "succeeds (pim_resume cfg tc now s g) (\<lambda>(w, s', g'). pim_inv cfg n k s' g' \<and> pim_inflight s' = pim_inflight s)"
proof (cases "pw_pc s")
  case Loop_top
  then show ?thesis using loop_top_ok [OF assms(1) Loop_top assms(2)] by (simp add: pim_resume_def)
next
  case (Changing_mode t)
  let ?s = "s\<lparr>pim_mode := target_mode t\<rparr>"
  have f: "memory_flight ?s = memory_flight s" "compute_flight ?s = compute_flight s" "pim_waiting s = add_mset t (mset (pending_queue s))"
    by (simp_all add: memory_flight_def compute_flight_def pim_waiting_def Changing_mode)
  have "pim_holding cfg (Suc n) k t ?s g"
    using assms(1) f by (auto simp: pim_inv_def pim_holding_def pim_inflight_def exclusive_def Changing_mode)
  from send_now_ok [OF this _ assms(2), of tc now]
  show ?thesis using f by (simp add: pim_resume_def Changing_mode pim_inflight_def)
next
  case Stopped
  then show ?thesis using assms(1) bridge_horizon_less by (auto simp: pim_resume_def pim_inv_def)
qed

lemma pim_inv_more: "pim_inv cfg (Suc n) k s g \<Longrightarrow> pim_inv cfg n k s g"
  using bridge_horizon_less by (auto simp: pim_inv_def)

fun output_payload :: "pim_output \<Rightarrow> payload" where
  "output_payload (Send_response i t) = t"
| "output_payload (Released t) = t"
| "output_payload (No_reply t) = t"
| "output_payload (Compute_finished t) = t"

abbreviation output_payloads :: "pim_output list \<Rightarrow> payload multiset" where
  "output_payloads out \<equiv> mset (map output_payload out)"

lemma signal_episodes [simp]:
  "same_episodes g (pim_signal_sync mp layer g') = same_episodes g g'"
  "same_episodes g (log_source_end tc now t g') = same_episodes g g'"
  "same_episodes g (pim_complete_write_request cfg tc now t g') = same_episodes g g'"
  by (simp_all add: same_episodes_def pim_signal_sync_def log_source_end_def pim_complete_write_request_def log_with_def
      split: option.splits prod.splits)

lemma posedge_ok:
  assumes "pim_inv cfg n k s g" "pim_clock_posedge cfg tc now s g = (out, s', g')"
  shows "pim_inv cfg n k s' g' \<and> pim_inflight s = output_payloads out + pim_inflight s'"
proof (cases "memory_completed_queue s")
  case Nil
  then show ?thesis using assms by (simp add: pim_clock_posedge_def)
next
  case (Cons t q)
  let ?n = "memory_busy_count s - 1"
  let ?s = "s\<lparr>memory_completed_queue := q, memory_busy_count := ?n, memory_busy := (if ?n = 0 then False else memory_busy s)\<rparr>"
  have r: "s' = ?s" "output_payloads out = {#t#}" "same_episodes g g'"
    using assms(2) Cons by (auto simp: pim_clock_posedge_def Let_def split: if_splits)
  have f: "memory_flight s = add_mset t (memory_flight ?s)" "compute_flight ?s = compute_flight s" "pim_waiting ?s = pim_waiting s"
    by (simp_all add: memory_flight_def compute_flight_def pim_waiting_def Cons)
  have "busy_ok (if ?n = 0 then False else memory_busy s) ?n (memory_flight ?s)"
    by (rule busy_ok_remove [of _ _ t]) (use assms(1) f(1) in \<open>simp add: pim_inv_def\<close>)
  moreover have "exclusive ?s" if "exclusive s" using that by (auto simp: exclusive_def split: pim_pc.splits)
  ultimately have "pim_inv cfg n k ?s g'"
    using assms(1) f same_episodes_ok [OF r(3)] by (auto simp: pim_inv_def pim_inflight_def)
  then show ?thesis using r(1,2) f by (simp add: pim_inflight_def)
qed

lemma layer_finished_ok:
  assumes "episodes_ok (sim_metrics g)"
  shows "succeeds (layer_finished cfg tc now t g) (\<lambda>g'. episodes_ok (sim_metrics g'))"
proof -
  have "succeeds (complete_parallel_pim_episode f name fin pm) episodes_ok" if "episodes_ok pm" for f name fin pm
    using that by (auto simp: complete_parallel_pim_episode_def episodes_ok_def Let_def split: option.splits)
  from this [OF assms, of "tc_to_ns tc" "episode_id_from_layer (gp_layer t)" now] obtain pm where
    pm: "complete_parallel_pim_episode (tc_to_ns tc) (episode_id_from_layer (gp_layer t)) now (sim_metrics g) = Inr pm" "episodes_ok pm"
    by (auto simp: succeeds_iff)
  have k: "episodes_ok (sim_metrics (log_source_end tc now t h)) = episodes_ok (sim_metrics h)"
    "episodes_ok (sim_metrics (pim_signal_sync mp layer h)) = episodes_ok (sim_metrics h)"
    "episodes_ok (sim_metrics (log_with lf h)) = episodes_ok (sim_metrics h)" for h lf mp layer
    by (rule same_episodes_ok, simp)+
  show ?thesis using assms pm by (simp add: layer_finished_def Let_def k)
qed

lemma negedge_ok:
  assumes "pim_inv cfg n k s g"
  shows "succeeds (pim_clock_negedge cfg tc now s g) (\<lambda>(out, s', g'). pim_inv cfg n k s' g' \<and> pim_inflight s = output_payloads out + pim_inflight s')"
proof (cases "compute_completed_queue s")
  case Nil
  then show ?thesis using assms by (simp add: pim_clock_negedge_def)
next
  case (Cons t q)
  let ?n = "compute_busy_count s - 1"
  let ?s = "s\<lparr>compute_completed_queue := q, compute_busy_count := ?n, compute_busy := (if ?n = 0 then False else compute_busy s)\<rparr>"
  let ?g = "if is_draft_layer (gp_layer t) \<and> \<not> pc_fast cfg then log_with (update_end tc now (gp_layer t) PIM) g else g"
  have g: "episodes_ok (sim_metrics ?g)" using assms by (simp add: pim_inv_def log_with_def)
  have "succeeds (if gp_last t then layer_finished cfg tc now t ?g else Inr ?g) (\<lambda>g'. episodes_ok (sim_metrics g'))"
    using layer_finished_ok [OF g] g by simp
  then obtain g' where r: "(if gp_last t then layer_finished cfg tc now t ?g else Inr ?g) = Inr g'" "episodes_ok (sim_metrics g')"
    by (auto simp: succeeds_iff)
  have f: "compute_flight s = add_mset t (compute_flight ?s)" "memory_flight ?s = memory_flight s" "pim_waiting ?s = pim_waiting s"
    by (simp_all add: memory_flight_def compute_flight_def pim_waiting_def Cons)
  have "busy_ok (if ?n = 0 then False else compute_busy s) ?n (compute_flight ?s)"
    by (rule busy_ok_remove [of _ _ t]) (use assms f(1) in \<open>simp add: pim_inv_def\<close>)
  moreover have "exclusive ?s" if "exclusive s" using that by (auto simp: exclusive_def split: pim_pc.splits)
  ultimately have "pim_inv cfg n k ?s g'" using assms f r(2) by (auto simp: pim_inv_def pim_inflight_def)
  moreover have "pim_clock_negedge cfg tc now s g = Inr ([Compute_finished t], ?s, g')"
    unfolding pim_clock_negedge_def Cons by (simp only: list.case Let_def r(1) bindE_Inr)
  ultimately show ?thesis using f by (simp add: pim_inflight_def)
qed

lemma arrive_ok:
  assumes "pim_inv cfg n k s g" "macro_ok cfg t" "pim_peq_cb tc now t s g = (s', g')"
  shows "pim_inv cfg n (Suc k) s' g' \<and> pim_inflight s' = add_mset t (pim_inflight s)"
proof -
  have s: "s' = s\<lparr>pending_queue := pending_queue s @ [t]\<rparr>" "same_episodes g g'"
    using assms(3) by (auto simp: pim_peq_cb_def Let_def)
  have f: "memory_flight s' = memory_flight s" "compute_flight s' = compute_flight s" "pim_waiting s' = add_mset t (pim_waiting s)"
    by (simp_all add: s(1) memory_flight_def compute_flight_def pim_waiting_def)
  have "exclusive s'" if "exclusive s" using that by (simp add: s(1) exclusive_def cong: pim_pc.case_cong)
  then show ?thesis using assms(1,2) f same_episodes_ok [OF s(2)] by (auto simp: s(1) pim_inv_def pim_inflight_def)
qed

section \<open>Runs\<close>

fun arrivals :: "pim_op list \<Rightarrow> payload list" where
  "arrivals [] = []"
| "arrivals (Pim_arrive now t # ops) = t # arrivals ops"
| "arrivals (x # ops) = arrivals ops"

fun resumes :: "pim_op list \<Rightarrow> nat" where
  "resumes [] = 0"
| "resumes (Pim_resume now # ops) = Suc (resumes ops)"
| "resumes (x # ops) = resumes ops"

definition pim_safe :: "PimConfig \<Rightarrow> PIMWrapper \<Rightarrow> Sim \<Rightarrow> bool" where
  "pim_safe cfg s g = (\<exists>n k. pim_inv cfg n k s g)"

lemma pim_steps_ok:
  assumes "pim_inv cfg n k s g" "resumes ops \<le> n" "k + length (arrivals ops) < 2 ^ 32" "\<forall>t \<in> set (arrivals ops). macro_ok cfg t"
  shows "succeeds (pim_steps cfg tc ops s g) (\<lambda>(outs, s', g').
    pim_safe cfg s' g' \<and> pim_inflight s + mset (arrivals ops) = output_payloads outs + pim_inflight s')"
  using assms
proof (induction ops arbitrary: n k s g)
  case (Cons x ops)
  show ?case
  proof (cases x)
    case (Pim_arrive now t)
    obtain s1 g1 where a: "pim_peq_cb tc now t s g = (s1, g1)" by (cases "pim_peq_cb tc now t s g")
    have i: "pim_inv cfg n (Suc k) s1 g1 \<and> pim_inflight s1 = add_mset t (pim_inflight s)"
      by (rule arrive_ok [OF Cons.prems(1) _ a]) (use Cons.prems(4) Pim_arrive in simp)
    then show ?thesis
      using Cons.IH [of n "Suc k" s1 g1] Cons.prems(2-4) a Pim_arrive by (auto simp: succeeds_iff)
  next
    case (Pim_resume now)
    then obtain m where m: "n = Suc m" using Cons.prems(2) by (cases n) auto
    from pim_resume_ok [OF Cons.prems(1) [unfolded m], of tc now] Cons.prems(3) obtain w s1 g1 where
      a: "pim_resume cfg tc now s g = Inr (w, s1, g1)" "pim_inv cfg m k s1 g1" "pim_inflight s1 = pim_inflight s"
      by (auto simp: succeeds_iff)
    show ?thesis using Cons.IH [OF a(2)] Cons.prems(2-4) a Pim_resume m by (auto simp: succeeds_iff)
  next
    case (Pim_posedge now)
    obtain out s1 g1 where a: "pim_clock_posedge cfg tc now s g = (out, s1, g1)" by (metis prod_cases3)
    note p = posedge_ok [OF Cons.prems(1) a]
    then show ?thesis using Cons.IH [of n k s1 g1] Cons.prems(2-4) a Pim_posedge by (auto simp: succeeds_iff)
  next
    case (Pim_negedge now)
    from negedge_ok [OF Cons.prems(1), of tc now] obtain out s1 g1 where
      a: "pim_clock_negedge cfg tc now s g = Inr (out, s1, g1)" "pim_inv cfg n k s1 g1"
      "pim_inflight s = output_payloads out + pim_inflight s1" by (auto simp: succeeds_iff)
    then show ?thesis using Cons.IH [of n k s1 g1] Cons.prems(2-4) Pim_negedge by (auto simp: succeeds_iff)
  qed
qed (auto simp: pim_safe_def)

lemma new_wrapper_inv:
  assumes "mem_valid m" "bridge_config (ms_config m)" "mem_horizon n m" "episodes_ok (sim_metrics g)"
  shows "pim_inv cfg n 0 (PIMWrapper_new m) g" "pim_inflight (PIMWrapper_new m) = {#}"
proof -
  have v: "bridge_valid (Bridge_new m)" "bridge_horizon n (Bridge_new m)" "bridge_inflight (Bridge_new m) = {#}"
    using assms(1-3) by (simp_all add: bridge_valid_def bridge_horizon_def bridge_inflight_def Bridge_new_def done_pending_def)
  then show "pim_inflight (PIMWrapper_new m) = {#}"
    by (simp add: pim_inflight_def pim_waiting_def memory_flight_def compute_flight_def PIMWrapper_new_def)
  show "pim_inv cfg n 0 (PIMWrapper_new m) g"
    using v assms(4)
    by (simp add: pim_inv_def busy_ok_def exclusive_def pim_inflight_def pim_waiting_def memory_flight_def compute_flight_def PIMWrapper_new_def)
qed

lemma pim_idle:
  assumes "pim_safe cfg s g" "memory_busy_count s = 0" "compute_busy_count s = 0" "pim_waiting s = {#}"
  shows "pim_inflight s = {#}"
  using assms by (auto simp: pim_safe_def pim_inv_def busy_ok_def pim_inflight_def)

section \<open>Properties\<close>

text \<open>
  Claim C24. The processing-in-memory device answers every payload once: from a new device over a valid memory system (self refresh and
  HBM dual commands disabled) and with a latency model if tensor requests arrive, under any interleaving of its
  thread, its clock edges and the arrival of payloads, nothing aborts, and the payloads that arrived are
  exactly those answered plus those still inside; when both busy counters are zero and no payload waits, all have been
  answered.
\<close>

theorem pim_answers_once:
  assumes "mem_valid m" "bridge_config (ms_config m)" "mem_horizon n m" "episodes_ok (sim_metrics g)"
    and "resumes ops \<le> n" "length (arrivals ops) < 2 ^ 32" "\<forall>t \<in> set (arrivals ops). macro_ok cfg t"
  shows "succeeds (pim_steps cfg tc ops (PIMWrapper_new m) g) (\<lambda>(outs, s, g').
    mset (arrivals ops) = output_payloads outs + pim_inflight s
    \<and> (memory_busy_count s = 0 \<and> compute_busy_count s = 0 \<and> pim_waiting s = {#} \<longrightarrow> mset (arrivals ops) = output_payloads outs))"
proof -
  note new = new_wrapper_inv(1) [OF assms(1-4), of cfg] new_wrapper_inv(2) [OF assms(1-4)]
  have "succeeds (pim_steps cfg tc ops (PIMWrapper_new m) g) (\<lambda>(outs, s', g').
    pim_safe cfg s' g' \<and> pim_inflight (PIMWrapper_new m) + mset (arrivals ops) = output_payloads outs + pim_inflight s')"
    by (rule pim_steps_ok [OF new(1) assms(5)]) (use assms(6,7) in simp_all)
  then show ?thesis
    by (rule succeeds_mono) (auto simp: new(2) pim_idle)
qed

definition demo_pim_config :: PimConfig where
  "demo_pim_config = \<lparr>pc_fast = False, pc_unified = True, mode_change_delay = (10, 20), pc_pim_sync = [], pc_host_sync = [], pc_model = None\<rparr>"

definition demo_sim :: Sim where
  "demo_sim = \<lparr>active_host = 1, active_core = 0, active_dram = 1, is_pim_busy = False, dram_sync_obj = SyncObject_new,
     pim_sync_obj = SyncObject_new, sim_logger = Logger_new, sim_metrics = PerformanceMetrics_new\<rparr>"

definition demo_pim_ops :: "pim_op list" where
  "demo_pim_ops = [Pim_arrive 0 (demo_payload 0 TLM_READ 4096), Pim_resume 0, Pim_arrive 0 (demo_payload 1 TLM_PIM 12), Pim_resume 625,
     Pim_posedge 1000, Pim_negedge 1500, Pim_resume 1250]"

lemma demo_pim_ok:
  "resumes demo_pim_ops \<le> 3" "length (arrivals demo_pim_ops) < 2 ^ 32" "\<forall>t \<in> set (arrivals demo_pim_ops). macro_ok demo_pim_config t"
  "episodes_ok (sim_metrics demo_sim)"
  by (simp_all add: demo_pim_ops_def macro_ok_def is_macro_request_def demo_payload_def demo_sim_def episodes_ok_def PerformanceMetrics_new_def)

theorem pim_answers_once_witness:
  "succeeds small_mem (\<lambda>m. succeeds (pim_steps demo_pim_config exact_times demo_pim_ops (PIMWrapper_new m) demo_sim) (\<lambda>(outs, s, g').
     {#demo_payload 0 TLM_READ 4096, demo_payload 1 TLM_PIM 12#} = output_payloads outs + pim_inflight s))"
proof (rule succeeds_mono [OF small_mem_ok])
  fix m assume "mem_valid m \<and> mem_horizon 3 m \<and> ms_config m = small_config \<and> mem_outstanding m = {#}"
  then have m: "mem_valid m" "bridge_config (ms_config m)" "mem_horizon 3 m" using small_bridge_config by simp_all
  have "mset (arrivals demo_pim_ops) = {#demo_payload 0 TLM_READ 4096, demo_payload 1 TLM_PIM 12#}" by (simp add: demo_pim_ops_def)
  with pim_answers_once [OF m demo_pim_ok(4,1,2,3), of exact_times]
  show "succeeds (pim_steps demo_pim_config exact_times demo_pim_ops (PIMWrapper_new m) demo_sim) (\<lambda>(outs, s, g').
     {#demo_payload 0 TLM_READ 4096, demo_payload 1 TLM_PIM 12#} = output_payloads outs + pim_inflight s)"
    by (auto elim!: succeeds_mono)
qed

text \<open>
  Claim C25. In the unified structure memory accesses and computations exclude each other: at no point of any interleaving
  is a memory access and a computation in flight together, and while the device changes its mode nothing is
  in flight at all.
\<close>

theorem unified_excludes:
  assumes "mem_valid m" "bridge_config (ms_config m)" "mem_horizon n m" "episodes_ok (sim_metrics g)" "pc_unified cfg"
    and "resumes ops \<le> n" "length (arrivals ops) < 2 ^ 32" "\<forall>t \<in> set (arrivals ops). macro_ok cfg t"
  shows "succeeds (pim_steps cfg tc ops (PIMWrapper_new m) g) (\<lambda>(outs, s, g').
    (memory_flight s = {#} \<or> compute_flight s = {#})
    \<and> (\<forall>t. pw_pc s = Changing_mode t \<longrightarrow> memory_flight s = {#} \<and> compute_flight s = {#}))"
proof -
  note new = new_wrapper_inv(1) [OF assms(1-4), of cfg] new_wrapper_inv(2) [OF assms(1-4)]
  have "succeeds (pim_steps cfg tc ops (PIMWrapper_new m) g) (\<lambda>(outs, s', g').
    pim_safe cfg s' g' \<and> pim_inflight (PIMWrapper_new m) + mset (arrivals ops) = output_payloads outs + pim_inflight s')"
    by (rule pim_steps_ok [OF new(1) assms(6)]) (use assms(7,8) in simp_all)
  then show ?thesis
    by (rule succeeds_mono) (use assms(5) in \<open>auto simp: pim_safe_def pim_inv_def busy_ok_def exclusive_def\<close>)
qed

theorem unified_excludes_witness:
  "succeeds small_mem (\<lambda>m. succeeds (pim_steps demo_pim_config exact_times demo_pim_ops (PIMWrapper_new m) demo_sim) (\<lambda>(outs, s, g').
     memory_flight s = {#} \<or> compute_flight s = {#}))"
proof (rule succeeds_mono [OF small_mem_ok])
  fix m assume "mem_valid m \<and> mem_horizon 3 m \<and> ms_config m = small_config \<and> mem_outstanding m = {#}"
  then have m: "mem_valid m" "bridge_config (ms_config m)" "mem_horizon 3 m" using small_bridge_config by simp_all
  have "pc_unified demo_pim_config" by (simp add: demo_pim_config_def)
  from unified_excludes [OF m demo_pim_ok(4) this demo_pim_ok(1,2,3), of exact_times]
  show "succeeds (pim_steps demo_pim_config exact_times demo_pim_ops (PIMWrapper_new m) demo_sim) (\<lambda>(outs, s, g').
     memory_flight s = {#} \<or> compute_flight s = {#})"
    by (auto elim!: succeeds_mono)
qed

end
