(* ===== verification/Mem_Wrapper.thy ===== *)
theory Mem_Wrapper
  imports Pim_Safety
begin

text \<open>
  \<^verbatim>\<open>hsim/components/mem_wrapper.cpp\<close>: the memory device beside the processing-in-memory one.  \<open>simulate_dram\<close> is one
  iteration of its thread, from one wait to the next; the clock edges and the arrival of payloads run
  in between.
\<close>

section \<open>State\<close>

record MemConfig =
  mc_fast :: bool
  mc_host_sync :: BaseMap
  mc_pim_sync :: BaseMap
  mc_model :: "MacroModel option"

record MEMWrapper =
  mw_bridge :: Bridge
  fw_queue :: "payload list"
  bw_queue :: "payload list"
  mem_request :: "payload list"
  m_outstanding :: u32
  total_cycle :: u64
  mw_fast_queue :: "(ps_time \<times> payload) list"
  wack_num :: int
  mw_stopped :: bool

text \<open>The constructor leaves \<^verbatim>\<open>total_cycle\<close> uninitialised; it is only incremented and starts at zero here.\<close>

definition MEMWrapper_new :: "MemorySystem \<Rightarrow> MEMWrapper" where
  "MEMWrapper_new m = \<lparr>mw_bridge = Bridge_new m, fw_queue = [], bw_queue = [], mem_request = [], m_outstanding = 0, total_cycle = 0,
     mw_fast_queue = [], wack_num = 0, mw_stopped = False\<rparr>"

datatype mem_wait = Mem_wait_event ps_time | Mem_wait_period | Mem_wait_end

datatype mem_output = Mem_response payload | Mem_released payload

section \<open>Completions\<close>

definition mem_record_end :: "TimeConv \<Rightarrow> ps_time \<Rightarrow> ps_time \<times> payload \<Rightarrow> Sim \<Rightarrow> Sim" where
  "mem_record_end tc now e g =
     metrics_with (request_completed (tc_to_ns tc) DRAM_device (snd e) now)
       (log_with (update_end tc now (gp_layer (snd e)) DRAM) g)"

definition mem_complete_fast :: "TimeConv \<Rightarrow> ps_time \<Rightarrow> MEMWrapper \<Rightarrow> Sim \<Rightarrow> MEMWrapper \<times> Sim" where
  "mem_complete_fast tc now s g =
     (case complete_due now (mem_record_end tc now) (mw_fast_queue s) (bw_queue s) g of
        (q, out, g') \<Rightarrow> (s\<lparr>mw_fast_queue := q, bw_queue := out\<rparr>, g'))"

definition find_sync_id :: "MemConfig \<Rightarrow> string \<Rightarrow> u32 res" where
  "find_sync_id cfg layer =
     (case map_of (mc_host_sync cfg) layer of
        Some (i, _, _) \<Rightarrow> Inr i
      | None \<Rightarrow> Inl (Thrown ''[DRAM][ERROR] Address not found in map.''))"

definition special_layers :: "string list" where
  "special_layers = [''D_V0'', ''D_V2'', ''D_V4'', ''D_V6'', ''D_V8'', ''D_V10'', ''D_V12'', ''D_V14'']"

definition mem_signal_sync :: "BaseMap \<Rightarrow> string \<Rightarrow> Sim \<Rightarrow> Sim" where
  "mem_signal_sync mp layer g =
     (case map_of mp layer of
        Some (i, _, _) \<Rightarrow>
          let g1 = (if layer \<in> set special_layers then g\<lparr>dram_sync_obj := snd (sync_signal i (dram_sync_obj g))\<rparr> else g) in
          g1\<lparr>pim_sync_obj := snd (sync_signal i (pim_sync_obj g1))\<rparr>
      | None \<Rightarrow> g)"

definition mem_complete_write_request :: "MemConfig \<Rightarrow> TimeConv \<Rightarrow> ps_time \<Rightarrow> payload \<Rightarrow> Sim \<Rightarrow> Sim" where
  "mem_complete_write_request cfg tc now t g =
     (if gp_last t then
        log_source_end tc now t
          (mem_signal_sync (if pim_cmd t = ''addertree'' then mc_pim_sync cfg else mc_host_sync cfg) (gp_layer t) g)
      else g)"

text \<open>
  The acknowledgements of a host write are counted in one counter for all bursts; the burst is complete
  when the counter reaches the size of the burst of the payload at hand.
\<close>

definition host_ack :: "payload \<Rightarrow> int \<Rightarrow> bool \<times> int" where
  "host_ack t n = (let n' = n + 1 in if word_of_int n' = bst_size t then (True, 0) else (False, n'))"

definition host_write_done :: "MemConfig \<Rightarrow> TimeConv \<Rightarrow> ps_time \<Rightarrow> payload \<Rightarrow> MEMWrapper \<Rightarrow> Sim \<Rightarrow> (mem_output list \<times> MEMWrapper \<times> Sim) res" where
  "host_write_done cfg tc now t s g =
     (case host_ack t (wack_num s) of (complete, n) \<Rightarrow>
      bindE (if complete
             then bindE (find_sync_id cfg (gp_layer t)) (\<lambda>i.
                  Inr (log_with (update_end tc now (gp_layer t) HOST) (g\<lparr>dram_sync_obj := snd (sync_signal i (dram_sync_obj g))\<rparr>)))
             else Inr g) (\<lambda>g1.
      Inr ([Mem_released t], s\<lparr>wack_num := n, m_outstanding := m_outstanding s - 1\<rparr>, g1)))"

definition mem_poll :: "MemConfig \<Rightarrow> TimeConv \<Rightarrow> ps_time \<Rightarrow> MEMWrapper \<Rightarrow> Sim \<Rightarrow> (mem_output list \<times> MEMWrapper \<times> Sim) res" where
  "mem_poll cfg tc now s g =
     (case getCompletedCommand (mw_bridge s) of
        (None, b) \<Rightarrow> Inr ([], s\<lparr>mw_bridge := b\<rparr>, g)
      | (Some t, b) \<Rightarrow>
          let s1 = s\<lparr>mw_bridge := b\<rparr>; g1 = metrics_with (request_completed (tc_to_ns tc) DRAM_device t now) g in
          if gp_command t = TLM_READ then Inr ([], s1\<lparr>bw_queue := bw_queue s1 @ [t]\<rparr>, g1)
          else if gp_command t = TLM_WRITE then
            (if src_id t = HOST \<and> pim_cmd t = ''addertree'' then
               Inr ([Mem_released t], s1\<lparr>m_outstanding := m_outstanding s1 - 1\<rparr>, mem_complete_write_request cfg tc now t g1)
             else if src_id t = HOST then host_write_done cfg tc now t s1 g1
             else if src_id t = NPU then Inr ([], s1\<lparr>bw_queue := bw_queue s1 @ [t]\<rparr>, g1)
             else Inr ([], s1, g1))
          else Inr ([], s1, g))"

section \<open>The thread\<close>

definition mem_send :: "MemConfig \<Rightarrow> TimeConv \<Rightarrow> ps_time \<Rightarrow> payload \<Rightarrow> MEMWrapper \<Rightarrow> Sim \<Rightarrow> (MEMWrapper \<times> Sim) res" where
  "mem_send cfg tc now t s g =
     (let s1 = s\<lparr>m_outstanding := m_outstanding s + 1\<rparr> in
      if mc_fast cfg \<and> is_macro_request t then
        (case mc_model cfg of
           None \<Rightarrow> Inl NullPointer
         | Some model \<Rightarrow>
             Inr (s1\<lparr>mw_fast_queue := mw_fast_queue s1 @ [(now + tc_ns tc (estimate_ns model (gp_command t) (macro_bytes t)), t)]\<rparr>,
                  metrics_with (request_started (tc_to_ns tc) DRAM_device t now (- 1))
                    (log_with (update_start tc now (gp_layer t) DRAM) g)))
      else
        bindE (sendCommand (tc_ns tc) now t (mw_bridge s1)) (\<lambda>b.
        Inr (s1\<lparr>mw_bridge := b\<rparr>,
             metrics_with (request_started (tc_to_ns tc) DRAM_device t now (MemorySystem_GetChannel (gp_address t) (br_mem (mw_bridge s1)))) g)))"

fun mem_send_loop :: "MemConfig \<Rightarrow> TimeConv \<Rightarrow> ps_time \<Rightarrow> payload list \<Rightarrow> MEMWrapper \<Rightarrow> Sim \<Rightarrow> (MEMWrapper \<times> Sim) res" where
  "mem_send_loop cfg tc now [] s g = Inr (s\<lparr>mem_request := []\<rparr>, g)"
| "mem_send_loop cfg tc now (t # q) s g =
     bindE (mem_send cfg tc now t (s\<lparr>mem_request := q\<rparr>) g) (\<lambda>(s1, g1). mem_send_loop cfg tc now q s1 g1)"

definition simulate_dram :: "MemConfig \<Rightarrow> TimeConv \<Rightarrow> ps_time \<Rightarrow> MEMWrapper \<Rightarrow> Sim \<Rightarrow> (mem_wait \<times> mem_output list \<times> MEMWrapper \<times> Sim) res" where
  "simulate_dram cfg tc now s g =
     (if mw_stopped s then Inr (Mem_wait_end, [], s, g)
      else
        case mem_complete_fast tc now s g of (s1, g1) \<Rightarrow>
        bindE (mem_poll cfg tc now s1 g1) (\<lambda>(out, s2, g2).
        bindE (mem_send_loop cfg tc now (mem_request s2) s2 g2) (\<lambda>(s3, g3).
        bindE (if mc_fast cfg then Inr (mw_bridge s3) else Bridge_ClockTick now (mw_bridge s3)) (\<lambda>b.
        let s4 = s3\<lparr>mw_bridge := b\<rparr> in
        if active_host g3 = 0 \<and> active_core g3 = 0 \<and> m_outstanding s4 = 0
        then Inr (Mem_wait_end, out, s4\<lparr>mw_stopped := True\<rparr>, g3\<lparr>active_dram := 0\<rparr>)
        else Inr (if mc_fast cfg \<and> mem_request s4 = [] \<and> mw_fast_queue s4 \<noteq> [] then Mem_wait_event (fst (hd (mw_fast_queue s4)))
                  else Mem_wait_period, out, s4\<lparr>total_cycle := total_cycle s4 + 1\<rparr>, g3)))))"

section \<open>Clock edges and arrivals\<close>

definition mem_clock_posedge :: "MEMWrapper \<Rightarrow> MEMWrapper" where
  "mem_clock_posedge s =
     (case fw_queue s of
        [] \<Rightarrow> s
      | t # q \<Rightarrow> s\<lparr>fw_queue := q, mem_request := mem_request s @ [t]\<rparr>)"

definition mem_clock_negedge :: "MEMWrapper \<Rightarrow> mem_output list \<times> MEMWrapper" where
  "mem_clock_negedge s =
     (case bw_queue s of
        [] \<Rightarrow> ([], s)
      | t # q \<Rightarrow> ([Mem_response t], s\<lparr>bw_queue := q, m_outstanding := m_outstanding s - 1\<rparr>))"

definition mem_peq_cb :: "TimeConv \<Rightarrow> ps_time \<Rightarrow> payload \<Rightarrow> MEMWrapper \<Rightarrow> Sim \<Rightarrow> MEMWrapper \<times> Sim" where
  "mem_peq_cb tc now t s g =
     (s\<lparr>fw_queue := fw_queue s @ [t]\<rparr>,
      metrics_with (request_arrived (tc_to_ns tc) now DRAM_device t
        (if is_macro_request t then macro_bytes t else ucast (gp_length t)) False) g)"

datatype mem_op = Mem_arrive ps_time payload | Mem_iterate ps_time | Mem_posedge | Mem_negedge

fun mem_step :: "MemConfig \<Rightarrow> TimeConv \<Rightarrow> mem_op \<Rightarrow> MEMWrapper \<Rightarrow> Sim \<Rightarrow> (mem_output list \<times> MEMWrapper \<times> Sim) res" where
  "mem_step cfg tc (Mem_arrive now t) s g = (case mem_peq_cb tc now t s g of (s', g') \<Rightarrow> Inr ([], s', g'))"
| "mem_step cfg tc (Mem_iterate now) s g = bindE (simulate_dram cfg tc now s g) (\<lambda>(w, out, s', g'). Inr (out, s', g'))"
| "mem_step cfg tc Mem_posedge s g = Inr ([], mem_clock_posedge s, g)"
| "mem_step cfg tc Mem_negedge s g = (case mem_clock_negedge s of (out, s') \<Rightarrow> Inr (out, s', g))"

fun mem_steps :: "MemConfig \<Rightarrow> TimeConv \<Rightarrow> mem_op list \<Rightarrow> MEMWrapper \<Rightarrow> Sim \<Rightarrow> (mem_output list \<times> MEMWrapper \<times> Sim) res" where
  "mem_steps cfg tc [] s g = Inr ([], s, g)"
| "mem_steps cfg tc (x # ops) s g =
     bindE (mem_step cfg tc x s g) (\<lambda>(out, s1, g1).
     bindE (mem_steps cfg tc ops s1 g1) (\<lambda>(outs, s2, g2). Inr (out @ outs, s2, g2)))"

section \<open>What is in flight\<close>

definition taken :: "MEMWrapper \<Rightarrow> payload multiset" where
  "taken s = bridge_inflight (mw_bridge s) + mset (map snd (mw_fast_queue s)) + mset (bw_queue s)"

definition mem_inflight :: "MEMWrapper \<Rightarrow> payload multiset" where
  "mem_inflight s = mset (fw_queue s) + mset (mem_request s) + taken s"

text \<open>
  The payloads the memory device can answer: reads, writes of the NPU, and writes of the host that are results of the adder tree or for a layer with a
  signal; a tensor-sized request needs the latency model.
\<close>

definition mem_payload_ok :: "MemConfig \<Rightarrow> payload \<Rightarrow> bool" where
  "mem_payload_ok cfg t =
     ((gp_command t = TLM_READ
       \<or> gp_command t = TLM_WRITE \<and> (src_id t = NPU \<or> src_id t = HOST \<and> (pim_cmd t = ''addertree'' \<or> map_of (mc_host_sync cfg) (gp_layer t) \<noteq> None)))
      \<and> (mc_fast cfg \<and> is_macro_request t \<longrightarrow> mc_model cfg \<noteq> None))"

definition mem_inv :: "MemConfig \<Rightarrow> nat \<Rightarrow> nat \<Rightarrow> MEMWrapper \<Rightarrow> bool" where
  "mem_inv cfg n k s =
     (bridge_valid (mw_bridge s) \<and> bridge_horizon n (mw_bridge s) \<and> unat (m_outstanding s) = size (taken s)
      \<and> size (mem_inflight s) \<le> k \<and> (\<forall>t \<in># mem_inflight s. mem_payload_ok cfg t)
      \<and> (mw_stopped s \<longrightarrow> taken s = {#}))"

lemma mem_complete_fast_ok:
  assumes "mem_complete_fast tc now s g = (s', g')"
  shows "taken s' = taken s \<and> s' = s\<lparr>mw_fast_queue := mw_fast_queue s', bw_queue := bw_queue s'\<rparr>"
proof -
  obtain q out h where l: "complete_due now (mem_record_end tc now) (mw_fast_queue s) (bw_queue s) g = (q, out, h)"
    by (metis prod_cases3)
  obtain d where d: "mw_fast_queue s = d @ q" "out = bw_queue s @ map snd d" using complete_due_splits [OF l] by blast
  have "s' = s\<lparr>mw_fast_queue := q, bw_queue := out\<rparr>" using assms l by (simp add: mem_complete_fast_def)
  then show ?thesis using d by (simp add: taken_def ac_simps)
qed

abbreviation mem_output_payloads :: "mem_output list \<Rightarrow> payload multiset" where
  "mem_output_payloads out \<equiv> mset (map (case_mem_output id id) out)"

lemma mem_poll_ok:
  assumes "bridge_valid (mw_bridge s)" "bridge_horizon n (mw_bridge s)" "unat (m_outstanding s) = size (taken s)"
    "\<forall>t \<in># taken s. mem_payload_ok cfg t"
  shows "succeeds (mem_poll cfg tc now s g) (\<lambda>(out, s', g'). bridge_valid (mw_bridge s') \<and> bridge_horizon n (mw_bridge s')
    \<and> unat (m_outstanding s') = size (taken s') \<and> taken s = mem_output_payloads out + taken s'
    \<and> fw_queue s' = fw_queue s \<and> mem_request s' = mem_request s \<and> mw_stopped s' = mw_stopped s)"
proof -
  obtain r b where t: "getCompletedCommand (mw_bridge s) = (r, b)" by (cases "getCompletedCommand (mw_bridge s)")
  have b: "bridge_valid b" "bridge_horizon n b"
    "bridge_inflight (mw_bridge s) = (case r of None \<Rightarrow> {#} | Some t \<Rightarrow> {#t#}) + bridge_inflight b"
    using bridge.take_ok [OF assms(1,2)] t by simp_all
  show ?thesis
  proof (cases r)
    case None
    then show ?thesis using assms t b by (simp add: mem_poll_def taken_def)
  next
    case (Some p)
    let ?s = "s\<lparr>mw_bridge := b\<rparr>"
    have tk: "taken s = add_mset p (taken ?s)" using b(3) by (simp add: taken_def Some)
    have p: "mem_payload_ok cfg p" using assms(4) tk by simp
    have o: "unat (m_outstanding s - 1) = size (taken ?s)" using outstanding_less assms(3) tk by simp
    have eq: "taken (s\<lparr>mw_bridge := b, bw_queue := bw_queue s @ [p]\<rparr>) = taken s" using tk by (simp add: taken_def)
    have eq2: "taken (s\<lparr>mw_bridge := b, m_outstanding := c\<rparr>) = taken ?s" "taken (s\<lparr>mw_bridge := b, wack_num := w, m_outstanding := c\<rparr>) = taken ?s" for c w
      by (simp_all add: taken_def)
    consider "gp_command p = TLM_READ" | "gp_command p = TLM_WRITE" "src_id p = NPU" | "gp_command p = TLM_WRITE" "src_id p = HOST"
      using p by (auto simp: mem_payload_ok_def)
    then show ?thesis
    proof cases
      case 3
      have f: "pim_cmd p \<noteq> ''addertree'' \<longrightarrow> (\<exists>i. find_sync_id cfg (gp_layer p) = Inr i)" using p 3 by (auto simp: mem_payload_ok_def find_sync_id_def)
      show ?thesis
        using f b o tk assms(3) 3 t Some eq2
        by (auto simp: mem_poll_def Let_def host_write_done_def split: prod.splits)
    qed (use b tk assms(3) t Some eq in \<open>simp_all add: mem_poll_def Let_def\<close>)
  qed
qed

lemma mem_send_ok:
  assumes "bridge_valid (mw_bridge s)" "bridge_horizon n (mw_bridge s)" "unat (m_outstanding s) = size (taken s)"
    "mem_payload_ok cfg t" "Suc (size (taken s)) < 2 ^ 32"
  shows "succeeds (mem_send cfg tc now t s g) (\<lambda>(s', g'). bridge_valid (mw_bridge s') \<and> bridge_horizon n (mw_bridge s')
    \<and> unat (m_outstanding s') = size (taken s') \<and> taken s' = add_mset t (taken s) \<and> same_episodes g g'
    \<and> fw_queue s' = fw_queue s \<and> mem_request s' = mem_request s \<and> mw_stopped s' = mw_stopped s)"
proof -
  have o: "unat (m_outstanding s + 1) = Suc (size (taken s))" by (rule outstanding_more [OF assms(3,5)])
  show ?thesis
  proof (cases "mc_fast cfg \<and> is_macro_request t")
    case True
    then obtain m where m: "mc_model cfg = Some m" using assms(4) by (auto simp: mem_payload_ok_def)
    have "taken (s\<lparr>m_outstanding := m_outstanding s + 1, mw_fast_queue := mw_fast_queue s @ [(e, t)]\<rparr>) = add_mset t (taken s)" for e
      by (simp add: taken_def)
    then show ?thesis using assms True m o by (simp add: mem_send_def Let_def)
  next
    case False
    from bridge.send_ok [OF assms(1,2), of "tc_ns tc" now t] obtain b where
      b: "sendCommand (tc_ns tc) now t (mw_bridge s) = Inr b" "bridge_valid b" "bridge_horizon n b"
      "bridge_inflight b = add_mset t (bridge_inflight (mw_bridge s))" by (auto simp: succeeds_iff)
    have "taken (s\<lparr>m_outstanding := m_outstanding s + 1, mw_bridge := b\<rparr>) = add_mset t (taken s)" by (simp add: taken_def b(4))
    then show ?thesis
      unfolding mem_send_def Let_def if_not_P [OF False] using b o by simp
  qed
qed

lemma mem_send_loop_ok:
  assumes "bridge_valid (mw_bridge s)" "bridge_horizon n (mw_bridge s)" "unat (m_outstanding s) = size (taken s)"
    "\<forall>t \<in> set ts. mem_payload_ok cfg t" "size (taken s) + length ts < 2 ^ 32"
  shows "succeeds (mem_send_loop cfg tc now ts s g) (\<lambda>(s', g'). bridge_valid (mw_bridge s') \<and> bridge_horizon n (mw_bridge s')
    \<and> unat (m_outstanding s') = size (taken s') \<and> taken s' = taken s + mset ts
    \<and> fw_queue s' = fw_queue s \<and> mem_request s' = [] \<and> mw_stopped s' = mw_stopped s)"
  using assms
proof (induction ts arbitrary: s g)
  case Nil
  then show ?case by (simp add: taken_def)
next
  case (Cons t ts)
  let ?s = "s\<lparr>mem_request := ts\<rparr>"
  have q: "taken ?s = taken s" by (simp add: taken_def)
  have "succeeds (mem_send cfg tc now t ?s g) (\<lambda>(s', g'). bridge_valid (mw_bridge s') \<and> bridge_horizon n (mw_bridge s')
    \<and> unat (m_outstanding s') = size (taken s') \<and> taken s' = add_mset t (taken ?s) \<and> same_episodes g g'
    \<and> fw_queue s' = fw_queue ?s \<and> mem_request s' = mem_request ?s \<and> mw_stopped s' = mw_stopped ?s)"
    by (rule mem_send_ok) (use Cons.prems q in simp_all)
  then obtain s1 g1 where 1: "mem_send cfg tc now t ?s g = Inr (s1, g1)" "bridge_valid (mw_bridge s1)" "bridge_horizon n (mw_bridge s1)"
    "unat (m_outstanding s1) = size (taken s1)" "taken s1 = add_mset t (taken s)" "fw_queue s1 = fw_queue s" "mw_stopped s1 = mw_stopped s"
    by (auto simp: succeeds_iff q)
  show ?case using Cons.IH [OF 1(2-4), of g1] Cons.prems(4,5) 1(1,5-7) by (auto simp: succeeds_iff)
qed

lemma simulate_dram_ok:
  assumes "mem_inv cfg (Suc n) k s" "k < 2 ^ 32"
  shows "succeeds (simulate_dram cfg tc now s g) (\<lambda>(w, out, s', g'). mem_inv cfg n k s'
    \<and> mem_inflight s = mem_output_payloads out + mem_inflight s')"
proof (cases "mw_stopped s")
  case True
  then show ?thesis using assms(1) bridge_horizon_less by (auto simp: simulate_dram_def mem_inv_def)
next
  case False
  have i: "bridge_valid (mw_bridge s)" "bridge_horizon (Suc n) (mw_bridge s)" "unat (m_outstanding s) = size (taken s)"
    "size (mem_inflight s) \<le> k" "\<forall>t \<in># mem_inflight s. mem_payload_ok cfg t" using assms(1) by (simp_all add: mem_inv_def)
  obtain s1 g1 where c: "mem_complete_fast tc now s g = (s1, g1)" by (cases "mem_complete_fast tc now s g")
  have 1: "taken s1 = taken s" "mw_bridge s1 = mw_bridge s" "fw_queue s1 = fw_queue s" "mem_request s1 = mem_request s"
    "m_outstanding s1 = m_outstanding s" "mw_stopped s1 = mw_stopped s"
    using mem_complete_fast_ok [OF c] by (auto dest: arg_cong [of s1 _ mw_bridge] arg_cong [of s1 _ fw_queue]
      arg_cong [of s1 _ mem_request] arg_cong [of s1 _ m_outstanding] arg_cong [of s1 _ mw_stopped])
  have "succeeds (mem_poll cfg tc now s1 g1) (\<lambda>(out, s', g'). bridge_valid (mw_bridge s') \<and> bridge_horizon (Suc n) (mw_bridge s')
    \<and> unat (m_outstanding s') = size (taken s') \<and> taken s1 = mem_output_payloads out + taken s'
    \<and> fw_queue s' = fw_queue s1 \<and> mem_request s' = mem_request s1 \<and> mw_stopped s' = mw_stopped s1)"
    by (rule mem_poll_ok) (use i 1 in \<open>simp_all add: mem_inflight_def\<close>)
  then obtain out s2 g2 where 2: "mem_poll cfg tc now s1 g1 = Inr (out, s2, g2)" "bridge_valid (mw_bridge s2)" "bridge_horizon (Suc n) (mw_bridge s2)"
    "unat (m_outstanding s2) = size (taken s2)" "taken s = mem_output_payloads out + taken s2" "fw_queue s2 = fw_queue s"
    "mem_request s2 = mem_request s" "\<not> mw_stopped s2" by (auto simp: succeeds_iff 1 False)
  have "succeeds (mem_send_loop cfg tc now (mem_request s2) s2 g2) (\<lambda>(s', g'). bridge_valid (mw_bridge s') \<and> bridge_horizon (Suc n) (mw_bridge s')
    \<and> unat (m_outstanding s') = size (taken s') \<and> taken s' = taken s2 + mset (mem_request s2)
    \<and> fw_queue s' = fw_queue s2 \<and> mem_request s' = [] \<and> mw_stopped s' = mw_stopped s2)"
    by (rule mem_send_loop_ok [OF 2(2-4)]) (use i 2(5,7) assms(2) in \<open>simp_all add: mem_inflight_def\<close>)
  then obtain s3 g3 where 3: "mem_send_loop cfg tc now (mem_request s2) s2 g2 = Inr (s3, g3)" "bridge_valid (mw_bridge s3)"
    "bridge_horizon (Suc n) (mw_bridge s3)" "unat (m_outstanding s3) = size (taken s3)" "taken s3 = taken s2 + mset (mem_request s)"
    "fw_queue s3 = fw_queue s" "mem_request s3 = []" "\<not> mw_stopped s3" using 2(6-8) by (auto simp: succeeds_iff)
  have "succeeds (if mc_fast cfg then Inr (mw_bridge s3) else Bridge_ClockTick now (mw_bridge s3))
    (\<lambda>b. bridge_valid b \<and> bridge_horizon n b \<and> bridge_inflight b = bridge_inflight (mw_bridge s3))"
    using 3(2,3) bridge_horizon_less [OF 3(3)] bridge.tick_ok [OF 3(2,3), of now] by simp
  then obtain b where b: "(if mc_fast cfg then Inr (mw_bridge s3) else Bridge_ClockTick now (mw_bridge s3)) = Inr b"
    "bridge_valid b" "bridge_horizon n b" "bridge_inflight b = bridge_inflight (mw_bridge s3)" by (auto simp: succeeds_iff)
  let ?s4 = "s3\<lparr>mw_bridge := b\<rparr>"
  have tk: "taken (?s4\<lparr>mw_stopped := x\<rparr>) = taken s3" "taken (?s4\<lparr>total_cycle := y\<rparr>) = taken s3" for x y by (simp_all add: taken_def b(4))
  have m: "mem_inflight s = mem_output_payloads out + (mset (fw_queue s3) + taken s3)"
    using 2(5) 3(5-7) by (simp add: mem_inflight_def ac_simps)
  have z: "taken s3 = {#}" if "m_outstanding s3 = 0" using 3(4) that by simp
  show ?thesis
    unfolding simulate_dram_def if_not_P [OF False] c prod.case 2(1) bindE_Inr 3(1) b(1)
    using b(2,3) 3(4,7,8) tk m i(4,5) z by (auto simp: Let_def mem_inv_def mem_inflight_def)
qed

section \<open>Runs\<close>

fun mem_arrivals :: "mem_op list \<Rightarrow> payload list" where
  "mem_arrivals [] = []"
| "mem_arrivals (Mem_arrive now t # ops) = t # mem_arrivals ops"
| "mem_arrivals (x # ops) = mem_arrivals ops"

fun iterations :: "mem_op list \<Rightarrow> nat" where
  "iterations [] = 0"
| "iterations (Mem_iterate now # ops) = Suc (iterations ops)"
| "iterations (x # ops) = iterations ops"

definition mem_safe :: "MemConfig \<Rightarrow> MEMWrapper \<Rightarrow> bool" where
  "mem_safe cfg s = (\<exists>n k. mem_inv cfg n k s)"

lemma mem_posedge_ok: "mem_inv cfg n k s \<Longrightarrow> mem_inv cfg n k (mem_clock_posedge s) \<and> mem_inflight (mem_clock_posedge s) = mem_inflight s"
  by (auto simp: mem_clock_posedge_def mem_inv_def mem_inflight_def taken_def split: list.splits)

lemma mem_negedge_ok:
  assumes "mem_inv cfg n k s" "mem_clock_negedge s = (out, s')"
  shows "mem_inv cfg n k s' \<and> mem_inflight s = mem_output_payloads out + mem_inflight s'"
proof (cases "bw_queue s")
  case Nil
  then show ?thesis using assms by (simp add: mem_clock_negedge_def)
next
  case (Cons t q)
  have s: "s' = s\<lparr>bw_queue := q, m_outstanding := m_outstanding s - 1\<rparr>" "out = [Mem_response t]"
    using assms(2) Cons by (simp_all add: mem_clock_negedge_def)
  have tk: "taken s = add_mset t (taken s')" by (simp add: s(1) taken_def Cons)
  have "unat (m_outstanding s - 1) = size (taken s')" using outstanding_less assms(1) tk by (simp add: mem_inv_def)
  then show ?thesis using assms(1) tk s by (auto simp: mem_inv_def mem_inflight_def)
qed

lemma mem_arrive_ok:
  assumes "mem_inv cfg n k s" "mem_payload_ok cfg t" "mem_peq_cb tc now t s g = (s', g')"
  shows "mem_inv cfg n (Suc k) s' \<and> mem_inflight s' = add_mset t (mem_inflight s)"
proof -
  have s: "s' = s\<lparr>fw_queue := fw_queue s @ [t]\<rparr>" using assms(3) by (simp add: mem_peq_cb_def)
  have "taken s' = taken s" by (simp add: s taken_def)
  then show ?thesis using assms(1,2) by (auto simp: s mem_inv_def mem_inflight_def)
qed

lemma mem_steps_ok:
  assumes "mem_inv cfg n k s" "iterations ops \<le> n" "k + length (mem_arrivals ops) < 2 ^ 32" "\<forall>t \<in> set (mem_arrivals ops). mem_payload_ok cfg t"
  shows "succeeds (mem_steps cfg tc ops s g) (\<lambda>(outs, s', g').
    mem_safe cfg s' \<and> mem_inflight s + mset (mem_arrivals ops) = mem_output_payloads outs + mem_inflight s')"
  using assms
proof (induction ops arbitrary: n k s g)
  case (Cons x ops)
  show ?case
  proof (cases x)
    case (Mem_arrive now t)
    obtain s1 g1 where a: "mem_peq_cb tc now t s g = (s1, g1)" by (cases "mem_peq_cb tc now t s g")
    have i: "mem_inv cfg n (Suc k) s1 \<and> mem_inflight s1 = add_mset t (mem_inflight s)"
      by (rule mem_arrive_ok [OF Cons.prems(1) _ a]) (use Cons.prems(4) Mem_arrive in simp)
    then show ?thesis using Cons.IH [of n "Suc k" s1 g1] Cons.prems(2-4) a Mem_arrive by (auto simp: succeeds_iff)
  next
    case (Mem_iterate now)
    then obtain m where m: "n = Suc m" using Cons.prems(2) by (cases n) auto
    from simulate_dram_ok [OF Cons.prems(1) [unfolded m], of tc now g] Cons.prems(3) obtain w out s1 g1 where
      a: "simulate_dram cfg tc now s g = Inr (w, out, s1, g1)" "mem_inv cfg m k s1" "mem_inflight s = mem_output_payloads out + mem_inflight s1"
      by (auto simp: succeeds_iff)
    show ?thesis using Cons.IH [OF a(2), of g1] Cons.prems(2-4) a Mem_iterate m by (auto simp: succeeds_iff)
  next
    case Mem_posedge
    with Cons.IH [of n k "mem_clock_posedge s" g] mem_posedge_ok [OF Cons.prems(1)] Cons.prems(2-4) show ?thesis
      by (auto simp: succeeds_iff)
  next
    case Mem_negedge
    obtain out s1 where a: "mem_clock_negedge s = (out, s1)" by (cases "mem_clock_negedge s")
    note p = mem_negedge_ok [OF Cons.prems(1) a]
    then show ?thesis using Cons.IH [of n k s1 g] Cons.prems(2-4) a Mem_negedge by (auto simp: succeeds_iff)
  qed
qed (auto simp: mem_safe_def)

lemma mem_new_inv:
  assumes "mem_valid m" "bridge_config (ms_config m)" "mem_horizon n m"
  shows "mem_inv cfg n 0 (MEMWrapper_new m)" "mem_inflight (MEMWrapper_new m) = {#}"
proof -
  have v: "bridge_valid (Bridge_new m)" "bridge_horizon n (Bridge_new m)" "bridge_inflight (Bridge_new m) = {#}"
    using assms by (simp_all add: bridge_valid_def bridge_horizon_def bridge_inflight_def Bridge_new_def done_pending_def)
  then show "mem_inflight (MEMWrapper_new m) = {#}" by (simp add: mem_inflight_def taken_def MEMWrapper_new_def)
  show "mem_inv cfg n 0 (MEMWrapper_new m)" using v by (simp add: mem_inv_def mem_inflight_def taken_def MEMWrapper_new_def)
qed

section \<open>Properties\<close>

text \<open>
  Claim C26. The memory device answers every request that it can answer once and stops only when it has: from a new device, under any interleaving of its
  thread, its clock edges and the arrival of reads, of writes of the NPU and of host writes that are results of the adder tree or have an entry in the
  synchronisation map, with a latency model where tensor requests are in the fast mode, nothing aborts, the payloads that
  arrived are exactly those answered plus those still inside, the counter of outstanding requests is the number
  of requests handed to the memory and not yet answered, and once the thread has stopped none of those is left.
\<close>

theorem mem_answers_once:
  assumes "mem_valid m" "bridge_config (ms_config m)" "mem_horizon n m"
    and "iterations ops \<le> n" "length (mem_arrivals ops) < 2 ^ 32" "\<forall>t \<in> set (mem_arrivals ops). mem_payload_ok cfg t"
  shows "succeeds (mem_steps cfg tc ops (MEMWrapper_new m) g) (\<lambda>(outs, s, g').
    mset (mem_arrivals ops) = mem_output_payloads outs + mem_inflight s
    \<and> unat (m_outstanding s) = size (taken s) \<and> (mw_stopped s \<longrightarrow> taken s = {#}))"
proof -
  note new = mem_new_inv(1) [OF assms(1-3), of cfg] mem_new_inv(2) [OF assms(1-3)]
  have "succeeds (mem_steps cfg tc ops (MEMWrapper_new m) g) (\<lambda>(outs, s', g').
    mem_safe cfg s' \<and> mem_inflight (MEMWrapper_new m) + mset (mem_arrivals ops) = mem_output_payloads outs + mem_inflight s')"
    by (rule mem_steps_ok [OF new(1) assms(4)]) (use assms(5,6) in simp_all)
  then show ?thesis
    by (rule succeeds_mono) (auto simp: new(2) mem_safe_def mem_inv_def)
qed

definition demo_mem_config :: MemConfig where
  "demo_mem_config = \<lparr>mc_fast = False, mc_host_sync = [], mc_pim_sync = [], mc_model = None\<rparr>"

definition demo_mem_ops :: "mem_op list" where
  "demo_mem_ops = [Mem_arrive 0 (demo_payload 0 TLM_READ 4096), Mem_posedge, Mem_iterate 0, Mem_arrive 500 (demo_payload 1 TLM_WRITE 8192),
     Mem_posedge, Mem_iterate 625, Mem_negedge]"

theorem mem_answers_once_witness:
  "succeeds small_mem (\<lambda>m. succeeds (mem_steps demo_mem_config exact_times demo_mem_ops (MEMWrapper_new m) demo_sim) (\<lambda>(outs, s, g').
     {#demo_payload 0 TLM_READ 4096, demo_payload 1 TLM_WRITE 8192#} = mem_output_payloads outs + mem_inflight s))"
proof (rule succeeds_mono [OF small_mem_ok])
  fix m assume "mem_valid m \<and> mem_horizon 3 m \<and> ms_config m = small_config \<and> mem_outstanding m = {#}"
  then have m: "mem_valid m" "bridge_config (ms_config m)" "mem_horizon 3 m" using small_bridge_config by simp_all
  have d: "iterations demo_mem_ops \<le> 3" "length (mem_arrivals demo_mem_ops) < 2 ^ 32"
    "\<forall>t \<in> set (mem_arrivals demo_mem_ops). mem_payload_ok demo_mem_config t"
    "mset (mem_arrivals demo_mem_ops) = {#demo_payload 0 TLM_READ 4096, demo_payload 1 TLM_WRITE 8192#}"
    by (simp_all add: demo_mem_ops_def mem_payload_ok_def demo_payload_def demo_mem_config_def)
  from mem_answers_once [OF m d(1-3), of exact_times demo_sim]
  show "succeeds (mem_steps demo_mem_config exact_times demo_mem_ops (MEMWrapper_new m) demo_sim) (\<lambda>(outs, s, g').
     {#demo_payload 0 TLM_READ 4096, demo_payload 1 TLM_WRITE 8192#} = mem_output_payloads outs + mem_inflight s)"
    unfolding d(4) by (auto elim!: succeeds_mono)
qed

text \<open>
  What it cannot answer: a completed write of another module is taken from the bridge and then held nowhere, with no response and without
  being subtracted from the outstanding requests, so that the thread never stops; and a host burst for a layer without an entry ends
  the simulation when it completes.
\<close>

lemma foreign_write_lost:
  assumes "getCompletedCommand (mw_bridge s) = (Some t, b)" "gp_command t = TLM_WRITE" "src_id t \<notin> {HOST, NPU}"
  shows "\<exists>g'. mem_poll cfg tc now s g = Inr ([], s\<lparr>mw_bridge := b\<rparr>, g')"
  using assms by (simp add: mem_poll_def Let_def)

lemma unsynchronised_burst_throws:
  assumes "getCompletedCommand (mw_bridge s) = (Some t, b)" "gp_command t = TLM_WRITE" "src_id t = HOST" "pim_cmd t \<noteq> ''addertree''"
    and "map_of (mc_host_sync cfg) (gp_layer t) = None" "bst_size t = word_of_int (wack_num s + 1)"
  shows "\<exists>e. mem_poll cfg tc now s g = Inl e"
  using assms by (simp add: mem_poll_def Let_def host_write_done_def host_ack_def find_sync_id_def)

text \<open>
  The acknowledgements of two host bursts that overlap are mixed up: when the single payload of a second burst
  completes between the two of a first one, the counter passes both sizes and neither burst is signalled.
\<close>

fun host_acks :: "payload list \<Rightarrow> int \<Rightarrow> bool list \<times> int" where
  "host_acks [] n = ([], n)"
| "host_acks (t # ts) n = (case host_ack t n of (c, n1) \<Rightarrow> case host_acks ts n1 of (cs, n2) \<Rightarrow> (c # cs, n2))"

lemma overlapping_bursts_lost:
  assumes "bst_size a = 2" "bst_size b = 1"
  shows "host_acks [a, b, a] 0 = ([False, False, False], 3)"
  using assms by (simp add: host_ack_def Let_def)

end
