(* ===== verification/Npu_Replayer.thy ===== *)
theory Npu_Replayer
  imports Dram_Macro
begin

text \<open>
  \<^verbatim>\<open>hsim/components/npu_trace_replayer.cpp\<close>: the model of the target NPU.  A run performs, for each decoder
  layer and operation, memory transfers and computation; a transfer is split into requests of the size of a
  memory line with a bounded number in flight, or sent as one tensor-sized request.  The payload objects are
  recycled and keep the attributes that are not set anew, so the contents of the objects are explicit.
  The thread waits inside a transfer; \<open>dma_pc\<close> are its program points.
\<close>

section \<open>Profiles\<close>

record SyntheticNPUInfo =
  compute_ns_per_layer :: u32
  output_write_bytes_per_layer :: u32
  max_inflight_requests :: u32
  npu_fast_layer_mode :: bool
  npu_fast_macro :: bool
  analytical_compute_enabled :: bool

record ModelOperationInfo =
  op_name :: string
  weight_read_bytes :: u64
  compute_share :: u32
  macs_per_token :: u64
  macs_per_kv_token :: u64

record ModelLayerProfile =
  lp_name :: string
  layer_count :: u32
  output_write_bytes :: u64
  kv_cache_bytes_per_token :: u64
  attention_context_tile_tokens :: u32
  operations :: "ModelOperationInfo list"

section \<open>State\<close>

record NPUTraceReplayer =
  np_mm :: mm
  np_objects :: "nat \<Rightarrow> payload"
  dram_req_bytes :: u32
  run_id :: u32
  next_address :: u64
  pending_responses :: u32
  active_context_tokens :: u32
  active_query_tokens :: u32
  active_kv_write_tokens :: u32
  active_episode_id :: string
  response_event :: bool

text \<open>The command of the host that starts a run.\<close>

definition npu_peq_fw_cb :: "payload \<Rightarrow> tlm_phase \<Rightarrow> NPUTraceReplayer \<Rightarrow> bool \<times> NPUTraceReplayer" where
  "npu_peq_fw_cb t phase s =
     (if phase = BEGIN_REQ \<and> gp_command t = TLM_COMPUTE then
        (True, s\<lparr>active_episode_id := episode_id_from_layer (gp_layer t), active_context_tokens := max 1 (gp_length t),
                 active_query_tokens := max 1 (bst_size t), active_kv_write_tokens := max 1 (ucast (gp_address t))\<rparr>)
      else (False, s))"

definition complete_memory_response :: "payload \<Rightarrow> NPUTraceReplayer \<Rightarrow> NPUTraceReplayer res" where
  "complete_memory_response t s =
     (if pending_responses s > 0 then
        Inr (s\<lparr>np_mm := mm_free (gp_ptr t) (np_mm s), pending_responses := pending_responses s - 1, response_event := True\<rparr>)
      else Inl AssertFailed)"

definition npu_peq_bw_cb :: "payload \<Rightarrow> tlm_phase \<Rightarrow> NPUTraceReplayer \<Rightarrow> NPUTraceReplayer res" where
  "npu_peq_bw_cb t phase s = (if phase = BEGIN_RESP then complete_memory_response t s else Inr s)"

section \<open>Transfers\<close>

record Dma =
  dma_command :: tlm_command
  dma_layer :: string
  dma_remaining :: u32
  dma_burst_id :: u32
  dma_burst_size :: u32

datatype dma_pc = Dma_window Dma | Dma_drain | Dma_done

definition req_bytes :: "NPUTraceReplayer \<Rightarrow> u32" where
  "req_bytes s = max 1 (dram_req_bytes s)"

lemma req_bytes_pos: "0 < unat (req_bytes s)"
proof -
  have "1 \<le> req_bytes s" by (simp add: req_bytes_def)
  then show ?thesis by (metis One_nat_def Suc_le_eq unat_1 word_le_nat_alt)
qed

definition issue_request :: "bool \<Rightarrow> Dma \<Rightarrow> NPUTraceReplayer \<Rightarrow> payload \<times> Dma \<times> NPUTraceReplayer" where
  "issue_request dram_on d s =
     (let payload_bytes = min (dma_remaining d) (req_bytes s);
          (p, pool) = mm_allocate (np_mm s);
          t = (np_objects s p)\<lparr>gp_ptr := p, gp_command := dma_command d, src_id := NPU, dst_id := (if dram_on then DRAM else PIM),
                gp_address := next_address s, gp_length := payload_bytes, bst_id := dma_burst_id d,
                bst_size := dma_burst_size d, gp_layer := dma_layer d\<rparr> in
      (t, d\<lparr>dma_remaining := dma_remaining d - payload_bytes, dma_burst_id := dma_burst_id d + 1\<rparr>,
       s\<lparr>np_mm := pool, np_objects := (np_objects s)(p := t), next_address := next_address s + ucast (req_bytes s),
         pending_responses := pending_responses s + 1\<rparr>))"

lemma issue_request_remaining:
  "dma_remaining (fst (snd (issue_request dram_on d s))) = dma_remaining d - min (dma_remaining d) (req_bytes s)"
  by (simp add: issue_request_def Let_def split: prod.split)

lemma request_progress:
  assumes "dma_remaining d \<noteq> 0"
  shows "unat (dma_remaining d - min (dma_remaining d) (req_bytes s)) < unat (dma_remaining d)"
proof -
  have "0 < unat (req_bytes s)" by (rule req_bytes_pos)
  moreover have "0 < unat (dma_remaining d)" using assms by (simp add: unat_gt_0)
  moreover have "min (dma_remaining d) (req_bytes s) \<le> dma_remaining d" by simp
  ultimately show ?thesis by (simp add: unat_sub min_def word_le_nat_alt)
qed

text \<open>The loop of \<^verbatim>\<open>issue_memory\<close> from where it stands to the next wait; \<open>out\<close> are the requests sent.\<close>

function dma_run :: "bool \<Rightarrow> u32 \<Rightarrow> Dma \<Rightarrow> NPUTraceReplayer \<Rightarrow> payload list \<times> dma_pc \<times> NPUTraceReplayer" where
  "dma_run dram_on window d s =
     (if dma_remaining d = 0 then ([], if pending_responses s > 0 then Dma_drain else Dma_done, s)
      else
        (case issue_request dram_on d s of
           (t, d1, s1) \<Rightarrow>
             if pending_responses s1 \<ge> window then ([t], Dma_window d1, s1)
             else (case dma_run dram_on window d1 s1 of (ts, pc, s2) \<Rightarrow> (t # ts, pc, s2))))"
  by pat_completeness auto
termination
proof (relation "measure (\<lambda>(_, _, d, _). unat (dma_remaining d))", simp, clarsimp)
  fix dram_on d s t d1 s1
  assume "dma_remaining d \<noteq> 0" "(t, d1, s1) = issue_request dram_on d s"
  then show "unat (dma_remaining d1) < unat (dma_remaining d)"
    using request_progress issue_request_remaining [of dram_on d s] by (metis fst_conv snd_conv)
qed

declare dma_run.simps [simp del]

definition issue_memory :: "bool \<Rightarrow> u32 \<Rightarrow> tlm_command \<Rightarrow> u32 \<Rightarrow> string \<Rightarrow> NPUTraceReplayer \<Rightarrow> payload list \<times> dma_pc \<times> NPUTraceReplayer" where
  "issue_memory dram_on window command bytes layer s =
     (let burst_size = (bytes + req_bytes s - 1) div req_bytes s in
      if burst_size = 0 then ([], Dma_done, s)
      else dma_run dram_on window
             \<lparr>dma_command = command, dma_layer = layer, dma_remaining = bytes, dma_burst_id = 0, dma_burst_size = burst_size\<rparr>
             (s\<lparr>pending_responses := 0, response_event := False\<rparr>))"

text \<open>The thread continues when \<^verbatim>\<open>response_event\<close> was notified.\<close>

definition dma_wake :: "bool \<Rightarrow> u32 \<Rightarrow> dma_pc \<Rightarrow> NPUTraceReplayer \<Rightarrow> payload list \<times> dma_pc \<times> NPUTraceReplayer" where
  "dma_wake dram_on window pc s =
     (if \<not> response_event s then ([], pc, s)
      else
        let s1 = s\<lparr>response_event := False\<rparr> in
        case pc of
          Dma_window d \<Rightarrow> dma_run dram_on window d s1
        | Dma_drain \<Rightarrow> ([], if pending_responses s1 > 0 then Dma_drain else Dma_done, s1)
        | Dma_done \<Rightarrow> ([], Dma_done, s))"

definition issue_fast_memory :: "bool \<Rightarrow> tlm_command \<Rightarrow> u64 \<Rightarrow> string \<Rightarrow> NPUTraceReplayer \<Rightarrow> payload list \<times> dma_pc \<times> NPUTraceReplayer" where
  "issue_fast_memory dram_on command bytes layer s =
     (if bytes = 0 then ([], Dma_done, s)
      else
        let (p, pool) = mm_allocate (np_mm s);
            t = (np_objects s p)\<lparr>gp_ptr := p, gp_command := command, src_id := NPU, dst_id := (if dram_on then DRAM else PIM),
                  gp_address := next_address s, gp_length := ucast (bytes AND 0xffffffff), bst_id := 0,
                  bst_size := ucast (drop_bit 32 bytes), gp_layer := layer, pim_cmd := ''fast_memory''\<rparr> in
        ([t], Dma_drain,
         s\<lparr>np_mm := pool, np_objects := (np_objects s)(p := t), next_address := next_address s + bytes, pending_responses := 1,
           response_event := False\<rparr>))"

section \<open>A run\<close>

text \<open>
  What a run does in its order: transfers, computations, and the records of a layer.  None of it depends on the
  times at which the waits end.  \<open>op_ns\<close> is the floating-point estimate of the time of an operation.
\<close>

datatype npu_action =
    Npu_layer_start string
  | Npu_transfer tlm_command u32 string
  | Npu_fast_transfer tlm_command u64 string
  | Npu_compute u64
  | Npu_layer_end string u64

definition operation_compute_ns :: "(ModelOperationInfo \<Rightarrow> u32 \<Rightarrow> u32 \<Rightarrow> u64) \<Rightarrow> SyntheticNPUInfo \<Rightarrow> NPUTraceReplayer \<Rightarrow> ModelOperationInfo \<Rightarrow> u64" where
  "operation_compute_ns op_ns prof s x =
     (if \<not> analytical_compute_enabled prof then 0 else op_ns x (active_query_tokens s) (active_context_tokens s))"

definition op_compute :: "(ModelOperationInfo \<Rightarrow> u32 \<Rightarrow> u32 \<Rightarrow> u64) \<Rightarrow> SyntheticNPUInfo \<Rightarrow> NPUTraceReplayer \<Rightarrow> u32 \<Rightarrow> bool \<Rightarrow> u64 \<Rightarrow> ModelOperationInfo \<Rightarrow> u64 res" where
  "op_compute op_ns prof s total_share is_last_op assigned x =
     (if analytical_compute_enabled prof then Inr (operation_compute_ns op_ns prof s x)
      else if is_last_op then Inr (ucast (compute_ns_per_layer prof) - assigned)
      else if total_share = 0 then Inl DivByZero
      else Inr (ucast ((compute_ns_per_layer prof * compute_share x) div total_share)))"

definition fast_op_actions :: "ModelLayerProfile \<Rightarrow> NPUTraceReplayer \<Rightarrow> u32 \<Rightarrow> string \<Rightarrow> ModelOperationInfo \<Rightarrow> u64 \<Rightarrow> npu_action list" where
  "fast_op_actions lp s mul layer x per_layer_compute =
     (let op_layer = layer @ ''.op.'' @ op_name x in
      (if weight_read_bytes x > 0
       then [Npu_fast_transfer TLM_READ (weight_read_bytes x * ucast mul) (op_layer @ ''.weight'')] else [])
      @ (if op_name x = ''qkt'' \<and> kv_cache_bytes_per_token lp > 0
         then [Npu_fast_transfer TLM_READ (kv_cache_bytes_per_token lp * ucast (active_context_tokens s) * ucast mul) (op_layer @ ''.kv_cache.read'')]
         else [])
      @ [Npu_compute (per_layer_compute * ucast mul)]
      @ (if op_name x = ''v_proj'' \<and> kv_cache_bytes_per_token lp > 0
         then [Npu_fast_transfer TLM_WRITE (kv_cache_bytes_per_token lp * ucast (active_kv_write_tokens s) * ucast mul) (op_layer @ ''.kv_cache.write'')]
         else []))"

definition op_actions :: "ModelLayerProfile \<Rightarrow> NPUTraceReplayer \<Rightarrow> string \<Rightarrow> ModelOperationInfo \<Rightarrow> u64 \<Rightarrow> npu_action list" where
  "op_actions lp s layer x compute_ns =
     (let op_layer = layer @ ''.op.'' @ op_name x in
      (if weight_read_bytes x > 0 then [Npu_transfer TLM_READ (ucast (weight_read_bytes x)) (op_layer @ ''.weight'')] else [])
      @ (if op_name x = ''qkt'' \<and> kv_cache_bytes_per_token lp > 0
         then [Npu_transfer TLM_READ (ucast (kv_cache_bytes_per_token lp * ucast (active_context_tokens s))) (op_layer @ ''.kv_cache.read'')]
         else [])
      @ (if compute_ns > 0 then [Npu_compute compute_ns] else [])
      @ (if op_name x = ''v_proj'' \<and> kv_cache_bytes_per_token lp > 0
         then [Npu_transfer TLM_WRITE (ucast (kv_cache_bytes_per_token lp * ucast (active_kv_write_tokens s))) (op_layer @ ''.kv_cache.write'')]
         else []))"

text \<open>The loop over the operations of a layer: the actions and the compute time assigned.\<close>

fun ops_loop ::
    "(ModelOperationInfo \<Rightarrow> u64 \<Rightarrow> npu_action list) \<Rightarrow> (bool \<Rightarrow> u64 \<Rightarrow> ModelOperationInfo \<Rightarrow> u64 res) \<Rightarrow> ModelOperationInfo list \<Rightarrow> u64
      \<Rightarrow> (npu_action list \<times> u64) res" where
  "ops_loop acts compute [] assigned = Inr ([], assigned)"
| "ops_loop acts compute (x # xs) assigned =
     bindE (compute (xs = []) assigned x) (\<lambda>c.
     bindE (ops_loop acts compute xs (assigned + c)) (\<lambda>(as, total'). Inr (acts x c @ as, total')))"

definition total_compute_share :: "ModelLayerProfile \<Rightarrow> u32" where
  "total_compute_share lp = sum_list (map compute_share (operations lp))"

definition layer_output_bytes :: "SyntheticNPUInfo \<Rightarrow> ModelLayerProfile \<Rightarrow> NPUTraceReplayer \<Rightarrow> u64" where
  "layer_output_bytes prof lp s =
     (if output_write_bytes lp \<noteq> 0 then output_write_bytes lp else ucast (output_write_bytes_per_layer prof)) * ucast (active_query_tokens s)"

definition fast_layer_actions ::
    "(ModelOperationInfo \<Rightarrow> u32 \<Rightarrow> u32 \<Rightarrow> u64) \<Rightarrow> SyntheticNPUInfo \<Rightarrow> ModelLayerProfile \<Rightarrow> NPUTraceReplayer \<Rightarrow> u32 \<Rightarrow> string \<Rightarrow> npu_action list res" where
  "fast_layer_actions op_ns prof lp s mul layer =
     bindE (ops_loop (fast_op_actions lp s mul layer) (op_compute op_ns prof s (total_compute_share lp)) (operations lp) 0) (\<lambda>(as, assigned).
     Inr ([Npu_layer_start layer] @ as @ [Npu_fast_transfer TLM_WRITE (layer_output_bytes prof lp s * ucast mul) (layer @ ''.output''),
          Npu_layer_end layer (assigned * ucast mul)]))"

definition layer_actions ::
    "(ModelOperationInfo \<Rightarrow> u32 \<Rightarrow> u32 \<Rightarrow> u64) \<Rightarrow> SyntheticNPUInfo \<Rightarrow> ModelLayerProfile \<Rightarrow> NPUTraceReplayer \<Rightarrow> string \<Rightarrow> npu_action list res" where
  "layer_actions op_ns prof lp s layer =
     bindE (ops_loop (op_actions lp s layer) (op_compute op_ns prof s (total_compute_share lp)) (operations lp) 0) (\<lambda>(as, assigned).
     let output_bytes = layer_output_bytes prof lp s in
     Inr ([Npu_layer_start layer] @ as
          @ (if output_bytes > 0 then [Npu_transfer TLM_WRITE (ucast output_bytes) (layer @ ''.output'')] else [])
          @ [Npu_layer_end layer assigned]))"

fun concat_res :: "('a \<Rightarrow> 'b list res) \<Rightarrow> 'a list \<Rightarrow> 'b list res" where
  "concat_res f [] = Inr []"
| "concat_res f (x # xs) = bindE (f x) (\<lambda>ys. bindE (concat_res f xs) (\<lambda>zs. Inr (ys @ zs)))"

definition replay_trace ::
    "(ModelOperationInfo \<Rightarrow> u32 \<Rightarrow> u32 \<Rightarrow> u64) \<Rightarrow> SyntheticNPUInfo \<Rightarrow> ModelLayerProfile \<Rightarrow> NPUTraceReplayer
      \<Rightarrow> (npu_action list \<times> NPUTraceReplayer) res" where
  "replay_trace op_ns prof lp s =
     (let s1 = s\<lparr>run_id := run_id s + 1\<rparr>;
          run = ''target_npu.run'' @ to_string (unat (run_id s)) in
      bindE (if npu_fast_layer_mode prof then
               (if npu_fast_macro prof then fast_layer_actions op_ns prof lp s1 (layer_count lp) (run @ ''.macro'')
                else concat_res (\<lambda>k. fast_layer_actions op_ns prof lp s1 1 (run @ ''.layer'' @ to_string k)) [0..<unat (layer_count lp)])
             else concat_res (\<lambda>k. layer_actions op_ns prof lp s1 (run @ ''.layer'' @ to_string k)) [0..<unat (layer_count lp)]) (\<lambda>as.
      Inr (as, s1)))"

section \<open>Work of a run\<close>

fun action_compute :: "npu_action \<Rightarrow> u64" where
  "action_compute (Npu_compute c) = c"
| "action_compute _ = 0"

fun action_bytes :: "tlm_command \<Rightarrow> npu_action \<Rightarrow> u64" where
  "action_bytes cmd (Npu_transfer cmd' b l) = (if cmd' = cmd then ucast b else 0)"
| "action_bytes cmd (Npu_fast_transfer cmd' b l) = (if cmd' = cmd then b else 0)"
| "action_bytes cmd _ = 0"

abbreviation compute_work :: "npu_action list \<Rightarrow> u64" where
  "compute_work as \<equiv> sum_list (map action_compute as)"

abbreviation transfer_work :: "tlm_command \<Rightarrow> npu_action list \<Rightarrow> u64" where
  "transfer_work cmd as \<equiv> sum_list (map (action_bytes cmd) as)"

lemma fast_op_work:
  "compute_work (fast_op_actions lp s mul layer x c) = ucast mul * compute_work (fast_op_actions lp s 1 layer' x c)"
  "transfer_work cmd (fast_op_actions lp s mul layer x c) = ucast mul * transfer_work cmd (fast_op_actions lp s 1 layer' x c)"
  by (simp_all add: fast_op_actions_def Let_def algebra_simps)

lemma fast_ops_work:
  "ops_loop (fast_op_actions lp s mul layer) cmp xs a = Inr (as, tot) \<Longrightarrow>
   \<exists>bs. ops_loop (fast_op_actions lp s 1 layer') cmp xs a = Inr (bs, tot) \<and> compute_work as = ucast mul * compute_work bs
     \<and> transfer_work cmd as = ucast mul * transfer_work cmd bs"
proof (induction xs arbitrary: a as tot)
  case (Cons x xs)
  then obtain c as' where c: "cmp (xs = []) a x = Inr c" "ops_loop (fast_op_actions lp s mul layer) cmp xs (a + c) = Inr (as', tot)"
    "as = fast_op_actions lp s mul layer x c @ as'" by (auto simp: res_simps)
  from Cons.IH [OF c(2)] obtain bs where b: "ops_loop (fast_op_actions lp s 1 layer') cmp xs (a + c) = Inr (bs, tot)"
    "compute_work as' = ucast mul * compute_work bs" "transfer_work cmd as' = ucast mul * transfer_work cmd bs" by blast
  show ?case
    using c(1,3) b fast_op_work(1) [of lp s mul layer x c layer'] fast_op_work(2) [of cmd lp s mul layer x c layer']
    by (simp add: algebra_simps)
qed simp

lemma ops_loop_fails:
  "ops_loop (fast_op_actions lp s mul layer) cmp xs a = Inl e \<Longrightarrow> ops_loop (fast_op_actions lp s mul' layer') cmp xs a = Inl e"
proof (induction xs arbitrary: a)
  case (Cons x xs)
  show ?case
  proof (cases "cmp (xs = []) a x")
    case (Inr c)
    with Cons.prems have "ops_loop (fast_op_actions lp s mul layer) cmp xs (a + c) = Inl e"
      by (cases "ops_loop (fast_op_actions lp s mul layer) cmp xs (a + c)") auto
    from Cons.IH [OF this] show ?thesis by (simp add: Inr)
  qed (use Cons.prems in simp)
qed simp

lemma fast_layer_work:
  assumes "fast_layer_actions op_ns prof lp s mul layer = Inr as"
  shows "\<exists>bs. fast_layer_actions op_ns prof lp s 1 layer' = Inr bs \<and> compute_work as = ucast mul * compute_work bs
    \<and> transfer_work cmd as = ucast mul * transfer_work cmd bs"
proof -
  let ?cmp = "op_compute op_ns prof s (total_compute_share lp)"
  from assms obtain as' tot where a: "ops_loop (fast_op_actions lp s mul layer) ?cmp (operations lp) 0 = Inr (as', tot)"
    "as = [Npu_layer_start layer] @ as' @ [Npu_fast_transfer TLM_WRITE (layer_output_bytes prof lp s * ucast mul) (layer @ ''.output''),
          Npu_layer_end layer (tot * ucast mul)]"
    by (auto simp: fast_layer_actions_def res_simps)
  from fast_ops_work [OF a(1), of layer' cmd] obtain bs where
    "ops_loop (fast_op_actions lp s 1 layer') ?cmp (operations lp) 0 = Inr (bs, tot)"
    "compute_work as' = ucast mul * compute_work bs" "transfer_work cmd as' = ucast mul * transfer_work cmd bs" by blast
  then show ?thesis by (simp add: fast_layer_actions_def a(2) algebra_simps)
qed

lemma concat_res_work:
  assumes "\<And>k. k \<in> set ks \<Longrightarrow> \<exists>bs. f k = Inr bs \<and> compute_work bs = c \<and> transfer_work TLM_READ bs = r \<and> transfer_work TLM_WRITE bs = w"
  shows "\<exists>bs. concat_res f ks = Inr bs \<and> compute_work bs = of_nat (length ks) * c
    \<and> transfer_work TLM_READ bs = of_nat (length ks) * r \<and> transfer_work TLM_WRITE bs = of_nat (length ks) * w"
  using assms
proof (induction ks)
  case (Cons k ks)
  from Cons.prems [of k] obtain bs where b: "f k = Inr bs" "compute_work bs = c" "transfer_work TLM_READ bs = r" "transfer_work TLM_WRITE bs = w" by auto
  from Cons.IH [OF Cons.prems] obtain cs where "concat_res f ks = Inr cs" "compute_work cs = of_nat (length ks) * c"
    "transfer_work TLM_READ cs = of_nat (length ks) * r" "transfer_work TLM_WRITE cs = of_nat (length ks) * w" by auto
  with b show ?case by (simp add: algebra_simps)
qed simp

section \<open>The requests of a transfer\<close>

text \<open>
  The specification: request \<open>k\<close> of a transfer of \<open>bytes\<close> bytes starts \<open>k\<close> lines after the base address and covers a line or
  what is left.
\<close>

definition line_count :: "nat \<Rightarrow> nat \<Rightarrow> nat" where
  "line_count req bytes = (bytes + req - 1) div req"

definition line_spec :: "u64 \<Rightarrow> u32 \<Rightarrow> nat \<Rightarrow> nat \<Rightarrow> u64 \<times> u32 \<times> u32 \<times> u32" where
  "line_spec base req bytes k =
     (base + of_nat k * ucast req, of_nat (min (unat req) (bytes - k * unat req)), of_nat k, of_nat (line_count (unat req) bytes))"

definition line_sig :: "payload \<Rightarrow> u64 \<times> u32 \<times> u32 \<times> u32" where
  "line_sig t = (gp_address t, gp_length t, bst_id t, bst_size t)"

definition window_size :: "u32 \<Rightarrow> nat" where
  "window_size w = max 1 (unat w)"

lemma line_count_le: "0 < r \<Longrightarrow> k < line_count r b \<longleftrightarrow> k * r < b"
proof -
  assume r: "0 < r"
  have "k < (b + r - 1) div r \<longleftrightarrow> Suc k * r \<le> b + r - 1" using less_eq_div_iff_mult_less_eq [OF r, of "Suc k" "b + r - 1"] by (simp add: Suc_le_eq)
  also have "\<dots> \<longleftrightarrow> k * r < b" using r by auto
  finally show ?thesis by (simp add: line_count_def)
qed

lemma line_length: "unat (fst (snd (line_spec base req bytes k))) = min (unat req) (bytes - k * unat req)"
proof -
  have "unat req < 2 ^ 32" using unsigned_less [of req] by simp
  then have "min (unat req) (bytes - k * unat req) < 2 ^ 32" by linarith
  from unat_of_nat_u32 [OF this] show ?thesis by (simp only: line_spec_def fst_conv snd_conv)
qed

lemma lines_cover: "(\<Sum>k < n. min r (b - k * r)) = min (n * r) (b :: nat)"
  by (induction n) (auto simp: min_def)

text \<open>\<open>k\<close> requests were sent and \<open>a\<close> answered.\<close>

definition dma_inv :: "u64 \<Rightarrow> u32 \<Rightarrow> nat \<Rightarrow> u32 \<Rightarrow> nat \<Rightarrow> nat \<Rightarrow> dma_pc \<Rightarrow> NPUTraceReplayer \<Rightarrow> bool" where
  "dma_inv base req bytes w k a pc s =
     (req_bytes s = req \<and> next_address s = base + of_nat k * ucast req \<and> unat (pending_responses s) + a = k
      \<and> unat (pending_responses s) \<le> window_size w \<and> k \<le> line_count (unat req) bytes
      \<and> (case pc of
           Dma_window d \<Rightarrow> unat (dma_remaining d) = bytes - k * unat req \<and> dma_burst_id d = of_nat k
             \<and> dma_burst_size d = of_nat (line_count (unat req) bytes)
             \<and> (response_event s \<longrightarrow> unat (pending_responses s) < window_size w)
         | Dma_drain \<Rightarrow> k = line_count (unat req) bytes
         | Dma_done \<Rightarrow> k = line_count (unat req) bytes \<and> a = k))"

lemma dma_run_ok:
  assumes "dma_run dram_on w d s = (ts, pc, s')" "req_bytes s = req" "0 < unat req"
    "next_address s = base + of_nat k * ucast req" "unat (pending_responses s) + a = k" "unat (pending_responses s) < window_size w"
    "unat (dma_remaining d) = bytes - k * unat req" "dma_burst_id d = of_nat k" "dma_burst_size d = of_nat (line_count (unat req) bytes)"
    "k \<le> line_count (unat req) bytes" "\<not> response_event s"
  shows "map line_sig ts = map (line_spec base req bytes) [k..<k + length ts] \<and> dma_inv base req bytes w (k + length ts) a pc s'"
  using assms
proof (induction dram_on w d s arbitrary: ts pc s' k rule: dma_run.induct)
  case (1 dram_on w d s)
  show ?case
  proof (cases "dma_remaining d = 0")
    case True
    then have "\<not> k < line_count (unat req) bytes" using "1.prems"(7) line_count_le [OF "1.prems"(3)] by simp
    then have k: "k = line_count (unat req) bytes" using "1.prems"(10) by simp
    have r: "ts = []" "pc = (if pending_responses s > 0 then Dma_drain else Dma_done)" "s' = s"
      using "1.prems"(1) True by (auto simp: dma_run.simps [of dram_on w d s])
    then show ?thesis using "1.prems" k by (auto simp: dma_inv_def word_gt_0 split: if_splits)
  next
    case False
    obtain t d1 s1 where i: "issue_request dram_on d s = (t, d1, s1)" by (metis prod_cases3)
    let ?b = "min (dma_remaining d) req"
    have "line_sig t = (next_address s, ?b, dma_burst_id d, dma_burst_size d)"
      and d1: "dma_remaining d1 = dma_remaining d - ?b" "dma_burst_id d1 = dma_burst_id d + 1" "dma_burst_size d1 = dma_burst_size d"
      and s1: "req_bytes s1 = req" "next_address s1 = next_address s + ucast req" "pending_responses s1 = pending_responses s + 1"
        "response_event s1 = response_event s"
      using i "1.prems"(2) by (auto simp: issue_request_def Let_def line_sig_def req_bytes_def split: prod.splits)
    moreover have ub: "unat ?b = min (unat req) (bytes - k * unat req)" using "1.prems"(7) by (simp add: min_def word_le_nat_alt)
    moreover have "?b = of_nat (min (unat req) (bytes - k * unat req))" by (simp flip: ub)
    ultimately have sig: "line_sig t = line_spec base req bytes k"
      using "1.prems"(4,8,9) by (simp add: line_spec_def)
    have "?b \<le> dma_remaining d" by simp
    then have rem: "unat (dma_remaining d1) = bytes - Suc k * unat req" using d1(1) ub "1.prems"(7) by (simp add: unat_sub word_le_nat_alt)
    have "bytes - k * unat req \<noteq> 0" using False "1.prems"(7) by (metis unat_eq_zero)
    then have k: "Suc k \<le> line_count (unat req) bytes" using line_count_le [OF "1.prems"(3), of k bytes] by simp
    have "window_size w < 2 ^ 32" using unsigned_less [of w] by (simp add: window_size_def)
    then have p: "unat (pending_responses s1) = Suc (unat (pending_responses s))"
      unfolding s1(3) by (intro outstanding_more) (use "1.prems"(6) in auto)
    have addr: "next_address s1 = base + of_nat (Suc k) * ucast req" using s1(2) "1.prems"(4) by (simp add: algebra_simps)
    show ?thesis
    proof (cases "pending_responses s1 \<ge> w")
      case True
      then have r: "ts = [t]" "pc = Dma_window d1" "s' = s1" using "1.prems"(1) False i by (simp_all add: dma_run.simps [of dram_on w d s])
      show ?thesis
        using r sig s1 d1 rem k p addr "1.prems"(5,6,8,9,11) by (simp add: dma_inv_def)
    next
      case less: False
      obtain us pc2 s2 where u: "dma_run dram_on w d1 s1 = (us, pc2, s2)" by (metis prod_cases3)
      have r: "ts = t # us" "pc = pc2" "s' = s2" using "1.prems"(1) False i u less by (simp_all add: dma_run.simps [of dram_on w d s])
      have pw: "unat (pending_responses s1) < window_size w" using less by (simp add: window_size_def word_le_nat_alt)
      have "map line_sig us = map (line_spec base req bytes) [Suc k..<Suc k + length us] \<and> dma_inv base req bytes w (Suc k + length us) a pc2 s2"
        by (rule "1.IH" [OF False i [symmetric] refl less u s1(1) "1.prems"(3) addr _ pw rem _ _ k])
          (use p d1 s1 "1.prems"(5,8,9,11) in simp_all)
      moreover have "[k..<k + length ts] = k # [Suc k..<Suc k + length us]" using r(1) by (simp add: upt_rec)
      ultimately show ?thesis using r sig by simp
    qed
  qed
qed

text \<open>A transfer as it runs: responses arrive and the thread wakes, in any order.\<close>

datatype dma_op = Dma_response payload | Dma_wake

fun dma_step :: "bool \<Rightarrow> u32 \<Rightarrow> dma_op \<Rightarrow> dma_pc \<times> NPUTraceReplayer \<Rightarrow> (payload list \<times> dma_pc \<times> NPUTraceReplayer) res" where
  "dma_step dram_on w (Dma_response t) (pc, s) = bindE (npu_peq_bw_cb t BEGIN_RESP s) (\<lambda>s1. Inr ([], pc, s1))"
| "dma_step dram_on w Dma_wake (pc, s) = Inr (dma_wake dram_on w pc s)"

fun dma_steps :: "bool \<Rightarrow> u32 \<Rightarrow> dma_op list \<Rightarrow> dma_pc \<times> NPUTraceReplayer \<Rightarrow> (payload list \<times> dma_pc \<times> NPUTraceReplayer) res" where
  "dma_steps dram_on w [] (pc, s) = Inr ([], pc, s)"
| "dma_steps dram_on w (x # xs) (pc, s) =
     bindE (dma_step dram_on w x (pc, s)) (\<lambda>(ts, pc1, s1).
     bindE (dma_steps dram_on w xs (pc1, s1)) (\<lambda>(us, pc2, s2). Inr (ts @ us, pc2, s2)))"

fun responses :: "dma_op list \<Rightarrow> nat" where
  "responses [] = 0"
| "responses (Dma_response t # xs) = Suc (responses xs)"
| "responses (Dma_wake # xs) = responses xs"

lemma dma_response_ok:
  assumes "dma_inv base req bytes w k a pc s" "complete_memory_response t s = Inr s'"
  shows "dma_inv base req bytes w k (Suc a) pc s'"
proof -
  let ?p = "pending_responses s"
  have p: "?p > 0" "s' = s\<lparr>np_mm := mm_free (gp_ptr t) (np_mm s), pending_responses := ?p - 1, response_event := True\<rparr>"
    using assms(2) by (auto simp: complete_memory_response_def split: if_splits)
  then have "unat ?p = Suc (unat ?p - 1)" by (simp add: word_gt_0 unat_gt_0)
  then have "unat (?p - 1) = unat ?p - 1" "0 < unat ?p" using outstanding_less by auto
  then show ?thesis using assms(1) p(2) by (auto simp: dma_inv_def req_bytes_def split: dma_pc.splits)
qed

lemma dma_wake_ok:
  assumes "dma_inv base req bytes w k a pc s" "0 < unat req" "dma_wake dram_on w pc s = (ts, pc', s')"
  shows "map line_sig ts = map (line_spec base req bytes) [k..<k + length ts] \<and> dma_inv base req bytes w (k + length ts) a pc' s'"
proof (cases "response_event s")
  case True
  show ?thesis
  proof (cases pc)
    case (Dma_window d)
    then have "dma_run dram_on w d (s\<lparr>response_event := False\<rparr>) = (ts, pc', s')" using assms(3) True by (simp add: dma_wake_def)
    then show ?thesis
      by (rule dma_run_ok) (use assms(1,2) True Dma_window in \<open>auto simp: dma_inv_def req_bytes_def\<close>)
  qed (use assms True in \<open>auto simp: dma_wake_def dma_inv_def req_bytes_def word_gt_0 split: if_splits\<close>)
qed (use assms in \<open>auto simp: dma_wake_def\<close>)

lemma dma_steps_ok:
  assumes "dma_inv base req bytes w k a pc s" "0 < unat req" "dma_steps dram_on w xs (pc, s) = Inr (ts, pc', s')"
  shows "map line_sig ts = map (line_spec base req bytes) [k..<k + length ts]
    \<and> dma_inv base req bytes w (k + length ts) (a + responses xs) pc' s'"
  using assms
proof (induction xs arbitrary: k a pc s ts)
  case (Cons x xs)
  from Cons.prems(3) obtain us pc1 s1 vs where x: "dma_step dram_on w x (pc, s) = Inr (us, pc1, s1)"
    "dma_steps dram_on w xs (pc1, s1) = Inr (vs, pc', s')" "ts = us @ vs" by (auto simp: res_simps)
  let ?a = "a + responses [x]"
  have "map line_sig us = map (line_spec base req bytes) [k..<k + length us] \<and> dma_inv base req bytes w (k + length us) ?a pc1 s1"
  proof (cases x)
    case (Dma_response t)
    then show ?thesis using x(1) dma_response_ok [OF Cons.prems(1)] by (auto simp: res_simps npu_peq_bw_cb_def)
  next
    case Dma_wake
    then show ?thesis using x(1) dma_wake_ok [OF Cons.prems(1,2)] by simp
  qed
  moreover from this Cons.IH [OF _ Cons.prems(2) x(2)]
  have "map line_sig vs = map (line_spec base req bytes) [k + length us..<k + length us + length vs]
      \<and> dma_inv base req bytes w (k + length us + length vs) (?a + responses xs) pc' s'" by blast
  moreover have "?a + responses xs = a + responses (x # xs)" by (cases x) simp_all
  moreover have "[k..<k + length ts] = [k..<k + length us] @ [k + length us..<k + length us + length vs]" "k + length ts = k + length us + length vs"
    using upt_add_eq_append [of k "k + length us" "length vs"] by (simp_all add: x(3) add.assoc)
  ultimately show ?case unfolding x(3) by (metis map_append)
qed simp

lemma issue_memory_ok:
  assumes "issue_memory dram_on w cmd bytes layer s = (ts, pc, s')" "unat bytes + unat (req_bytes s) \<le> 2 ^ 32" "bytes \<noteq> 0"
  shows "map line_sig ts = map (line_spec (next_address s) (req_bytes s) (unat bytes)) [0..<length ts]
    \<and> dma_inv (next_address s) (req_bytes s) (unat bytes) w (length ts) 0 pc s'"
proof -
  let ?r = "req_bytes s"
  note r = req_bytes_pos [of s]
  have b: "0 < unat bytes" using assms(3) by (simp add: unat_gt_0)
  have "bytes + ?r - 1 = of_nat (unat bytes + unat ?r - 1)" using r by (simp add: of_nat_diff)
  moreover have "unat (of_nat (unat bytes + unat ?r - 1) :: u32) = unat bytes + unat ?r - 1"
    by (rule unat_of_nat_u32) (use assms(2) r b in simp)
  ultimately have n: "unat ((bytes + ?r - 1) div ?r) = line_count (unat ?r) (unat bytes)"
    by (simp add: unat_div line_count_def)
  then have nw: "(bytes + ?r - 1) div ?r = of_nat (line_count (unat ?r) (unat bytes))" by (simp flip: n)
  have "0 < line_count (unat ?r) (unat bytes)" using line_count_le [OF r, of 0] b by simp
  then have "(bytes + ?r - 1) div ?r \<noteq> 0" using n by (metis less_irrefl unat_0)
  then have "dma_run dram_on w \<lparr>dma_command = cmd, dma_layer = layer, dma_remaining = bytes, dma_burst_id = 0,
      dma_burst_size = (bytes + ?r - 1) div ?r\<rparr> (s\<lparr>pending_responses := 0, response_event := False\<rparr>) = (ts, pc, s')"
    using assms(1) by (simp add: issue_memory_def Let_def)
  then have "map line_sig ts = map (line_spec (next_address s) ?r (unat bytes)) [0..<0 + length ts]
      \<and> dma_inv (next_address s) ?r (unat bytes) w (0 + length ts) 0 pc s'"
    by (rule dma_run_ok) (use r in \<open>simp_all add: nw [unfolded req_bytes_def] req_bytes_def window_size_def\<close>)
  then show ?thesis by simp
qed

section \<open>Properties\<close>

text \<open>
  Claim C32. The granularity of the fast mode does not change the work: whether the decoder layers are collapsed
  into one or replayed one by one, a run computes for the same total time and reads and writes the same
  total number of bytes, all in 64-bit arithmetic.
\<close>

theorem granularity_keeps_work:
  assumes "npu_fast_layer_mode prof" "npu_fast_macro prof" "replay_trace op_ns prof lp s = Inr (as, s')"
  shows "\<exists>bs. replay_trace op_ns (prof\<lparr>npu_fast_macro := False\<rparr>) lp s = Inr (bs, s') \<and> compute_work bs = compute_work as
    \<and> transfer_work TLM_READ bs = transfer_work TLM_READ as \<and> transfer_work TLM_WRITE bs = transfer_work TLM_WRITE as"
proof -
  let ?s = "s\<lparr>run_id := run_id s + 1\<rparr>" and ?run = "''target_npu.run'' @ to_string (unat (run_id s))" and ?n = "layer_count lp"
  let ?f = "\<lambda>k. fast_layer_actions op_ns prof lp ?s 1 (?run @ ''.layer'' @ to_string k)"
  have a: "fast_layer_actions op_ns prof lp ?s ?n (?run @ ''.macro'') = Inr as" "s' = ?s"
    using assms by (auto simp: replay_trace_def Let_def res_simps)
  obtain b0 where b0: "fast_layer_actions op_ns prof lp ?s 1 [] = Inr b0" "compute_work as = ucast ?n * compute_work b0"
    using fast_layer_work [OF a(1), of "[]" TLM_READ] by blast
  have b: "transfer_work cmd as = ucast ?n * transfer_work cmd b0" for cmd
    using fast_layer_work [OF a(1), of "[]" cmd] b0(1) by auto
  have "\<exists>bs. ?f k = Inr bs \<and> compute_work bs = compute_work b0 \<and> transfer_work TLM_READ bs = transfer_work TLM_READ b0
      \<and> transfer_work TLM_WRITE bs = transfer_work TLM_WRITE b0" for k
    using fast_layer_work [OF b0(1), of "?run @ ''.layer'' @ to_string k" TLM_READ]
      fast_layer_work [OF b0(1), of "?run @ ''.layer'' @ to_string k" TLM_WRITE] by auto
  from concat_res_work [of "[0..<unat ?n]" ?f, OF this] obtain bs where
    c: "concat_res ?f [0..<unat ?n] = Inr bs" "compute_work bs = of_nat (unat ?n) * compute_work b0"
    "transfer_work TLM_READ bs = of_nat (unat ?n) * transfer_work TLM_READ b0" "transfer_work TLM_WRITE bs = of_nat (unat ?n) * transfer_work TLM_WRITE b0"
    by auto
  have "op_compute op_ns (prof\<lparr>npu_fast_macro := False\<rparr>) = op_compute op_ns prof"
    by (intro ext) (simp add: op_compute_def operation_compute_ns_def)
  moreover have "layer_output_bytes (prof\<lparr>npu_fast_macro := False\<rparr>) = layer_output_bytes prof"
    by (intro ext) (simp add: layer_output_bytes_def)
  ultimately have "fast_layer_actions op_ns (prof\<lparr>npu_fast_macro := False\<rparr>) lp = fast_layer_actions op_ns prof lp"
    by (intro ext) (simp only: fast_layer_actions_def)
  then show ?thesis
    using assms(1) a(2) c b0(2) b by (simp add: replay_trace_def Let_def unsigned_of_nat [symmetric])
qed

definition sample_profile :: SyntheticNPUInfo where
  "sample_profile = \<lparr>compute_ns_per_layer = 100, output_write_bytes_per_layer = 32, max_inflight_requests = 2, npu_fast_layer_mode = True,
     npu_fast_macro = True, analytical_compute_enabled = False\<rparr>"

definition sample_layers :: ModelLayerProfile where
  "sample_layers = \<lparr>lp_name = ''tiny'', layer_count = 3, output_write_bytes = 0, kv_cache_bytes_per_token = 16, attention_context_tile_tokens = 0,
     operations = [\<lparr>op_name = ''v_proj'', weight_read_bytes = 64, compute_share = 1, macs_per_token = 0, macs_per_kv_token = 0\<rparr>,
                   \<lparr>op_name = ''qkt'', weight_read_bytes = 0, compute_share = 2, macs_per_token = 0, macs_per_kv_token = 0\<rparr>]\<rparr>"

definition sample_npu :: NPUTraceReplayer where
  "sample_npu = \<lparr>np_mm = mm_new, np_objects = (\<lambda>_. \<lparr>gp_ptr = 0, gp_command = TLM_IGNORE, gp_address = 0, gp_length = 0, src_id = NPU, dst_id = NPU,
       bst_id = 0, bst_size = 0, gp_head = False, gp_last = False, gp_layer = [], pim_cmd = []\<rparr>),
     dram_req_bytes = 64, run_id = 0, next_address = 0x1000, pending_responses = 0, active_context_tokens = 5, active_query_tokens = 2,
     active_kv_write_tokens = 1, active_episode_id = [], response_event = False\<rparr>"

theorem granularity_keeps_work_witness:
  "\<exists>as s' bs. replay_trace (\<lambda>_ _ _. 0) sample_profile sample_layers sample_npu = Inr (as, s')
    \<and> replay_trace (\<lambda>_ _ _. 0) (sample_profile\<lparr>npu_fast_macro := False\<rparr>) sample_layers sample_npu = Inr (bs, s')
    \<and> compute_work bs = compute_work as \<and> compute_work as = 300 \<and> transfer_work TLM_READ as = 432"
proof -
  have p: "npu_fast_layer_mode sample_profile" "npu_fast_macro sample_profile" by (simp_all add: sample_profile_def)
  have f: "case replay_trace (\<lambda>_ _ _. 0) sample_profile sample_layers sample_npu of
      Inr (as, s') \<Rightarrow> compute_work as = 300 \<and> transfer_work TLM_READ as = 432 | _ \<Rightarrow> False"
    by code_simp
  then obtain as s' where r: "replay_trace (\<lambda>_ _ _. 0) sample_profile sample_layers sample_npu = Inr (as, s')"
    "compute_work as = 300" "transfer_work TLM_READ as = 432" by (auto split: sum.splits)
  from granularity_keeps_work [OF p r(1)] r show ?thesis by blast
qed

text \<open>
  Claim C27. A transfer by lines is exact: however the responses and the wake-ups of the thread interleave, the
  requests sent so far are the first lines of the transfer in order (their address, length, index and the number of
  lines in the burst), the requests in flight are the ones sent and not yet answered, and never more than the
  configured window (or one); when the transfer has ended all its lines were sent and
  answered, and their lengths add up to the number of bytes asked for.
\<close>

theorem transfer_exact:
  assumes "unat bytes + unat (req_bytes s) \<le> 2 ^ 32" "bytes \<noteq> 0"
    "issue_memory dram_on w cmd bytes layer s = (ts0, pc0, s0)" "dma_steps dram_on w xs (pc0, s0) = Inr (ts1, pc, s')"
  defines "ts \<equiv> ts0 @ ts1" and "lines \<equiv> line_count (unat (req_bytes s)) (unat bytes)"
  shows "map line_sig ts = map (line_spec (next_address s) (req_bytes s) (unat bytes)) [0..<length ts]
    \<and> unat (pending_responses s') + responses xs = length ts \<and> unat (pending_responses s') \<le> max 1 (unat w) \<and> length ts \<le> lines
    \<and> (pc = Dma_done \<longrightarrow> length ts = lines \<and> responses xs = lines \<and> sum_list (map (unat \<circ> gp_length) ts) = unat bytes)"
proof -
  let ?r = "req_bytes s" and ?b = "next_address s"
  note r = req_bytes_pos [of s]
  note i = issue_memory_ok [OF assms(3,1,2)]
  note j = dma_steps_ok [OF conjunct2 [OF i] r assms(4)]
  have "[0..<length ts] = [0..<length ts0] @ [length ts0..<length ts0 + length ts1]"
    using upt_add_eq_append [of 0 "length ts0" "length ts1"] by (simp add: ts_def)
  then have sig: "map line_sig ts = map (line_spec ?b ?r (unat bytes)) [0..<length ts]" using i j by (simp add: ts_def)
  have inv: "dma_inv ?b ?r (unat bytes) w (length ts) (responses xs) pc s'" using j by (simp add: ts_def)
  then have c: "unat (pending_responses s') + responses xs = length ts" "unat (pending_responses s') \<le> max 1 (unat w)" "length ts \<le> lines"
    by (simp_all add: dma_inv_def window_size_def lines_def)
  have "length ts = lines \<and> responses xs = lines \<and> sum_list (map (unat \<circ> gp_length) ts) = unat bytes" if "pc = Dma_done"
  proof -
    have n: "length ts = lines" "responses xs = lines" using inv that by (simp_all add: dma_inv_def lines_def)
    have "map (unat \<circ> gp_length) ts = map (unat \<circ> fst \<circ> snd) (map line_sig ts)" by (simp add: line_sig_def)
    then have "map (unat \<circ> gp_length) ts = map (\<lambda>k. min (unat ?r) (unat bytes - k * unat ?r)) [0..<lines]"
      unfolding sig n(1) by (simp add: line_length)
    then have "sum_list (map (unat \<circ> gp_length) ts) = min (lines * unat ?r) (unat bytes)"
      using lines_cover [of "unat ?r" "unat bytes" lines] by (simp add: interv_sum_list_conv_sum_set_nat atLeast0LessThan)
    moreover have "unat bytes \<le> lines * unat ?r" using line_count_le [OF r, of lines "unat bytes"] by (simp add: lines_def)
    ultimately show ?thesis using n by simp
  qed
  with sig c show ?thesis by blast
qed

theorem transfer_exact_witness:
  "\<exists>ts0 pc0 s0 ts1 s'. issue_memory True 2 TLM_READ 130 ''l'' sample_npu = (ts0, pc0, s0)
    \<and> dma_steps True 2 [Dma_response (hd ts0), Dma_wake, Dma_response (hd ts0), Dma_response (hd ts0), Dma_wake] (pc0, s0) = Inr (ts1, Dma_done, s')
    \<and> map line_sig (ts0 @ ts1) = [(0x1000, 64, 0, 3), (0x1040, 64, 1, 3), (0x1080, 2, 2, 3)]"
proof -
  obtain ts0 pc0 s0 where i: "issue_memory True 2 TLM_READ 130 ''l'' sample_npu = (ts0, pc0, s0)" by (metis prod_cases3)
  let ?xs = "[Dma_response (hd ts0), Dma_wake, Dma_response (hd ts0), Dma_response (hd ts0), Dma_wake]"
  have "case issue_memory True 2 TLM_READ 130 ''l'' sample_npu of (ts0, pc0, s0) \<Rightarrow>
      (case dma_steps True 2 [Dma_response (hd ts0), Dma_wake, Dma_response (hd ts0), Dma_response (hd ts0), Dma_wake] (pc0, s0) of
         Inr (_, Dma_done, _) \<Rightarrow> True | _ \<Rightarrow> False)" by code_simp
  then obtain ts1 s' where d: "dma_steps True 2 ?xs (pc0, s0) = Inr (ts1, Dma_done, s')"
    by (auto simp: i split: sum.splits prod.splits dma_pc.splits)
  have r: "unat (130 :: u32) + unat (req_bytes sample_npu) \<le> 2 ^ 32" "(130 :: u32) \<noteq> 0"
    by (simp_all add: req_bytes_def sample_npu_def max_def)
  have "length (ts0 @ ts1) = line_count (unat (req_bytes sample_npu)) (unat (130 :: u32))"
    using transfer_exact [OF r i d] by simp
  moreover have "\<dots> = 3" by code_simp
  ultimately have "map line_sig (ts0 @ ts1) = map (line_spec (next_address sample_npu) (req_bytes sample_npu) (unat (130 :: u32))) [0..<3]"
    using transfer_exact [OF r i d] by simp
  also have "\<dots> = [(0x1000, 64, 0, 3), (0x1040, 64, 1, 3), (0x1080, 2, 2, 3)]" by code_simp
  finally show ?thesis using i d by (intro exI conjI)
qed

text \<open>
  The number of requests is computed in 32 bits, \<^verbatim>\<open>(bytes + request_bytes - 1) / request_bytes\<close>: for the last lines below
  \<open>2\<^sup>3\<^sup>2\<close> the sum wraps, the count is zero and nothing is transferred.  And a transfer of the detailed mode is
  truncated to 32 bits before it is issued: of \<open>2\<^sup>3\<^sup>2\<close> bytes nothing is read.
\<close>

lemma last_line_transfers_nothing:
  assumes "2 ^ 32 \<le> unat bytes + unat (req_bytes s) - 1"
  shows "issue_memory dram_on w cmd bytes layer s = ([], Dma_done, s)"
proof -
  let ?r = "req_bytes s"
  note r = req_bytes_pos [of s]
  let ?n = "unat bytes + unat ?r - 1"
  have n: "?n < 2 ^ 32 + unat ?r" using u32_less [of bytes] by simp
  have "bytes + ?r - 1 = of_nat ?n" using r by (simp add: of_nat_diff)
  also have "\<dots> = of_nat (?n - 2 ^ 32)"
  proof -
    have "(of_nat ?n :: u32) = of_nat (?n - 2 ^ 32) + of_nat (2 ^ 32)" using assms by (simp only: of_nat_add [symmetric] le_add_diff_inverse2)
    moreover have "(of_nat (2 ^ 32) :: u32) = 0" by simp
    ultimately show ?thesis by simp
  qed
  finally have e: "bytes + ?r - 1 = of_nat (?n - 2 ^ 32)" .
  have "?n - 2 ^ 32 < 2 ^ 32" using n assms u32_less [of ?r] by simp
  then have "unat (bytes + ?r - 1) = ?n - 2 ^ 32" unfolding e by (rule unat_of_nat_u32)
  then have "unat ((bytes + ?r - 1) div ?r) = 0" using n assms by (simp add: unat_div)
  then show ?thesis by (simp add: issue_memory_def Let_def unat_eq_0)
qed

lemma long_weights_not_read:
  assumes "weight_read_bytes x = 2 ^ 32"
  shows "action_bytes TLM_READ (hd (op_actions lp s layer x c)) = 0"
  using assms by (simp add: op_actions_def Let_def)

text \<open>
  Claim C33. A tensor-sized request carries its number of bytes intact: what the wrappers decode from the pair of
  32-bit attributes is the 64-bit number of bytes of the transfer, and the request is recognised as such.
\<close>

theorem tensor_request_roundtrip:
  "map macro_bytes (fst (issue_fast_memory dram_on cmd bytes layer s)) = (if bytes = 0 then [] else [bytes])
   \<and> list_all is_macro_request (fst (issue_fast_memory dram_on cmd bytes layer s))"
proof -
  have m: "(0xffffffff :: u64) = mask 32" by (simp add: mask_eq_exp_minus_1)
  have "push_bit 32 (ucast (ucast (drop_bit 32 bytes) :: u32)) OR ucast (ucast (bytes AND 0xffffffff) :: u32) = bytes"
    unfolding m by (rule bit_word_eqI) (auto simp: bit_simps)
  then show ?thesis by (simp add: issue_fast_memory_def Let_def macro_bytes_def is_macro_request_def split: prod.split)
qed

end
