(* ===== verification/Control_Trace.thy ===== *)
theory Control_Trace
  imports Npu_Replayer
begin

text \<open>
  The inputs of a speculative run: the control trace (\<^verbatim>\<open>hsim/components/trace_generator.cpp\<close>) and the model profiles
  (\<^verbatim>\<open>load_model_layer_profile\<close> of \<^verbatim>\<open>hsim/utilities/configurations.cpp\<close>).  The JSON library is a parameter, the record of
  the operations used of it; \<open>json_laws\<close> states what its documentation promises of \<^verbatim>\<open>get\<close>.
\<close>

section \<open>The JSON library\<close>

record 'j Json =
  js_parse :: "string \<Rightarrow> 'j option"
  js_isMember :: "'j \<Rightarrow> string \<Rightarrow> bool res"
  js_at :: "'j \<Rightarrow> string \<Rightarrow> 'j res"
  js_get :: "'j \<Rightarrow> string \<Rightarrow> 'j \<Rightarrow> 'j res"
  js_asUInt :: "'j \<Rightarrow> u32 res"
  js_asUInt64 :: "'j \<Rightarrow> u64 res"
  js_asInt64 :: "'j \<Rightarrow> int res"
  js_asString :: "'j \<Rightarrow> string res"
  js_asBool :: "'j \<Rightarrow> bool res"
  js_isNull :: "'j \<Rightarrow> bool"
  js_isArray :: "'j \<Rightarrow> bool"
  js_elems :: "'j \<Rightarrow> 'j list"
  js_uint :: "u32 \<Rightarrow> 'j"
  js_int :: "int \<Rightarrow> 'j"
  js_bool :: "bool \<Rightarrow> 'j"
  js_string :: "string \<Rightarrow> 'j"

definition json_laws :: "'j Json \<Rightarrow> bool" where
  "json_laws J = ((\<forall>v k d. js_isMember J v k = Inr True \<longrightarrow> js_get J v k d = js_at J v k)
     \<and> (\<forall>v k d. js_isMember J v k = Inr False \<longrightarrow> js_get J v k d = Inr d))"

abbreviation uint_at :: "'j Json \<Rightarrow> 'j \<Rightarrow> string \<Rightarrow> u32 res" where
  "uint_at J v k \<equiv> bindE (js_at J v k) (js_asUInt J)"

abbreviation uint_get :: "'j Json \<Rightarrow> 'j \<Rightarrow> string \<Rightarrow> 'j \<Rightarrow> u32 res" where
  "uint_get J v k d \<equiv> bindE (js_get J v k d) (js_asUInt J)"

lemma map_res_Inr:
  "map_res f xs = Inr ys \<longleftrightarrow> list_all2 (\<lambda>x y. f x = Inr y) xs ys"
  by (induction xs arbitrary: ys) (auto simp: res_simps list_all2_Cons1)

lemma map_res_mem: "map_res f xs = Inr ys \<Longrightarrow> y \<in> set ys \<Longrightarrow> \<exists>x \<in> set xs. f x = Inr y"
  by (auto simp: map_res_Inr list_all2_conv_all_nth in_set_conv_nth) (metis nth_mem)

section \<open>Records\<close>

record SpeculativeControl =
  sample_index :: u32
  iteration :: u32
  prefix_len_before :: u32
  prefix_len_after :: u32
  gamma :: u32
  target_query_tokens :: u32
  target_kv_cache_tokens :: u32
  target_kv_write_tokens :: u32
  draft_query_tokens_per_proposal :: u32
  draft_proposal_count :: u32
  draft_kv_cache_tokens :: u32
  draft_kv_write_tokens :: u32
  target_input_tokens :: u32
  draft_input_tokens :: u32
  target_kv_cache_tokens_after_forward :: u32
  draft_kv_cache_tokens_after_forward :: u32
  target_kv_cache_tokens_after_decision :: u32
  draft_kv_cache_tokens_after_decision :: u32
  target_generated_tokens :: u32
  draft_generated_tokens :: u32
  draft_forward_steps :: u32
  trace_version :: u32
  prefill_excluded :: bool
  mode_before :: string
  mode_after :: string
  decision :: string
  accepted_tokens :: u32
  rollback_to :: int
  algorithm :: string
  target_depends_on_draft_iteration :: int
  draft_precompute_for_iteration :: int
  draft_overlaps_target :: bool
  draft_tree_steps :: u32
  draft_tree_query_tokens :: u32
  draft_fan_out_list :: "u32 list"

record SpeculativeInfo =
  si_scenario_id :: u32
  si_sample_index :: int
  skip_warmup_iterations :: u32
  max_control_iterations :: u32
  exclude_prefill :: bool
  draft_profile_layer :: string

section \<open>Validation of a record\<close>

definition required_fields :: "string list" where
  "required_fields =
     [''target_input_tokens'', ''target_kv_cache_tokens'', ''target_uncached_query_tokens'', ''target_kv_write_tokens'',
      ''draft_input_tokens'', ''draft_kv_cache_tokens'', ''draft_uncached_query_tokens'', ''draft_forward_steps'',
      ''draft_decoder_tokens'', ''draft_kv_write_tokens'', ''target_kv_cache_tokens_after_forward'',
      ''draft_kv_cache_tokens_after_forward'', ''target_kv_cache_tokens_after_decision'', ''draft_kv_cache_tokens_after_decision'']"

fun check_fields :: "'j Json \<Rightarrow> u32 \<Rightarrow> 'j \<Rightarrow> string list \<Rightarrow> unit res" where
  "check_fields J line_no root [] = Inr ()"
| "check_fields J line_no root (f # fs) =
     bindE (js_isMember J root f) (\<lambda>b.
     if \<not> b then Inl (Thrown (''PEARL v2 control trace line '' @ to_string (unat line_no) @ '' is missing '' @ f))
     else check_fields J line_no root fs)"

definition check_v2 :: "'j Json \<Rightarrow> u32 \<Rightarrow> 'j \<Rightarrow> unit res" where
  "check_v2 J line_no root =
     bindE (check_fields J line_no root required_fields) (\<lambda>_.
     bindE (uint_at J root ''target_input_tokens'') (\<lambda>target_input.
     bindE (uint_at J root ''target_kv_cache_tokens'') (\<lambda>target_cache.
     bindE (uint_at J root ''target_uncached_query_tokens'') (\<lambda>target_uncached.
     bindE (uint_at J root ''draft_input_tokens'') (\<lambda>draft_input.
     bindE (uint_at J root ''draft_kv_cache_tokens'') (\<lambda>draft_cache.
     bindE (uint_at J root ''draft_uncached_query_tokens'') (\<lambda>draft_uncached.
     bindE (uint_at J root ''draft_forward_steps'') (\<lambda>draft_steps.
     bindE (uint_at J root ''draft_decoder_tokens'') (\<lambda>draft_decoder.
     if target_cache > target_input \<or> draft_cache > draft_input \<or> target_uncached \<noteq> target_input - target_cache
        \<or> draft_uncached \<noteq> draft_input - draft_cache \<or> target_uncached = 0 \<or> draft_steps = 0
        \<or> draft_decoder \<noteq> draft_uncached + draft_steps - 1
     then Inl (Thrown (''Invalid PEARL v2 cache/work shape in control trace line '' @ to_string (unat line_no)))
     else Inr ())))))))))"

definition read_fan_out :: "'j Json \<Rightarrow> u32 \<Rightarrow> 'j \<Rightarrow> u32 list res" where
  "read_fan_out J line_no root =
     bindE (js_isMember J root ''draft_fan_out_list'') (\<lambda>b.
     if \<not> b then Inr []
     else
       bindE (js_at J root ''draft_fan_out_list'') (\<lambda>fan_out.
       if \<not> js_isArray J fan_out
       then Inl (Thrown (''SSD draft_fan_out_list must be an array in control trace line '' @ to_string (unat line_no)))
       else
         map_res (\<lambda>v. bindE (js_asUInt J v) (\<lambda>branch_count.
           if branch_count = 0
           then Inl (Thrown (''SSD draft_fan_out_list contains a zero branch count in control trace line '' @ to_string (unat line_no)))
           else Inr branch_count)) (js_elems J fan_out)))"

definition fan_out_total :: "u32 list \<Rightarrow> u64" where
  "fan_out_total ns = sum_list (map ucast ns)"

definition check_ssd :: "u32 \<Rightarrow> SpeculativeControl \<Rightarrow> unit res" where
  "check_ssd line_no c =
     (if draft_tree_steps c = 0 \<or> draft_tree_query_tokens c = 0 \<or> draft_fan_out_list c = []
      then Inl (Thrown (''SSD control trace must provide non-zero draft_tree_steps, '' @
             ''draft_tree_query_tokens, and draft_fan_out_list in line '' @ to_string (unat line_no)))
      else if fan_out_total (draft_fan_out_list c) \<noteq> ucast (draft_tree_query_tokens c) \<or> draft_proposal_count c \<noteq> draft_tree_query_tokens c
      then Inl (Thrown (''SSD tree shape does not match draft proposal count in control trace line '' @ to_string (unat line_no)))
      else Inr ())"

section \<open>A line of the trace\<close>

text \<open>
  The record is filled in by groups of fields, in the order in which the source reads them; the defaults of \<^verbatim>\<open>root.get\<close> are
  evaluated first.
\<close>

definition control_default :: SpeculativeControl where
  "control_default = \<lparr>sample_index = 0, iteration = 0, prefix_len_before = 0, prefix_len_after = 0, gamma = 0,
     target_query_tokens = 0, target_kv_cache_tokens = 0, target_kv_write_tokens = 0,
     draft_query_tokens_per_proposal = 0, draft_proposal_count = 0, draft_kv_cache_tokens = 0,
     draft_kv_write_tokens = 0, target_input_tokens = 0, draft_input_tokens = 0,
     target_kv_cache_tokens_after_forward = 0, draft_kv_cache_tokens_after_forward = 0,
     target_kv_cache_tokens_after_decision = 0, draft_kv_cache_tokens_after_decision = 0,
     target_generated_tokens = 0, draft_generated_tokens = 0, draft_forward_steps = 0,
     trace_version = 0, prefill_excluded = False, mode_before = [], mode_after = [], decision = [],
     accepted_tokens = 0, rollback_to = 0, algorithm = [], target_depends_on_draft_iteration = 0,
     draft_precompute_for_iteration = 0, draft_overlaps_target = False, draft_tree_steps = 0,
     draft_tree_query_tokens = 0, draft_fan_out_list = []\<rparr>"

definition read_header :: "'j Json \<Rightarrow> 'j \<Rightarrow> SpeculativeControl res" where
  "read_header J root =
     bindE (uint_at J root ''iteration'') (\<lambda>it.
     bindE (bindE (js_get J root ''algorithm'' (js_string J ''pearl'')) (js_asString J)) (\<lambda>alg.
     bindE (uint_at J root ''prefix_len_before'') (\<lambda>before.
     bindE (uint_at J root ''prefix_len_after'') (\<lambda>after.
     bindE (uint_get J root ''trace_version'' (js_uint J 1)) (\<lambda>version.
     bindE (bindE (js_get J root ''prefill_excluded'' (js_bool J False)) (js_asBool J)) (\<lambda>excluded.
     Inr (control_default\<lparr>iteration := it, algorithm := alg, prefix_len_before := before, prefix_len_after := after,
            trace_version := version, prefill_excluded := excluded\<rparr>)))))))"

definition read_draft_shape :: "'j Json \<Rightarrow> u32 \<Rightarrow> 'j \<Rightarrow> SpeculativeControl \<Rightarrow> SpeculativeControl res" where
  "read_draft_shape J line_no root c =
     (let ssd = (algorithm c = ''ssd'') in
      bindE (js_get J root ''draft_kv_cache_tokens'' (js_uint J (if ssd then prefix_len_after c else prefix_len_before c))) (\<lambda>kv_v.
      bindE (uint_get J root ''draft_precompute_kv_cache_tokens'' kv_v) (\<lambda>draft_kv.
      bindE (js_at J root ''gamma'') (\<lambda>gamma_v.
      bindE (js_get J root ''draft_proposal_count'' gamma_v) (\<lambda>count_v.
      bindE (uint_get J root ''draft_decoder_tokens'' count_v) (\<lambda>proposal_count.
      bindE (uint_get J root ''draft_tree_steps'' (if ssd then gamma_v else js_uint J 1)) (\<lambda>tree_steps.
      bindE (uint_get J root ''draft_tree_query_tokens'' (js_uint J proposal_count)) (\<lambda>tree_query.
      bindE (read_fan_out J line_no root) (\<lambda>fan_out.
      Inr (c\<lparr>draft_kv_cache_tokens := draft_kv, draft_proposal_count := proposal_count, draft_tree_steps := tree_steps,
             draft_tree_query_tokens := tree_query, draft_fan_out_list := fan_out\<rparr>))))))))))"

definition read_sample_id :: "'j Json \<Rightarrow> 'j \<Rightarrow> u64 option res" where
  "read_sample_id J root =
     bindE (js_isMember J root ''sample_index'') (\<lambda>explicit.
     if explicit then bindE (bindE (js_at J root ''sample_index'') (js_asUInt64 J)) (\<lambda>i. Inr (Some i)) else Inr None)"

definition read_work :: "'j Json \<Rightarrow> 'j \<Rightarrow> SpeculativeControl \<Rightarrow> SpeculativeControl res" where
  "read_work J root c =
     bindE (uint_at J root ''gamma'') (\<lambda>g.
     bindE (js_get J root ''target_query_tokens'' (js_uint J 1)) (\<lambda>query_v.
     bindE (js_get J root ''target_uncached_query_tokens'' query_v) (\<lambda>uncached_v.
     bindE (js_asUInt J uncached_v) (\<lambda>target_query.
     bindE (uint_get J root ''target_kv_cache_tokens'' (js_uint J (prefix_len_before c))) (\<lambda>target_kv.
     bindE (uint_get J root ''target_kv_write_tokens'' uncached_v) (\<lambda>target_write.
     bindE (uint_get J root ''draft_query_tokens_per_proposal'' (js_uint J 1)) (\<lambda>per_proposal.
     Inr (c\<lparr>gamma := g, target_query_tokens := target_query, target_kv_cache_tokens := target_kv,
            target_kv_write_tokens := target_write, draft_query_tokens_per_proposal := per_proposal\<rparr>))))))))"

definition read_tokens :: "'j Json \<Rightarrow> 'j \<Rightarrow> SpeculativeControl \<Rightarrow> SpeculativeControl res" where
  "read_tokens J root c =
     bindE (js_at J root ''gamma'') (\<lambda>gamma_v.
     bindE (js_get J root ''draft_proposal_count'' gamma_v) (\<lambda>count_v.
     bindE (js_get J root ''draft_decoder_tokens'' count_v) (\<lambda>decoder_v.
     bindE (uint_get J root ''draft_kv_write_tokens'' decoder_v) (\<lambda>draft_write.
     bindE (uint_get J root ''target_input_tokens'' (js_uint J (prefix_len_before c))) (\<lambda>target_input.
     bindE (uint_get J root ''draft_input_tokens'' (js_uint J (prefix_len_before c))) (\<lambda>draft_input.
     Inr (c\<lparr>draft_kv_write_tokens := draft_write, target_input_tokens := target_input, draft_input_tokens := draft_input\<rparr>)))))))"

definition read_caches :: "'j Json \<Rightarrow> 'j \<Rightarrow> SpeculativeControl \<Rightarrow> SpeculativeControl res" where
  "read_caches J root c =
     bindE (uint_get J root ''target_kv_cache_tokens_after_forward'' (js_uint J 0)) (\<lambda>target_forward.
     bindE (uint_get J root ''draft_kv_cache_tokens_after_forward'' (js_uint J 0)) (\<lambda>draft_forward.
     bindE (uint_get J root ''target_kv_cache_tokens_after_decision'' (js_uint J 0)) (\<lambda>target_decision.
     bindE (uint_get J root ''draft_kv_cache_tokens_after_decision'' (js_uint J 0)) (\<lambda>draft_decision.
     bindE (uint_get J root ''target_generated_tokens'' (js_uint J 1)) (\<lambda>target_generated.
     bindE (js_at J root ''gamma'') (\<lambda>gamma_v.
     bindE (uint_get J root ''draft_generated_tokens'' gamma_v) (\<lambda>draft_generated.
     bindE (uint_get J root ''draft_forward_steps'' gamma_v) (\<lambda>steps.
     Inr (c\<lparr>target_kv_cache_tokens_after_forward := target_forward, draft_kv_cache_tokens_after_forward := draft_forward,
            target_kv_cache_tokens_after_decision := target_decision, draft_kv_cache_tokens_after_decision := draft_decision,
            target_generated_tokens := target_generated, draft_generated_tokens := draft_generated, draft_forward_steps := steps\<rparr>)))))))))"

definition read_outcome :: "'j Json \<Rightarrow> 'j \<Rightarrow> SpeculativeControl \<Rightarrow> SpeculativeControl res" where
  "read_outcome J root c =
     bindE (bindE (js_at J root ''mode_before'') (js_asString J)) (\<lambda>m_before.
     bindE (bindE (js_at J root ''mode_after'') (js_asString J)) (\<lambda>m_after.
     bindE (bindE (js_at J root ''decision'') (js_asString J)) (\<lambda>dec.
     bindE (uint_at J root ''accepted_tokens'') (\<lambda>accepted.
     bindE (bindE (js_at J root ''rollback_to'') (\<lambda>v. if js_isNull J v then Inr (-1) else js_asInt64 J v)) (\<lambda>rollback.
     Inr (c\<lparr>mode_before := m_before, mode_after := m_after, decision := dec, accepted_tokens := accepted, rollback_to := rollback\<rparr>))))))"

definition read_schedule :: "'j Json \<Rightarrow> 'j \<Rightarrow> SpeculativeControl \<Rightarrow> SpeculativeControl res" where
  "read_schedule J root c =
     bindE (bindE (js_get J root ''target_depends_on_draft_iteration'' (js_int J (int (unat (iteration c)) - 1))) (js_asInt64 J)) (\<lambda>depends.
     bindE (bindE (js_get J root ''draft_precompute_for_iteration'' (js_int J (int (unat (iteration c)) + 1))) (js_asInt64 J)) (\<lambda>precompute.
     bindE (bindE (js_get J root ''draft_overlaps_target'' (js_bool J (algorithm c = ''ssd''))) (js_asBool J)) (\<lambda>overlaps.
     Inr (c\<lparr>target_depends_on_draft_iteration := depends, draft_precompute_for_iteration := precompute, draft_overlaps_target := overlaps\<rparr>))))"

text \<open>\<open>None\<close> for a record of another event; otherwise the explicit sample id, if there is one, and the control record.\<close>

definition other_event :: "'j Json \<Rightarrow> 'j \<Rightarrow> bool res" where
  "other_event J root =
     bindE (js_isMember J root ''event'') (\<lambda>has_event.
     if has_event then bindE (bindE (js_at J root ''event'') (js_asString J)) (\<lambda>e. Inr (e \<noteq> ''control'')) else Inr False)"

definition parse_record :: "'j Json \<Rightarrow> u32 \<Rightarrow> 'j \<Rightarrow> (u64 option \<times> SpeculativeControl) option res" where
  "parse_record J line_no root =
     bindE (other_event J root) (\<lambda>other.
     if other then Inr None
     else
       bindE (read_header J root) (\<lambda>c0.
       bindE (if trace_version c0 \<ge> 2 then check_v2 J line_no root else Inr ()) (\<lambda>_.
       bindE (read_draft_shape J line_no root c0) (\<lambda>c1.
       bindE (if algorithm c1 = ''ssd'' then check_ssd line_no c1 else Inr ()) (\<lambda>_.
       bindE (read_sample_id J root) (\<lambda>sample_id.
       bindE (read_work J root c1) (\<lambda>c2.
       bindE (read_tokens J root c2) (\<lambda>c3.
       bindE (read_caches J root c3) (\<lambda>c4.
       bindE (read_outcome J root c4) (\<lambda>c5.
       bindE (read_schedule J root c5) (\<lambda>c6. Inr (Some (sample_id, c6)))))))))))))"

section \<open>Samples\<close>

record Grouping =
  gr_samples :: "SpeculativeControl list list"
  gr_current :: "SpeculativeControl list"
  gr_explicit :: bool
  gr_id :: u64

definition no_samples :: Grouping where
  "no_samples = \<lparr>gr_samples = [], gr_current = [], gr_explicit = False, gr_id = 0\<rparr>"

definition starts_new_sample :: "u64 option \<Rightarrow> SpeculativeControl \<Rightarrow> Grouping \<Rightarrow> bool" where
  "starts_new_sample sid c g =
     (gr_current g \<noteq> []
      \<and> (case sid of Some i \<Rightarrow> \<not> gr_explicit g \<or> i \<noteq> gr_id g | None \<Rightarrow> iteration c = 0))"

definition group_record :: "u64 option \<times> SpeculativeControl \<Rightarrow> Grouping \<Rightarrow> Grouping" where
  "group_record e g =
     (case e of (sid, c) \<Rightarrow>
      let g1 = (if starts_new_sample sid c g then g\<lparr>gr_samples := gr_samples g @ [gr_current g], gr_current := []\<rparr> else g);
          g2 = (if gr_current g1 = []
                then g1\<lparr>gr_explicit := (sid \<noteq> None), gr_id := (case sid of Some i \<Rightarrow> i | None \<Rightarrow> 0)\<rparr> else g1) in
      g2\<lparr>gr_current := gr_current g2 @ [c]\<rparr>)"

fun read_lines :: "'j Json \<Rightarrow> u32 \<Rightarrow> string list \<Rightarrow> Grouping \<Rightarrow> Grouping res" where
  "read_lines J line_no [] g = Inr g"
| "read_lines J line_no (l # ls) g =
     (let n = line_no + 1 in
      if l = [] then read_lines J n ls g
      else
        case js_parse J l of
          None \<Rightarrow> Inl (Thrown (''Invalid JSON in speculative control trace line '' @ to_string (unat n)))
        | Some root \<Rightarrow>
            bindE (parse_record J n root) (\<lambda>e.
            read_lines J n ls (case e of None \<Rightarrow> g | Some r \<Rightarrow> group_record r g)))"

definition close_samples :: "Grouping \<Rightarrow> SpeculativeControl list list" where
  "close_samples g = (if gr_current g \<noteq> [] then gr_samples g @ [gr_current g] else gr_samples g)"

definition normalise_first :: "SpeculativeControl \<Rightarrow> SpeculativeControl res" where
  "normalise_first c =
     (if trace_version c < 2
      then Inl (Thrown ''speculative.exclude_prefill requires a PEARL v2 trace with actor cache fields'')
      else if prefill_excluded c then Inr c
      else if prefix_len_before c = 0 \<or> target_kv_cache_tokens c \<noteq> 0 \<or> draft_kv_cache_tokens c \<noteq> 0
      then Inl (Thrown (''Cannot identify prompt prefill in the first PEARL v2 record; '' @
             ''set prefill_excluded=true in the trace if it was already removed''))
      else
        let warm = prefix_len_before c - 1 in
        Inr (c\<lparr>target_input_tokens := prefix_len_before c, target_kv_cache_tokens := warm, target_query_tokens := 1,
               target_kv_write_tokens := 1, target_kv_cache_tokens_after_forward := prefix_len_before c,
               draft_input_tokens := prefix_len_before c, draft_kv_cache_tokens := warm, draft_query_tokens_per_proposal := 1,
               draft_proposal_count := draft_forward_steps c, draft_kv_write_tokens := draft_forward_steps c,
               draft_kv_cache_tokens_after_forward := warm + draft_forward_steps c, prefill_excluded := True\<rparr>))"

fun exclude_first :: "SpeculativeControl list \<Rightarrow> SpeculativeControl list res" where
  "exclude_first [] = Inr []"
| "exclude_first (c # cs) = bindE (normalise_first c) (\<lambda>c'. Inr (c' # cs))"

definition continues :: "SpeculativeControl \<Rightarrow> SpeculativeControl \<Rightarrow> bool" where
  "continues p c =
     (\<not> (trace_version p \<ge> 2 \<and> trace_version c \<ge> 2
         \<and> (target_kv_cache_tokens_after_decision p \<noteq> target_kv_cache_tokens c
            \<or> draft_kv_cache_tokens_after_decision p \<noteq> draft_kv_cache_tokens c)))"

fun check_continuity :: "SpeculativeControl list \<Rightarrow> unit res" where
  "check_continuity (p # c # cs) =
     (if continues p c then check_continuity (c # cs)
      else Inl (Thrown (''PEARL v2 cache continuity error between iterations '' @ to_string (unat (iteration p)) @ '' and '' @
             to_string (unat (iteration c)))))"
| "check_continuity _ = Inr ()"

definition load_samples :: "'j Json \<Rightarrow> SpeculativeInfo \<Rightarrow> string list \<Rightarrow> SpeculativeControl list list res" where
  "load_samples J spec ls =
     bindE (read_lines J 0 ls no_samples) (\<lambda>g.
     let samples = close_samples g in
     bindE (if exclude_prefill spec then map_res exclude_first samples else Inr samples) (\<lambda>samples'.
     bindE (map_res check_continuity samples') (\<lambda>_. Inr samples')))"

section \<open>Selection\<close>

definition limit_reached :: "SpeculativeInfo \<Rightarrow> SpeculativeControl list \<Rightarrow> bool" where
  "limit_reached spec acc = (max_control_iterations spec \<noteq> 0 \<and> length acc \<ge> unat (max_control_iterations spec))"

fun select_loop :: "SpeculativeInfo \<Rightarrow> u32 \<Rightarrow> SpeculativeControl list \<Rightarrow> SpeculativeControl list \<Rightarrow> SpeculativeControl list" where
  "select_loop spec i [] acc = acc"
| "select_loop spec i (c # cs) acc =
     (if iteration c < skip_warmup_iterations spec then select_loop spec i cs acc
      else if limit_reached spec acc then acc
      else select_loop spec i cs (acc @ [c\<lparr>sample_index := i\<rparr>]))"

fun select_samples :: "SpeculativeInfo \<Rightarrow> SpeculativeControl list list \<Rightarrow> nat list \<Rightarrow> SpeculativeControl list \<Rightarrow> SpeculativeControl list res" where
  "select_samples spec samples [] acc = Inr acc"
| "select_samples spec samples (i # is) acc =
     bindE (nth_res samples (int i)) (\<lambda>cs.
     let acc' = select_loop spec (of_nat i) cs acc in
     if limit_reached spec acc' then Inr acc' else select_samples spec samples is acc')"

definition sample_range :: "SpeculativeInfo \<Rightarrow> nat \<Rightarrow> nat list" where
  "sample_range spec n =
     (let first = (if si_sample_index spec < 0 then 0 else nat (si_sample_index spec));
          last = (if si_sample_index spec < 0 then unat (of_nat n :: u32) else first + 1) in
      [first..<last])"

definition load_speculative_control_trace ::
    "'j Json \<Rightarrow> SpeculativeInfo \<Rightarrow> string \<Rightarrow> string list option \<Rightarrow> SpeculativeControl list res" where
  "load_speculative_control_trace J spec file ls =
     (case ls of
        None \<Rightarrow> Inl (Thrown (''Cannot open speculative control trace: '' @ file))
      | Some lines \<Rightarrow>
          bindE (load_samples J spec lines) (\<lambda>samples.
          if si_sample_index spec \<ge> 0 \<and> nat (si_sample_index spec) \<ge> length samples
          then Inl (Thrown (''Requested speculative sample_index='' @ to_string (nat (si_sample_index spec)) @
                 '' but control trace contains '' @ to_string (length samples) @ '' sample(s)''))
          else
            bindE (select_samples spec samples (sample_range spec (length samples)) []) (\<lambda>cs.
            if cs = [] then Inl (Thrown ''No speculative control records remain after warm-up filtering.'') else Inr cs)))"

section \<open>Model profiles\<close>

definition read_operation :: "'j Json \<Rightarrow> string \<Rightarrow> 'j \<Rightarrow> ModelOperationInfo res" where
  "read_operation J file_name v =
     bindE (bindE (js_at J v ''name'') (js_asString J)) (\<lambda>n.
     bindE (bindE (js_get J v ''weight_read_bytes'' (js_uint J 0)) (js_asUInt64 J)) (\<lambda>weights.
     bindE (uint_get J v ''compute_share'' (js_uint J 1)) (\<lambda>share.
     bindE (bindE (js_get J v ''macs_per_token'' (js_uint J 0)) (js_asUInt64 J)) (\<lambda>macs.
     bindE (bindE (js_get J v ''macs_per_kv_token'' (js_uint J 0)) (js_asUInt64 J)) (\<lambda>kv_macs.
     if n = [] \<or> share = 0 then Inl (Thrown (''Invalid operation in model profile: '' @ file_name))
     else Inr \<lparr>op_name = n, weight_read_bytes = weights, compute_share = share, macs_per_token = macs, macs_per_kv_token = kv_macs\<rparr>)))))"

text \<open>\<open>root\<close> is the value that \<^verbatim>\<open>parse_json(file_name)\<close> read.\<close>

definition load_model_layer_profile :: "'j Json \<Rightarrow> string \<Rightarrow> 'j \<Rightarrow> ModelLayerProfile res" where
  "load_model_layer_profile J file_name root =
     bindE (bindE (js_get J root ''name'' (js_string J file_name)) (js_asString J)) (\<lambda>n.
     bindE (uint_at J root ''decoder_layers'') (\<lambda>layers.
     bindE (bindE (js_get J root ''output_write_bytes'' (js_uint J 0)) (js_asUInt64 J)) (\<lambda>out.
     bindE (bindE (js_get J root ''kv_cache_bytes_per_token'' (js_uint J 0)) (js_asUInt64 J)) (\<lambda>kv.
     bindE (uint_get J root ''attention_context_tile_tokens'' (js_uint J 128)) (\<lambda>tile.
     bindE (js_at J root ''operations'') (\<lambda>ops.
     if layers = 0 \<or> \<not> js_isArray J ops then Inl (Thrown (''Invalid model layer profile: '' @ file_name))
     else
       bindE (map_res (read_operation J file_name) (js_elems J ops)) (\<lambda>xs.
       if xs = [] then Inl (Thrown (''Model profile has no operations: '' @ file_name))
       else Inr \<lparr>lp_name = n, layer_count = layers, output_write_bytes = out, kv_cache_bytes_per_token = kv,
              attention_context_tile_tokens = tile, operations = xs\<rparr>)))))))"

section \<open>The samples of a trace\<close>

text \<open>
  The specification of the grouping: a sample is a record with the following ones up to the next that carries another
  explicit id or, without an id, restarts the iterations at zero.
\<close>

fun control_records :: "'j Json \<Rightarrow> u32 \<Rightarrow> string list \<Rightarrow> (u64 option \<times> SpeculativeControl) list res" where
  "control_records J line_no [] = Inr []"
| "control_records J line_no (l # ls) =
     (let n = line_no + 1 in
      if l = [] then control_records J n ls
      else
        case js_parse J l of
          None \<Rightarrow> Inl (Thrown (''Invalid JSON in speculative control trace line '' @ to_string (unat n)))
        | Some root \<Rightarrow>
            bindE (parse_record J n root) (\<lambda>e.
            bindE (control_records J n ls) (\<lambda>rs. Inr (case e of None \<Rightarrow> rs | Some r \<Rightarrow> r # rs))))"

definition same_sample :: "u64 option \<times> SpeculativeControl \<Rightarrow> u64 option \<times> SpeculativeControl \<Rightarrow> bool" where
  "same_sample h e = (case fst e of Some i \<Rightarrow> fst h = Some i | None \<Rightarrow> iteration (snd e) \<noteq> 0)"

function sample_spec :: "(u64 option \<times> SpeculativeControl) list \<Rightarrow> (u64 option \<times> SpeculativeControl) list list" where
  "sample_spec [] = []"
| "sample_spec (h # es) = (h # takeWhile (same_sample h) es) # sample_spec (dropWhile (same_sample h) es)"
  by pat_completeness auto
termination by (relation "measure length") (auto simp: le_imp_less_Suc length_dropWhile_le)

lemma read_lines_fold:
  "read_lines J n ls g = bindE (control_records J n ls) (\<lambda>rs. Inr (fold group_record rs g))"
  by (induction J n ls g rule: read_lines.induct)
    (auto simp: Let_def bindE_assoc split: option.split intro!: bindE_cong)

lemma group_record_same:
  assumes "gr_current g \<noteq> []" "gr_explicit g = (fst h \<noteq> None)" "gr_id g = (case fst h of Some i \<Rightarrow> i | None \<Rightarrow> 0)"
  shows "group_record e g =
    (if same_sample h e then g\<lparr>gr_current := gr_current g @ [snd e]\<rparr>
     else \<lparr>gr_samples = gr_samples g @ [gr_current g], gr_current = [snd e], gr_explicit = (fst e \<noteq> None),
           gr_id = (case fst e of Some i \<Rightarrow> i | None \<Rightarrow> 0)\<rparr>)"
  using assms by (auto simp: group_record_def same_sample_def starts_new_sample_def Let_def split: option.splits prod.splits)

lemma group_records:
  assumes "gr_current g \<noteq> []" "gr_explicit g = (fst h \<noteq> None)" "gr_id g = (case fst h of Some i \<Rightarrow> i | None \<Rightarrow> 0)"
  shows "close_samples (fold group_record es g) =
    gr_samples g @ [gr_current g @ map snd (takeWhile (same_sample h) es)] @ map (map snd) (sample_spec (dropWhile (same_sample h) es))"
  using assms
proof (induction es arbitrary: g h)
  case Nil
  then show ?case by (simp add: close_samples_def)
next
  case (Cons e es)
  show ?case
  proof (cases "same_sample h e")
    case True
    then show ?thesis
      using Cons.IH [of "g\<lparr>gr_current := gr_current g @ [snd e]\<rparr>" h] group_record_same [OF Cons.prems, of e] Cons.prems by simp
  next
    case False
    then show ?thesis
      using Cons.IH [of "group_record e g" e] group_record_same [OF Cons.prems, of e] by simp
  qed
qed

lemma close_samples_spec: "close_samples (fold group_record rs no_samples) = map (map snd) (sample_spec rs)"
proof (cases rs)
  case (Cons h es)
  have "group_record h no_samples = \<lparr>gr_samples = [], gr_current = [snd h], gr_explicit = (fst h \<noteq> None),
      gr_id = (case fst h of Some i \<Rightarrow> i | None \<Rightarrow> 0)\<rparr>"
    by (auto simp: no_samples_def group_record_def starts_new_sample_def Let_def split: prod.splits)
  then show ?thesis using group_records [of "group_record h no_samples" h es] Cons by simp
qed (simp add: close_samples_def no_samples_def)

lemma sample_spec_parts: "concat (sample_spec rs) = rs" "[] \<notin> set (sample_spec rs)"
  by (induction rs rule: sample_spec.induct) auto

section \<open>Consistency of the records\<close>

definition control_ok :: "SpeculativeControl \<Rightarrow> bool" where
  "control_ok c =
     ((trace_version c \<ge> 2 \<longrightarrow>
         target_kv_cache_tokens c \<le> target_input_tokens c \<and> target_query_tokens c = target_input_tokens c - target_kv_cache_tokens c
         \<and> target_query_tokens c \<noteq> 0 \<and> draft_forward_steps c \<noteq> 0)
      \<and> (algorithm c = ''ssd'' \<longrightarrow>
           draft_tree_steps c \<noteq> 0 \<and> draft_fan_out_list c \<noteq> [] \<and> 0 \<notin> set (draft_fan_out_list c)
           \<and> fan_out_total (draft_fan_out_list c) = ucast (draft_tree_query_tokens c)))"

text \<open>
  The draft half of a version 2 record: the cache is part of the input, and the decoder processes the uncached tokens and one more for every
  step after the first.  The loader reads the cache from \<^verbatim>\<open>draft_precompute_kv_cache_tokens\<close> where a line has that field, after the check of
  \<^verbatim>\<open>draft_kv_cache_tokens\<close>, so this holds for lines without it.
\<close>

definition draft_ok :: "SpeculativeControl \<Rightarrow> bool" where
  "draft_ok c =
     (trace_version c \<ge> 2 \<longrightarrow>
        draft_kv_cache_tokens c \<le> draft_input_tokens c
        \<and> draft_proposal_count c = draft_input_tokens c - draft_kv_cache_tokens c + draft_forward_steps c - 1)"

definition no_precompute :: "'j Json \<Rightarrow> 'j \<Rightarrow> bool" where
  "no_precompute J root = (js_isMember J root ''draft_precompute_kv_cache_tokens'' = Inr False)"

definition plain_lines :: "'j Json \<Rightarrow> string list \<Rightarrow> bool" where
  "plain_lines J ls = list_all (\<lambda>l. case js_parse J l of None \<Rightarrow> True | Some root \<Rightarrow> no_precompute J root) ls"

definition record_ok :: "bool \<Rightarrow> SpeculativeControl \<Rightarrow> bool" where
  "record_ok b c = (control_ok c \<and> (b \<longrightarrow> draft_ok c))"

definition reads_uint :: "'j Json \<Rightarrow> 'j \<Rightarrow> string \<Rightarrow> u32 \<Rightarrow> bool" where
  "reads_uint J root k x = (\<exists>d v. js_get J root k d = Inr v \<and> js_asUInt J v = Inr x)"

lemma reads_uintI: "js_get J root k d = Inr v \<Longrightarrow> js_asUInt J v = Inr x \<Longrightarrow> reads_uint J root k x"
  by (auto simp: reads_uint_def)

definition control_fixed :: "SpeculativeControl \<Rightarrow> SpeculativeControl \<Rightarrow> bool" where
  "control_fixed c c' = (trace_version c' = trace_version c \<and> algorithm c' = algorithm c \<and> draft_tree_steps c' = draft_tree_steps c
     \<and> draft_tree_query_tokens c' = draft_tree_query_tokens c \<and> draft_fan_out_list c' = draft_fan_out_list c
     \<and> draft_kv_cache_tokens c' = draft_kv_cache_tokens c \<and> draft_proposal_count c' = draft_proposal_count c)"

lemma read_work_values:
  assumes "read_work J root c = Inr c'"
  shows "reads_uint J root ''target_uncached_query_tokens'' (target_query_tokens c')
    \<and> reads_uint J root ''target_kv_cache_tokens'' (target_kv_cache_tokens c')
    \<and> control_fixed c c'"
  using assms by (auto simp: read_work_def control_fixed_def res_simps intro: reads_uintI)

lemma read_tokens_values:
  assumes "read_tokens J root c = Inr c'"
  shows "reads_uint J root ''target_input_tokens'' (target_input_tokens c') \<and> reads_uint J root ''draft_input_tokens'' (draft_input_tokens c')
    \<and> control_fixed c c'
    \<and> target_query_tokens c' = target_query_tokens c \<and> target_kv_cache_tokens c' = target_kv_cache_tokens c"
  using assms by (auto simp: read_tokens_def control_fixed_def res_simps intro: reads_uintI)

lemma read_caches_values:
  assumes "read_caches J root c = Inr c'"
  shows "reads_uint J root ''draft_forward_steps'' (draft_forward_steps c') \<and> control_fixed c c'
    \<and> target_query_tokens c' = target_query_tokens c \<and> target_kv_cache_tokens c' = target_kv_cache_tokens c
    \<and> target_input_tokens c' = target_input_tokens c \<and> draft_input_tokens c' = draft_input_tokens c"
  using assms by (auto simp: read_caches_def control_fixed_def res_simps intro: reads_uintI)

definition control_same :: "SpeculativeControl \<Rightarrow> SpeculativeControl \<Rightarrow> bool" where
  "control_same c c' = (control_fixed c c' \<and> target_query_tokens c' = target_query_tokens c
     \<and> target_kv_cache_tokens c' = target_kv_cache_tokens c \<and> target_input_tokens c' = target_input_tokens c
     \<and> draft_forward_steps c' = draft_forward_steps c \<and> draft_input_tokens c' = draft_input_tokens c)"

lemma read_outcome_same: "read_outcome J root c = Inr c' \<Longrightarrow> control_same c c'"
  by (auto simp: read_outcome_def control_same_def control_fixed_def res_simps)

lemma read_schedule_same: "read_schedule J root c = Inr c' \<Longrightarrow> control_same c c'"
  by (auto simp: read_schedule_def control_same_def control_fixed_def res_simps)

lemma read_draft_shape_values:
  assumes "read_draft_shape J n root c = Inr c'"
  shows "trace_version c' = trace_version c \<and> algorithm c' = algorithm c \<and> read_fan_out J n root = Inr (draft_fan_out_list c')"
  using assms by (auto simp: read_draft_shape_def Let_def res_simps)

lemma read_draft_shape_reads:
  assumes "read_draft_shape J n root c = Inr c'" "json_laws J" "no_precompute J root"
  shows "reads_uint J root ''draft_kv_cache_tokens'' (draft_kv_cache_tokens c')" "reads_uint J root ''draft_decoder_tokens'' (draft_proposal_count c')"
proof -
  have p: "js_get J root ''draft_precompute_kv_cache_tokens'' d = Inr d" for d using assms(2,3) by (simp add: json_laws_def no_precompute_def)
  show "reads_uint J root ''draft_kv_cache_tokens'' (draft_kv_cache_tokens c')" "reads_uint J root ''draft_decoder_tokens'' (draft_proposal_count c')"
    using assms(1) by (auto simp: read_draft_shape_def Let_def res_simps p intro: reads_uintI)
qed

lemma member_reads:
  assumes "json_laws J" "js_isMember J root k = Inr True" "reads_uint J root k x" "uint_at J root k = Inr y"
  shows "x = y"
  using assms by (auto simp: json_laws_def reads_uint_def res_simps)

lemma check_fields_members: "check_fields J n root fs = Inr () \<longleftrightarrow> (\<forall>f \<in> set fs. js_isMember J root f = Inr True)"
  by (induction fs) (auto simp: res_simps split: if_splits)

lemma check_v2_shape:
  assumes "check_v2 J n root = Inr ()" "json_laws J" "reads_uint J root ''target_uncached_query_tokens'' q"
    "reads_uint J root ''target_kv_cache_tokens'' kv" "reads_uint J root ''target_input_tokens'' inp" "reads_uint J root ''draft_forward_steps'' st"
  shows "kv \<le> inp \<and> q = inp - kv \<and> q \<noteq> 0 \<and> st \<noteq> 0"
proof -
  have m: "\<forall>f \<in> set required_fields. js_isMember J root f = Inr True" using assms(1) check_fields_members [of J n root required_fields]
    by (auto simp: check_v2_def elim!: bindE_InrE)
  then have k: "js_isMember J root ''target_uncached_query_tokens'' = Inr True" "js_isMember J root ''target_kv_cache_tokens'' = Inr True"
    "js_isMember J root ''target_input_tokens'' = Inr True" "js_isMember J root ''draft_forward_steps'' = Inr True"
    by (simp_all add: required_fields_def)
  note e = member_reads [OF assms(2) k(1) assms(3)] member_reads [OF assms(2) k(2) assms(4)]
    member_reads [OF assms(2) k(3) assms(5)] member_reads [OF assms(2) k(4) assms(6)]
  from assms(1) obtain ti tc tu st' where u: "uint_at J root ''target_input_tokens'' = Inr ti" "uint_at J root ''target_kv_cache_tokens'' = Inr tc"
    "uint_at J root ''target_uncached_query_tokens'' = Inr tu" "uint_at J root ''draft_forward_steps'' = Inr st'"
    and "tc \<le> ti" "tu = ti - tc" "tu \<noteq> 0" "st' \<noteq> 0"
    unfolding check_v2_def bindE_eq_Inr by (auto simp: not_less split: if_splits)
  then show ?thesis using e(1) [OF u(3)] e(2) [OF u(2)] e(3) [OF u(1)] e(4) [OF u(4)] by simp
qed

lemma check_v2_draft:
  assumes "check_v2 J n root = Inr ()" "json_laws J" "reads_uint J root ''draft_kv_cache_tokens'' kv" "reads_uint J root ''draft_input_tokens'' inp"
    "reads_uint J root ''draft_forward_steps'' st" "reads_uint J root ''draft_decoder_tokens'' dec"
  shows "kv \<le> inp \<and> dec = inp - kv + st - 1"
proof -
  have m: "\<forall>f \<in> set required_fields. js_isMember J root f = Inr True" using assms(1) check_fields_members [of J n root required_fields]
    by (auto simp: check_v2_def elim!: bindE_InrE)
  then have k: "js_isMember J root ''draft_kv_cache_tokens'' = Inr True" "js_isMember J root ''draft_input_tokens'' = Inr True"
    "js_isMember J root ''draft_forward_steps'' = Inr True" "js_isMember J root ''draft_decoder_tokens'' = Inr True"
    by (simp_all add: required_fields_def)
  note e = member_reads [OF assms(2) k(1) assms(3)] member_reads [OF assms(2) k(2) assms(4)]
    member_reads [OF assms(2) k(3) assms(5)] member_reads [OF assms(2) k(4) assms(6)]
  from assms(1) obtain di dc st' dd where u: "uint_at J root ''draft_input_tokens'' = Inr di" "uint_at J root ''draft_kv_cache_tokens'' = Inr dc"
    "uint_at J root ''draft_forward_steps'' = Inr st'" "uint_at J root ''draft_decoder_tokens'' = Inr dd"
    and "dc \<le> di" "dd = di - dc + st' - 1"
    unfolding check_v2_def bindE_eq_Inr by (auto simp: not_less split: if_splits)
  then show ?thesis using e(1) [OF u(2)] e(2) [OF u(1)] e(3) [OF u(3)] e(4) [OF u(4)] by simp
qed

lemma read_fan_out_positive:
  assumes "read_fan_out J n root = Inr ns"
  shows "0 \<notin> set ns"
  using assms by (auto simp: read_fan_out_def res_simps map_res_Inr list_all2_conv_all_nth in_set_conv_nth split: if_splits)

lemma parse_record_ok:
  assumes "json_laws J" "parse_record J n root = Inr (Some (sid, c))" "b \<longrightarrow> no_precompute J root"
  shows "record_ok b c"
proof -
  have o: "other_event J root = Inr False" using assms(2) by (auto simp: parse_record_def res_simps split: if_splits)
  from assms(2) obtain c0 c1 c2 c3 c4 c5 where
    v: "(if trace_version c0 \<ge> 2 then check_v2 J n root else Inr ()) = Inr ()" and d: "read_draft_shape J n root c0 = Inr c1"
    and s: "(if algorithm c1 = ''ssd'' then check_ssd n c1 else Inr ()) = Inr ()"
    and w: "read_work J root c1 = Inr c2" and t: "read_tokens J root c2 = Inr c3" and k: "read_caches J root c3 = Inr c4"
    and l: "read_outcome J root c4 = Inr c5" "read_schedule J root c5 = Inr c"
    unfolding parse_record_def by (auto simp: res_simps o)
  note dv = read_draft_shape_values [OF d] and wv = read_work_values [OF w] and tv = read_tokens_values [OF t]
    and kv = read_caches_values [OF k] and lv = read_outcome_same [OF l(1)] read_schedule_same [OF l(2)]
  have r: "reads_uint J root ''target_uncached_query_tokens'' (target_query_tokens c)"
    "reads_uint J root ''target_kv_cache_tokens'' (target_kv_cache_tokens c)"
    "reads_uint J root ''target_input_tokens'' (target_input_tokens c)"
    "reads_uint J root ''draft_forward_steps'' (draft_forward_steps c)"
    using wv tv kv lv unfolding control_same_def by metis+
  have f: "control_fixed c1 c" using wv tv kv lv by (simp add: control_same_def control_fixed_def)
  have "target_kv_cache_tokens c \<le> target_input_tokens c \<and> target_query_tokens c = target_input_tokens c - target_kv_cache_tokens c
      \<and> target_query_tokens c \<noteq> 0 \<and> draft_forward_steps c \<noteq> 0" if "trace_version c \<ge> 2"
    by (rule check_v2_shape [OF _ assms(1) r, of n]) (use v that f dv in \<open>simp add: control_fixed_def\<close>)
  moreover have "draft_tree_steps c \<noteq> 0 \<and> draft_fan_out_list c \<noteq> [] \<and> 0 \<notin> set (draft_fan_out_list c)
           \<and> fan_out_total (draft_fan_out_list c) = ucast (draft_tree_query_tokens c)" if "algorithm c = ''ssd''"
    using that f s dv read_fan_out_positive [of J n root] by (simp add: check_ssd_def control_fixed_def split: if_splits)
  moreover have "draft_ok c" if b
  proof -
    have "reads_uint J root ''draft_kv_cache_tokens'' (draft_kv_cache_tokens c)" "reads_uint J root ''draft_input_tokens'' (draft_input_tokens c)"
      "reads_uint J root ''draft_decoder_tokens'' (draft_proposal_count c)"
      using read_draft_shape_reads [OF d assms(1)] assms(3) that f tv kv lv unfolding control_same_def control_fixed_def by metis+
    from check_v2_draft [OF _ assms(1) this(1,2) r(4) this(3), of n] show ?thesis
      using v f dv by (auto simp: draft_ok_def control_fixed_def)
  qed
  ultimately show ?thesis unfolding control_ok_def record_ok_def by blast
qed

lemma control_records_ok:
  assumes "json_laws J" "control_records J n ls = Inr rs" "b \<longrightarrow> plain_lines J ls" "r \<in> set rs"
  shows "record_ok b (snd r)"
  using assms
proof (induction J n ls arbitrary: rs rule: control_records.induct)
  case (2 J n l ls)
  show ?case
  proof (cases "l = []")
    case False
    then obtain root e rs' where p: "js_parse J l = Some root" "parse_record J (n + 1) root = Inr e" "control_records J (n + 1) ls = Inr rs'"
      "rs = (case e of None \<Rightarrow> rs' | Some r \<Rightarrow> r # rs')"
      using "2.prems"(2) by (auto simp: Let_def res_simps split: option.splits)
    show ?thesis
    proof (cases "e = Some r")
      case True
      have "b \<longrightarrow> no_precompute J root" using "2.prems"(3) p(1) by (simp add: plain_lines_def)
      then show ?thesis using True p(2) parse_record_ok [OF "2.prems"(1)] by (metis prod.collapse)
    next
      case other: False
      have "b \<longrightarrow> plain_lines J ls" using "2.prems"(3) by (simp add: plain_lines_def)
      then show ?thesis using "2.IH"(2) [OF refl False p(1,2) "2.prems"(1) p(3)] p(4) "2.prems"(4) other by (auto split: option.splits)
    qed
  qed (use 2 in \<open>simp add: plain_lines_def\<close>)
qed simp

lemma normalise_first_ok: "normalise_first c = Inr c' \<Longrightarrow> record_ok b c \<Longrightarrow> record_ok b c'"
proof -
  assume a: "normalise_first c = Inr c'" "record_ok b c"
  have "prefix_len_before c \<noteq> 0 \<Longrightarrow> prefix_len_before c - 1 \<le> prefix_len_before c"
    by (metis measure_unat nat_less_le word_le_nat_alt)
  with a show ?thesis by (auto simp: normalise_first_def record_ok_def control_ok_def draft_ok_def Let_def split: if_splits)
qed

lemma exclude_first_ok: "exclude_first cs = Inr cs' \<Longrightarrow> \<forall>c \<in> set cs. record_ok b c \<Longrightarrow> \<forall>c \<in> set cs'. record_ok b c"
  by (cases cs) (auto simp: res_simps normalise_first_ok)

lemma exclude_first_Nil: "exclude_first cs = Inr cs' \<Longrightarrow> cs' = [] \<longleftrightarrow> cs = []"
  by (cases cs) (auto simp: res_simps)

lemma check_continuity_ok: "check_continuity cs = Inr () \<longleftrightarrow> successively continues cs"
  by (induction cs rule: check_continuity.induct) auto

section \<open>Selection\<close>

definition limited :: "SpeculativeInfo \<Rightarrow> 'a list \<Rightarrow> 'a list" where
  "limited spec xs = (if max_control_iterations spec = 0 then xs else take (unat (max_control_iterations spec)) xs)"

definition sample_selection :: "SpeculativeInfo \<Rightarrow> nat \<Rightarrow> SpeculativeControl list \<Rightarrow> SpeculativeControl list" where
  "sample_selection spec i cs = map (\<lambda>c. c\<lparr>sample_index := of_nat i\<rparr>) (filter (\<lambda>c. skip_warmup_iterations spec \<le> iteration c) cs)"

lemma limited_more: "limited spec (limited spec xs @ ys) = limited spec (xs @ ys)"
  by (simp add: limited_def min_def)

lemma limit_reached_iff: "limit_reached spec xs \<Longrightarrow> limited spec xs = xs \<Longrightarrow> limited spec (xs @ ys) = xs"
  by (auto simp: limited_def limit_reached_def split: if_splits)

lemma limited_below: "\<not> limit_reached spec xs \<Longrightarrow> limited spec (xs @ [x]) = xs @ [x]"
  by (auto simp: limited_def limit_reached_def)

lemma select_loop_spec:
  "limited spec acc = acc \<Longrightarrow> select_loop spec (of_nat i) cs acc = limited spec (acc @ sample_selection spec i cs)"
proof (induction cs arbitrary: acc)
  case (Cons c cs)
  then show ?case
    using Cons.IH [of "acc @ [c\<lparr>sample_index := of_nat i\<rparr>]"]
    by (auto simp: sample_selection_def not_less limit_reached_iff limited_below)
qed (simp add: sample_selection_def)

lemma select_samples_spec:
  assumes "limited spec acc = acc" "\<forall>i \<in> set is. i < length samples"
  shows "select_samples spec samples is acc = Inr (limited spec (acc @ concat (map (\<lambda>i. sample_selection spec i (samples ! i)) is)))"
  using assms
proof (induction "is" arbitrary: acc)
  case (Cons i "is")
  let ?a = "select_loop spec (of_nat i) (samples ! i) acc"
  have a: "?a = limited spec (acc @ sample_selection spec i (samples ! i))" by (rule select_loop_spec [OF Cons.prems(1)])
  then have l: "limited spec ?a = ?a" using limited_more [of spec "acc @ sample_selection spec i (samples ! i)" "[]"] by simp
  have "limited spec (acc @ concat (map (\<lambda>i. sample_selection spec i (samples ! i)) (i # is)))
      = limited spec (?a @ concat (map (\<lambda>i. sample_selection spec i (samples ! i)) is))"
    unfolding a limited_more by simp
  moreover have "select_samples spec samples (i # is) acc = (if limit_reached spec ?a then Inr ?a else select_samples spec samples is ?a)"
    using Cons.prems(2) by (simp add: nth_res_def)
  ultimately show ?case using Cons.IH [OF l] Cons.prems(2) limit_reached_iff [OF _ l] by simp
qed simp

lemma sample_range_in:
  assumes "\<not> (si_sample_index spec \<ge> 0 \<and> nat (si_sample_index spec) \<ge> n)" "i \<in> set (sample_range spec n)"
  shows "i < n"
  using assms by (auto simp: sample_range_def Let_def unat_of_nat take_bit_eq_mod mod_less_eq_dividend elim: less_le_trans split: if_splits)

lemma load_samples_ok:
  assumes "json_laws J" "load_samples J spec ls = Inr samples" "b \<longrightarrow> plain_lines J ls"
  shows "(\<forall>cs \<in> set samples. cs \<noteq> [] \<and> successively continues cs \<and> (\<forall>c \<in> set cs. record_ok b c))
    \<and> (\<exists>rs. control_records J 0 ls = Inr rs \<and> length samples = length (sample_spec rs)
         \<and> (\<not> exclude_prefill spec \<longrightarrow> samples = map (map snd) (sample_spec rs)))"
proof -
  from assms(2) obtain rs us where r: "control_records J 0 ls = Inr rs"
    "(if exclude_prefill spec then map_res exclude_first (map (map snd) (sample_spec rs)) else Inr (map (map snd) (sample_spec rs))) = Inr samples"
    "map_res check_continuity samples = Inr us"
    by (auto simp: load_samples_def read_lines_fold close_samples_spec bindE_assoc res_simps Let_def cong: if_cong)
  have raw: "cs \<noteq> [] \<and> (\<forall>c \<in> set cs. record_ok b c)" if "cs \<in> set (map (map snd) (sample_spec rs))" for cs
  proof -
    from that obtain es where e: "es \<in> set (sample_spec rs)" "cs = map snd es" by auto
    then have "set es \<subseteq> set (concat (sample_spec rs))" by auto
    then have "set es \<subseteq> set rs" by (simp only: sample_spec_parts(1))
    then show ?thesis using e sample_spec_parts(2) [of rs] control_records_ok [OF assms(1) r(1) assms(3)] by fastforce
  qed
  have "cs \<noteq> [] \<and> (\<forall>c \<in> set cs. record_ok b c)" if c: "cs \<in> set samples" for cs
  proof (cases "exclude_prefill spec")
    case True
    then have "map_res exclude_first (map (map snd) (sample_spec rs)) = Inr samples" using r(2) by simp
    from map_res_mem [OF this c] obtain cs0 where "cs0 \<in> set (map (map snd) (sample_spec rs))" "exclude_first cs0 = Inr cs" by blast
    then show ?thesis using raw [of cs0] exclude_first_ok [of cs0 cs b] exclude_first_Nil [of cs0 cs] by blast
  qed (use r(2) raw c in auto)
  moreover have "successively continues cs" if "cs \<in> set samples" for cs
    using r(3) that by (auto simp: map_res_Inr list_all2_conv_all_nth in_set_conv_nth check_continuity_ok)
  moreover have "length samples = length (sample_spec rs)"
    using r(2) by (auto simp: map_res_Inr dest: list_all2_lengthD split: if_splits)
  ultimately show ?thesis using r(1,2) by auto
qed

lemma load_model_layer_profile_ok:
  assumes "load_model_layer_profile J file_name root = Inr lp"
  shows "layer_count lp \<noteq> 0" "operations lp \<noteq> []" "\<forall>x \<in> set (operations lp). op_name x \<noteq> [] \<and> compute_share x \<noteq> 0"
proof -
  have r: "op_name x \<noteq> [] \<and> compute_share x \<noteq> 0" if "read_operation J file_name v = Inr x" for v x
    using that by (auto simp: read_operation_def res_simps split: if_splits)
  show "layer_count lp \<noteq> 0" "operations lp \<noteq> []" "\<forall>x \<in> set (operations lp). op_name x \<noteq> [] \<and> compute_share x \<noteq> 0"
    using assms r unfolding load_model_layer_profile_def
    by (auto simp: res_simps map_res_Inr list_all2_conv_all_nth in_set_conv_nth split: if_splits) metis+
qed

lemma total_share_pos:
  assumes "operations lp \<noteq> []" "\<forall>x \<in> set (operations lp). compute_share x \<noteq> 0"
    "(\<Sum>x \<leftarrow> operations lp. unat (compute_share x)) < 2 ^ 32"
  shows "total_compute_share lp \<noteq> 0"
proof -
  have "unat (sum_list (map compute_share xs)) = (\<Sum>x \<leftarrow> xs. unat (compute_share x))"
    if "(\<Sum>x \<leftarrow> xs. unat (compute_share x)) < 2 ^ 32" for xs
    using that by (induction xs) (simp_all add: unat_word_ariths)
  moreover have "0 < (\<Sum>x \<leftarrow> operations lp. unat (compute_share x))"
    using assms(1,2) by (cases "operations lp") (auto simp: unat_gt_0)
  ultimately show ?thesis using assms(3) unfolding total_compute_share_def by (metis less_irrefl unat_0)
qed

lemma ops_loop_total:
  assumes "\<And>b a x. \<exists>v. cmp b a x = Inr v"
  shows "\<exists>as tot. ops_loop acts cmp xs a = Inr (as, tot)"
proof (induction xs arbitrary: a)
  case (Cons x xs)
  obtain v where v: "cmp (xs = []) a x = Inr v" using assms by blast
  from Cons.IH [of "a + v"] v show ?case by auto
qed simp

lemma concat_res_total_on: "(\<And>x. x \<in> set xs \<Longrightarrow> \<exists>ys. f x = Inr ys) \<Longrightarrow> \<exists>zs. concat_res f xs = Inr zs"
proof (induction xs)
  case (Cons x xs)
  obtain ys zs where "f x = Inr ys" "concat_res f xs = Inr zs" using Cons by fastforce
  then show ?case by simp
qed simp

lemma concat_res_total: "(\<And>x. \<exists>ys. f x = Inr ys) \<Longrightarrow> \<exists>zs. concat_res f xs = Inr zs"
  by (rule concat_res_total_on)

text \<open>With shares that add up within 32 bits a run of the NPU in any mode never divides by zero and returns its actions.\<close>

lemma profile_replays:
  assumes "operations lp \<noteq> []" "\<forall>x \<in> set (operations lp). compute_share x \<noteq> 0" "(\<Sum>x \<leftarrow> operations lp. unat (compute_share x)) < 2 ^ 32"
  shows "\<exists>as s'. replay_trace op_ns prof lp s = Inr (as, s')"
proof -
  have t: "total_compute_share lp \<noteq> 0" by (rule total_share_pos [OF assms])
  have "\<exists>v. op_compute op_ns prof s1 (total_compute_share lp) b a x = Inr v" for s1 b a x using t by (simp add: op_compute_def)
  then have l: "\<exists>as tot. ops_loop acts (op_compute op_ns prof s1 (total_compute_share lp)) xs a = Inr (as, tot)" for acts s1 xs a
    by (rule ops_loop_total)
  have la: "\<exists>as. fast_layer_actions op_ns prof lp s1 mul layer = Inr as" "\<exists>as. layer_actions op_ns prof lp s1 layer = Inr as" for s1 mul layer
    using l [of "fast_op_actions lp s1 mul layer" s1 "operations lp" 0] l [of "op_actions lp s1 layer" s1 "operations lp" 0]
    by (auto simp: fast_layer_actions_def layer_actions_def Let_def)
  have "\<exists>as. concat_res (\<lambda>k. fast_layer_actions op_ns prof lp s1 mul (run k)) ks = Inr as"
    "\<exists>as. concat_res (\<lambda>k. layer_actions op_ns prof lp s1 (run k)) ks = Inr as" for s1 mul ks and run :: "nat \<Rightarrow> string"
    by (rule concat_res_total, rule la)+
  with la show ?thesis by (auto simp: replay_trace_def Let_def bindE_eq_Inr)
qed

section \<open>A concrete JSON library\<close>

datatype json = JNull | JNum int | JBool bool | JStr string | JArr "json list" | JObj "(string \<times> json) list"

fun json_lookup :: "json \<Rightarrow> string \<Rightarrow> json option res" where
  "json_lookup (JObj m) k = Inr (map_of m k)"
| "json_lookup JNull k = Inr None"
| "json_lookup _ k = Inl (Thrown ''not an object'')"

fun json_num :: "int \<Rightarrow> int \<Rightarrow> json \<Rightarrow> int res" where
  "json_num lo hi (JNum i) = (if lo \<le> i \<and> i < hi then Inr i else Inl (Thrown ''out of range''))"
| "json_num lo hi JNull = Inr 0"
| "json_num lo hi (JBool b) = Inr (if b then 1 else 0)"
| "json_num lo hi _ = Inl (Thrown ''not a number'')"

definition json_ops :: "(string \<times> json) list \<Rightarrow> json Json" where
  "json_ops table =
     \<lparr>js_parse = map_of table,
      js_isMember = (\<lambda>v k. bindE (json_lookup v k) (\<lambda>x. Inr (x \<noteq> None))),
      js_at = (\<lambda>v k. bindE (json_lookup v k) (\<lambda>x. Inr (case x of None \<Rightarrow> JNull | Some y \<Rightarrow> y))),
      js_get = (\<lambda>v k d. bindE (json_lookup v k) (\<lambda>x. Inr (case x of None \<Rightarrow> d | Some y \<Rightarrow> y))),
      js_asUInt = (\<lambda>v. bindE (json_num 0 (2 ^ 32) v) (\<lambda>i. Inr (of_int i))),
      js_asUInt64 = (\<lambda>v. bindE (json_num 0 (2 ^ 64) v) (\<lambda>i. Inr (of_int i))),
      js_asInt64 = json_num (- (2 ^ 63)) (2 ^ 63),
      js_asString = (\<lambda>v. case v of JStr x \<Rightarrow> Inr x | JNull \<Rightarrow> Inr [] | _ \<Rightarrow> Inl (Thrown ''not a string'')),
      js_asBool = (\<lambda>v. case v of JBool b \<Rightarrow> Inr b | JNull \<Rightarrow> Inr False | _ \<Rightarrow> Inl (Thrown ''not a boolean'')),
      js_isNull = (\<lambda>v. v = JNull), js_isArray = (\<lambda>v. case v of JArr _ \<Rightarrow> True | _ \<Rightarrow> False),
      js_elems = (\<lambda>v. case v of JArr xs \<Rightarrow> xs | _ \<Rightarrow> []),
      js_uint = (\<lambda>x. JNum (int (unat x))), js_int = JNum, js_bool = JBool, js_string = JStr\<rparr>"

lemma json_ops_laws: "json_laws (json_ops table)"
proof -
  have "(\<exists>x. json_lookup v k = Inr x) \<or> (\<exists>e. json_lookup v k = Inl e)" for v k by (cases "json_lookup v k") auto
  then show ?thesis unfolding json_laws_def json_ops_def by (auto simp: bindE_eq_Inr)
qed

definition sample_record :: json where
  "sample_record = JObj
     [(''iteration'', JNum 3), (''prefix_len_before'', JNum 10), (''prefix_len_after'', JNum 12), (''gamma'', JNum 4), (''trace_version'', JNum 2),
      (''target_input_tokens'', JNum 14), (''target_kv_cache_tokens'', JNum 10), (''target_uncached_query_tokens'', JNum 4),
      (''target_kv_write_tokens'', JNum 4), (''draft_input_tokens'', JNum 10), (''draft_kv_cache_tokens'', JNum 9),
      (''draft_uncached_query_tokens'', JNum 1), (''draft_forward_steps'', JNum 4), (''draft_decoder_tokens'', JNum 4),
      (''draft_kv_write_tokens'', JNum 4), (''target_kv_cache_tokens_after_forward'', JNum 14), (''draft_kv_cache_tokens_after_forward'', JNum 13),
      (''target_kv_cache_tokens_after_decision'', JNum 12), (''draft_kv_cache_tokens_after_decision'', JNum 12)]"

definition sample_json :: "json Json" where
  "sample_json = json_ops [(''a'', sample_record)]"

definition sample_spec_info :: SpeculativeInfo where
  "sample_spec_info = \<lparr>si_scenario_id = 1, si_sample_index = 0, skip_warmup_iterations = 1, max_control_iterations = 8, exclude_prefill = False,
     draft_profile_layer = ''D_K0''\<rparr>"

lemma sample_loads:
  "case load_samples sample_json sample_spec_info [''a''] of Inr [[c]] \<Rightarrow> iteration c = 3 \<and> target_query_tokens c = 4 | _ \<Rightarrow> False"
  by code_simp

section \<open>Properties\<close>

lemma continues_nth:
  assumes "successively continues cs" "Suc i < length cs" "2 \<le> trace_version (cs ! i)" "2 \<le> trace_version (cs ! Suc i)"
  shows "target_kv_cache_tokens (cs ! Suc i) = target_kv_cache_tokens_after_decision (cs ! i)
    \<and> draft_kv_cache_tokens (cs ! Suc i) = draft_kv_cache_tokens_after_decision (cs ! i)"
  using assms by (auto simp: successively_conv_nth continues_def)



text \<open>
  Claim C30. The grouping into samples agrees with its specification for every file: reading the lines gives the same failure, or
  the same samples, as splitting the sequence of all control records where the sample id changes or, without
  an id, where the iterations restart at zero.
\<close>

theorem samples_by_reference:
  "bindE (read_lines J 0 ls no_samples) (\<lambda>g. Inr (close_samples g))
   = bindE (control_records J 0 ls) (\<lambda>rs. Inr (map (map snd) (sample_spec rs)))"
  by (simp add: read_lines_fold bindE_assoc close_samples_spec)

text \<open>
  Claim C31. The selection is exact: from the samples of the file the records of the requested sample, or of all samples, that are not warm-up are replayed in their order
  up to the configured number, each labelled with the index of its sample; a requested sample that does not exist and an empty selection are
  errors.
\<close>

theorem selection_exact:
  assumes "load_samples J spec ls = Inr samples" "length samples < 2 ^ 32"
  shows "load_speculative_control_trace J spec file (Some ls) =
    (if si_sample_index spec \<ge> 0 \<and> nat (si_sample_index spec) \<ge> length samples
     then Inl (Thrown (''Requested speculative sample_index='' @ to_string (nat (si_sample_index spec)) @
            '' but control trace contains '' @ to_string (length samples) @ '' sample(s)''))
     else
       let chosen = (if si_sample_index spec < 0 then [0..<length samples] else [nat (si_sample_index spec)]);
           cs = limited spec (concat (map (\<lambda>i. sample_selection spec i (samples ! i)) chosen)) in
       if cs = [] then Inl (Thrown ''No speculative control records remain after warm-up filtering.'') else Inr cs)"
proof (cases "si_sample_index spec \<ge> 0 \<and> nat (si_sample_index spec) \<ge> length samples")
  case False
  have "sample_range spec (length samples) = (if si_sample_index spec < 0 then [0..<length samples] else [nat (si_sample_index spec)])"
    using unat_of_nat_u32 [OF assms(2)] by (simp add: sample_range_def Let_def)
  moreover have "select_samples spec samples (sample_range spec (length samples)) []
      = Inr (limited spec (concat (map (\<lambda>i. sample_selection spec i (samples ! i)) (sample_range spec (length samples)))))"
    using select_samples_spec [of spec "[]" "sample_range spec (length samples)" samples] sample_range_in [OF False] by (simp add: limited_def)
  ultimately show ?thesis using assms(1) False by (simp only: load_speculative_control_trace_def option.case bindE_Inr if_False Let_def)
qed (simp add: load_speculative_control_trace_def assms(1))

theorem selection_exact_witness:
  "\<exists>c. load_speculative_control_trace sample_json sample_spec_info ''t'' (Some [''a'']) = Inr [c\<lparr>sample_index := 0\<rparr>]
    \<and> load_samples sample_json sample_spec_info [''a''] = Inr [[c]]"
proof -
  from sample_loads obtain c where c: "load_samples sample_json sample_spec_info [''a''] = Inr [[c]]" "iteration c = 3"
    by (auto split: sum.splits list.splits)
  have "limited sample_spec_info (concat (map (\<lambda>i. sample_selection sample_spec_info i ([[c]] ! i)) [0])) = [c\<lparr>sample_index := 0\<rparr>]"
    using c(2) by (simp add: limited_def sample_selection_def sample_spec_info_def)
  then show ?thesis using selection_exact [OF c(1), of "''t''"] c(1) by (simp add: sample_spec_info_def Let_def)
qed

end
