(* ===== verification/Host_Model.thy ===== *)
theory Host_Model
  imports Control_Trace
begin

text \<open>
  \<^verbatim>\<open>hsim/components/host.cpp\<close> with the rest of \<^verbatim>\<open>trace_generator.cpp\<close>: the host replays a queue of traces.  A speculative trace
  launches, for each control record, the target run on the NPU and the stream of draft commands on the PIM device, and waits for both.
  The thread of the host is a function between two waits; \<open>host_pc\<close> are the points where it waits.  Payload objects are recycled and
  keep the attributes that are not set anew.  The floating-point scaling of delays is the parameter \<open>HostFloats\<close>.
  The maps copied from the configuration are not changed: an entry that \<^verbatim>\<open>operator[]\<close> would insert for a layer without a tile count reads as zero here.
\<close>

section \<open>Traces\<close>

datatype TraceType = WRITE_trace | READ_trace | COMPUTE_trace | PIM_trace | SPECULATIVE_trace | TERMINATE_trace

datatype Trace =
    MemoryTrace TraceType u32 DeviceType DeviceType u32 u64 string
  | ComputeTrace DeviceType string
  | SimTrace string
  | SpeculativeTrace string
  | PimTrace string string DeviceType

record TraceGenerator =
  trace_queue :: "Trace list"
  tg_host_sync_map :: BaseMap
  tg_host_wait_map :: BaseMap

definition map_traces :: "TraceType \<Rightarrow> string \<Rightarrow> DeviceType \<Rightarrow> DeviceType \<Rightarrow> BaseMap \<Rightarrow> Trace list" where
  "map_traces ty layer src dst m =
     map (\<lambda>(name, i, sz, a). MemoryTrace ty i src dst sz a name)
       (filter (\<lambda>e. if layer = ''RoPE_'' then contains layer (fst e) else fst e = layer) m)"

fun add_memory_trace :: "TraceType \<Rightarrow> string \<Rightarrow> DeviceType \<Rightarrow> DeviceType list \<Rightarrow> TraceGenerator \<Rightarrow> TraceGenerator res" where
  "add_memory_trace ty layer src [] gen = Inr gen"
| "add_memory_trace ty layer src (dst # dsts) gen =
     (if src = HOST then
        add_memory_trace ty layer src dsts
          (gen\<lparr>trace_queue := trace_queue gen @
             map_traces ty layer src dst (if ty = READ_trace then tg_host_wait_map gen else tg_host_sync_map gen)\<rparr>)
      else Inl NullPointer)"

definition add_trace :: "TraceType \<Rightarrow> string \<Rightarrow> DeviceType \<Rightarrow> TraceGenerator \<Rightarrow> TraceGenerator" where
  "add_trace ty layer device gen =
     (if ty = COMPUTE_trace then gen\<lparr>trace_queue := trace_queue gen @ [ComputeTrace device layer]\<rparr>
      else if ty = TERMINATE_trace then gen\<lparr>trace_queue := trace_queue gen @ [SimTrace layer]\<rparr>
      else gen)"

definition add_speculative_trace :: "string \<Rightarrow> TraceGenerator \<Rightarrow> TraceGenerator" where
  "add_speculative_trace scenario gen = gen\<lparr>trace_queue := trace_queue gen @ [SpeculativeTrace scenario]\<rparr>"

definition add_host_trace :: "string \<Rightarrow> DeviceType list \<Rightarrow> DeviceType list \<Rightarrow> TraceGenerator \<Rightarrow> TraceGenerator res" where
  "add_host_trace layer r_targets w_targets gen =
     bindE (if r_targets \<noteq> [] then add_memory_trace READ_trace layer HOST r_targets gen else Inr gen) (\<lambda>gen1.
     let gen2 = add_trace COMPUTE_trace layer HOST gen1 in
     if w_targets \<noteq> [] then add_memory_trace WRITE_trace layer HOST w_targets gen2 else Inr gen2)"

definition tile_traces :: "(string \<rightharpoonup> u32) \<Rightarrow> string \<Rightarrow> string list \<Rightarrow> DeviceType \<Rightarrow> Trace list res" where
  "tile_traces tile_map layer cmds nxt =
     (case tile_map layer of
        None \<Rightarrow> Inl (Thrown (''Missing or zero PIM output_tile for layer: '' @ layer))
      | Some tile_num \<Rightarrow>
          if tile_num = 0 then Inl (Thrown (''Missing or zero PIM output_tile for layer: '' @ layer))
          else Inr (concat (replicate (unat tile_num) (map (\<lambda>cmd. PimTrace layer cmd nxt) cmds))))"

definition add_gemv_trace :: "(string \<rightharpoonup> u32) \<Rightarrow> string \<Rightarrow> string list \<Rightarrow> DeviceType \<Rightarrow> TraceGenerator \<Rightarrow> TraceGenerator res" where
  "add_gemv_trace tile_map layer cmds nxt gen =
     bindE (tile_traces tile_map layer cmds nxt) (\<lambda>ts.
     Inr (gen\<lparr>trace_queue := trace_queue gen @ ts @ [PimTrace layer ''addertree'' nxt]\<rparr>))"

definition add_rope_trace :: "(string \<rightharpoonup> u32) \<Rightarrow> string \<Rightarrow> string list \<Rightarrow> TraceGenerator \<Rightarrow> TraceGenerator res" where
  "add_rope_trace tile_map layer cmds gen =
     bindE (tile_traces tile_map layer cmds PIM) (\<lambda>ts. Inr (gen\<lparr>trace_queue := trace_queue gen @ ts\<rparr>))"

definition generate_speculative_s1 :: "TraceGenerator \<Rightarrow> TraceGenerator" where
  "generate_speculative_s1 gen = add_trace TERMINATE_trace [] HOST (add_speculative_trace ''pearl_s1'' gen)"

definition generate_trace :: "SpeculativeInfo \<Rightarrow> TraceGenerator \<Rightarrow> TraceGenerator res" where
  "generate_trace spec gen =
     (if si_scenario_id spec = 1 then Inr (generate_speculative_s1 gen) else Inl (Thrown ''Invalid speculative scenario.''))"

section \<open>State of the host\<close>

record PIMCmdProfile =
  cmd_map :: "string \<rightharpoonup> u32 \<times> u32"
  cmd_map_size :: nat
  ordered_cmd_name :: "string list"

record SyntheticPIMInfo =
  spi_enabled :: bool
  aggregate_micro_commands :: bool
  pim_fast_layer_mode :: bool
  pim_fast_macro :: bool

text \<open>
  The scaled delay of a command, the delay of a macro command from its summed delay and number of commands, and \<^verbatim>\<open>delay * 0.6\<close>.
\<close>

record HostFloats =
  scaled_delay :: "string \<Rightarrow> u32 \<Rightarrow> u32"
  macro_delay_ns :: "string \<Rightarrow> u64 \<Rightarrow> u64 \<Rightarrow> u64"
  mac_delay :: "u32 \<Rightarrow> u32"

record HostConfig =
  hc_spec :: SpeculativeInfo
  hc_pim :: SyntheticPIMInfo
  hc_draft :: ModelLayerProfile
  hc_host_profile :: "string \<Rightarrow> u32"
  hc_pim_profile :: "string \<rightharpoonup> PIMCmdProfile"
  hc_tiles :: "string \<rightharpoonup> u32"
  hc_pim_wait :: BaseMap
  hc_pim_sync :: BaseMap
  hc_controls :: "SpeculativeControl list"
  hc_floats :: HostFloats

datatype host_pc =
    Host_idle
  | Host_barrier string "SpeculativeControl list" bool bool
  | Host_mem_sync Trace
  | Host_mem_compute Trace
  | Host_mem_read u32 u32
  | Host_compute string u32
  | Host_add_sync string string DeviceType u32
  | Host_add_read string string DeviceType u32 u32 u32
  | Host_add_compute string string DeviceType u32 u32
  | Host_pim_sync string string "u32 list"
  | Host_pim_busy string string
  | Host_stopped

record Host =
  h_mm :: mm
  h_objects :: "nat \<Rightarrow> payload"
  h_cmd_id :: u32
  h_req_bytes :: u32
  h_active_cycle :: u64
  h_trace_q :: "Trace list"
  h_pending_q :: "payload list"
  h_read_rsp_q :: "payload list"
  h_compute_done :: "string \<Rightarrow> bool"
  h_previous_layer :: string

section \<open>Requests\<close>

definition generate_trans ::
    "TraceType \<Rightarrow> DeviceType \<Rightarrow> DeviceType \<Rightarrow> u32 \<Rightarrow> u32 \<Rightarrow> u32 \<Rightarrow> string \<Rightarrow> string \<Rightarrow> Host \<Rightarrow> payload \<times> Host" where
  "generate_trans ty src dst a burst_id burst_size layer micro_cmd h =
     (let (p, pool) = mm_allocate (h_mm h);
          t = (h_objects h p)\<lparr>gp_ptr := p, pim_cmd := micro_cmd, gp_address := ucast a, bst_size := burst_size, bst_id := burst_id,
                src_id := src, dst_id := dst, gp_layer := layer,
                gp_command := (if ty = PIM_trace then TLM_PIM else if ty = WRITE_trace then TLM_WRITE else TLM_READ)\<rparr> in
      (t, h\<lparr>h_mm := pool, h_objects := (h_objects h)(p := t)\<rparr>))"

text \<open>Attributes set after \<^verbatim>\<open>generate_trans\<close>, and the queue.\<close>

definition push_trans :: "(payload \<Rightarrow> payload) \<Rightarrow> payload \<times> Host \<Rightarrow> Host" where
  "push_trans f th = (case th of (t, h) \<Rightarrow>
     h\<lparr>h_objects := (h_objects h)(gp_ptr t := f t), h_pending_q := h_pending_q h @ [f t]\<rparr>)"

definition host_clock_negedge :: "Host \<Rightarrow> (nat \<times> payload) list \<times> Host" where
  "host_clock_negedge h =
     (case h_pending_q h of
        [] \<Rightarrow> ([], h)
      | t # q \<Rightarrow> ([(if dst_id t = NPU then 0 else 1, t)], h\<lparr>h_pending_q := q, h_active_cycle := h_active_cycle h + 1\<rparr>))"

definition host_peq_cb :: "payload \<Rightarrow> Host \<Rightarrow> Host" where
  "host_peq_cb t h = h\<lparr>h_read_rsp_q := h_read_rsp_q h @ [t]\<rparr>"

definition get_op_type :: "string \<Rightarrow> string" where
  "get_op_type layer =
     (if contains ''Softmax'' layer then ''softmax''
      else if contains ''RMSNorm'' layer then ''rmsnorm''
      else if layer = ''gelu'' then ''gelu''
      else ''residual'')"

section \<open>The draft stream\<close>

record DraftWorkItem =
  context_tokens :: u32
  tree_step :: u32
  branch_depth :: u32
  branch_index :: u32

definition draft_work_items :: "SpeculativeControl \<Rightarrow> DraftWorkItem list" where
  "draft_work_items c =
     (if algorithm c = ''ssd'' then
        concat (map (\<lambda>step. concat (map (\<lambda>depth. map (\<lambda>branch.
            \<lparr>context_tokens = draft_kv_cache_tokens c + of_nat depth + of_nat step, tree_step = of_nat step, branch_depth = of_nat depth,
             branch_index = of_nat branch\<rparr>)
          [0..<unat (draft_fan_out_list c ! depth)]) [0..<length (draft_fan_out_list c)])) [0..<unat (draft_tree_steps c)])
      else
        map (\<lambda>proposal. \<lparr>context_tokens = draft_kv_cache_tokens c + of_nat proposal, tree_step = 0, branch_depth = of_nat proposal, branch_index = 0\<rparr>)
          [0..<unat (draft_proposal_count c)])"

definition sample_prefix :: "SpeculativeControl \<Rightarrow> string" where
  "sample_prefix c = ''sample'' @ to_string (unat (sample_index c)) @ ''.iter'' @ to_string (unat (iteration c))"

definition work_suffix :: "SpeculativeControl \<Rightarrow> DraftWorkItem \<Rightarrow> string" where
  "work_suffix c w =
     (if algorithm c = ''ssd''
      then ''.tree_step'' @ to_string (unat (tree_step w)) @ ''.depth'' @ to_string (unat (branch_depth w)) @
           ''.branch'' @ to_string (unat (branch_index w))
      else ''.proposal'' @ to_string (unat (branch_depth w)))"

definition draft_attention_tiles :: "ModelLayerProfile \<Rightarrow> ModelOperationInfo \<Rightarrow> DraftWorkItem \<Rightarrow> u32 res" where
  "draft_attention_tiles lp x w =
     (if op_name x \<noteq> ''qkt'' \<and> op_name x \<noteq> ''sv'' then Inr 1
      else if attention_context_tile_tokens lp = 0 then Inl DivByZero
      else Inr (max 1 ((context_tokens w + attention_context_tile_tokens lp - 1) div attention_context_tile_tokens lp)))"

definition cmd_at :: "PIMCmdProfile \<Rightarrow> string \<Rightarrow> (u32 \<times> u32) res" where
  "cmd_at p n = (case cmd_map p n of None \<Rightarrow> Inl OutOfRange | Some e \<Rightarrow> Inr e)"

definition op_profile :: "HostConfig \<Rightarrow> string \<Rightarrow> (PIMCmdProfile \<times> u32) option" where
  "op_profile cfg name =
     (case (hc_pim_profile cfg name, hc_tiles cfg name) of (Some p, Some tiles) \<Rightarrow> Some (p, tiles) | _ \<Rightarrow> None)"

fun commands_per_tile :: "PIMCmdProfile \<Rightarrow> string list \<Rightarrow> u64 res" where
  "commands_per_tile p [] = Inr 0"
| "commands_per_tile p (n # ns) =
     bindE (cmd_at p n) (\<lambda>(d, c). bindE (commands_per_tile p ns) (\<lambda>r. Inr (ucast c + r)))"

definition aggregate_micro :: "HostConfig \<Rightarrow> bool" where
  "aggregate_micro cfg = (aggregate_micro_commands (hc_pim cfg) \<or> pim_fast_layer_mode (hc_pim cfg))"

definition collapse_layers :: "HostConfig \<Rightarrow> bool" where
  "collapse_layers cfg = (pim_fast_layer_mode (hc_pim cfg) \<and> pim_fast_macro (hc_pim cfg))"

definition simulated_layer_count :: "HostConfig \<Rightarrow> u32" where
  "simulated_layer_count cfg = (if collapse_layers cfg then 1 else layer_count (hc_draft cfg))"

definition layer_multiplier :: "HostConfig \<Rightarrow> u32" where
  "layer_multiplier cfg = (if collapse_layers cfg then layer_count (hc_draft cfg) else 1)"

text \<open>The number of transactions, counted before the stream is generated.\<close>

definition op_transactions :: "HostConfig \<Rightarrow> DraftWorkItem \<Rightarrow> ModelOperationInfo \<Rightarrow> u64 res" where
  "op_transactions cfg w x =
     (case op_profile cfg (op_name x) of
        None \<Rightarrow> Inr 0
      | Some (p, tiles) \<Rightarrow>
          if aggregate_micro cfg then Inr 1
          else
            bindE (commands_per_tile p (ordered_cmd_name p)) (\<lambda>n.
            bindE (draft_attention_tiles (hc_draft cfg) x w) (\<lambda>a. Inr (ucast (tiles * a) * n))))"

fun sum_res :: "('a \<Rightarrow> u64 res) \<Rightarrow> 'a list \<Rightarrow> u64 res" where
  "sum_res f [] = Inr 0"
| "sum_res f (x # xs) = bindE (f x) (\<lambda>a. bindE (sum_res f xs) (\<lambda>b. Inr (a + b)))"

definition per_decoder_layer_transactions :: "HostConfig \<Rightarrow> DraftWorkItem list \<Rightarrow> u64 res" where
  "per_decoder_layer_transactions cfg items =
     sum_res (\<lambda>w. sum_res (op_transactions cfg w) (operations (hc_draft cfg))) items"

text \<open>A transaction of the stream: delay, burst id, burst size, layer and command.\<close>

type_synonym draft_cmd = "u32 \<times> u32 \<times> u32 \<times> string \<times> string"

fun summed_delay :: "PIMCmdProfile \<Rightarrow> u32 \<Rightarrow> u32 \<Rightarrow> string list \<Rightarrow> (u64 \<times> u64) res" where
  "summed_delay p tile_count mul [] = Inr (0, 0)"
| "summed_delay p tile_count mul (n # ns) =
     bindE (cmd_at p n) (\<lambda>(d, c).
     bindE (summed_delay p tile_count mul ns) (\<lambda>(sd, sc).
     Inr (ucast d * ucast c * ucast tile_count * ucast mul + sd, ucast c * ucast tile_count * ucast mul + sc)))"

definition command_bursts :: "HostFloats \<Rightarrow> PIMCmdProfile \<Rightarrow> string \<Rightarrow> string \<Rightarrow> string \<Rightarrow> draft_cmd list res" where
  "command_bursts fl p op_nm layer n =
     bindE (cmd_at p n) (\<lambda>(d, c).
     Inr (map (\<lambda>burst. (scaled_delay fl op_nm d, of_nat burst, c, layer, n)) [0..<unat c]))"

definition tile_bursts :: "HostFloats \<Rightarrow> PIMCmdProfile \<Rightarrow> u32 \<Rightarrow> string \<Rightarrow> string \<Rightarrow> draft_cmd list res" where
  "tile_bursts fl p tile_count op_nm layer =
     concat_res (\<lambda>tile. concat_res (command_bursts fl p op_nm layer) (ordered_cmd_name p)) [0..<unat tile_count]"

definition draft_layer_name :: "HostConfig \<Rightarrow> SpeculativeControl \<Rightarrow> DraftWorkItem \<Rightarrow> nat \<Rightarrow> ModelOperationInfo \<Rightarrow> string" where
  "draft_layer_name cfg c w layer_id x =
     ''draft_pim.'' @ sample_prefix c @ work_suffix c w @ (if collapse_layers cfg then ''.macro'' else ''.layer'' @ to_string layer_id) @
     ''.op.'' @ op_name x"

definition op_stream :: "HostConfig \<Rightarrow> SpeculativeControl \<Rightarrow> DraftWorkItem \<Rightarrow> nat \<Rightarrow> ModelOperationInfo \<Rightarrow> draft_cmd list res" where
  "op_stream cfg c w layer_id x =
     (case op_profile cfg (op_name x) of
        None \<Rightarrow> Inr []
      | Some (p, tiles) \<Rightarrow>
          bindE (draft_attention_tiles (hc_draft cfg) x w) (\<lambda>a.
          let tile_count = tiles * a; layer = draft_layer_name cfg c w layer_id x in
          if aggregate_micro cfg then
            bindE (summed_delay p tile_count (layer_multiplier cfg) (ordered_cmd_name p)) (\<lambda>(delay, n).
            Inr [(ucast (macro_delay_ns (hc_floats cfg) (op_name x) delay n), 0, 1, layer,
                  ''macro('' @ to_string (unat (layer_multiplier cfg)) @ ''x'' @ op_name x @ '')'')])
          else tile_bursts (hc_floats cfg) p tile_count (op_name x) layer))"

definition synthetic_stream :: "HostConfig \<Rightarrow> SpeculativeControl \<Rightarrow> DraftWorkItem list \<Rightarrow> draft_cmd list res" where
  "synthetic_stream cfg c items =
     concat_res (\<lambda>w. concat_res (\<lambda>layer_id. concat_res (op_stream cfg c w layer_id) (operations (hc_draft cfg)))
       [0..<unat (simulated_layer_count cfg)]) items"

text \<open>Generation: the transaction whose number is \<open>total\<close> is marked as the last.\<close>

fun emit_stream :: "u64 \<Rightarrow> u64 \<Rightarrow> draft_cmd list \<Rightarrow> Host \<Rightarrow> Host" where
  "emit_stream tot k [] h = h"
| "emit_stream tot k ((a, bid, bsz, layer, cmd) # xs) h =
     emit_stream tot (k + 1) xs
       (push_trans (\<lambda>t. t\<lparr>gp_last := (k + 1 = tot)\<rparr>) (generate_trans PIM_trace HOST PIM a bid bsz layer cmd h))"

definition template_stream :: "HostConfig \<Rightarrow> SpeculativeControl \<Rightarrow> PIMCmdProfile \<Rightarrow> u32 \<Rightarrow> DraftWorkItem list \<Rightarrow> draft_cmd list res" where
  "template_stream cfg c p tile_count items =
     concat_res (\<lambda>w. tile_bursts (hc_floats cfg) p tile_count (draft_profile_layer (hc_spec cfg))
       (draft_profile_layer (hc_spec cfg) @ work_suffix c w)) items"

definition launch_draft :: "HostConfig \<Rightarrow> SpeculativeControl \<Rightarrow> Host \<Rightarrow> Host res" where
  "launch_draft cfg c h =
     (let items = draft_work_items c in
      if spi_enabled (hc_pim cfg) then
        (if layer_count (hc_draft cfg) = 0 then Inl (Thrown ''Synthetic PIM model profile has no decoder layers'')
         else
           bindE (per_decoder_layer_transactions cfg items) (\<lambda>per_layer.
           let tot = per_layer * ucast (simulated_layer_count cfg) in
           if tot = 0 then Inl (Thrown ''No draft PIM operations match the active LPDDR5 profile'')
           else bindE (synthetic_stream cfg c items) (\<lambda>cmds. Inr (emit_stream tot 0 cmds h))))
      else
        case op_profile cfg (draft_profile_layer (hc_spec cfg)) of
          None \<Rightarrow> Inl NullPointer
        | Some (p, tile_count) \<Rightarrow>
            bindE (commands_per_tile p (ordered_cmd_name p)) (\<lambda>n.
            bindE (template_stream cfg c p tile_count items) (\<lambda>cmds.
            Inr (emit_stream (of_nat (length items) * ucast tile_count * n) 0 cmds h))))"

section \<open>The thread\<close>

definition end_iteration :: "Sim \<Rightarrow> host_pc" where
  "end_iteration g = (if active_dram g = 0 then Host_stopped else Host_idle)"

definition barrier_layer :: "SpeculativeControl \<Rightarrow> string" where
  "barrier_layer c =
     (if algorithm c = ''ssd'' \<and> draft_overlaps_target c then ''ssd.'' else ''speculative.'') @ sample_prefix c @ ''.barrier''"

definition launch_target :: "SpeculativeControl \<Rightarrow> Host \<Rightarrow> Host" where
  "launch_target c h =
     (let (p, pool) = mm_allocate (h_mm h);
          t = (h_objects h p)\<lparr>gp_ptr := p, gp_command := TLM_COMPUTE, src_id := HOST, dst_id := NPU, gp_layer := ''target.'' @ sample_prefix c,
                gp_length := target_kv_cache_tokens c, bst_size := target_query_tokens c, gp_address := ucast (target_kv_write_tokens c)\<rparr> in
      h\<lparr>h_mm := pool, h_objects := (h_objects h)(p := t), h_pending_q := h_pending_q h @ [t]\<rparr>)"

text \<open>The loop over the control records, up to the barrier of the next record.\<close>

definition next_control :: "HostConfig \<Rightarrow> TimeConv \<Rightarrow> ps_time \<Rightarrow> SpeculativeControl list \<Rightarrow> Host \<Rightarrow> Sim \<Rightarrow> (host_pc \<times> Host \<times> Sim) res" where
  "next_control cfg tc now cs h g =
     (case cs of
        [] \<Rightarrow> Inr (end_iteration g, h, g)
      | c # rest \<Rightarrow>
          let g1 = log_with (update_start tc now (barrier_layer c) HOST)
                     (metrics_with (begin_parallel_episode (tc_to_ns tc) (sample_prefix c) now) g) in
          bindE (launch_draft cfg c (launch_target c h)) (\<lambda>h1.
          Inr (Host_barrier (barrier_layer c) rest False False, h1, g1)))"

definition handle_speculative_trace :: "HostConfig \<Rightarrow> TimeConv \<Rightarrow> ps_time \<Rightarrow> Host \<Rightarrow> Sim \<Rightarrow> (host_pc \<times> Host \<times> Sim) res" where
  "handle_speculative_trace cfg tc now h g =
     (if \<not> spi_enabled (hc_pim cfg) \<and> op_profile cfg (draft_profile_layer (hc_spec cfg)) = None
      then Inl (Thrown (''Missing PIM draft template: '' @ draft_profile_layer (hc_spec cfg)))
      else next_control cfg tc now (hc_controls cfg) h g)"

text \<open>\<^verbatim>\<open>wait_sync_signal\<close>: whether the thread has to wait.\<close>

definition wait_sync_signal :: "u32 \<Rightarrow> DeviceType \<Rightarrow> Sim \<Rightarrow> bool \<times> Sim" where
  "wait_sync_signal i dst g =
     (if dst = DRAM then
        (case check_signal i (dram_sync_obj g) of (b, ob) \<Rightarrow> (\<not> b, g\<lparr>dram_sync_obj := (if b then ob else get_event i ob)\<rparr>))
      else
        (case check_signal i (pim_sync_obj g) of (b, ob) \<Rightarrow> (\<not> b, g\<lparr>pim_sync_obj := (if b then ob else get_event i ob)\<rparr>)))"

definition burst_count :: "u32 \<Rightarrow> u32 \<Rightarrow> u32 res" where
  "burst_count bytes req = (if req = 0 then Inl DivByZero else Inr ((bytes + req - 1) div req))"

fun wait_read_responses :: "u32 \<Rightarrow> u32 \<Rightarrow> Host \<Rightarrow> (u32 + unit) \<times> Host" where
  "wait_read_responses n received h =
     (if received < n then
        let r = received + of_nat (length (h_read_rsp_q h)); h1 = h\<lparr>h_read_rsp_q := []\<rparr> in
        if r < n then (Inl r, h1) else (Inr (), h1)
      else (Inr (), h))"

definition issue_burst :: "TraceType \<Rightarrow> DeviceType \<Rightarrow> DeviceType \<Rightarrow> u64 \<Rightarrow> string \<Rightarrow> u32 \<Rightarrow> Host \<Rightarrow> Host" where
  "issue_burst ty src dst base layer n h =
     fold (\<lambda>i hh. push_trans (\<lambda>t. let t1 = t\<lparr>gp_head := (i = 0)\<rparr> in
                                 if ty = WRITE_trace then t1\<lparr>gp_last := (of_nat i = n - 1)\<rparr> else t1)
                   (generate_trans ty src dst (ucast (base + of_nat i * ucast (h_req_bytes h))) (of_nat i) n layer [] hh))
       [0..<unat n] h"

text \<open>\<^verbatim>\<open>handle_memory_trace\<close> after its dependencies are met.\<close>

definition memory_body :: "TimeConv \<Rightarrow> ps_time \<Rightarrow> Trace \<Rightarrow> Host \<Rightarrow> Sim \<Rightarrow> (host_pc \<times> Host \<times> Sim) res" where
  "memory_body tc now tr h g =
     (case tr of
        MemoryTrace ty i src dst sz a layer \<Rightarrow>
          let g1 = log_with (update_start tc now layer HOST) g in
          bindE (burst_count sz (h_req_bytes h)) (\<lambda>n.
          let h1 = issue_burst ty src dst a layer n h in
          if ty = READ_trace \<and> src = HOST then
            (case wait_read_responses n 0 h1 of
               (Inl r, h2) \<Rightarrow> Inr (Host_mem_read n r, h2, g1)
             | (Inr _, h2) \<Rightarrow> Inr (end_iteration g1, h2, g1))
          else Inr (end_iteration g1, h1, g1))
      | _ \<Rightarrow> Inl NullPointer)"

definition handle_memory_trace :: "TimeConv \<Rightarrow> ps_time \<Rightarrow> Trace \<Rightarrow> Host \<Rightarrow> Sim \<Rightarrow> (host_pc \<times> Host \<times> Sim) res" where
  "handle_memory_trace tc now tr h g =
     (case tr of
        MemoryTrace ty i src dst sz a layer \<Rightarrow>
          if ty = READ_trace then
            (case wait_sync_signal i dst g of
               (True, g1) \<Rightarrow> Inr (Host_mem_sync tr, h, g1)
             | (False, g1) \<Rightarrow> memory_body tc now tr h g1)
          else if \<not> h_compute_done h layer \<and> \<not> contains ''RoPE_'' layer then Inr (Host_mem_compute tr, h, g)
          else memory_body tc now tr h g
      | _ \<Rightarrow> Inl NullPointer)"

definition handle_compute_trace :: "HostConfig \<Rightarrow> TimeConv \<Rightarrow> ps_time \<Rightarrow> DeviceType \<Rightarrow> string \<Rightarrow> Host \<Rightarrow> Sim \<Rightarrow> host_pc \<times> Host \<times> Sim" where
  "handle_compute_trace cfg tc now device layer h g =
     (if device = HOST then (Host_compute layer (hc_host_profile cfg (get_op_type layer)), h, log_with (update_start tc now layer HOST) g)
      else
        let (p, pool) = mm_allocate (h_mm h);
            t = (h_objects h p)\<lparr>gp_ptr := p, gp_command := TLM_COMPUTE, dst_id := device, gp_layer := layer\<rparr> in
        (end_iteration g, h\<lparr>h_mm := pool, h_objects := (h_objects h)(p := t), h_pending_q := h_pending_q h @ [t]\<rparr>, g))"

definition compute_finished :: "TimeConv \<Rightarrow> ps_time \<Rightarrow> string \<Rightarrow> Host \<Rightarrow> Sim \<Rightarrow> host_pc \<times> Host \<times> Sim" where
  "compute_finished tc now layer h g =
     (let g1 = log_with (update_end tc now layer HOST) g in
      (end_iteration g1, h\<lparr>h_compute_done := (h_compute_done h)(layer := True)\<rparr>, g1))"

text \<open>\<^verbatim>\<open>execute_addertree\<close> between its waits.\<close>

definition addertree_write :: "string \<Rightarrow> string \<Rightarrow> DeviceType \<Rightarrow> u32 \<Rightarrow> Host \<Rightarrow> Sim \<Rightarrow> (host_pc \<times> Host \<times> Sim) res" where
  "addertree_write layer cmd nxt sz h g =
     bindE (burst_count sz (h_req_bytes h)) (\<lambda>n.
     Inr (end_iteration g,
          fold (\<lambda>i hh. push_trans (\<lambda>t. t\<lparr>gp_last := (of_nat i = n - 1)\<rparr>) (generate_trans WRITE_trace HOST nxt 0 (of_nat i) n layer cmd hh))
            [0..<unat n] h, g))"

definition addertree_read :: "HostConfig \<Rightarrow> string \<Rightarrow> string \<Rightarrow> DeviceType \<Rightarrow> u32 \<Rightarrow> Host \<Rightarrow> Sim \<Rightarrow> (host_pc \<times> Host \<times> Sim) res" where
  "addertree_read cfg layer cmd nxt sz h g =
     (if h_req_bytes h = 0 then Inl DivByZero
      else
        let n = (sz * 16) div h_req_bytes h;
            h1 = fold (\<lambda>i hh. push_trans id (generate_trans READ_trace HOST PIM 0 (of_nat i) n layer cmd hh)) [0..<unat n] h in
        case wait_read_responses n 0 h1 of
          (Inl r, h2) \<Rightarrow> Inr (Host_add_read layer cmd nxt sz n r, h2, g)
        | (Inr _, h2) \<Rightarrow> Inr (Host_add_compute layer cmd nxt sz (hc_host_profile cfg ''addertree''), h2, g))"

definition execute_addertree :: "HostConfig \<Rightarrow> string \<Rightarrow> string \<Rightarrow> DeviceType \<Rightarrow> Host \<Rightarrow> Sim \<Rightarrow> (host_pc \<times> Host \<times> Sim) res" where
  "execute_addertree cfg layer cmd nxt h g =
     (case map_of (hc_pim_sync cfg) layer of
        None \<Rightarrow> Inl (Thrown (''Missing PIM completion mapping for layer: '' @ layer))
      | Some (i, sz, _) \<Rightarrow>
          case wait_sync_signal i PIM g of
            (True, g1) \<Rightarrow> Inr (Host_add_sync layer cmd nxt sz, h, g1)
          | (False, g1) \<Rightarrow> addertree_read cfg layer cmd nxt sz h g1)"

text \<open>\<^verbatim>\<open>handle_pim_trace\<close>: the commands of a layer after its waits.\<close>

definition pim_commands :: "HostConfig \<Rightarrow> TimeConv \<Rightarrow> ps_time \<Rightarrow> string \<Rightarrow> string \<Rightarrow> Host \<Rightarrow> Sim \<Rightarrow> (host_pc \<times> Host \<times> Sim) res" where
  "pim_commands cfg tc now layer cmd h g =
     (case hc_pim_profile cfg layer of
        None \<Rightarrow> Inl OutOfRange
      | Some p \<Rightarrow>
          bindE (cmd_at p cmd) (\<lambda>(d, n).
          let delay = (if cmd = ''mac'' then mac_delay (hc_floats cfg) d else d);
              tiles = (case hc_tiles cfg layer of None \<Rightarrow> 0 | Some k \<Rightarrow> k);
              finishes = (unat (h_cmd_id h) = cmd_map_size p * unat tiles);
              g1 = log_with (update_start tc now layer HOST) g;
              h1 = fold (\<lambda>i hh. push_trans (\<lambda>t. t\<lparr>gp_last := (finishes \<and> of_nat i = n - 1)\<rparr>)
                              (generate_trans PIM_trace HOST PIM delay (of_nat i) n layer cmd hh)) [0..<unat n] h in
          Inr (end_iteration g1, h1\<lparr>h_cmd_id := (if finishes \<and> n > 0 then 0 else h_cmd_id h1)\<rparr>, g1)))"

definition pim_after_wait :: "HostConfig \<Rightarrow> TimeConv \<Rightarrow> ps_time \<Rightarrow> string \<Rightarrow> string \<Rightarrow> Host \<Rightarrow> Sim \<Rightarrow> (host_pc \<times> Host \<times> Sim) res" where
  "pim_after_wait cfg tc now layer cmd h g =
     (if contains ''RoPE'' layer then
        if layer \<noteq> h_previous_layer h then
          if is_pim_busy g then Inr (Host_pim_busy layer cmd, h, g)
          else pim_commands cfg tc now layer cmd (h\<lparr>h_previous_layer := layer\<rparr>) (g\<lparr>is_pim_busy := True\<rparr>)
        else pim_commands cfg tc now layer cmd h g
      else pim_commands cfg tc now layer cmd h g)"

fun pim_waits :: "HostConfig \<Rightarrow> TimeConv \<Rightarrow> ps_time \<Rightarrow> string \<Rightarrow> string \<Rightarrow> u32 list \<Rightarrow> Host \<Rightarrow> Sim \<Rightarrow> (host_pc \<times> Host \<times> Sim) res" where
  "pim_waits cfg tc now layer cmd [] h g = pim_after_wait cfg tc now layer cmd h g"
| "pim_waits cfg tc now layer cmd (i # is) h g =
     (case wait_sync_signal i PIM g of
        (True, g1) \<Rightarrow> Inr (Host_pim_sync layer cmd is, h, g1)
      | (False, g1) \<Rightarrow> pim_waits cfg tc now layer cmd is h g1)"

definition handle_pim_trace :: "HostConfig \<Rightarrow> TimeConv \<Rightarrow> ps_time \<Rightarrow> string \<Rightarrow> string \<Rightarrow> DeviceType \<Rightarrow> Host \<Rightarrow> Sim \<Rightarrow> (host_pc \<times> Host \<times> Sim) res" where
  "handle_pim_trace cfg tc now layer cmd nxt h g =
     (if cmd = ''addertree'' then execute_addertree cfg layer cmd nxt h g
      else
        case hc_pim_profile cfg layer of
          None \<Rightarrow> Inl OutOfRange
        | Some p \<Rightarrow>
            bindE (cmd_at p cmd) (\<lambda>_.
            pim_waits cfg tc now layer cmd (map (fst \<circ> snd) (filter (\<lambda>e. fst e = layer) (hc_pim_wait cfg)))
              (h\<lparr>h_cmd_id := h_cmd_id h + 1\<rparr>) g))"

definition process_trace :: "HostConfig \<Rightarrow> TimeConv \<Rightarrow> ps_time \<Rightarrow> Host \<Rightarrow> Sim \<Rightarrow> (host_pc \<times> Host \<times> Sim) res" where
  "process_trace cfg tc now h g =
     (case h_trace_q h of
        [] \<Rightarrow> Inr (end_iteration g, h, g)
      | tr # q \<Rightarrow>
          let h1 = h\<lparr>h_trace_q := q\<rparr> in
          case tr of
            MemoryTrace ty i src dst sz a layer \<Rightarrow> handle_memory_trace tc now tr h1 g
          | ComputeTrace device layer \<Rightarrow> Inr (handle_compute_trace cfg tc now device layer h1 g)
          | PimTrace layer cmd nxt \<Rightarrow> handle_pim_trace cfg tc now layer cmd nxt h1 g
          | SpeculativeTrace layer \<Rightarrow> handle_speculative_trace cfg tc now h1 g
          | SimTrace layer \<Rightarrow> let g1 = g\<lparr>active_host := 0\<rparr> in Inr (end_iteration g1, h1, g1))"

text \<open>
  The thread continues when what it waits for has happened.  The barrier waits for both events, each since the barrier was reached.
\<close>

definition host_resume :: "HostConfig \<Rightarrow> TimeConv \<Rightarrow> ps_time \<Rightarrow> host_pc \<Rightarrow> Host \<Rightarrow> Sim \<Rightarrow> (host_pc \<times> Host \<times> Sim) res" where
  "host_resume cfg tc now pc h g =
     (case pc of
        Host_idle \<Rightarrow> process_trace cfg tc now h g
      | Host_barrier layer rest pim npu \<Rightarrow>
          if pim \<and> npu then next_control cfg tc now rest h (log_with (update_end tc now layer HOST) g) else Inr (pc, h, g)
      | Host_mem_sync tr \<Rightarrow> memory_body tc now tr h g
      | Host_mem_compute tr \<Rightarrow> memory_body tc now tr h g
      | Host_mem_read n r \<Rightarrow>
          (case wait_read_responses n r h of
             (Inl r', h1) \<Rightarrow> Inr (Host_mem_read n r', h1, g)
           | (Inr _, h1) \<Rightarrow> Inr (end_iteration g, h1, g))
      | Host_compute layer d \<Rightarrow> Inr (compute_finished tc now layer h g)
      | Host_add_sync layer cmd nxt sz \<Rightarrow> addertree_read cfg layer cmd nxt sz h g
      | Host_add_read layer cmd nxt sz n r \<Rightarrow>
          (case wait_read_responses n r h of
             (Inl r', h1) \<Rightarrow> Inr (Host_add_read layer cmd nxt sz n r', h1, g)
           | (Inr _, h1) \<Rightarrow> Inr (Host_add_compute layer cmd nxt sz (hc_host_profile cfg ''addertree''), h1, g))
      | Host_add_compute layer cmd nxt sz d \<Rightarrow> addertree_write layer cmd nxt sz h g
      | Host_pim_sync layer cmd is \<Rightarrow> pim_waits cfg tc now layer cmd is h g
      | Host_pim_busy layer cmd \<Rightarrow> pim_commands cfg tc now layer cmd (h\<lparr>h_previous_layer := layer\<rparr>) (g\<lparr>is_pim_busy := True\<rparr>)
      | Host_stopped \<Rightarrow> Inr (Host_stopped, h, g))"

datatype host_op = Host_run ps_time | Host_pim_done | Host_npu_done | Host_negedge | Host_response payload

fun host_step :: "HostConfig \<Rightarrow> TimeConv \<Rightarrow> host_op \<Rightarrow> host_pc \<times> Host \<times> Sim \<Rightarrow> ((nat \<times> payload) list \<times> host_pc \<times> Host \<times> Sim) res" where
  "host_step cfg tc (Host_run now) (pc, h, g) = bindE (host_resume cfg tc now pc h g) (\<lambda>s. Inr ([], s))"
| "host_step cfg tc Host_pim_done (pc, h, g) =
     Inr ([], (case pc of Host_barrier l rest pim npu \<Rightarrow> Host_barrier l rest True npu | _ \<Rightarrow> pc), h, g)"
| "host_step cfg tc Host_npu_done (pc, h, g) =
     Inr ([], (case pc of Host_barrier l rest pim npu \<Rightarrow> Host_barrier l rest pim True | _ \<Rightarrow> pc), h, g)"
| "host_step cfg tc Host_negedge (pc, h, g) = (case host_clock_negedge h of (out, h1) \<Rightarrow> Inr (out, pc, h1, g))"
| "host_step cfg tc (Host_response t) (pc, h, g) = Inr ([], pc, host_peq_cb t h, g)"

fun host_steps :: "HostConfig \<Rightarrow> TimeConv \<Rightarrow> host_op list \<Rightarrow> host_pc \<times> Host \<times> Sim \<Rightarrow> ((nat \<times> payload) list \<times> host_pc \<times> Host \<times> Sim) res" where
  "host_steps cfg tc [] s = Inr ([], s)"
| "host_steps cfg tc (x # xs) s =
     bindE (host_step cfg tc x s) (\<lambda>(out, s1). bindE (host_steps cfg tc xs s1) (\<lambda>(outs, s2). Inr (out @ outs, s2)))"

section \<open>The length of the stream\<close>

lemma concat_res_length:
  assumes "\<And>x ys. f x = Inr ys \<Longrightarrow> length ys = n"
  shows "concat_res f xs = Inr zs \<Longrightarrow> length zs = length xs * n"
  by (induction xs arbitrary: zs) (auto simp: res_simps assms)

lemma command_bursts_length:
  "commands_per_tile p ns = Inr n \<Longrightarrow> concat_res (command_bursts fl p nm layer) ns = Inr xs \<Longrightarrow> n = of_nat (length xs)"
  by (induction ns arbitrary: n xs) (auto simp: res_simps command_bursts_def split: prod.splits)

lemma tile_bursts_length:
  assumes "commands_per_tile p (ordered_cmd_name p) = Inr n" "tile_bursts fl p k nm layer = Inr xs"
  shows "of_nat (length xs) = (ucast k * n :: u64)"
proof (cases "k = 0")
  case False
  then obtain ys where y: "concat_res (command_bursts fl p nm layer) (ordered_cmd_name p) = Inr ys"
    using assms(2) by (cases "concat_res (command_bursts fl p nm layer) (ordered_cmd_name p)")
      (auto simp: tile_bursts_def upt_conv_Cons unat_gt_0)
  have "length xs = length [0..<unat k] * length ys"
    using assms(2) unfolding tile_bursts_def by (rule concat_res_length [rotated]) (use y in simp)
  then show ?thesis using command_bursts_length [OF assms(1) y] by (simp add: unsigned_of_nat)
qed (use assms in \<open>simp add: tile_bursts_def\<close>)

lemma op_stream_length:
  assumes "op_transactions cfg w x = Inr n" "op_stream cfg c w i x = Inr xs"
  shows "n = of_nat (length xs)"
proof (cases "op_profile cfg (op_name x)")
  case (Some e)
  obtain p tiles where e: "e = (p, tiles)" by (cases e)
  show ?thesis
  proof (cases "aggregate_micro cfg")
    case False
    then show ?thesis
      using assms Some e tile_bursts_length [of p] by (auto simp: op_transactions_def op_stream_def res_simps Let_def)
  qed (use assms Some e in \<open>auto simp: op_transactions_def op_stream_def res_simps Let_def split: prod.splits\<close>)
qed (use assms in \<open>simp_all add: op_transactions_def op_stream_def\<close>)

lemma sum_res_length:
  assumes "\<And>x a ys. f x = Inr a \<Longrightarrow> g x = Inr ys \<Longrightarrow> of_nat (length ys) = a * k"
  shows "sum_res f xs = Inr b \<Longrightarrow> concat_res g xs = Inr zs \<Longrightarrow> of_nat (length zs) = b * k"
proof (induction xs arbitrary: b zs)
  case (Cons x xs)
  then obtain a b' ys zs' where "f x = Inr a" "g x = Inr ys" "sum_res f xs = Inr b'" "concat_res g xs = Inr zs'" "b = a + b'" "zs = ys @ zs'"
    by (auto simp: res_simps)
  then show ?case using assms Cons.IH by (simp add: algebra_simps)
qed simp

lemma synthetic_stream_length:
  assumes "per_decoder_layer_transactions cfg items = Inr n" "synthetic_stream cfg c items = Inr xs"
  shows "of_nat (length xs) = n * ucast (simulated_layer_count cfg)"
proof -
  have layer: "of_nat (length zs) = b" if "sum_res (op_transactions cfg w) (operations (hc_draft cfg)) = Inr b"
      "concat_res (op_stream cfg c w i) (operations (hc_draft cfg)) = Inr zs" for w i b zs
    using sum_res_length [where k = 1, OF _ that] op_stream_length by simp
  have item: "of_nat (length ys) = a * ucast (simulated_layer_count cfg)"
    if "sum_res (op_transactions cfg w) (operations (hc_draft cfg)) = Inr a"
      "concat_res (\<lambda>i. concat_res (op_stream cfg c w i) (operations (hc_draft cfg))) [0..<unat (simulated_layer_count cfg)] = Inr ys" for w a ys
  proof -
    have "of_nat (length zs) = of_nat (length ks) * a"
      if "concat_res (\<lambda>i. concat_res (op_stream cfg c w i) (operations (hc_draft cfg))) ks = Inr zs" for ks zs
      using that by (induction ks arbitrary: zs) (auto simp: res_simps algebra_simps layer [OF \<open>sum_res _ _ = Inr a\<close>])
    from this [OF that(2)] show ?thesis by (simp add: unsigned_of_nat mult.commute)
  qed
  show ?thesis
    by (rule sum_res_length [OF item assms(1) [unfolded per_decoder_layer_transactions_def] assms(2) [unfolded synthetic_stream_def]])
qed

lemma template_stream_length:
  assumes "commands_per_tile p (ordered_cmd_name p) = Inr n" "template_stream cfg c p k items = Inr xs"
  shows "of_nat (length xs) = (of_nat (length items) * ucast k * n :: u64)"
  using assms(2) unfolding template_stream_def
proof (induction items arbitrary: xs)
  case (Cons w ws)
  then show ?case by (auto simp: res_simps algebra_simps tile_bursts_length [OF assms(1)])
qed simp

section \<open>What a draft has to request\<close>

text \<open>
  The reference of the stream, without errors and counters: for every work item, decoder layer and operation with a profile one macro command, or for
  every tile and every command of the profile in its order as many bursts as the profile says; without the synthetic device
  the same for the profile of the draft.
\<close>

definition profiled_command :: "PIMCmdProfile \<Rightarrow> string \<Rightarrow> u32 \<times> u32" where
  "profiled_command p n = (case cmd_map p n of Some e \<Rightarrow> e | None \<Rightarrow> (0, 0))"

definition tiled_commands :: "HostFloats \<Rightarrow> PIMCmdProfile \<Rightarrow> nat \<Rightarrow> string \<Rightarrow> string \<Rightarrow> draft_cmd list" where
  "tiled_commands fl p tiles nm layer =
     [(scaled_delay fl nm (fst (profiled_command p n)), of_nat b, snd (profiled_command p n), layer, n).
        tile \<leftarrow> [0..<tiles], n \<leftarrow> ordered_cmd_name p, b \<leftarrow> [0..<unat (snd (profiled_command p n))]]"

definition macro_command :: "HostConfig \<Rightarrow> PIMCmdProfile \<Rightarrow> u32 \<Rightarrow> string \<Rightarrow> string \<Rightarrow> draft_cmd" where
  "macro_command cfg p tiles nm layer =
     (let runs = (\<lambda>n. ucast (snd (profiled_command p n)) * ucast tiles * ucast (layer_multiplier cfg)) in
      (ucast (macro_delay_ns (hc_floats cfg) nm (\<Sum>n \<leftarrow> ordered_cmd_name p. ucast (fst (profiled_command p n)) * runs n)
         (\<Sum>n \<leftarrow> ordered_cmd_name p. runs n)),
       0, 1, layer, ''macro('' @ to_string (unat (layer_multiplier cfg)) @ ''x'' @ nm @ '')''))"

definition context_tiles :: "HostConfig \<Rightarrow> ModelOperationInfo \<Rightarrow> DraftWorkItem \<Rightarrow> u32" where
  "context_tiles cfg x w =
     (let tile = attention_context_tile_tokens (hc_draft cfg) in
      if op_name x \<in> {''qkt'', ''sv''} then max 1 ((context_tokens w + tile - 1) div tile) else 1)"

definition op_requests :: "HostConfig \<Rightarrow> SpeculativeControl \<Rightarrow> DraftWorkItem \<Rightarrow> nat \<Rightarrow> ModelOperationInfo \<Rightarrow> draft_cmd list" where
  "op_requests cfg c w i x =
     (case (hc_pim_profile cfg (op_name x), hc_tiles cfg (op_name x)) of
        (Some p, Some tiles) \<Rightarrow>
          (if aggregate_micro cfg then [macro_command cfg p (tiles * context_tiles cfg x w) (op_name x) (draft_layer_name cfg c w i x)]
           else tiled_commands (hc_floats cfg) p (unat (tiles * context_tiles cfg x w)) (op_name x) (draft_layer_name cfg c w i x))
      | _ \<Rightarrow> [])"

definition draft_requests :: "HostConfig \<Rightarrow> SpeculativeControl \<Rightarrow> draft_cmd list" where
  "draft_requests cfg c =
     (if spi_enabled (hc_pim cfg) then
        [r. w \<leftarrow> draft_work_items c, i \<leftarrow> [0..<unat (simulated_layer_count cfg)], x \<leftarrow> operations (hc_draft cfg), r \<leftarrow> op_requests cfg c w i x]
      else
        case (hc_pim_profile cfg (draft_profile_layer (hc_spec cfg)), hc_tiles cfg (draft_profile_layer (hc_spec cfg))) of
          (Some p, Some tiles) \<Rightarrow>
            [r. w \<leftarrow> draft_work_items c,
                r \<leftarrow> tiled_commands (hc_floats cfg) p (unat tiles) (draft_profile_layer (hc_spec cfg)) (draft_profile_layer (hc_spec cfg) @ work_suffix c w)]
        | _ \<Rightarrow> [])"

text \<open>The generation, with its errors: what the loops enqueue is the reference.\<close>

definition draft_cmds :: "HostConfig \<Rightarrow> SpeculativeControl \<Rightarrow> draft_cmd list res" where
  "draft_cmds cfg c =
     (if spi_enabled (hc_pim cfg) then synthetic_stream cfg c (draft_work_items c)
      else case op_profile cfg (draft_profile_layer (hc_spec cfg)) of
             None \<Rightarrow> Inl NullPointer
           | Some (p, tile_count) \<Rightarrow> template_stream cfg c p tile_count (draft_work_items c))"

lemma concat_res_concat:
  assumes "\<And>x ys. f x = Inr ys \<Longrightarrow> ys = g x" "concat_res f xs = Inr zs"
  shows "zs = concat (map g xs)"
  using assms(2) by (induction xs arbitrary: zs) (auto simp: res_simps assms(1))

lemma tile_bursts_reference:
  assumes "tile_bursts fl p k nm layer = Inr xs"
  shows "xs = tiled_commands fl p (unat k) nm layer"
proof -
  let ?b = "\<lambda>n. map (\<lambda>b. (scaled_delay fl nm (fst (profiled_command p n)), of_nat b, snd (profiled_command p n), layer, n))
    [0..<unat (snd (profiled_command p n))]"
  have "ys = ?b n" if "command_bursts fl p nm layer n = Inr ys" for n ys
    using that by (auto simp: command_bursts_def cmd_at_def profiled_command_def res_simps split: option.splits)
  then have "ys = concat (map ?b (ordered_cmd_name p))" if "concat_res (command_bursts fl p nm layer) (ordered_cmd_name p) = Inr ys" for ys
    using that by (rule concat_res_concat)
  then show ?thesis
    unfolding tiled_commands_def by (rule concat_res_concat [OF _ assms [unfolded tile_bursts_def]])
qed

lemma summed_delay_sums:
  assumes "summed_delay p tiles mul ns = Inr (d, k)"
  shows "d = (\<Sum>n \<leftarrow> ns. ucast (fst (profiled_command p n)) * (ucast (snd (profiled_command p n)) * ucast tiles * ucast mul))
    \<and> k = (\<Sum>n \<leftarrow> ns. ucast (snd (profiled_command p n)) * ucast tiles * ucast mul)"
  using assms
  by (induction ns arbitrary: d k) (auto simp: res_simps cmd_at_def profiled_command_def mult.assoc split: option.splits prod.splits)

lemma op_stream_reference:
  assumes "op_stream cfg c w i x = Inr xs"
  shows "xs = op_requests cfg c w i x"
proof -
  have t: "draft_attention_tiles (hc_draft cfg) x w = Inr a \<Longrightarrow> a = context_tiles cfg x w" for a
    by (auto simp: draft_attention_tiles_def context_tiles_def Let_def split: if_splits)
  show ?thesis
    using assms
    by (auto simp: op_stream_def op_requests_def op_profile_def macro_command_def Let_def res_simps
        dest!: t tile_bursts_reference summed_delay_sums split: option.splits if_splits prod.splits)
qed

lemma draft_cmds_reference:
  assumes "draft_cmds cfg c = Inr cmds"
  shows "cmds = draft_requests cfg c"
proof (cases "spi_enabled (hc_pim cfg)")
  case True
  have l: "ys = concat (map (op_requests cfg c w i) (operations (hc_draft cfg)))"
    if "concat_res (op_stream cfg c w i) (operations (hc_draft cfg)) = Inr ys" for w i ys
    using that by (rule concat_res_concat [rotated]) (rule op_stream_reference)
  have "ys = concat (map (\<lambda>i. concat (map (op_requests cfg c w i) (operations (hc_draft cfg)))) ks)"
    if "concat_res (\<lambda>i. concat_res (op_stream cfg c w i) (operations (hc_draft cfg))) ks = Inr ys" for w ks ys
    using that by (rule concat_res_concat [rotated]) (rule l)
  moreover have "concat_res (\<lambda>w. concat_res (\<lambda>i. concat_res (op_stream cfg c w i) (operations (hc_draft cfg)))
      [0..<unat (simulated_layer_count cfg)]) (draft_work_items c) = Inr cmds" using assms True by (simp add: draft_cmds_def synthetic_stream_def)
  ultimately have "cmds = concat (map (\<lambda>w. concat (map (\<lambda>i. concat (map (op_requests cfg c w i) (operations (hc_draft cfg))))
      [0..<unat (simulated_layer_count cfg)])) (draft_work_items c))" by (rule concat_res_concat)
  then show ?thesis using True by (simp add: draft_requests_def)
next
  case False
  then obtain p k where p: "op_profile cfg (draft_profile_layer (hc_spec cfg)) = Some (p, k)" "template_stream cfg c p k (draft_work_items c) = Inr cmds"
    using assms by (auto simp: draft_cmds_def split: option.splits)
  from concat_res_concat [OF tile_bursts_reference p(2) [unfolded template_stream_def]] p(1) False show ?thesis
    by (auto simp: draft_requests_def op_profile_def split: option.splits)
qed

section \<open>The generated requests\<close>

definition draft_sig :: "payload \<Rightarrow> u64 \<times> u32 \<times> u32 \<times> string \<times> string" where
  "draft_sig t = (gp_address t, bst_id t, bst_size t, gp_layer t, pim_cmd t)"

definition draft_payload :: "payload \<Rightarrow> bool" where
  "draft_payload t = (gp_command t = TLM_PIM \<and> src_id t = HOST \<and> dst_id t = PIM)"

lemma emit_stream_spec:
  "\<exists>ts. h_pending_q (emit_stream tot k cmds h) = h_pending_q h @ ts \<and> length ts = length cmds
    \<and> map draft_sig ts = map (\<lambda>(a, bid, bsz, layer, cmd). (ucast a, bid, bsz, layer, cmd)) cmds
    \<and> list_all draft_payload ts \<and> map gp_last ts = map (\<lambda>i. k + of_nat i + 1 = tot) [0..<length cmds]
    \<and> h_trace_q (emit_stream tot k cmds h) = h_trace_q h"
proof (induction cmds arbitrary: k h)
  case (Cons e cmds)
  obtain a bid bsz layer cmd where e: "e = (a, bid, bsz, layer, cmd)" by (metis prod_cases5)
  let ?th = "generate_trans PIM_trace HOST PIM a bid bsz layer cmd h"
  let ?h = "push_trans (\<lambda>t. t\<lparr>gp_last := (k + 1 = tot)\<rparr>) ?th"
  obtain p pool where "mm_allocate (h_mm h) = (p, pool)" by (cases "mm_allocate (h_mm h)")
  then obtain t where t: "h_pending_q ?h = h_pending_q h @ [t]" "draft_sig t = (ucast a, bid, bsz, layer, cmd)" "draft_payload t"
    "gp_last t = (k + 1 = tot)" "h_trace_q ?h = h_trace_q h"
    by (auto simp: push_trans_def generate_trans_def Let_def draft_sig_def draft_payload_def)
  obtain ts where ts: "h_pending_q (emit_stream tot (k + 1) cmds ?h) = h_pending_q ?h @ ts" "length ts = length cmds"
    "map draft_sig ts = map (\<lambda>(a, bid, bsz, layer, cmd). (ucast a, bid, bsz, layer, cmd)) cmds" "list_all draft_payload ts"
    "map gp_last ts = map (\<lambda>i. k + 1 + of_nat i + 1 = tot) [0..<length cmds]"
    "h_trace_q (emit_stream tot (k + 1) cmds ?h) = h_trace_q ?h"
    using Cons.IH [of "k + 1" ?h] by blast
  have "map (\<lambda>i. k + of_nat i + 1 = tot) [0..<length (e # cmds)] = (k + 1 = tot) # map (\<lambda>i. k + 1 + of_nat i + 1 = tot) [0..<length cmds]"
    by (simp add: upt_conv_Cons map_Suc_upt [symmetric] comp_def algebra_simps del: upt_Suc)
  then show ?case using t ts by (intro exI [of _ "t # ts"]) (simp add: e)
qed simp

lemma last_marked:
  assumes "0 < n" "n < 2 ^ 64"
  shows "map (\<lambda>i. 0 + of_nat i + 1 = (of_nat n :: u64)) [0..<n] = replicate (n - 1) False @ [True]"
proof (rule nth_equalityI)
  fix i assume i: "i < length (map (\<lambda>i. 0 + of_nat i + 1 = (of_nat n :: u64)) [0..<n])"
  have "(0 + of_nat i + 1 = (of_nat n :: u64)) \<longleftrightarrow> of_nat (Suc i) = (of_nat n :: u64)" by (simp add: add.commute)
  also have "\<dots> \<longleftrightarrow> Suc i = n"
  proof -
    have "unat (of_nat m :: u64) = m" if "m < 2 ^ 64" for m using that by (simp add: unat_of_nat take_bit_nat_eq_self)
    then show ?thesis using i assms(2) by (metis Suc_leI length_map length_upt diff_zero le_less_trans)
  qed
  finally show "map (\<lambda>i. 0 + of_nat i + 1 = (of_nat n :: u64)) [0..<n] ! i = (replicate (n - 1) False @ [True]) ! i"
    using i by (auto simp: nth_append)
qed (use assms in simp)

section \<open>A concrete configuration\<close>

definition host_control :: "u32 \<Rightarrow> SpeculativeControl" where
  "host_control i = control_default\<lparr>iteration := i, algorithm := ''ssd'', draft_overlaps_target := True, draft_kv_cache_tokens := 7, draft_tree_steps := 2,
     draft_tree_query_tokens := 3, draft_proposal_count := 3, draft_fan_out_list := [2, 1], target_query_tokens := 1\<rparr>"

definition host_config :: HostConfig where
  "host_config = \<lparr>hc_spec = sample_spec_info,
     hc_pim = \<lparr>spi_enabled = True, aggregate_micro_commands = True, pim_fast_layer_mode = False, pim_fast_macro = False\<rparr>,
     hc_draft = sample_layers\<lparr>layer_count := 1, attention_context_tile_tokens := 128\<rparr>, hc_host_profile = (\<lambda>_. 1),
     hc_pim_profile = [''qkt'' \<mapsto> \<lparr>cmd_map = [''mac'' \<mapsto> (5, 2), ''rd'' \<mapsto> (3, 1)], cmd_map_size = 2, ordered_cmd_name = [''mac'', ''rd'']\<rparr>],
     hc_tiles = [''qkt'' \<mapsto> 2], hc_pim_wait = [], hc_pim_sync = [], hc_controls = [host_control 0, host_control 1],
     hc_floats = \<lparr>scaled_delay = (\<lambda>_ d. d), macro_delay_ns = (\<lambda>_ d n. d), mac_delay = (\<lambda>d. d)\<rparr>\<rparr>"

definition host_state :: Host where
  "host_state = \<lparr>h_mm = mm_new, h_objects = np_objects sample_npu, h_cmd_id = 0, h_req_bytes = 64, h_active_cycle = 0, h_trace_q = [SimTrace []],
     h_pending_q = [], h_read_rsp_q = [], h_compute_done = (\<lambda>_. False), h_previous_layer = []\<rparr>"

definition host_sim :: Sim where
  "host_sim = \<lparr>active_host = 1, active_core = 1, active_dram = 1, is_pim_busy = False, dram_sync_obj = SyncObject_new,
     pim_sync_obj = SyncObject_new, sim_logger = Logger_new, sim_metrics = PerformanceMetrics_new\<rparr>"

section \<open>Properties\<close>

lemma emit_all_marked:
  assumes "length cmds < 2 ^ 64"
  shows "\<exists>ts. h_pending_q (emit_stream (of_nat (length cmds)) 0 cmds h) = h_pending_q h @ ts \<and> list_all draft_payload ts
    \<and> map draft_sig ts = map (\<lambda>(a, bid, bsz, layer, cmd). (ucast a, bid, bsz, layer, cmd)) cmds
    \<and> map gp_last ts = map (\<lambda>i. Suc i = length ts) [0..<length ts]"
proof -
  obtain ts where ts: "h_pending_q (emit_stream (of_nat (length cmds)) 0 cmds h) = h_pending_q h @ ts" "length ts = length cmds" "list_all draft_payload ts"
    "map draft_sig ts = map (\<lambda>(a, bid, bsz, layer, cmd). (ucast a, bid, bsz, layer, cmd)) cmds"
    "map gp_last ts = map (\<lambda>i. 0 + of_nat i + 1 = (of_nat (length cmds) :: u64)) [0..<length cmds]"
    using emit_stream_spec [of "of_nat (length cmds)" 0 cmds h] by blast
  have "map (\<lambda>i. 0 + of_nat i + 1 = (of_nat n :: u64)) [0..<n] = map (\<lambda>i. Suc i = n) [0..<n]" if "n < 2 ^ 64" for n
  proof (cases n)
    case (Suc m)
    then have "map (\<lambda>i. Suc i = n) [0..<n] = replicate (n - 1) False @ [True]" by (intro nth_equalityI) (auto simp: nth_append)
    then show ?thesis using last_marked [of n] that Suc by simp
  qed simp
  from this [OF assms] ts show ?thesis by (intro exI [of _ ts]) simp
qed

lemma launch_draft_counts:
  assumes "launch_draft cfg c h = Inr h'"
  shows "\<exists>cmds. draft_cmds cfg c = Inr cmds \<and> h' = emit_stream (of_nat (length cmds)) 0 cmds h \<and> (spi_enabled (hc_pim cfg) \<longrightarrow> cmds \<noteq> [])"
proof (cases "spi_enabled (hc_pim cfg)")
  case True
  then obtain n cmds where n: "per_decoder_layer_transactions cfg (draft_work_items c) = Inr n" "n * ucast (simulated_layer_count cfg) \<noteq> 0"
    "synthetic_stream cfg c (draft_work_items c) = Inr cmds" "h' = emit_stream (n * ucast (simulated_layer_count cfg)) 0 cmds h"
    using assms by (auto simp: launch_draft_def Let_def res_simps split: if_splits)
  have "n * ucast (simulated_layer_count cfg) = of_nat (length cmds)" using synthetic_stream_length [OF n(1,3)] by simp
  with n True show ?thesis by (auto simp: draft_cmds_def)
next
  case False
  then obtain p k n cmds where p: "op_profile cfg (draft_profile_layer (hc_spec cfg)) = Some (p, k)" "commands_per_tile p (ordered_cmd_name p) = Inr n"
    "template_stream cfg c p k (draft_work_items c) = Inr cmds" "h' = emit_stream (of_nat (length (draft_work_items c)) * ucast k * n) 0 cmds h"
    using assms by (auto simp: launch_draft_def Let_def res_simps split: option.splits)
  show ?thesis using p(1,3,4) False by (simp add: draft_cmds_def template_stream_length [OF p(2,3)])
qed

text \<open>
  Claim C8. The draft stream is complete and ends: when the host launches the draft of a control record, with the synthetic device or
  from the profile of the draft, the requests it enqueues are the reference stream, for every work item, decoder layer, operation, tile
  and command in their order; none is marked as the last but the final one, although its number is
  computed by other loops than those that generate the stream; and with the synthetic device there is always a final one.
\<close>

theorem draft_stream_ends:
  assumes "launch_draft cfg c h = Inr h'" "length (draft_requests cfg c) < 2 ^ 64"
  shows "\<exists>ts. h_pending_q h' = h_pending_q h @ ts \<and> list_all draft_payload ts
    \<and> map draft_sig ts = map (\<lambda>(a, bid, bsz, layer, cmd). (ucast a, bid, bsz, layer, cmd)) (draft_requests cfg c)
    \<and> map gp_last ts = map (\<lambda>i. Suc i = length ts) [0..<length ts]
    \<and> (spi_enabled (hc_pim cfg) \<longrightarrow> ts \<noteq> [])"
proof -
  obtain cmds where c: "draft_cmds cfg c = Inr cmds" "h' = emit_stream (of_nat (length cmds)) 0 cmds h" "spi_enabled (hc_pim cfg) \<longrightarrow> cmds \<noteq> []"
    using launch_draft_counts [OF assms(1)] by blast
  note ref = draft_cmds_reference [OF c(1)]
  show ?thesis using emit_all_marked [OF assms(2), of h] c(2,3) unfolding ref by fastforce
qed

theorem draft_stream_ends_witness:
  "\<exists>h' ts. launch_draft host_config (host_control 0) host_state = Inr h' \<and> h_pending_q h' = ts
    \<and> map gp_last ts = [False, False, False, False, False, True] \<and> list_all (\<lambda>t. pim_cmd t = ''macro(1xqkt)'') ts"
proof -
  have "case launch_draft host_config (host_control 0) host_state of Inr _ \<Rightarrow> True | _ \<Rightarrow> False" by code_simp
  then obtain h' where h: "launch_draft host_config (host_control 0) host_state = Inr h'" by (auto split: sum.splits)
  have l: "length (draft_requests host_config (host_control 0)) = 6" by code_simp
  have n: "list_all (\<lambda>(a, bid, bsz, layer, cmd). cmd = ''macro(1xqkt)'') (draft_requests host_config (host_control 0))" by code_simp
  have "length (draft_requests host_config (host_control 0)) < 2 ^ 64" by (simp add: l)
  from draft_stream_ends [OF h this] obtain ts where ts: "h_pending_q h' = h_pending_q host_state @ ts"
    "map draft_sig ts = map (\<lambda>(a, bid, bsz, layer, cmd). (ucast a, bid, bsz, layer, cmd)) (draft_requests host_config (host_control 0))"
    "map gp_last ts = map (\<lambda>i. Suc i = length ts) [0..<length ts]" by blast
  have len: "length ts = 6" using map_eq_imp_length_eq [OF ts(2)] l by simp
  have "map gp_last ts = [False, False, False, False, False, True]" unfolding ts(3) len by (simp add: upt_rec)
  moreover have "list_all (\<lambda>(a, bid, bsz, layer, cmd). cmd = ''macro(1xqkt)'') (map draft_sig ts)"
    unfolding ts(2) using n by (auto simp: list_all_iff)
  then have "list_all (\<lambda>t. pim_cmd t = ''macro(1xqkt)'') ts" by (simp add: list_all_iff draft_sig_def)
  ultimately show ?thesis using h ts(1) by (intro exI [of _ h'] exI [of _ ts]) (simp add: host_state_def)
qed

lemma fan_out_sum:
  assumes "length ns < 2 ^ 32"
  shows "unat (fan_out_total ns) = (\<Sum>n \<leftarrow> ns. unat n)"
proof -
  have e: "fan_out_total ns = of_nat (\<Sum>n \<leftarrow> ns. unat n)" by (induction ns) (simp_all add: fan_out_total_def unsigned_of_nat)
  have "unat n \<le> 2 ^ 32 - 1" for n :: u32 using u32_less [of n] by simp
  then have "(\<Sum>n \<leftarrow> ns. unat n) \<le> length ns * (2 ^ 32 - 1)" by (induction ns) (simp_all add: add_mono)
  also have "\<dots> < 2 ^ 64" using assms by simp
  finally show ?thesis unfolding e by (simp add: unat_of_nat take_bit_nat_eq_self)
qed

lemma length_concat_const: "(\<And>x. x \<in> set xs \<Longrightarrow> length (f x) = n) \<Longrightarrow> length (concat (map f xs)) = length xs * n"
  by (induction xs) auto

text \<open>
  The draft work of a valid record: a PEARL draft processes one token after the other, each with one more token of
  context; an SSD draft processes in every tree step every branch of the tree, in total the number of tree steps times the query tokens that
  the record declares.
\<close>

theorem draft_work_exact:
  assumes "control_ok c" "length (draft_fan_out_list c) < 2 ^ 32"
  shows "(algorithm c = ''ssd'' \<longrightarrow> length (draft_work_items c) = unat (draft_tree_steps c) * unat (draft_tree_query_tokens c))
    \<and> (algorithm c \<noteq> ''ssd'' \<longrightarrow>
         map context_tokens (draft_work_items c) = map (\<lambda>k. draft_kv_cache_tokens c + of_nat k) [0..<unat (draft_proposal_count c)])"
proof (intro conjI impI)
  assume ssd: "algorithm c = ''ssd''"
  let ?ns = "draft_fan_out_list c"
  have step: "length (concat (map (\<lambda>depth. map (g depth) [0..<unat (?ns ! depth)]) [0..<length ?ns])) = (\<Sum>n \<leftarrow> ?ns. unat n)"
    for g :: "nat \<Rightarrow> nat \<Rightarrow> DraftWorkItem"
    by (simp add: length_concat comp_def sum_list_sum_nth atLeast0LessThan interv_sum_list_conv_sum_set_nat)
  have "fan_out_total ?ns = ucast (draft_tree_query_tokens c)" using assms(1) ssd by (simp add: control_ok_def)
  then have "(\<Sum>n \<leftarrow> ?ns. unat n) = unat (ucast (draft_tree_query_tokens c) :: u64)" using fan_out_sum [OF assms(2)] by simp
  also have "\<dots> = unat (draft_tree_query_tokens c)" using u32_less [of "draft_tree_query_tokens c"] by (simp add: unsigned_ucast_eq take_bit_nat_eq_self)
  finally show "length (draft_work_items c) = unat (draft_tree_steps c) * unat (draft_tree_query_tokens c)"
    using ssd by (simp add: draft_work_items_def length_concat_const [where n = "unat (draft_tree_query_tokens c)"] step)
qed (simp add: draft_work_items_def)

theorem draft_work_exact_witness: "length (draft_work_items (host_control 0)) = 6"
proof -
  have "control_ok (host_control 0)" by code_simp
  moreover have "length (draft_fan_out_list (host_control 0)) < 2 ^ 32" by (simp add: host_control_def)
  ultimately have "length (draft_work_items (host_control 0)) = unat (draft_tree_steps (host_control 0)) * unat (draft_tree_query_tokens (host_control 0))"
    using draft_work_exact [of "host_control 0"] by (simp add: host_control_def)
  then show ?thesis by (simp add: host_control_def)
qed

section \<open>The barrier\<close>

definition launch_mark :: "payload \<Rightarrow> DeviceType \<times> DeviceType \<times> tlm_command \<times> string" where
  "launch_mark t = (src_id t, dst_id t, gp_command t, gp_layer t)"

text \<open>What a control record launches: the target run, then the draft stream.\<close>

definition launch_spec :: "HostConfig \<Rightarrow> SpeculativeControl \<Rightarrow> (DeviceType \<times> DeviceType \<times> tlm_command \<times> string) list" where
  "launch_spec cfg c =
     (HOST, NPU, TLM_COMPUTE, ''target.'' @ sample_prefix c)
     # (case draft_cmds cfg c of Inr cmds \<Rightarrow> map (\<lambda>(a, bid, bsz, layer, cmd). (HOST, PIM, TLM_PIM, layer)) cmds | Inl _ \<Rightarrow> [])"

lemma emit_stream_marks:
  "map launch_mark (h_pending_q (emit_stream tot k cmds h)) = map launch_mark (h_pending_q h) @ map (\<lambda>(a, bid, bsz, layer, cmd). (HOST, PIM, TLM_PIM, layer)) cmds"
proof -
  obtain ts where ts: "h_pending_q (emit_stream tot k cmds h) = h_pending_q h @ ts" "list_all draft_payload ts"
    "map draft_sig ts = map (\<lambda>(a, bid, bsz, layer, cmd). (ucast a, bid, bsz, layer, cmd)) cmds"
    using emit_stream_spec [of tot k cmds h] by blast
  let ?l = "\<lambda>(a :: u64, bid :: u32, bsz :: u32, layer :: string, cmd :: string). (HOST, PIM, TLM_PIM, layer)"
  have "map launch_mark ts = map (?l \<circ> draft_sig) ts"
    using ts(2) by (auto simp: launch_mark_def draft_sig_def draft_payload_def list_all_iff)
  also have "\<dots> = map (\<lambda>(a, bid, bsz, layer, cmd). (HOST, PIM, TLM_PIM, layer)) cmds"
    unfolding map_map [symmetric] ts(3) by (auto simp: comp_def split: prod.splits)
  finally show ?thesis using ts(1) by simp
qed

lemma launch_spec_ok:
  assumes "launch_draft cfg c (launch_target c h) = Inr h'"
  shows "map launch_mark (h_pending_q h') = map launch_mark (h_pending_q h) @ launch_spec cfg c \<and> h_trace_q h' = h_trace_q h"
proof -
  obtain tot cmds where e: "draft_cmds cfg c = Inr cmds" "h' = emit_stream tot 0 cmds (launch_target c h)" using launch_draft_counts [OF assms] by blast
  obtain p pool where p: "mm_allocate (h_mm h) = (p, pool)" by (cases "mm_allocate (h_mm h)")
  have "map launch_mark (h_pending_q (launch_target c h)) = map launch_mark (h_pending_q h) @ [(HOST, NPU, TLM_COMPUTE, ''target.'' @ sample_prefix c)]"
    "h_trace_q (launch_target c h) = h_trace_q h" by (simp_all add: launch_target_def Let_def launch_mark_def p)
  moreover have "h_trace_q h' = h_trace_q (launch_target c h)" unfolding e(2) using emit_stream_spec [of tot 0 cmds "launch_target c h"] by blast
  ultimately show ?thesis unfolding e(2) emit_stream_marks launch_spec_def e(1) by simp
qed

text \<open>The control records that a point of the thread has still to launch.\<close>

fun unlaunched :: "host_pc \<Rightarrow> SpeculativeControl list" where
  "unlaunched (Host_barrier l rest pim npu) = rest"
| "unlaunched _ = []"

fun pim_dones :: "host_op list \<Rightarrow> nat" where
  "pim_dones [] = 0"
| "pim_dones (x # xs) = (if x = Host_pim_done then 1 else 0) + pim_dones xs"

fun npu_dones :: "host_op list \<Rightarrow> nat" where
  "npu_dones [] = 0"
| "npu_dones (x # xs) = (if x = Host_npu_done then 1 else 0) + npu_dones xs"

text \<open>The thread is at a barrier, or beyond the last one with nothing but terminations to replay.\<close>

definition speculating :: "host_pc \<Rightarrow> Host \<Rightarrow> bool" where
  "speculating pc h = ((\<forall>tr \<in> set (h_trace_q h). \<exists>l. tr = SimTrace l) \<and> (pc = Host_idle \<or> pc = Host_stopped \<or> (\<exists>l rest p n. pc = Host_barrier l rest p n)))"

text \<open>\<open>p\<close> and \<open>n\<close> completions were seen of the PIM device and of the NPU; \<open>k\<close> records were launched since.\<close>

definition barrier_inv :: "nat \<Rightarrow> nat \<Rightarrow> nat \<Rightarrow> host_pc \<Rightarrow> bool" where
  "barrier_inv k p n pc = (case pc of Host_barrier l rest pd nd \<Rightarrow> k + (if pd then 1 else 0) \<le> p \<and> k + (if nd then 1 else 0) \<le> n | _ \<Rightarrow> k \<le> p \<and> k \<le> n)"

lemma next_control_ok:
  assumes "next_control cfg tc now cs h g = Inr (pc, h', g')" "\<forall>tr \<in> set (h_trace_q h). \<exists>l. tr = SimTrace l"
  shows "speculating pc h' \<and> (case cs of
      [] \<Rightarrow> unlaunched pc = [] \<and> h' = h \<and> (pc = Host_idle \<or> pc = Host_stopped)
    | c # rest \<Rightarrow> (\<exists>l. pc = Host_barrier l rest False False) \<and> map launch_mark (h_pending_q h') = map launch_mark (h_pending_q h) @ launch_spec cfg c)"
  using assms launch_spec_ok by (auto simp: next_control_def end_iteration_def speculating_def Let_def res_simps split: list.splits if_splits)

lemma host_run_ok:
  assumes "host_resume cfg tc now pc h g = Inr (pc', h', g')" "speculating pc h" "barrier_inv k p n pc"
  shows "\<exists>j. speculating pc' h' \<and> barrier_inv (k + j) p n pc' \<and> unlaunched pc' = drop j (unlaunched pc)
    \<and> map launch_mark (h_pending_q h') = map launch_mark (h_pending_q h) @ concat (map (launch_spec cfg) (take j (unlaunched pc)))"
proof (cases pc)
  case Host_idle
  then have "speculating pc' h' \<and> h_pending_q h' = h_pending_q h \<and> unlaunched pc' = [] \<and> (pc' = Host_idle \<or> pc' = Host_stopped)"
    using assms(1,2) by (auto simp: host_resume_def process_trace_def end_iteration_def speculating_def Let_def split: list.splits Trace.splits if_splits)
  then show ?thesis using assms(3) Host_idle by (intro exI [of _ 0]) (auto simp: barrier_inv_def)
next
  case (Host_barrier l rest pd nd)
  show ?thesis
  proof (cases "pd \<and> nd")
    case True
    let ?g = "log_with (update_end tc now l HOST) g"
    have nc: "next_control cfg tc now rest h ?g = Inr (pc', h', g')" using assms(1) Host_barrier True by (simp add: host_resume_def)
    have q: "\<forall>tr \<in> set (h_trace_q h). \<exists>l. tr = SimTrace l" using assms(2) by (simp add: speculating_def)
    show ?thesis
    proof (cases rest)
      case Nil
      then show ?thesis using next_control_ok [OF nc q] assms(3) Host_barrier True by (intro exI [of _ 0]) (auto simp: barrier_inv_def)
    next
      case (Cons c cs)
      then show ?thesis using next_control_ok [OF nc q] assms(3) Host_barrier True by (intro exI [of _ 1]) (auto simp: barrier_inv_def)
    qed
  next
    case False
    then have "pc' = pc" "h' = h" using assms(1) Host_barrier by (auto simp: host_resume_def)
    then show ?thesis using assms(2,3) by (intro exI [of _ 0]) simp
  qed
next
  case Host_stopped
  then show ?thesis using assms by (intro exI [of _ 0]) (auto simp: host_resume_def)
qed (use assms(2) in \<open>auto simp: speculating_def\<close>)

lemma host_step_ok:
  assumes "host_step cfg tc x (pc, h, g) = Inr (out, pc', h', g')" "speculating pc h" "barrier_inv k p n pc"
  shows "\<exists>j. speculating pc' h' \<and> barrier_inv (k + j) (p + pim_dones [x]) (n + npu_dones [x]) pc' \<and> unlaunched pc' = drop j (unlaunched pc)
    \<and> map launch_mark (map snd out @ h_pending_q h')
      = map launch_mark (h_pending_q h) @ concat (map (launch_spec cfg) (take j (unlaunched pc)))"
proof (cases x)
  case (Host_run now)
  then show ?thesis using host_run_ok [OF _ assms(2,3)] assms(1) by (auto simp: res_simps)
next
  case Host_pim_done
  then show ?thesis using assms by (intro exI [of _ 0]) (auto simp: speculating_def barrier_inv_def split: host_pc.splits)
next
  case Host_npu_done
  then show ?thesis using assms by (intro exI [of _ 0]) (auto simp: speculating_def barrier_inv_def split: host_pc.splits)
next
  case Host_negedge
  then show ?thesis
    using assms by (intro exI [of _ 0]) (auto simp: host_clock_negedge_def speculating_def split: list.splits)
next
  case (Host_response t)
  then show ?thesis using assms by (intro exI [of _ 0]) (auto simp: host_peq_cb_def speculating_def)
qed

lemma host_steps_ok:
  assumes "host_steps cfg tc xs (pc, h, g) = Inr (outs, pc', h', g')" "speculating pc h" "barrier_inv k p n pc"
  shows "\<exists>j. barrier_inv (k + j) (p + pim_dones xs) (n + npu_dones xs) pc' \<and> unlaunched pc' = drop j (unlaunched pc)
    \<and> map launch_mark (map snd outs @ h_pending_q h')
      = map launch_mark (h_pending_q h) @ concat (map (launch_spec cfg) (take j (unlaunched pc)))"
  using assms
proof (induction xs arbitrary: pc h g outs k p n)
  case (Cons x xs)
  obtain out pc1 h1 g1 us where x: "host_step cfg tc x (pc, h, g) = Inr (out, pc1, h1, g1)"
    "host_steps cfg tc xs (pc1, h1, g1) = Inr (us, pc', h', g')" "outs = out @ us"
    using Cons.prems(1) by (auto simp: res_simps)
  from host_step_ok [OF x(1) Cons.prems(2,3)] obtain j where j: "speculating pc1 h1" "barrier_inv (k + j) (p + pim_dones [x]) (n + npu_dones [x]) pc1"
    "unlaunched pc1 = drop j (unlaunched pc)"
    "map launch_mark (map snd out @ h_pending_q h1) = map launch_mark (h_pending_q h) @ concat (map (launch_spec cfg) (take j (unlaunched pc)))"
    by blast
  from Cons.IH [OF x(2) j(1,2)] obtain i where i: "barrier_inv (k + j + i) (p + pim_dones [x] + pim_dones xs) (n + npu_dones [x] + npu_dones xs) pc'"
    "unlaunched pc' = drop i (unlaunched pc1)"
    "map launch_mark (map snd us @ h_pending_q h') = map launch_mark (h_pending_q h1) @ concat (map (launch_spec cfg) (take i (unlaunched pc1)))"
    by blast
  have "map launch_mark (map snd outs @ h_pending_q h') = map launch_mark (map snd out @ h_pending_q h1) @ concat (map (launch_spec cfg) (take i (unlaunched pc1)))"
    using x(3) i(3) by simp
  also have "\<dots> = map launch_mark (h_pending_q h) @ concat (map (launch_spec cfg) (take (j + i) (unlaunched pc)))"
    unfolding j(4) by (simp add: j(3) take_add)
  finally have m: "map launch_mark (map snd outs @ h_pending_q h')
      = map launch_mark (h_pending_q h) @ concat (map (launch_spec cfg) (take (j + i) (unlaunched pc)))" .
  have e: "k + j + i = k + (j + i)" "p + pim_dones [x] + pim_dones xs = p + pim_dones (x # xs)" "n + npu_dones [x] + npu_dones xs = n + npu_dones (x # xs)"
    by simp_all
  have "unlaunched pc' = drop (j + i) (unlaunched pc)" using i(2) j(3) by (simp add: add.commute)
  with i(1) [unfolded e] m show ?case by blast
qed (auto intro: exI [of _ 0])

text \<open>
  Claim C9. The control records are replayed strictly in order and never overlap: from the barrier of a record, whatever happens in
  which order, the requests sent and still queued are those queued before followed by the launches (target run, then draft stream) of the next records in
  order; and a record is launched only after both the PIM device and the NPU have completed the one before, so the
  number of launches never exceeds the number of completions of either.
\<close>

theorem records_never_overlap:
  assumes "host_steps cfg tc xs (Host_barrier l rest False False, h, g) = Inr (outs, pc', h', g')"
    "\<forall>tr \<in> set (h_trace_q h). \<exists>l. tr = SimTrace l"
  shows "\<exists>j. unlaunched pc' = drop j rest \<and> j \<le> pim_dones xs \<and> j \<le> npu_dones xs
    \<and> map launch_mark (map snd outs @ h_pending_q h') = map launch_mark (h_pending_q h) @ concat (map (launch_spec cfg) (take j rest))"
proof -
  have i: "speculating (Host_barrier l rest False False) h" "barrier_inv 0 0 0 (Host_barrier l rest False False)"
    using assms(2) by (auto simp: speculating_def barrier_inv_def)
  have "barrier_inv j p n pc' \<Longrightarrow> j \<le> p \<and> j \<le> n" for j p n by (cases pc') (auto simp: barrier_inv_def split: if_splits)
  then show ?thesis using host_steps_ok [OF assms(1) i] by fastforce
qed

theorem records_never_overlap_witness:
  "\<exists>outs pc' h' g'. host_steps host_config exact_times [Host_pim_done, Host_run 5, Host_npu_done, Host_run 9, Host_negedge]
       (Host_barrier ''b'' [host_control 1] False False, host_state, host_sim) = Inr (outs, pc', h', g') \<and> unlaunched pc' = []
     \<and> map launch_mark (map snd outs @ h_pending_q h') = launch_spec host_config (host_control 1)"
proof -
  let ?s = "(Host_barrier ''b'' [host_control 1] False False, host_state, host_sim)"
  let ?xs = "[Host_pim_done, Host_run 5, Host_npu_done, Host_run 9, Host_negedge]"
  have "case host_steps host_config exact_times ?xs ?s of Inr (_, pc, _) \<Rightarrow> unlaunched pc = [] | _ \<Rightarrow> False" by code_simp
  then obtain outs pc' h' g' where r: "host_steps host_config exact_times ?xs ?s = Inr (outs, pc', h', g')" "unlaunched pc' = []"
    by (auto split: sum.splits)
  from records_never_overlap [OF r(1)] obtain j where "unlaunched pc' = drop j [host_control 1]"
    "map launch_mark (map snd outs @ h_pending_q h') = map launch_mark (h_pending_q host_state) @ concat (map (launch_spec host_config) (take j [host_control 1]))"
    by (auto simp: host_state_def)
  moreover from this(1) r(2) have "j \<ge> 1" by (cases j) auto
  ultimately show ?thesis using r by (auto simp: host_state_def)
qed

text \<open>
  The delay of a macro command is truncated to 32 bits of nanoseconds when its request is generated, so a macro of \<open>2\<^sup>3\<^sup>2\<close> ns runs
  in no time; the 64-bit address of a host burst is truncated in the same way.
\<close>

lemma macro_delay_truncated:
  assumes "op_profile cfg (op_name x) = Some (p, tiles)" "aggregate_micro cfg" "draft_attention_tiles (hc_draft cfg) x w = Inr a"
    "summed_delay p (tiles * a) (layer_multiplier cfg) (ordered_cmd_name p) = Inr (d, n)" "macro_delay_ns (hc_floats cfg) (op_name x) d n = 2 ^ 32"
  shows "\<exists>layer cmd. op_stream cfg c w i x = Inr [(0, 0, 1, layer, cmd)]"
  using assms by (simp add: op_stream_def Let_def)

text \<open>A tile of no tokens passes the validation of a model profile and divides by zero when the draft is launched.\<close>

lemma zero_tile_divides:
  assumes "attention_context_tile_tokens lp = 0" "op_name x = ''qkt''"
  shows "draft_attention_tiles lp x w = Inl DivByZero"
  using assms by (simp add: draft_attention_tiles_def)

text \<open>Without the synthetic device a record with no proposals launches no draft at all, and the barrier is never released.\<close>

lemma empty_draft_has_no_last:
  assumes "\<not> spi_enabled (hc_pim cfg)" "algorithm c \<noteq> ''ssd''" "draft_proposal_count c = 0" "launch_draft cfg c h = Inr h'"
  shows "h_pending_q h' = h_pending_q h"
  using assms by (auto simp: launch_draft_def draft_work_items_def template_stream_def res_simps Let_def split: option.splits prod.splits)

end
