(* ===== verification/System_Model.thy ===== *)
theory System_Model
  imports Arbiter_Model Mem_Wrapper Host_Model
begin

text \<open>
  The assembly of \<^verbatim>\<open>hsim/components/Top.h\<close>: host and NPU reach the memory devices through the arbiter, and the responses come back the
  same way.  The memory wrapper and the PIM wrapper are present as the configured memory structure says: only the DRAM (baseline), only
  the PIM device (unified), or both (partitioned).  A step of the assembly is a step of one of its modules; what a module calls on
  another one is delivered to that module's event queue.  The interface of a device is the locale \<open>sim_device\<close>, interpreted for
  both wrappers.
\<close>

section \<open>The interface of a device\<close>

definition sim_ok :: "Sim \<Rightarrow> bool" where
  "sim_ok g = episodes_ok (sim_metrics g)"

text \<open>
  A device takes steps on its own state and the state shared by all modules; an arrival adds its payload, any other step only
  gives back payloads it holds.  \<open>resp\<close> is the index of its target socket on which an output is sent back, or nothing for an
  output that releases its payload.  \<open>dinv n k\<close> is the invariant of the device with a budget of \<open>n\<close> units of time and at most
  \<open>k\<close> payloads taken so far.
\<close>

locale sim_device =
  fixes dstep :: "'x \<Rightarrow> 's \<Rightarrow> Sim \<Rightarrow> ('y list \<times> 's \<times> Sim) res"
    and arrive :: "ps_time \<Rightarrow> payload \<Rightarrow> 'x"
    and internal :: "'x \<Rightarrow> bool"
    and cost :: "'x \<Rightarrow> nat"
    and payload_of :: "'y \<Rightarrow> payload"
    and resp :: "'y \<Rightarrow> nat option"
    and inside :: "'s \<Rightarrow> payload multiset"
    and dinv :: "nat \<Rightarrow> nat \<Rightarrow> 's \<Rightarrow> bool"
    and fits :: "payload \<Rightarrow> bool"
  assumes arrive_step: "\<lbrakk>dinv n k d; sim_ok g; fits t\<rbrakk> \<Longrightarrow> succeeds (dstep (arrive now t) d g) (\<lambda>(out, d', g').
      out = [] \<and> dinv n (Suc k) d' \<and> sim_ok g' \<and> inside d' = add_mset t (inside d))"
    and internal_step: "\<lbrakk>dinv n k d; sim_ok g; k < 2 ^ 32; internal x; cost x \<le> n\<rbrakk> \<Longrightarrow> succeeds (dstep x d g) (\<lambda>(out, d', g').
      dinv (n - cost x) k d' \<and> sim_ok g' \<and> inside d = mset (map payload_of out) + inside d')"
    and resp_socket: "\<lbrakk>dstep x d g = Inr (out, d', g'); y \<in> set out; resp y = Some i; src_id (payload_of y) \<in> set initiator_sockets\<rbrakk> \<Longrightarrow> i = 0"
    and dinv_mono: "\<lbrakk>dinv n k d; n' \<le> n; k \<le> k'\<rbrakk> \<Longrightarrow> dinv n' k' d"

section \<open>A device at the arbiter\<close>

text \<open>
  The target socket of a device is bound once, by the arbiter: a response is a call on the arbiter, and one on any other index is out of range.
  The other outputs release their payload.
\<close>

definition device_outputs :: "('y \<Rightarrow> nat option) \<Rightarrow> ('y \<Rightarrow> payload) \<Rightarrow> 'y list \<Rightarrow> Arbiter \<Rightarrow> (payload list \<times> Arbiter) res" where
  "device_outputs resp payload_of out a =
     (if list_all (\<lambda>y. case resp y of None \<Rightarrow> True | Some i \<Rightarrow> i < 1) out then
        Inr (map payload_of (filter (\<lambda>y. resp y = None) out),
             fold (\<lambda>y b. snd (arb_transport_bw (payload_of y) BEGIN_RESP b)) (filter (\<lambda>y. resp y \<noteq> None) out) a)
      else Inl OutOfRange)"

definition attached_step ::
    "('x \<Rightarrow> 's \<Rightarrow> Sim \<Rightarrow> ('y list \<times> 's \<times> Sim) res) \<Rightarrow> ('y \<Rightarrow> nat option) \<Rightarrow> ('y \<Rightarrow> payload) \<Rightarrow> 'x \<Rightarrow> 's \<Rightarrow> Sim \<Rightarrow> Arbiter
      \<Rightarrow> (payload list \<times> 's \<times> Sim \<times> Arbiter) res" where
  "attached_step ds resp pl x d g a =
     bindE (ds x d g) (\<lambda>(out, d1, g1).
     bindE (device_outputs resp pl out a) (\<lambda>(rel, a1). Inr (rel, d1, g1, a1)))"

fun mem_response_socket :: "mem_output \<Rightarrow> nat option" where
  "mem_response_socket (Mem_response t) = Some 0"
| "mem_response_socket (Mem_released t) = None"

fun mem_output_payload :: "mem_output \<Rightarrow> payload" where
  "mem_output_payload (Mem_response t) = t"
| "mem_output_payload (Mem_released t) = t"

fun pim_response_socket :: "pim_output \<Rightarrow> nat option" where
  "pim_response_socket (Send_response i t) = Some i"
| "pim_response_socket _ = None"

section \<open>The assembly\<close>

record Top =
  top_arbiter :: Arbiter
  top_dram :: "MEMWrapper option"
  top_dram_peq :: "payload list"
  top_pim :: "PIMWrapper option"
  top_pim_peq :: "payload list"
  top_sim :: Sim

record TopConfig =
  top_mem_config :: MemConfig
  top_pim_config :: PimConfig

text \<open>The initiator socket of the arbiter is bound to the devices that exist, the DRAM first.\<close>

definition dram_on :: "Top \<Rightarrow> bool" where
  "dram_on s = (top_dram s \<noteq> None)"

definition bound_devices :: "Top \<Rightarrow> nat" where
  "bound_devices s = length (device_sockets (dram_on s) (top_pim s \<noteq> None))"

definition call_device :: "arb_call \<Rightarrow> Top \<Rightarrow> Top" where
  "call_device c s = (case c of (i, t, p) \<Rightarrow>
     if device_sockets (dram_on s) (top_pim s \<noteq> None) ! i = DRAM then s\<lparr>top_dram_peq := top_dram_peq s @ [t]\<rparr> else s\<lparr>top_pim_peq := top_pim_peq s @ [t]\<rparr>)"

datatype top_op =
    Top_request payload | Top_delta_fw | Top_delta_bw | Top_posedge | Top_negedge
  | Top_dram_deliver ps_time | Top_pim_deliver ps_time | Top_dram mem_op | Top_pim pim_op

definition dram_step :: "TopConfig \<Rightarrow> TimeConv \<Rightarrow> mem_op \<Rightarrow> Top \<Rightarrow> (payload list \<times> Top) res" where
  "dram_step cfg tc x s =
     (case top_dram s of
        None \<Rightarrow> Inr ([], s)
      | Some d \<Rightarrow>
          bindE (attached_step (mem_step (top_mem_config cfg) tc) mem_response_socket mem_output_payload x d (top_sim s) (top_arbiter s)) (\<lambda>(rel, d1, g1, a1).
          Inr (rel, s\<lparr>top_dram := Some d1, top_sim := g1, top_arbiter := a1\<rparr>)))"

definition pim_dev_step :: "TopConfig \<Rightarrow> TimeConv \<Rightarrow> pim_op \<Rightarrow> Top \<Rightarrow> (payload list \<times> Top) res" where
  "pim_dev_step cfg tc x s =
     (case top_pim s of
        None \<Rightarrow> Inr ([], s)
      | Some d \<Rightarrow>
          bindE (attached_step (pim_step (top_pim_config cfg) tc) pim_response_socket output_payload x d (top_sim s) (top_arbiter s)) (\<lambda>(rel, d1, g1, a1).
          Inr (rel, s\<lparr>top_pim := Some d1, top_sim := g1, top_arbiter := a1\<rparr>)))"

text \<open>A step gives the calls made on host and NPU, and the payloads the devices released without a response.\<close>

fun top_step :: "TopConfig \<Rightarrow> TimeConv \<Rightarrow> top_op \<Rightarrow> Top \<Rightarrow> (arb_call list \<times> payload list \<times> Top) res" where
  "top_step cfg tc (Top_request t) s = Inr ([], [], s\<lparr>top_arbiter := snd (arb_transport_fw t BEGIN_REQ (top_arbiter s))\<rparr>)"
| "top_step cfg tc Top_delta_fw s = Inr ([], [], s\<lparr>top_arbiter := arb_delta_fw (dram_on s) (top_arbiter s)\<rparr>)"
| "top_step cfg tc Top_delta_bw s = Inr ([], [], s\<lparr>top_arbiter := arb_delta_bw (top_arbiter s)\<rparr>)"
| "top_step cfg tc Top_posedge s =
     (case arb_clock_posedge (top_arbiter s) of (ups, a) \<Rightarrow> Inr (ups, [], s\<lparr>top_arbiter := a\<rparr>))"
| "top_step cfg tc Top_negedge s =
     bindE (arb_clock_negedge (bound_devices s) (top_arbiter s)) (\<lambda>(downs, a).
     Inr ([], [], fold call_device downs (s\<lparr>top_arbiter := a\<rparr>)))"
| "top_step cfg tc (Top_dram_deliver now) s =
     (case top_dram_peq s of
        [] \<Rightarrow> Inr ([], [], s)
      | t # q \<Rightarrow> bindE (dram_step cfg tc (Mem_arrive now t) (s\<lparr>top_dram_peq := q\<rparr>)) (\<lambda>(rel, s1). Inr ([], rel, s1)))"
| "top_step cfg tc (Top_pim_deliver now) s =
     (case top_pim_peq s of
        [] \<Rightarrow> Inr ([], [], s)
      | t # q \<Rightarrow> bindE (pim_dev_step cfg tc (Pim_arrive now t) (s\<lparr>top_pim_peq := q\<rparr>)) (\<lambda>(rel, s1). Inr ([], rel, s1)))"
| "top_step cfg tc (Top_dram x) s = bindE (dram_step cfg tc x s) (\<lambda>(rel, s1). Inr ([], rel, s1))"
| "top_step cfg tc (Top_pim x) s = bindE (pim_dev_step cfg tc x s) (\<lambda>(rel, s1). Inr ([], rel, s1))"

fun top_steps :: "TopConfig \<Rightarrow> TimeConv \<Rightarrow> top_op list \<Rightarrow> Top \<Rightarrow> (arb_call list \<times> payload list \<times> Top) res" where
  "top_steps cfg tc [] s = Inr ([], [], s)"
| "top_steps cfg tc (x # xs) s =
     bindE (top_step cfg tc x s) (\<lambda>(u1, r1, s1).
     bindE (top_steps cfg tc xs s1) (\<lambda>(u2, r2, s2). Inr (u1 @ u2, r1 @ r2, s2)))"

definition Sim_new :: Sim where
  "Sim_new = \<lparr>active_host = 1, active_core = 1, active_dram = 1, is_pim_busy = False, dram_sync_obj = SyncObject_new,
     pim_sync_obj = SyncObject_new, sim_logger = Logger_new, sim_metrics = PerformanceMetrics_new\<rparr>"

text \<open>The memory systems that the wrappers of the configured devices simulate.\<close>

definition Top_new :: "MemorySystem option \<Rightarrow> MemorySystem option \<Rightarrow> Top" where
  "Top_new dm pm = \<lparr>top_arbiter = Arbiter_new, top_dram = map_option MEMWrapper_new dm, top_dram_peq = [],
     top_pim = map_option PIMWrapper_new pm, top_pim_peq = [], top_sim = Sim_new\<rparr>"

section \<open>What is in the assembly\<close>

fun top_requests :: "top_op list \<Rightarrow> payload list" where
  "top_requests [] = []"
| "top_requests (Top_request t # xs) = t # top_requests xs"
| "top_requests (x # xs) = top_requests xs"

definition arb_held :: "Arbiter \<Rightarrow> payload multiset" where
  "arb_held a = mset (map fst (ab_fw_queue a)) + mset (ab_peq_fw a) + mset (map fst (ab_bw_queue a)) + mset (ab_peq_bw a)"

definition held_by :: "('s \<Rightarrow> payload multiset) \<Rightarrow> 's option \<Rightarrow> payload multiset" where
  "held_by f d = (case d of None \<Rightarrow> {#} | Some s \<Rightarrow> f s)"

text \<open>A request is on its way through the arbiter, in the queue of a device, in a device, or on its way back.\<close>

definition top_held :: "Top \<Rightarrow> payload multiset" where
  "top_held s = arb_held (top_arbiter s) + mset (top_dram_peq s) + mset (top_pim_peq s)
     + held_by mem_inflight (top_dram s) + held_by pim_inflight (top_pim s)"

definition arb_routes_ok :: "bool \<Rightarrow> Arbiter \<Rightarrow> bool" where
  "arb_routes_ok b a = ((\<forall>(t, i) \<in> set (ab_fw_queue a). i = arb_target b t) \<and> (\<forall>(t, i) \<in> set (ab_bw_queue a). i = arb_source t))"

text \<open>Requests that have not reached the devices.\<close>

definition arb_ahead :: "Arbiter \<Rightarrow> payload list" where
  "arb_ahead a = map fst (ab_fw_queue a) @ ab_peq_fw a"

definition call_ok :: "arb_call \<Rightarrow> bool" where
  "call_ok u = (case u of (i, t, p) \<Rightarrow> i = arb_source t \<and> p = BEGIN_RESP)"

text \<open>Requests that their device can answer: the DRAM, or the PIM device when it is the destination or the only one.\<close>

definition top_fits :: "TopConfig \<Rightarrow> bool \<Rightarrow> payload \<Rightarrow> bool" where
  "top_fits cfg b t = (if b \<and> dst_id t \<noteq> PIM then mem_payload_ok (top_mem_config cfg) t else macro_ok (top_pim_config cfg) t)"


section \<open>Arbiter steps\<close>

lemma arb_target_eq: "arb_target b t = (if b \<and> dst_id t = PIM then 1 else 0)"
  by (cases "dst_id t") (simp_all add: arb_target_def)

lemma length_device_sockets: "length (device_sockets b p) = (if b then 1 else 0) + (if p then 1 else 0)"
  by (simp add: device_sockets_def)

lemmas arb_state_defs = arb_inv_def arb_routes_ok_def arb_held_def arb_ahead_def

lemma arb_posedge_held:
  assumes "arb_clock_posedge a = (ups, a')" "arb_inv b nt a" "arb_routes_ok b a"
  shows "arb_inv b nt a' \<and> arb_routes_ok b a' \<and> list_all call_ok ups \<and> arb_held a = mset (map (fst \<circ> snd) ups) + arb_held a'
    \<and> arb_ahead a' = arb_ahead a"
  using assms by (auto simp: arb_clock_posedge_def arb_state_defs call_ok_def split: list.splits)

lemma arb_negedge_held:
  assumes "arb_inv b nt a" "arb_routes_ok b a"
  shows "\<exists>downs a'. arb_clock_negedge nt a = Inr (downs, a') \<and> arb_inv b nt a' \<and> arb_routes_ok b a'
    \<and> arb_held a = mset (map (fst \<circ> snd) downs) + arb_held a' \<and> arb_ahead a = map (fst \<circ> snd) downs @ arb_ahead a'
    \<and> list_all (\<lambda>(i, t, p). i = arb_target b t \<and> i < nt) downs"
  using assms by (auto simp: arb_clock_negedge_def arb_state_defs split: list.splits)

lemma arb_delta_fw_held:
  assumes "arb_inv b nt a" "arb_routes_ok b a"
  shows "arb_inv b nt (arb_delta_fw b a) \<and> arb_routes_ok b (arb_delta_fw b a) \<and> arb_held (arb_delta_fw b a) = arb_held a
    \<and> arb_ahead (arb_delta_fw b a) = arb_ahead a"
  using assms by (auto simp: arb_delta_fw_eq arb_state_defs comp_def)

lemma arb_delta_bw_held:
  assumes "arb_inv b nt a" "arb_routes_ok b a"
  shows "arb_inv b nt (arb_delta_bw a) \<and> arb_routes_ok b (arb_delta_bw a) \<and> arb_held (arb_delta_bw a) = arb_held a
    \<and> arb_ahead (arb_delta_bw a) = arb_ahead a"
  using assms by (auto simp: arb_delta_bw_eq arb_state_defs comp_def)

lemma arb_request_held:
  assumes "arb_inv b nt a" "arb_routes_ok b a" "arb_target b t < nt"
  shows "arb_inv b nt (snd (arb_transport_fw t BEGIN_REQ a)) \<and> arb_routes_ok b (snd (arb_transport_fw t BEGIN_REQ a))
    \<and> arb_held (snd (arb_transport_fw t BEGIN_REQ a)) = add_mset t (arb_held a)
    \<and> arb_ahead (snd (arb_transport_fw t BEGIN_REQ a)) = arb_ahead a @ [t]"
  using assms by (auto simp: arb_transport_fw_def arb_state_defs)

lemma device_outputs_held:
  "arb_inv b nt a \<Longrightarrow> arb_routes_ok b a \<Longrightarrow> (\<And>y i. y \<in> set out \<Longrightarrow> resp y = Some i \<Longrightarrow> i = 0) \<Longrightarrow>
   \<exists>rel a'. device_outputs resp pl out a = Inr (rel, a') \<and> arb_inv b nt a' \<and> arb_routes_ok b a'
     \<and> mset (map pl out) + arb_held a = mset rel + arb_held a' \<and> arb_ahead a' = arb_ahead a"
proof (induction out arbitrary: a)
  case (Cons y out)
  let ?r = "resp y \<noteq> None"
  let ?a = "if ?r then snd (arb_transport_bw (pl y) BEGIN_RESP a) else a"
  have a: "arb_inv b nt ?a" "arb_routes_ok b ?a" "arb_ahead ?a = arb_ahead a"
    "arb_held ?a = (if ?r then add_mset (pl y) (arb_held a) else arb_held a)"
    using Cons.prems(1,2) by (auto simp: arb_transport_bw_def arb_state_defs)
  obtain rel a' where r: "device_outputs resp pl out ?a = Inr (rel, a')" "arb_inv b nt a'" "arb_routes_ok b a'"
    "mset (map pl out) + arb_held ?a = mset rel + arb_held a'" "arb_ahead a' = arb_ahead ?a"
    using Cons.IH [OF a(1,2)] Cons.prems(3) by auto
  have "device_outputs resp pl (y # out) a = Inr (if ?r then rel else pl y # rel, a')"
    using r(1) Cons.prems(3) [of y] by (auto simp: device_outputs_def split: if_splits option.splits)
  then show ?case using r(2-5) a(3,4) by (auto split: if_splits)
qed (simp add: device_outputs_def)

context sim_device
begin

lemma attached_internal:
  assumes "dinv n k d" "sim_ok g" "k < 2 ^ 32" "internal x" "cost x \<le> n" "arb_inv b nt a" "arb_routes_ok b a"
    and "\<forall>t \<in># inside d. src_id t \<in> set initiator_sockets"
  shows "succeeds (attached_step dstep resp payload_of x d g a) (\<lambda>(rel, d', g', a').
    dinv (n - cost x) k d' \<and> sim_ok g' \<and> arb_inv b nt a' \<and> arb_routes_ok b a' \<and> arb_ahead a' = arb_ahead a
    \<and> inside d + arb_held a = mset rel + inside d' + arb_held a')"
proof -
  obtain out d1 g1 where d: "dstep x d g = Inr (out, d1, g1)" "dinv (n - cost x) k d1" "sim_ok g1"
    "inside d = mset (map payload_of out) + inside d1"
    using internal_step [OF assms(1-5)] by (auto simp: succeeds_iff)
  have z: "i = 0" if "y \<in> set out" "resp y = Some i" for y i
    using resp_socket [OF d(1) that] assms(8) d(4) that(1) by simp
  from device_outputs_held [where out = out and resp = resp and pl = payload_of, OF assms(6,7)] z obtain rel a1 where o: "device_outputs resp payload_of out a = Inr (rel, a1)"
    "arb_inv b nt a1" "arb_routes_ok b a1" "mset (map payload_of out) + arb_held a = mset rel + arb_held a1" "arb_ahead a1 = arb_ahead a" by blast
  have "inside d + arb_held a = inside d1 + (mset (map payload_of out) + arb_held a)" using d(4) by simp
  also have "\<dots> = mset rel + inside d1 + arb_held a1" using o(4) by simp
  finally show ?thesis using d(1-3) o by (simp add: attached_step_def)
qed

lemma attached_arrive:
  assumes "dinv n k d" "sim_ok g" "fits t"
  shows "succeeds (attached_step dstep resp payload_of (arrive now t) d g a) (\<lambda>(rel, d', g', a').
    rel = [] \<and> dinv n (Suc k) d' \<and> sim_ok g' \<and> a' = a \<and> inside d' = add_mset t (inside d))"
  using arrive_step [OF assms, of now] by (auto simp: succeeds_iff attached_step_def device_outputs_def)

end

section \<open>The devices\<close>

text \<open>The memory wrapper keeps the episodes of the metrics.\<close>

lemma mem_record_end_episodes [simp]: "same_episodes g (mem_record_end tc now e g') = same_episodes g g'"
  by (simp add: mem_record_end_def)

lemma mem_write_episodes [simp]:
  "same_episodes g (mem_signal_sync mp layer g') = same_episodes g g'"
  "same_episodes g (mem_complete_write_request cfg tc now t g') = same_episodes g g'"
  by (auto simp: mem_signal_sync_def mem_complete_write_request_def Let_def same_episodes_def log_source_end_def log_with_def
      split: option.splits prod.splits)

lemma complete_due_episodes:
  "complete_due now (mem_record_end tc now) q out g = (q', out', g') \<Longrightarrow> same_episodes g0 g' = same_episodes g0 g"
  by (induction q arbitrary: out g) (auto split: if_splits)

lemma same_episodes_sync [simp]: "same_episodes g0 (g\<lparr>dram_sync_obj := x\<rparr>) = same_episodes g0 g"
  by (simp add: same_episodes_def)

lemma mem_poll_episodes:
  "mem_poll cfg tc now s g = Inr (out, s', g') \<Longrightarrow> same_episodes g0 g' = same_episodes g0 g"
  by (auto simp: mem_poll_def host_write_done_def Let_def res_simps split: prod.splits option.splits if_splits)

lemma mem_send_loop_episodes:
  "mem_send_loop cfg tc now q s g = Inr (s', g') \<Longrightarrow> same_episodes g0 g' = same_episodes g0 g"
proof (induction q arbitrary: s g)
  case (Cons t q)
  obtain s1 g1 where 1: "mem_send cfg tc now t (s\<lparr>mem_request := q\<rparr>) g = Inr (s1, g1)" "mem_send_loop cfg tc now q s1 g1 = Inr (s', g')"
    using Cons.prems by (auto simp: res_simps)
  have "same_episodes g0 g1 = same_episodes g0 g"
    using 1(1) by (auto simp: mem_send_def Let_def res_simps split: if_splits option.splits)
  then show ?case using Cons.IH [OF 1(2)] by simp
qed (auto simp: res_simps)

lemma simulate_dram_episodes:
  assumes "simulate_dram cfg tc now s g = Inr (w, out, s', g')"
  shows "same_episodes g g'"
proof (cases "mw_stopped s")
  case False
  obtain s1 g1 where 1: "mem_complete_fast tc now s g = (s1, g1)" by (cases "mem_complete_fast tc now s g")
  have e: "same_episodes g g1"
    using 1 complete_due_episodes [where ?g0.0 = g] by (fastforce simp: mem_complete_fast_def split: prod.splits)
  from assms False 1 obtain out s2 g2 s3 g3 where 2: "mem_poll cfg tc now s1 g1 = Inr (out, s2, g2)"
    "mem_send_loop cfg tc now (mem_request s2) s2 g2 = Inr (s3, g3)" "g' = g3 \<or> g' = g3\<lparr>active_dram := 0\<rparr>"
    by (auto simp: simulate_dram_def res_simps Let_def split: if_splits)
  have "same_episodes g g3" using mem_poll_episodes [OF 2(1)] mem_send_loop_episodes [OF 2(2)] e by simp
  then show ?thesis using 2(3) by (auto simp: same_episodes_def)
qed (use assms in \<open>simp add: simulate_dram_def\<close>)

lemma mem_step_episodes: "mem_step cfg tc x s g = Inr (out, s', g') \<Longrightarrow> same_episodes g g'"
  using simulate_dram_episodes by (cases x) (auto simp: mem_peq_cb_def res_simps split: prod.splits)


lemma bridge_horizon_le: "bridge_horizon n b \<Longrightarrow> n' \<le> n \<Longrightarrow> bridge_horizon n' b"
  by (rule inc_induct [of n' n]) (auto dest: bridge_horizon_less)

lemma mem_inv_mono: "mem_inv cfg n k s \<Longrightarrow> n' \<le> n \<Longrightarrow> k \<le> k' \<Longrightarrow> mem_inv cfg n' k' s"
  by (auto simp: mem_inv_def intro: bridge_horizon_le)

lemma pim_inv_mono: "pim_inv cfg n k s g \<Longrightarrow> n' \<le> n \<Longrightarrow> k \<le> k' \<Longrightarrow> pim_inv cfg n' k' s g"
  by (auto simp: pim_inv_def intro: bridge_horizon_le)

fun mem_internal :: "mem_op \<Rightarrow> bool" where
  "mem_internal (Mem_arrive now t) = False"
| "mem_internal _ = True"

fun mem_cost :: "mem_op \<Rightarrow> nat" where
  "mem_cost (Mem_iterate now) = 1"
| "mem_cost _ = 0"

fun pim_internal :: "pim_op \<Rightarrow> bool" where
  "pim_internal (Pim_arrive now t) = False"
| "pim_internal _ = True"

fun pim_cost :: "pim_op \<Rightarrow> nat" where
  "pim_cost (Pim_resume now) = 1"
| "pim_cost _ = 0"

definition pim_dinv :: "PimConfig \<Rightarrow> nat \<Rightarrow> nat \<Rightarrow> PIMWrapper \<Rightarrow> bool" where
  "pim_dinv cfg n k s = (\<forall>g. sim_ok g \<longrightarrow> pim_inv cfg n k s g)"

lemma pim_dinvI: "pim_inv cfg n k s g \<Longrightarrow> pim_dinv cfg n k s"
  by (auto simp: pim_dinv_def pim_inv_def sim_ok_def)

lemma pim_inv_sim_ok: "pim_inv cfg n k s g \<Longrightarrow> sim_ok g"
  by (simp add: pim_inv_def sim_ok_def)

lemma mem_output_payload_eq: "case_mem_output id id = mem_output_payload"
  by (rule ext) (simp split: mem_output.splits)

lemma mem_internal_ok:
  assumes "mem_inv cfg n k d" "k < 2 ^ 32" "mem_internal x" "mem_cost x \<le> n"
  shows "succeeds (mem_step cfg tc x d g) (\<lambda>(out, d', g').
    mem_inv cfg (n - mem_cost x) k d' \<and> mem_inflight d = mset (map mem_output_payload out) + mem_inflight d')"
proof (cases x)
  case (Mem_iterate now)
  obtain m where n: "n = Suc m" using assms(4) Mem_iterate by (cases n) auto
  from simulate_dram_ok [OF assms(1) [unfolded n] assms(2), of tc now g] show ?thesis
    using Mem_iterate n by (auto simp: succeeds_iff mem_output_payload_eq)
next
  case Mem_posedge
  then show ?thesis using mem_posedge_ok [OF assms(1)] by simp
next
  case Mem_negedge
  obtain out s where o: "mem_clock_negedge d = (out, s)" by (cases "mem_clock_negedge d")
  then show ?thesis using mem_negedge_ok [OF assms(1) o] Mem_negedge by (simp add: mem_output_payload_eq)
qed (use assms(3) in simp)

lemma pim_internal_ok:
  assumes "pim_inv cfg n k d g" "k < 2 ^ 32" "pim_internal x" "pim_cost x \<le> n"
  shows "succeeds (pim_step cfg tc x d g) (\<lambda>(out, d', g').
    pim_inv cfg (n - pim_cost x) k d' g' \<and> pim_inflight d = mset (map output_payload out) + pim_inflight d')"
proof (cases x)
  case (Pim_resume now)
  obtain m where n: "n = Suc m" using assms(4) Pim_resume by (cases n) auto
  from pim_resume_ok [OF assms(1) [unfolded n] assms(2), of tc now] show ?thesis
    using Pim_resume n by (auto simp: succeeds_iff)
next
  case (Pim_posedge now)
  obtain out s g1 where o: "pim_clock_posedge cfg tc now d g = (out, s, g1)" by (metis prod_cases3)
  then show ?thesis using posedge_ok [OF assms(1) o] Pim_posedge by simp
next
  case (Pim_negedge now)
  then show ?thesis using negedge_ok [OF assms(1), of tc now] by simp
qed (use assms(3) in simp)

text \<open>The PIM wrapper answers on its first socket, except for the payloads of the MCU.\<close>

lemma pim_step_socket:
  assumes "pim_step cfg tc x d g = Inr (out, d', g')" "y \<in> set out" "pim_response_socket y = Some i" "src_id (output_payload y) \<in> set initiator_sockets"
  shows "i = 0"
  using assms
  by (cases x) (auto simp: res_simps pim_clock_posedge_def pim_clock_negedge_def initiator_sockets_def Let_def split: list.splits if_splits prod.splits)

interpretation mem_dev: sim_device "mem_step cfg tc" Mem_arrive mem_internal mem_cost mem_output_payload mem_response_socket mem_inflight "mem_inv cfg" "mem_payload_ok cfg"
  for cfg tc
proof unfold_locales
  fix n k d g t now
  assume a: "mem_inv cfg n k d" "sim_ok g" "mem_payload_ok cfg t"
  obtain d' g' where d: "mem_peq_cb tc now t d g = (d', g')" by (cases "mem_peq_cb tc now t d g")
  then have "mem_step cfg tc (Mem_arrive now t) d g = Inr ([], d', g')" by simp
  with mem_step_episodes [OF this] mem_arrive_ok [OF a(1,3) d] a(2)
  show "succeeds (mem_step cfg tc (Mem_arrive now t) d g) (\<lambda>(out, d', g').
      out = [] \<and> mem_inv cfg n (Suc k) d' \<and> sim_ok g' \<and> mem_inflight d' = add_mset t (mem_inflight d))"
    by (simp add: sim_ok_def same_episodes_ok)
next
  fix n k d g x
  assume a: "mem_inv cfg n k d" "sim_ok g" "k < 2 ^ 32" "mem_internal x" "mem_cost x \<le> n"
  from mem_internal_ok [OF a(1,3-5), of tc g] obtain out d' g' where "mem_step cfg tc x d g = Inr (out, d', g')"
    "mem_inv cfg (n - mem_cost x) k d'" "mem_inflight d = mset (map mem_output_payload out) + mem_inflight d'" by (auto simp: succeeds_iff)
  with mem_step_episodes [OF this(1)] a(2)
  show "succeeds (mem_step cfg tc x d g) (\<lambda>(out, d', g').
      mem_inv cfg (n - mem_cost x) k d' \<and> sim_ok g' \<and> mem_inflight d = mset (map mem_output_payload out) + mem_inflight d')"
    by (simp add: sim_ok_def same_episodes_ok)
next
  fix y i assume "mem_response_socket y = Some i"
  then show "i = 0" by (cases y) auto
qed (rule mem_inv_mono)

interpretation pim_dev: sim_device "pim_step cfg tc" Pim_arrive pim_internal pim_cost output_payload pim_response_socket pim_inflight "pim_dinv cfg" "macro_ok cfg"
  for cfg tc
proof unfold_locales
  fix n k d g t now
  assume a: "pim_dinv cfg n k d" "sim_ok g" "macro_ok cfg t"
  obtain d' g' where d: "pim_peq_cb tc now t d g = (d', g')" by (cases "pim_peq_cb tc now t d g")
  have "pim_inv cfg n k d g" using a(1,2) by (simp add: pim_dinv_def)
  from arrive_ok [OF this a(3) d]
  show "succeeds (pim_step cfg tc (Pim_arrive now t) d g) (\<lambda>(out, d', g').
      out = [] \<and> pim_dinv cfg n (Suc k) d' \<and> sim_ok g' \<and> pim_inflight d' = add_mset t (pim_inflight d))"
    using d by (auto intro: pim_dinvI pim_inv_sim_ok)
next
  fix n k d g x
  assume a: "pim_dinv cfg n k d" "sim_ok g" "k < 2 ^ 32" "pim_internal x" "pim_cost x \<le> n"
  have "pim_inv cfg n k d g" using a(1,2) by (simp add: pim_dinv_def)
  from pim_internal_ok [OF this a(3-5), of tc]
  show "succeeds (pim_step cfg tc x d g) (\<lambda>(out, d', g').
      pim_dinv cfg (n - pim_cost x) k d' \<and> sim_ok g' \<and> pim_inflight d = mset (map output_payload out) + pim_inflight d')"
    by (rule succeeds_mono) (auto intro: pim_dinvI pim_inv_sim_ok)
next
  fix x d g out d' g' y i
  assume "pim_step cfg tc x d g = Inr (out, d', g')" "y \<in> set out" "pim_response_socket y = Some i" "src_id (output_payload y) \<in> set initiator_sockets"
  then show "i = 0" using pim_step_socket by blast
qed (auto simp: pim_dinv_def intro: pim_inv_mono)

section \<open>The assembly keeps its requests\<close>

definition top_inv :: "TopConfig \<Rightarrow> nat \<Rightarrow> nat \<Rightarrow> Top \<Rightarrow> bool" where
  "top_inv cfg n K s =
     (arb_inv (dram_on s) (bound_devices s) (top_arbiter s) \<and> arb_routes_ok (dram_on s) (top_arbiter s) \<and> sim_ok (top_sim s)
      \<and> list_all (top_fits cfg (dram_on s)) (arb_ahead (top_arbiter s))
      \<and> list_all (mem_payload_ok (top_mem_config cfg)) (top_dram_peq s) \<and> list_all (macro_ok (top_pim_config cfg)) (top_pim_peq s)
      \<and> (top_dram s = None \<longrightarrow> top_dram_peq s = []) \<and> (top_pim s = None \<longrightarrow> top_pim_peq s = [])
      \<and> (\<exists>k. pred_option (mem_inv (top_mem_config cfg) n k) (top_dram s) \<and> pred_option (pim_dinv (top_pim_config cfg) n k) (top_pim s)
           \<and> k + length (arb_ahead (top_arbiter s)) + length (top_dram_peq s) + length (top_pim_peq s) \<le> K))"

fun top_cost :: "top_op \<Rightarrow> nat" where
  "top_cost (Top_dram x) = mem_cost x"
| "top_cost (Top_pim x) = pim_cost x"
| "top_cost _ = 0"

text \<open>Steps from outside: requests of the host or the NPU for a device that exists and can answer them, and the devices' own steps.\<close>

fun top_op_ok :: "TopConfig \<Rightarrow> bool \<Rightarrow> bool \<Rightarrow> top_op \<Rightarrow> bool" where
  "top_op_ok cfg dr pm (Top_request t) =
     (src_id t \<in> set initiator_sockets \<and> (if dr then dst_id t else PIM) \<in> set (device_sockets dr pm) \<and> top_fits cfg dr t)"
| "top_op_ok cfg dr pm (Top_dram x) = mem_internal x"
| "top_op_ok cfg dr pm (Top_pim x) = pim_internal x"
| "top_op_ok cfg dr pm _ = True"


text \<open>Every request inside came from a bound initiator.\<close>

definition sources_bound :: "Top \<Rightarrow> bool" where
  "sources_bound s = (\<forall>t \<in># top_held s. src_id t \<in> set initiator_sockets)"

lemma mem_opt_mono: "pred_option (mem_inv cfg n k) x \<Longrightarrow> n' \<le> n \<Longrightarrow> k \<le> k' \<Longrightarrow> pred_option (mem_inv cfg n' k') x"
  by (auto simp: option.pred_set intro: mem_dev.dinv_mono)

lemma pim_opt_mono: "pred_option (pim_dinv cfg n k) x \<Longrightarrow> n' \<le> n \<Longrightarrow> k \<le> k' \<Longrightarrow> pred_option (pim_dinv cfg n' k') x"
  by (auto simp: option.pred_set intro: pim_dev.dinv_mono)

lemma top_inv_mono: "top_inv cfg n K s \<Longrightarrow> n' \<le> n \<Longrightarrow> top_inv cfg n' K s"
  unfolding top_inv_def using mem_opt_mono pim_opt_mono by blast

lemma dram_step_ok:
  assumes "top_inv cfg n K s" "mem_internal x" "mem_cost x \<le> n" "K < 2 ^ 32" "sources_bound s"
  shows "succeeds (dram_step cfg tc x s) (\<lambda>(rel, s'). top_inv cfg (n - mem_cost x) K s' \<and> top_held s = mset rel + top_held s'
    \<and> dram_on s' = dram_on s \<and> bound_devices s' = bound_devices s)"
proof (cases "top_dram s")
  case None
  then show ?thesis using top_inv_mono [OF assms(1)] by (simp add: dram_step_def)
next
  case (Some d)
  let ?b = "dram_on s" and ?nt = "bound_devices s"
  obtain k where i: "arb_inv ?b ?nt (top_arbiter s)" "arb_routes_ok ?b (top_arbiter s)" "sim_ok (top_sim s)"
    "mem_inv (top_mem_config cfg) n k d" "pred_option (pim_dinv (top_pim_config cfg) n k) (top_pim s)"
    "k + length (arb_ahead (top_arbiter s)) + length (top_dram_peq s) + length (top_pim_peq s) \<le> K"
    using assms(1) Some by (auto simp: top_inv_def)
  have k: "k < 2 ^ 32" using i(6) assms(4) by simp
  have src: "\<forall>t \<in># mem_inflight d. src_id t \<in> set initiator_sockets" using assms(5) Some by (simp add: sources_bound_def top_held_def held_by_def)
  obtain rel d' g' a' where r: "attached_step (mem_step (top_mem_config cfg) tc) mem_response_socket mem_output_payload x d (top_sim s) (top_arbiter s)
      = Inr (rel, d', g', a')" "mem_inv (top_mem_config cfg) (n - mem_cost x) k d'" "sim_ok g'" "arb_inv ?b ?nt a'" "arb_routes_ok ?b a'"
    "arb_ahead a' = arb_ahead (top_arbiter s)" "mem_inflight d + arb_held (top_arbiter s) = mset rel + mem_inflight d' + arb_held a'"
    using mem_dev.attached_internal [OF i(4,3) k assms(2,3) i(1,2) src, of tc] by (auto simp: succeeds_iff)
  let ?s = "s\<lparr>top_dram := Some d', top_sim := g', top_arbiter := a'\<rparr>"
  have same: "dram_on ?s = ?b" "bound_devices ?s = ?nt" using Some by (simp_all add: dram_on_def bound_devices_def)
  have "pred_option (pim_dinv (top_pim_config cfg) (n - mem_cost x) k) (top_pim s)"
    by (rule pim_opt_mono [OF i(5)]) simp_all
  then have "top_inv cfg (n - mem_cost x) K ?s"
    unfolding top_inv_def same using assms(1) Some r(2-6) i(6) by (auto simp: top_inv_def)
  moreover have "top_held s = mset rel + top_held ?s"
  proof -
    have "top_held s = (mem_inflight d + arb_held (top_arbiter s)) + (mset (top_dram_peq s) + mset (top_pim_peq s) + held_by pim_inflight (top_pim s))"
      using Some by (simp add: top_held_def held_by_def)
    also have "\<dots> = mset rel + top_held ?s" unfolding r(7) by (simp add: top_held_def held_by_def)
    finally show ?thesis .
  qed
  ultimately show ?thesis using Some r(1) same by (simp add: dram_step_def)
qed

lemma pim_dev_step_ok:
  assumes "top_inv cfg n K s" "pim_internal x" "pim_cost x \<le> n" "K < 2 ^ 32" "sources_bound s"
  shows "succeeds (pim_dev_step cfg tc x s) (\<lambda>(rel, s'). top_inv cfg (n - pim_cost x) K s' \<and> top_held s = mset rel + top_held s'
    \<and> dram_on s' = dram_on s \<and> bound_devices s' = bound_devices s)"
proof (cases "top_pim s")
  case None
  then show ?thesis using top_inv_mono [OF assms(1)] by (simp add: pim_dev_step_def)
next
  case (Some d)
  let ?b = "dram_on s" and ?nt = "bound_devices s"
  obtain k where i: "arb_inv ?b ?nt (top_arbiter s)" "arb_routes_ok ?b (top_arbiter s)" "sim_ok (top_sim s)"
    "pim_dinv (top_pim_config cfg) n k d" "pred_option (mem_inv (top_mem_config cfg) n k) (top_dram s)"
    "k + length (arb_ahead (top_arbiter s)) + length (top_dram_peq s) + length (top_pim_peq s) \<le> K"
    using assms(1) Some by (auto simp: top_inv_def)
  have k: "k < 2 ^ 32" using i(6) assms(4) by simp
  have src: "\<forall>t \<in># pim_inflight d. src_id t \<in> set initiator_sockets" using assms(5) Some by (simp add: sources_bound_def top_held_def held_by_def)
  obtain rel d' g' a' where r: "attached_step (pim_step (top_pim_config cfg) tc) pim_response_socket output_payload x d (top_sim s) (top_arbiter s)
      = Inr (rel, d', g', a')" "pim_dinv (top_pim_config cfg) (n - pim_cost x) k d'" "sim_ok g'" "arb_inv ?b ?nt a'" "arb_routes_ok ?b a'"
    "arb_ahead a' = arb_ahead (top_arbiter s)" "pim_inflight d + arb_held (top_arbiter s) = mset rel + pim_inflight d' + arb_held a'"
    using pim_dev.attached_internal [OF i(4,3) k assms(2,3) i(1,2) src, of tc] by (auto simp: succeeds_iff)
  let ?s = "s\<lparr>top_pim := Some d', top_sim := g', top_arbiter := a'\<rparr>"
  have same: "dram_on ?s = ?b" "bound_devices ?s = ?nt" using Some by (simp_all add: dram_on_def bound_devices_def)
  have "pred_option (mem_inv (top_mem_config cfg) (n - pim_cost x) k) (top_dram s)"
    by (rule mem_opt_mono [OF i(5)]) simp_all
  then have "top_inv cfg (n - pim_cost x) K ?s"
    unfolding top_inv_def same using assms(1) Some r(2-6) i(6) by (auto simp: top_inv_def)
  moreover have "top_held s = mset rel + top_held ?s"
  proof -
    have "top_held s = (pim_inflight d + arb_held (top_arbiter s)) + (mset (top_dram_peq s) + mset (top_pim_peq s) + held_by mem_inflight (top_dram s))"
      using Some by (simp add: top_held_def held_by_def)
    also have "\<dots> = mset rel + top_held ?s" unfolding r(7) by (simp add: top_held_def held_by_def)
    finally show ?thesis .
  qed
  ultimately show ?thesis using Some r(1) same by (simp add: pim_dev_step_def)
qed

text \<open>The delivery of the first payload of a device's event queue.\<close>

lemma dram_deliver_ok:
  assumes "top_inv cfg n K s" "top_dram_peq s = t # q"
  shows "succeeds (dram_step cfg tc (Mem_arrive now t) (s\<lparr>top_dram_peq := q\<rparr>)) (\<lambda>(rel, s'). rel = [] \<and> top_inv cfg n K s' \<and> top_held s' = top_held s
    \<and> dram_on s' = dram_on s \<and> bound_devices s' = bound_devices s)"
proof -
  obtain d k where i: "top_dram s = Some d" "sim_ok (top_sim s)" "mem_payload_ok (top_mem_config cfg) t" "mem_inv (top_mem_config cfg) n k d"
    "pred_option (pim_dinv (top_pim_config cfg) n k) (top_pim s)"
    "k + length (arb_ahead (top_arbiter s)) + length (top_dram_peq s) + length (top_pim_peq s) \<le> K"
    using assms by (cases "top_dram s") (auto simp: top_inv_def)
  obtain d' g' where r: "attached_step (mem_step (top_mem_config cfg) tc) mem_response_socket mem_output_payload (Mem_arrive now t) d (top_sim s) (top_arbiter s)
      = Inr ([], d', g', top_arbiter s)" "mem_inv (top_mem_config cfg) n (Suc k) d'" "sim_ok g'" "mem_inflight d' = add_mset t (mem_inflight d)"
    using mem_dev.attached_arrive [OF i(4,2,3), of tc now "top_arbiter s"] by (auto simp: succeeds_iff)
  let ?s = "s\<lparr>top_dram_peq := q, top_dram := Some d', top_sim := g'\<rparr>"
  have same: "dram_on ?s = dram_on s" "bound_devices ?s = bound_devices s" using i(1) by (simp_all add: dram_on_def bound_devices_def)
  have "pred_option (pim_dinv (top_pim_config cfg) n (Suc k)) (top_pim s)"
    by (rule pim_opt_mono [OF i(5)]) simp_all
  then have "top_inv cfg n K ?s"
    unfolding top_inv_def same using assms i(1,6) r(2,3) by (auto simp: top_inv_def intro!: exI [of _ "Suc k"])
  moreover have "top_held ?s = top_held s" using i(1) r(4) assms(2) by (simp add: top_held_def held_by_def)
  ultimately show ?thesis using i(1) r(1) same by (simp add: dram_step_def)
qed

lemma pim_deliver_ok:
  assumes "top_inv cfg n K s" "top_pim_peq s = t # q"
  shows "succeeds (pim_dev_step cfg tc (Pim_arrive now t) (s\<lparr>top_pim_peq := q\<rparr>)) (\<lambda>(rel, s'). rel = [] \<and> top_inv cfg n K s' \<and> top_held s' = top_held s
    \<and> dram_on s' = dram_on s \<and> bound_devices s' = bound_devices s)"
proof -
  obtain d k where i: "top_pim s = Some d" "sim_ok (top_sim s)" "macro_ok (top_pim_config cfg) t" "pim_dinv (top_pim_config cfg) n k d"
    "pred_option (mem_inv (top_mem_config cfg) n k) (top_dram s)"
    "k + length (arb_ahead (top_arbiter s)) + length (top_dram_peq s) + length (top_pim_peq s) \<le> K"
    using assms by (cases "top_pim s") (auto simp: top_inv_def)
  obtain d' g' where r: "attached_step (pim_step (top_pim_config cfg) tc) pim_response_socket output_payload (Pim_arrive now t) d (top_sim s) (top_arbiter s)
      = Inr ([], d', g', top_arbiter s)" "pim_dinv (top_pim_config cfg) n (Suc k) d'" "sim_ok g'" "pim_inflight d' = add_mset t (pim_inflight d)"
    using pim_dev.attached_arrive [OF i(4,2,3), of tc now "top_arbiter s"] by (auto simp: succeeds_iff)
  let ?s = "s\<lparr>top_pim_peq := q, top_pim := Some d', top_sim := g'\<rparr>"
  have same: "dram_on ?s = dram_on s" "bound_devices ?s = bound_devices s" using i(1) by (simp_all add: dram_on_def bound_devices_def)
  have "pred_option (mem_inv (top_mem_config cfg) n (Suc k)) (top_dram s)"
    by (rule mem_opt_mono [OF i(5)]) simp_all
  then have "top_inv cfg n K ?s"
    unfolding top_inv_def same using assms i(1,6) r(2,3) by (auto simp: top_inv_def intro!: exI [of _ "Suc k"])
  moreover have "top_held ?s = top_held s" using i(1) r(4) assms(2) by (simp add: top_held_def held_by_def)
  ultimately show ?thesis using i(1) r(1) same by (simp add: pim_dev_step_def)
qed


definition peqs_ok :: "TopConfig \<Rightarrow> Top \<Rightarrow> bool" where
  "peqs_ok cfg s = (list_all (mem_payload_ok (top_mem_config cfg)) (top_dram_peq s) \<and> list_all (macro_ok (top_pim_config cfg)) (top_pim_peq s)
      \<and> (top_dram s = None \<longrightarrow> top_dram_peq s = []) \<and> (top_pim s = None \<longrightarrow> top_pim_peq s = []))"

lemma call_device_ok:
  assumes "peqs_ok cfg s" "i = arb_target (dram_on s) t" "i < bound_devices s" "top_fits cfg (dram_on s) t"
  shows "peqs_ok cfg (call_device (i, t, p) s)
    \<and> mset (top_dram_peq (call_device (i, t, p) s)) + mset (top_pim_peq (call_device (i, t, p) s)) = add_mset t (mset (top_dram_peq s) + mset (top_pim_peq s))"
  using assms
  by (cases "top_dram s"; cases "top_pim s"; auto simp: peqs_ok_def call_device_def dram_on_def bound_devices_def device_sockets_def arb_target_eq top_fits_def split: if_splits)

lemma call_device_frame [simp]:
  "top_arbiter (call_device c s) = top_arbiter s" "top_dram (call_device c s) = top_dram s" "top_pim (call_device c s) = top_pim s"
  "top_sim (call_device c s) = top_sim s" "dram_on (call_device c s) = dram_on s" "bound_devices (call_device c s) = bound_devices s"
  by (cases c; simp add: call_device_def dram_on_def bound_devices_def)+

lemma call_devices_ok:
  assumes "peqs_ok cfg s" "list_all (\<lambda>(i, t, p). i = arb_target (dram_on s) t \<and> i < bound_devices s) downs"
    "list_all (top_fits cfg (dram_on s)) (map (fst \<circ> snd) downs)"
  shows "peqs_ok cfg (fold call_device downs s)
    \<and> mset (top_dram_peq (fold call_device downs s)) + mset (top_pim_peq (fold call_device downs s))
      = mset (map (fst \<circ> snd) downs) + (mset (top_dram_peq s) + mset (top_pim_peq s))
    \<and> top_arbiter (fold call_device downs s) = top_arbiter s \<and> top_dram (fold call_device downs s) = top_dram s
    \<and> top_pim (fold call_device downs s) = top_pim s \<and> top_sim (fold call_device downs s) = top_sim s"
  using assms
proof (induction downs arbitrary: s)
  case (Cons c downs)
  obtain i t p where c: "c = (i, t, p)" by (cases c)
  note one = call_device_ok [OF Cons.prems(1), of i t p]
  have "peqs_ok cfg (call_device c s)" using one Cons.prems(2,3) by (simp add: c)
  from Cons.IH [OF this] show ?case using one Cons.prems(2,3) by (simp add: c)
qed simp

lemma negedge_step_ok:
  assumes "top_inv cfg n K s"
  shows "succeeds (top_step cfg tc Top_negedge s) (\<lambda>(ups, rel, s'). ups = [] \<and> rel = [] \<and> top_inv cfg n K s' \<and> top_held s = top_held s'
    \<and> dram_on s' = dram_on s \<and> bound_devices s' = bound_devices s)"
proof -
  let ?a = "top_arbiter s" and ?b = "dram_on s" and ?nt = "bound_devices s"
  have i: "arb_inv ?b ?nt ?a" "arb_routes_ok ?b ?a" "list_all (top_fits cfg ?b) (arb_ahead ?a)" "peqs_ok cfg s"
    using assms by (auto simp: top_inv_def peqs_ok_def)
  obtain downs a where d: "arb_clock_negedge ?nt ?a = Inr (downs, a)" "arb_inv ?b ?nt a" "arb_routes_ok ?b a"
    "arb_held ?a = mset (map (fst \<circ> snd) downs) + arb_held a" "arb_ahead ?a = map (fst \<circ> snd) downs @ arb_ahead a"
    "list_all (\<lambda>(i, t, p). i = arb_target ?b t \<and> i < ?nt) downs"
    using arb_negedge_held [OF i(1,2)] by blast
  let ?u = "s\<lparr>top_arbiter := a\<rparr>" and ?s = "fold call_device downs (s\<lparr>top_arbiter := a\<rparr>)"
  have s0: "dram_on ?u = ?b" "bound_devices ?u = ?nt" "peqs_ok cfg ?u" using i(4) by (simp_all add: dram_on_def bound_devices_def peqs_ok_def)
  have ft: "list_all (top_fits cfg ?b) (map (fst \<circ> snd) downs)" "list_all (top_fits cfg ?b) (arb_ahead a)" using i(3) d(5) by simp_all
  have c: "peqs_ok cfg ?s" "mset (top_dram_peq ?s) + mset (top_pim_peq ?s) = mset (map (fst \<circ> snd) downs) + (mset (top_dram_peq s) + mset (top_pim_peq s))"
    "top_arbiter ?s = a" "top_dram ?s = top_dram s" "top_pim ?s = top_pim s" "top_sim ?s = top_sim s"
    using call_devices_ok [OF s0(3), unfolded s0, OF d(6) ft(1)] by simp_all
  have same: "dram_on ?s = ?b" "bound_devices ?s = ?nt" using c(4,5) by (simp_all add: dram_on_def bound_devices_def)
  have "length (top_dram_peq ?s) + length (top_pim_peq ?s) = length downs + (length (top_dram_peq s) + length (top_pim_peq s))"
    using arg_cong [OF c(2), of size] by simp
  then have l: "k + length (arb_ahead a) + length (top_dram_peq ?s) + length (top_pim_peq ?s)
      = k + length (arb_ahead ?a) + length (top_dram_peq s) + length (top_pim_peq s)" for k using d(5) by simp
  have "top_inv cfg n K ?s"
    using assms c(1) ft(2) d(2,3) unfolding top_inv_def same c(3-6) l by (simp add: peqs_ok_def c(4,5))
  moreover have "top_held s = top_held ?s"
  proof -
    have "top_held ?s = arb_held a + (mset (top_dram_peq ?s) + mset (top_pim_peq ?s)) + held_by mem_inflight (top_dram s) + held_by pim_inflight (top_pim s)"
      unfolding top_held_def c(3-6) by simp
    also have "\<dots> = top_held s" unfolding c(2) top_held_def d(4) by simp
    finally show ?thesis by simp
  qed
  ultimately show ?thesis using d(1) same by simp
qed

lemma top_step_ok:
  assumes "top_inv cfg n K s" "top_op_ok cfg (dram_on s) (top_pim s \<noteq> None) x" "top_cost x \<le> n" "K < 2 ^ 32" "sources_bound s"
  shows "succeeds (top_step cfg tc x s) (\<lambda>(ups, rel, s').
    top_inv cfg (n - top_cost x) (K + length (top_requests [x])) s' \<and> list_all call_ok ups
    \<and> dram_on s' = dram_on s \<and> bound_devices s' = bound_devices s
    \<and> top_held s + mset (top_requests [x]) = mset (map (fst \<circ> snd) ups) + mset rel + top_held s')"
proof -
  let ?a = "top_arbiter s" and ?b = "dram_on s" and ?nt = "bound_devices s"
  have i: "arb_inv ?b ?nt ?a" "arb_routes_ok ?b ?a" using assms(1) by (simp_all add: top_inv_def)
  have frame: "dram_on (s\<lparr>top_arbiter := a\<rparr>) = ?b" "bound_devices (s\<lparr>top_arbiter := a\<rparr>) = ?nt" for a
    by (simp_all add: dram_on_def bound_devices_def)
  have arb: "top_inv cfg n (K + m) (s\<lparr>top_arbiter := a\<rparr>)"
    if a: "arb_inv ?b ?nt a" "arb_routes_ok ?b a" "list_all (top_fits cfg ?b) (arb_ahead a)" "length (arb_ahead a) \<le> length (arb_ahead ?a) + m" for a m
  proof -
    obtain k where "pred_option (mem_inv (top_mem_config cfg) n k) (top_dram s)" "pred_option (pim_dinv (top_pim_config cfg) n k) (top_pim s)"
      "k + length (arb_ahead ?a) + length (top_dram_peq s) + length (top_pim_peq s) \<le> K" using assms(1) by (auto simp: top_inv_def)
    then have "\<exists>k. pred_option (mem_inv (top_mem_config cfg) n k) (top_dram s) \<and> pred_option (pim_dinv (top_pim_config cfg) n k) (top_pim s)
      \<and> k + length (arb_ahead a) + length (top_dram_peq s) + length (top_pim_peq s) \<le> K + m" using a(4) by (intro exI [of _ k]) simp
    then show ?thesis using assms(1) a(1-3) unfolding top_inv_def frame by simp
  qed
  have fit: "list_all (top_fits cfg ?b) (arb_ahead ?a)" using assms(1) by (simp add: top_inv_def)
  show ?thesis
  proof (cases x)
    case (Top_request t)
    have "arb_target ?b t < ?nt" "top_fits cfg ?b t"
      using assms(2) Top_request arb_target_bound [of ?b t "top_pim s \<noteq> None"] by (simp_all add: bound_devices_def)
    from arb_request_held [OF i this(1)] this(2) arb [of "snd (arb_transport_fw t BEGIN_REQ ?a)" 1] show ?thesis
      using Top_request fit frame by (simp add: top_held_def)
  next
    case Top_delta_fw
    then show ?thesis using arb_delta_fw_held [OF i] arb [of "arb_delta_fw ?b ?a" 0] fit frame by (simp add: top_held_def)
  next
    case Top_delta_bw
    then show ?thesis using arb_delta_bw_held [OF i] arb [of "arb_delta_bw ?a" 0] fit frame by (simp add: top_held_def)
  next
    case Top_posedge
    obtain ups a where p: "arb_clock_posedge ?a = (ups, a)" by (cases "arb_clock_posedge ?a")
    from arb_posedge_held [OF p i] arb [of a 0] show ?thesis using Top_posedge fit frame p by (simp add: top_held_def)
  next
    case Top_negedge
    then show ?thesis using negedge_step_ok [OF assms(1), of tc] by (auto elim!: succeeds_mono simp del: top_step.simps)
  next
    case (Top_dram_deliver now)
    show ?thesis
    proof (cases "top_dram_peq s")
      case (Cons t q)
      then show ?thesis using dram_deliver_ok [OF assms(1) Cons, of tc now] Top_dram_deliver by (auto simp: succeeds_iff)
    qed (use assms(1) Top_dram_deliver in simp)
  next
    case (Top_pim_deliver now)
    show ?thesis
    proof (cases "top_pim_peq s")
      case (Cons t q)
      then show ?thesis using pim_deliver_ok [OF assms(1) Cons, of tc now] Top_pim_deliver by (auto simp: succeeds_iff)
    qed (use assms(1) Top_pim_deliver in simp)
  next
    case (Top_dram y)
    then show ?thesis using dram_step_ok [OF assms(1), of y tc] assms(2-5) by (auto simp: succeeds_iff)
  next
    case (Top_pim y)
    then show ?thesis using pim_dev_step_ok [OF assms(1), of y tc] assms(2-5) by (auto simp: succeeds_iff)
  qed
qed


lemma top_steps_ok:
  assumes "top_inv cfg n K s" "\<forall>x \<in> set xs. top_op_ok cfg (dram_on s) (top_pim s \<noteq> None) x" "sum_list (map top_cost xs) \<le> n"
    "K + length (top_requests xs) < 2 ^ 32" "sources_bound s"
  shows "succeeds (top_steps cfg tc xs s) (\<lambda>(ups, rel, s').
    list_all call_ok ups \<and> top_held s + mset (top_requests xs) = mset (map (fst \<circ> snd) ups) + mset rel + top_held s')"
  using assms
proof (induction xs arbitrary: n K s)
  case (Cons x xs)
  have r: "top_requests (x # xs) = top_requests [x] @ top_requests xs" by (cases x) simp_all
  have "top_cost x \<le> n" "K < 2 ^ 32" "top_op_ok cfg (dram_on s) (top_pim s \<noteq> None) x" using Cons.prems(2-4) by simp_all
  then obtain u1 r1 s1 where x: "top_step cfg tc x s = Inr (u1, r1, s1)"
    "top_inv cfg (n - top_cost x) (K + length (top_requests [x])) s1" "list_all call_ok u1" "dram_on s1 = dram_on s" "bound_devices s1 = bound_devices s"
    "top_held s + mset (top_requests [x]) = mset (map (fst \<circ> snd) u1) + mset r1 + top_held s1"
    using top_step_ok [OF Cons.prems(1), of x tc] Cons.prems(5) by (auto simp: succeeds_iff)
  have "src_id t \<in> set initiator_sockets" if "t \<in># top_held s + mset (top_requests [x])" for t
    using that Cons.prems(2,5) by (cases x) (auto simp: sources_bound_def)
  then have src: "sources_bound s1" unfolding x(6) by (simp add: sources_bound_def)
  have pm: "(top_pim s1 \<noteq> None) = (top_pim s \<noteq> None)" using x(4,5) by (simp add: bound_devices_def length_device_sockets split: if_splits)
  have "sum_list (map top_cost xs) \<le> n - top_cost x" "K + length (top_requests [x]) + length (top_requests xs) < 2 ^ 32"
    using Cons.prems(3,4) r by simp_all
  moreover have "\<forall>x \<in> set xs. top_op_ok cfg (dram_on s1) (top_pim s1 \<noteq> None) x" using Cons.prems(2) x(4) pm by simp
  ultimately obtain u2 r2 s2 where xs: "top_steps cfg tc xs s1 = Inr (u2, r2, s2)"
    "list_all call_ok u2" "top_held s1 + mset (top_requests xs) = mset (map (fst \<circ> snd) u2) + mset r2 + top_held s2"
    using Cons.IH [OF x(2)] src by (auto simp: succeeds_iff comp_def)
  have "top_held s + mset (top_requests (x # xs)) = mset (map (fst \<circ> snd) u1) + mset r1 + (top_held s1 + mset (top_requests xs))"
    unfolding r mset_append add.assoc [symmetric] x(6) by simp
  also have "\<dots> = mset (map (fst \<circ> snd) (u1 @ u2)) + mset (r1 @ r2) + top_held s2" unfolding xs(3) by simp
  finally show ?case using x(1,3) xs(1,2) by (simp add: comp_def)
qed simp

lemma call_ok_bound:
  assumes "list_all call_ok ups" "\<forall>t \<in># mset (map (fst \<circ> snd) ups). src_id t \<in> set initiator_sockets"
  shows "list_all (\<lambda>(i, t, p). i < length initiator_sockets \<and> initiator_sockets ! i = src_id t \<and> p = BEGIN_RESP) ups"
  using assms arb_source_bound by (fastforce simp: list_all_iff call_ok_def)

definition device_ok :: "nat \<Rightarrow> MemorySystem \<Rightarrow> bool" where
  "device_ok n m = (mem_valid m \<and> bridge_config (ms_config m) \<and> mem_horizon n m)"

lemma new_top_inv:
  assumes "pred_option (device_ok n) dm" "pred_option (device_ok n) pm"
  shows "top_inv cfg n 0 (Top_new dm pm)" "top_held (Top_new dm pm) = {#}"
proof -
  have e: "episodes_ok (sim_metrics Sim_new)" by (simp add: Sim_new_def episodes_ok_def PerformanceMetrics_new_def)
  have "pred_option (mem_inv (top_mem_config cfg) n 0) (map_option MEMWrapper_new dm)"
    using assms(1) by (auto simp: option.pred_set device_ok_def mem_new_inv)
  moreover have "pred_option (pim_dinv (top_pim_config cfg) n 0) (map_option PIMWrapper_new pm)"
    using assms(2) e by (auto simp: option.pred_set device_ok_def intro!: pim_dinvI [OF new_wrapper_inv(1)])
  ultimately show "top_inv cfg n 0 (Top_new dm pm)"
    using e by (auto simp: top_inv_def Top_new_def arb_state_defs Arbiter_new_def sim_ok_def)
  have "mem_inflight (MEMWrapper_new m) = {#}" if "device_ok n m" for m using that mem_new_inv(2) by (auto simp: device_ok_def)
  moreover have "pim_inflight (PIMWrapper_new m) = {#}" if "device_ok n m" for m
    using that new_wrapper_inv(2) [OF _ _ _ e] by (auto simp: device_ok_def)
  ultimately show "top_held (Top_new dm pm) = {#}"
    using assms by (auto simp: top_held_def Top_new_def held_by_def arb_held_def Arbiter_new_def split: option.splits)
qed

lemma new_top_steps_ok:
  assumes "pred_option (device_ok n) dm" "pred_option (device_ok n) pm"
    and "\<forall>x \<in> set xs. top_op_ok cfg (dm \<noteq> None) (pm \<noteq> None) x"
    and "sum_list (map top_cost xs) \<le> n" "length (top_requests xs) < 2 ^ 32"
  shows "succeeds (top_steps cfg tc xs (Top_new dm pm)) (\<lambda>(ups, rel, s).
    mset (top_requests xs) = mset (map (fst \<circ> snd) ups) + mset rel + top_held s
    \<and> list_all (\<lambda>(i, t, p). i < length initiator_sockets \<and> initiator_sockets ! i = src_id t \<and> p = BEGIN_RESP) ups)"
proof -
  note new = new_top_inv [OF assms(1,2)]
  have "dram_on (Top_new dm pm) = (dm \<noteq> None)" "(top_pim (Top_new dm pm) \<noteq> None) = (pm \<noteq> None)"
    by (simp_all add: dram_on_def Top_new_def)
  with top_steps_ok [OF new(1) [of cfg], where xs = xs and tc = tc] assms(3-5) new(2) obtain ups rel s where r: "top_steps cfg tc xs (Top_new dm pm) = Inr (ups, rel, s)"
    "list_all call_ok ups" "mset (top_requests xs) = mset (map (fst \<circ> snd) ups) + mset rel + top_held s"
    by (auto simp: succeeds_iff sources_bound_def)
  have "src_id t \<in> set initiator_sockets" if "t \<in># mset (top_requests xs)" for t
    using that assms(3) by (induction xs rule: top_requests.induct) auto
  then have "\<forall>t \<in># mset (map (fst \<circ> snd) ups). src_id t \<in> set initiator_sockets" unfolding r(3) by simp
  from call_ok_bound [OF r(2) this] r(1,3) show ?thesis by simp
qed

section \<open>Properties\<close>

text \<open>
  Claim C6. The assembled simulator answers every request once, whatever the memory structure: with the DRAM, the PIM device or both behind the arbiter,
  and under any interleaving of requests, delta cycles, clock edges, deliveries and steps of the devices' threads, nothing fails; the requests
  that the host and the NPU made are those answered, those the devices released and those still in
  the arbiter or in a device; and every response is called on the socket to which the initiator that its payload names is bound.  The requests are
  such that their device is bound and can answer them: no tensor request without the latency model, and to the DRAM only reads, writes of the
  NPU, and host writes that are results of the adder tree or have an entry in its synchronisation map.
\<close>

theorem system_answers_once:
  assumes "pred_option (device_ok n) dm" "pred_option (device_ok n) pm"
    and "\<forall>x \<in> set xs. top_op_ok cfg (dm \<noteq> None) (pm \<noteq> None) x"
    and "sum_list (map top_cost xs) \<le> n" "length (top_requests xs) < 2 ^ 32"
  shows "succeeds (top_steps cfg tc xs (Top_new dm pm)) (\<lambda>(ups, rel, s).
    mset (top_requests xs) = mset (map (fst \<circ> snd) ups) + mset rel + top_held s
    \<and> list_all (\<lambda>(i, t, p). i < length initiator_sockets \<and> initiator_sockets ! i = src_id t \<and> p = BEGIN_RESP) ups)"
  by (rule new_top_steps_ok [OF assms])

definition demo_top_config :: TopConfig where
  "demo_top_config = \<lparr>top_mem_config = demo_mem_config, top_pim_config = demo_pim_config\<rparr>"

definition demo_top_ops :: "top_op list" where
  "demo_top_ops = [Top_request (demo_payload 0 TLM_READ 4096), Top_delta_fw, Top_negedge, Top_dram_deliver 0, Top_dram Mem_posedge, Top_dram (Mem_iterate 0),
     Top_request ((demo_payload 1 TLM_READ 64)\<lparr>dst_id := PIM\<rparr>), Top_delta_fw, Top_negedge, Top_pim_deliver 1, Top_pim (Pim_resume 1),
     Top_dram Mem_negedge, Top_delta_bw, Top_posedge]"

theorem system_answers_once_witness:
  "succeeds small_mem (\<lambda>m. succeeds (top_steps demo_top_config exact_times demo_top_ops (Top_new (Some m) (Some m))) (\<lambda>(ups, rel, s).
     {#demo_payload 0 TLM_READ 4096, (demo_payload 1 TLM_READ 64)\<lparr>dst_id := PIM\<rparr>#} = mset (map (fst \<circ> snd) ups) + mset rel + top_held s
     \<and> list_all (\<lambda>(i, t, p). i < 2 \<and> [HOST, NPU] ! i = src_id t \<and> p = BEGIN_RESP) ups))"
proof (rule succeeds_mono [OF small_mem_ok])
  fix m assume "mem_valid m \<and> mem_horizon 3 m \<and> ms_config m = small_config \<and> mem_outstanding m = {#}"
  then have m: "pred_option (device_ok 3) (Some m)" using small_bridge_config by (simp add: device_ok_def)
  have d: "\<forall>x \<in> set demo_top_ops. top_op_ok demo_top_config (Some m \<noteq> None) (Some m \<noteq> None) x" "sum_list (map top_cost demo_top_ops) \<le> 3"
    "length (top_requests demo_top_ops) < 2 ^ 32"
    "mset (top_requests demo_top_ops) = {#demo_payload 0 TLM_READ 4096, (demo_payload 1 TLM_READ 64)\<lparr>dst_id := PIM\<rparr>#}"
    by (simp_all add: demo_top_ops_def demo_top_config_def top_fits_def device_sockets_def initiator_sockets_def mem_payload_ok_def macro_ok_def demo_payload_def
        demo_mem_config_def demo_pim_config_def is_macro_request_def)
  from system_answers_once [OF m m d(1-3), of exact_times]
  show "succeeds (top_steps demo_top_config exact_times demo_top_ops (Top_new (Some m) (Some m))) (\<lambda>(ups, rel, s).
     {#demo_payload 0 TLM_READ 4096, (demo_payload 1 TLM_READ 64)\<lparr>dst_id := PIM\<rparr>#} = mset (map (fst \<circ> snd) ups) + mset rel + top_held s
     \<and> list_all (\<lambda>(i, t, p). i < 2 \<and> [HOST, NPU] ! i = src_id t \<and> p = BEGIN_RESP) ups)"
    unfolding d(4) by (auto elim!: succeeds_mono simp: initiator_sockets_def numeral_2_eq_2)
qed

text \<open>
  A read of the MCU at the PIM device is sent back on the second index of its target socket, which \<^verbatim>\<open>Top.h\<close> never binds.
\<close>

lemma mcu_response_unbound:
  assumes "top_pim s = Some d" "memory_completed_queue d = t # q" "gp_command t = TLM_READ" "src_id t = MCU"
  shows "top_step cfg tc (Top_pim (Pim_posedge now)) s = Inl OutOfRange"
  using assms by (simp add: pim_dev_step_def attached_step_def device_outputs_def pim_clock_posedge_def Let_def)

end
