(* ===== verification/System_Config.thy ===== *)
theory System_Config
  imports Host_Model
begin

text \<open>
  \<^verbatim>\<open>hsim/utilities/configurations.cpp\<close>: reading and validation of the system, memory, host and PIM configuration files.  The JSON library, the
  floating-point numbers with their comparisons, the file system and the environment are parameters, collected in \<open>ConfigLib\<close>.
  The text that the library adds to the message of a parse error is left out.
\<close>

section \<open>Parameters\<close>

record ('j, 'f) ConfigLib =
  cl_json :: "'j Json"
  cl_asInt :: "'j \<Rightarrow> int res"
  cl_asDouble :: "'j \<Rightarrow> 'f res"
  cl_isUInt :: "'j \<Rightarrow> bool"
  cl_isString :: "'j \<Rightarrow> bool"
  cl_members :: "'j \<Rightarrow> string list res"
  cl_double :: "'f \<Rightarrow> 'j"
  fl_zero :: 'f
  fl_half :: 'f
  fl_one :: 'f
  fl_25_6 :: 'f
  fl_le :: "'f \<Rightarrow> 'f \<Rightarrow> bool"
  fl_less :: "'f \<Rightarrow> 'f \<Rightarrow> bool"
  fl_scale :: "'f \<Rightarrow> 'f \<Rightarrow> u32 \<Rightarrow> 'f"
  read_file :: "string \<Rightarrow> string option"
  root_path :: string
  absolute_path :: "string \<Rightarrow> string"
  getenv :: "string \<Rightarrow> string option"

abbreviation str_get :: "('j, 'f) ConfigLib \<Rightarrow> 'j \<Rightarrow> string \<Rightarrow> string \<Rightarrow> string res" where
  "str_get L v k d \<equiv> bindE (js_get (cl_json L) v k (js_string (cl_json L) d)) (js_asString (cl_json L))"

abbreviation str_at :: "('j, 'f) ConfigLib \<Rightarrow> 'j \<Rightarrow> string \<Rightarrow> string res" where
  "str_at L v k \<equiv> bindE (js_at (cl_json L) v k) (js_asString (cl_json L))"

abbreviation bool_get :: "('j, 'f) ConfigLib \<Rightarrow> 'j \<Rightarrow> string \<Rightarrow> bool \<Rightarrow> bool res" where
  "bool_get L v k d \<equiv> bindE (js_get (cl_json L) v k (js_bool (cl_json L) d)) (js_asBool (cl_json L))"

abbreviation num_get :: "('j, 'f) ConfigLib \<Rightarrow> 'j \<Rightarrow> string \<Rightarrow> u32 \<Rightarrow> u32 res" where
  "num_get L v k d \<equiv> uint_get (cl_json L) v k (js_uint (cl_json L) d)"

abbreviation num_at :: "('j, 'f) ConfigLib \<Rightarrow> 'j \<Rightarrow> string \<Rightarrow> u32 res" where
  "num_at L v k \<equiv> uint_at (cl_json L) v k"

abbreviation double_get :: "('j, 'f) ConfigLib \<Rightarrow> 'j \<Rightarrow> string \<Rightarrow> 'f \<Rightarrow> 'f res" where
  "double_get L v k d \<equiv> bindE (js_get (cl_json L) v k (cl_double L d)) (cl_asDouble L)"

abbreviation double_at :: "('j, 'f) ConfigLib \<Rightarrow> 'j \<Rightarrow> string \<Rightarrow> 'f res" where
  "double_at L v k \<equiv> bindE (js_at (cl_json L) v k) (cl_asDouble L)"

text \<open>A variable of the environment that is set and not empty.\<close>

definition env_override :: "('j, 'f) ConfigLib \<Rightarrow> string \<Rightarrow> string option" where
  "env_override L v = (case getenv L v of Some p \<Rightarrow> if p \<noteq> [] then Some p else None | None \<Rightarrow> None)"

definition config_path :: "('j, 'f) ConfigLib \<Rightarrow> string \<Rightarrow> string" where
  "config_path L file_name =
     (case (if file_name = ''system'' then env_override L ''HSIM_SYSTEM_CONFIG''
            else if file_name = ''memory'' then env_override L ''HSIM_MEMORY_CONFIG'' else None) of
        Some p \<Rightarrow> p
      | None \<Rightarrow> root_path L @ ''hsim/configs/'' @ file_name @ ''.json'')"

definition parse_json :: "('j, 'f) ConfigLib \<Rightarrow> string \<Rightarrow> 'j res" where
  "parse_json L file_name =
     (case read_file L (config_path L file_name) of
        None \<Rightarrow> Inl (ExitCall 1)
      | Some raw \<Rightarrow>
          case js_parse (cl_json L) raw of
            None \<Rightarrow> Inl (Thrown (''Invalid JSON in '' @ config_path L file_name))
          | Some root \<Rightarrow> Inr root)"

section \<open>The sections of the system file\<close>

record 'f NpuSection =
  ns_enabled :: bool
  ns_compute_ns :: u32
  ns_weight_bytes :: u32
  ns_output_bytes :: u32
  ns_window :: u32
  ns_profile :: string
  ns_fast :: bool
  ns_granularity :: string
  ns_backend :: string
  ns_channel_model :: string
  ns_channel_efficiency :: 'f
  ns_calibration :: u32
  ns_bandwidth :: 'f
  ns_fixed_latency :: u32
  ns_analytical :: bool
  ns_macs :: u32
  ns_frequency :: 'f

definition npu_default :: "('j, 'f) ConfigLib \<Rightarrow> 'f NpuSection" where
  "npu_default L = \<lparr>ns_enabled = False, ns_compute_ns = 0, ns_weight_bytes = 0, ns_output_bytes = 0, ns_window = 256, ns_profile = [],
     ns_fast = False, ns_granularity = ''macro'', ns_backend = ''analytic'', ns_channel_model = ''native'', ns_channel_efficiency = fl_one L,
     ns_calibration = 4096, ns_bandwidth = fl_25_6 L, ns_fixed_latency = 100, ns_analytical = True, ns_macs = 1024, ns_frequency = fl_half L\<rparr>"

definition read_npu_work :: "('j, 'f) ConfigLib \<Rightarrow> 'j \<Rightarrow> 'f NpuSection \<Rightarrow> 'f NpuSection res" where
  "read_npu_work L v s =
     bindE (bool_get L v ''enabled'' False) (\<lambda>en.
     bindE (num_get L v ''compute_ns_per_layer'' 0) (\<lambda>ns.
     bindE (num_get L v ''weight_read_bytes_per_layer'' 0) (\<lambda>wb.
     bindE (num_get L v ''output_write_bytes_per_layer'' 0) (\<lambda>ob.
     bindE (num_get L v ''max_inflight_requests'' 256) (\<lambda>win.
     bindE (str_get L v ''model_profile'' []) (\<lambda>prof.
     Inr (s\<lparr>ns_enabled := en, ns_compute_ns := ns, ns_weight_bytes := wb, ns_output_bytes := ob, ns_window := win, ns_profile := prof\<rparr>)))))))"

definition read_npu_fast :: "('j, 'f) ConfigLib \<Rightarrow> 'j \<Rightarrow> 'f NpuSection \<Rightarrow> 'f NpuSection res" where
  "read_npu_fast L v s =
     bindE (bool_get L v ''fast_layer_mode'' False) (\<lambda>fast.
     bindE (str_get L v ''fast_layer_granularity'' ''macro'') (\<lambda>gran.
     bindE (str_get L v ''fast_memory_backend'' ''analytic'') (\<lambda>back.
     bindE (str_get L v ''fast_memory_channel_model'' ''native'') (\<lambda>model.
     bindE (double_get L v ''fast_memory_channel_efficiency'' (fl_one L)) (\<lambda>eff.
     bindE (num_get L v ''dram_macro_calibration_requests'' 4096) (\<lambda>cal.
     Inr (s\<lparr>ns_fast := fast, ns_granularity := gran, ns_backend := back, ns_channel_model := model, ns_channel_efficiency := eff,
            ns_calibration := cal\<rparr>)))))))"

definition read_npu_compute :: "('j, 'f) ConfigLib \<Rightarrow> 'j \<Rightarrow> 'f NpuSection \<Rightarrow> 'f NpuSection res" where
  "read_npu_compute L v s =
     bindE (double_get L v ''fast_memory_bandwidth_GBps'' (fl_25_6 L)) (\<lambda>bw.
     bindE (num_get L v ''fast_memory_fixed_latency_ns'' 100) (\<lambda>lat.
     bindE (bool_get L v ''analytical_compute_enabled'' True) (\<lambda>an.
     bindE (num_get L v ''macs_per_cycle'' 1024) (\<lambda>macs.
     bindE (double_get L v ''compute_frequency_GHz'' (fl_half L)) (\<lambda>fr.
     if macs = 0 \<or> fl_le L fr (fl_zero L) then Inl (Thrown ''synthetic_npu MAC throughput and frequency must be positive'')
     else Inr (s\<lparr>ns_bandwidth := bw, ns_fixed_latency := lat, ns_analytical := an, ns_macs := macs, ns_frequency := fr\<rparr>))))))"

definition read_npu_section :: "('j, 'f) ConfigLib \<Rightarrow> 'j \<Rightarrow> 'f NpuSection res" where
  "read_npu_section L v =
     (if js_isNull (cl_json L) v then Inr (npu_default L)
      else bindE (read_npu_work L v (npu_default L)) (\<lambda>s1. bindE (read_npu_fast L v s1) (read_npu_compute L v)))"

record PimSection =
  ps_enabled :: bool
  ps_layer_count :: u32
  ps_compute_ns :: u32
  ps_commands_per_layer :: u32
  ps_command :: string
  ps_profile :: string
  ps_aggregate :: bool
  ps_fast :: bool
  ps_granularity :: string

definition pim_default :: PimSection where
  "pim_default = \<lparr>ps_enabled = False, ps_layer_count = 0, ps_compute_ns = 0, ps_commands_per_layer = 1, ps_command = ''mac'', ps_profile = [],
     ps_aggregate = False, ps_fast = False, ps_granularity = ''macro''\<rparr>"

definition read_pim_section :: "('j, 'f) ConfigLib \<Rightarrow> 'j \<Rightarrow> PimSection res" where
  "read_pim_section L v =
     (if js_isNull (cl_json L) v then Inr pim_default
      else
        bindE (bool_get L v ''enabled'' False) (\<lambda>en.
        bindE (num_get L v ''layer_count'' 0) (\<lambda>lc.
        bindE (num_get L v ''compute_ns_per_layer'' 0) (\<lambda>ns.
        bindE (num_get L v ''commands_per_layer'' 1) (\<lambda>cpl.
        bindE (str_get L v ''command'' ''mac'') (\<lambda>cmd.
        bindE (str_get L v ''model_profile'' []) (\<lambda>prof.
        bindE (bool_get L v ''aggregate_micro_commands'' False) (\<lambda>agg.
        bindE (bool_get L v ''fast_layer_mode'' False) (\<lambda>fast.
        bindE (str_get L v ''fast_layer_granularity'' ''macro'') (\<lambda>gran.
        Inr \<lparr>ps_enabled = en, ps_layer_count = lc, ps_compute_ns = ns, ps_commands_per_layer = cpl, ps_command = cmd, ps_profile = prof,
              ps_aggregate = agg, ps_fast = fast, ps_granularity = gran\<rparr>))))))))))"

fun check_granularity :: "(string \<times> string) list \<Rightarrow> unit res" where
  "check_granularity [] = Inr ()"
| "check_granularity ((who, gran) # rest) =
     (if gran \<noteq> ''macro'' \<and> gran \<noteq> ''layer''
      then Inl (Thrown (who @ ''.fast_layer_granularity must be \"macro\" or \"layer\", got: '' @ gran))
      else check_granularity rest)"

record Workload =
  wl_model :: string
  wl_mode :: string
  wl_heads :: u32
  wl_scenario :: u32
  wl_input_length :: u32
  wl_output_length :: u32
  wl_decoder_block :: u32

definition read_workload :: "('j, 'f) ConfigLib \<Rightarrow> 'j \<Rightarrow> Workload res" where
  "read_workload L v =
     bindE (str_at L v ''model'') (\<lambda>model.
     bindE (str_get L v ''execution_mode'' ''speculative'') (\<lambda>mode.
     if mode \<noteq> ''speculative'' then Inl (Thrown ''This artifact supports execution_mode=speculative only'')
     else
       bindE (num_at L v ''attention_head'') (\<lambda>heads.
       bindE (num_at L v ''scenario_id'') (\<lambda>sc.
       bindE (num_at L v ''input_sequence_length'') (\<lambda>inp.
       bindE (num_at L v ''output_sequence_length'') (\<lambda>outp.
       bindE (num_at L v ''decoder_block'') (\<lambda>blk.
       Inr \<lparr>wl_model = model, wl_mode = mode, wl_heads = heads, wl_scenario = sc, wl_input_length = inp, wl_output_length = outp,
             wl_decoder_block = blk\<rparr>)))))))"

definition spec_default :: SpeculativeInfo where
  "spec_default = \<lparr>si_scenario_id = 0, si_sample_index = - 1, skip_warmup_iterations = 0, max_control_iterations = 0, exclude_prefill = False,
     draft_profile_layer = []\<rparr>"

text \<open>The section of the speculation with the absolute path of its trace.\<close>

definition read_speculative :: "('j, 'f) ConfigLib \<Rightarrow> 'j \<Rightarrow> (string \<times> SpeculativeInfo) res" where
  "read_speculative L v =
     (if js_isNull (cl_json L) v then Inr ([], spec_default)
      else
        bindE (num_get L v ''scenario_id'' 0) (\<lambda>sc.
        bindE (str_get L v ''control_trace_file'' []) (\<lambda>file.
        bindE (bindE (js_get (cl_json L) v ''sample_index'' (js_int (cl_json L) (- 1))) (cl_asInt L)) (\<lambda>idx.
        if idx < - 1 then Inl (Thrown ''speculative.sample_index must be -1 or non-negative'')
        else
          bindE (num_get L v ''skip_warmup_iterations'' 0) (\<lambda>skip.
          bindE (num_get L v ''max_control_iterations'' 0) (\<lambda>lim.
          bindE (bool_get L v ''exclude_prefill'' False) (\<lambda>ex.
          bindE (str_get L v ''draft_profile_layer'' ''D_K0'') (\<lambda>layer.
          Inr (if file = [] then [] else absolute_path L file,
               \<lparr>si_scenario_id = sc, si_sample_index = idx, skip_warmup_iterations = skip, max_control_iterations = lim,
                exclude_prefill = ex, draft_profile_layer = layer\<rparr>)))))))))"


section \<open>Validation and assembly\<close>

text \<open>The conditions \<^verbatim>\<open>speculative_enabled()\<close> of these checks hold, since \<open>read_workload\<close> accepts no other mode.\<close>

definition check_speculation :: "'f NpuSection \<Rightarrow> string \<Rightarrow> unit res" where
  "check_speculation npu trace_file =
     (if trace_file = [] then Inl (Thrown ''speculative.control_trace_file is required in speculative mode'')
      else if \<not> ns_enabled npu then Inl (Thrown ''speculative mode requires synthetic_npu.enabled=true'')
      else Inr ())"

definition check_npu :: "('j, 'f) ConfigLib \<Rightarrow> 'f NpuSection \<Rightarrow> unit res" where
  "check_npu L npu =
     (if ns_enabled npu \<and> ns_window npu = 0 then Inl (Thrown ''synthetic_npu.max_inflight_requests must be non-zero'')
      else if ns_fast npu \<and> fl_le L (ns_bandwidth npu) (fl_zero L)
        then Inl (Thrown ''synthetic_npu.fast_memory_bandwidth_GBps must be positive'')
      else if ns_backend npu \<noteq> ''analytic'' \<and> ns_backend npu \<noteq> ''dramsim3_calibrated''
        then Inl (Thrown ''synthetic_npu.fast_memory_backend must be \"analytic\" or \"dramsim3_calibrated\"'')
      else if ns_channel_model npu \<noteq> ''native'' \<and> ns_channel_model npu \<noteq> ''linear_logical''
        then Inl (Thrown ''synthetic_npu.fast_memory_channel_model must be \"native\" or \"linear_logical\"'')
      else if fl_le L (ns_channel_efficiency npu) (fl_zero L) \<or> fl_less L (fl_one L) (ns_channel_efficiency npu)
        then Inl (Thrown ''synthetic_npu.fast_memory_channel_efficiency must be in (0, 1]'')
      else if ns_backend npu = ''dramsim3_calibrated'' \<and> ns_calibration npu < 2
        then Inl (Thrown ''synthetic_npu.dram_macro_calibration_requests must be at least 2'')
      else Inr ())"

definition load_profile :: "('j, 'f) ConfigLib \<Rightarrow> string \<Rightarrow> ModelLayerProfile res" where
  "load_profile L file_name = bindE (parse_json L file_name) (load_model_layer_profile (cl_json L) file_name)"

definition load_profiles :: "('j, 'f) ConfigLib \<Rightarrow> 'f NpuSection \<Rightarrow> PimSection \<Rightarrow> (ModelLayerProfile \<times> ModelLayerProfile) res" where
  "load_profiles L npu pim =
     (if ns_profile npu = [] \<or> ps_profile pim = [] then Inl (Thrown ''speculative mode requires synthetic_npu/pim model_profile'')
      else bindE (load_profile L (ns_profile npu)) (\<lambda>target. bindE (load_profile L (ps_profile pim)) (\<lambda>draft. Inr (target, draft))))"

text \<open>Which devices exist: \<^verbatim>\<open>(enable_dram, enable_pim)\<close>.\<close>

definition enabled_devices :: "string \<Rightarrow> (bool \<times> bool) res" where
  "enabled_devices st =
     (if st = ''baseline'' then Inr (True, False)
      else if st = ''partitioned'' then Inr (True, True)
      else if st = ''unified'' then Inr (False, True)
      else Inl (Thrown (''Invalid memory_structure: '' @ st)))"

record 'f SystemConfig =
  sc_structure :: string
  sc_npu :: "'f NpuSection"
  sc_pim :: PimSection
  sc_work :: Workload
  sc_trace_file :: string
  sc_spec :: SpeculativeInfo
  sc_target :: ModelLayerProfile
  sc_draft :: ModelLayerProfile
  sc_host_frequency :: 'f
  sc_cycle_log_file :: string
  sc_performance_stats_file :: string
  sc_dram_on :: bool
  sc_pim_on :: bool

text \<open>The first part of \<^verbatim>\<open>init_system\<close>: the sections with their own checks.\<close>

definition read_sections ::
    "('j, 'f) ConfigLib \<Rightarrow> 'j \<Rightarrow> (string \<times> 'f NpuSection \<times> PimSection \<times> Workload \<times> string \<times> SpeculativeInfo) res" where
  "read_sections L root =
     bindE (js_at (cl_json L) root ''architecture'') (\<lambda>arch.
     bindE (js_at (cl_json L) root ''workload'') (\<lambda>work.
     bindE (str_at L arch ''memory_structure'') (\<lambda>st.
     bindE (bindE (js_at (cl_json L) root ''synthetic_npu'') (read_npu_section L)) (\<lambda>npu.
     bindE (bindE (js_at (cl_json L) root ''synthetic_pim'') (read_pim_section L)) (\<lambda>pim.
     bindE (check_granularity [(''synthetic_npu'', ns_granularity npu), (''synthetic_pim'', ps_granularity pim)]) (\<lambda>_.
     bindE (read_workload L work) (\<lambda>wl.
     bindE (bindE (js_at (cl_json L) root ''speculative'') (read_speculative L)) (\<lambda>(file, spec).
     Inr (st, npu, pim, wl, file, spec)))))))))"

definition read_outputs :: "('j, 'f) ConfigLib \<Rightarrow> 'j \<Rightarrow> ('f \<times> string \<times> string) res" where
  "read_outputs L root =
     bindE (bindE (js_at (cl_json L) root ''frequency'') (\<lambda>freq. double_at L freq ''host'')) (\<lambda>f.
     bindE (str_at L root ''cycle_log_file'') (\<lambda>log.
     bindE (str_get L root ''performance_stats_file'' []) (\<lambda>stats.
     Inr (f, (case env_override L ''HSIM_CYCLE_LOG_FILE'' of Some p \<Rightarrow> p | None \<Rightarrow> log),
          (case env_override L ''HSIM_PERFORMANCE_STATS_FILE'' of Some p \<Rightarrow> p | None \<Rightarrow> stats)))))"

definition init_system :: "('j, 'f) ConfigLib \<Rightarrow> 'f SystemConfig res" where
  "init_system L =
     bindE (parse_json L ''system'') (\<lambda>root.
     bindE (read_sections L root) (\<lambda>(st, npu, pim, wl, file, spec).
     bindE (check_speculation npu file) (\<lambda>_.
     bindE (check_npu L npu) (\<lambda>_.
     bindE (load_profiles L npu pim) (\<lambda>(target, draft).
     bindE (read_outputs L root) (\<lambda>(freq, log, stats).
     bindE (enabled_devices st) (\<lambda>(dr, pm).
     Inr \<lparr>sc_structure = st, sc_npu = npu, sc_pim = pim, sc_work = wl, sc_trace_file = file, sc_spec = spec, sc_target = target,
           sc_draft = draft, sc_host_frequency = freq, sc_cycle_log_file = log, sc_performance_stats_file = stats, sc_dram_on = dr,
           sc_pim_on = pm\<rparr>)))))))"

definition get_performance_stats_file :: "'f SystemConfig \<Rightarrow> string" where
  "get_performance_stats_file s =
     (if sc_performance_stats_file s = [] then
        (if sc_cycle_log_file s = [] then ''performance_breakdown.json'' else sc_cycle_log_file s @ ''.breakdown.json'')
      else sc_performance_stats_file s)"

section \<open>The memory file and the profiles\<close>

record 'f DeviceInfo =
  di_backend :: string
  di_type :: string
  di_config :: string
  di_preset :: string
  di_channels :: u32
  di_capacity :: u32
  di_freq :: 'f

definition read_device_info :: "('j, 'f) ConfigLib \<Rightarrow> 'j \<Rightarrow> 'f DeviceInfo res" where
  "read_device_info L v =
     bindE (str_at L v ''backend'') (\<lambda>back.
     bindE (str_at L v ''memory_type'') (\<lambda>ty.
     bindE (str_at L v ''chip_config'') (\<lambda>cfg.
     bindE (str_at L v ''timing_preset'') (\<lambda>pre.
     bindE (num_at L v ''num_channels'') (\<lambda>ch.
     bindE (num_at L v ''capacity'') (\<lambda>cap.
     bindE (double_at L v ''clock_freq'') (\<lambda>fr.
     Inr \<lparr>di_backend = back, di_type = ty, di_config = cfg, di_preset = pre, di_channels = ch, di_capacity = cap, di_freq = fr\<rparr>)))))))"

fun read_host_entries :: "('j, 'f) ConfigLib \<Rightarrow> 'j \<Rightarrow> string list \<Rightarrow> (string \<rightharpoonup> u32) \<Rightarrow> (string \<rightharpoonup> u32) res" where
  "read_host_entries L host [] m = Inr m"
| "read_host_entries L host (k # ks) m = bindE (num_at L host k) (\<lambda>v. read_host_entries L host ks (m(k \<mapsto> v)))"

definition init_host_profile :: "('j, 'f) ConfigLib \<Rightarrow> (string \<rightharpoonup> u32) \<Rightarrow> (string \<rightharpoonup> u32) res" where
  "init_host_profile L m =
     bindE (parse_json L ''profile/host'') (\<lambda>root.
     bindE (js_at (cl_json L) root ''host'') (\<lambda>host.
     bindE (cl_members L host) (\<lambda>ks. read_host_entries L host ks m)))"

definition pim_profile_file :: "Workload \<Rightarrow> string \<Rightarrow> string" where
  "pim_profile_file wl pim_type =
     ''profile/'' @ pim_type @ (if wl_input_length wl = 1024 then ''_1024'' else if wl_input_length wl = 512 then ''_512'' else []) @
     (if wl_model wl = ''gemma2-9B'' then ''_9b'' else [])"

definition channel_latency_scale :: "('j, 'f) ConfigLib \<Rightarrow> u32 \<Rightarrow> 'j \<Rightarrow> string \<Rightarrow> 'f res" where
  "channel_latency_scale L nch channel_scaling operation =
     (if js_isNull (cl_json L) channel_scaling then Inr (fl_one L)
      else
        bindE (bindE (js_isMember (cl_json L) channel_scaling operation) (\<lambda>b.
               js_at (cl_json L) channel_scaling (if b then operation else ''default''))) (\<lambda>scaling.
        if js_isNull (cl_json L) scaling then Inr (fl_one L)
        else
          bindE (double_get L scaling ''parallel_fraction'' (fl_zero L)) (\<lambda>frac.
          bindE (double_get L scaling ''efficiency'' (fl_one L)) (\<lambda>eff.
          bindE (num_get L scaling ''saturation_channels'' 1) (\<lambda>sat.
          if fl_less L frac (fl_zero L) \<or> fl_less L (fl_one L) frac \<or> fl_less L eff (fl_zero L) \<or> fl_less L (fl_one L) eff \<or> sat = 0
          then Inl (Thrown (''Invalid channel_scaling for PIM operation: '' @ operation))
          else Inr (fl_scale L frac eff (min nch sat)))))))"

text \<open>A member that must exist and have the given type.\<close>

definition typed_member :: "('j, 'f) ConfigLib \<Rightarrow> ('j \<Rightarrow> bool) \<Rightarrow> string \<Rightarrow> 'j \<Rightarrow> string \<Rightarrow> 'j res" where
  "typed_member L is_type operation ent k =
     bindE (js_isMember (cl_json L) ent k) (\<lambda>b.
     if \<not> b then Inl (Thrown (''Missing or invalid '' @ CHR 0x27 # k @ CHR 0x27 # '' in operation '' @ CHR 0x27 # operation @ [CHR 0x27]))
     else
       bindE (js_at (cl_json L) ent k) (\<lambda>v.
       if \<not> is_type v then Inl (Thrown (''Missing or invalid '' @ CHR 0x27 # k @ CHR 0x27 # '' in operation '' @ CHR 0x27 # operation @ [CHR 0x27]))
       else Inr v))"

record PimEntries =
  pe_cmds :: "string \<rightharpoonup> u32 \<times> u32"
  pe_order :: "string list"
  pe_tile :: "u32 option"

definition read_pim_entry :: "('j, 'f) ConfigLib \<Rightarrow> string \<Rightarrow> 'j \<Rightarrow> PimEntries \<Rightarrow> PimEntries res" where
  "read_pim_entry L operation ent pe =
     bindE (js_isMember (cl_json L) ent ''output_tile'') (\<lambda>b.
     if b then
       bindE (js_at (cl_json L) ent ''output_tile'') (\<lambda>v.
       if \<not> cl_isUInt L v
       then Inl (Thrown (''Invalid '' @ CHR 0x27 # ''output_tile'' @ CHR 0x27 # '' value in operation '' @ CHR 0x27 # operation @ [CHR 0x27]))
       else bindE (js_asUInt (cl_json L) v) (\<lambda>x. Inr (pe\<lparr>pe_tile := Some x\<rparr>)))
     else
       bindE (typed_member L (cl_isString L) operation ent ''name'') (\<lambda>nv.
       bindE (typed_member L (cl_isUInt L) operation ent ''latency'') (\<lambda>lv.
       bindE (typed_member L (cl_isUInt L) operation ent ''count'') (\<lambda>cv.
       bindE (js_asString (cl_json L) nv) (\<lambda>cmd.
       bindE (js_asUInt (cl_json L) lv) (\<lambda>lat.
       bindE (js_asUInt (cl_json L) cv) (\<lambda>cnt.
       Inr (pe\<lparr>pe_cmds := (pe_cmds pe)(cmd \<mapsto> (lat, cnt)), pe_order := pe_order pe @ [cmd]\<rparr>))))))))"

fun read_pim_entries :: "('j, 'f) ConfigLib \<Rightarrow> string \<Rightarrow> 'j list \<Rightarrow> PimEntries \<Rightarrow> PimEntries res" where
  "read_pim_entries L operation [] pe = Inr pe"
| "read_pim_entries L operation (e # es) pe = bindE (read_pim_entry L operation e pe) (read_pim_entries L operation es)"

record 'f PimProfiles =
  pp_profile :: "string \<rightharpoonup> PIMCmdProfile"
  pp_scale :: "string \<Rightarrow> 'f"
  pp_tiles :: "string \<rightharpoonup> u32"

definition read_pim_layer :: "('j, 'f) ConfigLib \<Rightarrow> u32 \<Rightarrow> 'j \<Rightarrow> 'j \<Rightarrow> 'j \<Rightarrow> string \<Rightarrow> 'f PimProfiles \<Rightarrow> 'f PimProfiles res" where
  "read_pim_layer L nch opers layers channel_scaling name pp =
     bindE (str_at L layers name) (\<lambda>operation.
     bindE (js_at (cl_json L) opers operation) (\<lambda>cmd_array.
     bindE (channel_latency_scale L nch channel_scaling operation) (\<lambda>scale.
     bindE (read_pim_entries L operation (js_elems (cl_json L) cmd_array) \<lparr>pe_cmds = Map.empty, pe_order = [], pe_tile = None\<rparr>) (\<lambda>pe.
     Inr \<lparr>pp_profile = (pp_profile pp)(name \<mapsto>
            \<lparr>cmd_map = pe_cmds pe, cmd_map_size = length (remdups (pe_order pe)), ordered_cmd_name = pe_order pe\<rparr>),
          pp_scale = (pp_scale pp)(name := scale),
          pp_tiles = (case pe_tile pe of None \<Rightarrow> pp_tiles pp | Some x \<Rightarrow> (pp_tiles pp)(name \<mapsto> x))\<rparr>))))"

fun read_pim_layers :: "('j, 'f) ConfigLib \<Rightarrow> u32 \<Rightarrow> 'j \<Rightarrow> 'j \<Rightarrow> 'j \<Rightarrow> string list \<Rightarrow> 'f PimProfiles \<Rightarrow> 'f PimProfiles res" where
  "read_pim_layers L nch opers layers channel_scaling [] pp = Inr pp"
| "read_pim_layers L nch opers layers channel_scaling (n # ns) pp =
     bindE (read_pim_layer L nch opers layers channel_scaling n pp) (read_pim_layers L nch opers layers channel_scaling ns)"

record 'f MemoryConfig =
  mf_req_size :: u32
  mf_dram :: "'f DeviceInfo"
  mf_pim :: "'f DeviceInfo"
  mf_host_profile :: "string \<rightharpoonup> u32"
  mf_mode_delay :: "u32 \<times> u32"
  mf_profiles :: "'f PimProfiles"

definition init_pim_profile ::
    "('j, 'f) ConfigLib \<Rightarrow> Workload \<Rightarrow> 'f DeviceInfo \<Rightarrow> (string \<rightharpoonup> u32) \<Rightarrow> ((string \<rightharpoonup> u32) \<times> (u32 \<times> u32) \<times> 'f PimProfiles) res" where
  "init_pim_profile L wl pim hp =
     bindE (init_host_profile L hp) (\<lambda>hp1.
     bindE (parse_json L (pim_profile_file wl (di_type pim))) (\<lambda>root.
     bindE (js_at (cl_json L) root ''mode_change_delay'') (\<lambda>md.
     bindE (num_at L md ''PIM_to_DRAM'') (\<lambda>p2d.
     bindE (num_at L md ''DRAM_to_PIM'') (\<lambda>d2p.
     bindE (js_at (cl_json L) root ''operations'') (\<lambda>opers.
     bindE (js_at (cl_json L) root ''layers'') (\<lambda>layers.
     bindE (js_at (cl_json L) root ''channel_scaling'') (\<lambda>scaling.
     bindE (cl_members L layers) (\<lambda>names.
     bindE (read_pim_layers L (di_channels pim) opers layers scaling names
              \<lparr>pp_profile = Map.empty, pp_scale = (\<lambda>_. fl_one L), pp_tiles = Map.empty\<rparr>) (\<lambda>pp.
     Inr (hp1, (p2d, d2p), pp)))))))))))"

definition init_dram :: "('j, 'f) ConfigLib \<Rightarrow> Workload \<Rightarrow> 'f MemoryConfig res" where
  "init_dram L wl =
     bindE (parse_json L ''memory'') (\<lambda>root.
     bindE (num_at L root ''request_size'') (\<lambda>sz.
     bindE (bindE (js_at (cl_json L) root ''dram'') (read_device_info L)) (\<lambda>dram.
     bindE (bindE (js_at (cl_json L) root ''pim'') (read_device_info L)) (\<lambda>pim.
     bindE (init_host_profile L Map.empty) (\<lambda>hp.
     bindE (init_pim_profile L wl pim hp) (\<lambda>(hp1, delays, pp).
     Inr \<lparr>mf_req_size = sz, mf_dram = dram, mf_pim = pim, mf_host_profile = hp1, mf_mode_delay = delays, mf_profiles = pp\<rparr>))))))"

definition init_configurations :: "('j, 'f) ConfigLib \<Rightarrow> ('f SystemConfig \<times> 'f MemoryConfig) res" where
  "init_configurations L =
     bindE (init_system L) (\<lambda>s.
     if wl_mode (sc_work s) \<noteq> ''speculative'' \<or> \<not> ns_enabled (sc_npu s)
     then Inl (Thrown ''This artifact supports speculative replay with synthetic_npu.enabled=true only'')
     else bindE (init_dram L (sc_work s)) (\<lambda>m. Inr (s, m)))"

text \<open>What the host and the NPU copy from the configuration.\<close>

definition get_synthetic_npu_info :: "'f SystemConfig \<Rightarrow> SyntheticNPUInfo" where
  "get_synthetic_npu_info s =
     \<lparr>compute_ns_per_layer = ns_compute_ns (sc_npu s), output_write_bytes_per_layer = ns_output_bytes (sc_npu s),
      max_inflight_requests = ns_window (sc_npu s), npu_fast_layer_mode = ns_fast (sc_npu s),
      npu_fast_macro = (ns_granularity (sc_npu s) = ''macro''), analytical_compute_enabled = ns_analytical (sc_npu s)\<rparr>"

definition get_synthetic_pim_info :: "'f SystemConfig \<Rightarrow> SyntheticPIMInfo" where
  "get_synthetic_pim_info s =
     \<lparr>spi_enabled = ps_enabled (sc_pim s), aggregate_micro_commands = ps_aggregate (sc_pim s), pim_fast_layer_mode = ps_fast (sc_pim s),
      pim_fast_macro = (ps_granularity (sc_pim s) = ''macro'')\<rparr>"

definition Host_config :: "'f SystemConfig \<Rightarrow> 'f MemoryConfig \<Rightarrow> HostFloats \<Rightarrow> SpeculativeControl list \<Rightarrow> HostConfig" where
  "Host_config s m fl cs =
     \<lparr>hc_spec = sc_spec s, hc_pim = get_synthetic_pim_info s, hc_draft = sc_draft s,
      hc_host_profile = (\<lambda>k. case mf_host_profile m k of None \<Rightarrow> 0 | Some v \<Rightarrow> v), hc_pim_profile = pp_profile (mf_profiles m),
      hc_tiles = pp_tiles (mf_profiles m), hc_pim_wait = [], hc_pim_sync = [], hc_controls = cs, hc_floats = fl\<rparr>"


section \<open>What an accepted configuration satisfies\<close>

definition npu_ok :: "('j, 'f) ConfigLib \<Rightarrow> 'f NpuSection \<Rightarrow> bool" where
  "npu_ok L s = (ns_enabled s \<and> ns_window s \<noteq> 0 \<and> ns_granularity s \<in> {''macro'', ''layer''}
     \<and> ns_backend s \<in> {''analytic'', ''dramsim3_calibrated''} \<and> ns_channel_model s \<in> {''native'', ''linear_logical''}
     \<and> (ns_backend s = ''dramsim3_calibrated'' \<longrightarrow> 2 \<le> ns_calibration s) \<and> ns_macs s \<noteq> 0
     \<and> (ns_fast s \<longrightarrow> \<not> fl_le L (ns_bandwidth s) (fl_zero L))
     \<and> \<not> fl_le L (ns_channel_efficiency s) (fl_zero L) \<and> \<not> fl_less L (fl_one L) (ns_channel_efficiency s))"

definition layers_ok :: "ModelLayerProfile \<Rightarrow> bool" where
  "layers_ok lp = (layer_count lp \<noteq> 0 \<and> operations lp \<noteq> [] \<and> (\<forall>x \<in> set (operations lp). op_name x \<noteq> [] \<and> compute_share x \<noteq> 0))"

text \<open>Every command of the order can be looked up, and the size is the number of entries.\<close>

definition cmd_profile_ok :: "PIMCmdProfile \<Rightarrow> bool" where
  "cmd_profile_ok p = (dom (cmd_map p) = set (ordered_cmd_name p) \<and> cmd_map_size p = card (dom (cmd_map p)))"

lemma check_granularity_ok: "check_granularity xs = Inr () \<longleftrightarrow> (\<forall>(who, gran) \<in> set xs. gran \<in> {''macro'', ''layer''})"
  by (induction xs) (auto split: if_splits)

lemma read_npu_section_macs:
  assumes "read_npu_section L v = Inr s"
  shows "ns_macs s \<noteq> 0"
proof (cases "js_isNull (cl_json L) v")
  case False
  then obtain s2 where "read_npu_compute L v s2 = Inr s" using assms by (auto simp: read_npu_section_def res_simps)
  then show ?thesis unfolding read_npu_compute_def by (auto simp: res_simps split: if_splits)
qed (use assms in \<open>auto simp: read_npu_section_def npu_default_def\<close>)

lemma read_workload_mode: "read_workload L v = Inr w \<Longrightarrow> wl_mode w = ''speculative''"
  unfolding read_workload_def by (auto simp: res_simps split: if_splits)

lemma read_speculative_index: "read_speculative L v = Inr (fname, spec) \<Longrightarrow> - 1 \<le> si_sample_index spec"
  unfolding read_speculative_def by (auto simp: res_simps spec_default_def split: if_splits)

lemma load_profile_ok: "load_profile L file_name = Inr lp \<Longrightarrow> layers_ok lp"
  unfolding load_profile_def layers_ok_def by (auto simp: res_simps dest: load_model_layer_profile_ok)

lemma read_sections_ok:
  assumes "read_sections L root = Inr (st, npu, pim, wl, fname, spec)"
  shows "ns_macs npu \<noteq> 0" "ns_granularity npu \<in> {''macro'', ''layer''}" "ps_granularity pim \<in> {''macro'', ''layer''}"
    "wl_mode wl = ''speculative''" "- 1 \<le> si_sample_index spec"
  using assms unfolding read_sections_def
  by (auto simp: res_simps check_granularity_ok simp del: check_granularity.simps dest: read_npu_section_macs read_workload_mode read_speculative_index)

lemma init_system_ok:
  assumes "init_system L = Inr s"
  shows "npu_ok L (sc_npu s)" "ps_granularity (sc_pim s) \<in> {''macro'', ''layer''}" "wl_mode (sc_work s) = ''speculative''"
    "- 1 \<le> si_sample_index (sc_spec s)" "sc_trace_file s \<noteq> []" "layers_ok (sc_target s)" "layers_ok (sc_draft s)"
    "enabled_devices (sc_structure s) = Inr (sc_dram_on s, sc_pim_on s)"
proof -
  obtain root st npu pim wl fname spec target draft freq log stats dr pm where i:
    "read_sections L root = Inr (st, npu, pim, wl, fname, spec)" "check_speculation npu fname = Inr ()" "check_npu L npu = Inr ()"
    "load_profiles L npu pim = Inr (target, draft)" "enabled_devices st = Inr (dr, pm)"
    "s = \<lparr>sc_structure = st, sc_npu = npu, sc_pim = pim, sc_work = wl, sc_trace_file = fname, sc_spec = spec, sc_target = target,
           sc_draft = draft, sc_host_frequency = freq, sc_cycle_log_file = log, sc_performance_stats_file = stats, sc_dram_on = dr,
           sc_pim_on = pm\<rparr>"
    using assms unfolding init_system_def by (auto simp: res_simps)
  note sec = read_sections_ok [OF i(1)]
  have c: "fname \<noteq> []" "ns_enabled npu" using i(2) by (auto simp: check_speculation_def split: if_splits)
  have n: "ns_window npu \<noteq> 0" "ns_backend npu \<in> {''analytic'', ''dramsim3_calibrated''}" "ns_channel_model npu \<in> {''native'', ''linear_logical''}"
    "ns_backend npu = ''dramsim3_calibrated'' \<longrightarrow> 2 \<le> ns_calibration npu" "ns_fast npu \<longrightarrow> \<not> fl_le L (ns_bandwidth npu) (fl_zero L)"
    "\<not> fl_le L (ns_channel_efficiency npu) (fl_zero L)" "\<not> fl_less L (fl_one L) (ns_channel_efficiency npu)"
    using i(3) c(2) unfolding check_npu_def by (auto split: if_splits)
  have "layers_ok target" "layers_ok draft" using i(4) by (auto simp: load_profiles_def res_simps dest: load_profile_ok split: if_splits)
  then show "npu_ok L (sc_npu s)" "ps_granularity (sc_pim s) \<in> {''macro'', ''layer''}" "wl_mode (sc_work s) = ''speculative''"
    "- 1 \<le> si_sample_index (sc_spec s)" "sc_trace_file s \<noteq> []" "layers_ok (sc_target s)" "layers_ok (sc_draft s)"
    "enabled_devices (sc_structure s) = Inr (sc_dram_on s, sc_pim_on s)"
    using sec c n i(5) by (simp_all add: npu_ok_def i(6))
qed

definition entries_ok :: "PimEntries \<Rightarrow> bool" where
  "entries_ok pe = (dom (pe_cmds pe) = set (pe_order pe))"

lemma read_pim_entries_ok: "read_pim_entries L opn es pe = Inr pe' \<Longrightarrow> entries_ok pe \<Longrightarrow> entries_ok pe'"
proof (induction es arbitrary: pe)
  case (Cons e es)
  obtain pe1 where 1: "read_pim_entry L opn e pe = Inr pe1" "read_pim_entries L opn es pe1 = Inr pe'" using Cons.prems(1) by (auto simp: res_simps)
  have "(\<exists>x. pe1 = pe\<lparr>pe_tile := x\<rparr>) \<or> (\<exists>cmd v. pe1 = pe\<lparr>pe_cmds := (pe_cmds pe)(cmd \<mapsto> v), pe_order := pe_order pe @ [cmd]\<rparr>)"
    using 1(1) unfolding read_pim_entry_def by (auto simp only: res_simps split: if_splits)
  then have "entries_ok pe1" using Cons.prems(2) by (elim disjE exE) (simp_all add: entries_ok_def)
  then show ?case using Cons.IH [OF 1(2)] by simp
qed simp

definition profiles_ok :: "'f PimProfiles \<Rightarrow> bool" where
  "profiles_ok pp = (\<forall>p \<in> ran (pp_profile pp). cmd_profile_ok p)"

lemma read_pim_layers_ok: "read_pim_layers L nch opers layers scaling ns pp = Inr pp' \<Longrightarrow> profiles_ok pp \<Longrightarrow> profiles_ok pp'"
proof (induction ns arbitrary: pp)
  case (Cons n ns)
  obtain pp1 where 1: "read_pim_layer L nch opers layers scaling n pp = Inr pp1" "read_pim_layers L nch opers layers scaling ns pp1 = Inr pp'"
    using Cons.prems(1) by (auto simp: res_simps)
  obtain opn es pe where pe: "read_pim_entries L opn es \<lparr>pe_cmds = Map.empty, pe_order = [], pe_tile = None\<rparr> = Inr pe"
    "pp_profile pp1 = (pp_profile pp)(n \<mapsto> \<lparr>cmd_map = pe_cmds pe, cmd_map_size = length (remdups (pe_order pe)), ordered_cmd_name = pe_order pe\<rparr>)"
    using 1(1) unfolding read_pim_layer_def by (auto simp: res_simps)
  have e: "dom (pe_cmds pe) = set (pe_order pe)" using read_pim_entries_ok [OF pe(1)] by (simp add: entries_ok_def)
  have ran: "\<forall>p \<in> ran (f(n \<mapsto> q)). P p" if "\<forall>p \<in> ran f. P p" "P q" for f q and P :: "PIMCmdProfile \<Rightarrow> bool"
    using that by (auto simp: ran_def)
  have "profiles_ok pp1"
    using Cons.prems(2) unfolding profiles_ok_def pe(2) by (rule ran) (simp add: cmd_profile_ok_def e length_remdups_card_conv)
  then show ?case using Cons.IH [OF 1(2)] by simp
qed simp

lemma init_dram_ok:
  assumes "init_dram L wl = Inr m"
  shows "profiles_ok (mf_profiles m)"
proof -
  have "profiles_ok pp" if "init_pim_profile L wl pim hp = Inr (hp1, d, pp)" for pim hp hp1 d pp
    using that unfolding init_pim_profile_def
    by (auto simp: res_simps profiles_ok_def dest!: read_pim_layers_ok)
  then show ?thesis using assms unfolding init_dram_def by (auto simp: res_simps)
qed


section \<open>Computations with known failures\<close>

definition fails_only :: "(failure \<Rightarrow> bool) \<Rightarrow> 'a res \<Rightarrow> bool" where
  "fails_only P r = (case r of Inl e \<Rightarrow> P e | Inr _ \<Rightarrow> True)"

lemma fails_only_simps [simp]: "fails_only P (Inr x)" "fails_only P (Inl e) = P e"
  by (simp_all add: fails_only_def)

lemma fails_only_bind: "fails_only P m \<Longrightarrow> (\<And>x. m = Inr x \<Longrightarrow> fails_only P (f x)) \<Longrightarrow> fails_only P (bindE m f)"
  by (cases m) simp_all

lemma fails_only_mono: "fails_only P m \<Longrightarrow> (\<And>e. P e \<Longrightarrow> Q e) \<Longrightarrow> fails_only Q m"
  by (cases m) simp_all

lemma fails_only_sum: "(\<And>x. fails_only P (f x)) \<Longrightarrow> fails_only P (sum_res f xs)"
  by (induction xs) (auto intro!: fails_only_bind)

lemma fails_only_concat: "(\<And>x. fails_only P (f x)) \<Longrightarrow> fails_only P (concat_res f xs)"
  by (induction xs) (auto intro!: fails_only_bind)

lemma fails_only_ops: "(\<And>b a x. fails_only P (cmp b a x)) \<Longrightarrow> fails_only P (ops_loop acts cmp xs a)"
  by (induction xs arbitrary: a) (auto intro!: fails_only_bind)

section \<open>The replay under an accepted configuration\<close>

text \<open>The shares of a profile add up to zero only if their sum leaves the 32 bits.\<close>

lemma replay_fails_only:
  assumes "layers_ok lp"
  shows "fails_only (\<lambda>e. e = DivByZero \<and> 2 ^ 32 \<le> (\<Sum>x \<leftarrow> operations lp. unat (compute_share x))) (replay_trace op_ns prof lp s)"
proof (cases "(\<Sum>x \<leftarrow> operations lp. unat (compute_share x)) < 2 ^ 32")
  case True
  have "\<exists>as s'. replay_trace op_ns prof lp s = Inr (as, s')" by (rule profile_replays [OF _ _ True]) (use assms in \<open>simp_all add: layers_ok_def\<close>)
  then show ?thesis by auto
next
  case False
  let ?P = "\<lambda>e. e = DivByZero \<and> 2 ^ 32 \<le> (\<Sum>x \<leftarrow> operations lp. unat (compute_share x))"
  have "fails_only ?P (op_compute op_ns prof s1 k b a x)" for s1 k b a x using False by (simp add: op_compute_def)
  then have "fails_only ?P (fast_layer_actions op_ns prof lp s1 mul layer)" "fails_only ?P (layer_actions op_ns prof lp s1 layer)" for s1 mul layer
    unfolding fast_layer_actions_def layer_actions_def by (auto intro!: fails_only_bind fails_only_ops simp: Let_def)
  then show ?thesis unfolding replay_trace_def Let_def by (auto intro!: fails_only_bind fails_only_concat)
qed

text \<open>The host fails to launch a draft only if nothing matches, or if it divides by an attention tile of no tokens.\<close>

definition host_config_ok :: "HostConfig \<Rightarrow> bool" where
  "host_config_ok cfg = ((\<forall>p \<in> ran (hc_pim_profile cfg). cmd_profile_ok p) \<and> layer_count (hc_draft cfg) \<noteq> 0)"

abbreviation zero_tile :: "HostConfig \<Rightarrow> failure \<Rightarrow> bool" where
  "zero_tile cfg e \<equiv> e = DivByZero \<and> attention_context_tile_tokens (hc_draft cfg) = 0"

lemma cmd_at_total:
  assumes "cmd_profile_ok p" "n \<in> set (ordered_cmd_name p)"
  obtains d c where "cmd_at p n = Inr (d, c)"
proof -
  have "n \<in> dom (cmd_map p)" using assms by (simp add: cmd_profile_ok_def)
  then show ?thesis using that by (auto simp: cmd_at_def)
qed

lemma commands_total:
  assumes "cmd_profile_ok p" "set ns \<subseteq> set (ordered_cmd_name p)"
  shows "\<exists>k. commands_per_tile p ns = Inr k" "\<exists>sd. summed_delay p tiles mul ns = Inr sd"
proof -
  show "\<exists>k. commands_per_tile p ns = Inr k"
    using assms(2)
  proof (induction ns)
    case (Cons n ns)
    obtain d c where "cmd_at p n = Inr (d, c)" using cmd_at_total [OF assms(1)] Cons.prems by auto
    then show ?case using Cons by auto
  qed simp
  show "\<exists>sd. summed_delay p tiles mul ns = Inr sd"
    using assms(2)
  proof (induction ns)
    case (Cons n ns)
    obtain d c where "cmd_at p n = Inr (d, c)" using cmd_at_total [OF assms(1)] Cons.prems by auto
    then show ?case using Cons by auto
  qed simp
qed

lemma tile_bursts_total:
  assumes "cmd_profile_ok p"
  shows "\<exists>xs. tile_bursts fl p k nm layer = Inr xs"
proof -
  have "\<exists>ys. command_bursts fl p nm layer n = Inr ys" if "n \<in> set (ordered_cmd_name p)" for n
    by (rule cmd_at_total [OF assms that]) (simp add: command_bursts_def)
  then have "\<exists>ys. concat_res (command_bursts fl p nm layer) (ordered_cmd_name p) = Inr ys" by (rule concat_res_total_on)
  then show ?thesis unfolding tile_bursts_def by (rule concat_res_total)
qed

lemma op_profile_ok: "host_config_ok cfg \<Longrightarrow> op_profile cfg nm = Some (p, tiles) \<Longrightarrow> cmd_profile_ok p"
  by (auto simp: host_config_ok_def op_profile_def ran_def split: option.splits prod.splits)

lemma attention_tiles_fails: "fails_only (zero_tile cfg) (draft_attention_tiles (hc_draft cfg) x w)"
  by (simp add: draft_attention_tiles_def)

lemma op_fails_only:
  assumes "host_config_ok cfg"
  shows "fails_only (zero_tile cfg) (op_transactions cfg w x)" "fails_only (zero_tile cfg) (op_stream cfg c w i x)"
proof -
  have "fails_only (zero_tile cfg) (op_transactions cfg w x) \<and> fails_only (zero_tile cfg) (op_stream cfg c w i x)"
  proof (cases "op_profile cfg (op_name x)")
    case (Some e)
    obtain p tiles where e: "e = (p, tiles)" by (cases e)
    have p: "cmd_profile_ok p" using op_profile_ok [OF assms] Some e by blast
    obtain k where k: "commands_per_tile p (ordered_cmd_name p) = Inr k" using commands_total(1) [OF p] by blast
    have tb: "fails_only P (tile_bursts fl p t nm layer)" for P fl t nm layer using tile_bursts_total [OF p, of fl t nm layer] by auto
    have sd: "fails_only P (summed_delay p t mul (ordered_cmd_name p))" for P t mul using commands_total(2) [OF p, of "ordered_cmd_name p" t mul] by auto
    have "fails_only (zero_tile cfg) (op_transactions cfg w x)"
      using Some e k attention_tiles_fails by (auto simp: op_transactions_def intro!: fails_only_bind)
    moreover have "fails_only (zero_tile cfg) (op_stream cfg c w i x)"
      using Some e tb sd attention_tiles_fails by (auto simp: op_stream_def Let_def intro!: fails_only_bind)
    ultimately show ?thesis ..
  qed (simp add: op_transactions_def op_stream_def)
  then show "fails_only (zero_tile cfg) (op_transactions cfg w x)" "fails_only (zero_tile cfg) (op_stream cfg c w i x)" by simp_all
qed

abbreviation no_draft_error :: failure where
  "no_draft_error \<equiv> Thrown ''No draft PIM operations match the active LPDDR5 profile''"

abbreviation draft_failure :: "HostConfig \<Rightarrow> failure \<Rightarrow> bool" where
  "draft_failure cfg e \<equiv> e = no_draft_error \<or> zero_tile cfg e"

lemma launch_draft_fails_only:
  assumes "host_config_ok cfg" "spi_enabled (hc_pim cfg) \<or> op_profile cfg (draft_profile_layer (hc_spec cfg)) \<noteq> None"
  shows "fails_only (draft_failure cfg) (launch_draft cfg c h)"
proof (cases "spi_enabled (hc_pim cfg)")
  case True
  have "fails_only (draft_failure cfg) (per_decoder_layer_transactions cfg (draft_work_items c))"
    unfolding per_decoder_layer_transactions_def
    by (intro fails_only_sum fails_only_mono [OF op_fails_only(1) [OF assms(1)]]) simp
  moreover have "fails_only (draft_failure cfg) (synthetic_stream cfg c (draft_work_items c))"
    unfolding synthetic_stream_def by (intro fails_only_concat fails_only_mono [OF op_fails_only(2) [OF assms(1)]]) simp
  ultimately show ?thesis using True assms(1) by (auto simp: launch_draft_def Let_def host_config_ok_def intro!: fails_only_bind)
next
  case False
  then obtain p tiles where e: "op_profile cfg (draft_profile_layer (hc_spec cfg)) = Some (p, tiles)" using assms(2) by auto
  have p: "cmd_profile_ok p" by (rule op_profile_ok [OF assms(1) e])
  obtain k where k: "commands_per_tile p (ordered_cmd_name p) = Inr k" using commands_total(1) [OF p] by blast
  have "\<exists>xs. template_stream cfg c p tiles (draft_work_items c) = Inr xs"
    unfolding template_stream_def by (rule concat_res_total) (rule tile_bursts_total [OF p])
  then show ?thesis using False e k by (auto simp: launch_draft_def Let_def)
qed

lemma next_control_fails_only:
  assumes "host_config_ok cfg" "spi_enabled (hc_pim cfg) \<or> op_profile cfg (draft_profile_layer (hc_spec cfg)) \<noteq> None"
  shows "fails_only (draft_failure cfg) (next_control cfg tc now rs h g)"
  using launch_draft_fails_only [OF assms] by (auto simp: next_control_def Let_def intro!: fails_only_bind split: list.split)

lemma accepted_host_config:
  assumes "init_configurations L = Inr (s, m)"
  shows "host_config_ok (Host_config s m fl rs)"
proof -
  have i: "init_system L = Inr s" "init_dram L (sc_work s) = Inr m"
    using assms(1) by (auto simp: init_configurations_def res_simps split: if_splits)
  show ?thesis
    using init_system_ok(7) [OF i(1)] init_dram_ok [OF i(2)] by (simp add: host_config_ok_def Host_config_def layers_ok_def profiles_ok_def)
qed


section \<open>A concrete configuration\<close>

text \<open>Floating-point numbers in tenths.\<close>

definition sample_files :: "(string \<times> json) list" where
  "sample_files =
     [(''hsim/configs/system.json'', JObj
         [(''architecture'', JObj [(''memory_structure'', JStr ''partitioned'')]), (''workload'', JObj [(''model'', JStr ''m'')]),
          (''frequency'', JObj [(''host'', JNum 20)]), (''synthetic_npu'', JObj [(''enabled'', JBool True), (''model_profile'', JStr ''target'')]),
          (''synthetic_pim'', JObj [(''enabled'', JBool True), (''model_profile'', JStr ''draft'')]),
          (''speculative'', JObj [(''control_trace_file'', JStr ''trace'')])]),
      (''hsim/configs/memory.json'', JObj [(''request_size'', JNum 64), (''dram'', JObj [(''num_channels'', JNum 1)]), (''pim'', JObj [(''memory_type'', JStr ''LP'')])]),
      (''hsim/configs/profile/host.json'', JObj [(''host'', JObj [(''softmax'', JNum 7)])]),
      (''hsim/configs/profile/LP.json'', JObj
         [(''operations'', JObj [(''gemv'', JArr [JObj [(''output_tile'', JNum 2)], JObj [(''name'', JStr ''mac''), (''latency'', JNum 5), (''count'', JNum 3)]])]),
          (''layers'', JObj [(''qkt'', JStr ''gemv'')])]),
      (''hsim/configs/target.json'', JObj [(''decoder_layers'', JNum 2), (''operations'', JArr [JObj [(''name'', JStr ''qkt''), (''compute_share'', JNum 3)]])]),
      (''hsim/configs/draft.json'', JObj [(''decoder_layers'', JNum 1), (''operations'', JArr [JObj [(''name'', JStr ''qkt'')]])])]"

definition sample_lib :: "(json, int) ConfigLib" where
  "sample_lib =
     \<lparr>cl_json = json_ops sample_files, cl_asInt = json_num (- (2 ^ 31)) (2 ^ 31), cl_asDouble = json_num (- (2 ^ 62)) (2 ^ 62),
      cl_isUInt = (\<lambda>v. case v of JNum i \<Rightarrow> 0 \<le> i \<and> i < 2 ^ 32 | _ \<Rightarrow> False), cl_isString = (\<lambda>v. case v of JStr _ \<Rightarrow> True | _ \<Rightarrow> False),
      cl_members = (\<lambda>v. case v of JObj m \<Rightarrow> Inr (map fst m) | JNull \<Rightarrow> Inr [] | _ \<Rightarrow> Inl (Thrown ''not an object'')),
      cl_double = JNum, fl_zero = 0, fl_half = 5, fl_one = 10, fl_25_6 = 256, fl_le = (\<le>), fl_less = (<), fl_scale = (\<lambda>f e n. 10),
      read_file = Some, root_path = [], absolute_path = (\<lambda>p. CHR ''/'' # p), getenv = (\<lambda>_. None)\<rparr>"

lemma sample_lib_loads:
  "\<exists>s m. init_configurations sample_lib = Inr (s, m) \<and> attention_context_tile_tokens (sc_draft s) = 128
    \<and> map compute_share (operations (sc_target s)) = [3] \<and> sc_dram_on s \<and> sc_pim_on s"
proof -
  have "case init_configurations sample_lib of
      Inr (s, m) \<Rightarrow> attention_context_tile_tokens (sc_draft s) = 128 \<and> map compute_share (operations (sc_target s)) = [3] \<and> sc_dram_on s \<and> sc_pim_on s
    | Inl _ \<Rightarrow> False" by code_simp
  then show ?thesis by (auto split: sum.splits)
qed

section \<open>Properties\<close>

text \<open>
  Claim C10. A configuration is accepted only if it is consistent: the NPU is enabled with a window and a throughput that are not zero, a bandwidth that
  is positive in the fast mode and a channel efficiency between zero and one, the modes are among the known ones, a calibrated memory has enough calibration requests, there is a control trace and a valid
  sample index, both model profiles have layers and operations with shares that are not zero, every command of the order of a PIM profile has its
  delay and count, and the devices that exist are those of the memory structure: the DRAM (baseline), both (partitioned) or the PIM device (unified).
\<close>

theorem accepted_configuration_valid:
  assumes "init_configurations L = Inr (s, m)"
  shows "npu_ok L (sc_npu s) \<and> ps_granularity (sc_pim s) \<in> {''macro'', ''layer''} \<and> - 1 \<le> si_sample_index (sc_spec s) \<and> sc_trace_file s \<noteq> []
    \<and> layers_ok (sc_target s) \<and> layers_ok (sc_draft s) \<and> profiles_ok (mf_profiles m)
    \<and> (sc_structure s, sc_dram_on s, sc_pim_on s) \<in> {(''baseline'', True, False), (''partitioned'', True, True), (''unified'', False, True)}"
proof -
  have i: "init_system L = Inr s" "init_dram L (sc_work s) = Inr m"
    using assms by (auto simp: init_configurations_def res_simps split: if_splits)
  note s = init_system_ok [OF i(1)]
  have "(sc_structure s, sc_dram_on s, sc_pim_on s) \<in> {(''baseline'', True, False), (''partitioned'', True, True), (''unified'', False, True)}" using s(8) by (auto simp: enabled_devices_def split: if_splits)
  then show ?thesis using s init_dram_ok [OF i(2)] by simp
qed

theorem accepted_configuration_valid_witness:
  "\<exists>s m. init_configurations sample_lib = Inr (s, m) \<and> npu_ok sample_lib (sc_npu s) \<and> profiles_ok (mf_profiles m)"
proof -
  obtain s m where i: "init_configurations sample_lib = Inr (s, m)" using sample_lib_loads by blast
  from accepted_configuration_valid [OF i] i show ?thesis by blast
qed

text \<open>
  Claim C11. An accepted configuration replays: a run of the NPU returns its actions in every mode, unless the shares of the target do not add up
  within 32 bits and their sum is zero there; and the host starts the replay of its control records or reports one of
  two errors, that the draft template is missing or that no draft operation matches, unless the attention tile of the draft profile has no tokens and
  the number of tiles is a division by zero.  There is no other failure: no failed look-up, missing layer or other division.
\<close>

theorem accepted_configuration_replays:
  assumes "init_configurations L = Inr (s, m)"
  shows "(case replay_trace op_ns (get_synthetic_npu_info s) (sc_target s) npu of
         Inr r \<Rightarrow> True
       | Inl e \<Rightarrow> e = DivByZero \<and> 2 ^ 32 \<le> (\<Sum>x \<leftarrow> operations (sc_target s). unat (compute_share x)))
    \<and> (case handle_speculative_trace (Host_config s m fl rs) tc now h g of
         Inr r \<Rightarrow> True
       | Inl e \<Rightarrow> e = Thrown (''Missing PIM draft template: '' @ draft_profile_layer (sc_spec s))
           \<or> e = Thrown ''No draft PIM operations match the active LPDDR5 profile''
           \<or> e = DivByZero \<and> attention_context_tile_tokens (sc_draft s) = 0)"
proof -
  have "init_system L = Inr s" using assms by (auto simp: init_configurations_def res_simps split: if_splits)
  then have "layers_ok (sc_target s)" by (rule init_system_ok)
  from replay_fails_only [OF this] have r: "fails_only (\<lambda>e. e = DivByZero \<and> 2 ^ 32 \<le> (\<Sum>x \<leftarrow> operations (sc_target s). unat (compute_share x)))
    (replay_trace op_ns (get_synthetic_npu_info s) (sc_target s) npu)" .
  let ?cfg = "Host_config s m fl rs"
  let ?E = "\<lambda>e. e = Thrown (''Missing PIM draft template: '' @ draft_profile_layer (sc_spec s)) \<or> e = no_draft_error
    \<or> e = DivByZero \<and> attention_context_tile_tokens (sc_draft s) = 0"
  have c: "hc_spec ?cfg = sc_spec s" "hc_draft ?cfg = sc_draft s" by (simp_all add: Host_config_def)
  have "fails_only ?E (handle_speculative_trace ?cfg tc now h g)"
  proof (cases "spi_enabled (hc_pim ?cfg) \<or> op_profile ?cfg (draft_profile_layer (hc_spec ?cfg)) \<noteq> None")
    case True
    from next_control_fails_only [OF accepted_host_config [OF assms] True] have "fails_only ?E (next_control ?cfg tc now rs' h g)" for rs'
      by (rule fails_only_mono) (simp add: c)
    then show ?thesis using True by (auto simp: handle_speculative_trace_def)
  next
    case False
    then show ?thesis using c by (simp add: handle_speculative_trace_def)
  qed
  with r show ?thesis unfolding fails_only_def ..
qed

theorem accepted_configuration_replays_witness:
  "\<exists>s m as npu'. init_configurations sample_lib = Inr (s, m)
    \<and> replay_trace (\<lambda>_ _ _. 0) (get_synthetic_npu_info s) (sc_target s) sample_npu = Inr (as, npu')"
proof -
  obtain s m where i: "init_configurations sample_lib = Inr (s, m)" "attention_context_tile_tokens (sc_draft s) = 128"
    "map compute_share (operations (sc_target s)) = [3]" using sample_lib_loads by (elim exE conjE)
  have "(\<Sum>x \<leftarrow> operations (sc_target s). unat (compute_share x)) = sum_list (map unat (map compute_share (operations (sc_target s))))" by (simp add: comp_def)
  then have n: "\<not> 2 ^ 32 \<le> (\<Sum>x \<leftarrow> operations (sc_target s). unat (compute_share x))" unfolding i(3) by simp
  obtain as npu' where "replay_trace (\<lambda>_ _ _. 0) (get_synthetic_npu_info s) (sc_target s) sample_npu = Inr (as, npu')"
    using conjunct1 [OF accepted_configuration_replays [OF i(1)], of "\<lambda>_ _ _. 0" sample_npu] n
    by (cases "replay_trace (\<lambda>_ _ _. 0) (get_synthetic_npu_info s) (sc_target s) sample_npu") auto
  with i(1) show ?thesis by blast
qed

end
