(* ===== verification/System_Replay.thy ===== *)
theory System_Replay
  imports System_Model System_Config
begin

text \<open>
  Host and NPU at the assembly: during a replay both send only requests that the devices behind the arbiter can answer, so the requirement of the assembly
  on its requests is met by the initiators of the program.
\<close>

section \<open>The wrappers of a configuration\<close>

text \<open>
  Both wrappers ask the same configuration for the fast mode; the memory wrapper builds its latency model in that mode, the PIM wrapper
  in that mode and the unified structure, in which there is no DRAM.
\<close>

definition wrappers_built :: "TopConfig \<Rightarrow> bool \<Rightarrow> bool" where
  "wrappers_built cfg dr =
     (pc_fast (top_pim_config cfg) = mc_fast (top_mem_config cfg)
      \<and> (mc_model (top_mem_config cfg) \<noteq> None) = mc_fast (top_mem_config cfg)
      \<and> pc_unified (top_pim_config cfg) = (\<not> dr)
      \<and> (pc_model (top_pim_config cfg) \<noteq> None) = (pc_fast (top_pim_config cfg) \<and> pc_unified (top_pim_config cfg)))"

section \<open>Requests of the NPU\<close>

definition npu_request :: "bool \<Rightarrow> payload \<Rightarrow> bool" where
  "npu_request dr t = (gp_command t \<in> {TLM_READ, TLM_WRITE} \<and> src_id t = NPU \<and> dst_id t = (if dr then DRAM else PIM))"

text \<open>In the detailed mode no payload object was ever a tensor request.\<close>

definition plain_objects :: "NPUTraceReplayer \<Rightarrow> bool" where
  "plain_objects s = (\<forall>p. \<not> is_macro_request (np_objects s p))"

definition npu_sent :: "bool \<Rightarrow> bool \<Rightarrow> payload \<Rightarrow> bool" where
  "npu_sent fast dr t = (npu_request dr t \<and> (fast \<or> \<not> is_macro_request t))"

definition npu_safe :: "bool \<Rightarrow> dma_pc \<Rightarrow> NPUTraceReplayer \<Rightarrow> bool" where
  "npu_safe fast pc s = ((fast \<or> plain_objects s) \<and> (case pc of Dma_window d \<Rightarrow> dma_command d \<in> {TLM_READ, TLM_WRITE} | _ \<Rightarrow> True))"

lemma issue_request_sent:
  assumes "issue_request dr d s = (t, d', s')" "dma_command d \<in> {TLM_READ, TLM_WRITE}" "fast \<or> plain_objects s"
  shows "npu_sent fast dr t \<and> dma_command d' = dma_command d \<and> (fast \<or> plain_objects s')"
  using assms by (auto simp: issue_request_def npu_sent_def npu_request_def plain_objects_def is_macro_request_def Let_def split: prod.splits if_splits)

lemma dma_run_sent:
  assumes "dma_run dr w d s = (ts, pc, s')" "dma_command d \<in> {TLM_READ, TLM_WRITE}" "fast \<or> plain_objects s"
  shows "list_all (npu_sent fast dr) ts \<and> npu_safe fast pc s'"
  using assms
proof (induction dr w d s arbitrary: ts pc s' rule: dma_run.induct)
  case (1 dr w d s)
  show ?case
  proof (cases "dma_remaining d = 0")
    case True
    then show ?thesis using "1.prems" by (auto simp: dma_run.simps [of dr w d s] npu_safe_def)
  next
    case False
    obtain t d1 s1 where i: "issue_request dr d s = (t, d1, s1)" by (metis prod_cases3)
    note sent = issue_request_sent [OF i "1.prems"(2,3)]
    show ?thesis
    proof (cases "w \<le> pending_responses s1")
      case True
      then show ?thesis using "1.prems"(1,2) False i sent by (auto simp: dma_run.simps [of dr w d s] npu_safe_def)
    next
      case less: False
      obtain us pc2 s2 where u: "dma_run dr w d1 s1 = (us, pc2, s2)" by (metis prod_cases3)
      have r: "ts = t # us" "pc = pc2" "s' = s2" using "1.prems"(1) False i u less by (simp_all add: dma_run.simps [of dr w d s])
      have "list_all (npu_sent fast dr) us \<and> npu_safe fast pc2 s2"
        by (rule "1.IH" [OF False i [symmetric] refl less u]) (use sent "1.prems"(2) in auto)
      then show ?thesis using r sent by simp
    qed
  qed
qed

lemma dma_steps_sent:
  assumes "dma_steps dr w xs (pc, s) = Inr (ts, pc', s')" "npu_safe fast pc s"
  shows "list_all (npu_sent fast dr) ts"
  using assms
proof (induction xs arbitrary: pc s ts)
  case (Cons x xs)
  obtain us pc1 s1 vs where x: "dma_step dr w x (pc, s) = Inr (us, pc1, s1)" "dma_steps dr w xs (pc1, s1) = Inr (vs, pc', s')" "ts = us @ vs"
    using Cons.prems(1) by (auto simp: res_simps)
  have "list_all (npu_sent fast dr) us \<and> npu_safe fast pc1 s1"
  proof (cases x)
    case (Dma_response t)
    then show ?thesis using x(1) Cons.prems(2)
      by (auto simp: npu_peq_bw_cb_def complete_memory_response_def res_simps npu_safe_def plain_objects_def split: if_splits dma_pc.splits)
  next
    case Dma_wake
    show ?thesis
    proof (cases "response_event s")
      case True
      show ?thesis
      proof (cases pc)
        case (Dma_window d)
        then have r: "dma_run dr w d (s\<lparr>response_event := False\<rparr>) = (us, pc1, s1)" using x(1) Dma_wake True by (simp add: dma_wake_def)
        show ?thesis by (rule dma_run_sent [OF r]) (use Cons.prems(2) Dma_window in \<open>auto simp: npu_safe_def plain_objects_def\<close>)
      qed (use x(1) Dma_wake True Cons.prems(2) in \<open>auto simp: dma_wake_def npu_safe_def plain_objects_def\<close>)
    qed (use x(1) Dma_wake Cons.prems(2) in \<open>auto simp: dma_wake_def\<close>)
  qed
  then show ?case using Cons.IH [OF x(2)] x(3) by simp
qed simp

text \<open>A transfer by lines, or in the fast mode by one tensor request.\<close>

definition start_transfer :: "bool \<Rightarrow> bool \<Rightarrow> u32 \<Rightarrow> tlm_command \<Rightarrow> u64 \<Rightarrow> string \<Rightarrow> NPUTraceReplayer \<Rightarrow> payload list \<times> dma_pc \<times> NPUTraceReplayer" where
  "start_transfer fast dr w cmd bytes layer s =
     (if fast then issue_fast_memory dr cmd bytes layer s else issue_memory dr w cmd (ucast bytes) layer s)"

lemma start_transfer_sent:
  assumes "start_transfer fast dr w cmd bytes layer s = (ts, pc, s')" "cmd \<in> {TLM_READ, TLM_WRITE}" "fast \<or> plain_objects s"
  shows "list_all (npu_sent fast dr) ts \<and> npu_safe fast pc s'"
proof (cases fast)
  case True
  then show ?thesis
    using assms by (auto simp: start_transfer_def issue_fast_memory_def npu_sent_def npu_request_def npu_safe_def Let_def split: if_splits prod.splits)
next
  case False
  let ?d = "\<lparr>dma_command = cmd, dma_layer = layer, dma_remaining = ucast bytes, dma_burst_id = 0,
    dma_burst_size = (ucast bytes + req_bytes s - 1) div req_bytes s\<rparr>"
  have s: "fast \<or> plain_objects (s\<lparr>pending_responses := 0, response_event := False\<rparr>)" using assms(3) by (auto simp: plain_objects_def)
  show ?thesis
  proof (cases "(ucast bytes + req_bytes s - 1) div req_bytes s = 0")
    case True
    then show ?thesis using assms False by (auto simp: start_transfer_def issue_memory_def npu_safe_def Let_def)
  next
    case nz: False
    then have "dma_run dr w ?d (s\<lparr>pending_responses := 0, response_event := False\<rparr>) = (ts, pc, s')"
      using assms(1) False by (simp add: start_transfer_def issue_memory_def Let_def)
    from dma_run_sent [OF this _ s] show ?thesis using assms(2) by simp
  qed
qed

lemma npu_request_fits:
  assumes "wrappers_built cfg dr" "npu_sent fast dr t" "fast \<longrightarrow> mc_fast (top_mem_config cfg)" "dr \<or> pm"
  shows "top_op_ok cfg dr pm (Top_request t)"
  using assms by (auto simp: wrappers_built_def npu_sent_def npu_request_def top_fits_def device_sockets_def initiator_sockets_def mem_payload_ok_def macro_ok_def)

section \<open>Requests of the host\<close>

definition host_request :: "payload \<Rightarrow> bool" where
  "host_request t = (src_id t = HOST \<and> (dst_id t = NPU \<or> dst_id t = PIM \<and> gp_command t = TLM_PIM))"

lemma host_request_fits: "host_request t \<Longrightarrow> dst_id t \<noteq> NPU \<Longrightarrow> pm \<Longrightarrow> top_op_ok cfg dr pm (Top_request t)"
  by (auto simp: host_request_def top_fits_def device_sockets_def initiator_sockets_def macro_ok_def)

lemma host_steps_socket:
  "host_steps cfg tc xs (pc, h, g) = Inr (outs, st) \<Longrightarrow> list_all (\<lambda>(i, t). i = (if dst_id t = NPU then 0 else 1)) outs"
proof (induction xs arbitrary: pc h g outs)
  case (Cons x xs)
  obtain out pc1 h1 g1 us where x: "host_step cfg tc x (pc, h, g) = Inr (out, pc1, h1, g1)" "host_steps cfg tc xs (pc1, h1, g1) = Inr (us, st)" "outs = out @ us"
    using Cons.prems by (auto simp: res_simps)
  have "list_all (\<lambda>(i, t). i = (if dst_id t = NPU then 0 else 1)) out"
    using x(1) by (cases x) (auto simp: res_simps host_clock_negedge_def split: list.splits)
  then show ?case using Cons.IH [OF x(2)] x(3) by simp
qed simp

lemma host_request_mark: "host_request t = (case launch_mark t of (s, d, c, l) \<Rightarrow> s = HOST \<and> (d = NPU \<or> d = PIM \<and> c = TLM_PIM))"
  by (simp add: host_request_def launch_mark_def)

lemma host_requests_ok:
  assumes "host_steps cfg tc xs (Host_barrier l rest False False, h, g) = Inr (outs, pc', h', g')" "\<forall>tr \<in> set (h_trace_q h). \<exists>l. tr = SimTrace l"
    "list_all host_request (h_pending_q h)"
  shows "list_all host_request (map snd outs)"
proof -
  let ?ok = "\<lambda>(s, d, c, l). s = HOST \<and> (d = NPU \<or> d = PIM \<and> c = TLM_PIM)"
  have i: "speculating (Host_barrier l rest False False) h" "barrier_inv 0 0 0 (Host_barrier l rest False False)"
    using assms(2) by (auto simp: speculating_def barrier_inv_def)
  obtain j where j: "map launch_mark (map snd outs @ h_pending_q h') = map launch_mark (h_pending_q h) @ concat (map (launch_spec cfg) (take j rest))"
    using host_steps_ok [OF assms(1) i] by auto
  have spec: "list_all ?ok (launch_spec cfg c)" for c by (auto simp: launch_spec_def list_all_iff split: sum.splits)
  then have "list_all ?ok (concat (map (launch_spec cfg) cs))" for cs by (induction cs) simp_all
  moreover have "list_all ?ok (map launch_mark (h_pending_q h))" using assms(3) by (auto simp: list_all_iff host_request_mark)
  ultimately have "list_all ?ok (map launch_mark (map snd outs @ h_pending_q h'))" unfolding j list_all_append by simp
  then show ?thesis by (auto simp: list_all_iff host_request_mark)
qed


section \<open>Properties\<close>



definition demo_host_ops :: "host_op list" where
  "demo_host_ops = [Host_pim_done, Host_run 5, Host_npu_done, Host_run 9, Host_negedge, Host_negedge]"

definition demo_replay_config :: TopConfig where
  "demo_replay_config = demo_top_config\<lparr>top_pim_config := demo_pim_config\<lparr>pc_unified := False\<rparr>\<rparr>"

lemma demo_transfer:
  obtains ts npc npu1 where "start_transfer False True 4 TLM_READ 128 ''w'' sample_npu = (ts, npc, npu1)" "length ts = 2"
proof -
  have "case start_transfer False True 4 TLM_READ 128 ''w'' sample_npu of (ts, _, _) \<Rightarrow> length ts = 2" by code_simp
  then show thesis by (auto split: prod.splits intro: that)
qed

lemma demo_host_run:
  obtains outs pc' h' g' where
    "host_steps host_config exact_times demo_host_ops (Host_barrier ''b'' [host_control 1] False False, host_state, host_sim) = Inr (outs, pc', h', g')"
    "map fst outs = [0, 1]"
proof -
  have "case host_steps host_config exact_times demo_host_ops (Host_barrier ''b'' [host_control 1] False False, host_state, host_sim) of
      Inr (outs, _) \<Rightarrow> map fst outs = [0, 1] | _ \<Rightarrow> False" by code_simp
  then show thesis by (auto split: sum.splits intro: that)
qed


end
