(* ===== verification/Spec2Isabelle.thy ===== *)
theory Spec2Isabelle
  imports Front_Ends System_Replay
begin

text \<open>
  A verification library for the memory simulator of the NPEX artifact, \<^verbatim>\<open>src/NPEX-artifact\<close>.

  \<^bold>\<open>The program.\<close>  \<^verbatim>\<open>DRAMsim3/src\<close> is a cycle-accurate DRAM simulator.  A configuration file yields the
  geometry, the timing parameters and the address mapping (\<^verbatim>\<open>configuration.cc\<close>); the timing parameters
  yield tables of minimal distances between commands (\<^verbatim>\<open>timing.cc\<close>).  Each channel has a controller
  (\<^verbatim>\<open>controller.cc\<close>) that accepts transactions, turns them into commands of a command queue
  (\<^verbatim>\<open>command_queue.cc\<close>), asks the channel state (\<^verbatim>\<open>channel_state.cc\<close>, a three-dimensional array of the
  bank automata of \<^verbatim>\<open>bankstate.cc\<close>) which command may be issued, interleaves refreshes
  (\<^verbatim>\<open>refresh.cc\<close>), returns finished transactions, and keeps statistics (\<^verbatim>\<open>simple_stats.cc\<close>).  A memory
  system distributes transactions over its controllers and invokes the callbacks of the front end
  (\<^verbatim>\<open>dram_system.cc\<close>); the hybrid memory cube puts a packet network in front of them (\<^verbatim>\<open>hmc.cc\<close>); \<^verbatim>\<open>memory_system.cc\<close> hides which of them is configured.  Requests
  come from the generators and the trace player of \<^verbatim>\<open>cpu.cc\<close> in a stand-alone simulation (\<^verbatim>\<open>main.cc\<close>), or
  through \<^verbatim>\<open>bridge.cc\<close> from the system simulator \<^verbatim>\<open>hsim\<close>, which replays speculative decoding.  \<^verbatim>\<open>configurations.cpp\<close> reads and
  validates its configuration; \<^verbatim>\<open>trace_generator.cpp\<close> loads the records of the runs to replay; the host (\<^verbatim>\<open>host.cpp\<close>) launches for each record the
  target run on the NPU (\<^verbatim>\<open>npu_trace_replayer.cpp\<close>) and the draft on the PIM device and waits for both; the arbiter
  (\<^verbatim>\<open>arbiter.cpp\<close>) carries their requests to the memory wrapper (\<^verbatim>\<open>mem_wrapper.cpp\<close>) and the PIM wrapper (\<^verbatim>\<open>pim_wrapper.cpp\<close>),
  each with a bridge to a memory system or a latency model for tensor-sized requests (\<^verbatim>\<open>dram_macro_model.cpp\<close>), and the responses back;
  \<^verbatim>\<open>Top.h\<close> puts the modules together.

  \<^bold>\<open>The theories.\<close>
  \<^item> \<open>Npex_Prelude\<close>: machine integers, failures as values (\<open>failure\<close>, \<open>res\<close>, \<open>bindE\<close>, \<open>succeeds\<close>), checked
    vector access, loops, bounded queues.
  \<^item> \<open>Dram_Common\<close> (\<^verbatim>\<open>common.h/.cc\<close>) and \<open>Dram_Config\<close> (\<^verbatim>\<open>configuration.h/.cc\<close>): data types and parameters;
    \<open>Address_Mapping\<close>: decoding of addresses is total, stays inside the geometry and inverts the
    layout of the fields.
  \<^item> \<open>Dram_Timing\<close> (\<^verbatim>\<open>timing.cc\<close>): distances and tables.
  \<^item> \<open>Bank_State\<close> (\<^verbatim>\<open>bankstate.cc\<close>): the automaton of a bank; what it reports as ready is legal, and every
    access is eventually served.
  \<^item> \<open>Channel_State\<close> (\<^verbatim>\<open>channel_state.cc\<close>): the operations of a channel; \<open>Channel_Issue\<close>: its invariant and
    the pointwise effect of issuing a command; \<open>Timing_Safety\<close>: over whole runs any two commands keep
    the distance of the tables (through the interface \<open>timing_monitor\<close>), and activations respect
    the windows.
  \<^item> \<open>Refresh_Policy\<close> (\<^verbatim>\<open>refresh.cc\<close>): rate and order of refresh requests.
  \<^item> \<open>Simple_Stats\<close> (\<^verbatim>\<open>simple_stats.cc\<close>): the integer part of the statistics; closing an epoch accounts for every counter, value and bin.
  \<^item> \<open>Command_Queue\<close> (\<^verbatim>\<open>command_queue.cc\<close>): selection of commands is exact, complete and respects refreshes.
  \<^item> \<open>Mem_Controller\<close> (\<^verbatim>\<open>controller.cc\<close>): the controller and its clock cycle; \<open>Controller_Safety\<close>: the
    invariant of its reachable states, from which follow that no cycle aborts, that each accepted
    transaction is answered exactly once, that commands respect the timing tables, and that with separate
    queues writes do not pass reads; why self refresh and HBM dual commands are excluded (below).
  \<^item> \<open>Dram_System\<close> (\<^verbatim>\<open>dram_system.cc\<close>): the interface \<open>memory_backend\<close> between front ends and memory systems,
    interpreted for the system with one controller per channel and for the ideal system.
  \<^item> \<open>Hmc_System\<close> and \<open>Hmc_Safety\<close> (\<^verbatim>\<open>hmc.cc\<close>): the cube, and the same interface interpreted for it.  Its
    two loops that are not bounded by a container carry a bound: the search for a free link runs at most once per
    link and the logic clock advances at least 1 ps of the 800 ps of a DRAM cycle per iteration;
    both bounds are proved to suffice.

  \<^item> \<open>Memory_System\<close> (\<^verbatim>\<open>memory_system.cc\<close>): the facade, an instance of the same interface.
  \<^item> \<open>Front_Ends\<close> (\<^verbatim>\<open>cpu.cc\<close>, \<^verbatim>\<open>main.cc\<close>): whole simulations never abort, traces are replayed in order, the stream kernel
    makes each access once.  The random generator is a parameter.
  \<^item> \<open>Tlm_Bridge\<close> (\<^verbatim>\<open>bridge.cc\<close>): the interface \<open>payload_device\<close> of a device that takes payloads and gives them back, interpreted for
    the bridge; PIM commands run as a reference single server (\<open>pim_server\<close>) runs them.  The conversion of nanoseconds to simulation time is a
    parameter.
  \<^item> \<open>Performance_Metrics\<close> (\<^verbatim>\<open>hsim/utilities/performance_metrics.cpp\<close>): the times of the report are measures of sets of nanoseconds, and no
    request is lost in the accounting.
  \<^item> \<open>Payload_Pool\<close> (\<^verbatim>\<open>hsim/utilities/mm.cpp\<close>): the pool of payloads on an explicit heap refines a stack and never hands out a
    payload twice.

  \<^item> \<open>Sim_Globals\<close> (\<^verbatim>\<open>sync_object.h\<close>, \<^verbatim>\<open>logger.cpp\<close> and the global variables): signals, the cycle log, and the state that all modules share.
  \<^item> \<open>Dram_Macro\<close> (\<^verbatim>\<open>dram_macro_model.cpp\<close>): tensor-sized requests and the measurement of a stream; the fit is a parameter.
  \<^item> \<open>Pim_Wrapper\<close> and \<open>Pim_Safety\<close> (\<^verbatim>\<open>pim_wrapper.cpp\<close>), \<open>Mem_Wrapper\<close> (\<^verbatim>\<open>mem_wrapper.cpp\<close>): the threads as functions between two waits; under any
    interleaving each payload is answered once, and in the unified device memory accesses and computations exclude each other.
  \<^item> \<open>Npu_Replayer\<close> (\<^verbatim>\<open>npu_trace_replayer.cpp\<close>): transfers are exact and stay within their window; the granularity does not change the work.
  \<^item> \<open>Arbiter_Model\<close> (\<^verbatim>\<open>arbiter.cpp\<close>): requests and responses are routed in order, none is lost, each on the socket
    to which \<^verbatim>\<open>Top.h\<close> binds its device or initiator (\<open>device_sockets\<close>, \<open>initiator_sockets\<close>).
  \<^item> \<open>Control_Trace\<close> (\<^verbatim>\<open>trace_generator.cpp\<close>, model profiles of \<^verbatim>\<open>configurations.cpp\<close>): accepted records are consistent, samples are grouped as a
    reference definition says, the selection is exact.  The JSON library is the parameter \<open>Json\<close> with the laws \<open>json_laws\<close>.
  \<^item> \<open>Host_Model\<close> (\<^verbatim>\<open>host.cpp\<close>, the rest of \<^verbatim>\<open>trace_generator.cpp\<close>): the draft stream is the reference stream \<open>draft_requests\<close> and only its final
    transaction is the last, and control records never overlap.  Scaled delays are the parameter \<open>HostFloats\<close>.
  \<^item> \<open>System_Model\<close> (\<^verbatim>\<open>Top.h\<close>): the interface \<open>sim_device\<close> of a device behind the arbiter, interpreted for both wrappers, and the assembly in the three
    memory structures: every request is answered once.
  \<^item> \<open>System_Config\<close> (\<^verbatim>\<open>configurations.cpp\<close>): what an accepted configuration satisfies, and that it can be replayed.  JSON, floating-point
    comparisons, files and environment are the parameter \<open>ConfigLib\<close>.
  \<^item> \<open>System_Replay\<close>: host and NPU send only requests that the assembled devices can answer.

  \<^bold>\<open>Time and concurrency.\<close>  The processes of \<^verbatim>\<open>hsim\<close> run under the SystemC kernel.  A thread is a function from one wait to the next, a method is a function,
  an event queue a list; a run is any sequence of such steps, which includes every order the kernel can choose.  Times are picoseconds; the conversion
  from nanoseconds is the parameter \<open>TimeConv\<close>.  The theorems on devices bound the number of iterations of their threads by the horizon of the
  clock of the memory system (\<open>mem_horizon\<close>) and the number of requests by 32 bits, the width of the counters.

  \<^bold>\<open>Conventions.\<close>  Every \<^verbatim>\<open>AbruptExit\<close>, \<^verbatim>\<open>exit\<close>, index out of range and division by zero of the sources is a
  value of \<open>failure\<close>; a theorem of the form \<open>succeeds m P\<close> says that none of them happens and the
  result satisfies \<open>P\<close>.  Clocks and deadlines are 64-bit words and wrap; theorems on distances
  assume that no deadline exceeds 64 bits.

  \<^bold>\<open>Preconditions.\<close>  The theorems on controllers and on what is built on them (memory systems, cube, front ends, bridge, wrappers, assembly) are
  for configurations with consistent geometry and timing (\<open>new_config\<close>, \<open>jedec_config\<close>, \<open>hmc_config\<close>, \<open>bridge_config\<close>) and with self refresh
  and HBM dual commands disabled (\<open>ctl_config\<close>).  Both are modelled in \<open>Mem_Controller\<close> and excluded for a reason:
  \<open>self_refresh_wake_aborts\<close> shows that waking a rank ends the program and \<open>dual_command_drops_access\<close> that a second access can leave the queue without
  being issued.  The memory wrapper answers reads, writes of the NPU, and host writes that are adder-tree results or have a synchronisation entry
  (\<open>mem_payload_ok\<close>); \<open>foreign_write_lost\<close> and \<open>unsynchronised_burst_throws\<close> show what happens to others.  A response to the MCU is called on a
  socket that \<^verbatim>\<open>Top.h\<close> does not bind and fails (\<open>mcu_response_unbound\<close>), so the requests considered come from the host and the NPU.  In the
  baseline structure the host's draft has no device (\<open>unbound_pim_fails\<close>), and the whole replay is stated for the structures with a PIM device.
  A shift of an address field by 64 or more, undefined in C++, gives 0 in \<open>select_field\<close>; the counter \<open>total_cycle\<close> of the wrapper, which the
  source leaves uninitialised, starts at 0 and no theorem depends on it.

  \<^bold>\<open>Not modelled.\<close>  The thermal model and all floating-point results (energy, percentages, averages, the fit of the latency model, the
  estimate of an operation, scaled delays), which are left out or are parameters; the printing of reports and messages; the parsing of arguments, of INI
  files and of JSON and CSV text; the compiler section and the text files of synchronisation entries, which no configuration of the
  simulator reads (so their maps are arbitrary, or empty in \<open>Host_config\<close>); the scheduling of the SystemC kernel beyond arbitrary
  interleavings; \<^verbatim>\<open>sc_main.cpp\<close> and the measurement tool \<^verbatim>\<open>dramsim3_channel_sweep.cpp\<close>.
\<close>

end
